(* ===== verification/Prelude.thy ===== *)
theory Prelude
  imports Main "HOL-Library.Word" "HOL-Library.AList" "HOL-Library.List_Lexorder"
    "HOL-Library.Multiset" "HOL-Library.Product_Lexorder" "HOL-Library.Sublist"
begin

text \<open>
  Vocabulary shared by every component of the development.

  \<^item> Machine integers: Rust's \<open>u8\<close>, \<open>u32\<close>, \<open>u64\<close> are words of that width. Plain \<open>+\<close>,
    \<open>-\<close>, \<open>*\<close> on words wrap, which is what a release build of the program does (its
    \<^verbatim>\<open>Cargo.toml\<close> sets no profile, so overflow checks are off there);
    \<open>saturating_add\<close>, \<open>saturating_sub\<close> and \<open>saturating_mul\<close> are \<open>sat_add\<close>, \<open>sat_sub\<close> and
    \<open>sat_mul\<close>. A \<open>usize\<close> that counts the elements of a collection is a \<open>nat\<close>.
  \<^item> Byte strings, hashes and addresses are lists of bytes; Rust's \<open>Ord\<close> on byte arrays is
    the lexicographic order of \<open>List_Lexorder\<close>. \<open>le_bytes\<close> is \<open>to_le_bytes\<close>.
  \<^item> A \<open>HashMap\<close> is an association list with distinct keys (\<open>AList.update\<close>,
    \<open>AList.delete\<close>, \<open>map_of\<close>). An operation that iterates over a \<open>HashMap\<close> or a
    \<open>HashSet\<close> takes the enumeration it meets as an argument.
  \<^item> A \<open>BTreeMap\<close> and a column family of the key-value store are association lists in
    strictly ascending key order (\<open>omap_insert\<close>, \<open>omap_delete\<close>).
  \<^item> A \<open>Result\<close> is a sum, \<open>Inl\<close> the error and \<open>Inr\<close> the value.
\<close>

section \<open>Types and fact collections\<close>

type_synonym u8 = "8 word"
type_synonym u32 = "32 word"
type_synonym u64 = "64 word"
type_synonym i32 = "32 word"
type_synonym bytes = "u8 list"
type_synonym address = bytes
type_synonym block_hash = bytes
type_synonym tx_id = bytes

named_theorems arith_word "saturating and wrapping arithmetic, read as natural numbers"
named_theorems container "lookup and key facts of the map models"

section \<open>Saturating arithmetic\<close>

definition sat_add :: "'a::len word \<Rightarrow> 'a word \<Rightarrow> 'a word" where
  "sat_add a b = (if unat a + unat b < 2 ^ LENGTH('a) then a + b else - 1)"

definition sat_sub :: "'a::len word \<Rightarrow> 'a word \<Rightarrow> 'a word" where
  "sat_sub a b = (if b \<le> a then a - b else 0)"

definition sat_mul :: "'a::len word \<Rightarrow> 'a word \<Rightarrow> 'a word" where
  "sat_mul a b = (if unat a * unat b < 2 ^ LENGTH('a) then a * b else - 1)"

lemma unat_minus_one_max: "unat (- 1 :: 'a::len word) = 2 ^ LENGTH('a) - 1"
  by (simp add: unsigned_minus_1_eq_mask mask_eq_exp_minus_1)

lemma unat_bound: "unat (a :: 'a::len word) < 2 ^ LENGTH('a)"
  by (rule unsigned_less)

lemma unat_sat_add [arith_word]:
  fixes a b :: "'a::len word"
  shows "unat (sat_add a b) = min (unat a + unat b) (2 ^ LENGTH('a) - 1)"
proof (cases "unat a + unat b < 2 ^ LENGTH('a)")
  case True
  then have "unat (a + b) = unat a + unat b"
    by (simp add: unat_word_ariths)
  with True show ?thesis
    by (simp add: sat_add_def)
next
  case False
  then show ?thesis
    by (simp add: sat_add_def unat_minus_one_max)
qed

text \<open>Sorting by \<open>MAX - key\<close> sorts by descending key.\<close>

lemma descending_key_le: "- 1 - a \<le> - 1 - b \<longleftrightarrow> b \<le> (a :: 'a::len word)"
proof -
  have "unat (- 1 - x) = 2 ^ LENGTH('a) - 1 - unat x" for x :: "'a word"
    by (simp add: unat_sub unat_minus_one_max)
  then show ?thesis
    using unat_bound [of a] unat_bound [of b] unfolding word_le_nat_alt by (simp only:) arith
qed

lemma unat_sat_sub [arith_word]: "unat (sat_sub a b) = unat a - unat b"
  by (auto simp: sat_sub_def unat_sub word_le_nat_alt)

lemma unat_sat_mul [arith_word]:
  fixes a b :: "'a::len word"
  shows "unat (sat_mul a b) = min (unat a * unat b) (2 ^ LENGTH('a) - 1)"
proof (cases "unat a * unat b < 2 ^ LENGTH('a)")
  case True
  then have "unat (a * b) = unat a * unat b"
    by (simp add: unat_word_ariths)
  with True show ?thesis
    by (simp add: sat_mul_def)
next
  case False
  then show ?thesis
    by (simp add: sat_mul_def unat_minus_one_max)
qed

lemma unat_add_no_overflow:
  fixes a b :: "'a::len word"
  assumes "unat a + unat b < 2 ^ LENGTH('a)"
  shows "unat (a + b) = unat a + unat b"
  using assms by (simp add: unat_word_ariths)

lemma unat_of_nat_small: "n < 2 ^ LENGTH('a) \<Longrightarrow> unat (of_nat n :: 'a::len word) = n"
  by (simp add: unat_of_nat)

lemma sat_add_ge1: "(a :: 'a::len word) \<le> sat_add a b"
proof -
  have "unat a \<le> 2 ^ LENGTH('a) - 1"
    using unat_bound [of a] by linarith
  then show ?thesis
    by (simp add: word_le_nat_alt unat_sat_add)
qed

lemma sat_add_0 [simp]: "sat_add a 0 = a" "sat_add 0 a = a"
  using unat_bound [of a] by (auto simp: sat_add_def)

lemma sat_sub_0 [simp]: "sat_sub a 0 = a"
  by (simp add: sat_sub_def)

lemma sat_mul_0 [simp]: "sat_mul a 0 = 0" "sat_mul 0 a = 0"
  by (auto simp: sat_mul_def)

section \<open>Little-endian bytes\<close>

definition le_bytes :: "nat \<Rightarrow> 'a::len word \<Rightarrow> bytes" where
  "le_bytes n x = map (\<lambda>i. ucast (drop_bit (8 * i) x)) [0..<n]"

lemma length_le_bytes [simp]: "length (le_bytes n x) = n"
  by (simp add: le_bytes_def)

lemma le_bytes_inj:
  fixes x y :: "'a::len word"
  assumes "le_bytes n x = le_bytes n y" and "LENGTH('a) \<le> 8 * n"
  shows "x = y"
proof (rule bit_word_eqI)
  fix k
  assume k: "k < LENGTH('a)"
  let ?i = "k div 8" and ?j = "k mod 8"
  from k assms(2) have i: "?i < n"
    by linarith
  have "le_bytes n x ! ?i = le_bytes n y ! ?i"
    using assms(1) by simp
  with i have "(ucast (drop_bit (8 * ?i) x) :: u8) = ucast (drop_bit (8 * ?i) y)"
    by (simp add: le_bytes_def)
  then have "bit (ucast (drop_bit (8 * ?i) x) :: u8) ?j = bit (ucast (drop_bit (8 * ?i) y) :: u8) ?j"
    by simp
  then have "bit x (8 * ?i + ?j) = bit y (8 * ?i + ?j)"
    by (simp add: bit_simps)
  then show "bit x k = bit y k"
    by simp
qed

section \<open>Maps in key order\<close>

fun omap_insert :: "'k::linorder \<Rightarrow> 'v \<Rightarrow> ('k \<times> 'v) list \<Rightarrow> ('k \<times> 'v) list" where
  "omap_insert k v [] = [(k, v)]"
| "omap_insert k v ((k', v') # xs) =
     (if k < k' then (k, v) # (k', v') # xs
      else if k = k' then (k, v) # xs
      else (k', v') # omap_insert k v xs)"

definition omap_delete :: "'k \<Rightarrow> ('k \<times> 'v) list \<Rightarrow> ('k \<times> 'v) list" where
  "omap_delete k xs = filter (\<lambda>(k', _). k' \<noteq> k) xs"

definition omap_inv :: "('k::linorder \<times> 'v) list \<Rightarrow> bool" where
  "omap_inv xs \<longleftrightarrow> sorted_wrt (<) (map fst xs)"

lemma map_of_omap_insert [container]: "map_of (omap_insert k v xs) = (map_of xs)(k \<mapsto> v)"
  by (induction k v xs rule: omap_insert.induct) auto

lemma keys_omap_insert [container]: "fst ` set (omap_insert k v xs) = insert k (fst ` set xs)"
  by (induction k v xs rule: omap_insert.induct) auto

lemma map_of_omap_delete [container]: "map_of (omap_delete k xs) = (map_of xs)(k := None)"
  by (induction xs) (auto simp: omap_delete_def fun_eq_iff)

lemma keys_omap_delete [container]: "fst ` set (omap_delete k xs) = fst ` set xs - {k}"
  by (auto simp: omap_delete_def image_iff)

lemma omap_inv_Nil [simp]: "omap_inv []"
  by (simp add: omap_inv_def)

lemma omap_inv_Cons:
  "omap_inv ((k, v) # xs) \<longleftrightarrow> (\<forall>k' \<in> fst ` set xs. k < k') \<and> omap_inv xs"
  by (auto simp: omap_inv_def)

lemma omap_inv_insert: "omap_inv xs \<Longrightarrow> omap_inv (omap_insert k v xs)"
proof (induction k v xs rule: omap_insert.induct)
  case (2 k v k' v' xs)
  then show ?case
    by (auto simp: omap_inv_Cons keys_omap_insert dest: less_trans)
qed (simp add: omap_inv_def)

lemma omap_inv_delete: "omap_inv xs \<Longrightarrow> omap_inv (omap_delete k xs)"
  by (simp add: omap_inv_def omap_delete_def sorted_wrt_map sorted_wrt_filter)

lemma omap_inv_distinct: "omap_inv xs \<Longrightarrow> distinct (map fst xs)"
  by (simp add: omap_inv_def strict_sorted_iff)

lemma length_omap_insert:
  "k \<notin> fst ` set xs \<Longrightarrow> length (omap_insert k v xs) = Suc (length xs)"
  by (induction k v xs rule: omap_insert.induct) auto

lemma set_omap_insert_fresh:
  "k \<notin> fst ` set xs \<Longrightarrow> set (omap_insert k v xs) = insert (k, v) (set xs)"
  by (induction k v xs rule: omap_insert.induct) auto

lemma mset_omap_insert_fresh:
  "k \<notin> fst ` set xs \<Longrightarrow> mset (omap_insert k v xs) = add_mset (k, v) (mset xs)"
  by (induction k v xs rule: omap_insert.induct) auto

section \<open>Hash maps\<close>

definition hm_inv :: "('k \<times> 'v) list \<Rightarrow> bool" where
  "hm_inv m \<longleftrightarrow> distinct (map fst m)"

lemma hm_inv_Nil [simp]: "hm_inv []"
  by (simp add: hm_inv_def)

lemma hm_inv_update: "hm_inv m \<Longrightarrow> hm_inv (AList.update k v m)"
  by (simp add: hm_inv_def distinct_update)

lemma hm_inv_delete: "hm_inv m \<Longrightarrow> hm_inv (AList.delete k m)"
  by (simp add: hm_inv_def distinct_delete)

lemma map_of_hm_update [container]: "map_of (AList.update k v m) = (map_of m)(k \<mapsto> v)"
  by (simp add: update_conv')

lemma map_of_hm_delete [container]: "map_of (AList.delete k m) = (map_of m)(k := None)"
  by (simp add: delete_conv')

lemma hm_key_iff: "map_of m k = None \<longleftrightarrow> k \<notin> fst ` set m"
  by (rule map_of_eq_None_iff)

lemma length_update_fresh:
  "map_of m k = None \<Longrightarrow> length (AList.update k v m) = Suc (length m)"
  by (induction m) (auto split: if_splits)

lemma length_update_old:
  "map_of m k = Some v' \<Longrightarrow> length (AList.update k v m) = length m"
  by (induction m) (auto split: if_splits)

lemma length_delete_old:
  assumes "hm_inv m" and "map_of m k = Some v"
  shows "Suc (length (AList.delete k m)) = length m"
  using assms
proof (induction m)
  case Nil
  then show ?case by simp
next
  case (Cons p m)
  show ?case
  proof (cases "fst p = k")
    case True
    with Cons.prems(1) have "k \<notin> fst ` set m"
      by (auto simp: hm_inv_def)
    then have "AList.delete k m = m"
      by (simp add: delete_id)
    with True show ?thesis
      by (cases p) (simp add: AList.delete_eq)
  next
    case False
    with Cons show ?thesis
      by (cases p) (auto simp: hm_inv_def AList.delete_eq)
  qed
qed

text \<open>\<open>entry(k).or_insert_with(Vec::new).push(v)\<close>\<close>

definition hm_push :: "'k \<Rightarrow> 'v \<Rightarrow> ('k \<times> 'v list) list \<Rightarrow> ('k \<times> 'v list) list" where
  "hm_push k v m =
     AList.update k ((case map_of m k of None \<Rightarrow> [] | Some vs \<Rightarrow> vs) @ [v]) m"

text \<open>\<open>get(k).cloned().unwrap_or_default()\<close>\<close>

definition hm_list :: "('k \<times> 'v list) list \<Rightarrow> 'k \<Rightarrow> 'v list" where
  "hm_list m k = (case map_of m k of None \<Rightarrow> [] | Some vs \<Rightarrow> vs)"

lemma hm_list_Nil [simp]: "hm_list [] k = []"
  by (simp add: hm_list_def)

lemma hm_list_push [container]:
  "hm_list (hm_push k v m) k' = (if k' = k then hm_list m k @ [v] else hm_list m k')"
  by (simp add: hm_list_def hm_push_def map_of_hm_update)

lemma hm_inv_push: "hm_inv m \<Longrightarrow> hm_inv (hm_push k v m)"
  by (simp add: hm_push_def hm_inv_update)

section \<open>Enumerations of a hash set\<close>

text \<open>
  Iterating over a \<open>HashSet\<close> visits every element exactly once, in an order the
  standard library leaves open. A model that depends on the order takes it as a function
  \<open>enum\<close>, and \<open>enumerates enum\<close> is what the standard library documents of it.
\<close>

definition enumerates :: "('a set \<Rightarrow> 'a list) \<Rightarrow> bool" where
  "enumerates enum \<longleftrightarrow> (\<forall>S. finite S \<longrightarrow> set (enum S) = S \<and> distinct (enum S))"

lemma enumerates_set: "enumerates enum \<Longrightarrow> finite S \<Longrightarrow> set (enum S) = S"
  by (simp add: enumerates_def)

lemma enumerates_distinct: "enumerates enum \<Longrightarrow> finite S \<Longrightarrow> distinct (enum S)"
  by (simp add: enumerates_def)

lemma enumerates_length: "enumerates enum \<Longrightarrow> finite S \<Longrightarrow> length (enum S) = card S"
  by (metis enumerates_set enumerates_distinct distinct_card)

lemma enumerates_sorted_list: "enumerates (sorted_list_of_set :: 'a::linorder set \<Rightarrow> 'a list)"
  by (simp add: enumerates_def)

end
