(* ===== verification/Transaction.thy ===== *)
theory Transaction
  imports Prelude
begin

text \<open>
  Signatures and transactions: \<^verbatim>\<open>src/src/crypto/mod.rs\<close> and
  \<^verbatim>\<open>src/src/core/transaction.rs\<close>.

  The SHA-256 digest (crate \<^verbatim>\<open>sha2\<close>) is the argument \<open>sha\<close>, and the operations of the
  crate \<^verbatim>\<open>secp256k1\<close> are the fields of the record \<open>secp\<close>. What the code relies on is named:
  \<open>sha_len sha\<close> (a digest has 32 bytes), \<open>sha_collision_free sha S\<close> (no two byte strings of
  \<open>S\<close> collide) and \<open>secp_ok k\<close> (recovering from a fresh signature gives the signer's key).
  A \<open>String\<close> is the list of its UTF-8 bytes, the only view of it the code takes.
\<close>

section \<open>Data\<close>

datatype crypto_algorithm = Secp256k1 | Schnorr | PostQuantum

record signature =
  algorithm :: crypto_algorithm
  sig_data :: bytes

definition empty_signature :: signature where
  "empty_signature = \<lparr>algorithm = Secp256k1, sig_data = []\<rparr>"

datatype tx_payload =
    Transfer address u64
  | ContractDeploy bytes bytes
  | ContractCall address bytes bytes

record transaction =
  tx_from :: address
  payload :: tx_payload
  tx_nonce :: u64
  gas_limit :: u64
  gas_price :: u64
  tx_signature :: signature

datatype tx_error =
    GasLimitZero | GasPriceZero | AmountZero | AddressMismatch
  | UnsupportedAlgorithm | InvalidSignatureLength | InvalidMessage
  | InvalidRecoveryId | InvalidSignature | RecoveryFailed

section \<open>External code\<close>

record ('sk, 'pk, 'rs) secp =
  message_from_digest :: "bytes \<Rightarrow> bytes option"
  recovery_id_from :: "int \<Rightarrow> int option"
  sig_from_compact :: "bytes \<Rightarrow> int \<Rightarrow> 'rs option"
  sig_to_compact :: "'rs \<Rightarrow> int \<times> bytes"
  sign_recoverable :: "bytes \<Rightarrow> 'sk \<Rightarrow> 'rs"
  recover :: "bytes \<Rightarrow> 'rs \<Rightarrow> 'pk option"
  public_key :: "'sk \<Rightarrow> 'pk"
  pk_serialize :: "'pk \<Rightarrow> bytes"

definition sha_len :: "(bytes \<Rightarrow> bytes) \<Rightarrow> bool" where
  "sha_len sha \<longleftrightarrow> (\<forall>x. length (sha x) = 32)"

definition sha_collision_free :: "(bytes \<Rightarrow> bytes) \<Rightarrow> bytes set \<Rightarrow> bool" where
  "sha_collision_free sha S \<longleftrightarrow> inj_on sha S"

definition secp_ok :: "('sk, 'pk, 'rs) secp \<Rightarrow> bool" where
  "secp_ok k \<longleftrightarrow>
     (\<forall>d. length d = 32 \<longrightarrow> message_from_digest k d = Some d) \<and>
     (\<forall>i. 0 \<le> i \<and> i \<le> 3 \<longrightarrow> recovery_id_from k i = Some i) \<and>
     (\<forall>s. 0 \<le> fst (sig_to_compact k s) \<and> fst (sig_to_compact k s) \<le> 3 \<and>
          length (snd (sig_to_compact k s)) = 64 \<and>
          sig_from_compact k (snd (sig_to_compact k s)) (fst (sig_to_compact k s)) = Some s) \<and>
     (\<forall>m sk. recover k m (sign_recoverable k m sk) = Some (public_key k sk))"

section \<open>Operations\<close>

definition new_transfer ::
  "address \<Rightarrow> address \<Rightarrow> u64 \<Rightarrow> u64 \<Rightarrow> u64 \<Rightarrow> u64 \<Rightarrow> transaction" where
  "new_transfer from to amount nonce limit price =
     \<lparr>tx_from = from, payload = Transfer to amount, tx_nonce = nonce,
      gas_limit = limit, gas_price = price, tx_signature = empty_signature\<rparr>"

definition default_transfer :: transaction where
  "default_transfer = new_transfer (replicate 20 0) (replicate 20 0) 0 0 0 0"

definition new_deploy ::
  "address \<Rightarrow> bytes \<Rightarrow> bytes \<Rightarrow> u64 \<Rightarrow> u64 \<Rightarrow> u64 \<Rightarrow> transaction" where
  "new_deploy from code init_args nonce limit price =
     \<lparr>tx_from = from, payload = ContractDeploy code init_args, tx_nonce = nonce,
      gas_limit = limit, gas_price = price, tx_signature = empty_signature\<rparr>"

definition new_call ::
  "address \<Rightarrow> address \<Rightarrow> bytes \<Rightarrow> bytes \<Rightarrow> u64 \<Rightarrow> u64 \<Rightarrow> u64 \<Rightarrow> transaction" where
  "new_call from contract method args nonce limit price =
     \<lparr>tx_from = from, payload = ContractCall contract method args, tx_nonce = nonce,
      gas_limit = limit, gas_price = price, tx_signature = empty_signature\<rparr>"

text \<open>The bytes \<open>hash\<close> feeds to the digest, in the order of its \<open>update\<close> calls.\<close>

fun payload_bytes :: "(bytes \<Rightarrow> bytes) \<Rightarrow> tx_payload \<Rightarrow> bytes" where
  "payload_bytes sha (Transfer to amount) = [0] @ to @ le_bytes 8 amount"
| "payload_bytes sha (ContractDeploy code init_args) = [1] @ sha code @ sha init_args"
| "payload_bytes sha (ContractCall contract method args) = [2] @ contract @ method @ sha args"

definition tx_preimage :: "(bytes \<Rightarrow> bytes) \<Rightarrow> transaction \<Rightarrow> bytes" where
  "tx_preimage sha tx =
     tx_from tx @ payload_bytes sha (payload tx) @ le_bytes 8 (tx_nonce tx) @
     le_bytes 8 (gas_limit tx) @ le_bytes 8 (gas_price tx)"

definition tx_hash :: "(bytes \<Rightarrow> bytes) \<Rightarrow> transaction \<Rightarrow> tx_id" where
  "tx_hash sha tx = sha (tx_preimage sha tx)"

definition sign ::
  "(bytes \<Rightarrow> bytes) \<Rightarrow> ('sk, 'pk, 'rs) secp \<Rightarrow> 'sk \<Rightarrow> transaction \<Rightarrow> tx_error + transaction" where
  "sign sha k sk tx =
     (case message_from_digest k (tx_hash sha tx) of
        None \<Rightarrow> Inl InvalidMessage
      | Some m \<Rightarrow>
          (let (recid, sig_bytes) = sig_to_compact k (sign_recoverable k m sk)
           in Inr (tx\<lparr>tx_signature :=
                \<lparr>algorithm = Secp256k1, sig_data = sig_bytes @ [word_of_int recid]\<rparr>\<rparr>)))"

definition verify_signature ::
  "(bytes \<Rightarrow> bytes) \<Rightarrow> ('sk, 'pk, 'rs) secp \<Rightarrow> transaction \<Rightarrow> tx_error + 'pk" where
  "verify_signature sha k tx =
     (let s = tx_signature tx in
      if algorithm s \<noteq> Secp256k1 then Inl UnsupportedAlgorithm
      else if length (sig_data s) \<noteq> 65 then Inl InvalidSignatureLength
      else case message_from_digest k (tx_hash sha tx) of
        None \<Rightarrow> Inl InvalidMessage
      | Some m \<Rightarrow>
          (case recovery_id_from k (uint (sig_data s ! 64)) of
             None \<Rightarrow> Inl InvalidRecoveryId
           | Some recid \<Rightarrow>
               (case sig_from_compact k (take 64 (sig_data s)) recid of
                  None \<Rightarrow> Inl InvalidSignature
                | Some rs \<Rightarrow>
                    (case recover k m rs of
                       None \<Rightarrow> Inl RecoveryFailed
                     | Some pk \<Rightarrow> Inr pk))))"

text \<open>The address of a key: the last 20 bytes of the digest of its \<open>x\<close> coordinate.\<close>

definition address_of :: "(bytes \<Rightarrow> bytes) \<Rightarrow> ('sk, 'pk, 'rs) secp \<Rightarrow> 'pk \<Rightarrow> address" where
  "address_of sha k pk = take 20 (drop 12 (sha (drop 1 (pk_serialize k pk))))"

definition tx_validate_basic ::
  "(bytes \<Rightarrow> bytes) \<Rightarrow> ('sk, 'pk, 'rs) secp \<Rightarrow> transaction \<Rightarrow> tx_error + unit" where
  "tx_validate_basic sha k tx =
     (if gas_limit tx = 0 then Inl GasLimitZero
      else if gas_price tx = 0 then Inl GasPriceZero
      else if (case payload tx of Transfer _ amount \<Rightarrow> amount = 0 | _ \<Rightarrow> False)
        then Inl AmountZero
      else case verify_signature sha k tx of
        Inl e \<Rightarrow> Inl e
      | Inr pk \<Rightarrow>
          if address_of sha k pk \<noteq> tx_from tx then Inl AddressMismatch else Inr ())"

section \<open>Well-formedness\<close>

fun payload_wf :: "tx_payload \<Rightarrow> bool" where
  "payload_wf (Transfer to amount) \<longleftrightarrow> length to = 20"
| "payload_wf (ContractDeploy code init_args) \<longleftrightarrow> True"
| "payload_wf (ContractCall contract method args) \<longleftrightarrow> length contract = 20"

text \<open>The array lengths that Rust's types \<open>[u8; 20]\<close> fix.\<close>

definition tx_wf :: "transaction \<Rightarrow> bool" where
  "tx_wf tx \<longleftrightarrow> length (tx_from tx) = 20 \<and> payload_wf (payload tx)"

text \<open>What of a payload its bytes determine: code, arguments only through their digest.\<close>

fun payload_core :: "(bytes \<Rightarrow> bytes) \<Rightarrow> tx_payload \<Rightarrow> tx_payload" where
  "payload_core sha (Transfer to amount) = Transfer to amount"
| "payload_core sha (ContractDeploy code init_args) = ContractDeploy (sha code) (sha init_args)"
| "payload_core sha (ContractCall contract method args) = ContractCall contract method (sha args)"

section \<open>Lemmas\<close>

lemma sha_lenD [simp]: "sha_len sha \<Longrightarrow> length (sha x) = 32"
  by (simp add: sha_len_def)

lemma tx_hash_length: "sha_len sha \<Longrightarrow> length (tx_hash sha tx) = 32"
  by (simp add: tx_hash_def)

lemma tx_hash_ignores_signature [simp]: "tx_hash sha (tx\<lparr>tx_signature := s\<rparr>) = tx_hash sha tx"
  by (simp add: tx_hash_def tx_preimage_def)

lemma le_bytes8_inj [simp]: "le_bytes 8 (x :: u64) = le_bytes 8 y \<longleftrightarrow> x = y"
  using le_bytes_inj [of 8 x y] by auto

lemma le_bytes4_inj [simp]: "le_bytes 4 (x :: u32) = le_bytes 4 y \<longleftrightarrow> x = y"
  using le_bytes_inj [of 4 x y] by auto

lemma append_suffix_eq:
  "length ys = length ys' \<Longrightarrow> xs @ ys = xs' @ ys' \<longleftrightarrow> xs = xs' \<and> ys = ys'"
  by (auto simp: append_eq_append_conv)

lemma payload_bytes_inj:
  assumes "sha_len sha" and "payload_wf p" and "payload_wf q"
    and "payload_bytes sha p = payload_bytes sha q"
  shows "payload_core sha p = payload_core sha q"
  using assms by (cases p; cases q) (auto simp: append_suffix_eq)

lemma u8_roundtrip: "0 \<le> i \<Longrightarrow> i \<le> 3 \<Longrightarrow> uint (word_of_int i :: u8) = i"
  by (simp add: uint_word_of_int)

lemma verify_signature_sign:
  assumes sha: "sha_len sha" and k: "secp_ok k" and "sign sha k sk tx = Inr tx'"
  shows "verify_signature sha k tx' = Inr (public_key k sk)"
proof -
  let ?h = "tx_hash sha tx" and ?s = "sign_recoverable k (tx_hash sha tx) sk"
  obtain recid sb where c: "sig_to_compact k ?s = (recid, sb)"
    by force
  from k sha have m: "message_from_digest k ?h = Some ?h"
    by (simp add: secp_ok_def tx_hash_length)
  from k [unfolded secp_ok_def] c have r: "0 \<le> recid" "recid \<le> 3" "length sb = 64"
      "sig_from_compact k sb recid = Some ?s" "recovery_id_from k recid = Some recid"
    by (metis fst_conv snd_conv)+
  from k have rec: "recover k ?h ?s = Some (public_key k sk)"
    by (simp add: secp_ok_def)
  from assms(3) m c have tx': "tx' = tx\<lparr>tx_signature :=
      \<lparr>algorithm = Secp256k1, sig_data = sb @ [word_of_int recid]\<rparr>\<rparr>"
    by (simp add: sign_def)
  show ?thesis
    using r rec m by (simp add: tx' verify_signature_def Let_def nth_append u8_roundtrip)
qed

lemma signed_tx_validates:
  assumes "sha_len sha" and "secp_ok k"
    and "tx_from tx = address_of sha k (public_key k sk)"
    and "gas_limit tx \<noteq> 0" and "gas_price tx \<noteq> 0"
    and "\<forall>to amount. payload tx = Transfer to amount \<longrightarrow> amount \<noteq> 0"
  shows "\<exists>tx'. sign sha k sk tx = Inr tx' \<and> tx_validate_basic sha k tx' = Inr ()
           \<and> tx_hash sha tx' = tx_hash sha tx"
proof -
  from assms(1,2) have "message_from_digest k (tx_hash sha tx) = Some (tx_hash sha tx)"
    by (simp add: secp_ok_def tx_hash_length)
  then obtain s where s: "sign sha k sk tx = Inr (tx\<lparr>tx_signature := s\<rparr>)"
    by (cases "sig_to_compact k (sign_recoverable k (tx_hash sha tx) sk)") (auto simp: sign_def)
  from verify_signature_sign [OF assms(1,2) s] assms(3-6)
  have "tx_validate_basic sha k (tx\<lparr>tx_signature := s\<rparr>) = Inr ()"
    by (auto simp: tx_validate_basic_def split: tx_payload.splits)
  with s show ?thesis
    by auto
qed

section \<open>Sample instances\<close>

text \<open>A digest and a signature scheme with one key, at which the hypotheses hold.\<close>

definition sample_sha :: "bytes \<Rightarrow> bytes" where
  "sample_sha x = replicate 32 (of_nat (length x))"

definition sample_secp :: "(unit, unit, unit) secp" where
  "sample_secp =
     \<lparr>message_from_digest = Some,
      recovery_id_from = (\<lambda>i. if 0 \<le> i \<and> i \<le> 3 then Some i else None),
      sig_from_compact = (\<lambda>s i. Some ()), sig_to_compact = (\<lambda>_. (1, replicate 64 7)),
      sign_recoverable = (\<lambda>m sk. ()), recover = (\<lambda>m s. Some ()),
      public_key = (\<lambda>_. ()), pk_serialize = (\<lambda>_. replicate 33 2)\<rparr>"

lemma sample_sha_len [simp]: "sha_len sample_sha"
  by (simp add: sha_len_def sample_sha_def)

lemma sample_secp_ok [simp]: "secp_ok sample_secp"
  by (simp add: secp_ok_def sample_secp_def)

section \<open>Properties\<close>

text \<open>
  Signing and validating agree: a transaction whose gas fields and amount are non-zero
  and whose sender is the address of the signing key passes \<open>validate_basic\<close> once
  \<open>sign\<close> has run on it, and \<open>sign\<close> does succeed.
\<close>

theorem sign_then_validate:
  assumes "sha_len sha" and "secp_ok k"
    and "tx_from tx = address_of sha k (public_key k sk)"
    and "gas_limit tx \<noteq> 0" and "gas_price tx \<noteq> 0"
    and "\<forall>to amount. payload tx = Transfer to amount \<longrightarrow> amount \<noteq> 0"
  shows "\<exists>tx'. sign sha k sk tx = Inr tx' \<and> tx_validate_basic sha k tx' = Inr ()
           \<and> tx_hash sha tx' = tx_hash sha tx"
  using assms by (rule signed_tx_validates)

theorem sign_then_validate_witness:
  "\<exists>tx'. sign sample_sha sample_secp () (new_transfer (replicate 20 32) (replicate 20 1) 5 0 21 1) = Inr tx'
     \<and> tx_validate_basic sample_sha sample_secp tx' = Inr ()
     \<and> tx_hash sample_sha tx' =
         tx_hash sample_sha (new_transfer (replicate 20 32) (replicate 20 1) 5 0 21 1)"
proof (rule sign_then_validate [OF sample_sha_len sample_secp_ok])
  show "tx_from (new_transfer (replicate 20 32) (replicate 20 1) 5 0 21 1) =
      address_of sample_sha sample_secp (public_key sample_secp ())"
    by (simp add: new_transfer_def address_of_def sample_sha_def sample_secp_def)
qed (simp_all add: new_transfer_def)

text \<open>
  The bytes that \<open>hash\<close> digests determine the transaction up to its signature: sender,
  nonce, gas fields, the payload's kind and its fields (code and arguments through their
  digests). The variable-length method name creates no ambiguity.
\<close>

theorem tx_preimage_inj:
  assumes "sha_len sha" and "tx_wf t" and "tx_wf u" and "tx_preimage sha t = tx_preimage sha u"
  shows "tx_from t = tx_from u \<and> tx_nonce t = tx_nonce u \<and> gas_limit t = gas_limit u
    \<and> gas_price t = gas_price u \<and> payload_core sha (payload t) = payload_core sha (payload u)"
proof -
  let ?tail = "\<lambda>x. le_bytes 8 (tx_nonce x) @ le_bytes 8 (gas_limit x) @ le_bytes 8 (gas_price x)"
  have split: "tx_from t @ (payload_bytes sha (payload t) @ ?tail t) =
      tx_from u @ (payload_bytes sha (payload u) @ ?tail u)"
    using assms(4) by (simp only: tx_preimage_def append_assoc)
  from assms(2,3) have len: "length (tx_from t) = length (tx_from u)"
    by (simp only: tx_wf_def)
  note parts = append_eq_append_conv [THEN iffD1, OF disjI1, OF len split]
  note f = parts [THEN conjunct1]
  have "length (?tail t) = length (?tail u)"
    by (simp only: length_append length_le_bytes)
  note rest = append_eq_append_conv [THEN iffD1, OF disjI2, OF this parts [THEN conjunct2]]
  have "payload_core sha (payload t) = payload_core sha (payload u)"
    by (rule payload_bytes_inj [OF assms(1)]) (use assms(2,3) rest in \<open>simp_all only: tx_wf_def\<close>)
  moreover have "tx_nonce t = tx_nonce u" "gas_limit t = gas_limit u" "gas_price t = gas_price u"
    using rest [THEN conjunct2] by simp_all
  ultimately show ?thesis
    using f by blast
qed

theorem tx_preimage_inj_witness:
  "payload_core sample_sha (ContractCall (replicate 20 1) [109] [7]) =
   payload_core sample_sha (ContractCall (replicate 20 1) [109] [9])"
  using tx_preimage_inj [of sample_sha "new_call (replicate 20 3) (replicate 20 1) [109] [7] 0 21 1"
      "new_call (replicate 20 3) (replicate 20 1) [109] [9] 0 21 1"]
  by (simp add: new_call_def tx_wf_def tx_preimage_def sample_sha_def
      sample_sha_len [unfolded sample_sha_def])

end
