(* ===== verification/F64.thy ===== *)
theory F64
  imports Prelude Complex_Main "HOL-Library.Log_Nat"
begin

text \<open>
  Rust's \<open>f64\<close> arithmetic as the reward and difficulty code uses it: every operation
  returns the exact result rounded to 53 significant bits, ties to even (IEEE 754
  \<^verbatim>\<open>binary64\<close>). A value is a rational; the exponent is unbounded, since all values of the
  code modelled here lie far inside the exponent range. \<open>fl\<close> is the rounding, \<open>f64_to_u64\<close>
  and \<open>f64_to_u32\<close> the saturating casts \<open>as u64\<close> and \<open>as u32\<close>, \<open>f64_round\<close> the method \<open>round\<close>
  (ties away from zero).

  The locale \<open>rounding\<close> is what the clients rely on: monotone, and exact on the dyadic
  numbers with at most 53 significant bits. Its interpretation on \<open>fl\<close> proves both.
\<close>

section \<open>Definitions\<close>

definition rne :: "rat \<Rightarrow> int" where
  "rne x = (let n = \<lfloor>x\<rfloor>; d = x - of_int n in
     if d < 1 / 2 then n else if d > 1 / 2 then n + 1 else if even n then n else n + 1)"

text \<open>The binary exponent of a positive rational: \<open>2 powi flog x \<le> x < 2 powi (flog x + 1)\<close>.\<close>

definition flog :: "rat \<Rightarrow> int" where
  "flog x = (let (p, q) = quotient_of x; k = bitlen p - bitlen q
             in if 2 powi k \<le> x then k else k - 1)"

definition fl_pos :: "rat \<Rightarrow> rat" where
  "fl_pos x = (let e = flog x - 52 in of_int (rne (x / 2 powi e)) * 2 powi e)"

definition fl :: "rat \<Rightarrow> rat" where
  "fl x = (if x = 0 then 0 else if x < 0 then - fl_pos (- x) else fl_pos x)"

definition f64_to_u64 :: "rat \<Rightarrow> u64" where
  "f64_to_u64 x = (if x < 0 then 0 else if x \<ge> 2 ^ 64 then - 1 else word_of_int \<lfloor>x\<rfloor>)"

definition f64_to_u32 :: "rat \<Rightarrow> u32" where
  "f64_to_u32 x = (if x < 0 then 0 else if x \<ge> 2 ^ 32 then - 1 else word_of_int \<lfloor>x\<rfloor>)"

definition f64_round :: "rat \<Rightarrow> rat" where
  "f64_round x = (if x < 0 then - of_int \<lfloor>- x + 1 / 2\<rfloor> else of_int \<lfloor>x + 1 / 2\<rfloor>)"

section \<open>Rounding to an integer\<close>

lemma rne_int [simp]: "rne (of_int n) = n"
  by (simp add: rne_def)

lemma rne_mono:
  assumes "x \<le> y"
  shows "rne x \<le> rne y"
proof (cases "\<lfloor>x\<rfloor> = \<lfloor>y\<rfloor>")
  case True
  with assms show ?thesis
    by (auto simp: rne_def Let_def)
next
  case False
  with assms have "\<lfloor>x\<rfloor> + 1 \<le> \<lfloor>y\<rfloor>"
    using floor_mono [OF assms] by linarith
  moreover have "rne x \<le> \<lfloor>x\<rfloor> + 1" and "\<lfloor>y\<rfloor> \<le> rne y"
    by (auto simp: rne_def Let_def)
  ultimately show ?thesis
    by linarith
qed

section \<open>The binary exponent\<close>

lemma powi_Suc2: "(2 :: rat) powi (k + 1) = 2 * 2 powi k"
  by (simp add: power_int_add)

lemma bitlen_powi:
  assumes "0 < p"
  shows "2 powi (bitlen p - 1) \<le> (of_int p :: rat)" and "(of_int p :: rat) < 2 powi bitlen p"
proof -
  from assms have 1: "0 \<le> bitlen p - 1"
    using bitlen_nonneg [of p] bitlen_eq_zero_iff [of p] by linarith
  have "2 ^ nat (bitlen p - 1) \<le> p" and "p < 2 ^ nat (bitlen p)"
    using bitlen_bounds [OF assms] by auto
  then have "(of_int (2 ^ nat (bitlen p - 1)) :: rat) \<le> of_int p"
    and "(of_int p :: rat) < of_int (2 ^ nat (bitlen p))"
    by (simp_all only: of_int_le_iff of_int_less_iff)
  then show "2 powi (bitlen p - 1) \<le> (of_int p :: rat)" "(of_int p :: rat) < 2 powi bitlen p"
    using 1 by (simp_all add: power_int_def)
qed

lemma flog_bounds:
  assumes "0 < x"
  shows "2 powi flog x \<le> x" and "x < 2 powi (flog x + 1)"
proof -
  obtain p q where pq: "quotient_of x = (p, q)"
    by force
  have q: "0 < q"
    using quotient_of_denom_pos [OF pq] .
  have x: "x = of_int p / of_int q"
    using quotient_of_div [OF pq] .
  with assms q have p: "0 < p"
    by (simp add: zero_less_divide_iff)
  let ?k = "bitlen p - bitlen q"
  have "x < 2 powi bitlen p / of_int q"
    using bitlen_powi(2) [OF p] q by (simp add: x divide_strict_right_mono)
  also have "\<dots> \<le> 2 powi bitlen p / 2 powi (bitlen q - 1)"
    using bitlen_powi(1) [OF q] by (intro divide_left_mono mult_pos_pos) (auto simp: q)
  also have "\<dots> = 2 powi (?k + 1)"
    by (simp add: power_int_diff [symmetric] algebra_simps)
  finally have u: "x < 2 powi (?k + 1)" .
  have "2 powi (?k - 1) = 2 powi (bitlen p - 1) / (2 powi bitlen q :: rat)"
    by (simp add: power_int_diff [symmetric] algebra_simps)
  also have "\<dots> \<le> 2 powi (bitlen p - 1) / of_int q"
    using bitlen_powi(2) [OF q] q by (intro divide_left_mono mult_pos_pos) auto
  also have "\<dots> \<le> x"
    using bitlen_powi(1) [OF p] q by (simp add: x divide_right_mono)
  finally have l: "2 powi (?k - 1) \<le> x" .
  show "2 powi flog x \<le> x" "x < 2 powi (flog x + 1)"
    using u l by (auto simp: flog_def pq Let_def)
qed

lemma powi2_less_iff: "(2 :: rat) powi a < 2 powi b \<longleftrightarrow> a < b"
  by (rule iffI, rule ccontr) (auto simp: not_less intro: power_int_strict_increasing
      dest: power_int_increasing [of _ _ "2 :: rat"])

lemma flog_unique:
  assumes "0 < x" "2 powi k \<le> x" "x < 2 powi (k + 1)"
  shows "flog x = k"
proof -
  have "(2 :: rat) powi k < 2 powi (flog x + 1)" and "(2 :: rat) powi flog x < 2 powi (k + 1)"
    using flog_bounds [OF assms(1)] assms(2,3) by linarith+
  then show ?thesis
    by (simp only: powi2_less_iff)
qed

lemma flog_mono:
  assumes "0 < x" "x \<le> y"
  shows "flog x \<le> flog y"
proof -
  have "(2 :: rat) powi flog x < 2 powi (flog y + 1)"
    using flog_bounds [of x] flog_bounds [of y] assms by linarith
  then show ?thesis
    by (simp only: powi2_less_iff)
qed

section \<open>Rounding to 53 bits\<close>

lemma powi2_pos [simp]: "0 < (2 :: rat) powi k"
  by simp

lemma powi2_not_neg [simp]: "\<not> (2 :: rat) powi k < 0"
  using powi2_pos [of k] by linarith

lemma scaled_bounds:
  assumes "0 < x"
  shows "(2 :: rat) ^ 52 \<le> x / 2 powi (flog x - 52)" and "x / 2 powi (flog x - 52) < 2 ^ 53"
proof -
  have "(2 :: rat) powi flog x = 2 ^ 52 * 2 powi (flog x - 52)"
    "(2 :: rat) powi (flog x + 1) = 2 ^ 53 * 2 powi (flog x - 52)"
    by (simp_all flip: power_int_numeral power_int_add add: algebra_simps)
  with flog_bounds [OF assms]
  show "(2 :: rat) ^ 52 \<le> x / 2 powi (flog x - 52)" "x / 2 powi (flog x - 52) < 2 ^ 53"
    by (simp_all add: pos_le_divide_eq pos_divide_less_eq)
qed

lemma fl_pos_binade:
  assumes "0 < x"
  shows "2 powi flog x \<le> fl_pos x" and "fl_pos x \<le> 2 powi (flog x + 1)"
proof -
  let ?e = "flog x - 52" and ?m = "x / 2 powi (flog x - 52)"
  have "rne (of_int (2 ^ 52)) \<le> rne ?m" and "rne ?m \<le> rne (of_int (2 ^ 53))"
    using scaled_bounds [OF assms] by (intro rne_mono; simp)+
  then have "2 ^ 52 \<le> rne ?m" and "rne ?m \<le> 2 ^ 53"
    by (simp_all only: rne_int)
  then have "(of_int (2 ^ 52) :: rat) \<le> of_int (rne ?m)" "(of_int (rne ?m) :: rat) \<le> of_int (2 ^ 53)"
    by (simp_all only: of_int_le_iff)
  then have "2 ^ 52 * 2 powi ?e \<le> fl_pos x" "fl_pos x \<le> 2 ^ 53 * 2 powi ?e"
    by (simp_all add: fl_pos_def Let_def)
  moreover have "(2 :: rat) ^ 52 * 2 powi ?e = 2 powi flog x"
    "(2 :: rat) ^ 53 * 2 powi ?e = 2 powi (flog x + 1)"
    by (simp_all flip: power_int_numeral power_int_add add: algebra_simps)
  ultimately show "2 powi flog x \<le> fl_pos x" "fl_pos x \<le> 2 powi (flog x + 1)"
    by simp_all
qed

lemma fl_pos_mono:
  assumes "0 < x" "x \<le> y"
  shows "fl_pos x \<le> fl_pos y"
proof (cases "flog x = flog y")
  case True
  have "rne (x / 2 powi (flog x - 52)) \<le> rne (y / 2 powi (flog x - 52))"
    using assms(2) by (intro rne_mono divide_right_mono) auto
  then show ?thesis
    by (simp add: fl_pos_def Let_def True [symmetric])
next
  case False
  with flog_mono [OF assms] have "flog x + 1 \<le> flog y"
    by linarith
  then have "(2 :: rat) powi (flog x + 1) \<le> 2 powi flog y"
    by (intro power_int_increasing) auto
  with fl_pos_binade(2) [of x] fl_pos_binade(1) [of y] assms show ?thesis
    by linarith
qed

lemma fl_pos_gt0: "0 < x \<Longrightarrow> 0 < fl_pos x"
  by (rule less_le_trans [OF _ fl_pos_binade(1)]) auto

lemma fl_mono:
  assumes "x \<le> y"
  shows "fl x \<le> fl y"
proof -
  consider "0 < x" | "x = 0" | "x < 0" "y < 0" | "x < 0" "0 \<le> y"
    by linarith
  then show ?thesis
  proof cases
    case 3
    with assms fl_pos_mono [of "- y" "- x"] show ?thesis
      by (simp add: fl_def)
  next
    case 4
    with fl_pos_gt0 [of "- x"] fl_pos_gt0 [of y] show ?thesis
      by (auto simp: fl_def)
  qed (use assms fl_pos_mono [of x y] fl_pos_gt0 [of y] in \<open>auto simp: fl_def\<close>)
qed

lemma fl_pos_exact:
  assumes "0 < m" "m < 2 ^ 53"
  shows "fl_pos (of_int m * 2 powi e) = of_int m * 2 powi e"
proof -
  let ?x = "of_int m * 2 powi e :: rat"
  have x: "0 < ?x"
    using assms(1) by simp
  have "(of_int m :: rat) < of_int (2 ^ 53)"
    using assms(2) by (simp only: of_int_less_iff)
  then have "?x < 2 ^ 53 * 2 powi e"
    by (simp add: mult_strict_right_mono)
  also have "\<dots> = 2 powi (e + 53)"
    by (simp flip: power_int_numeral power_int_add add: algebra_simps)
  finally have "(2 :: rat) powi flog ?x < 2 powi (e + 53)"
    using flog_bounds(1) [OF x] by linarith
  then have d: "0 \<le> e - (flog ?x - 52)"
    by (simp only: powi2_less_iff)
  have "?x / 2 powi (flog ?x - 52) = of_int m * 2 powi (e - (flog ?x - 52))"
    by (simp add: power_int_diff)
  also have "\<dots> = of_int (m * 2 ^ nat (e - (flog ?x - 52)))"
    using d by (simp add: power_int_nonneg_exp)
  finally have n: "?x / 2 powi (flog ?x - 52) = of_int (m * 2 ^ nat (e - (flog ?x - 52)))" .
  have "of_int (rne (?x / 2 powi (flog ?x - 52))) = ?x / 2 powi (flog ?x - 52)"
    by (simp only: n rne_int)
  then show ?thesis
    by (simp add: fl_pos_def Let_def)
qed

lemma fl_exact:
  assumes "\<bar>m\<bar> < 2 ^ 53"
  shows "fl (of_int m * 2 powi e) = of_int m * 2 powi e"
proof -
  consider "m = 0" | "0 < m" | "m < 0"
    by linarith
  then show ?thesis
  proof cases
    case 3
    with assms fl_pos_exact [of "- m" e] show ?thesis
      by (simp add: fl_def mult_less_0_iff)
  qed (use assms fl_pos_exact [of m e] in \<open>auto simp: fl_def mult_less_0_iff\<close>)
qed

section \<open>The interface of rounding\<close>

locale rounding =
  fixes rnd :: "rat \<Rightarrow> rat"
  assumes rnd_mono: "x \<le> y \<Longrightarrow> rnd x \<le> rnd y"
    and rnd_dyadic: "\<bar>m\<bar> < 2 ^ 53 \<Longrightarrow> rnd (of_int m * 2 powi e) = of_int m * 2 powi e"
begin

lemma rnd_int: "\<bar>m\<bar> < 2 ^ 53 \<Longrightarrow> rnd (of_int m) = of_int m"
  using rnd_dyadic [of m 0] by simp

lemma rnd_0: "rnd 0 = 0"
  using rnd_int [of 0] by simp

lemma rnd_1: "rnd 1 = 1"
  using rnd_int [of 1] by simp

lemma rnd_nonneg: "0 \<le> x \<Longrightarrow> 0 \<le> rnd x"
  using rnd_mono [of 0 x] by (simp add: rnd_0)

lemma rnd_le_int: "\<bar>m\<bar> < 2 ^ 53 \<Longrightarrow> x \<le> of_int m \<Longrightarrow> rnd x \<le> of_int m"
  using rnd_mono [of x "of_int m"] by (simp add: rnd_int)

lemma rnd_ge_int: "\<bar>m\<bar> < 2 ^ 53 \<Longrightarrow> of_int m \<le> x \<Longrightarrow> of_int m \<le> rnd x"
  using rnd_mono [of "of_int m" x] by (simp add: rnd_int)

end

interpretation f64: rounding fl
  by unfold_locales (simp_all add: fl_mono fl_exact)

section \<open>Casts\<close>

lemma unat_f64_to_u64:
  assumes "0 \<le> x" "x < 2 ^ 64"
  shows "unat (f64_to_u64 x) = nat \<lfloor>x\<rfloor>"
proof -
  have "0 \<le> \<lfloor>x\<rfloor>" "\<lfloor>x\<rfloor> < 2 ^ 64"
    using assms by (simp_all add: floor_less_iff)
  with assms show ?thesis
    by (simp add: f64_to_u64_def unat_eq_nat_uint uint_word_of_int)
qed

lemma unat_f64_to_u32:
  assumes "0 \<le> x" "x < 2 ^ 32"
  shows "unat (f64_to_u32 x) = nat \<lfloor>x\<rfloor>"
proof -
  have "0 \<le> \<lfloor>x\<rfloor>" "\<lfloor>x\<rfloor> < 2 ^ 32"
    using assms by (simp_all add: floor_less_iff)
  with assms show ?thesis
    by (simp add: f64_to_u32_def unat_eq_nat_uint uint_word_of_int)
qed

lemma f64_to_u64_mono:
  assumes "0 \<le> x" "x \<le> y"
  shows "f64_to_u64 x \<le> f64_to_u64 y"
proof (cases "y < 2 ^ 64")
  case True
  with assms have "unat (f64_to_u64 x) \<le> unat (f64_to_u64 y)"
    by (simp add: unat_f64_to_u64 floor_mono nat_mono)
  then show ?thesis
    by (simp add: word_le_nat_alt)
next
  case False
  with assms show ?thesis
    by (simp add: f64_to_u64_def)
qed

end
