(* ===== verification/Mining.thy ===== *)
theory Mining
  imports F64
begin

unbundle bit_operations_syntax

text \<open>
  Tokenomics, proof of work and the producer's difficulty state:
  \<^verbatim>\<open>src/src/consensus/mining.rs\<close>.

  Floating-point expressions are rounded after every operation by \<open>fl\<close> (theory \<open>F64\<close>).
  The mathematical function \<open>f64::exp\<close>, whose precision Rust leaves unspecified, is the
  argument \<open>expf\<close>; \<open>exp_ok expf\<close> says that \<open>exp 0\<close> is 1 and that the exponential of a
  non-positive number lies between 0 and 1. The wall clock is the argument \<open>now\<close>.
\<close>

section \<open>Rewards\<close>

definition CTS_MAX_SUPPLY :: u64 where "CTS_MAX_SUPPLY = 600000000"
definition CTS_GENESIS_ALLOCATION :: u64 where "CTS_GENESIS_ALLOCATION = 100000000"
definition CTS_MINING_SUPPLY :: u64 where
  "CTS_MINING_SUPPLY = CTS_MAX_SUPPLY - CTS_GENESIS_ALLOCATION"
definition CTS_INITIAL_REWARD :: u64 where "CTS_INITIAL_REWARD = 100"
definition CTS_MINIMUM_REWARD :: u64 where "CTS_MINIMUM_REWARD = 1"
definition CTS_EMISSION_DECAY_FACTOR :: rat where
  "CTS_EMISSION_DECAY_FACTOR = fl (1 / 1000000)"

record reward_config =
  target_blocks_per_minute :: rat
  activity_window_size :: nat
  max_multiplier :: rat
  min_multiplier :: rat

definition default_reward_config :: reward_config where
  "default_reward_config =
     \<lparr>target_blocks_per_minute = 2, activity_window_size = 144,
      max_multiplier = 2, min_multiplier = 1 / 2\<rparr>"

text \<open>\<open>u64 as f64\<close>\<close>

definition u64_to_f64 :: "u64 \<Rightarrow> rat" where
  "u64_to_f64 x = fl (of_nat (unat x))"

definition calculate_activity_multiplier :: "u64 list \<Rightarrow> reward_config \<Rightarrow> rat" where
  "calculate_activity_multiplier timestamps config =
     (if length timestamps < 2 then 1
      else let time_window = sat_sub (last timestamps) (hd timestamps) in
        if time_window = 0 then max_multiplier config
        else let blocks_in_window = fl (of_nat (length timestamps));
                 actual_rate = fl (blocks_in_window / fl (u64_to_f64 time_window / 60));
                 multiplier = fl (target_blocks_per_minute config / actual_rate)
             in min (max multiplier (min_multiplier config)) (max_multiplier config))"

definition calculate_base_reward :: "(rat \<Rightarrow> rat) \<Rightarrow> rat \<Rightarrow> u64" where
  "calculate_base_reward expf chain_progress =
     (let decay = expf (fl (- CTS_EMISSION_DECAY_FACTOR * chain_progress));
          decayed_reward = fl (u64_to_f64 CTS_INITIAL_REWARD * decay)
      in max (f64_to_u64 decayed_reward) CTS_MINIMUM_REWARD)"

definition tx_factor :: "nat \<Rightarrow> rat" where
  "tx_factor tx_count = fl (1 / fl (1 + fl (fl (of_nat tx_count) / 1000)))"

definition calculate_expected_block_reward ::
  "(rat \<Rightarrow> rat) \<Rightarrow> u64 \<Rightarrow> rat \<Rightarrow> u64 list \<Rightarrow> nat \<Rightarrow> reward_config \<Rightarrow> u64" where
  "calculate_expected_block_reward expf emitted_supply chain_progress recent tx_count config =
     (let base_reward = calculate_base_reward expf chain_progress;
          activity_multiplier = calculate_activity_multiplier recent config;
          reward = f64_to_u64
            (fl (fl (u64_to_f64 base_reward * activity_multiplier) * tx_factor tx_count));
          reward = max reward CTS_MINIMUM_REWARD;
          remaining_supply = sat_sub CTS_MINING_SUPPLY emitted_supply
      in if remaining_supply = 0 then 0
         else if reward > remaining_supply then remaining_supply
         else reward)"

definition calculate_reward :: "(rat \<Rightarrow> rat) \<Rightarrow> nat \<Rightarrow> u64" where
  "calculate_reward expf tx_count =
     calculate_expected_block_reward expf 0 0 [] tx_count default_reward_config"

definition exp_ok :: "(rat \<Rightarrow> rat) \<Rightarrow> bool" where
  "exp_ok expf \<longleftrightarrow> expf 0 = 1 \<and> (\<forall>x \<le> 0. 0 \<le> expf x \<and> expf x \<le> 1)"

section \<open>Proof of work\<close>

definition meets_difficulty :: "block_hash \<Rightarrow> u32 \<Rightarrow> bool" where
  "meets_difficulty hash difficulty =
     (if difficulty = 0 then True
      else let zero_bytes = unat (difficulty div 8) in
        if \<exists>b \<in> set (take zero_bytes hash). b \<noteq> 0 then False
        else let rem_bits = unat (difficulty mod 8) in
          if rem_bits > 0 then
            (let mask = push_bit (8 - rem_bits) (255 :: u8) in
             if zero_bytes < length hash then hash ! zero_bytes AND mask = 0 else False)
          else True)"

text \<open>The specification: the bits of a hash, most significant bit of the first byte first.\<close>

definition hash_bits :: "block_hash \<Rightarrow> bool list" where
  "hash_bits hash = concat (map (\<lambda>b. map (\<lambda>i. bit b (7 - i)) [0..<8]) hash)"

section \<open>The difficulty state of the producer\<close>

record daa_config =
  target_block_interval :: u64
  adjustment_window :: nat
  min_difficulty :: u32
  max_difficulty :: u32
  dampening_factor :: rat

definition default_daa_config :: daa_config where
  "default_daa_config =
     \<lparr>target_block_interval = 30, adjustment_window = 144, min_difficulty = 1,
      max_difficulty = (- 1) div 4, dampening_factor = 1 / 4\<rparr>"

record difficulty_state =
  current_difficulty :: u32
  timestamps :: "u64 list"
  last_adjustment :: u64
  daa_cfg :: daa_config

definition difficulty_state_new :: "u64 \<Rightarrow> daa_config \<Rightarrow> difficulty_state" where
  "difficulty_state_new now config =
     \<lparr>current_difficulty = 1, timestamps = [], last_adjustment = now, daa_cfg = config\<rparr>"

text \<open>\<open>clamp\<close> of \<open>Ord\<close>; the bounds are in order in every configuration the code builds.\<close>

definition clamp :: "u32 \<Rightarrow> u32 \<Rightarrow> u32 \<Rightarrow> u32" where
  "clamp lo hi x = (if x < lo then lo else if x > hi then hi else x)"

text \<open>
  The new difficulty of \<open>adjust_difficulty\<close>, after the early returns. Where the expected time
  is 0 Rust's quotient is infinite and its inverse 0, which is also the value of
  \<open>1 / (x / 0)\<close> here; the quotient of two zero difficulties (not a number, so both
  comparisons fail) and that of a positive one by zero are written out.
\<close>

definition adjusted_difficulty :: "difficulty_state \<Rightarrow> u64 \<Rightarrow> u64 \<Rightarrow> u32" where
  "adjusted_difficulty s actual_time expected_time =
     (let time_ratio = fl (u64_to_f64 actual_time / u64_to_f64 expected_time);
          adjustment_factor = fl (1 / time_ratio);
          damped = fl (1 + fl (fl (adjustment_factor - 1) * dampening_factor (daa_cfg s)));
          new_difficulty = f64_to_u32 (fl (of_nat (unat (current_difficulty s)) * damped))
      in clamp (min_difficulty (daa_cfg s)) (max_difficulty (daa_cfg s)) new_difficulty)"

definition meaningful_change :: "u32 \<Rightarrow> u32 \<Rightarrow> bool" where
  "meaningful_change old new =
     (if old = 0 then new \<noteq> 0
      else let change_ratio = fl (of_nat (unat new) / of_nat (unat old))
           in change_ratio < fl (99 / 100) \<or> change_ratio > fl (101 / 100))"

definition adjust_difficulty :: "u64 \<Rightarrow> difficulty_state \<Rightarrow> difficulty_state" where
  "adjust_difficulty now s =
     (if length (timestamps s) < 2 then s
      else if now - last_adjustment s = 0 then s
      else let expected_time = target_block_interval (daa_cfg s)
                 * (of_nat (adjustment_window (daa_cfg s)) - 1);
               actual_time = last (timestamps s) - hd (timestamps s)
           in if actual_time = 0 then s
              else let clamped = adjusted_difficulty s actual_time expected_time
                   in if meaningful_change (current_difficulty s) clamped
                      then s\<lparr>current_difficulty := clamped, last_adjustment := now\<rparr>
                      else s)"

text \<open>The loop that pops timestamps from the front while there are more than \<open>n\<close>.\<close>

fun keep_recent :: "nat \<Rightarrow> 'a list \<Rightarrow> 'a list" where
  "keep_recent n [] = []"
| "keep_recent n (x # xs) = (if length (x # xs) > n then keep_recent n xs else x # xs)"

definition add_block :: "u64 \<Rightarrow> u64 \<Rightarrow> difficulty_state \<Rightarrow> difficulty_state" where
  "add_block now timestamp s =
     (let ts = keep_recent (adjustment_window (daa_cfg s)) (timestamps s @ [timestamp]);
          s' = s\<lparr>timestamps := ts\<rparr>
      in if length ts \<ge> adjustment_window (daa_cfg s) then adjust_difficulty now s' else s')"

fun intervals :: "u64 list \<Rightarrow> u64 list" where
  "intervals (a # b # xs) = (b - a) # intervals (b # xs)"
| "intervals _ = []"

definition detect_oscillation :: "difficulty_state \<Rightarrow> bool" where
  "detect_oscillation s =
     (if length (timestamps s) < adjustment_window (daa_cfg s) then False
      else let is = intervals (timestamps s) in
        is \<noteq> [] \<and> Max (set is) > Min (set is) * 10)"

text \<open>\<open>MiningManager::validate_miner_reward\<close>\<close>

definition validate_miner_reward :: "u64 \<Rightarrow> u64 \<Rightarrow> bool" where
  "validate_miner_reward reward block_height =
     (if reward = 0 then False else if reward > 1000 then False else True)"

section \<open>The mining manager\<close>

record mining_stats =
  blocks_mined :: u64
  average_block_time :: rat
  last_block_time :: u64

record mining_manager =
  mm_difficulty :: difficulty_state
  mm_recent :: "(u64 \<times> u32) list"
  mm_stats :: mining_stats

definition mining_manager_new :: "u64 \<Rightarrow> daa_config \<Rightarrow> mining_manager" where
  "mining_manager_new now config =
     \<lparr>mm_difficulty = difficulty_state_new now config, mm_recent = [],
      mm_stats = \<lparr>blocks_mined = 0, average_block_time = 0, last_block_time = 0\<rparr>\<rparr>"

text \<open>
  The sum over \<open>recent.iter().skip(1).zip(recent.iter())\<close> with the closure's own
  subtraction, first component minus second: \<open>t2\<close> is the earlier timestamp.
\<close>

fun total_time :: "(u64 \<times> u32) list \<Rightarrow> u64" where
  "total_time ((t2, d2) # (t1, d1) # xs) = (t2 - t1) + total_time ((t1, d1) # xs)"
| "total_time _ = 0"

definition record_block :: "u64 \<Rightarrow> u64 \<Rightarrow> mining_manager \<Rightarrow> mining_manager" where
  "record_block now timestamp mm =
     (let ds = add_block now timestamp (mm_difficulty mm);
          recent = keep_recent 1000 (mm_recent mm @ [(timestamp, current_difficulty ds)]);
          st = (mm_stats mm)\<lparr>blocks_mined := blocks_mined (mm_stats mm) + 1,
                              last_block_time := timestamp\<rparr>;
          st = (if length recent \<ge> 2
                then st\<lparr>average_block_time :=
                  fl (u64_to_f64 (total_time recent) / of_nat (length recent - 1))\<rparr>
                else st)
      in mm\<lparr>mm_difficulty := ds, mm_recent := recent, mm_stats := st\<rparr>)"

section \<open>Lemmas\<close>

lemma length_hash_bits [simp]: "length (hash_bits h) = 8 * length h"
  by (induction h) (simp_all add: hash_bits_def)

lemma hash_bits_nth:
  "i < length h \<Longrightarrow> j < 8 \<Longrightarrow> hash_bits h ! (8 * i + j) = bit (h ! i) (7 - j)"
proof (induction h arbitrary: i)
  case Nil
  then show ?case by simp
next
  case (Cons b h)
  have c: "hash_bits (b # h) = map (\<lambda>i. bit b (7 - i)) [0..<8] @ hash_bits h"
    by (simp add: hash_bits_def)
  show ?case
  proof (cases i)
    case 0
    with Cons.prems show ?thesis
      by (simp add: c nth_append del: upt_Suc)
  next
    case (Suc i')
    with Cons.prems Cons.IH [of i'] show ?thesis
      by (simp add: c nth_append del: upt_Suc)
  qed
qed

lemma byte_high_bits_zero:
  assumes "r \<le> 8"
  shows "(b :: u8) AND push_bit (8 - r) 255 = 0 \<longleftrightarrow> (\<forall>j < r. \<not> bit b (7 - j))"
proof -
  have m: "(255 :: u8) = - 1"
    by simp
  have "b AND push_bit (8 - r) 255 = 0 \<longleftrightarrow> (\<forall>k < 8. 8 - r \<le> k \<longrightarrow> \<not> bit b k)"
    unfolding m by (auto simp: bit_eq_iff bit_simps)
  also have "\<dots> \<longleftrightarrow> (\<forall>j < r. \<not> bit b (7 - j))"
  proof (intro iffI allI impI)
    fix j
    assume *: "\<forall>k < 8. 8 - r \<le> k \<longrightarrow> \<not> bit b k" and "j < r"
    with assms show "\<not> bit b (7 - j)"
      by (intro * [rule_format]) auto
  next
    fix k
    assume *: "\<forall>j < r. \<not> bit b (7 - j)" and k: "k < 8" "8 - r \<le> k"
    then have "\<not> bit b (7 - (7 - k))"
      by (intro * [rule_format]) auto
    with k show "\<not> bit b k"
      by simp
  qed
  finally show ?thesis .
qed

lemma byte_zero: "(b :: u8) = 0 \<longleftrightarrow> (\<forall>j < 8. \<not> bit b (7 - j))"
proof -
  have "(255 :: u8) = - 1"
    by simp
  then have "b AND push_bit (8 - 8) 255 = b"
    by (simp only: diff_self_eq_0 push_bit_0_id id_apply and.right_neutral)
  with byte_high_bits_zero [of 8 b] show ?thesis
    by simp
qed

lemma prefix_bits_zero:
  assumes "8 * z + r \<le> 8 * length h" and "r < 8"
  shows "(\<forall>i < 8 * z + r. \<not> hash_bits h ! i) \<longleftrightarrow>
    (\<forall>b \<in> set (take z h). b = 0) \<and> (r > 0 \<longrightarrow> h ! z AND push_bit (8 - r) 255 = 0)"
proof -
  have "(\<forall>i < 8 * z + r. \<not> hash_bits h ! i) \<longleftrightarrow>
    (\<forall>k < z. \<forall>j < 8. \<not> hash_bits h ! (8 * k + j)) \<and> (\<forall>j < r. \<not> hash_bits h ! (8 * z + j))"
    (is "?L \<longleftrightarrow> ?R")
  proof
    assume ?R
    show ?L
    proof (intro allI impI)
      fix i
      assume i: "i < 8 * z + r"
      define k j where "k = i div 8" and "j = i mod 8"
      have e: "i = 8 * k + j" and j: "j < 8"
        by (simp_all add: k_def j_def)
      from i assms(2) j have "k < z \<or> k = z \<and> j < r"
        unfolding e by linarith
      with \<open>?R\<close> j show "\<not> hash_bits h ! i"
        unfolding e by blast
    qed
  qed auto
  also have "(\<forall>k < z. \<forall>j < 8. \<not> hash_bits h ! (8 * k + j)) \<longleftrightarrow> (\<forall>k < z. h ! k = 0)"
  proof -
    have "k < z \<Longrightarrow> (\<forall>j < 8. \<not> hash_bits h ! (8 * k + j)) \<longleftrightarrow> h ! k = 0" for k
      unfolding byte_zero using assms(1) hash_bits_nth [of k h] by simp
    then show ?thesis
      by blast
  qed
  also have "(\<forall>k < z. h ! k = 0) \<longleftrightarrow> (\<forall>b \<in> set (take z h). b = 0)"
  proof -
    have "z \<le> length h"
      using assms(1) by linarith
    then show ?thesis
      by (simp add: set_conv_nth Ball_def) (metis nth_take)
  qed
  also have "(\<forall>j < r. \<not> hash_bits h ! (8 * z + j)) \<longleftrightarrow>
        (r > 0 \<longrightarrow> h ! z AND push_bit (8 - r) 255 = 0)"
  proof (cases "r = 0")
    case False
    then have "z < length h"
      using assms(1) by linarith
    then have "(\<forall>j < r. \<not> hash_bits h ! (8 * z + j)) \<longleftrightarrow> (\<forall>j < r. \<not> bit (h ! z) (7 - j))"
      using hash_bits_nth [of z h] assms(2) by simp
    with False byte_high_bits_zero [of r "h ! z"] assms(2) show ?thesis
      by simp
  qed simp
  finally show ?thesis .
qed

lemma unat_div8: "unat ((d :: u32) div 8) = unat d div 8" "unat ((d :: u32) mod 8) = unat d mod 8"
  by (simp_all add: unat_div unat_mod)

subsection \<open>Reward arithmetic\<close>

lemma fl_0 [simp]: "fl 0 = 0" and fl_1 [simp]: "fl 1 = 1"
  by (rule f64.rnd_0, rule f64.rnd_1)

lemma fl_100 [simp]: "fl 100 = 100"
  using f64.rnd_int [of 100] by simp

lemma tx_factor_denominator: "1 \<le> fl (1 + fl (fl (of_nat n) / 1000))"
  using f64.rnd_ge_int [of 1 "1 + fl (fl (of_nat n) / 1000)"]
  by (simp add: f64.rnd_nonneg)

lemma tx_factor_nonneg: "0 \<le> tx_factor n"
  unfolding tx_factor_def using tx_factor_denominator [of n] by (intro f64.rnd_nonneg) simp

lemma tx_factor_le_1: "tx_factor n \<le> 1"
  using f64.rnd_le_int [of 1 "1 / fl (1 + fl (fl (of_nat n) / 1000))"] tx_factor_denominator [of n]
  by (simp add: tx_factor_def)

lemma tx_factor_antimono:
  assumes "m \<le> n"
  shows "tx_factor n \<le> tx_factor m"
proof -
  have "fl (1 + fl (fl (of_nat m) / 1000)) \<le> fl (1 + fl (fl (of_nat n) / 1000))"
    using assms by (intro f64.rnd_mono add_left_mono divide_right_mono) auto
  then show ?thesis
    unfolding tx_factor_def using tx_factor_denominator [of m]
    by - (rule f64.rnd_mono, rule divide_left_mono, auto)
qed

lemma tx_factor_0 [simp]: "tx_factor 0 = 1"
  by (simp add: tx_factor_def)

lemma calculate_base_reward_0: "exp_ok expf \<Longrightarrow> calculate_base_reward expf 0 = 100"
  by (simp add: calculate_base_reward_def exp_ok_def u64_to_f64_def CTS_INITIAL_REWARD_def
      CTS_MINIMUM_REWARD_def f64_to_u64_def)

lemma calculate_reward_eq:
  assumes "exp_ok expf"
  shows "calculate_reward expf n = max (f64_to_u64 (fl (100 * tx_factor n))) 1"
proof -
  let ?x = "fl (100 * tx_factor n)"
  have "?x \<le> 100" "0 \<le> ?x"
    using f64.rnd_le_int [of 100 "100 * tx_factor n"] tx_factor_le_1 [of n] tx_factor_nonneg [of n]
    by (auto intro: f64.rnd_nonneg)
  then have "f64_to_u64 ?x \<le> f64_to_u64 100"
    by (intro f64_to_u64_mono)
  also have "f64_to_u64 100 = 100"
    by (simp add: f64_to_u64_def)
  finally have "\<not> max (f64_to_u64 ?x) 1 > 500000000"
    by (auto simp: max_def not_less dest: order_trans [of _ "100 :: u64" 500000000])
  then show ?thesis
    using calculate_base_reward_0 [OF assms]
    by (simp add: calculate_reward_def calculate_expected_block_reward_def
        calculate_activity_multiplier_def u64_to_f64_def CTS_MINIMUM_REWARD_def
        CTS_MINING_SUPPLY_def CTS_MAX_SUPPLY_def CTS_GENESIS_ALLOCATION_def)
qed

subsection \<open>The difficulty state\<close>

definition daa_inv :: "difficulty_state \<Rightarrow> bool" where
  "daa_inv s \<longleftrightarrow>
     min_difficulty (daa_cfg s) \<le> current_difficulty s \<and>
     current_difficulty s \<le> max_difficulty (daa_cfg s) \<and>
     length (timestamps s) \<le> adjustment_window (daa_cfg s)"

lemma keep_recent_length: "length (keep_recent n xs) \<le> n"
  by (induction n xs rule: keep_recent.induct) auto

lemma keep_recent_drop: "keep_recent n xs = drop (length xs - n) xs"
  by (induction n xs rule: keep_recent.induct) (auto simp: Suc_diff_le less_Suc_eq_le)

lemma clamp_bounds: "lo \<le> hi \<Longrightarrow> lo \<le> clamp lo hi x \<and> clamp lo hi x \<le> hi"
  by (auto simp: clamp_def)

lemma adjust_difficulty_cfg [simp]:
  "daa_cfg (adjust_difficulty now s) = daa_cfg s"
  "timestamps (adjust_difficulty now s) = timestamps s"
  by (auto simp: adjust_difficulty_def Let_def)

lemma adjust_difficulty_inv:
  assumes "daa_inv s"
  shows "daa_inv (adjust_difficulty now s)"
proof -
  have "min_difficulty (daa_cfg s) \<le> max_difficulty (daa_cfg s)"
    using assms by (auto simp: daa_inv_def)
  then have "min_difficulty (daa_cfg s) \<le> adjusted_difficulty s a e \<and>
      adjusted_difficulty s a e \<le> max_difficulty (daa_cfg s)" for a e
    unfolding adjusted_difficulty_def Let_def by (rule clamp_bounds)
  with assms show ?thesis
    by (auto simp: daa_inv_def adjust_difficulty_def Let_def)
qed

lemma add_block_inv:
  assumes "daa_inv s"
  shows "daa_inv (add_block now t s)"
proof -
  let ?ts = "keep_recent (adjustment_window (daa_cfg s)) (timestamps s @ [t])"
  have "daa_inv (s\<lparr>timestamps := ?ts\<rparr>)"
    using assms keep_recent_length by (simp add: daa_inv_def)
  then show ?thesis
    by (auto simp: add_block_def Let_def intro: adjust_difficulty_inv)
qed

lemma add_block_cfg [simp]: "daa_cfg (add_block now t s) = daa_cfg s"
  by (simp add: add_block_def Let_def)

lemma reward_bounds:
  assumes "unat emitted \<le> 500000000"
  shows "unat emitted + unat (calculate_expected_block_reward expf emitted progress recent n config)
           \<le> 500000000
    \<and> (unat emitted < 500000000 \<longrightarrow>
        1 \<le> unat (calculate_expected_block_reward expf emitted progress recent n config))"
proof -
  let ?rem = "sat_sub CTS_MINING_SUPPLY emitted"
  have m: "unat CTS_MINING_SUPPLY = 500000000"
    by (simp add: CTS_MINING_SUPPLY_def CTS_MAX_SUPPLY_def CTS_GENESIS_ALLOCATION_def)
  have rem: "unat ?rem = 500000000 - unat emitted"
    by (simp add: unat_sat_sub m)
  obtain r where r: "calculate_expected_block_reward expf emitted progress recent n config =
      (if ?rem = 0 then 0 else if max r 1 > ?rem then ?rem else max r 1)"
    by (simp add: calculate_expected_block_reward_def Let_def CTS_MINIMUM_REWARD_def)
  have "1 \<le> unat (max r 1)"
    by (simp add: max_def word_le_nat_alt)
  with assms rem show ?thesis
    unfolding r by (auto simp: word_less_nat_alt unat_eq_zero not_less)
qed

section \<open>Properties\<close>

text \<open>
  \<open>meets_difficulty\<close> decides what its comment promises: for every difficulty up to the
  256 bits of a block hash it holds exactly when that many leading bits of the hash are zero.
\<close>

theorem meets_difficulty_leading_zeros:
  assumes "length h = 32" and "unat d \<le> 256"
  shows "meets_difficulty h d \<longleftrightarrow> (\<forall>i < unat d. \<not> hash_bits h ! i)"
proof (cases "d = 0")
  case True
  then show ?thesis
    by (simp add: meets_difficulty_def)
next
  case False
  let ?z = "unat d div 8" and ?r = "unat d mod 8"
  have d: "unat d = 8 * ?z + ?r"
    by simp
  have "?r > 0 \<Longrightarrow> ?z < length h"
    using assms by presburger
  then have "meets_difficulty h d \<longleftrightarrow>
      (\<forall>b \<in> set (take ?z h). b = 0) \<and> (?r > 0 \<longrightarrow> h ! ?z AND push_bit (8 - ?r) 255 = 0)"
    using False by (auto simp: meets_difficulty_def Let_def unat_div8)
  also have "\<dots> \<longleftrightarrow> (\<forall>i < 8 * ?z + ?r. \<not> hash_bits h ! i)"
    using assms by (intro prefix_bits_zero [symmetric]) auto
  finally show ?thesis
    by (simp only: d [symmetric])
qed

theorem meets_difficulty_leading_zeros_witness:
  "meets_difficulty ([0, 31] @ replicate 30 255) 11
   \<and> \<not> hash_bits ([0, 31] @ replicate 30 255) ! 10"
proof -
  have "meets_difficulty ([0, 31] @ replicate 30 255) 11"
    by code_simp
  with meets_difficulty_leading_zeros [of "[0, 31] @ replicate 30 255" 11] show ?thesis
    by simp
qed

text \<open>
  The reward of a block never over-mints: whatever the activity window, the number of
  transactions and the exponential, minting it keeps the emitted supply within the mining
  supply of 500 million, and as long as supply remains the reward is at least 1.
\<close>

theorem reward_within_supply:
  assumes "unat emitted \<le> 500000000"
  shows "unat emitted + unat (calculate_expected_block_reward expf emitted progress recent n config)
           \<le> 500000000
    \<and> (unat emitted < 500000000 \<longrightarrow>
        1 \<le> unat (calculate_expected_block_reward expf emitted progress recent n config))"
  using assms by (rule reward_bounds)

theorem reward_within_supply_witness:
  "unat (calculate_expected_block_reward (\<lambda>_. 1) 499999999 0 [] 3 default_reward_config) = 1"
  using reward_within_supply [of 499999999 "\<lambda>_. 1" 0 "[]" 3 default_reward_config] by simp

text \<open>
  The legacy reward that every block must carry starts at 100 for an empty block, never
  grows with the number of transactions and stays between 1 and 100.
\<close>

theorem calculate_reward_range:
  assumes "exp_ok expf"
  shows "calculate_reward expf 0 = 100 \<and> 1 \<le> calculate_reward expf n
    \<and> calculate_reward expf (n + k) \<le> calculate_reward expf n"
proof -
  have "f64_to_u64 (fl (100 * tx_factor (n + k))) \<le> f64_to_u64 (fl (100 * tx_factor n))"
    by (intro f64_to_u64_mono f64.rnd_nonneg f64.rnd_mono mult_left_mono tx_factor_antimono)
      (auto simp: tx_factor_nonneg)
  moreover have "f64_to_u64 100 = 100" and "(1 :: u64) \<le> 100"
    by (simp_all add: f64_to_u64_def word_le_nat_alt)
  ultimately show ?thesis
    by (simp add: calculate_reward_eq [OF assms] max.coboundedI1)
qed

theorem calculate_reward_range_witness:
  "calculate_reward (\<lambda>_. 1) 0 = 100 \<and> 1 \<le> calculate_reward (\<lambda>_. 1) 5
    \<and> calculate_reward (\<lambda>_. 1) (5 + 2) \<le> calculate_reward (\<lambda>_. 1) 5"
  by (rule calculate_reward_range) (simp add: exp_ok_def)

text \<open>
  Whatever the timestamps and the clock, the producer's difficulty stays between the
  configured minimum and maximum and its window never holds more timestamps than configured.
\<close>

theorem difficulty_stays_in_range:
  assumes "min_difficulty c \<le> 1" and "1 \<le> max_difficulty c"
  shows "daa_inv (fold (\<lambda>(now, t). add_block now t) events (difficulty_state_new now0 c))"
proof -
  have "daa_inv (fold (\<lambda>(now, t). add_block now t) events s)" if "daa_inv s" for s
    using that by (induction events arbitrary: s) (auto intro: add_block_inv)
  moreover have "daa_inv (difficulty_state_new now0 c)"
    using assms by (simp add: daa_inv_def difficulty_state_new_def)
  ultimately show ?thesis .
qed

theorem difficulty_stays_in_range_witness:
  "daa_inv (fold (\<lambda>(now, t). add_block now t) [(5, 3), (9, 8)]
     (difficulty_state_new 0 default_daa_config))"
  by (rule difficulty_stays_in_range) (simp_all add: default_daa_config_def word_le_nat_alt)

text \<open>
  The block-time statistic subtracts the later timestamp from the earlier one: for two
  recorded blocks the total is the wrapped negative interval, not the interval.
\<close>

theorem total_time_is_negated:
  assumes "t < t'"
  shows "unat (total_time [(t, d), (t', d')]) = 2 ^ 64 - (unat t' - unat t)"
proof -
  have "unat t < unat t'"
    using assms by (simp add: word_less_nat_alt)
  moreover have "unat t' < 2 ^ 64"
    using unat_bound [of t'] by simp
  ultimately show ?thesis
    by (simp add: unat_sub_if_size word_size word_le_nat_alt)
qed

theorem total_time_is_negated_witness: "unat (total_time [(10, 1), (40, 1)]) = 2 ^ 64 - 30"
  using total_time_is_negated [of 10 40 1 1] by simp

end
