(* ===== verification/Block.thy ===== *)
theory Block
  imports Transaction Mining
begin

text \<open>
  Blocks: \<^verbatim>\<open>src/src/core/block.rs\<close>.

  The external functions a block needs are collected in the record \<open>env\<close>: the SHA-256
  digest and the floating-point exponential. The wall clock, in seconds, is the argument
  \<open>now\<close>. \<open>block_preimage\<close> lists the bytes \<open>calculate_hash\<close> digests, in the order of its
  \<open>update\<close> calls.
\<close>

section \<open>Data\<close>

record env =
  sha256 :: "bytes \<Rightarrow> bytes"
  exp_f64 :: "rat \<Rightarrow> rat"

record block_header =
  parent_hashes :: "block_hash list"
  hd_timestamp :: u64
  hd_nonce :: u64
  hd_difficulty :: u32
  hd_base_fee :: u64
  hd_state_root :: bytes
  hd_version :: u32
  hd_blue_score :: u64
  hd_selected_parent :: "block_hash option"
  hd_chain_height :: u64
  hd_topo_index :: u64

record block =
  blk_hash :: block_hash
  header :: block_header
  transactions :: "transaction list"
  producer :: address
  blk_reward :: u64
  blk_height :: u64

datatype block_error =
    HashMismatch | PowNotMet | UnexpectedReward u64 u64 | DuplicateTransactions
  | TimestampTooFar | NoParents

abbreviation parents :: "block \<Rightarrow> block_hash list" where
  "parents b \<equiv> parent_hashes (header b)"

section \<open>Operations\<close>

definition header_tail :: "block_header \<Rightarrow> bytes" where
  "header_tail h =
     le_bytes 8 (hd_timestamp h) @ le_bytes 8 (hd_nonce h) @ le_bytes 4 (hd_difficulty h) @
     le_bytes 8 (hd_base_fee h) @ hd_state_root h @ le_bytes 4 (hd_version h) @
     le_bytes 8 (hd_blue_score h) @ le_bytes 8 (hd_chain_height h) @ le_bytes 8 (hd_topo_index h) @
     (case hd_selected_parent h of Some p \<Rightarrow> p | None \<Rightarrow> replicate 32 0)"

definition block_preimage :: "env \<Rightarrow> block \<Rightarrow> bytes" where
  "block_preimage E b =
     concat (parents b) @ concat (map (tx_hash (sha256 E)) (transactions b)) @
     header_tail (header b) @ producer b"

definition calculate_hash :: "env \<Rightarrow> block \<Rightarrow> block_hash" where
  "calculate_hash E b = sha256 E (block_preimage E b)"

definition block_new ::
  "env \<Rightarrow> block_hash list \<Rightarrow> u64 \<Rightarrow> transaction list \<Rightarrow> u64 \<Rightarrow> u32 \<Rightarrow> u64 \<Rightarrow> address \<Rightarrow> bytes
    \<Rightarrow> block" where
  "block_new E ps timestamp txs nonce difficulty base_fee miner st_root =
     (let b = \<lparr>blk_hash = replicate 32 0,
               header = \<lparr>parent_hashes = ps, hd_timestamp = timestamp, hd_nonce = nonce,
                 hd_difficulty = difficulty, hd_base_fee = base_fee, hd_state_root = st_root,
                 hd_version = 1, hd_blue_score = 0, hd_selected_parent = None,
                 hd_chain_height = 0, hd_topo_index = 0\<rparr>,
               transactions = txs, producer = miner,
               blk_reward = calculate_reward (exp_f64 E) (length txs), blk_height = 0\<rparr>
      in b\<lparr>blk_hash := calculate_hash E b\<rparr>)"

definition validate_basic :: "env \<Rightarrow> u64 \<Rightarrow> block \<Rightarrow> block_error + unit" where
  "validate_basic E now b =
     (if blk_hash b \<noteq> calculate_hash E b then Inl HashMismatch
      else if hd_difficulty (header b) > 0 \<and>
          \<not> meets_difficulty (blk_hash b) (hd_difficulty (header b)) then Inl PowNotMet
      else let expected = calculate_reward (exp_f64 E) (length (transactions b)) in
        if blk_reward b \<noteq> expected then Inl (UnexpectedReward (blk_reward b) expected)
        else if card (set (map (tx_hash (sha256 E)) (transactions b))) \<noteq> length (transactions b)
          then Inl DuplicateTransactions
        else if hd_timestamp (header b) > now + 3600 then Inl TimestampTooFar
        else Inr ())"

definition validate_references :: "block \<Rightarrow> block_error + unit" where
  "validate_references b = (if parents b = [] then Inl NoParents else Inr ())"

definition set_consensus_metadata ::
  "env \<Rightarrow> block_hash option \<Rightarrow> u64 \<Rightarrow> u64 \<Rightarrow> u64 \<Rightarrow> block \<Rightarrow> block" where
  "set_consensus_metadata E selected blue_score chain_height topo_index b =
     (let b' = b\<lparr>header := (header b)\<lparr>hd_selected_parent := selected, hd_blue_score := blue_score,
                   hd_chain_height := chain_height, hd_topo_index := topo_index\<rparr>,
                 blk_height := chain_height\<rparr>
      in b'\<lparr>blk_hash := calculate_hash E b'\<rparr>)"

definition is_genesis :: "block \<Rightarrow> bool" where
  "is_genesis b \<longleftrightarrow> parents b = []"

text \<open>\<open>size_of::<BlockHash>()\<close> is 32 and \<open>size_of::<String>()\<close> is 24 on a 64-bit target.\<close>

definition size_estimate :: "block \<Rightarrow> nat" where
  "size_estimate b =
     32 + length (parents b) * 32 + length (transactions b) * (24 + 256 + 8)
       + 8 + 8 + 4 + 4 + 20 + 8"

definition default_block :: "env \<Rightarrow> block" where
  "default_block E = block_new E [] 0 [] 0 0 0 (replicate 20 0) (replicate 32 0)"

section \<open>Well-formedness\<close>

text \<open>The array lengths that Rust's types fix, and the digest length of the environment.\<close>

definition block_wf :: "block \<Rightarrow> bool" where
  "block_wf b \<longleftrightarrow>
     (\<forall>p \<in> set (parents b). length p = 32) \<and> length (hd_state_root (header b)) = 32 \<and>
     (\<forall>p. hd_selected_parent (header b) = Some p \<longrightarrow> length p = 32) \<and>
     length (producer b) = 20"

section \<open>Lemmas\<close>

lemma block_preimage_hash_update [simp]:
  "block_preimage E (b\<lparr>blk_hash := h\<rparr>) = block_preimage E b"
  "block_preimage E (b\<lparr>blk_height := n\<rparr>) = block_preimage E b"
  "block_preimage E (b\<lparr>blk_reward := r\<rparr>) = block_preimage E b"
  by (simp_all add: block_preimage_def)

lemma calculate_hash_update [simp]:
  "calculate_hash E (b\<lparr>blk_hash := h\<rparr>) = calculate_hash E b"
  "calculate_hash E (b\<lparr>blk_height := n\<rparr>) = calculate_hash E b"
  by (simp_all add: calculate_hash_def)

lemma block_new_simps [simp]:
  "parents (block_new E ps t txs n d f p r) = ps"
  "transactions (block_new E ps t txs n d f p r) = txs"
  "blk_height (block_new E ps t txs n d f p r) = 0"
  "hd_timestamp (header (block_new E ps t txs n d f p r)) = t"
  "hd_difficulty (header (block_new E ps t txs n d f p r)) = d"
  "hd_base_fee (header (block_new E ps t txs n d f p r)) = f"
  "hd_state_root (header (block_new E ps t txs n d f p r)) = r"
  "hd_selected_parent (header (block_new E ps t txs n d f p r)) = None"
  "hd_topo_index (header (block_new E ps t txs n d f p r)) = 0"
  "producer (block_new E ps t txs n d f p r) = p"
  "blk_reward (block_new E ps t txs n d f p r) = calculate_reward (exp_f64 E) (length txs)"
  by (simp_all add: block_new_def Let_def)

lemma block_new_hash: "blk_hash (block_new E ps t txs n d f p r) =
    calculate_hash E (block_new E ps t txs n d f p r)"
  by (simp add: block_new_def Let_def calculate_hash_def block_preimage_def)

lemma set_consensus_metadata_simps [simp]:
  "parents (set_consensus_metadata E s bs ch ti b) = parents b"
  "transactions (set_consensus_metadata E s bs ch ti b) = transactions b"
  "producer (set_consensus_metadata E s bs ch ti b) = producer b"
  "blk_reward (set_consensus_metadata E s bs ch ti b) = blk_reward b"
  "blk_height (set_consensus_metadata E s bs ch ti b) = ch"
  "hd_selected_parent (header (set_consensus_metadata E s bs ch ti b)) = s"
  "hd_blue_score (header (set_consensus_metadata E s bs ch ti b)) = bs"
  "hd_chain_height (header (set_consensus_metadata E s bs ch ti b)) = ch"
  "hd_topo_index (header (set_consensus_metadata E s bs ch ti b)) = ti"
  "hd_timestamp (header (set_consensus_metadata E s bs ch ti b)) = hd_timestamp (header b)"
  "hd_difficulty (header (set_consensus_metadata E s bs ch ti b)) = hd_difficulty (header b)"
  "hd_base_fee (header (set_consensus_metadata E s bs ch ti b)) = hd_base_fee (header b)"
  "hd_state_root (header (set_consensus_metadata E s bs ch ti b)) = hd_state_root (header b)"
  by (simp_all add: set_consensus_metadata_def Let_def)

lemma set_consensus_metadata_hash [simp]:
  "blk_hash (set_consensus_metadata E s bs ch ti b) =
     calculate_hash E (set_consensus_metadata E s bs ch ti b)"
  by (simp add: set_consensus_metadata_def Let_def)

lemma block_wf_metadata:
  "block_wf b \<Longrightarrow> (\<And>p. s = Some p \<Longrightarrow> length p = 32) \<Longrightarrow>
     block_wf (set_consensus_metadata E s bs ch ti b)"
  by (simp add: block_wf_def)

lemma calculate_hash_length: "sha_len (sha256 E) \<Longrightarrow> length (calculate_hash E b) = 32"
  by (simp add: calculate_hash_def)

lemma block_new_checks:
  "validate_basic E now (block_new E ps t txs n d f p r) =
     (if d > 0 \<and> \<not> meets_difficulty (calculate_hash E (block_new E ps t txs n d f p r)) d
        then Inl PowNotMet
      else if \<not> distinct (map (tx_hash (sha256 E)) txs) then Inl DuplicateTransactions
      else if t > now + 3600 then Inl TimestampTooFar
      else Inr ())"
proof -
  have "card (set (map (tx_hash (sha256 E)) txs)) \<noteq> length txs \<longleftrightarrow>
      \<not> distinct (map (tx_hash (sha256 E)) txs)"
    using card_distinct [of "map (tx_hash (sha256 E)) txs"]
      distinct_card [of "map (tx_hash (sha256 E)) txs"] by auto
  then show ?thesis
    by (simp add: validate_basic_def block_new_hash Let_def)
qed

text \<open>
  The fixed-length end of the preimage determines the topological index: reading it from
  the right, 20 producer bytes and 32 bytes of the selected parent follow the index.
\<close>

lemma block_preimage_topo:
  assumes "block_wf a" and "block_wf b" and "block_preimage E a = block_preimage E b"
  shows "hd_topo_index (header a) = hd_topo_index (header b)"
proof -
  let ?sel = "\<lambda>x. case hd_selected_parent (header x) of Some p \<Rightarrow> p | None \<Rightarrow> replicate 32 0"
  let ?tl = "\<lambda>x. le_bytes 8 (hd_topo_index (header x)) @ ?sel x @ producer x"
  have len: "length (?sel x) = 32" if "block_wf x" for x
    using that by (auto simp: block_wf_def split: option.split)
  obtain pre where pre: "\<And>x. block_preimage E x = pre x @ ?tl x"
    by (simp only: block_preimage_def header_tail_def append_assoc [symmetric])
  have le: "length (?tl a) = length (?tl b)"
    using assms(1,2) len by (simp add: block_wf_def)
  note e = append_eq_append_conv [THEN iffD1, OF disjI2, OF le assms(3) [unfolded pre],
      THEN conjunct2]
  have "length (le_bytes 8 (hd_topo_index (header a))) =
      length (le_bytes 8 (hd_topo_index (header b)))"
    by simp
  from append_eq_append_conv [THEN iffD1, OF disjI1, OF this e] show ?thesis
    by simp
qed

section \<open>Sample instances\<close>

definition sample_env :: env where
  "sample_env = \<lparr>sha256 = sample_sha, exp_f64 = (\<lambda>_. 1)\<rparr>"

text \<open>A block without transactions and without proof of work.\<close>

definition sample_block :: "block_hash list \<Rightarrow> u64 \<Rightarrow> block" where
  "sample_block ps nonce = block_new sample_env ps 1000 [] nonce 0 1 (replicate 20 9) (replicate 32 0)"

section \<open>Properties\<close>

text \<open>
  A freshly built block is rejected by \<open>validate_basic\<close> only for a missing proof of work,
  a repeated transaction or a timestamp more than an hour ahead, tested in this order: its
  own hash and its reward always pass.
\<close>

theorem block_new_validates:
  "validate_basic E now (block_new E ps t txs n d f p r) =
     (if d > 0 \<and> \<not> meets_difficulty (calculate_hash E (block_new E ps t txs n d f p r)) d
        then Inl PowNotMet
      else if \<not> distinct (map (tx_hash (sha256 E)) txs) then Inl DuplicateTransactions
      else if t > now + 3600 then Inl TimestampTooFar
      else Inr ())"
  by (rule block_new_checks)

text \<open>
  The block hash does not commit to where the parents end and the transactions begin:
  moving the first transaction's hash to the end of the parent list leaves the block hash
  unchanged, whatever the digest.
\<close>

theorem block_hash_parent_tx_ambiguity:
  "calculate_hash E (b\<lparr>header := (header b)\<lparr>parent_hashes := ps @ [tx_hash (sha256 E) t]\<rparr>,
                       transactions := ts\<rparr>) =
   calculate_hash E (b\<lparr>header := (header b)\<lparr>parent_hashes := ps\<rparr>, transactions := t # ts\<rparr>)"
  by (simp add: calculate_hash_def block_preimage_def header_tail_def)

text \<open>
  Annotating a block keeps its hash consistent with its content, and apart from that
  changes only the four consensus fields and the height: of the checks of
  \<open>validate_basic\<close> only the proof of work can newly fail.
\<close>

theorem annotated_block_validates:
  assumes "validate_basic E now b = Inr ()"
  shows "validate_basic E now (set_consensus_metadata E s bs ch ti b) =
    (let h = calculate_hash E (set_consensus_metadata E s bs ch ti b) in
     if hd_difficulty (header b) > 0 \<and> \<not> meets_difficulty h (hd_difficulty (header b))
     then Inl PowNotMet else Inr ())"
  using assms by (simp add: validate_basic_def Let_def split: if_splits)

theorem annotated_block_validates_witness:
  "validate_basic sample_env 1000
     (set_consensus_metadata sample_env (Some (replicate 32 1)) 2 1 1
       (sample_block [replicate 32 1] 0)) = Inr ()"
proof -
  have "validate_basic sample_env 1000 (sample_block [replicate 32 1] 0) = Inr ()"
    by (simp add: validate_basic_def sample_block_def block_new_hash sample_env_def)
  from annotated_block_validates [OF this] show ?thesis
    by (simp add: Let_def sample_block_def)
qed

end
