(* ===== verification/Block_Store.thy ===== *)
theory Block_Store
  imports Block
begin

text \<open>
  Persistent block storage with its in-memory cache:
  \<^verbatim>\<open>src/src/storage/block_store.rs\<close>.

  RocksDB is external: its operations are the fields of the record \<open>rocks\<close> over an opaque
  database type, and \<open>rocks_ok R view\<close> names what the code relies on, with \<open>view\<close> reading a
  column family as a map in key order: reads succeed and return the stored value, a write
  batch that succeeds applies its operations in order, iteration from the start visits the
  keys in order. Writes may fail. The serialiser \<^verbatim>\<open>bincode\<close> and \<^verbatim>\<open>hex\<close> are the record
  \<open>codec\<close>, with \<open>codec_ok\<close> the round trip of a block that was serialised.

  The cache is a hash map. Which key \<open>keys().next()\<close> meets is the argument \<open>pick\<close>: it
  returns a number that is reduced to a position of the map, so every choice is a key.
\<close>

section \<open>External code\<close>

datatype cf = BLOCKS_CF | TRANSACTIONS_CF | METADATA_CF

datatype kv_op = Put cf bytes bytes | Del cf bytes

datatype store_error =
    SerializeBlock | SerializeMetadata | SerializeTransaction | DeserializeMetadata
  | CfNotFound cf | WriteFailed | IteratorError | DatabaseError
  | StoredHashMismatch block_hash block_hash

record block_metadata =
  meta_height :: u64
  meta_timestamp :: u64
  meta_tx_count :: nat
  meta_size :: nat

record 'db rocks =
  kv_has_cf :: "'db \<Rightarrow> cf \<Rightarrow> bool"
  kv_get :: "'db \<Rightarrow> cf \<Rightarrow> bytes \<Rightarrow> unit + bytes option"
  kv_write :: "'db \<Rightarrow> kv_op list \<Rightarrow> unit + 'db"
  kv_iter :: "'db \<Rightarrow> cf \<Rightarrow> (unit + bytes \<times> bytes) list"

record codec =
  ser_block :: "block \<Rightarrow> bytes option"
  de_block :: "bytes \<Rightarrow> block option"
  ser_meta :: "block_metadata \<Rightarrow> bytes option"
  de_meta :: "bytes \<Rightarrow> block_metadata option"
  ser_tx :: "transaction \<Rightarrow> bytes option"
  hex_encode :: "bytes \<Rightarrow> bytes"

section \<open>State\<close>

record 'db store =
  db :: 'db
  cache :: "(block_hash \<times> block) list"
  cache_size_limit :: nat
  cache_size :: nat

section \<open>The cache\<close>

function evict :: "((block_hash \<times> block) list \<Rightarrow> nat) \<Rightarrow> nat \<Rightarrow> (block_hash \<times> block) list \<Rightarrow> nat
    \<Rightarrow> (block_hash \<times> block) list \<times> nat" where
  "evict pick limit c n =
     (if n \<ge> limit \<and> c \<noteq> []
      then evict pick limit (AList.delete (fst (c ! (pick c mod length c))) c) (n - 1)
      else (c, n))"
  by pat_completeness auto
termination
proof (relation "measure (\<lambda>(pick, limit, c, n). length c)")
  fix pick :: "(block_hash \<times> block) list \<Rightarrow> nat" and limit n :: nat
    and c :: "(block_hash \<times> block) list"
  assume a: "n \<ge> limit \<and> c \<noteq> []"
  let ?k = "fst (c ! (pick c mod length c))"
  from a have "pick c mod length c < length c"
    by simp
  then have "?k \<in> fst ` set c"
    by (metis image_eqI nth_mem)
  then have "length (AList.delete ?k c) < length c"
    by (auto simp: AList.delete_eq intro!: length_filter_less)
  then show "((pick, limit, AList.delete ?k c, n - 1), (pick, limit, c, n))
      \<in> measure (\<lambda>(pick, limit, c, n). length c)"
    by simp
qed simp

declare evict.simps [simp del]

definition add_to_cache ::
  "((block_hash \<times> block) list \<Rightarrow> nat) \<Rightarrow> block_hash \<Rightarrow> block \<Rightarrow> 'db store \<Rightarrow> 'db store" where
  "add_to_cache pick h b s =
     (let (c, n) = evict pick (cache_size_limit s) (cache s) (cache_size s);
          n' = (case map_of c h of None \<Rightarrow> n + 1 | Some _ \<Rightarrow> n)
      in s\<lparr>cache := AList.update h b c, cache_size := n'\<rparr>)"

definition get_from_cache :: "'db store \<Rightarrow> block_hash \<Rightarrow> block option" where
  "get_from_cache s h = map_of (cache s) h"

definition remove_from_cache :: "block_hash \<Rightarrow> 'db store \<Rightarrow> 'db store" where
  "remove_from_cache h s =
     (case map_of (cache s) h of
        None \<Rightarrow> s
      | Some _ \<Rightarrow> s\<lparr>cache := AList.delete h (cache s), cache_size := cache_size s - 1\<rparr>)"

section \<open>Operations\<close>

definition metadata_key :: "codec \<Rightarrow> block_hash \<Rightarrow> bytes" where
  "metadata_key C h = map (of_nat \<circ> of_char) ''meta_'' @ hex_encode C h"

fun tx_puts :: "codec \<Rightarrow> env \<Rightarrow> transaction list \<Rightarrow> kv_op list option" where
  "tx_puts C E [] = Some []"
| "tx_puts C E (tx # txs) =
     (case ser_tx C tx of
        None \<Rightarrow> None
      | Some d \<Rightarrow> map_option ((#) (Put TRANSACTIONS_CF (tx_hash (sha256 E) tx) d)) (tx_puts C E txs))"

definition store_insert_block ::
  "'db rocks \<Rightarrow> codec \<Rightarrow> env \<Rightarrow> ((block_hash \<times> block) list \<Rightarrow> nat) \<Rightarrow> block \<Rightarrow> 'db store
    \<Rightarrow> store_error + 'db store" where
  "store_insert_block R C E pick b s =
     (case ser_block C b of
        None \<Rightarrow> Inl SerializeBlock
      | Some block_data \<Rightarrow>
     (case ser_meta C \<lparr>meta_height = blk_height b, meta_timestamp = hd_timestamp (header b),
         meta_tx_count = length (transactions b), meta_size = length block_data\<rparr> of
        None \<Rightarrow> Inl SerializeMetadata
      | Some metadata_data \<Rightarrow>
      if \<not> kv_has_cf R (db s) BLOCKS_CF then Inl (CfNotFound BLOCKS_CF)
      else if \<not> kv_has_cf R (db s) METADATA_CF then Inl (CfNotFound METADATA_CF)
      else if \<not> kv_has_cf R (db s) TRANSACTIONS_CF then Inl (CfNotFound TRANSACTIONS_CF)
      else case tx_puts C E (transactions b) of
        None \<Rightarrow> Inl SerializeTransaction
      | Some puts \<Rightarrow>
     (case kv_write R (db s)
         ([Put BLOCKS_CF (blk_hash b) block_data,
           Put METADATA_CF (metadata_key C (blk_hash b)) metadata_data] @ puts) of
        Inl _ \<Rightarrow> Inl WriteFailed
      | Inr d \<Rightarrow> Inr (add_to_cache pick (blk_hash b) b (s\<lparr>db := d\<rparr>)))))"

definition store_get_block ::
  "'db rocks \<Rightarrow> codec \<Rightarrow> ((block_hash \<times> block) list \<Rightarrow> nat) \<Rightarrow> 'db store \<Rightarrow> block_hash
    \<Rightarrow> block option \<times> 'db store" where
  "store_get_block R C pick s h =
     (case get_from_cache s h of
        Some b \<Rightarrow> (Some b, s)
      | None \<Rightarrow>
          if \<not> kv_has_cf R (db s) BLOCKS_CF then (None, s)
          else case kv_get R (db s) BLOCKS_CF h of
            Inr (Some data) \<Rightarrow>
              (case de_block C data of
                 Some b \<Rightarrow> (Some b, add_to_cache pick h b s)
               | None \<Rightarrow> (None, s))
          | _ \<Rightarrow> (None, s))"

definition store_block_exists :: "'db rocks \<Rightarrow> 'db store \<Rightarrow> block_hash \<Rightarrow> bool" where
  "store_block_exists R s h =
     (if map_of (cache s) h \<noteq> None then True
      else if \<not> kv_has_cf R (db s) BLOCKS_CF then False
      else case kv_get R (db s) BLOCKS_CF h of
        Inr opt \<Rightarrow> opt \<noteq> None
      | Inl _ \<Rightarrow> False)"

definition store_get_metadata ::
  "'db rocks \<Rightarrow> codec \<Rightarrow> 'db store \<Rightarrow> block_hash \<Rightarrow> store_error + block_metadata option" where
  "store_get_metadata R C s h =
     (if \<not> kv_has_cf R (db s) METADATA_CF then Inl (CfNotFound METADATA_CF)
      else case kv_get R (db s) METADATA_CF (metadata_key C h) of
        Inr (Some data) \<Rightarrow>
          (case de_meta C data of None \<Rightarrow> Inl DeserializeMetadata | Some m \<Rightarrow> Inr (Some m))
      | Inr None \<Rightarrow> Inr None
      | Inl _ \<Rightarrow> Inl DatabaseError)"

fun collect_hashes :: "(unit + bytes \<times> bytes) list \<Rightarrow> store_error + block_hash list" where
  "collect_hashes [] = Inr []"
| "collect_hashes (Inl _ # xs) = Inl IteratorError"
| "collect_hashes (Inr (k, v) # xs) =
     (case collect_hashes xs of
        Inl e \<Rightarrow> Inl e
      | Inr hs \<Rightarrow> Inr (if length k = 32 then k # hs else hs))"

definition store_all_block_hashes :: "'db rocks \<Rightarrow> 'db store \<Rightarrow> store_error + block_hash list" where
  "store_all_block_hashes R s =
     (if \<not> kv_has_cf R (db s) BLOCKS_CF then Inl (CfNotFound BLOCKS_CF)
      else collect_hashes (kv_iter R (db s) BLOCKS_CF))"

definition store_all_hashes :: "'db rocks \<Rightarrow> 'db store \<Rightarrow> block_hash list" where
  "store_all_hashes R s =
     (case store_all_block_hashes R s of Inl _ \<Rightarrow> [] | Inr hs \<Rightarrow> hs)"

fun get_blocks ::
  "'db rocks \<Rightarrow> codec \<Rightarrow> ((block_hash \<times> block) list \<Rightarrow> nat) \<Rightarrow> block_hash list \<Rightarrow> 'db store
    \<Rightarrow> block list \<times> 'db store" where
  "get_blocks R C pick [] s = ([], s)"
| "get_blocks R C pick (h # hs) s =
     (let (ob, s1) = store_get_block R C pick s h;
          (bs, s2) = get_blocks R C pick hs s1
      in ((case ob of None \<Rightarrow> bs | Some b \<Rightarrow> b # bs), s2))"

definition store_all_blocks ::
  "'db rocks \<Rightarrow> codec \<Rightarrow> ((block_hash \<times> block) list \<Rightarrow> nat) \<Rightarrow> 'db store
    \<Rightarrow> block list \<times> 'db store" where
  "store_all_blocks R C pick s = get_blocks R C pick (store_all_hashes R s) s"

definition store_block_count :: "'db rocks \<Rightarrow> 'db store \<Rightarrow> nat" where
  "store_block_count R s = length (store_all_hashes R s)"

text \<open>The reads of the loop fill the cache, so the store is returned with an error too.\<close>

fun range_blocks ::
  "'db rocks \<Rightarrow> codec \<Rightarrow> ((block_hash \<times> block) list \<Rightarrow> nat) \<Rightarrow> u64 \<Rightarrow> u64 \<Rightarrow> block_hash list
    \<Rightarrow> 'db store \<Rightarrow> (store_error + block list) \<times> 'db store" where
  "range_blocks R C pick lo hi [] s = (Inr [], s)"
| "range_blocks R C pick lo hi (h # hs) s =
     (case store_get_metadata R C s h of
        Inl e \<Rightarrow> (Inl e, s)
      | Inr om \<Rightarrow>
         (let (ob, s1) =
            (case om of
               Some m \<Rightarrow> if meta_height m \<ge> lo \<and> meta_height m \<le> hi
                         then store_get_block R C pick s h else (None, s)
             | None \<Rightarrow> (None, s))
          in case range_blocks R C pick lo hi hs s1 of
               (Inl e, s2) \<Rightarrow> (Inl e, s2)
             | (Inr bs, s2) \<Rightarrow> (Inr (case ob of None \<Rightarrow> bs | Some b \<Rightarrow> b # bs), s2)))"

definition store_blocks_by_height_range ::
  "'db rocks \<Rightarrow> codec \<Rightarrow> ((block_hash \<times> block) list \<Rightarrow> nat) \<Rightarrow> u64 \<Rightarrow> u64 \<Rightarrow> 'db store
    \<Rightarrow> (store_error + block list) \<times> 'db store" where
  "store_blocks_by_height_range R C pick lo hi s =
     (case store_all_block_hashes R s of
        Inl e \<Rightarrow> (Inl e, s)
      | Inr hs \<Rightarrow>
          (case range_blocks R C pick lo hi hs s of
             (Inl e, s') \<Rightarrow> (Inl e, s')
           | (Inr bs, s') \<Rightarrow> (Inr (sort_key blk_height bs), s')))"

text \<open>
  \<open>delete_block\<close>: the cache entry goes first, then the block is read once more. The store is
  shared, so an error leaves what was done before it.
\<close>

definition store_delete_block ::
  "'db rocks \<Rightarrow> codec \<Rightarrow> env \<Rightarrow> ((block_hash \<times> block) list \<Rightarrow> nat) \<Rightarrow> block_hash \<Rightarrow> 'db store
    \<Rightarrow> (store_error + unit) \<times> 'db store" where
  "store_delete_block R C E pick h s =
     (let s1 = remove_from_cache h s in
      if \<not> kv_has_cf R (db s1) BLOCKS_CF then (Inl (CfNotFound BLOCKS_CF), s1)
      else if \<not> kv_has_cf R (db s1) METADATA_CF then (Inl (CfNotFound METADATA_CF), s1)
      else if \<not> kv_has_cf R (db s1) TRANSACTIONS_CF then (Inl (CfNotFound TRANSACTIONS_CF), s1)
      else let batch = [Del BLOCKS_CF h, Del METADATA_CF (metadata_key C h)];
               (ob, s2) = store_get_block R C pick s1 h;
               dels = (case ob of
                  None \<Rightarrow> []
                | Some b \<Rightarrow> map (\<lambda>tx. Del TRANSACTIONS_CF (tx_hash (sha256 E) tx)) (transactions b))
           in case kv_write R (db s2) (batch @ dels) of
                Inl _ \<Rightarrow> (Inl WriteFailed, s2)
              | Inr d \<Rightarrow> (Inr (), s2\<lparr>db := d\<rparr>))"

fun first_mismatch :: "env \<Rightarrow> block list \<Rightarrow> store_error + unit" where
  "first_mismatch E [] = Inr ()"
| "first_mismatch E (b # bs) =
     (if blk_hash b \<noteq> calculate_hash E b
      then Inl (StoredHashMismatch (blk_hash b) (calculate_hash E b))
      else first_mismatch E bs)"

definition store_verify_integrity ::
  "'db rocks \<Rightarrow> codec \<Rightarrow> env \<Rightarrow> ((block_hash \<times> block) list \<Rightarrow> nat) \<Rightarrow> 'db store
    \<Rightarrow> store_error + unit" where
  "store_verify_integrity R C E pick s = first_mismatch E (fst (store_all_blocks R C pick s))"

definition store_blocks_by_parent ::
  "'db rocks \<Rightarrow> codec \<Rightarrow> ((block_hash \<times> block) list \<Rightarrow> nat) \<Rightarrow> 'db store \<Rightarrow> block_hash
    \<Rightarrow> block list" where
  "store_blocks_by_parent R C pick s p =
     filter (\<lambda>b. p \<in> set (parents b)) (fst (store_all_blocks R C pick s))"

text \<open>\<open>clear\<close>: errors of the single deletions are ignored, as \<open>let _ =\<close> does.\<close>

fun delete_all ::
  "'db rocks \<Rightarrow> codec \<Rightarrow> env \<Rightarrow> ((block_hash \<times> block) list \<Rightarrow> nat) \<Rightarrow> block_hash list \<Rightarrow> 'db store
    \<Rightarrow> 'db store" where
  "delete_all R C E pick [] s = s"
| "delete_all R C E pick (h # hs) s =
     delete_all R C E pick hs (snd (store_delete_block R C E pick h s))"

definition store_clear ::
  "'db rocks \<Rightarrow> codec \<Rightarrow> env \<Rightarrow> ((block_hash \<times> block) list \<Rightarrow> nat) \<Rightarrow> 'db store \<Rightarrow> 'db store" where
  "store_clear R C E pick s =
     (delete_all R C E pick (store_all_hashes R s) s)\<lparr>cache := [], cache_size := 0\<rparr>"

record storage_stats =
  st_block_count :: nat
  st_total_size :: nat
  st_cache_size :: nat

fun stats_loop :: "(unit + bytes \<times> bytes) list \<Rightarrow> nat \<Rightarrow> nat \<Rightarrow> store_error + nat \<times> nat" where
  "stats_loop [] n bytes_total = Inr (n, bytes_total)"
| "stats_loop (Inl _ # xs) n bytes_total = Inl IteratorError"
| "stats_loop (Inr (k, v) # xs) n bytes_total = stats_loop xs (n + 1) (bytes_total + length v)"

definition store_get_stats :: "'db rocks \<Rightarrow> 'db store \<Rightarrow> store_error + storage_stats" where
  "store_get_stats R s =
     (if \<not> kv_has_cf R (db s) BLOCKS_CF then Inl (CfNotFound BLOCKS_CF)
      else case stats_loop (kv_iter R (db s) BLOCKS_CF) 0 0 of
        Inl e \<Rightarrow> Inl e
      | Inr (n, bytes_total) \<Rightarrow>
          Inr \<lparr>st_block_count = n, st_total_size = bytes_total, st_cache_size = cache_size s\<rparr>)"

text \<open>Compaction rewrites the files of the database and keeps its content.\<close>

definition store_compact :: "'db rocks \<Rightarrow> 'db store \<Rightarrow> store_error + unit" where
  "store_compact R s =
     (if \<not> kv_has_cf R (db s) BLOCKS_CF then Inl (CfNotFound BLOCKS_CF)
      else if \<not> kv_has_cf R (db s) METADATA_CF then Inl (CfNotFound METADATA_CF)
      else if \<not> kv_has_cf R (db s) TRANSACTIONS_CF then Inl (CfNotFound TRANSACTIONS_CF)
      else Inr ())"

section \<open>What the external code promises\<close>

fun apply_op :: "cf \<Rightarrow> kv_op \<Rightarrow> (bytes \<times> bytes) list \<Rightarrow> (bytes \<times> bytes) list" where
  "apply_op c (Put c' k v) m = (if c = c' then omap_insert k v m else m)"
| "apply_op c (Del c' k) m = (if c = c' then omap_delete k m else m)"

definition rocks_ok :: "'db rocks \<Rightarrow> ('db \<Rightarrow> cf \<Rightarrow> (bytes \<times> bytes) list) \<Rightarrow> bool" where
  "rocks_ok R view \<longleftrightarrow>
     (\<forall>d c. kv_has_cf R d c) \<and>
     (\<forall>d c. omap_inv (view d c)) \<and>
     (\<forall>d c k. kv_get R d c k = Inr (map_of (view d c) k)) \<and>
     (\<forall>d ops d'. kv_write R d ops = Inr d' \<longrightarrow>
        (\<forall>c. view d' c = fold (apply_op c) ops (view d c))) \<and>
     (\<forall>d c. kv_iter R d c = map Inr (view d c))"

definition codec_ok :: "codec \<Rightarrow> bool" where
  "codec_ok C \<longleftrightarrow>
     (\<forall>b d. ser_block C b = Some d \<longrightarrow> de_block C d = Some b) \<and>
     (\<forall>m d. ser_meta C m = Some d \<longrightarrow> de_meta C d = Some m)"

section \<open>The abstract store\<close>

text \<open>
  What the other components see of the store: the blocks in key order. \<open>store_view\<close> reads it
  off the database, \<open>store_inv\<close> says that the cache agrees with it.
\<close>

type_synonym block_view = "(block_hash \<times> block) list"

definition store_view :: "codec \<Rightarrow> ('db \<Rightarrow> cf \<Rightarrow> (bytes \<times> bytes) list) \<Rightarrow> 'db store \<Rightarrow> block_view" where
  "store_view C view s =
     map (\<lambda>(k, d). (k, the (de_block C d))) (view (db s) BLOCKS_CF)"

definition store_inv :: "codec \<Rightarrow> ('db \<Rightarrow> cf \<Rightarrow> (bytes \<times> bytes) list) \<Rightarrow> 'db store \<Rightarrow> bool" where
  "store_inv C view s \<longleftrightarrow>
     (\<forall>(k, d) \<in> set (view (db s) BLOCKS_CF). length k = 32 \<and> de_block C d \<noteq> None) \<and>
     hm_inv (cache s) \<and> cache_size s = length (cache s) \<and>
     length (cache s) \<le> cache_size_limit s \<and> 1 \<le> cache_size_limit s \<and>
     (\<forall>h b. map_of (cache s) h = Some b \<longrightarrow> map_of (store_view C view s) h = Some b)"

definition view_put :: "block \<Rightarrow> block_view \<Rightarrow> block_view" where
  "view_put b v = omap_insert (blk_hash b) b v"

locale block_storage =
  fixes lookup :: "'s \<Rightarrow> block_hash \<Rightarrow> block option"
    and hashes :: "'s \<Rightarrow> block_hash list"
    and put :: "block \<Rightarrow> 's \<Rightarrow> 's"
    and inv :: "'s \<Rightarrow> bool"
  assumes lookup_put: "inv s \<Longrightarrow> lookup (put b s) = (lookup s)(blk_hash b \<mapsto> b)"
    and set_hashes: "inv s \<Longrightarrow> set (hashes s) = dom (lookup s)"
    and sorted_hashes: "inv s \<Longrightarrow> sorted_wrt (<) (hashes s)"
    and inv_put: "inv s \<Longrightarrow> inv (put b s)"
begin

lemma distinct_hashes: "inv s \<Longrightarrow> distinct (hashes s)"
  using sorted_hashes strict_sorted_iff by blast

lemma count_put_fresh:
  assumes "inv s" and "lookup s (blk_hash b) = None"
  shows "length (hashes (put b s)) = Suc (length (hashes s))"
proof -
  have "length (hashes (put b s)) = card (dom (lookup (put b s)))"
    using assms(1) by (metis distinct_card distinct_hashes inv_put set_hashes)
  also have "\<dots> = card (insert (blk_hash b) (dom (lookup s)))"
    using assms(1) by (simp add: lookup_put)
  also have "\<dots> = Suc (length (hashes s))"
    using assms by (metis List.finite_set card_insert_disjoint distinct_card distinct_hashes
        domIff set_hashes)
  finally show ?thesis .
qed

lemma put_get: "inv s \<Longrightarrow> lookup (put b s) (blk_hash b) = Some b"
  by (simp add: lookup_put)

lemma put_other: "inv s \<Longrightarrow> h \<noteq> blk_hash b \<Longrightarrow> lookup (put b s) h = lookup s h"
  by (simp add: lookup_put)

end

interpretation vw: block_storage "map_of :: block_view \<Rightarrow> block_hash \<Rightarrow> block option"
    "map fst" view_put omap_inv
proof unfold_locales
  fix s :: block_view and b :: block
  assume s: "omap_inv s"
  show "map_of (view_put b s) = (map_of s)(blk_hash b \<mapsto> b)"
    by (simp add: view_put_def map_of_omap_insert)
  show "set (map fst s) = dom (map_of s)"
    by (simp add: dom_map_of_conv_image_fst)
  show "sorted_wrt (<) (map fst s)"
    using s by (simp add: omap_inv_def)
  show "omap_inv (view_put b s)"
    using s by (simp add: view_put_def omap_inv_insert)
qed

section \<open>Lemmas\<close>

lemma rocks_okD:
  assumes "rocks_ok R view"
  shows "kv_has_cf R d c" "omap_inv (view d c)" "kv_get R d c k = Inr (map_of (view d c) k)"
    "kv_write R d ops = Inr d' \<Longrightarrow> view d' c = fold (apply_op c) ops (view d c)"
    "kv_iter R d c = map Inr (view d c)"
  using assms by (auto simp: rocks_ok_def)

lemma evict_spec:
  assumes "hm_inv c" and "n = length c" and "evict pick limit c n = (c', n')"
  shows "hm_inv c' \<and> n' = length c' \<and> (n' < limit \<or> c' = []) \<and> map_of c' \<subseteq>\<^sub>m map_of c"
  using assms
proof (induction pick limit c n arbitrary: c' n' rule: evict.induct)
  case (1 pick limit c n)
  show ?case
  proof (cases "n \<ge> limit \<and> c \<noteq> []")
    case True
    let ?k = "fst (c ! (pick c mod length c))"
    from True have "?k \<in> fst ` set c"
      by (intro imageI nth_mem) simp
    then obtain v where "map_of c ?k = Some v"
      by (metis hm_key_iff not_None_eq)
    with "1.prems"(1) have "Suc (length (AList.delete ?k c)) = length c"
      by (rule length_delete_old)
    with "1.prems" True have n: "n - 1 = length (AList.delete ?k c)"
      by simp
    have e: "evict pick limit (AList.delete ?k c) (n - 1) = (c', n')"
      using "1.prems"(3) True evict.simps [of pick limit c n] by simp
    have "map_of (AList.delete ?k c) \<subseteq>\<^sub>m map_of c"
      by (simp add: map_of_hm_delete map_le_def)
    with "1.IH" [OF True hm_inv_delete [OF "1.prems"(1)] n e] show ?thesis
      by (auto intro: map_le_trans)
  next
    case False
    with "1.prems" evict.simps [of pick limit c n] show ?thesis
      by auto
  qed
qed

lemma add_to_cache_frame [simp]:
  "db (add_to_cache pick h b s) = db s"
  "cache_size_limit (add_to_cache pick h b s) = cache_size_limit s"
  "store_view C view (add_to_cache pick h b s) = store_view C view s"
  by (auto simp: add_to_cache_def store_view_def Let_def split: prod.split)

lemma map_of_add_to_cache_same: "map_of (cache (add_to_cache pick h b s)) h = Some b"
  by (auto simp: add_to_cache_def Let_def map_of_hm_update split: prod.split)

lemma store_inv_add_to_cache:
  assumes "hm_inv (cache s)" and "cache_size s = length (cache s)" and "1 \<le> cache_size_limit s"
    and "\<forall>(k, d) \<in> set (view (db s) BLOCKS_CF). length k = 32 \<and> de_block C d \<noteq> None"
    and others: "\<And>h' b'. h' \<noteq> h \<Longrightarrow> map_of (cache s) h' = Some b' \<Longrightarrow>
      map_of (store_view C view s) h' = Some b'"
    and own: "map_of (store_view C view s) h = Some b"
  shows "store_inv C view (add_to_cache pick h b s)"
proof -
  obtain c n where e: "evict pick (cache_size_limit s) (cache s) (cache_size s) = (c, n)"
    by force
  from evict_spec [OF assms(1,2) e]
  have c: "hm_inv c" "n = length c" "n < cache_size_limit s \<or> c = []"
    and le: "map_of c \<subseteq>\<^sub>m map_of (cache s)"
    by auto
  have size: "cache_size (add_to_cache pick h b s) = length (cache (add_to_cache pick h b s))"
    "length (cache (add_to_cache pick h b s)) \<le> cache_size_limit s"
    using c assms(3)
    by (cases "map_of c h"; auto simp: add_to_cache_def e Let_def length_update_fresh length_update_old)+
  have "map_of (store_view C view s) h' = Some b'"
    if "map_of (cache (add_to_cache pick h b s)) h' = Some b'" for h' b'
  proof (cases "h' = h")
    case True
    with that own show ?thesis
      by (simp add: map_of_add_to_cache_same)
  next
    case False
    with that have "map_of c h' = Some b'"
      by (simp add: add_to_cache_def e Let_def map_of_hm_update)
    with le have "map_of (cache s) h' = Some b'"
      by (metis domI map_le_def)
    with False show ?thesis
      by (rule others)
  qed
  moreover have "hm_inv (cache (add_to_cache pick h b s))"
    using c(1) by (simp add: add_to_cache_def e Let_def hm_inv_update)
  ultimately show ?thesis
    using assms(3,4) size by (simp add: store_inv_def)
qed

lemma map_of_store_view:
  "map_of (store_view C view s) h =
     map_option (\<lambda>d. the (de_block C d)) (map_of (view (db s) BLOCKS_CF) h)"
  by (simp add: store_view_def map_of_map)

lemma store_inv_decodes:
  assumes "store_inv C view s" and "map_of (view (db s) BLOCKS_CF) h = Some d"
  obtains b where "de_block C d = Some b" and "length h = 32"
  using assms map_of_SomeD [OF assms(2)] by (fastforce simp: store_inv_def)

lemma store_get_block_spec:
  assumes R: "rocks_ok R view" and inv: "store_inv C view s"
  shows "fst (store_get_block R C pick s h) = map_of (store_view C view s) h"
    and "store_inv C view (snd (store_get_block R C pick s h))"
    and "db (snd (store_get_block R C pick s h)) = db s"
proof -
  note get = rocks_okD(1,3) [OF R]
  consider (cached) b where "map_of (cache s) h = Some b"
    | (absent) "map_of (cache s) h = None" "map_of (view (db s) BLOCKS_CF) h = None"
    | (present) d b where "map_of (cache s) h = None" "map_of (view (db s) BLOCKS_CF) h = Some d"
        "de_block C d = Some b"
    using store_inv_decodes [OF inv] by (metis not_None_eq)
  then have "fst (store_get_block R C pick s h) = map_of (store_view C view s) h
    \<and> store_inv C view (snd (store_get_block R C pick s h))
    \<and> db (snd (store_get_block R C pick s h)) = db s"
  proof cases
    case cached
    with inv show ?thesis
      by (simp add: store_get_block_def get_from_cache_def store_inv_def)
  next
    case absent
    with inv get show ?thesis
      by (simp add: store_get_block_def get_from_cache_def map_of_store_view)
  next
    case present
    then have v: "map_of (store_view C view s) h = Some b"
      by (simp add: map_of_store_view)
    have "store_inv C view (add_to_cache pick h b s)"
      by (rule store_inv_add_to_cache) (use inv v in \<open>auto simp: store_inv_def\<close>)
    with present v get show ?thesis
      by (simp add: store_get_block_def get_from_cache_def)
  qed
  then show "fst (store_get_block R C pick s h) = map_of (store_view C view s) h"
    "store_inv C view (snd (store_get_block R C pick s h))"
    "db (snd (store_get_block R C pick s h)) = db s"
    by auto
qed

lemma store_block_exists_spec:
  assumes R: "rocks_ok R view" and inv: "store_inv C view s"
  shows "store_block_exists R s h \<longleftrightarrow> map_of (store_view C view s) h \<noteq> None"
proof (cases "map_of (cache s) h")
  case None
  with rocks_okD(1,3) [OF R] show ?thesis
    by (auto simp: store_block_exists_def map_of_store_view)
next
  case (Some b)
  with inv show ?thesis
    by (auto simp: store_block_exists_def store_inv_def)
qed

lemma tx_puts_frame:
  "tx_puts C E txs = Some puts \<Longrightarrow> fold (apply_op BLOCKS_CF) puts m = m"
  by (induction txs arbitrary: puts) (auto split: option.splits)

lemma map_omap_insert:
  "map (\<lambda>(k, d). (k, f d)) (omap_insert k d m) = omap_insert k (f d) (map (\<lambda>(k, d). (k, f d)) m)"
  by (induction k d m rule: omap_insert.induct) auto

lemma map_omap_delete:
  "map (\<lambda>(k, d). (k, f d)) (omap_delete k m) = omap_delete k (map (\<lambda>(k, d). (k, f d)) m)"
  by (induction m) (auto simp: omap_delete_def)

lemma set_omap_insert_subset: "set (omap_insert k v m) \<subseteq> insert (k, v) (set m)"
  by (induction k v m rule: omap_insert.induct) auto

lemma store_insert_block_cases:
  assumes "store_insert_block R C E pick b s = Inr s'"
  obtains data meta puts d where "ser_block C b = Some data"
    "tx_puts C E (transactions b) = Some puts"
    "kv_write R (db s) ([Put BLOCKS_CF (blk_hash b) data, 
       Put METADATA_CF (metadata_key C (blk_hash b)) meta] @ puts) = Inr d"
    "s' = add_to_cache pick (blk_hash b) b (s\<lparr>db := d\<rparr>)"
  using assms by (auto simp: store_insert_block_def split: option.splits if_splits sum.splits)

lemma collect_hashes_ok:
  "collect_hashes (map Inr m) = Inr (filter (\<lambda>k. length k = 32) (map fst m))"
  by (induction m) auto

lemma store_all_hashes_spec:
  assumes R: "rocks_ok R view" and inv: "store_inv C view s"
  shows "store_all_hashes R s = map fst (store_view C view s)"
proof -
  have "filter (\<lambda>k. length k = 32) (map fst (view (db s) BLOCKS_CF)) = map fst (view (db s) BLOCKS_CF)"
    using inv by (intro filter_True) (auto simp: store_inv_def)
  then show ?thesis
    using rocks_okD(1,5) [OF R]
    by (simp add: store_all_hashes_def store_all_block_hashes_def collect_hashes_ok store_view_def
        case_prod_beta comp_def)
qed

lemma get_blocks_spec:
  assumes R: "rocks_ok R view" and "store_inv C view s"
  shows "fst (get_blocks R C pick hs s) = List.map_filter (map_of (store_view C view s)) hs
    \<and> store_inv C view (snd (get_blocks R C pick hs s)) \<and> db (snd (get_blocks R C pick hs s)) = db s"
  using assms(2)
proof (induction hs arbitrary: s)
  case Nil
  then show ?case by (simp add: map_filter_simps)
next
  case (Cons h hs)
  obtain ob s1 where g: "store_get_block R C pick s h = (ob, s1)"
    by force
  with store_get_block_spec [OF R Cons.prems, of pick h]
  have ob: "ob = map_of (store_view C view s) h" and s1: "store_inv C view s1" "db s1 = db s"
    by auto
  have v: "store_view C view s1 = store_view C view s"
    by (simp add: store_view_def s1(2))
  obtain bs s2 where r: "get_blocks R C pick hs s1 = (bs, s2)"
    by force
  show ?case
    using Cons.IH [OF s1(1)] s1(2) by (simp add: g r ob v map_filter_simps split: option.split)
qed

lemma map_filter_eqI:
  "(\<And>x. x \<in> set xs \<Longrightarrow> f x = g x) \<Longrightarrow> List.map_filter f xs = List.map_filter g xs"
  by (induction xs) (auto simp: map_filter_simps split: option.split)

lemma map_filter_own_keys:
  "distinct (map fst m) \<Longrightarrow> List.map_filter (map_of m) (map fst m) = map snd m"
proof (induction m)
  case Nil
  then show ?case by (simp add: map_filter_simps)
next
  case (Cons p m)
  have ne: "x \<noteq> fst p" if "x \<in> set (map fst m)" for x
    using Cons.prems that by (metis distinct.simps(2) list.simps(9))
  have "List.map_filter (map_of (p # m)) (map fst m) = List.map_filter (map_of m) (map fst m)"
    by (rule map_filter_eqI) (simp only: map_of.simps fun_upd_other [OF ne])
  with Cons show ?case
    by (cases p) (simp add: map_filter_simps fun_upd_def)
qed

section \<open>Sample instances\<close>

text \<open>
  A database that keeps its log of operations, and a serialiser that knows one block, its
  metadata and nothing else.
\<close>

definition log_view :: "kv_op list \<Rightarrow> cf \<Rightarrow> (bytes \<times> bytes) list" where
  "log_view l c = fold (apply_op c) l []"

definition log_rocks :: "kv_op list rocks" where
  "log_rocks =
     \<lparr>kv_has_cf = (\<lambda>_ _. True), kv_get = (\<lambda>d c k. Inr (map_of (log_view d c) k)),
      kv_write = (\<lambda>d ops. Inr (d @ ops)), kv_iter = (\<lambda>d c. map Inr (log_view d c))\<rparr>"

definition sample_codec :: "block \<Rightarrow> codec" where
  "sample_codec b =
     (let m = \<lparr>meta_height = blk_height b, meta_timestamp = hd_timestamp (header b),
               meta_tx_count = 0, meta_size = 1\<rparr> in
      \<lparr>ser_block = (\<lambda>b'. if b' = b then Some [1] else None),
       de_block = (\<lambda>d. if d = [1] then Some b else None),
       ser_meta = (\<lambda>m'. if m' = m then Some [2] else None),
       de_meta = (\<lambda>d. if d = [2] then Some m else None),
       ser_tx = (\<lambda>_. None), hex_encode = id\<rparr>)"

definition empty_store :: "kv_op list store" where
  "empty_store = \<lparr>db = [], cache = [], cache_size_limit = 2, cache_size = 0\<rparr>"

definition sample_log :: "block \<Rightarrow> kv_op list" where
  "sample_log b =
     [Put BLOCKS_CF (blk_hash b) [1], Put METADATA_CF (metadata_key (sample_codec b) (blk_hash b)) [2]]"

definition sample_store :: "block \<Rightarrow> kv_op list store" where
  "sample_store b = \<lparr>db = sample_log b, cache = [], cache_size_limit = 2, cache_size = 0\<rparr>"

lemma apply_op_inv: "omap_inv m \<Longrightarrow> omap_inv (apply_op c op m)"
  by (cases op) (auto intro: omap_inv_insert omap_inv_delete)

lemma log_view_inv: "omap_inv (log_view l c)"
proof -
  have "omap_inv m \<Longrightarrow> omap_inv (fold (apply_op c) l m)" for m
    by (induction l arbitrary: m) (auto intro: apply_op_inv)
  then show ?thesis
    by (simp add: log_view_def)
qed

lemma log_rocks_ok: "rocks_ok log_rocks log_view"
  by (simp add: rocks_ok_def log_rocks_def log_view_inv) (simp add: log_view_def)

lemma sample_codec_ok: "codec_ok (sample_codec b)"
  by (auto simp: codec_ok_def sample_codec_def Let_def)

lemma empty_store_inv: "store_inv C log_view empty_store"
  by (simp add: store_inv_def empty_store_def log_view_def)

lemma sample_store_view: "store_view (sample_codec b) log_view (sample_store b) = [(blk_hash b, b)]"
  by (simp add: store_view_def sample_store_def sample_log_def log_view_def sample_codec_def Let_def)

lemma sample_store_inv:
  "length (blk_hash b) = 32 \<Longrightarrow> store_inv (sample_codec b) log_view (sample_store b)"
  by (simp add: store_inv_def sample_store_def sample_log_def log_view_def sample_codec_def Let_def)

lemma sample_block_hash: "length (blk_hash (sample_block ps n)) = 32"
  by (simp add: sample_block_def block_new_hash calculate_hash_def sample_env_def)

section \<open>Properties\<close>

text \<open>
  C30. Reading refines the abstract store: as long as the cache is coherent, which insertions and reads
  keep and \<open>delete_block\<close> does not, \<open>get_block\<close>, \<open>block_exists\<close>,
  \<open>get_all_hashes\<close> and \<open>get_all_blocks\<close> answer as the ordered map of stored blocks does,
  whatever entries the cache evicts, and the store after a read has the same content and
  is coherent again, its cache within the limit.
\<close>

theorem store_reads_refine:
  assumes "rocks_ok R view" and "store_inv C view s"
  shows "fst (store_get_block R C pick s h) = map_of (store_view C view s) h
    \<and> store_view C view (snd (store_get_block R C pick s h)) = store_view C view s
    \<and> store_inv C view (snd (store_get_block R C pick s h))
    \<and> (store_block_exists R s h \<longleftrightarrow> h \<in> fst ` set (store_view C view s))
    \<and> store_all_hashes R s = map fst (store_view C view s)
    \<and> fst (store_all_blocks R C pick s) = map snd (store_view C view s)
    \<and> store_block_count R s = length (store_view C view s)"
proof -
  have "distinct (map fst (store_view C view s))"
    using omap_inv_distinct [OF rocks_okD(2) [OF assms(1)], of "db s" BLOCKS_CF]
    by (simp add: store_view_def comp_def case_prod_beta)
  then have "fst (store_all_blocks R C pick s) = map snd (store_view C view s)"
    using get_blocks_spec [OF assms, of pick "store_all_hashes R s"]
    by (simp add: store_all_blocks_def store_all_hashes_spec [OF assms] map_filter_own_keys)
  moreover have "store_view C view (snd (store_get_block R C pick s h)) = store_view C view s"
    by (simp add: store_view_def store_get_block_spec(3) [OF assms])
  ultimately show ?thesis
    using store_get_block_spec [OF assms, of pick h] store_block_exists_spec [OF assms, of h]
      store_all_hashes_spec [OF assms]
    by (simp add: store_block_count_def hm_key_iff)
qed

theorem store_reads_refine_witness:
  "let b = sample_block [] 4; s = sample_store b in
   fst (store_get_block log_rocks (sample_codec b) (\<lambda>_. 0) s (blk_hash b)) = Some b
   \<and> store_block_count log_rocks s = 1"
  using store_reads_refine [OF log_rocks_ok sample_store_inv [OF sample_block_hash [of "[]" 4]],
      of "\<lambda>_. 0" "blk_hash (sample_block [] 4)"]
  by (simp add: Let_def sample_store_view)

text \<open>
  C29. Inserting refines the abstract store: when \<open>insert_block\<close> returns \<open>Ok\<close>, the stored
  blocks are the old ones with this block put at its hash, in key order, and the cache is
  coherent with them; the block just written is the one read back.
\<close>

theorem store_insert_refines:
  assumes R: "rocks_ok R view" and C: "codec_ok C" and inv: "store_inv C view s"
    and len: "length (blk_hash b) = 32" and ins: "store_insert_block R C E pick b s = Inr s'"
  shows "store_view C view s' = view_put b (store_view C view s) \<and> store_inv C view s'
    \<and> fst (store_get_block R C pick s' (blk_hash b)) = Some b"
proof -
  obtain data meta puts d where data: "ser_block C b = Some data"
    and puts: "tx_puts C E (transactions b) = Some puts"
    and w: "kv_write R (db s) ([Put BLOCKS_CF (blk_hash b) data,
       Put METADATA_CF (metadata_key C (blk_hash b)) meta] @ puts) = Inr d"
    and s': "s' = add_to_cache pick (blk_hash b) b (s\<lparr>db := d\<rparr>)"
    using store_insert_block_cases [OF ins] .
  have v: "view d BLOCKS_CF = omap_insert (blk_hash b) data (view (db s) BLOCKS_CF)"
    using rocks_okD(4) [OF R w] tx_puts_frame [OF puts] by simp
  have de: "de_block C data = Some b"
    using C data by (simp add: codec_ok_def)
  have view: "store_view C view s' = view_put b (store_view C view s)"
    by (simp add: s' store_view_def view_put_def v map_omap_insert de)
  have all: "\<forall>(k, d) \<in> set (view d BLOCKS_CF). length k = 32 \<and> de_block C d \<noteq> None"
    using inv len de set_omap_insert_subset [of "blk_hash b" data "view (db s) BLOCKS_CF"]
    unfolding v by (fastforce simp: store_inv_def)
  have inv': "store_inv C view s'"
    unfolding s'
  proof (rule store_inv_add_to_cache)
    show "map_of (store_view C view (s\<lparr>db := d\<rparr>)) (blk_hash b) = Some b"
      using view by (simp add: s' vw.put_get view_put_def map_of_omap_insert)
    show "map_of (store_view C view (s\<lparr>db := d\<rparr>)) h' = Some b'"
      if "h' \<noteq> blk_hash b" and "map_of (cache (s\<lparr>db := d\<rparr>)) h' = Some b'" for h' b'
      using that view inv by (simp add: s' view_put_def map_of_omap_insert store_inv_def)
  qed (use inv all in \<open>auto simp: store_inv_def\<close>)
  have "fst (store_get_block R C pick s' (blk_hash b)) = Some b"
    using store_get_block_spec(1) [OF R inv'] by (simp add: view view_put_def map_of_omap_insert)
  with view inv' show ?thesis
    by blast
qed

theorem store_insert_refines_witness:
  "let b = sample_block [] 4 in
   store_view (sample_codec b) log_view
     (add_to_cache (\<lambda>_. 0) (blk_hash b) b (empty_store\<lparr>db := sample_log b\<rparr>)) = [(blk_hash b, b)]"
proof -
  let ?b = "sample_block [] 4"
  have "transactions ?b = []"
    by (simp add: sample_block_def)
  then have "store_insert_block log_rocks (sample_codec ?b) sample_env (\<lambda>_. 0) ?b empty_store =
      Inr (add_to_cache (\<lambda>_. 0) (blk_hash ?b) ?b (empty_store\<lparr>db := sample_log ?b\<rparr>))"
    by (simp add: store_insert_block_def sample_codec_def Let_def log_rocks_def empty_store_def
        sample_log_def)
  from store_insert_refines [OF log_rocks_ok sample_codec_ok empty_store_inv sample_block_hash this]
  show ?thesis
    by (simp add: Let_def view_put_def store_view_def empty_store_def log_view_def)
qed

text \<open>
  Deleting a stored block removes it from the database, so it is no longer listed or
  counted, yet leaves it in the cache: the read that collects its transactions runs after the
  cache entry was dropped and puts it back, so the store still reports and returns it.
\<close>

theorem delete_block_leaves_stale_cache:
  assumes R: "rocks_ok R view" and inv: "store_inv C view s"
    and b: "map_of (store_view C view s) h = Some b"
    and del: "store_delete_block R C E pick h s = (Inr (), s')"
  shows "map_of (store_view C view s') h = None \<and> h \<notin> set (store_all_hashes R s')
    \<and> fst (store_get_block R C pick s' h) = Some b \<and> store_block_exists R s' h"
proof -
  let ?s1 = "remove_from_cache h s"
  have inv1: "store_inv C view ?s1" and db1: "db ?s1 = db s"
    and miss: "map_of (cache ?s1) h = None"
    using inv length_delete_old [of "cache s" h]
    by (auto simp: remove_from_cache_def store_inv_def store_view_def map_of_hm_delete
        hm_inv_delete split: option.split)
  obtain data where data: "map_of (view (db s) BLOCKS_CF) h = Some data" "de_block C data = Some b"
    using b store_inv_decodes [OF inv] by (fastforce simp: map_of_store_view)
  have g: "store_get_block R C pick ?s1 h = (Some b, add_to_cache pick h b ?s1)"
    using data miss rocks_okD(1,3) [OF R] by (simp add: store_get_block_def get_from_cache_def db1)
  obtain d where w: "kv_write R (db s) ([Del BLOCKS_CF h, Del METADATA_CF (metadata_key C h)] @
        map (\<lambda>tx. Del TRANSACTIONS_CF (tx_hash (sha256 E) tx)) (transactions b)) = Inr d"
    and s': "s' = (add_to_cache pick h b ?s1)\<lparr>db := d\<rparr>"
    using del rocks_okD(1) [OF R]
    by (auto simp: store_delete_block_def Let_def g db1 split: sum.splits)
  have "fold (apply_op BLOCKS_CF)
      (map (\<lambda>tx. Del TRANSACTIONS_CF (tx_hash (sha256 E) tx)) txs) m = m" for txs m
    by (induction txs arbitrary: m) auto
  then have v: "view d BLOCKS_CF = omap_delete h (view (db s) BLOCKS_CF)"
    using rocks_okD(4) [OF R w] by simp
  have c: "map_of (cache s') h = Some b"
    by (simp add: s' map_of_add_to_cache_same)
  have "map_of (store_view C view s') h = None"
    by (simp add: map_of_store_view s' v map_of_omap_delete)
  moreover have "h \<notin> set (store_all_hashes R s')"
    using rocks_okD(1,5) [OF R]
    by (auto simp: store_all_hashes_def store_all_block_hashes_def collect_hashes_ok s' v
        omap_delete_def)
  ultimately show ?thesis
    using c by (simp add: store_get_block_def get_from_cache_def store_block_exists_def)
qed

theorem delete_block_leaves_stale_cache_witness:
  "let b = sample_block [] 4;
       s' = snd (store_delete_block log_rocks (sample_codec b) sample_env (\<lambda>_. 0) (blk_hash b)
              (sample_store b))
   in store_all_hashes log_rocks s' = []
      \<and> fst (store_get_block log_rocks (sample_codec b) (\<lambda>_. 0) s' (blk_hash b)) = Some b"
proof -
  let ?b = "sample_block [] 4" and ?C = "sample_codec (sample_block [] 4)"
  let ?r = "store_delete_block log_rocks ?C sample_env (\<lambda>_. 0) (blk_hash ?b) (sample_store ?b)"
  have "fst ?r = Inr () \<and> store_all_hashes log_rocks (snd ?r) = []"
    by (simp add: store_delete_block_def remove_from_cache_def store_get_block_def Let_def
        get_from_cache_def log_rocks_def sample_store_def sample_log_def log_view_def sample_codec_def
        store_all_hashes_def store_all_block_hashes_def omap_delete_def add_to_cache_def evict.simps
        sample_block_hash sample_block_def)
  moreover from this have "?r = (Inr (), snd ?r)"
    by (metis prod.collapse)
  ultimately show ?thesis
    using delete_block_leaves_stale_cache [OF log_rocks_ok sample_store_inv [OF sample_block_hash],
        where h = "blk_hash ?b" and b = ?b] by (simp add: Let_def sample_store_view)
qed

end
