(* ===== verification/Worklist.thy ===== *)
theory Worklist
  imports Prelude
begin

text \<open>
  The queue loops of the DAG code, over a finite adjacency list. Two shapes occur:
  \<open>bfs_mark\<close> marks a node when it is pushed (\<open>DAGIndex::get_all_ancestors\<close>,
  \<open>get_all_descendants\<close>), \<open>bfs_pop\<close> when it is popped (\<open>get_reachable_blocks\<close>). Both stop on
  every graph, cyclic ones included, and compute reachability: \<open>bfs_mark_reach\<close> and
  \<open>bfs_pop_reach\<close>.
\<close>

section \<open>Graphs\<close>

type_synonym 'a graph = "('a \<times> 'a list) list"

definition edges :: "'a graph \<Rightarrow> ('a \<times> 'a) set" where
  "edges g = {(x, y). y \<in> set (hm_list g x)}"

definition targets :: "'a graph \<Rightarrow> 'a set" where
  "targets g = \<Union> (set ` snd ` set g)"

lemma finite_targets [simp]: "finite (targets g)"
  by (simp add: targets_def)

lemma hm_list_targets: "set (hm_list g x) \<subseteq> targets g"
proof (cases "map_of g x")
  case None
  then show ?thesis
    by (simp add: hm_list_def)
next
  case (Some ys)
  from map_of_SomeD [OF Some] show ?thesis
    by (force simp: hm_list_def targets_def Some)
qed

lemma edgesI: "y \<in> set (hm_list g x) \<Longrightarrow> (x, y) \<in> edges g"
  by (simp add: edges_def)

section \<open>Marking on push\<close>

fun push_new :: "'a list \<Rightarrow> 'a list \<Rightarrow> 'a set \<Rightarrow> 'a list \<times> 'a set" where
  "push_new [] q seen = (q, seen)"
| "push_new (p # ps) q seen =
     (if p \<in> seen then push_new ps q seen else push_new ps (q @ [p]) (insert p seen))"

lemma push_new_seen: "snd (push_new ps q seen) = seen \<union> set ps"
  by (induction ps q seen rule: push_new.induct) auto

lemma push_new_queue:
  "\<exists>new. fst (push_new ps q seen) = q @ new \<and> set new = set ps - seen \<and> distinct new"
proof (induction ps q seen rule: push_new.induct)
  case (1 q seen)
  then show ?case by simp
next
  case (2 p ps q seen)
  show ?case
  proof (cases "p \<in> seen")
    case True
    with "2.IH"(1) show ?thesis
      by auto
  next
    case False
    with "2.IH"(2) obtain new where "fst (push_new ps (q @ [p]) (insert p seen)) = (q @ [p]) @ new"
      "set new = set ps - insert p seen" "distinct new"
      by blast
    with False show ?thesis
      by (intro exI [of _ "p # new"]) auto
  qed
qed

lemma push_new_measure:
  assumes "set ps \<subseteq> U" and "finite U"
  shows "2 * card (U - snd (push_new ps q seen)) + length (fst (push_new ps q seen))
           \<le> 2 * card (U - seen) + length q"
proof -
  obtain new where q: "fst (push_new ps q seen) = q @ new" and new: "set new = set ps - seen"
    and d: "distinct new"
    using push_new_queue [of ps q seen] by auto
  have sub: "set new \<subseteq> U - seen"
    using assms(1) by (auto simp: new)
  have "U - snd (push_new ps q seen) = (U - seen) - set new"
    using assms(1) by (auto simp: push_new_seen new)
  then have c: "card (U - snd (push_new ps q seen)) = card (U - seen) - card (set new)"
    using sub assms(2) by (simp add: card_Diff_subset)
  have "card (set new) \<le> card (U - seen)"
    using sub assms(2) by (simp add: card_mono)
  moreover have "card (set new) = length new"
    using d by (rule distinct_card)
  ultimately show ?thesis
    by (simp add: q c)
qed

function bfs_mark :: "'a graph \<Rightarrow> 'a list \<Rightarrow> 'a set \<Rightarrow> 'a set" where
  "bfs_mark g [] seen = seen"
| "bfs_mark g (x # q) seen =
     bfs_mark g (fst (push_new (hm_list g x) q seen)) (snd (push_new (hm_list g x) q seen))"
  by pat_completeness auto
termination
proof (relation "measure (\<lambda>(g, q, seen). 2 * card (targets g - seen) + length q)", goal_cases)
  case (2 g x q seen)
  have "2 * card (targets g - snd (push_new (hm_list g x) q seen)) +
      length (fst (push_new (hm_list g x) q seen)) \<le> 2 * card (targets g - seen) + length q"
    by (rule push_new_measure [OF hm_list_targets finite_targets])
  then show ?case
    by (simp add: less_Suc_eq_le prod.case_eq_if)
qed simp

declare bfs_mark.simps(2) [simp del]

lemma bfs_mark_mono: "seen \<subseteq> bfs_mark g q seen"
proof (induction g q seen rule: bfs_mark.induct)
  case (2 g x q seen)
  then show ?case
    by (subst bfs_mark.simps) (simp add: push_new_seen)
qed simp

lemma bfs_mark_sound:
  assumes "edges g `` (set q \<union> seen) \<subseteq> R" and "seen \<subseteq> R" and "edges g `` R \<subseteq> R"
  shows "bfs_mark g q seen \<subseteq> R"
  using assms
proof (induction g q seen rule: bfs_mark.induct)
  case (1 g seen)
  then show ?case by simp
next
  case (2 g x q seen)
  let ?r = "push_new (hm_list g x) q seen"
  obtain new where new: "fst ?r = q @ new" "set new = set (hm_list g x) - seen"
    using push_new_queue [of "hm_list g x" q seen] by auto
  have x: "set (hm_list g x) \<subseteq> R"
    using "2.prems"(1) by (auto simp: edges_def)
  then have "set new \<union> snd ?r \<subseteq> R"
    using "2.prems"(2) by (auto simp: new push_new_seen)
  then have "edges g `` (set new \<union> snd ?r) \<subseteq> R"
    using "2.prems"(3) by blast
  then have "edges g `` (set (fst ?r) \<union> snd ?r) \<subseteq> R"
    using "2.prems"(1) by (auto simp: new(1))
  moreover have "snd ?r \<subseteq> R"
    using \<open>set new \<union> snd ?r \<subseteq> R\<close> by simp
  ultimately show ?case
    using "2.IH" "2.prems"(3) by (subst bfs_mark.simps)
qed

text \<open>Closure: what is marked and no longer queued has all its successors marked.\<close>

lemma bfs_mark_closed:
  assumes "edges g `` (seen - set q) \<subseteq> seen"
  shows "edges g `` (bfs_mark g q seen \<union> set q) \<subseteq> bfs_mark g q seen"
  using assms
proof (induction g q seen rule: bfs_mark.induct)
  case (1 g seen)
  then show ?case by simp
next
  case (2 g n q seen)
  let ?r = "push_new (hm_list g n) q seen"
  obtain new where new: "fst ?r = q @ new" "set new = set (hm_list g n) - seen"
    using push_new_queue [of "hm_list g n" q seen] by auto
  have n: "edges g `` {n} = set (hm_list g n)"
    by (auto simp: edges_def)
  have "snd ?r - set (fst ?r) \<subseteq> insert n (seen - set (n # q))"
    by (auto simp: new push_new_seen)
  then have "edges g `` (snd ?r - set (fst ?r)) \<subseteq> edges g `` {n} \<union> edges g `` (seen - set (n # q))"
    by blast
  also have "\<dots> \<subseteq> snd ?r"
    using "2.prems" by (auto simp: n push_new_seen)
  finally have IH: "edges g `` (bfs_mark g (fst ?r) (snd ?r) \<union> set (fst ?r)) \<subseteq> bfs_mark g (fst ?r) (snd ?r)"
    by (rule "2.IH")
  have "edges g `` {n} \<subseteq> bfs_mark g (fst ?r) (snd ?r)"
    using bfs_mark_mono [of "snd ?r" g "fst ?r"] by (auto simp: n push_new_seen)
  with IH have "edges g `` (bfs_mark g (fst ?r) (snd ?r) \<union> set (n # q)) \<subseteq> bfs_mark g (fst ?r) (snd ?r)"
    by (auto simp: new(1))
  then show ?case
    by (simp add: bfs_mark.simps(2))
qed

theorem bfs_mark_reach: "bfs_mark g [x] {} = (edges g)\<^sup>+ `` {x}"
proof
  show "bfs_mark g [x] {} \<subseteq> (edges g)\<^sup>+ `` {x}"
    by (rule bfs_mark_sound) (auto intro: trancl_into_trancl)
  have cl: "edges g `` (bfs_mark g [x] {} \<union> {x}) \<subseteq> bfs_mark g [x] {}"
    using bfs_mark_closed [of g "{}" "[x]"] by simp
  have "(x, y) \<in> (edges g)\<^sup>+ \<Longrightarrow> y \<in> bfs_mark g [x] {}" for y
    by (induction rule: trancl_induct) (use cl in blast)+
  then show "(edges g)\<^sup>+ `` {x} \<subseteq> bfs_mark g [x] {}"
    by blast
qed

lemma reach_targets: "(edges g)\<^sup>+ `` {x} \<subseteq> targets g"
proof -
  have "(x, y) \<in> (edges g)\<^sup>+ \<Longrightarrow> y \<in> targets g" for y
    by (induction rule: trancl_induct) (use hm_list_targets in \<open>fastforce simp: edges_def\<close>)+
  then show ?thesis
    by blast
qed

lemma finite_reach: "finite ((edges g)\<^sup>+ `` {x})"
  by (rule finite_subset [OF reach_targets finite_targets])

section \<open>Marking on pop\<close>

lemma pop_old_measure:
  "card ((targets g \<union> set q) - visited) \<le> card ((targets g \<union> set (x # q)) - visited)"
  by (intro card_mono) auto

lemma pop_new_measure:
  assumes "x \<notin> visited"
  shows "card ((targets g \<union> set (q @ filter (\<lambda>p. p \<notin> insert x visited) (hm_list g x))) - insert x visited)
      < card ((targets g \<union> set (x # q)) - visited)"
  using assms hm_list_targets [of g x] by (intro psubset_card_mono) auto

function bfs_pop :: "'a graph \<Rightarrow> 'a list \<Rightarrow> 'a set \<Rightarrow> 'a set" where
  "bfs_pop g [] visited = visited"
| "bfs_pop g (x # q) visited =
     (if x \<in> visited then bfs_pop g q visited
      else let visited' = insert x visited
           in bfs_pop g (q @ filter (\<lambda>p. p \<notin> visited') (hm_list g x)) visited')"
  by pat_completeness auto
termination
proof (relation "measures [\<lambda>(g, q, visited). card ((targets g \<union> set q) - visited),
    \<lambda>(g, q, visited). length q]", goal_cases)
  case (2 g x q visited)
  then show ?case
    using pop_old_measure [of g q visited x] by auto
next
  case (3 g x q visited visited')
  then show ?case
    using pop_new_measure [of x visited g q] by simp
qed simp

declare bfs_pop.simps(2) [simp del]

lemma bfs_pop_mono: "visited \<union> set q \<subseteq> bfs_pop g q visited"
proof (induction g q visited rule: bfs_pop.induct)
  case (2 g x q visited)
  then show ?case
    by (subst bfs_pop.simps) (auto simp: Let_def)
qed simp

lemma bfs_pop_sound:
  assumes "set q \<union> visited \<subseteq> R" and "edges g `` R \<subseteq> R"
  shows "bfs_pop g q visited \<subseteq> R"
  using assms
proof (induction g q visited rule: bfs_pop.induct)
  case (2 g x q visited)
  have x: "set (hm_list g x) \<subseteq> R"
    using "2.prems" by (auto simp: edges_def)
  show ?case
  proof (cases "x \<in> visited")
    case True
    with "2.IH"(1) "2.prems" show ?thesis
      by (simp add: bfs_pop.simps(2))
  next
    case False
    have "set (q @ filter (\<lambda>p. p \<notin> insert x visited) (hm_list g x)) \<union> insert x visited \<subseteq> R"
      using "2.prems"(1) x by auto
    from "2.IH"(2) [OF False refl this "2.prems"(2)] False show ?thesis
      by (simp add: bfs_pop.simps(2) Let_def)
  qed
qed simp

lemma bfs_pop_closed:
  assumes "edges g `` visited \<subseteq> visited \<union> set q"
  shows "edges g `` (bfs_pop g q visited) \<subseteq> bfs_pop g q visited"
  using assms
proof (induction g q visited rule: bfs_pop.induct)
  case (2 g x q visited)
  show ?case
  proof (cases "x \<in> visited")
    case True
    with "2.prems" have "edges g `` visited \<subseteq> visited \<union> set q"
      by auto
    with "2.IH"(1) True show ?thesis
      by (simp add: bfs_pop.simps(2))
  next
    case False
    have n: "edges g `` {x} = set (hm_list g x)"
      by (auto simp: edges_def)
    have "edges g `` insert x visited = edges g `` {x} \<union> edges g `` visited"
      by blast
    also have "\<dots> \<subseteq> insert x visited \<union>
        set (q @ filter (\<lambda>p. p \<notin> insert x visited) (hm_list g x))"
      using "2.prems" by (auto simp: n)
    finally show ?thesis
      using "2.IH"(2) [OF False refl] False by (simp add: bfs_pop.simps(2) Let_def)
  qed
qed simp

theorem bfs_pop_reach: "bfs_pop g q {} = (edges g)\<^sup>* `` set q"
proof
  show "bfs_pop g q {} \<subseteq> (edges g)\<^sup>* `` set q"
    by (rule bfs_pop_sound) (auto intro: rtrancl_into_rtrancl)
  have cl: "edges g `` bfs_pop g q {} \<subseteq> bfs_pop g q {}" and q: "set q \<subseteq> bfs_pop g q {}"
    using bfs_pop_closed [of g "{}" q] bfs_pop_mono [of "{}" q g] by auto
  have "(x, y) \<in> (edges g)\<^sup>* \<Longrightarrow> x \<in> set q \<Longrightarrow> y \<in> bfs_pop g q {}" for x y
    by (induction rule: rtrancl_induct) (use cl q in blast)+
  then show "(edges g)\<^sup>* `` set q \<subseteq> bfs_pop g q {}"
    by blast
qed

section \<open>Searching\<close>

text \<open>The loop of \<open>find_lca\<close>: as \<open>bfs_pop\<close>, but it returns the first node in \<open>stop\<close>.\<close>

function bfs_find :: "'a graph \<Rightarrow> 'a set \<Rightarrow> 'a list \<Rightarrow> 'a set \<Rightarrow> 'a option" where
  "bfs_find g stop [] visited = None"
| "bfs_find g stop (x # q) visited =
     (if x \<in> visited then bfs_find g stop q visited
      else let visited' = insert x visited
           in if x \<in> stop then Some x
              else bfs_find g stop (q @ filter (\<lambda>p. p \<notin> visited') (hm_list g x)) visited')"
  by pat_completeness auto
termination
proof (relation "measures [\<lambda>(g, stop, q, visited). card ((targets g \<union> set q) - visited),
    \<lambda>(g, stop, q, visited). length q]", goal_cases)
  case (2 g stop x q visited)
  then show ?case
    using pop_old_measure [of g q visited x] by auto
next
  case (3 g stop x q visited visited')
  then show ?case
    using pop_new_measure [of x visited g q] by simp
qed simp

declare bfs_find.simps(2) [simp del]

lemma bfs_find_Some:
  assumes "bfs_find g stop q visited = Some y" and "set q \<subseteq> R" and "edges g `` R \<subseteq> R"
  shows "y \<in> stop \<and> y \<in> R"
  using assms
proof (induction g stop q visited rule: bfs_find.induct)
  case (2 g stop x q visited)
  have x: "set (hm_list g x) \<subseteq> R" "x \<in> R"
    using "2.prems"(2,3) by (auto simp: edges_def)
  show ?case
  proof (cases "x \<in> visited")
    case True
    with 2 show ?thesis
      by (simp add: bfs_find.simps(2))
  next
    case False
    show ?thesis
    proof (cases "x \<in> stop")
      case True
      with False "2.prems"(1) x(2) show ?thesis
        by (simp add: bfs_find.simps(2) Let_def)
    next
      case out: False
      have "set (q @ filter (\<lambda>p. p \<notin> insert x visited) (hm_list g x)) \<subseteq> R"
        using "2.prems"(2) x by auto
      from "2.IH"(2) [OF False refl out _ this "2.prems"(3)] False out "2.prems"(1) show ?thesis
        by (simp add: bfs_find.simps(2) Let_def)
    qed
  qed
qed simp

lemma bfs_find_None:
  assumes "bfs_find g stop q visited = None" and "visited \<inter> stop = {}"
    and "edges g `` visited \<subseteq> visited \<union> set q"
  shows "\<exists>V. set q \<union> visited \<subseteq> V \<and> edges g `` V \<subseteq> V \<and> V \<inter> stop = {}"
  using assms
proof (induction g stop q visited rule: bfs_find.induct)
  case (1 g stop visited)
  then show ?case
    by (intro exI [of _ visited]) auto
next
  case (2 g stop x q visited)
  show ?case
  proof (cases "x \<in> visited")
    case True
    then have "bfs_find g stop q visited = None"
      using "2.prems"(1) by (simp add: bfs_find.simps(2))
    moreover have "edges g `` visited \<subseteq> visited \<union> set q"
      using "2.prems"(3) True by auto
    ultimately obtain V where "set q \<union> visited \<subseteq> V" "edges g `` V \<subseteq> V" "V \<inter> stop = {}"
      using "2.IH"(1) [OF True _ "2.prems"(2)] by metis
    with True show ?thesis
      by (intro exI [of _ V]) auto
  next
    case False
    let ?q = "q @ filter (\<lambda>p. p \<notin> insert x visited) (hm_list g x)"
    have x: "x \<notin> stop" and r: "bfs_find g stop ?q (insert x visited) = None"
      using "2.prems"(1) False by (auto simp: bfs_find.simps(2) Let_def split: if_splits)
    have n: "edges g `` {x} = set (hm_list g x)"
      by (auto simp: edges_def)
    have "edges g `` insert x visited = edges g `` {x} \<union> edges g `` visited"
      by blast
    also have "\<dots> \<subseteq> insert x visited \<union> set ?q"
      using "2.prems"(3) by (auto simp: n)
    finally have "edges g `` insert x visited \<subseteq> insert x visited \<union> set ?q" .
    moreover have "insert x visited \<inter> stop = {}"
      using "2.prems"(2) x by auto
    ultimately obtain V where "set ?q \<union> insert x visited \<subseteq> V" "edges g `` V \<subseteq> V" "V \<inter> stop = {}"
      using "2.IH"(2) [OF False refl x r] by metis
    then show ?thesis
      by (intro exI [of _ V]) auto
  qed
qed

theorem bfs_find_spec:
  "case bfs_find g stop [x] {} of
     Some y \<Rightarrow> y \<in> stop \<and> (x, y) \<in> (edges g)\<^sup>*
   | None \<Rightarrow> stop \<inter> (edges g)\<^sup>* `` {x} = {}"
proof (cases "bfs_find g stop [x] {}")
  case None
  from bfs_find_None [OF this] obtain V where V: "x \<in> V" "edges g `` V \<subseteq> V" "V \<inter> stop = {}"
    by auto
  have "(x, y) \<in> (edges g)\<^sup>* \<Longrightarrow> y \<in> V" for y
    by (induction rule: rtrancl_induct) (use V in auto)
  with V None show ?thesis
    by auto
next
  case (Some y)
  from bfs_find_Some [OF this, of "(edges g)\<^sup>* `` {x}"] Some show ?thesis
    by (auto intro: rtrancl_into_rtrancl)
qed

section \<open>Marking on push and on pop\<close>

text \<open>
  The loop of \<open>DAGTraversal::get_ancestors\<close> and \<open>get_descendants\<close>: nodes are marked when they
  are pushed, processed nodes once more when they are popped, and the start node is never
  pushed again.
\<close>

function bfs_trav :: "'a graph \<Rightarrow> 'a \<Rightarrow> 'a list \<Rightarrow> 'a set \<Rightarrow> 'a set \<Rightarrow> 'a set" where
  "bfs_trav g root [] found visited = found"
| "bfs_trav g root (x # q) found visited =
     (if x \<in> visited then bfs_trav g root q found visited
      else bfs_trav g root
        (fst (push_new (filter (\<lambda>p. p \<noteq> root) (hm_list g x)) q found))
        (snd (push_new (filter (\<lambda>p. p \<noteq> root) (hm_list g x)) q found)) (insert x visited))"
  by pat_completeness auto
termination
proof (relation "measure (\<lambda>(g, root, q, found, visited). 2 * card (targets g - found) + length q)",
    goal_cases)
  case (3 g root x q found visited)
  have "set (filter (\<lambda>p. p \<noteq> root) (hm_list g x)) \<subseteq> targets g"
    using hm_list_targets [of g x] by auto
  from push_new_measure [OF this finite_targets] show ?case
    by (simp add: less_Suc_eq_le prod.case_eq_if)
qed simp_all

declare bfs_trav.simps(2) [simp del]

lemma bfs_trav_spec:
  assumes "set q \<subseteq> insert root found" and "found \<subseteq> visited \<union> set q" and "root \<in> visited \<union> set q"
    and "edges g `` visited \<subseteq> insert root found" and "root \<notin> found"
    and "found \<subseteq> R" and "root \<in> R" and "edges g `` R \<subseteq> R"
  shows "found \<subseteq> bfs_trav g root q found visited \<and> root \<notin> bfs_trav g root q found visited
    \<and> bfs_trav g root q found visited \<subseteq> R
    \<and> edges g `` insert root (bfs_trav g root q found visited)
        \<subseteq> insert root (bfs_trav g root q found visited)"
  using assms
proof (induction g root q found visited rule: bfs_trav.induct)
  case (1 g root found visited)
  then show ?case
    by auto
next
  case (2 g root x q found visited)
  show ?case
  proof (cases "x \<in> visited")
    case True
    have "found \<subseteq> visited \<union> set q" "root \<in> visited \<union> set q" "set q \<subseteq> insert root found"
      using "2.prems"(1-3) True by auto
    from "2.IH"(1) [OF True this(3,1,2) "2.prems"(4-8)] True show ?thesis
      by (simp add: bfs_trav.simps(2))
  next
    case False
    let ?ps = "filter (\<lambda>p. p \<noteq> root) (hm_list g x)"
    let ?r = "push_new ?ps q found"
    obtain new where new: "fst ?r = q @ new" "set new = set ?ps - found"
      using push_new_queue [of ?ps q found] by auto
    have f: "snd ?r = found \<union> set ?ps"
      by (rule push_new_seen)
    have x: "x \<in> R"
      using "2.prems"(1,6,7) by auto
    then have ps: "set ?ps \<subseteq> R"
      using "2.prems"(8) by (auto simp: edges_def)
    have n: "edges g `` {x} \<subseteq> insert root (set ?ps)"
      by (auto simp: edges_def)
    have a1: "set (fst ?r) \<subseteq> insert root (snd ?r)"
      using "2.prems"(1) by (auto simp: new f)
    have a2: "snd ?r \<subseteq> insert x visited \<union> set (fst ?r)"
      using "2.prems"(2) by (auto simp: new f)
    have a3: "root \<in> insert x visited \<union> set (fst ?r)"
      using "2.prems"(3) by (auto simp: new)
    have "edges g `` insert x visited = edges g `` {x} \<union> edges g `` visited"
      by blast
    also have "\<dots> \<subseteq> insert root (snd ?r)"
      using n "2.prems"(4) unfolding f by blast
    finally have a4: "edges g `` insert x visited \<subseteq> insert root (snd ?r)" .
    have a5: "root \<notin> snd ?r"
      using "2.prems"(5) by (auto simp: f)
    have a6: "snd ?r \<subseteq> R"
      using "2.prems"(6) ps unfolding f by blast
    from "2.IH"(2) [OF False a1 a2 a3 a4 a5 a6 "2.prems"(7,8)] show ?thesis
      using False by (simp add: bfs_trav.simps(2) f)
  qed
qed

theorem bfs_trav_reach: "bfs_trav g x [x] {} {} = (edges g)\<^sup>* `` {x} - {x}"
proof -
  let ?T = "bfs_trav g x [x] {} {}"
  have s: "x \<notin> ?T \<and> ?T \<subseteq> (edges g)\<^sup>* `` {x} \<and> edges g `` insert x ?T \<subseteq> insert x ?T"
    using bfs_trav_spec [of "[x]" x "{}" "{}" g "(edges g)\<^sup>* `` {x}"]
    by (auto intro: rtrancl_into_rtrancl)
  have "(x, y) \<in> (edges g)\<^sup>* \<Longrightarrow> y \<in> insert x ?T" for y
    by (induction rule: rtrancl_induct) (use s in blast)+
  with s show ?thesis
    by blast
qed

end
