(* ===== verification/Topological.thy ===== *)
theory Topological
  imports Worklist
begin

text \<open>
  Two loops that walk a whole DAG, and the interface they need.

  \<open>kahn\<close> is the loop of \<open>DAGIndex::get_topological_order\<close>: a queue of nodes without
  outstanding parents and a hash map of outstanding counts. A count that would go below zero
  is the value \<open>None\<close> (the subtraction panics in a debug build). \<open>levels\<close> is the loop of
  \<open>get_block_depth\<close>. The locale \<open>dag_view\<close> states what both rely on: every node's
  predecessors are nodes, the successor lists hold every edge with its multiplicity, and the
  edges are acyclic.
\<close>

section \<open>Kahn's algorithm\<close>

fun relax :: "'a list \<Rightarrow> ('a \<times> nat) list \<Rightarrow> 'a list \<Rightarrow> (('a \<times> nat) list \<times> 'a list) option" where
  "relax [] deg q = Some (deg, q)"
| "relax (c # cs) deg q =
     (case map_of deg c of
        None \<Rightarrow> relax cs deg q
      | Some n \<Rightarrow>
          if n = 0 then None
          else relax cs (AList.update c (n - 1) deg) (if n - 1 = 0 then q @ [c] else q))"

definition outstanding :: "('a \<times> nat) list \<Rightarrow> nat" where
  "outstanding deg = sum_list (map snd deg)"

lemma outstanding_update:
  "map_of deg c = Some n \<Longrightarrow> outstanding (AList.update c m deg) + n = outstanding deg + m"
  by (induction deg) (auto simp: outstanding_def split: if_splits)

lemma relax_measure:
  "relax cs deg q = Some (deg', q') \<Longrightarrow> outstanding deg' + length q' \<le> outstanding deg + length q"
proof (induction cs deg q rule: relax.induct)
  case (1 deg q)
  then show ?case by simp
next
  case (2 c cs deg q)
  show ?case
  proof (cases "map_of deg c")
    case None
    with 2 show ?thesis by simp
  next
    case (Some n)
    with "2.prems" have n: "n \<noteq> 0"
      by (auto split: if_splits)
    from outstanding_update [OF Some, of "n - 1"] n
    have "Suc (outstanding (AList.update c (n - 1) deg)) = outstanding deg"
      by simp
    with "2.IH"(2) [OF Some n] "2.prems" Some n show ?thesis
      by (auto split: if_splits)
  qed
qed

function kahn :: "'a graph \<Rightarrow> 'a list \<Rightarrow> ('a \<times> nat) list \<Rightarrow> 'a list \<Rightarrow> 'a list option" where
  "kahn g [] deg result = Some result"
| "kahn g (x # q) deg result =
     (case relax (hm_list g x) deg q of
        None \<Rightarrow> None
      | Some (deg', q') \<Rightarrow> kahn g q' deg' (result @ [x]))"
  by pat_completeness auto
termination
  by (relation "measure (\<lambda>(g, q, deg, result). outstanding deg + length q)")
    (auto dest: relax_measure)

declare kahn.simps(2) [simp del]

lemma relax_spec:
  assumes "\<And>c n. map_of deg c = Some n \<Longrightarrow> count_list cs c \<le> n"
  shows "\<exists>deg' new. relax cs deg q = Some (deg', q @ new)
    \<and> (\<forall>c. map_of deg' c = map_option (\<lambda>n. n - count_list cs c) (map_of deg c))
    \<and> (\<forall>c. c \<in> set new \<longleftrightarrow> c \<in> set cs \<and> map_of deg c = Some (count_list cs c)) \<and> distinct new"
  using assms
proof (induction cs deg q rule: relax.induct)
  case (1 deg q)
  then show ?case
    by (auto simp: map_option_idI)
next
  case (2 c cs deg q)
  show ?case
  proof (cases "map_of deg c")
    case None
    have "count_list cs c' \<le> n" if "map_of deg c' = Some n" for c' n
      using "2.prems" [OF that] None that by (auto split: if_splits)
    from "2.IH"(1) [OF None this] obtain deg' new where
      r: "relax cs deg q = Some (deg', q @ new)"
      and d: "\<forall>c. map_of deg' c = map_option (\<lambda>n. n - count_list cs c) (map_of deg c)"
      and n: "\<forall>c. c \<in> set new \<longleftrightarrow> c \<in> set cs \<and> map_of deg c = Some (count_list cs c)" "distinct new"
      by blast
    have "map_of deg' c' = map_option (\<lambda>n. n - count_list (c # cs) c') (map_of deg c')" for c'
      using d None by (cases "c = c'") auto
    moreover have "c' \<in> set new \<longleftrightarrow> c' \<in> set (c # cs) \<and> map_of deg c' = Some (count_list (c # cs) c')" for c'
      using n None by (cases "c = c'") auto
    ultimately show ?thesis
      using r None n(2) by auto
  next
    case (Some k)
    from "2.prems" [OF Some] have k: "k \<noteq> 0" and k': "count_list cs c \<le> k - 1"
      by auto
    let ?deg = "AList.update c (k - 1) deg" and ?q = "if k - 1 = 0 then q @ [c] else q"
    have "count_list cs c' \<le> n" if "map_of ?deg c' = Some n" for c' n
      using "2.prems" [of c' n] that k' by (auto simp: map_of_hm_update split: if_splits)
    from "2.IH"(2) [OF Some k this] obtain deg' new where
      r: "relax cs ?deg ?q = Some (deg', ?q @ new)"
      and d: "\<forall>c. map_of deg' c = map_option (\<lambda>n. n - count_list cs c) (map_of ?deg c)"
      and n: "\<forall>c. c \<in> set new \<longleftrightarrow> c \<in> set cs \<and> map_of ?deg c = Some (count_list cs c)" "distinct new"
      by blast
    have D: "map_of deg' c' = map_option (\<lambda>n. n - count_list (c # cs) c') (map_of deg c')" for c'
      using d Some by (cases "c = c'") (auto simp: map_of_hm_update)
    let ?new = "if k - 1 = 0 then c # new else new"
    have "c' \<in> set ?new \<longleftrightarrow> c' \<in> set (c # cs) \<and> map_of deg c' = Some (count_list (c # cs) c')" for c'
    proof (cases "c = c'")
      case True
      have "count_list cs c = 0 \<longleftrightarrow> c \<notin> set cs"
        by (simp add: count_list_0_iff)
      with True n(1) k k' Some show ?thesis
        by (auto simp: map_of_hm_update)
    next
      case False
      with n(1) show ?thesis
        by (auto simp: map_of_hm_update)
    qed
    moreover have "distinct ?new"
      using n k by (auto simp: map_of_hm_update count_list_0_iff)
    moreover have "relax (c # cs) deg q = Some (deg', q @ ?new)"
      using r Some k by simp
    ultimately show ?thesis
      using D by blast
  qed
qed

section \<open>Levels\<close>

fun push_level :: "'a list \<Rightarrow> 'a list \<Rightarrow> 'a list" where
  "push_level [] next = next"
| "push_level (p # ps) next = push_level ps (if p \<in> set next then next else next @ [p])"

fun next_level :: "'a graph \<Rightarrow> 'a list \<Rightarrow> 'a list \<Rightarrow> 'a list" where
  "next_level g [] next = next"
| "next_level g (x # xs) next = next_level g xs (push_level (hm_list g x) next)"

text \<open>\<open>None\<close> when the fuel runs out; \<open>levels_longest\<close> gives enough fuel for an acyclic graph.\<close>

fun levels :: "nat \<Rightarrow> 'a graph \<Rightarrow> 'a list \<Rightarrow> nat \<Rightarrow> nat option" where
  "levels 0 g current depth = (if current = [] then Some depth else None)"
| "levels (Suc fuel) g current depth =
     (if current = [] then Some depth
      else let next = next_level g current []
           in if next = [] then Some depth else levels fuel g next (depth + 1))"

lemma set_push_level: "set (push_level ps next) = set ps \<union> set next"
  by (induction ps "next" rule: push_level.induct) auto

lemma set_next_level: "set (next_level g xs next) = edges g `` set xs \<union> set next"
  by (induction g xs "next" rule: next_level.induct) (auto simp: set_push_level edges_def)

lemma relpow_reach: "(x, y) \<in> R ^^ Suc k \<Longrightarrow> (x, y) \<in> R\<^sup>+"
  by (metis trancl_power zero_less_Suc)

lemma path_length_bound:
  assumes "acyclic R" and "\<And>z. finite (R\<^sup>+ `` {z})" and "(x, y) \<in> R ^^ k"
  shows "k \<le> card (R\<^sup>+ `` {x})"
  using assms(3)
proof (induction k arbitrary: x)
  case (Suc k)
  then obtain z where z: "(x, z) \<in> R" "(z, y) \<in> R ^^ k"
    by (meson relpow_Suc_D2)
  have "R\<^sup>+ `` {z} \<subseteq> R\<^sup>+ `` {x}"
    using z(1) by (auto intro: trancl_into_trancl2)
  moreover have "z \<in> R\<^sup>+ `` {x}" "z \<notin> R\<^sup>+ `` {z}"
    using z(1) assms(1) by (auto simp: acyclic_def)
  ultimately have "card (R\<^sup>+ `` {z}) < card (R\<^sup>+ `` {x})"
    by (intro psubset_card_mono assms(2)) blast
  with Suc.IH [OF z(2)] show ?case
    by simp
qed simp

lemma levels_spec:
  assumes "set current = (edges g ^^ d) `` {x}" and "current \<noteq> []"
    and "\<And>k. (edges g ^^ k) `` {x} \<noteq> {} \<Longrightarrow> k < d + fuel"
  shows "\<exists>m. levels fuel g current d = Some m \<and> (edges g ^^ m) `` {x} \<noteq> {}
    \<and> (edges g ^^ Suc m) `` {x} = {}"
  using assms
proof (induction fuel g current d rule: levels.induct)
  case (1 g current d)
  have "(edges g ^^ d) `` {x} \<noteq> {}"
    using "1.prems"(1,2) by (metis set_empty)
  from "1.prems"(3) [OF this] show ?case
    by simp
next
  case (2 fuel g current d)
  let ?n = "next_level g current []"
  have n: "set ?n = (edges g ^^ Suc d) `` {x}"
    using "2.prems"(1) by (auto simp: set_next_level)
  show ?case
  proof (cases "?n = []")
    case True
    with n have "(edges g ^^ Suc d) `` {x} = {}"
      by (metis set_empty)
    moreover have "(edges g ^^ d) `` {x} \<noteq> {}"
      using "2.prems"(1,2) by (metis set_empty)
    ultimately show ?thesis
      using True by (simp add: Let_def)
  next
    case False
    from "2.prems"(3) have f: "k < d + 1 + fuel" if "(edges g ^^ k) `` {x} \<noteq> {}" for k
      using that by fastforce
    have n': "set ?n = (edges g ^^ (d + 1)) `` {x}"
      using n by simp
    from "2.IH" [OF "2.prems"(2) refl False n' False f] False "2.prems"(2) show ?thesis
      by (simp add: Let_def)
  qed
qed

lemma card_targets: "card (targets g) \<le> length (concat (map snd g))"
proof -
  have "targets g = set (concat (map snd g))"
    by (auto simp: targets_def)
  then show ?thesis
    by (simp only: card_length)
qed

text \<open>The loop returns the length of the longest path from the start node.\<close>

lemma levels_longest:
  assumes "acyclic (edges g)"
  shows "\<exists>m. levels (Suc (length (concat (map snd g)))) g [x] 0 = Some m
    \<and> (\<exists>y. (x, y) \<in> edges g ^^ m) \<and> (\<forall>k y. (x, y) \<in> edges g ^^ k \<longrightarrow> k \<le> m)"
proof -
  have b: "k < 0 + Suc (length (concat (map snd g)))" if ne: "(edges g ^^ k) `` {x} \<noteq> {}" for k
  proof -
    from ne obtain y where "(x, y) \<in> edges g ^^ k"
      by blast
    from path_length_bound [OF assms finite_reach this] card_targets [of g]
      card_mono [OF finite_targets reach_targets, of g x] show ?thesis
      by simp
  qed
  from levels_spec [where current = "[x]" and g = g and d = 0 and x = x, OF _ _ b] obtain m where
    m: "levels (Suc (length (concat (map snd g)))) g [x] 0 = Some m"
    "(edges g ^^ m) `` {x} \<noteq> {}" "(edges g ^^ Suc m) `` {x} = {}"
    by auto
  have "k \<le> m" if "(x, y) \<in> edges g ^^ k" for k y
  proof (rule ccontr)
    assume "\<not> k \<le> m"
    then have "k = Suc m + (k - Suc m)"
      by simp
    with that have "(x, y) \<in> (edges g ^^ Suc m) O (edges g ^^ (k - Suc m))"
      by (metis relpow_add)
    with m(3) show False
      by blast
  qed
  with m show ?thesis
    by auto
qed

section \<open>The interface\<close>

locale dag_view =
  fixes nodes :: "'s \<Rightarrow> 'a list"
    and preds :: "'s \<Rightarrow> 'a \<Rightarrow> 'a list"
    and succs :: "'s \<Rightarrow> 'a graph"
    and inv :: "'s \<Rightarrow> bool"
  assumes distinct_nodes: "inv s \<Longrightarrow> distinct (nodes s)"
    and preds_nodes: "inv s \<Longrightarrow> y \<in> set (nodes s) \<Longrightarrow> set (preds s y) \<subseteq> set (nodes s)"
    and no_preds: "inv s \<Longrightarrow> y \<notin> set (nodes s) \<Longrightarrow> preds s y = []"
    and succs_preds: "inv s \<Longrightarrow> y \<in> set (nodes s) \<Longrightarrow>
          count_list (hm_list (succs s) x) y = count_list (preds s y) x"
    and acyclic_preds: "inv s \<Longrightarrow> acyclic {(y, x). x \<in> set (preds s y)}"
begin

abbreviation down :: "'s \<Rightarrow> ('a \<times> 'a) set" where
  "down s \<equiv> {(y, x). x \<in> set (preds s y)}"

lemma down_subset: "inv s \<Longrightarrow> down s \<subseteq> set (nodes s) \<times> set (nodes s)"
proof (rule subrelI)
  fix y x
  assume "inv s" and "(y, x) \<in> down s"
  then show "(y, x) \<in> set (nodes s) \<times> set (nodes s)"
    using preds_nodes [of s y] no_preds [of s y] by (cases "y \<in> set (nodes s)") auto
qed

lemma finite_down: "inv s \<Longrightarrow> finite (down s)"
  by (rule finite_subset [OF down_subset]) auto

lemma wf_up: "inv s \<Longrightarrow> wf ((down s)\<inverse>)"
  by (rule finite_acyclic_wf_converse [OF finite_down acyclic_preds])

definition pending :: "'s \<Rightarrow> 'a list \<Rightarrow> 'a \<Rightarrow> nat" where
  "pending s r y = length (filter (\<lambda>x. x \<notin> set r) (preds s y))"

definition kahn_inv :: "'s \<Rightarrow> 'a list \<Rightarrow> ('a \<times> nat) list \<Rightarrow> 'a list \<Rightarrow> bool" where
  "kahn_inv s q deg r \<longleftrightarrow>
     distinct (r @ q) \<and> set (r @ q) = {y \<in> set (nodes s). pending s r y = 0} \<and>
     (\<forall>y. map_of deg y = (if y \<in> set (nodes s) then Some (pending s r y) else None)) \<and>
     (\<forall>i < length r. set (preds s (r ! i)) \<subseteq> set (take i r))"

lemma pending_snoc:
  "x \<notin> set r \<Longrightarrow> pending s (r @ [x]) y + count_list (preds s y) x = pending s r y"
proof -
  assume "x \<notin> set r"
  then have "length (filter (\<lambda>z. z \<notin> set (r @ [x])) ps) + count_list ps x =
      length (filter (\<lambda>z. z \<notin> set r) ps)" for ps
    by (induction ps) auto
  then show ?thesis
    by (simp add: pending_def)
qed

lemma kahn_step:
  assumes inv: "inv s" and k: "kahn_inv s (x # q) deg r"
  shows "\<exists>deg' q'. relax (hm_list (succs s) x) deg q = Some (deg', q') \<and> kahn_inv s q' deg' (r @ [x])"
proof -
  let ?cs = "hm_list (succs s) x"
  from k have x: "x \<in> set (nodes s)" "x \<notin> set r" and px: "pending s r x = 0"
    by (auto simp: kahn_inv_def)
  have deg: "map_of deg y = (if y \<in> set (nodes s) then Some (pending s r y) else None)" for y
    using k by (simp add: kahn_inv_def)
  have cnt: "pending s (r @ [x]) y + count_list ?cs y = pending s r y" if "y \<in> set (nodes s)" for y
    using pending_snoc [OF x(2), of s y] succs_preds [OF inv that, of x] by simp
  have "count_list ?cs y \<le> n" if "map_of deg y = Some n" for y n
    using that cnt [of y] by (auto simp: deg split: if_splits)
  from relax_spec [OF this, where q = q] obtain deg' new where
    r: "relax ?cs deg q = Some (deg', q @ new)"
    and d: "\<And>y. map_of deg' y = map_option (\<lambda>n. n - count_list ?cs y) (map_of deg y)"
    and n: "\<And>y. y \<in> set new \<longleftrightarrow> y \<in> set ?cs \<and> map_of deg y = Some (count_list ?cs y)"
    and dn: "distinct new"
    by blast
  have new: "y \<in> set new \<longleftrightarrow> y \<in> set (nodes s) \<and> pending s r y \<noteq> 0 \<and> pending s (r @ [x]) y = 0" for y
  proof (cases "y \<in> set (nodes s)")
    case True
    have "y \<in> set ?cs \<longleftrightarrow> count_list ?cs y \<noteq> 0"
      by (simp add: count_list_0_iff)
    with True cnt [OF True] show ?thesis
      by (auto simp: n deg)
  qed (simp add: n deg)
  have S: "set (r @ x # q) = {y \<in> set (nodes s). pending s r y = 0}" and D: "distinct (r @ x # q)"
    using k by (auto simp: kahn_inv_def)
  have "set new \<inter> set (r @ x # q) = {}"
    unfolding S by (auto simp: new)
  then have "distinct ((r @ [x]) @ q @ new)"
    using dn D by auto
  moreover have "pending s (r @ [x]) y = 0" if "y \<in> set (nodes s)" "pending s r y = 0" for y
    using cnt that by fastforce
  then have "set (r @ x # q) \<union> set new = {y \<in> set (nodes s). pending s (r @ [x]) y = 0}"
    unfolding S by (auto simp: new)
  then have "set ((r @ [x]) @ q @ new) = {y \<in> set (nodes s). pending s (r @ [x]) y = 0}"
    by auto
  moreover have "map_of deg' y = (if y \<in> set (nodes s) then Some (pending s (r @ [x]) y) else None)" for y
    using cnt [of y] by (auto simp: d deg)
  moreover have "set (preds s x) \<subseteq> set r"
    using px by (auto simp: pending_def filter_empty_conv)
  then have "set (preds s ((r @ [x]) ! i)) \<subseteq> set (take i (r @ [x]))" if "i < length (r @ [x])" for i
    using k that by (auto simp: kahn_inv_def nth_append less_Suc_eq)
  ultimately show ?thesis
    using r by (auto simp: kahn_inv_def)
qed

lemma kahn_correct:
  assumes "inv s" and "kahn_inv s q deg r"
  shows "\<exists>r'. kahn (succs s) q deg r = Some r' \<and> (\<exists>deg'. kahn_inv s [] deg' r')"
  using assms(2)
proof (induction "succs s" q deg r rule: kahn.induct)
  case (1 deg r)
  then show ?case by auto
next
  case (2 x q deg r)
  from kahn_step [OF assms(1) "2.prems"] obtain deg' q' where
    s: "relax (hm_list (succs s) x) deg q = Some (deg', q')" "kahn_inv s q' deg' (r @ [x])"
    by blast
  from "2.hyps" [OF s(1) refl s(2)] s(1) show ?case
    by (simp add: kahn.simps(2))
qed

lemma kahn_complete:
  assumes "inv s" and "kahn_inv s [] deg r" and "y \<in> set (nodes s)"
  shows "y \<in> set r"
  using assms(3)
proof (induction y rule: wf_induct_rule [OF wf_up [OF assms(1)]])
  case (1 y)
  have "x \<in> set r" if "x \<in> set (preds s y)" for x
    using 1 that preds_nodes [OF assms(1) "1.prems"] by auto
  then have "pending s r y = 0"
    by (simp add: pending_def filter_empty_conv)
  with assms(2) "1.prems" show ?case
    by (simp add: kahn_inv_def)
qed

lemma kahn_start:
  assumes "inv s"
  shows "kahn_inv s (filter (\<lambda>y. preds s y = []) (nodes s))
    (map (\<lambda>y. (y, length (preds s y))) (nodes s)) []"
proof -
  have "map_of (map (\<lambda>y. (y, length (preds s y))) ys) y =
      (if y \<in> set ys then Some (length (preds s y)) else None)" for ys y
    by (induction ys) auto
  then show ?thesis
    using distinct_nodes [OF assms] by (auto simp: kahn_inv_def pending_def)
qed

text \<open>The loop ends without underflow, lists every node once, and parents come first.\<close>

lemma kahn_topological:
  assumes "inv s"
  shows "\<exists>r. kahn (succs s) (filter (\<lambda>y. preds s y = []) (nodes s))
      (map (\<lambda>y. (y, length (preds s y))) (nodes s)) [] = Some r
    \<and> distinct r \<and> set r = set (nodes s) \<and> (\<forall>i < length r. set (preds s (r ! i)) \<subseteq> set (take i r))"
proof -
  from kahn_correct [OF assms kahn_start [OF assms]] obtain r deg where
    r: "kahn (succs s) (filter (\<lambda>y. preds s y = []) (nodes s))
      (map (\<lambda>y. (y, length (preds s y))) (nodes s)) [] = Some r" and i: "kahn_inv s [] deg r"
    by blast
  have "set r = set (nodes s)"
    using kahn_complete [OF assms i] i by (auto simp: kahn_inv_def)
  with r i show ?thesis
    by (auto simp: kahn_inv_def)
qed

text \<open>A node without successors exists as soon as there is a node.\<close>

lemma exists_maximal:
  assumes "inv s" and "nodes s \<noteq> []"
  shows "\<exists>x \<in> set (nodes s). \<forall>y. x \<notin> set (preds s y)"
proof -
  have "wf (down s)"
    by (rule finite_acyclic_wf [OF finite_down [OF assms(1)] acyclic_preds [OF assms(1)]])
  moreover from assms(2) obtain z where "z \<in> set (nodes s)"
    by (cases "nodes s") auto
  ultimately obtain x where x: "x \<in> set (nodes s)" "\<And>y. (y, x) \<in> down s \<Longrightarrow> y \<notin> set (nodes s)"
    using wfE_min [of "down s" z "set (nodes s)"] by blast
  have "x \<notin> set (preds s y)" for y
    using x(2) [of y] no_preds [OF assms(1), of y] by auto
  with x(1) show ?thesis
    by blast
qed

end

end
