(* ===== verification/Dag_Index.thy ===== *)
theory Dag_Index
  imports Block_Store Topological
begin

text \<open>
  The parent/child index of the block DAG: \<^verbatim>\<open>src/src/dag/dag_index.rs\<close>.

  The block store is read through its abstract view, the blocks in key order (theory
  \<open>Block_Store\<close>): \<open>get_block\<close> is \<open>map_of\<close> and \<open>get_all_blocks\<close> the list of the values. The
  queue loops are those of \<open>Worklist\<close> and \<open>Topological\<close>, run on the adjacency list
  \<open>parent_graph\<close> of the store or on the index's own child lists. \<open>index_ok\<close> relates an index
  to the store it describes.
\<close>

section \<open>State\<close>

record dag_index =
  parent_to_children :: "(block_hash \<times> block_hash list) list"
  tips :: "block_hash set"

definition dag_index_new :: dag_index where
  "dag_index_new = \<lparr>parent_to_children = [], tips = {}\<rparr>"

section \<open>Operations\<close>

text \<open>The parent lists that \<open>store.get_block\<close> gives.\<close>

definition parent_graph :: "block_view \<Rightarrow> block_hash graph" where
  "parent_graph v = map (\<lambda>(h, b). (h, parents b)) v"

definition link_children :: "block \<Rightarrow> block_hash graph \<Rightarrow> block_hash graph" where
  "link_children b m = fold (\<lambda>p m. hm_push p (blk_hash b) m) (parents b) m"

definition build_from_store :: "block_view \<Rightarrow> dag_index" where
  "build_from_store v =
     (let blocks = map snd v;
          p2c = fold link_children blocks [];
          potential_tips = set (map blk_hash blocks)
      in \<lparr>parent_to_children = p2c,
          tips = fold (\<lambda>b t. fold (\<lambda>p t. t - {p}) (parents b) t) blocks potential_tips\<rparr>)"

definition get_children :: "dag_index \<Rightarrow> block_hash \<Rightarrow> block_hash list" where
  "get_children idx h = hm_list (parent_to_children idx) h"

definition get_all_descendants :: "dag_index \<Rightarrow> block_hash \<Rightarrow> block_hash set" where
  "get_all_descendants idx h = bfs_mark (parent_to_children idx) [h] {}"

definition get_all_ancestors :: "block_view \<Rightarrow> block_hash \<Rightarrow> block_hash set" where
  "get_all_ancestors v h = bfs_mark (parent_graph v) [h] {}"

definition get_tips :: "(block_hash set \<Rightarrow> block_hash list) \<Rightarrow> dag_index \<Rightarrow> block_hash list" where
  "get_tips enum idx = enum (tips idx)"

definition is_tip :: "dag_index \<Rightarrow> block_hash \<Rightarrow> bool" where
  "is_tip idx h \<longleftrightarrow> h \<in> tips idx"

definition update_tips_after_insert :: "block \<Rightarrow> dag_index \<Rightarrow> dag_index" where
  "update_tips_after_insert b idx =
     \<lparr>parent_to_children = link_children b (parent_to_children idx),
      tips = fold (\<lambda>p t. t - {p}) (parents b) (insert (blk_hash b) (tips idx))\<rparr>"

definition find_lca :: "block_view \<Rightarrow> block_hash \<Rightarrow> block_hash \<Rightarrow> block_hash option" where
  "find_lca v h1 h2 = bfs_find (parent_graph v) (insert h1 (get_all_ancestors v h1)) [h2] {}"

definition get_reachable_blocks :: "block_view \<Rightarrow> block_hash list \<Rightarrow> block_hash set" where
  "get_reachable_blocks v hs = bfs_pop (parent_graph v) hs {}"

definition get_topological_order :: "dag_index \<Rightarrow> block_view \<Rightarrow> block_hash list option" where
  "get_topological_order idx v =
     (let blocks = map snd v;
          in_degree = map (\<lambda>b. (blk_hash b, length (parents b))) blocks;
          queue = map blk_hash (filter (\<lambda>b. parents b = []) blocks)
      in kahn (parent_to_children idx) queue in_degree [])"

definition get_block_depth :: "block_view \<Rightarrow> block_hash \<Rightarrow> nat option" where
  "get_block_depth v h =
     levels (Suc (length (concat (map snd (parent_graph v))))) (parent_graph v) [h] 0"

definition is_ancestor :: "block_view \<Rightarrow> block_hash \<Rightarrow> block_hash \<Rightarrow> bool" where
  "is_ancestor v ancestor h \<longleftrightarrow> ancestor \<in> get_all_ancestors v h"

definition get_coparents :: "dag_index \<Rightarrow> block_view \<Rightarrow> block_hash \<Rightarrow> block_hash set" where
  "get_coparents idx v h =
     (case map_of v h of
        None \<Rightarrow> {}
      | Some b \<Rightarrow> \<Union> ((\<lambda>p. set (filter (\<lambda>c. c \<noteq> h) (get_children idx p))) ` set (parents b)))"

section \<open>Invariants\<close>

text \<open>The store is keyed by the blocks' own hashes.\<close>

definition view_ok :: "block_view \<Rightarrow> bool" where
  "view_ok v \<longleftrightarrow> omap_inv v \<and> (\<forall>(h, b) \<in> set v. blk_hash b = h)"

definition parents_closed :: "block_view \<Rightarrow> bool" where
  "parents_closed v \<longleftrightarrow> (\<forall>b \<in> snd ` set v. set (parents b) \<subseteq> fst ` set v)"

definition parents_of :: "block_view \<Rightarrow> block_hash \<Rightarrow> block_hash list" where
  "parents_of v h = hm_list (parent_graph v) h"

text \<open>
  The index holds every edge of the store with its multiplicity (a parent listed twice is two
  edges), no others, and the tips are the stored blocks that no stored block names as parent.
\<close>

definition index_ok :: "dag_index \<Rightarrow> block_view \<Rightarrow> bool" where
  "index_ok idx v \<longleftrightarrow>
     (\<forall>x y. count_list (get_children idx x) y = count_list (parents_of v y) x) \<and>
     tips idx = {h \<in> fst ` set v. \<forall>y. h \<notin> set (parents_of v y)}"

section \<open>Lemmas\<close>

lemma map_of_parent_graph: "map_of (parent_graph v) h = map_option parents (map_of v h)"
  by (induction v) (auto simp: parent_graph_def)

lemma parents_of_eq:
  "parents_of v h = (case map_of v h of None \<Rightarrow> [] | Some b \<Rightarrow> parents b)"
  by (simp add: parents_of_def hm_list_def map_of_parent_graph split: option.split)

lemma parents_of_memE:
  assumes "x \<in> set (parents_of v y)"
  obtains b where "map_of v y = Some b" and "x \<in> set (parents b)"
  using assms by (cases "map_of v y") (simp_all add: parents_of_eq)

lemma edges_parent_graph: "(y, x) \<in> edges (parent_graph v) \<longleftrightarrow> x \<in> set (parents_of v y)"
  by (simp add: edges_def parents_of_def)

lemma edges_parent_graph_set: "edges (parent_graph v) = {(y, x). x \<in> set (parents_of v y)}"
  by (auto simp: edges_parent_graph)

lemma view_okD:
  assumes "view_ok v" and "(h, b) \<in> set v"
  shows "blk_hash b = h" and "map_of v h = Some b"
  using assms omap_inv_distinct [of v] by (auto simp: view_ok_def map_of_eq_Some_iff)

lemma hm_list_link_children:
  "count_list (hm_list (link_children b m) x) y =
     count_list (hm_list m x) y + (if y = blk_hash b then count_list (parents b) x else 0)"
proof -
  have "count_list (hm_list (fold (\<lambda>p m. hm_push p (blk_hash b) m) ps m) x) y =
      count_list (hm_list m x) y + (if y = blk_hash b then count_list ps x else 0)" for ps
    by (induction ps arbitrary: m) (auto simp: hm_list_push)
  then show ?thesis
    by (simp add: link_children_def)
qed

lemma fold_remove: "fold (\<lambda>p t. t - {p}) ps t = t - set ps"
  by (induction ps arbitrary: t) auto

lemma fold_remove_parents:
  "fold (\<lambda>b t. fold (\<lambda>p t. t - {p}) (parents b) t) bs t = t - \<Union> (set ` parents ` set bs)"
  by (induction bs arbitrary: t) (auto simp: fold_remove)

lemma fold_link_children:
  assumes "distinct (map blk_hash bs)"
  shows "count_list (hm_list (fold link_children bs m) x) y = count_list (hm_list m x) y +
    (case map_of (map (\<lambda>b. (blk_hash b, b)) bs) y of None \<Rightarrow> 0 | Some b \<Rightarrow> count_list (parents b) x)"
  using assms
proof (induction bs arbitrary: m)
  case (Cons b bs)
  have "map_of (map (\<lambda>b. (blk_hash b, b)) bs) (blk_hash b) = None"
    using Cons.prems by (auto simp: map_of_eq_None_iff image_iff)
  with Cons show ?case
    by (auto simp: hm_list_link_children)
qed simp

lemma view_ok_rekey: "view_ok v \<Longrightarrow> map (\<lambda>b. (blk_hash b, b)) (map snd v) = v"
  by (auto simp: view_ok_def intro!: map_idI)

lemma parents_of_stored: "view_ok v \<Longrightarrow> (h, b) \<in> set v \<Longrightarrow> parents_of v h = parents b"
  by (simp add: parents_of_eq view_okD)

lemma view_ok_hashes: "view_ok v \<Longrightarrow> map (blk_hash \<circ> snd) v = map fst v"
  by (auto simp: view_ok_def)

lemma all_parents:
  "view_ok v \<Longrightarrow> x \<in> \<Union> (set ` parents ` snd ` set v) \<longleftrightarrow> (\<exists>y. x \<in> set (parents_of v y))"
proof
  assume v: "view_ok v" and "x \<in> \<Union> (set ` parents ` snd ` set v)"
  then obtain h b where "(h, b) \<in> set v" "x \<in> set (parents b)"
    by force
  with v show "\<exists>y. x \<in> set (parents_of v y)"
    by (intro exI [of _ h]) (simp add: parents_of_stored)
next
  assume "\<exists>y. x \<in> set (parents_of v y)"
  then obtain y b where "map_of v y = Some b" "x \<in> set (parents b)"
    by (auto elim: parents_of_memE)
  from map_of_SomeD [OF this(1)] this(2) show "x \<in> \<Union> (set ` parents ` snd ` set v)"
    by force
qed

lemma build_from_store_ok:
  assumes "view_ok v"
  shows "index_ok (build_from_store v) v"
proof -
  have "distinct (map blk_hash (map snd v))"
    using assms omap_inv_distinct [of v] by (simp add: view_ok_hashes view_ok_def)
  then have "count_list (get_children (build_from_store v) x) y = count_list (parents_of v y) x" for x y
    by (simp add: get_children_def build_from_store_def Let_def fold_link_children
        view_ok_rekey [OF assms] parents_of_eq split: option.split del: map_map)
  moreover have "tips (build_from_store v) = fst ` set v - \<Union> (set ` parents ` snd ` set v)"
    using arg_cong [OF view_ok_hashes [OF assms], of set]
    by (simp add: build_from_store_def Let_def fold_remove_parents image_image)
  moreover have "fst ` set v - \<Union> (set ` parents ` snd ` set v) =
      {h \<in> fst ` set v. \<forall>y. h \<notin> set (parents_of v y)}"
    using all_parents [OF assms] by blast
  ultimately show ?thesis
    by (simp add: index_ok_def)
qed

lemma view_ok_put: "view_ok v \<Longrightarrow> view_ok (view_put b v)"
  using set_omap_insert_subset [of "blk_hash b" b v]
  by (fastforce simp: view_ok_def view_put_def omap_inv_insert)

lemma parents_of_put:
  "parents_of (view_put b v) h = (if h = blk_hash b then parents b else parents_of v h)"
  by (simp add: parents_of_eq view_put_def map_of_omap_insert)

lemma parents_closedD: "parents_closed v \<Longrightarrow> x \<in> set (parents_of v y) \<Longrightarrow> x \<in> fst ` set v"
proof -
  assume c: "parents_closed v" and "x \<in> set (parents_of v y)"
  then obtain b where "map_of v y = Some b" and x: "x \<in> set (parents b)"
    by (auto elim: parents_of_memE)
  from map_of_SomeD [OF this(1)] have "b \<in> snd ` set v"
    by force
  with c x show ?thesis
    by (auto simp: parents_closed_def)
qed

lemma keys_view_put: "fst ` set (view_put b v) = insert (blk_hash b) (fst ` set v)"
  by (simp add: view_put_def keys_omap_insert)

lemma parents_closed_put:
  assumes "parents_closed v" and "set (parents b) \<subseteq> fst ` set v"
  shows "parents_closed (view_put b v)"
proof -
  have "snd ` set (view_put b v) \<subseteq> insert b (snd ` set v)"
    using set_omap_insert_subset [of "blk_hash b" b v] by (force simp: view_put_def)
  then have "set (parents c) \<subseteq> fst ` set v" if "c \<in> snd ` set (view_put b v)" for c
    using assms that unfolding parents_closed_def by blast
  then show ?thesis
    by (simp add: parents_closed_def keys_view_put subset_insertI2)
qed

lemma update_tips_after_insert_ok:
  assumes "index_ok idx v" and "parents_closed v"
    and fresh: "blk_hash b \<notin> fst ` set v" and ps: "set (parents b) \<subseteq> fst ` set v"
  shows "index_ok (update_tips_after_insert b idx) (view_put b v)"
proof -
  have none: "parents_of v (blk_hash b) = []"
    using fresh by (simp add: parents_of_eq map_of_eq_None_iff [THEN iffD2])
  have "count_list (get_children (update_tips_after_insert b idx) x) y =
      count_list (parents_of (view_put b v) y) x" for x y
    using assms(1) none
    by (auto simp: index_ok_def get_children_def update_tips_after_insert_def
        hm_list_link_children parents_of_put)
  moreover have "tips (update_tips_after_insert b idx) =
      {h \<in> fst ` set (view_put b v). \<forall>y. h \<notin> set (parents_of (view_put b v) y)}"
  proof -
    have self: "blk_hash b \<notin> set (parents b)" "\<And>y. blk_hash b \<notin> set (parents_of v y)"
      using fresh ps parents_closedD [OF assms(2)] by auto
    have t: "tips idx = {h \<in> fst ` set v. \<forall>y. h \<notin> set (parents_of v y)}"
      using assms(1) by (simp add: index_ok_def)
    show ?thesis
      unfolding update_tips_after_insert_def dag_index.simps fold_remove keys_view_put parents_of_put t
      using self none by auto
  qed
  ultimately show ?thesis
    by (simp add: index_ok_def)
qed

end
