(* ===== verification/Block_Dag.thy ===== *)
theory Block_Dag
  imports Dag_Index
begin

text \<open>
  The block DAG engine: \<^verbatim>\<open>src/src/dag/blockdag.rs\<close>.

  The state is the abstract view of the block store and the index. A write to the store can
  fail; its outcome is the argument \<open>w\<close> of the operations that insert (\<open>None\<close> for success),
  and on success the store changes as \<open>store_insert_refines\<close> says. \<open>dag_inv\<close> is the invariant:
  stored blocks are keyed by their own hash, parents are stored, the index describes the
  store, and the consensus metadata of every block is what \<open>insert_block\<close> computed.
\<close>

section \<open>State\<close>

record block_dag =
  dag_store :: block_view
  dag_idx :: dag_index

datatype dag_error =
    InvalidBlock block_error | AlreadyExists block_hash | MissingParent block_hash
  | ZeroParents | DuplicateBlock | StoreFailed store_error | NotGenesis
  | BatchFailed nat dag_error | IntegrityFailed store_error
  | MissingReference block_hash block_hash | DuplicateHashes | EmptyDag | GenesisMarkedTip

section \<open>Operations\<close>

text \<open>\<open>BlockDAG::new\<close> opens the store that is on disk and starts with an empty index.\<close>

definition block_dag_new :: "block_view \<Rightarrow> block_dag" where
  "block_dag_new v = \<lparr>dag_store = v, dag_idx = dag_index_new\<rparr>"

definition dag_get_block :: "block_dag \<Rightarrow> block_hash \<Rightarrow> block option" where
  "dag_get_block d h = map_of (dag_store d) h"

definition dag_block_count :: "block_dag \<Rightarrow> nat" where
  "dag_block_count d = length (dag_store d)"

definition block_exists :: "block_dag \<Rightarrow> block_hash \<Rightarrow> bool" where
  "block_exists d h \<longleftrightarrow> map_of (dag_store d) h \<noteq> None"

text \<open>The loop over the parents that selects the last one of greatest height.\<close>

fun best_parent ::
  "block_view \<Rightarrow> block_hash list \<Rightarrow> block_hash option \<times> u64 \<Rightarrow> block_hash option \<times> u64" where
  "best_parent v [] acc = acc"
| "best_parent v (p # ps) (best, height) =
     (case map_of v p of
        None \<Rightarrow> best_parent v ps (best, height)
      | Some b \<Rightarrow>
          if blk_height b \<ge> height then best_parent v ps (Some p, blk_height b)
          else best_parent v ps (best, height))"

definition select_chain :: "block_view \<Rightarrow> block \<Rightarrow> block_hash option \<times> u64" where
  "select_chain v b =
     (if parents b = [] then (None, 0)
      else let (best, height) = best_parent v (parents b) (None, 0) in (best, sat_add height 1))"

fun max_parent_score :: "block_view \<Rightarrow> block_hash list \<Rightarrow> u64 \<Rightarrow> u64" where
  "max_parent_score v [] m = m"
| "max_parent_score v (p # ps) m =
     (case map_of v p of
        None \<Rightarrow> max_parent_score v ps m
      | Some b \<Rightarrow> max_parent_score v ps (max m (hd_blue_score (header b))))"

definition compute_blue_score :: "block_view \<Rightarrow> block \<Rightarrow> u64" where
  "compute_blue_score v b = sat_add (max_parent_score v (parents b) 0) 1"

text \<open>Step 5 of \<open>insert_block\<close>.\<close>

definition annotate :: "env \<Rightarrow> block_dag \<Rightarrow> block \<Rightarrow> block" where
  "annotate E d b =
     (let (selected_parent, chain_height) = select_chain (dag_store d) b;
          blue_score = compute_blue_score (dag_store d) b;
          topo_index = of_nat (dag_block_count d)
      in set_consensus_metadata E selected_parent blue_score chain_height topo_index b)"

definition first_missing :: "block_dag \<Rightarrow> block_hash list \<Rightarrow> block_hash option" where
  "first_missing d ps = find (\<lambda>p. \<not> block_exists d p) ps"

definition insert_block ::
  "env \<Rightarrow> u64 \<Rightarrow> store_error option \<Rightarrow> block \<Rightarrow> block_dag \<Rightarrow> dag_error + block_dag" where
  "insert_block E now w b d =
     (case validate_basic E now b of
        Inl e \<Rightarrow> Inl (InvalidBlock e)
      | Inr _ \<Rightarrow>
     if block_exists d (blk_hash b) then Inl (AlreadyExists (blk_hash b))
     else case (if parents b \<noteq> [] then map_option MissingParent (first_missing d (parents b))
                else if dag_block_count d > 0 then Some ZeroParents else None) of
       Some e \<Rightarrow> Inl e
     | None \<Rightarrow>
     if \<exists>existing \<in> set (map snd (dag_store d)). blk_hash existing = blk_hash b then Inl DuplicateBlock
     else let annotated_block = annotate E d b in
       case w of
         Some e \<Rightarrow> Inl (StoreFailed e)
       | None \<Rightarrow>
           Inr \<lparr>dag_store = view_put annotated_block (dag_store d),
                dag_idx = update_tips_after_insert annotated_block (dag_idx d)\<rparr>)"

definition with_genesis ::
  "env \<Rightarrow> u64 \<Rightarrow> store_error option \<Rightarrow> block_view \<Rightarrow> block \<Rightarrow> dag_error + block_dag" where
  "with_genesis E now w v genesis =
     (if \<not> is_genesis genesis then Inl NotGenesis
      else insert_block E now w genesis (block_dag_new v))"

text \<open>The block that \<open>create_genesis_block\<close> builds and returns; a failing insert is ignored.\<close>

definition genesis_block :: "env \<Rightarrow> u64 \<Rightarrow> block" where
  "genesis_block E now =
     block_new E [] now
       [new_transfer (replicate 20 0) (replicate 20 0) CTS_GENESIS_ALLOCATION 0 0 0]
       0 0 0 (replicate 20 0) (replicate 32 0)"

definition create_genesis_block ::
  "env \<Rightarrow> u64 \<Rightarrow> store_error option \<Rightarrow> block_dag \<Rightarrow> block \<times> block_dag" where
  "create_genesis_block E now w d =
     (let genesis = genesis_block E now
      in (genesis, (case insert_block E now w genesis d of Inl _ \<Rightarrow> d | Inr d' \<Rightarrow> d')))"

definition create_genesis_if_empty ::
  "env \<Rightarrow> u64 \<Rightarrow> store_error option \<Rightarrow> block_dag \<Rightarrow> block_dag" where
  "create_genesis_if_empty E now w d =
     (if dag_block_count d = 0 then snd (create_genesis_block E now w d) else d)"

text \<open>
  \<open>insert_blocks\<close>: each block comes with the clock and the write outcome it meets. The DAG is
  changed in place, so it is returned in the error case too.
\<close>

fun insert_blocks ::
  "env \<Rightarrow> (u64 \<times> store_error option \<times> block) list \<Rightarrow> nat \<Rightarrow> block_dag
    \<Rightarrow> (dag_error + nat) \<times> block_dag" where
  "insert_blocks E [] inserted d = (Inr inserted, d)"
| "insert_blocks E ((now, w, b) # bs) inserted d =
     (case insert_block E now w b d of
        Inl e \<Rightarrow> (Inl (BatchFailed inserted e), d)
      | Inr d' \<Rightarrow> insert_blocks E bs (inserted + 1) d')"

definition get_tip_blocks :: "(block_hash set \<Rightarrow> block_hash list) \<Rightarrow> block_dag \<Rightarrow> block list" where
  "get_tip_blocks enum d = List.map_filter (dag_get_block d) (get_tips enum (dag_idx d))"

text \<open>The walk along selected parents, newest first; the callers reverse it.\<close>

fun walk_selected :: "block_dag \<Rightarrow> nat \<Rightarrow> block \<Rightarrow> u64 list" where
  "walk_selected d 0 b = []"
| "walk_selected d (Suc n) b =
     hd_timestamp (header b) #
     (case hd_selected_parent (header b) of
        None \<Rightarrow> []
      | Some p \<Rightarrow> (case dag_get_block d p of None \<Rightarrow> [] | Some b' \<Rightarrow> walk_selected d n b'))"

definition get_recent_timestamps ::
  "(block_hash set \<Rightarrow> block_hash list) \<Rightarrow> block_dag \<Rightarrow> nat \<Rightarrow> u64 list" where
  "get_recent_timestamps enum d n =
     (case get_tip_blocks enum d of
        [] \<Rightarrow> []
      | tip # _ \<Rightarrow> rev (walk_selected d n tip))"

definition get_timestamps_from_start :: "block_dag \<Rightarrow> block_hash \<Rightarrow> nat \<Rightarrow> u64 list" where
  "get_timestamps_from_start d start n =
     (case dag_get_block d start of None \<Rightarrow> [] | Some b \<Rightarrow> rev (walk_selected d n b))"

definition get_parents :: "block_dag \<Rightarrow> block_hash \<Rightarrow> block list" where
  "get_parents d h =
     (case dag_get_block d h of
        None \<Rightarrow> []
      | Some b \<Rightarrow> List.map_filter (dag_get_block d) (parents b))"

text \<open>The nested loop of \<open>validate\<close> over the parent references.\<close>

fun first_dangling :: "block_dag \<Rightarrow> block list \<Rightarrow> dag_error option" where
  "first_dangling d [] = None"
| "first_dangling d (b # bs) =
     (case first_missing d (parents b) of
        Some p \<Rightarrow> Some (MissingReference (blk_hash b) p)
      | None \<Rightarrow> first_dangling d bs)"

definition dag_validate :: "env \<Rightarrow> block_dag \<Rightarrow> dag_error + unit" where
  "dag_validate E d =
     (let blocks = map snd (dag_store d); hashes = map fst (dag_store d) in
      case first_mismatch E blocks of
        Inl e \<Rightarrow> Inl (IntegrityFailed e)
      | Inr _ \<Rightarrow>
     (case first_dangling d blocks of
        Some e \<Rightarrow> Inl e
      | None \<Rightarrow>
      if length hashes \<noteq> card (set hashes) then Inl DuplicateHashes
      else if blocks = [] then Inl EmptyDag
      else if \<exists>b \<in> set blocks. parents b = [] \<and> card (tips (dag_idx d)) > 1
          \<and> (\<exists>b' \<in> set blocks. blk_hash b \<in> set (parents b')) then Inl GenesisMarkedTip
      else Inr ()))"

definition rebuild_index :: "block_dag \<Rightarrow> block_dag" where
  "rebuild_index d = d\<lparr>dag_idx := build_from_store (dag_store d)\<rparr>"

definition create_block_on_tips ::
  "env \<Rightarrow> (block_hash set \<Rightarrow> block_hash list) \<Rightarrow> u64 \<Rightarrow> block_dag \<Rightarrow> transaction list \<Rightarrow> block" where
  "create_block_on_tips E enum now d txs =
     block_new E (get_tips enum (dag_idx d)) now txs 0 0 0 (replicate 20 0) (replicate 32 0)"

definition get_block_height :: "block_dag \<Rightarrow> block_hash \<Rightarrow> u64 option" where
  "get_block_height d h =
     (case dag_get_block d h of
        None \<Rightarrow> None
      | Some b \<Rightarrow>
          let stored = (if hd_chain_height (header b) > 0 then hd_chain_height (header b)
                        else if blk_height b > 0 then blk_height b else 0)
          in if stored > 0 then Some stored
             else map_option of_nat (get_block_depth (dag_store d) h))"

definition get_blue_set :: "block_dag \<Rightarrow> block_hash \<Rightarrow> block_hash set option" where
  "get_blue_set d h =
     (if \<not> block_exists d h then None
      else Some (insert h (get_all_ancestors (dag_store d) h)))"

record dag_stats =
  total_blocks :: nat
  total_transactions :: nat
  num_tips :: nat
  avg_parents_per_block :: nat

text \<open>\<open>get_stats\<close> without the database's size figure.\<close>

definition get_stats :: "(block_hash set \<Rightarrow> block_hash list) \<Rightarrow> block_dag \<Rightarrow> dag_stats" where
  "get_stats enum d =
     (let blocks = map snd (dag_store d) in
      \<lparr>total_blocks = dag_block_count d,
       total_transactions = sum_list (map (length \<circ> transactions) blocks),
       num_tips = length (get_tips enum (dag_idx d)),
       avg_parents_per_block =
         (if blocks \<noteq> [] then sum_list (map (length \<circ> parents) blocks) div length blocks else 0)\<rparr>)"

section \<open>Invariant\<close>

definition height_of :: "block_view \<Rightarrow> block_hash \<Rightarrow> nat" where
  "height_of v h = (case map_of v h of None \<Rightarrow> 0 | Some b \<Rightarrow> unat (blk_height b))"

text \<open>The metadata \<open>insert_block\<close> computes, as a property of the stored block.\<close>

definition meta_ok :: "block_view \<Rightarrow> block \<Rightarrow> bool" where
  "meta_ok v b \<longleftrightarrow>
     hd_chain_height (header b) = blk_height b \<and>
     unat (hd_blue_score (header b)) = Suc (unat (blk_height b)) \<and>
     unat (blk_height b) \<le> unat (hd_topo_index (header b)) \<and>
     (if parents b = [] then blk_height b = 0 \<and> hd_selected_parent (header b) = None
      else \<exists>p \<in> set (parents b). hd_selected_parent (header b) = Some p
        \<and> unat (blk_height b) = Suc (height_of v p)
        \<and> (\<forall>q \<in> set (parents b). height_of v q \<le> height_of v p))"

definition dag_inv :: "env \<Rightarrow> block_dag \<Rightarrow> bool" where
  "dag_inv E d \<longleftrightarrow>
     (let v = dag_store d in
      view_ok v \<and> parents_closed v \<and> index_ok (dag_idx d) v \<and> length v < 2 ^ 64 \<and>
      (\<forall>b \<in> snd ` set v. blk_hash b = calculate_hash E b \<and> block_wf b \<and> meta_ok v b
         \<and> unat (hd_topo_index (header b)) < length v) \<and>
      (\<forall>a \<in> snd ` set v. \<forall>b \<in> snd ` set v. parents a = [] \<and> parents b = [] \<longrightarrow> a = b))"

section \<open>Lemmas\<close>

lemma dag_invD:
  assumes "dag_inv E d"
  shows "view_ok (dag_store d)" "parents_closed (dag_store d)" "index_ok (dag_idx d) (dag_store d)"
    "length (dag_store d) < 2 ^ 64"
    "b \<in> snd ` set (dag_store d) \<Longrightarrow> blk_hash b = calculate_hash E b"
    "b \<in> snd ` set (dag_store d) \<Longrightarrow> block_wf b"
    "b \<in> snd ` set (dag_store d) \<Longrightarrow> meta_ok (dag_store d) b"
    "b \<in> snd ` set (dag_store d) \<Longrightarrow> unat (hd_topo_index (header b)) < length (dag_store d)"
    "a \<in> snd ` set (dag_store d) \<Longrightarrow> b \<in> snd ` set (dag_store d) \<Longrightarrow>
       parents a = [] \<Longrightarrow> parents b = [] \<Longrightarrow> a = b"
  using assms unfolding dag_inv_def Let_def by blast+

lemma stored_snd: "map_of v h = Some b \<Longrightarrow> b \<in> snd ` set v"
  using map_of_SomeD by force

lemma stored_hash: "view_ok v \<Longrightarrow> map_of v h = Some b \<Longrightarrow> blk_hash b = h"
  by (rule view_okD(1) [OF _ map_of_SomeD])

lemma stored_fst:
  assumes "view_ok v" and "b \<in> snd ` set v"
  shows "map_of v (blk_hash b) = Some b"
proof -
  from assms(2) obtain h where h: "(h, b) \<in> set v"
    by auto
  from view_okD [OF assms(1) h] show ?thesis
    by simp
qed

lemma parent_height:
  assumes "dag_inv E d" and "x \<in> set (parents_of (dag_store d) y)"
  shows "height_of (dag_store d) x < height_of (dag_store d) y"
proof -
  let ?v = "dag_store d"
  obtain b where b: "map_of ?v y = Some b" and x: "x \<in> set (parents b)"
    using assms(2) by (rule parents_of_memE)
  have "meta_ok ?v b"
    using dag_invD(7) [OF assms(1)] stored_snd [OF b] .
  moreover have "parents b \<noteq> []"
    using x by auto
  ultimately obtain p where "unat (blk_height b) = Suc (height_of ?v p)"
    "\<forall>q \<in> set (parents b). height_of ?v q \<le> height_of ?v p"
    unfolding meta_ok_def by auto
  with x have "height_of ?v x < unat (blk_height b)"
    by (simp add: less_Suc_eq_le)
  then show ?thesis
    by (simp add: height_of_def [of _ y] b)
qed

lemma parent_relation_acyclic:
  assumes "dag_inv E d"
  shows "acyclic {(y, x). x \<in> set (parents_of (dag_store d) y)}"
proof -
  let ?R = "{(y, x). x \<in> set (parents_of (dag_store d) y)}"
  have "?R\<inverse> \<subseteq> measure (height_of (dag_store d))"
    using parent_height [OF assms] by auto
  then have "wf (?R\<inverse>)"
    by (rule wf_subset [OF wf_measure])
  then show ?thesis
    using wf_acyclic acyclic_converse by blast
qed

interpretation bd: dag_view "\<lambda>d. map fst (dag_store d)" "\<lambda>d. parents_of (dag_store d)"
    "\<lambda>d. parent_to_children (dag_idx d)" "dag_inv E" for E
proof unfold_locales
  fix d x y
  assume d: "dag_inv E d"
  show "distinct (map fst (dag_store d))"
    using dag_invD(1) [OF d] omap_inv_distinct by (auto simp: view_ok_def)
  show "set (parents_of (dag_store d) y) \<subseteq> set (map fst (dag_store d))"
    using parents_closedD [OF dag_invD(2) [OF d]] by auto
  show "count_list (hm_list (parent_to_children (dag_idx d)) x) y =
      count_list (parents_of (dag_store d) y) x"
    using dag_invD(3) [OF d] by (simp add: index_ok_def get_children_def)
  show "acyclic {(y, x). x \<in> set (parents_of (dag_store d) y)}"
    by (rule parent_relation_acyclic [OF d])
next
  fix d y
  assume "dag_inv E d" and "y \<notin> set (map fst (dag_store d))"
  then show "parents_of (dag_store d) y = []"
    by (simp add: parents_of_eq map_of_eq_None_iff [THEN iffD2])
qed

text \<open>The loops over the parents.\<close>

lemma best_parent_spec:
  assumes "set ps \<subseteq> fst ` set v" and "best_parent v ps (best, h) = (best', h')"
    and "best = None \<Longrightarrow> h = 0" and "\<And>q. best = Some q \<Longrightarrow> height_of v q = unat h"
  shows "h \<le> h' \<and> (\<forall>p \<in> set ps. height_of v p \<le> unat h')
    \<and> (ps \<noteq> [] \<or> best \<noteq> None \<longrightarrow>
        (\<exists>q. best' = Some q \<and> height_of v q = unat h' \<and> (q \<in> set ps \<or> best = Some q)))"
  using assms
proof (induction ps arbitrary: best h)
  case Nil
  then show ?case
    by auto
next
  case (Cons p ps)
  from Cons.prems(1) obtain b where b: "map_of v p = Some b"
    by (metis hm_key_iff list.set_intros(1) not_None_eq subsetD)
  then have hp: "height_of v p = unat (blk_height b)"
    by (simp add: height_of_def)
  show ?case
  proof (cases "h \<le> blk_height b")
    case True
    with Cons.prems b have "best_parent v ps (Some p, blk_height b) = (best', h')"
      by simp
    from Cons.IH [OF _ this] Cons.prems(1) hp True show ?thesis
      by (auto simp: word_le_nat_alt)
  next
    case False
    with Cons.prems b have r: "best_parent v ps (best, h) = (best', h')"
      by simp
    have "best \<noteq> None"
      using Cons.prems(3) False word_zero_le by metis
    with Cons.IH [OF _ r Cons.prems(3,4)] Cons.prems(1) hp False show ?thesis
      by (auto simp: word_le_nat_alt not_le)
  qed
qed

lemma max_parent_score_spec:
  assumes "\<And>p b. p \<in> set ps \<Longrightarrow> map_of v p = Some b \<Longrightarrow>
      unat (hd_blue_score (header b)) = Suc (unat (blk_height b))"
    and "set ps \<subseteq> fst ` set v"
  shows "unat (max_parent_score v ps m) =
    Max (insert (unat m) ((\<lambda>p. Suc (height_of v p)) ` set ps))"
  using assms
proof (induction ps arbitrary: m)
  case Nil
  then show ?case by simp
next
  case (Cons p ps)
  from Cons.prems(2) obtain b where b: "map_of v p = Some b"
    by (metis hm_key_iff list.set_intros(1) not_None_eq subsetD)
  have s: "unat (hd_blue_score (header b)) = Suc (height_of v p)"
    using Cons.prems(1) [OF _ b] b by (simp add: height_of_def)
  have u: "unat (max m (hd_blue_score (header b))) = max (unat m) (Suc (height_of v p))"
    by (simp add: max_def word_le_nat_alt s)
  have "unat (max_parent_score v ps (max m (hd_blue_score (header b)))) =
      Max (insert (max (unat m) (Suc (height_of v p))) ((\<lambda>p. Suc (height_of v p)) ` set ps))"
    unfolding u [symmetric] by (rule Cons.IH) (use Cons.prems in auto)
  also have "\<dots> = Max (insert (unat m) ((\<lambda>p. Suc (height_of v p)) ` set (p # ps)))"
    by (cases "ps = []") (simp_all add: max.assoc)
  finally show ?case
    by (simp add: b)
qed

text \<open>A successful insertion, taken apart.\<close>

lemma insert_blockE:
  assumes "insert_block E now w b d = Inr d'"
  obtains "validate_basic E now b = Inr ()" and "w = None" and "blk_hash b \<notin> fst ` set (dag_store d)"
    and "set (parents b) \<subseteq> fst ` set (dag_store d)" and "parents b = [] \<Longrightarrow> dag_store d = []"
    and "d' = \<lparr>dag_store = view_put (annotate E d b) (dag_store d),
               dag_idx = update_tips_after_insert (annotate E d b) (dag_idx d)\<rparr>"
proof (rule that)
  note r = assms [unfolded insert_block_def Let_def]
  show "validate_basic E now b = Inr ()"
    using r by (cases "validate_basic E now b") auto
  show "w = None" "blk_hash b \<notin> fst ` set (dag_store d)"
    "d' = \<lparr>dag_store = view_put (annotate E d b) (dag_store d),
           dag_idx = update_tips_after_insert (annotate E d b) (dag_idx d)\<rparr>"
    using r by (auto simp: block_exists_def hm_key_iff split: sum.splits if_splits option.splits)
  show "parents b = [] \<Longrightarrow> dag_store d = []"
    using r by (auto simp: dag_block_count_def split: sum.splits if_splits option.splits)
  have "first_missing d (parents b) = None"
    using r by (cases "parents b = []") (auto simp: first_missing_def split: sum.splits if_splits option.splits)
  then show "set (parents b) \<subseteq> fst ` set (dag_store d)"
    by (auto simp: first_missing_def find_None_iff block_exists_def hm_key_iff)
qed

lemma annotate_simps [simp]:
  "parents (annotate E d b) = parents b" "transactions (annotate E d b) = transactions b"
  "hd_topo_index (header (annotate E d b)) = of_nat (dag_block_count d)"
  "hd_blue_score (header (annotate E d b)) = compute_blue_score (dag_store d) b"
  "hd_chain_height (header (annotate E d b)) = blk_height (annotate E d b)"
  "blk_height (annotate E d b) = snd (select_chain (dag_store d) b)"
  "hd_selected_parent (header (annotate E d b)) = fst (select_chain (dag_store d) b)"
  "blk_hash (annotate E d b) = calculate_hash E (annotate E d b)"
  by (simp_all add: annotate_def case_prod_beta)

text \<open>The annotated block is new: its topological index differs from every stored one.\<close>

lemma annotate_fresh:
  assumes "dag_inv E d" and "block_wf (annotate E d b)"
    and "sha_collision_free (sha256 E)
      (block_preimage E ` insert (annotate E d b) (snd ` set (dag_store d)))"
  shows "blk_hash (annotate E d b) \<notin> fst ` set (dag_store d)"
proof
  let ?a = "annotate E d b" and ?v = "dag_store d"
  assume "blk_hash ?a \<in> fst ` set ?v"
  then have "map_of ?v (blk_hash ?a) \<noteq> None"
    unfolding hm_key_iff by blast
  then obtain c where c: "map_of ?v (blk_hash ?a) = Some c"
    by (rule not_None_eq [THEN iffD1, THEN exE])
  note cs = stored_snd [OF c]
  have "calculate_hash E ?a = calculate_hash E c"
    using dag_invD(5) [OF assms(1) cs] stored_hash [OF dag_invD(1) [OF assms(1)] c]
    by (simp only: annotate_simps)
  then have "sha256 E (block_preimage E ?a) = sha256 E (block_preimage E c)"
    by (simp only: calculate_hash_def)
  then have "block_preimage E ?a = block_preimage E c"
    by (rule inj_onD [OF assms(3) [unfolded sha_collision_free_def]])
      (rule imageI, rule insertI1, rule imageI, rule insertI2, rule cs)
  then have "hd_topo_index (header ?a) = hd_topo_index (header c)"
    by (rule block_preimage_topo [OF assms(2) dag_invD(6) [OF assms(1) cs]])
  then have "hd_topo_index (header c) = of_nat (length ?v)"
    by (simp only: annotate_simps dag_block_count_def)
  moreover have "unat (of_nat (length ?v) :: u64) = length ?v"
    using dag_invD(4) [OF assms(1)] by (simp add: unat_of_nat_small)
  ultimately show False
    using dag_invD(8) [OF assms(1) cs] by (simp only: less_irrefl)
qed

lemma height_bound:
  assumes "dag_inv E d" and "h \<in> fst ` set (dag_store d)"
  shows "height_of (dag_store d) h < length (dag_store d)"
proof -
  obtain b where b: "map_of (dag_store d) h = Some b"
    using assms(2) by (metis hm_key_iff not_None_eq)
  have "meta_ok (dag_store d) b" "unat (hd_topo_index (header b)) < length (dag_store d)"
    using dag_invD(7,8) [OF assms(1)] stored_snd [OF b] by auto
  then show ?thesis
    by (simp add: meta_ok_def height_of_def b)
qed

text \<open>What step 5 computes.\<close>

lemma annotate_meta:
  assumes inv: "dag_inv E d" and ps: "set (parents b) \<subseteq> fst ` set (dag_store d)"
    and len: "Suc (length (dag_store d)) < 2 ^ 64"
  shows "meta_ok (dag_store d) (annotate E d b)"
proof (cases "parents b = []")
  case True
  then show ?thesis
    by (simp add: meta_ok_def select_chain_def compute_blue_score_def)
next
  case False
  let ?v = "dag_store d"
  obtain best h where bp: "best_parent ?v (parents b) (None, 0) = (best, h)"
    by fastforce
  from best_parent_spec [OF ps bp] False obtain q where
    q: "best = Some q" "height_of ?v q = unat h" "q \<in> set (parents b)"
    and mx: "\<forall>p \<in> set (parents b). height_of ?v p \<le> unat h"
    by auto
  have hb: "unat h < length ?v"
    using height_bound [OF inv, of q] q ps by auto
  have sel: "select_chain ?v b = (Some q, sat_add h 1)"
    using False q by (simp add: select_chain_def bp)
  have h1: "unat (sat_add h 1) = Suc (unat h)"
    using hb len by (simp add: unat_sat_add)
  have "unat (hd_blue_score (header c)) = Suc (unat (blk_height c))" if "map_of ?v p = Some c" for p c
    using dag_invD(7) [OF inv stored_snd [OF that]] by (simp add: meta_ok_def)
  then have "unat (max_parent_score ?v (parents b) 0) =
      Max (insert (unat (0 :: u64)) ((\<lambda>p. Suc (height_of ?v p)) ` set (parents b)))"
    by (intro max_parent_score_spec ps)
  also have "\<dots> = Suc (unat h)"
    by (rule Max_eqI) (use q mx in \<open>auto intro!: image_eqI [of _ _ q]\<close>)
  finally have bs: "unat (compute_blue_score ?v b) = Suc (Suc (unat h))"
    using hb len by (simp add: compute_blue_score_def unat_sat_add)
  have "unat (of_nat (dag_block_count d) :: u64) = length ?v"
    using len by (simp add: dag_block_count_def unat_of_nat_small)
  then show ?thesis
    using False q mx hb by (simp add: meta_ok_def sel h1 bs)
qed

lemma meta_ok_put:
  assumes "meta_ok v c" and "set (parents c) \<subseteq> fst ` set v" and "blk_hash b \<notin> fst ` set v"
  shows "meta_ok (view_put b v) c"
proof -
  have "height_of (view_put b v) p = height_of v p" if "p \<in> set (parents c)" for p
    using that assms(2,3) by (auto simp: height_of_def view_put_def map_of_omap_insert)
  with assms(1) show ?thesis
    unfolding meta_ok_def by (simp cong: ball_cong bex_cong)
qed

lemma snd_view_put:
  "blk_hash b \<notin> fst ` set v \<Longrightarrow> snd ` set (view_put b v) = insert b (snd ` set v)"
  by (simp add: view_put_def set_omap_insert_fresh)

lemma annotate_wf:
  assumes "block_wf b" and "\<And>p. p \<in> set (parents b) \<Longrightarrow> length p = 32"
    and "set (parents b) \<subseteq> fst ` set (dag_store d)"
  shows "block_wf (annotate E d b)"
proof -
  have "length p = 32" if sel: "fst (select_chain (dag_store d) b) = Some p" for p
  proof (cases "parents b = []")
    case True
    with sel show ?thesis
      by (simp add: select_chain_def)
  next
    case False
    obtain best h where bp: "best_parent (dag_store d) (parents b) (None, 0) = (best, h)"
      by fastforce
    from best_parent_spec [OF assms(3) bp] False sel have "p \<in> set (parents b)"
      by (auto simp: select_chain_def bp)
    with assms(2) show ?thesis .
  qed
  with assms(1) show ?thesis
    by (auto simp: annotate_def case_prod_beta intro!: block_wf_metadata)
qed

text \<open>
  One insertion. \<open>hash_fresh\<close> is what the code relies on of SHA-256 at this step: no two of
  the stored blocks and the new one share a digest without sharing their content.
\<close>

definition hash_fresh :: "env \<Rightarrow> block_dag \<Rightarrow> block \<Rightarrow> bool" where
  "hash_fresh E d b \<longleftrightarrow> sha_collision_free (sha256 E)
     (block_preimage E ` insert (annotate E d b) (snd ` set (dag_store d)))"

lemma insert_block_inv:
  assumes inv: "dag_inv E d" and wf: "block_wf b" and fr: "hash_fresh E d b"
    and len: "Suc (length (dag_store d)) < 2 ^ 64" and ins: "insert_block E now w b d = Inr d'"
  shows "dag_inv E d'"
  using ins
proof (rule insert_blockE)
  let ?a = "annotate E d b" and ?v = "dag_store d"
  assume ps: "set (parents b) \<subseteq> fst ` set ?v" and gen: "parents b = [] \<Longrightarrow> ?v = []"
    and d': "d' = \<lparr>dag_store = view_put ?a ?v, dag_idx = update_tips_after_insert ?a (dag_idx d)\<rparr>"
  have wfa: "block_wf ?a"
    using wf ps by (intro annotate_wf) (auto simp: block_wf_def)
  have fresh: "blk_hash ?a \<notin> fst ` set ?v"
    by (rule annotate_fresh [OF inv wfa fr [unfolded hash_fresh_def]])
  note snds = snd_view_put [OF fresh]
  have l: "length (view_put ?a ?v) = Suc (length ?v)"
    unfolding view_put_def by (rule length_omap_insert [OF fresh])
  have psa: "set (parents ?a) \<subseteq> fst ` set ?v"
    using ps by (simp only: annotate_simps)
  have "index_ok (update_tips_after_insert ?a (dag_idx d)) (view_put ?a ?v)"
    by (rule update_tips_after_insert_ok [OF dag_invD(3,2) [OF inv] fresh psa])
  moreover have "view_ok (view_put ?a ?v)" "parents_closed (view_put ?a ?v)"
    using view_ok_put [OF dag_invD(1) [OF inv]] parents_closed_put [OF dag_invD(2) [OF inv] psa]
    by simp_all
  moreover have "blk_hash c = calculate_hash E c \<and> block_wf c \<and> meta_ok (view_put ?a ?v) c
      \<and> unat (hd_topo_index (header c)) < Suc (length ?v)" if c: "c \<in> snd ` set (view_put ?a ?v)" for c
  proof (cases "c = ?a")
    case True
    have "unat (of_nat (length ?v) :: u64) = length ?v"
      using len by (simp add: unat_of_nat_small)
    then show ?thesis
      unfolding True
      using wfa meta_ok_put [OF annotate_meta [OF inv ps len] psa fresh]
      by (simp only: annotate_simps dag_block_count_def) simp
  next
    case False
    with c have c: "c \<in> snd ` set ?v"
      unfolding snds by simp
    then have "set (parents c) \<subseteq> fst ` set ?v"
      using dag_invD(2) [OF inv] by (simp only: parents_closed_def)
    from meta_ok_put [OF dag_invD(7) [OF inv c] this fresh] dag_invD(5,6,8) [OF inv c] show ?thesis
      by simp
  qed
  moreover have "x = y" if "x \<in> snd ` set (view_put ?a ?v)" "y \<in> snd ` set (view_put ?a ?v)"
    "parents x = []" "parents y = []" for x y
  proof (cases "parents b = []")
    case True
    then have "snd ` set ?v = {}"
      using gen by simp
    with that(1,2) show ?thesis
      unfolding snds by simp
  next
    case False
    then have "x \<noteq> ?a" "y \<noteq> ?a"
      using that(3,4) annotate_simps(1) [of E d b] by auto
    with that(1,2) have "x \<in> snd ` set ?v" "y \<in> snd ` set ?v"
      unfolding snds by simp_all
    with that(3,4) show ?thesis
      using dag_invD(9) [OF inv] by metis
  qed
  ultimately show ?thesis
    unfolding dag_inv_def d' Let_def block_dag.simps l using len by blast
qed

section \<open>Reachable DAGs\<close>

text \<open>
  The DAGs a node can build: an empty store and index, then successful insertions of
  well-formed blocks with fresh hashes. Failed insertions leave the DAG as it is.
\<close>

inductive dag_reachable :: "env \<Rightarrow> block_dag \<Rightarrow> bool" for E where
  start: "dag_reachable E (block_dag_new [])"
| insert: "dag_reachable E d \<Longrightarrow> block_wf b \<Longrightarrow> hash_fresh E d b \<Longrightarrow>
    Suc (length (dag_store d)) < 2 ^ 64 \<Longrightarrow> insert_block E now w b d = Inr d' \<Longrightarrow>
    dag_reachable E d'"

lemma dag_inv_new: "dag_inv E (block_dag_new [])"
  by (simp add: dag_inv_def block_dag_new_def dag_index_new_def view_ok_def parents_closed_def
      index_ok_def get_children_def parents_of_def parent_graph_def)

lemma dag_reachable_inv: "dag_reachable E d \<Longrightarrow> dag_inv E d"
  by (induction rule: dag_reachable.induct) (auto intro: dag_inv_new insert_block_inv)

text \<open>
  Topological indices: each of the numbers below the count of blocks belongs to exactly one stored block,
  and a parent has a smaller one than its child.
\<close>

definition topo_of :: "block \<Rightarrow> nat" where
  "topo_of b = unat (hd_topo_index (header b))"

definition topo_ok :: "block_view \<Rightarrow> bool" where
  "topo_ok v \<longleftrightarrow> bij_betw topo_of (snd ` set v) {..<length v}
     \<and> (\<forall>b \<in> snd ` set v. \<forall>p \<in> set (parents b). \<forall>a. map_of v p = Some a \<longrightarrow> topo_of a < topo_of b)"

lemma insert_block_adds:
  assumes "dag_inv E d" and "block_wf b" and "hash_fresh E d b" and "Suc (length (dag_store d)) < 2 ^ 64"
    and "insert_block E now w b d = Inr d'"
  shows "dag_store d' = view_put (annotate E d b) (dag_store d)"
    and "set (parents b) \<subseteq> fst ` set (dag_store d)"
    and "blk_hash (annotate E d b) \<notin> fst ` set (dag_store d)"
    and "snd ` set (dag_store d') = insert (annotate E d b) (snd ` set (dag_store d))"
    and "length (dag_store d') = Suc (length (dag_store d))"
    and "topo_of (annotate E d b) = length (dag_store d)"
proof -
  let ?a = "annotate E d b"
  show ps: "set (parents b) \<subseteq> fst ` set (dag_store d)" and d': "dag_store d' = view_put ?a (dag_store d)"
    using assms(5) by (auto elim!: insert_blockE)
  have "block_wf ?a"
    using assms(2) ps by (intro annotate_wf) (auto simp: block_wf_def)
  then show fresh: "blk_hash ?a \<notin> fst ` set (dag_store d)"
    by (rule annotate_fresh [OF assms(1) _ assms(3) [unfolded hash_fresh_def]])
  show "snd ` set (dag_store d') = insert ?a (snd ` set (dag_store d))"
    unfolding d' by (rule snd_view_put [OF fresh])
  show "length (dag_store d') = Suc (length (dag_store d))"
    unfolding d' view_put_def using fresh by (simp add: length_omap_insert)
  show "topo_of ?a = length (dag_store d)"
    unfolding topo_of_def using assms(4) by (simp only: annotate_simps dag_block_count_def) (simp add: unat_of_nat_small)
qed

lemma insert_block_topo:
  assumes "dag_inv E d" and "block_wf b" and "hash_fresh E d b" and "Suc (length (dag_store d)) < 2 ^ 64"
    and "insert_block E now w b d = Inr d'" and "topo_ok (dag_store d)"
  shows "topo_ok (dag_store d')"
proof -
  let ?a = "annotate E d b" and ?v = "dag_store d"
  note A = insert_block_adds [OF assms(1-5)]
  have bij: "bij_betw topo_of (snd ` set ?v) {..<length ?v}"
    using assms(6) by (simp add: topo_ok_def)
  have less: "topo_of c < length ?v" if "c \<in> snd ` set ?v" for c
    using bij that by (auto simp: bij_betw_def)
  have "inj_on topo_of (insert ?a (snd ` set ?v))" and "topo_of ` insert ?a (snd ` set ?v) = {..<Suc (length ?v)}"
    using bij less A(6) unfolding bij_betw_def inj_on_insert by (force, simp add: lessThan_Suc)
  then have "bij_betw topo_of (snd ` set (dag_store d')) {..<length (dag_store d')}"
    unfolding A(4,5) bij_betw_def by (rule conjI)
  moreover have "topo_of p < topo_of c" if c: "c \<in> snd ` set (dag_store d')" "h \<in> set (parents c)"
    and p: "map_of (dag_store d') h = Some p" for c h p
  proof -
    have h: "h \<in> fst ` set ?v"
      using c A(2) dag_invD(2) [OF assms(1)] unfolding A(4) by (auto simp: parents_closed_def)
    then have q: "map_of ?v h = Some p"
      using p A(3) unfolding A(1) view_put_def by (auto simp: map_of_omap_insert split: if_splits)
    show ?thesis
    proof (cases "c = ?a")
      case True
      then show ?thesis
        using less [OF stored_snd [OF q]] A(6) by simp
    next
      case False
      then show ?thesis
        using assms(6) c q unfolding A(4) topo_ok_def by blast
    qed
  qed
  ultimately show ?thesis
    unfolding topo_ok_def by blast
qed

lemma dag_reachable_topo: "dag_reachable E d \<Longrightarrow> topo_ok (dag_store d)"
proof (induction rule: dag_reachable.induct)
  case (insert d b now w d')
  from insert_block_topo [OF dag_reachable_inv [OF insert.hyps(1)] insert.hyps(2-5) insert.IH] show ?case .
qed (simp add: block_dag_new_def topo_ok_def bij_betw_def)

section \<open>Graph facts\<close>

lemma path_height:
  assumes "dag_inv E d" and "(h, y) \<in> edges (parent_graph (dag_store d)) ^^ k"
  shows "height_of (dag_store d) y + k \<le> height_of (dag_store d) h"
  using assms(2)
proof (induction k arbitrary: y)
  case (Suc k)
  then obtain z where "(h, z) \<in> edges (parent_graph (dag_store d)) ^^ k"
    "(z, y) \<in> edges (parent_graph (dag_store d))"
    by auto
  with Suc.IH [of z] parent_height [OF assms(1), of y z] show ?case
    by (simp add: edges_parent_graph)
qed simp

lemma path_of_height:
  assumes "dag_inv E d"
  shows "\<exists>y. (h, y) \<in> edges (parent_graph (dag_store d)) ^^ height_of (dag_store d) h"
proof (induction "height_of (dag_store d) h" arbitrary: h)
  case 0
  then show ?case by simp
next
  case (Suc n)
  let ?v = "dag_store d"
  from Suc.hyps(2) obtain b where b: "map_of ?v h = Some b"
    by (cases "map_of ?v h") (auto simp: height_of_def)
  have m: "meta_ok ?v b"
    by (rule dag_invD(7) [OF assms stored_snd [OF b]])
  have hb: "unat (blk_height b) = Suc n"
    using Suc.hyps(2) by (simp add: height_of_def b)
  with m have "parents b \<noteq> []"
    by (auto simp: meta_ok_def)
  with m hb obtain p where p: "p \<in> set (parents b)" "height_of ?v p = n"
    unfolding meta_ok_def by auto
  from Suc.hyps(1) [of p] p(2) obtain y where "(p, y) \<in> edges (parent_graph ?v) ^^ n"
    by auto
  moreover have "(h, p) \<in> edges (parent_graph ?v)"
    using p(1) by (simp add: edges_parent_graph parents_of_eq b)
  ultimately have "(h, y) \<in> edges (parent_graph ?v) ^^ Suc n"
    by (rule relpow_Suc_I2 [rotated])
  with Suc.hyps(2) show ?case
    by metis
qed

lemma depth_is_height:
  assumes "dag_inv E d"
  shows "get_block_depth (dag_store d) h = Some (height_of (dag_store d) h)"
proof -
  let ?g = "parent_graph (dag_store d)"
  have "acyclic (edges ?g)"
    using parent_relation_acyclic [OF assms] by (simp only: edges_parent_graph_set)
  from levels_longest [OF this, of h] obtain m y where
    m: "get_block_depth (dag_store d) h = Some m" "(h, y) \<in> edges ?g ^^ m"
    "\<And>k y. (h, y) \<in> edges ?g ^^ k \<Longrightarrow> k \<le> m"
    by (auto simp only: get_block_depth_def)
  have "height_of (dag_store d) h \<le> m"
    using path_of_height [OF assms, of h] m(3) by blast
  moreover have "m \<le> height_of (dag_store d) h"
    using path_height [OF assms m(2)] by simp
  ultimately show ?thesis
    using m(1) by simp
qed

lemma edges_children:
  assumes "index_ok idx v"
  shows "edges (parent_to_children idx) = (edges (parent_graph v))\<inverse>"
proof -
  have "y \<in> set (hm_list (parent_to_children idx) x) \<longleftrightarrow> x \<in> set (parents_of v y)" for x y
  proof -
    have "y \<in> set (hm_list (parent_to_children idx) x) \<longleftrightarrow>
        count_list (hm_list (parent_to_children idx) x) y \<noteq> 0"
      by (simp add: count_list_0_iff)
    also have "\<dots> \<longleftrightarrow> count_list (parents_of v y) x \<noteq> 0"
      using assms by (simp add: index_ok_def get_children_def)
    finally show ?thesis
      by (simp add: count_list_0_iff)
  qed
  then show ?thesis
    by (auto simp: edges_def parents_of_def)
qed

lemma get_all_ancestors_reach:
  "get_all_ancestors v h = (edges (parent_graph v))\<^sup>+ `` {h}"
  by (simp add: get_all_ancestors_def bfs_mark_reach)

lemma descendants_ancestors:
  "index_ok idx v \<Longrightarrow> y \<in> get_all_descendants idx x \<longleftrightarrow> x \<in> get_all_ancestors v y"
  by (simp add: get_all_descendants_def get_all_ancestors_reach bfs_mark_reach edges_children
      trancl_converse)

lemma root_below:
  assumes "dag_inv E d" and "h \<in> fst ` set (dag_store d)"
  shows "\<exists>r \<in> snd ` set (dag_store d). parents r = [] \<and>
    (blk_hash r = h \<or> (\<exists>c \<in> snd ` set (dag_store d). blk_hash r \<in> set (parents c)))"
  using assms(2)
proof (induction "height_of (dag_store d) h" arbitrary: h rule: less_induct)
  case less
  let ?v = "dag_store d"
  obtain b where b: "map_of ?v h = Some b"
    using less.prems by (metis hm_key_iff not_None_eq)
  note bs = stored_snd [OF b]
  have hb: "blk_hash b = h"
    by (rule stored_hash [OF dag_invD(1) [OF assms(1)] b])
  show ?case
  proof (cases "parents b")
    case Nil
    with bs hb show ?thesis
      by blast
  next
    case (Cons p ps)
    have p: "p \<in> set (parents_of ?v h)"
      by (simp add: parents_of_eq b Cons)
    from less.hyps [OF parent_height [OF assms(1) p] parents_closedD [OF dag_invD(2) [OF assms(1)] p]]
    obtain r where "r \<in> snd ` set ?v" "parents r = []"
      "blk_hash r = p \<or> (\<exists>c \<in> snd ` set ?v. blk_hash r \<in> set (parents c))"
      by blast
    moreover have "p \<in> set (parents b)"
      by (simp add: Cons)
    ultimately show ?thesis
      using bs by blast
  qed
qed

lemma first_mismatch_ok:
  "(\<And>b. b \<in> set bs \<Longrightarrow> blk_hash b = calculate_hash E b) \<Longrightarrow> first_mismatch E bs = Inr ()"
  by (induction bs) auto

lemma first_dangling_ok:
  "\<forall>b \<in> set bs. set (parents b) \<subseteq> fst ` set (dag_store d) \<Longrightarrow> first_dangling d bs = None"
proof (induction bs)
  case (Cons b bs)
  have "first_missing d (parents b) = None"
    using Cons.prems by (auto simp: first_missing_def find_None_iff block_exists_def hm_key_iff)
  with Cons show ?case
    by simp
qed simp

lemma topological_order_ex:
  assumes "dag_inv E d"
  shows "\<exists>r. get_topological_order (dag_idx d) (dag_store d) = Some r \<and> distinct r
    \<and> set r = fst ` set (dag_store d)
    \<and> (\<forall>i < length r. set (parents_of (dag_store d) (r ! i)) \<subseteq> set (take i r))"
proof -
  let ?v = "dag_store d"
  have p: "parents b = parents_of ?v h" and k: "blk_hash b = h" if "(h, b) \<in> set ?v" for h b
    using parents_of_stored [OF dag_invD(1) [OF assms] that] view_okD [OF dag_invD(1) [OF assms] that]
    by simp_all
  have "map (\<lambda>b. (blk_hash b, length (parents b))) (map snd ?v) =
      map (\<lambda>y. (y, length (parents_of ?v y))) (map fst ?v)"
    using p k by (auto intro!: map_cong)
  moreover have "map blk_hash (filter (\<lambda>b. parents b = []) (map snd ?v)) =
      filter (\<lambda>y. parents_of ?v y = []) (map fst ?v)"
  proof -
    have f: "\<forall>(h, b) \<in> set xs. parents b = parents_of ?v h \<and> blk_hash b = h \<Longrightarrow>
        map blk_hash (filter (\<lambda>b. parents b = []) (map snd xs)) =
        filter (\<lambda>y. parents_of ?v y = []) (map fst xs)" for xs
      by (induction xs) auto
    show ?thesis
      by (rule f) (use p k in blast)
  qed
  ultimately have "get_topological_order (dag_idx d) ?v =
      kahn (parent_to_children (dag_idx d)) (filter (\<lambda>y. parents_of ?v y = []) (map fst ?v))
        (map (\<lambda>y. (y, length (parents_of ?v y))) (map fst ?v)) []"
    unfolding get_topological_order_def Let_def by (simp only:)
  with bd.kahn_topological [OF assms] show ?thesis
    by (simp del: map_map)
qed

section \<open>Sample instances\<close>

text \<open>A genesis block and one child on it, inserted into an empty DAG.\<close>

definition sample_genesis :: block where
  "sample_genesis = annotate sample_env (block_dag_new []) (sample_block [] 0)"

definition sample_dag1 :: block_dag where
  "sample_dag1 =
     \<lparr>dag_store = view_put sample_genesis [],
      dag_idx = update_tips_after_insert sample_genesis dag_index_new\<rparr>"

definition sample_child :: block where
  "sample_child = sample_block [blk_hash sample_genesis] 0"

definition sample_dag2 :: block_dag where
  "sample_dag2 =
     \<lparr>dag_store = view_put (annotate sample_env sample_dag1 sample_child) (dag_store sample_dag1),
      dag_idx = update_tips_after_insert (annotate sample_env sample_dag1 sample_child)
        (dag_idx sample_dag1)\<rparr>"

lemma sample_block_valid [simp]: "validate_basic sample_env 1000 (sample_block ps n) = Inr ()"
  by (simp add: validate_basic_def sample_block_def block_new_hash sample_env_def)

lemma sample_block_wf: "\<forall>p \<in> set ps. length p = 32 \<Longrightarrow> block_wf (sample_block ps n)"
  by (simp add: block_wf_def sample_block_def)

lemma sample_genesis_hash: "length (blk_hash sample_genesis) = 32"
  by (simp add: sample_genesis_def calculate_hash_length sample_env_def)

lemma insert_sample_genesis:
  "insert_block sample_env 1000 None (sample_block [] 0) (block_dag_new []) = Inr sample_dag1"
  by (simp add: insert_block_def block_exists_def block_dag_new_def sample_dag1_def
      sample_genesis_def dag_block_count_def sample_block_def [of "[]"] Let_def
      sample_block_valid [unfolded sample_block_def])

lemma sample_dag1_reachable: "dag_reachable sample_env sample_dag1"
proof (rule dag_reachable.insert [OF dag_reachable.start _ _ _ insert_sample_genesis])
  show "hash_fresh sample_env (block_dag_new []) (sample_block [] 0)"
    by (simp add: hash_fresh_def sha_collision_free_def block_dag_new_def)
qed (simp_all add: sample_block_wf block_dag_new_def)

lemma sample_hash_length:
  "length (block_preimage sample_env b) = l \<Longrightarrow> calculate_hash sample_env b = replicate 32 (of_nat l)"
  by (simp add: calculate_hash_def sample_env_def sample_sha_def)

lemma sample_preimage_length:
  assumes "block_wf b" and "transactions b = []"
  shows "length (block_preimage sample_env b) = 32 * length (parents b) + 140"
proof -
  have "length (concat (parents b)) = 32 * length (parents b)"
    using assms(1) by (auto simp: block_wf_def length_concat map_idI sum_list_triv
        intro!: trans [OF arg_cong [of "map length (parents b)" "map (\<lambda>_. 32) (parents b)" sum_list]])
  with assms show ?thesis
    by (auto simp: block_preimage_def header_tail_def block_wf_def split: option.split)
qed

lemma sample_genesis_facts:
  "block_wf sample_genesis" "transactions sample_genesis = []" "parents sample_genesis = []"
  "dag_store sample_dag1 = [(blk_hash sample_genesis, sample_genesis)]"
proof -
  show "block_wf sample_genesis"
    unfolding sample_genesis_def
    by (rule annotate_wf [OF sample_block_wf]) (simp_all add: sample_block_def [of "[]"])
qed (simp_all add: sample_genesis_def sample_block_def sample_dag1_def view_put_def)

lemma sample_child_facts:
  "block_wf (annotate sample_env sample_dag1 sample_child)"
  "parents sample_child = [blk_hash sample_genesis]" "transactions sample_child = []"
proof -
  show p: "parents sample_child = [blk_hash sample_genesis]"
    by (simp add: sample_child_def sample_block_def)
  show "block_wf (annotate sample_env sample_dag1 sample_child)"
    by (rule annotate_wf) (simp_all add: p sample_genesis_facts(4) sample_genesis_hash,
        simp add: sample_child_def sample_block_wf sample_genesis_hash)
qed (simp add: sample_child_def sample_block_def)

lemma sample_hashes:
  "calculate_hash sample_env sample_genesis = replicate 32 140"
  "calculate_hash sample_env (annotate sample_env sample_dag1 sample_child) = replicate 32 172"
  "calculate_hash sample_env sample_child = replicate 32 172"
proof -
  have w: "block_wf sample_child"
    by (simp add: sample_child_def sample_block_wf sample_genesis_hash)
  show "calculate_hash sample_env sample_genesis = replicate 32 140"
    by (simp add: sample_hash_length [OF sample_preimage_length] sample_genesis_facts)
  show "calculate_hash sample_env (annotate sample_env sample_dag1 sample_child) = replicate 32 172"
    by (simp add: sample_hash_length [OF sample_preimage_length] sample_child_facts)
  show "calculate_hash sample_env sample_child = replicate 32 172"
    by (simp add: sample_hash_length [OF sample_preimage_length] sample_child_facts w)
qed

lemma sample_genesis_key: "blk_hash sample_genesis = replicate 32 140"
  using sample_hashes(1) by (simp add: sample_genesis_def)

lemma insert_sample_child:
  "insert_block sample_env 1000 None sample_child sample_dag1 = Inr sample_dag2"
proof -
  have "blk_hash sample_child = replicate 32 172"
    using sample_hashes(3) by (simp add: sample_child_def sample_block_def block_new_hash)
  moreover have "validate_basic sample_env 1000 sample_child = Inr ()"
    by (simp add: sample_child_def)
  ultimately show ?thesis
    by (simp add: insert_block_def block_exists_def first_missing_def sample_genesis_facts(4)
        sample_child_facts(2) sample_genesis_key sample_dag2_def Let_def del: replicate.simps)
qed

lemma sample_dag2_fresh: "hash_fresh sample_env sample_dag1 sample_child"
proof -
  let ?a = "annotate sample_env sample_dag1 sample_child"
  have "sha256 sample_env (block_preimage sample_env ?a) \<noteq>
      sha256 sample_env (block_preimage sample_env sample_genesis)"
    using sample_hashes(1,2) by (simp add: calculate_hash_def del: replicate.simps)
  then show ?thesis
    by (auto simp: hash_fresh_def sha_collision_free_def sample_genesis_facts(4))
qed

lemma sample_child_wf: "block_wf sample_child"
  by (simp add: sample_child_def sample_block_wf sample_genesis_hash)

lemma sample_dag2_reachable: "dag_reachable sample_env sample_dag2"
  by (rule dag_reachable.insert [OF sample_dag1_reachable sample_child_wf sample_dag2_fresh _
        insert_sample_child]) (simp add: sample_genesis_facts(4))

lemma sample_dag2_store:
  "dag_store sample_dag2 =
     [(replicate 32 140, sample_genesis),
      (replicate 32 172, annotate sample_env sample_dag1 sample_child)]"
proof -
  have "replicate 32 (140 :: u8) < replicate 32 172" and "replicate 32 (140 :: u8) \<noteq> replicate 32 172"
    by code_simp+
  then show ?thesis
    by (simp add: sample_dag2_def view_put_def sample_genesis_facts(4) sample_genesis_key sample_hashes(2)
        del: replicate.simps)
qed

text \<open>A third block that names the genesis block twice, so that there are two tips.\<close>

definition sample_twin :: block where
  "sample_twin = sample_block [blk_hash sample_genesis, blk_hash sample_genesis] 0"

definition sample_dag3 :: block_dag where
  "sample_dag3 =
     \<lparr>dag_store = view_put (annotate sample_env sample_dag2 sample_twin) (dag_store sample_dag2),
      dag_idx = update_tips_after_insert (annotate sample_env sample_dag2 sample_twin)
        (dag_idx sample_dag2)\<rparr>"

lemma sample_twin_facts:
  "block_wf sample_twin" "parents sample_twin = [replicate 32 140, replicate 32 140]"
  "transactions sample_twin = []" "block_wf (annotate sample_env sample_dag2 sample_twin)"
proof -
  show w: "block_wf sample_twin"
    by (simp add: sample_twin_def sample_block_wf sample_genesis_hash)
  show p: "parents sample_twin = [replicate 32 140, replicate 32 140]"
    by (simp add: sample_twin_def sample_block_def sample_genesis_key del: replicate.simps)
  show "block_wf (annotate sample_env sample_dag2 sample_twin)"
    by (rule annotate_wf [OF w]) (auto simp: p sample_dag2_store)
qed (simp add: sample_twin_def sample_block_def)

lemma sample_twin_hash:
  "calculate_hash sample_env (annotate sample_env sample_dag2 sample_twin) = replicate 32 204"
  "calculate_hash sample_env sample_twin = replicate 32 204"
  by (simp_all add: sample_hash_length [OF sample_preimage_length] sample_twin_facts)

lemma sample_keys_distinct:
  "replicate 32 (140 :: u8) \<noteq> replicate 32 172" "replicate 32 (140 :: u8) \<noteq> replicate 32 204"
  "replicate 32 (172 :: u8) \<noteq> replicate 32 204"
  by code_simp+

lemma insert_sample_twin:
  "insert_block sample_env 1000 None sample_twin sample_dag2 = Inr sample_dag3"
proof -
  have "blk_hash sample_twin = replicate 32 204"
    using sample_twin_hash(2) by (simp add: sample_twin_def sample_block_def block_new_hash)
  moreover have "validate_basic sample_env 1000 sample_twin = Inr ()"
    by (simp add: sample_twin_def)
  ultimately show ?thesis
    using sample_keys_distinct
    by (simp add: insert_block_def block_exists_def first_missing_def sample_dag2_store
        sample_twin_facts(2) sample_dag3_def Let_def sample_genesis_key sample_hashes(2)
        del: replicate.simps)
qed

lemma sample_dag3_reachable: "dag_reachable sample_env sample_dag3"
proof (rule dag_reachable.insert [OF sample_dag2_reachable sample_twin_facts(1) _ _ insert_sample_twin])
  let ?sha = "\<lambda>b. sha256 sample_env (block_preimage sample_env b)"
  have "?sha (annotate sample_env sample_dag2 sample_twin) = replicate 32 204"
    "?sha (annotate sample_env sample_dag1 sample_child) = replicate 32 172"
    "?sha sample_genesis = replicate 32 140"
    using sample_twin_hash(1) sample_hashes by (simp_all only: calculate_hash_def)
  with sample_keys_distinct show "hash_fresh sample_env sample_dag2 sample_twin"
    by (auto simp: hash_fresh_def sha_collision_free_def sample_dag2_store inj_on_def
        simp del: replicate.simps)
qed (simp add: sample_dag2_store)

lemma sample_dag3_tips: "tips (dag_idx sample_dag3) = {replicate 32 172, replicate 32 204}"
proof -
  have "tips (dag_idx sample_dag1) = {replicate 32 140}"
    by (simp add: sample_dag1_def update_tips_after_insert_def dag_index_new_def
        sample_genesis_facts sample_genesis_key del: replicate.simps)
  then have "tips (dag_idx sample_dag2) = {replicate 32 172}"
    using sample_keys_distinct(1)
    by (simp add: sample_dag2_def update_tips_after_insert_def sample_child_facts sample_hashes
        sample_genesis_key insert_Diff_if del: replicate.simps)
  then show ?thesis
    using sample_keys_distinct
    by (auto simp: sample_dag3_def update_tips_after_insert_def sample_twin_facts sample_twin_hash
        simp del: replicate.simps)
qed

section \<open>Properties\<close>

text \<open>
  C1. Every DAG built from an empty store by insertions of well-formed blocks, among which the digest has no
  collisions, satisfies the DAG invariant: blocks are keyed by their own
  hash, every parent is stored, the child lists and the tips describe the store exactly, at
  most one block has no parents, and each block's height, blue score and selected parent are the
  ones its parents determine. The topological indices are the numbers below the count of blocks, each
  used once, and every parent has a smaller one than its child.
\<close>

theorem dag_reachable_invariant:
  assumes "dag_reachable E d"
  shows "dag_inv E d \<and> topo_ok (dag_store d)"
  using dag_reachable_inv dag_reachable_topo assms by blast

theorem dag_reachable_invariant_witness:
  "dag_inv sample_env sample_dag3 \<and> bij_betw topo_of (snd ` set (dag_store sample_dag3)) {..<length (dag_store sample_dag3)}"
  using dag_reachable_invariant [OF sample_dag3_reachable] by (simp add: topo_ok_def)

text \<open>
  C20. A successful insertion stores exactly one more block, the annotated one, leaves every
  other lookup as it was, and replaces the parents by the new block among the tips.
\<close>

theorem insert_block_effect:
  assumes "dag_inv E d" and "block_wf b" and "hash_fresh E d b"
    and "insert_block E now w b d = Inr d'"
  shows "dag_get_block d' = (dag_get_block d)(blk_hash (annotate E d b) \<mapsto> annotate E d b)
    \<and> dag_block_count d' = Suc (dag_block_count d)
    \<and> tips (dag_idx d') = insert (blk_hash (annotate E d b)) (tips (dag_idx d) - set (parents b))"
  using assms(4)
proof (rule insert_blockE)
  let ?a = "annotate E d b" and ?v = "dag_store d"
  assume ps: "set (parents b) \<subseteq> fst ` set ?v"
    and d': "d' = \<lparr>dag_store = view_put ?a ?v, dag_idx = update_tips_after_insert ?a (dag_idx d)\<rparr>"
  have wfa: "block_wf ?a"
    using assms(2) ps by (intro annotate_wf) (auto simp: block_wf_def)
  have fresh: "blk_hash ?a \<notin> fst ` set ?v"
    by (rule annotate_fresh [OF assms(1) wfa assms(3) [unfolded hash_fresh_def]])
  have "dag_get_block d' = (dag_get_block d)(blk_hash ?a \<mapsto> ?a)"
    unfolding d' by (simp add: dag_get_block_def [abs_def] view_put_def map_of_omap_insert)
  moreover have "dag_block_count d' = Suc (dag_block_count d)"
    unfolding d' dag_block_count_def view_put_def block_dag.simps
    by (rule length_omap_insert [OF fresh])
  moreover have "tips (dag_idx d') = insert (blk_hash ?a) (tips (dag_idx d) - set (parents b))"
    using fresh ps unfolding d'
    by (auto simp: update_tips_after_insert_def fold_remove)
  ultimately show ?thesis
    by blast
qed

theorem insert_block_effect_witness:
  "dag_get_block sample_dag2 (blk_hash sample_genesis) = Some sample_genesis
   \<and> tips (dag_idx sample_dag2) = {replicate 32 172}"
proof -
  have t: "tips (dag_idx sample_dag1) = {blk_hash sample_genesis}"
    by (simp add: sample_dag1_def update_tips_after_insert_def dag_index_new_def sample_genesis_facts)
  have "blk_hash sample_genesis \<noteq> replicate 32 172"
    unfolding sample_genesis_key by code_simp
  with insert_block_effect [OF dag_reachable_inv [OF sample_dag1_reachable] sample_child_wf
      sample_dag2_fresh insert_sample_child] t show ?thesis
    by (simp add: sample_child_facts sample_hashes dag_get_block_def sample_genesis_facts(4)
        del: replicate.simps)
qed

text \<open>
  C24. On every DAG that satisfies the invariant the topological sort ends without a counter
  underflow, lists every stored block exactly once, and puts all parents before a block.
\<close>

theorem topological_order_correct:
  assumes "dag_inv E d"
  shows "\<exists>r. get_topological_order (dag_idx d) (dag_store d) = Some r \<and> distinct r
    \<and> set r = fst ` set (dag_store d)
    \<and> (\<forall>i < length r. set (parents_of (dag_store d) (r ! i)) \<subseteq> set (take i r))"
  by (rule topological_order_ex [OF assms])

theorem topological_order_correct_witness:
  "\<exists>r. get_topological_order (dag_idx sample_dag2) (dag_store sample_dag2) = Some r
     \<and> set r = {replicate 32 140, replicate 32 172}"
  using topological_order_correct [OF dag_reachable_inv [OF sample_dag2_reachable]]
  unfolding sample_dag2_store by auto

text \<open>
  C26. The depth loop ends, and depth, stored height and chain height of a block are all the
  length of the longest path from the block down to the genesis block; the blue score is that
  length plus one.
\<close>

theorem height_is_longest_path:
  assumes "dag_inv E d" and "dag_get_block d h = Some b"
  shows "get_block_depth (dag_store d) h = Some (unat (blk_height b))
    \<and> get_block_height d h = Some (blk_height b)
    \<and> unat (hd_blue_score (header b)) = Suc (unat (blk_height b))
    \<and> (\<exists>y. (h, y) \<in> edges (parent_graph (dag_store d)) ^^ unat (blk_height b))
    \<and> (\<forall>k y. (h, y) \<in> edges (parent_graph (dag_store d)) ^^ k \<longrightarrow> k \<le> unat (blk_height b))"
proof -
  let ?v = "dag_store d"
  have b: "map_of ?v h = Some b"
    using assms(2) by (simp add: dag_get_block_def)
  have hb: "height_of ?v h = unat (blk_height b)"
    by (simp add: height_of_def b)
  have m: "meta_ok ?v b"
    by (rule dag_invD(7) [OF assms(1) stored_snd [OF b]])
  have dep: "get_block_depth ?v h = Some (unat (blk_height b))"
    using depth_is_height [OF assms(1), of h] by (simp add: hb)
  moreover have "get_block_height d h = Some (blk_height b)"
    using m dep by (auto simp: get_block_height_def assms(2) meta_ok_def Let_def word_gt_0)
  moreover have "k \<le> unat (blk_height b)" if "(h, y) \<in> edges (parent_graph ?v) ^^ k" for k y
    using path_height [OF assms(1) that] by (simp add: hb)
  moreover have "\<exists>y. (h, y) \<in> edges (parent_graph ?v) ^^ unat (blk_height b)"
    using path_of_height [OF assms(1), of h] by (simp add: hb)
  ultimately show ?thesis
    using m by (simp add: meta_ok_def)
qed

theorem height_is_longest_path_witness:
  "get_block_depth (dag_store sample_dag2) (replicate 32 140) = Some 0"
proof -
  have "dag_get_block sample_dag2 (replicate 32 140) = Some sample_genesis"
    by (simp add: dag_get_block_def sample_dag2_store del: replicate.simps)
  from height_is_longest_path [OF dag_reachable_inv [OF sample_dag2_reachable] this] show ?thesis
    by (simp add: sample_genesis_def select_chain_def sample_block_def)
qed

text \<open>
  C27. Ancestor and descendant queries compute reachability along parent links, agree with each
  other, and no block is its own ancestor.
\<close>

theorem ancestors_and_descendants:
  assumes "dag_inv E d"
  shows "get_all_ancestors (dag_store d) x = {y. (x, y) \<in> {(c, p). p \<in> set (parents_of (dag_store d) c)}\<^sup>+}
    \<and> (y \<in> get_all_descendants (dag_idx d) x \<longleftrightarrow> x \<in> get_all_ancestors (dag_store d) y)
    \<and> \<not> is_ancestor (dag_store d) x x"
proof -
  have "x \<notin> get_all_ancestors (dag_store d) x"
    using parent_relation_acyclic [OF assms]
    by (simp add: get_all_ancestors_reach edges_parent_graph_set acyclic_def)
  then show ?thesis
    using descendants_ancestors [OF dag_invD(3) [OF assms]]
    by (auto simp: is_ancestor_def get_all_ancestors_reach edges_parent_graph_set)
qed

theorem ancestors_and_descendants_witness:
  "replicate 32 172 \<in> get_all_descendants (dag_idx sample_dag2) (replicate 32 140) \<longleftrightarrow>
   replicate 32 140 \<in> get_all_ancestors (dag_store sample_dag2) (replicate 32 172)"
  using ancestors_and_descendants [OF dag_reachable_inv [OF sample_dag2_reachable]] by blast

text \<open>
  C28. Rebuilding the index from the store gives the same tips and, for every block, the same
  children up to order as the index maintained insertion by insertion.
\<close>

theorem rebuild_index_equivalent:
  assumes "dag_inv E d"
  shows "dag_inv E (rebuild_index d)
    \<and> tips (dag_idx (rebuild_index d)) = tips (dag_idx d)
    \<and> mset (get_children (dag_idx (rebuild_index d)) h) = mset (get_children (dag_idx d) h)"
proof -
  have r: "index_ok (build_from_store (dag_store d)) (dag_store d)"
    by (rule build_from_store_ok [OF dag_invD(1) [OF assms]])
  note i = dag_invD(3) [OF assms]
  have "dag_inv E (rebuild_index d)"
    using assms r by (simp add: dag_inv_def rebuild_index_def Let_def)
  moreover have "tips (build_from_store (dag_store d)) = tips (dag_idx d)"
    using r i by (simp add: index_ok_def)
  moreover have "mset (get_children (build_from_store (dag_store d)) h) = mset (get_children (dag_idx d) h)"
    by (rule multiset_eqI) (use r i in \<open>simp add: index_ok_def count_mset\<close>)
  ultimately show ?thesis
    by (simp add: rebuild_index_def)
qed

theorem rebuild_index_equivalent_witness:
  "tips (dag_idx (rebuild_index sample_dag2)) = tips (dag_idx sample_dag2)"
  using rebuild_index_equivalent [OF dag_reachable_inv [OF sample_dag2_reachable]] by blast

text \<open>
  \<open>find_lca\<close> returns a block that both arguments descend from (or are), and returns
  nothing only when there is none.
\<close>

theorem find_lca_common_ancestor:
  "case find_lca v h1 h2 of
     Some x \<Rightarrow> (x = h1 \<or> is_ancestor v x h1) \<and> (x = h2 \<or> is_ancestor v x h2)
   | None \<Rightarrow> \<not> (\<exists>x. (x = h1 \<or> is_ancestor v x h1) \<and> (x = h2 \<or> is_ancestor v x h2))"
proof -
  let ?R = "edges (parent_graph v)"
  have below: "(x = h \<or> is_ancestor v x h) \<longleftrightarrow> (h, x) \<in> ?R\<^sup>*" for x h
    by (auto simp: is_ancestor_def get_all_ancestors_reach rtrancl_eq_or_trancl)
  have stop: "x \<in> insert h1 (get_all_ancestors v h1) \<longleftrightarrow> (h1, x) \<in> ?R\<^sup>*" for x
    using below [of x h1] by (auto simp: is_ancestor_def)
  from bfs_find_spec [where g = "parent_graph v" and stop = "insert h1 (get_all_ancestors v h1)" and x = h2] show ?thesis
    unfolding find_lca_def below
    by (cases "bfs_find (parent_graph v) (insert h1 (get_all_ancestors v h1)) [h2] {}")
      (auto simp only: option.case stop disjoint_iff Image_singleton_iff)
qed

text \<open>
  C14. The returned common ancestor need not be the lowest: there is an acyclic store in which
  the block returned is a proper ancestor of another common ancestor.
\<close>

definition fork_block :: "u8 \<Rightarrow> u8 list \<Rightarrow> block" where
  "fork_block h ps = (sample_block (map (\<lambda>p. [p]) ps) 0)\<lparr>blk_hash := [h]\<rparr>"

definition fork_view :: block_view where
  "fork_view = map (\<lambda>b. (blk_hash b, b))
     [fork_block 1 [], fork_block 2 [1], fork_block 3 [2], fork_block 4 [1, 2]]"

lemma fork_graph: "parent_graph fork_view = [([1], []), ([2], [[1]]), ([3], [[2]]), ([4], [[1], [2]])]"
  by (simp add: parent_graph_def fork_view_def fork_block_def sample_block_def)

theorem find_lca_not_lowest:
  "\<exists>v h1 h2 x y. view_ok v \<and> parents_closed v \<and> find_lca v h1 h2 = Some x
     \<and> is_ancestor v x y \<and> is_ancestor v y h1 \<and> is_ancestor v y h2"
proof -
  have a: "get_all_ancestors fork_view [2] = {[1]}" "get_all_ancestors fork_view [3] = {[2], [1]}"
    "get_all_ancestors fork_view [4] = {[1], [2]}"
    unfolding get_all_ancestors_def fork_graph by (auto simp: bfs_mark.simps(2) hm_list_def)
  have f: "find_lca fork_view [3] [4] = Some [1]"
    unfolding find_lca_def a fork_graph by (simp add: bfs_find.simps(2) hm_list_def Let_def)
  have "view_ok fork_view" "parents_closed fork_view"
    by (simp_all add: view_ok_def parents_closed_def fork_view_def fork_block_def omap_inv_def
        sample_block_def)
  with a f show ?thesis
    by (intro exI [of _ fork_view] exI [of _ "[3]"] exI [of _ "[4]"] exI [of _ "[1]"]
        exI [of _ "[2]"]) (simp add: is_ancestor_def)
qed

text \<open>
  \<open>validate\<close> refuses every DAG with two or more tips: the genesis block is then always
  referenced, and the test never asks whether it is a tip.
\<close>

theorem validate_rejects_forks:
  assumes "dag_inv E d" and "1 < card (tips (dag_idx d))"
  shows "dag_validate E d = Inl GenesisMarkedTip"
proof -
  let ?v = "dag_store d"
  have i: "tips (dag_idx d) \<subseteq> fst ` set ?v"
    using dag_invD(3) [OF assms(1)] by (auto simp: index_ok_def)
  obtain x y where xy: "x \<in> tips (dag_idx d)" "y \<in> tips (dag_idx d)" "x \<noteq> y"
    using assms(2) card_le_Suc0_iff_eq [of "tips (dag_idx d)"] finite_subset [OF i] by fastforce
  obtain r where r: "r \<in> snd ` set ?v" "parents r = []"
      "blk_hash r = x \<or> (\<exists>c \<in> snd ` set ?v. blk_hash r \<in> set (parents c))"
    using root_below [OF assms(1) subsetD [OF i xy(1)]] by blast
  obtain r' where r': "r' \<in> snd ` set ?v" "parents r' = []"
      "blk_hash r' = y \<or> (\<exists>c \<in> snd ` set ?v. blk_hash r' \<in> set (parents c))"
    using root_below [OF assms(1) subsetD [OF i xy(2)]] by blast
  have "r = r'"
    by (rule dag_invD(9) [OF assms(1) r(1) r'(1) r(2) r'(2)])
  with r(3) r'(3) xy(3) have "\<exists>c \<in> snd ` set ?v. blk_hash r \<in> set (parents c)"
    by blast
  with r(1,2) assms(2) have bad: "\<exists>b \<in> set (map snd ?v). parents b = [] \<and> 1 < card (tips (dag_idx d))
      \<and> (\<exists>b' \<in> set (map snd ?v). blk_hash b \<in> set (parents b'))"
    unfolding set_map by blast
  have A: "first_mismatch E (map snd ?v) = Inr ()"
    by (rule first_mismatch_ok) (use dag_invD(5) [OF assms(1)] in \<open>simp only: set_map\<close>)
  have B: "first_dangling d (map snd ?v) = None"
    by (rule first_dangling_ok)
      (use dag_invD(2) [OF assms(1)] in \<open>simp only: set_map parents_closed_def\<close>)
  have C: "length (map fst ?v) = card (set (map fst ?v))" and D: "map snd ?v \<noteq> []"
    using bd.distinct_nodes [OF assms(1)] distinct_card [of "map fst ?v"] r(1) by auto
  show ?thesis
    unfolding dag_validate_def Let_def A B sum.case option.case
    by (simp only: C D bad simp_thms if_True if_False)
qed

theorem validate_rejects_forks_witness: "dag_validate sample_env sample_dag3 = Inl GenesisMarkedTip"
proof (rule validate_rejects_forks [OF dag_reachable_inv [OF sample_dag3_reachable]])
  show "1 < card (tips (dag_idx sample_dag3))"
    using sample_keys_distinct(3) by (simp add: sample_dag3_tips del: replicate.simps)
qed

text \<open>
  Insertion stores a block under the hash of its annotated form, so a block as its
  producer built it (blue score 0) is not found under the hash it was submitted with.
\<close>

theorem submitted_hash_not_stored:
  assumes "dag_inv E d" and "block_wf b" and "hd_blue_score (header b) = 0"
    and "sha_collision_free (sha256 E) {block_preimage E b, block_preimage E (annotate E d b)}"
    and "Suc (length (dag_store d)) < 2 ^ 64"
    and "insert_block E now w b d = Inr d'"
  shows "blk_hash b \<noteq> blk_hash (annotate E d b) \<and> dag_get_block d' (blk_hash b) = None"
  using assms(6)
proof (rule insert_blockE)
  let ?a = "annotate E d b" and ?v = "dag_store d"
  assume val: "validate_basic E now b = Inr ()" and out: "blk_hash b \<notin> fst ` set ?v"
    and ps: "set (parents b) \<subseteq> fst ` set ?v"
    and d': "d' = \<lparr>dag_store = view_put ?a ?v, dag_idx = update_tips_after_insert ?a (dag_idx d)\<rparr>"
  have hb: "blk_hash b = calculate_hash E b"
    using val by (auto simp: validate_basic_def split: if_splits)
  have "unat (hd_blue_score (header ?a)) \<noteq> 0"
    using annotate_meta [OF assms(1) ps assms(5)] by (simp add: meta_ok_def)
  then have sc: "hd_blue_score (header ?a) \<noteq> hd_blue_score (header b)"
    using assms(3) by auto
  have same: "transactions ?a = transactions b" "parents ?a = parents b" "producer ?a = producer b"
    "hd_timestamp (header ?a) = hd_timestamp (header b)" "hd_nonce (header ?a) = hd_nonce (header b)"
    "hd_difficulty (header ?a) = hd_difficulty (header b)"
    "hd_base_fee (header ?a) = hd_base_fee (header b)"
    "hd_state_root (header ?a) = hd_state_root (header b)"
    "hd_version (header ?a) = hd_version (header b)"
    by (simp_all add: annotate_def case_prod_beta set_consensus_metadata_def Let_def)
  have "block_preimage E ?a \<noteq> block_preimage E b"
    using sc unfolding block_preimage_def header_tail_def same by simp
  then have "calculate_hash E b \<noteq> calculate_hash E ?a"
    using assms(4) by (auto simp: sha_collision_free_def calculate_hash_def)
  then have "blk_hash b \<noteq> blk_hash ?a"
    using hb by simp
  moreover from this out have "dag_get_block d' (blk_hash b) = None"
    unfolding d' by (simp add: dag_get_block_def view_put_def map_of_omap_insert hm_key_iff
        del: annotate_simps)
  ultimately show ?thesis
    by blast
qed

text \<open>A digest that adds the bytes up, to tell a block from its annotated form.\<close>

definition sum_env :: env where
  "sum_env = \<lparr>sha256 = (\<lambda>x. replicate 31 0 @ [sum_list x]), exp_f64 = (\<lambda>_. 1)\<rparr>"

theorem submitted_hash_not_stored_witness:
  "let b = block_new sum_env [] 1000 [] 0 0 1 (replicate 20 9) (replicate 32 0);
       d = block_dag_new []
   in insert_block sum_env 1000 None b d =
        Inr \<lparr>dag_store = view_put (annotate sum_env d b) [],
             dag_idx = update_tips_after_insert (annotate sum_env d b) dag_index_new\<rparr>
      \<and> blk_hash b \<noteq> blk_hash (annotate sum_env d b)"
proof -
  let ?b = "block_new sum_env [] 1000 [] 0 0 1 (replicate 20 9) (replicate 32 0)"
  let ?d = "block_dag_new []"
  have v: "validate_basic sum_env 1000 ?b = Inr ()"
    by (simp add: validate_basic_def block_new_hash sum_env_def)
  have i: "insert_block sum_env 1000 None ?b ?d =
      Inr \<lparr>dag_store = view_put (annotate sum_env ?d ?b) [],
           dag_idx = update_tips_after_insert (annotate sum_env ?d ?b) dag_index_new\<rparr>"
    by (simp add: insert_block_def v block_exists_def block_dag_new_def dag_block_count_def Let_def)
  have s: "sum_list (block_preimage sum_env (annotate sum_env ?d ?b)) =
      sum_list (block_preimage sum_env ?b) + 1"
    by (simp add: block_preimage_def header_tail_def block_dag_new_def dag_block_count_def
        select_chain_def compute_blue_score_def annotate_def set_consensus_metadata_def
        block_new_def Let_def le_bytes_def upt_rec)
  have w: "block_wf ?b" "hd_blue_score (header ?b) = 0" "Suc (length (dag_store ?d)) < 2 ^ 64"
    by (simp_all add: block_wf_def block_dag_new_def block_new_def Let_def)
  have "sha_collision_free (sha256 sum_env)
      {block_preimage sum_env ?b, block_preimage sum_env (annotate sum_env ?d ?b)}"
    using s by (auto simp: sha_collision_free_def sum_env_def inj_on_def)
  from submitted_hash_not_stored [OF dag_inv_new w(1,2) this w(3) i] show ?thesis
    using i by (simp only: Let_def simp_thms)
qed

end
