(* ===== verification/Ghostdag.thy ===== *)
theory Ghostdag
  imports Block_Dag
begin

text \<open>
  The GHOSTDAG consensus layer: traversal (\<^verbatim>\<open>src/src/consensus/dag_traversal.rs\<close>), blue sets
  (\<^verbatim>\<open>src/src/consensus/blue_set.rs\<close>) and the ordering engine
  (\<^verbatim>\<open>src/src/consensus/ghostdag.rs\<close>).

  The engine's blue-score cache is part of its state; \<open>gd_inv\<close> says that cached scores are
  the scores of the attached DAG. Where the code takes the topological order of the whole DAG,
  \<open>None\<close> (in the engine: \<open>CountUnderflow\<close>) stands for a counter underflow in the sort, which
  does not occur on a DAG that satisfies \<open>dag_inv\<close>.
\<close>

section \<open>Traversal\<close>

definition trav_ancestors :: "block_dag \<Rightarrow> block_hash \<Rightarrow> block_hash set" where
  "trav_ancestors d h = bfs_trav (parent_graph (dag_store d)) h [h] {} {}"

definition trav_descendants :: "block_dag \<Rightarrow> block_hash \<Rightarrow> block_hash set" where
  "trav_descendants d h = bfs_trav (parent_to_children (dag_idx d)) h [h] {} {}"

definition trav_parents :: "block_dag \<Rightarrow> block_hash \<Rightarrow> block_hash list" where
  "trav_parents d h = (case dag_get_block d h of None \<Rightarrow> [] | Some b \<Rightarrow> parents b)"

definition get_anticone :: "block_dag \<Rightarrow> block_hash \<Rightarrow> block_hash \<Rightarrow> block_hash set" where
  "get_anticone d h ref =
     (let reachable = insert ref (trav_ancestors d ref)
      in Set.filter (\<lambda>a. a \<notin> reachable) (trav_ancestors d h))"

definition trav_all_blocks :: "block_dag \<Rightarrow> block_hash list option" where
  "trav_all_blocks d = get_topological_order (dag_idx d) (dag_store d)"

definition get_blocks_at_depth :: "block_dag \<Rightarrow> nat \<Rightarrow> block_hash list option" where
  "get_blocks_at_depth d n =
     map_option (filter (\<lambda>h. get_block_depth (dag_store d) h = Some n)) (trav_all_blocks d)"

definition get_common_ancestors :: "block_dag \<Rightarrow> block_hash list \<Rightarrow> block_hash set" where
  "get_common_ancestors d hs =
     (case hs of
        [] \<Rightarrow> {}
      | h # rest \<Rightarrow>
          fold (\<lambda>x common. common \<inter> insert x (trav_ancestors d x)) rest
            (insert h (trav_ancestors d h)))"

section \<open>Blue sets\<close>

definition build_blue_set :: "nat \<Rightarrow> block_dag \<Rightarrow> block_hash \<Rightarrow> block_hash set option" where
  "build_blue_set k d ref =
     map_option
       (\<lambda>all. fold (\<lambda>h blue.
          if h = ref then blue
          else if card (get_anticone d h ref) \<le> k then insert h blue else blue) all {ref})
       (trav_all_blocks d)"

definition build_red_set :: "nat \<Rightarrow> block_dag \<Rightarrow> block_hash \<Rightarrow> block_hash set option" where
  "build_red_set k d ref =
     (case (build_blue_set k d ref, trav_all_blocks d) of
        (Some blue, Some all) \<Rightarrow> Some (set all - blue)
      | _ \<Rightarrow> None)"

definition is_blue :: "nat \<Rightarrow> block_dag \<Rightarrow> block_hash \<Rightarrow> block_hash \<Rightarrow> bool" where
  "is_blue k d h ref =
     (if h \<noteq> ref \<and> \<not> is_ancestor (dag_store d) h ref then False
      else card (get_anticone d h ref) \<le> k)"

definition are_all_ancestors_blue ::
  "nat \<Rightarrow> block_dag \<Rightarrow> block_hash \<Rightarrow> block_hash \<Rightarrow> bool option" where
  "are_all_ancestors_blue k d h ref =
     map_option (\<lambda>blue. trav_ancestors d h \<subseteq> blue) (build_blue_set k d ref)"

definition get_blue_blocks :: "nat \<Rightarrow> block_dag \<Rightarrow> block_hash \<Rightarrow> block_hash list option" where
  "get_blue_blocks k d ref = map_option sorted_list_of_set (build_blue_set k d ref)"

definition get_red_blocks :: "nat \<Rightarrow> block_dag \<Rightarrow> block_hash \<Rightarrow> block_hash list option" where
  "get_red_blocks k d ref = map_option sorted_list_of_set (build_red_set k d ref)"

section \<open>The engine\<close>

datatype ghost_error =
    DagNotAttached | NoParentCandidates | NoParents | CountUnderflow
  | BlockNotFound block_hash | DuplicateInOrdering block_hash nat
  | ParentNotInOrdering block_hash block_hash | ParentAfterChild block_hash block_hash
  | WrongCount nat nat

record ghostdag =
  gd_k :: nat
  gd_dag :: "block_dag option"
  blue_score_cache :: "(block_hash \<times> u64) list"

definition ghostdag_new :: "nat \<Rightarrow> ghostdag" where
  "ghostdag_new k = \<lparr>gd_k = k, gd_dag = None, blue_score_cache = []\<rparr>"

definition clear_cache :: "ghostdag \<Rightarrow> ghostdag" where
  "clear_cache e = e\<lparr>blue_score_cache := []\<rparr>"

definition attach_dag :: "block_dag \<Rightarrow> ghostdag \<Rightarrow> ghostdag" where
  "attach_dag d e = clear_cache (e\<lparr>gd_dag := Some d\<rparr>)"

text \<open>
  The counting loops of \<open>calculate_blue_score\<close>: the block itself, then its ancestors in
  whatever order the set is enumerated.
\<close>

definition count_blue :: "nat \<Rightarrow> block_dag \<Rightarrow> block_hash \<Rightarrow> u64" where
  "count_blue k d h =
     (if card (get_anticone d h h) \<le> k then 1 else 0) +
     of_nat (card (Set.filter (\<lambda>a. card (get_anticone d a h) \<le> k) (trav_ancestors d h)))"

definition calculate_blue_score_immutable :: "ghostdag \<Rightarrow> block_dag \<Rightarrow> block_hash \<Rightarrow> u64" where
  "calculate_blue_score_immutable e d h =
     (case map_of (blue_score_cache e) h of
        Some s \<Rightarrow> s
      | None \<Rightarrow> count_blue (gd_k e) d h)"

definition calculate_blue_score ::
  "block_hash \<Rightarrow> ghostdag \<Rightarrow> (ghost_error + u64) \<times> ghostdag" where
  "calculate_blue_score h e =
     (case gd_dag e of
        None \<Rightarrow> (Inl DagNotAttached, e)
      | Some d \<Rightarrow>
          (case map_of (blue_score_cache e) h of
             Some s \<Rightarrow> (Inr s, e)
           | None \<Rightarrow>
               let s = count_blue (gd_k e) d h
               in (Inr s, e\<lparr>blue_score_cache := AList.update h s (blue_score_cache e)\<rparr>)))"

definition get_blue_score ::
  "block_hash \<Rightarrow> ghostdag \<Rightarrow> (ghost_error + u64) \<times> ghostdag" where
  "get_blue_score h e =
     (case map_of (blue_score_cache e) h of
        Some s \<Rightarrow> (Inr s, e)
      | None \<Rightarrow> calculate_blue_score h e)"

text \<open>\<open>get_blue_score(..).unwrap_or(0)\<close>\<close>

definition score_or_0 :: "block_hash \<Rightarrow> ghostdag \<Rightarrow> u64 \<times> ghostdag" where
  "score_or_0 h e =
     (case get_blue_score h e of (Inl _, e') \<Rightarrow> (0, e') | (Inr s, e') \<Rightarrow> (s, e'))"

fun select_loop :: "block_hash list \<Rightarrow> block_hash \<Rightarrow> u64 \<Rightarrow> ghostdag \<Rightarrow> block_hash \<times> ghostdag" where
  "select_loop [] best best_score e = (best, e)"
| "select_loop (p # ps) best best_score e =
     (let (s, e') = score_or_0 p e
      in if s > best_score \<or> s = best_score \<and> p < best then select_loop ps p s e'
         else select_loop ps best best_score e')"

definition select_parent_from_parents ::
  "block_hash list \<Rightarrow> ghostdag \<Rightarrow> (ghost_error + block_hash) \<times> ghostdag" where
  "select_parent_from_parents ps e =
     (case ps of
        [] \<Rightarrow> (Inl NoParentCandidates, e)
      | p # rest \<Rightarrow>
          let (s, e1) = score_or_0 p e; (best, e2) = select_loop rest p s e1 in (Inr best, e2))"

fun max_score_loop :: "block_hash list \<Rightarrow> u64 \<Rightarrow> ghostdag \<Rightarrow> u64 \<times> ghostdag" where
  "max_score_loop [] m e = (m, e)"
| "max_score_loop (p # ps) m e =
     (let (s, e') = score_or_0 p e in max_score_loop ps (max m s) e')"

definition calculate_blue_score_for_new_block :: "block \<Rightarrow> ghostdag \<Rightarrow> u64 \<times> ghostdag" where
  "calculate_blue_score_for_new_block b e =
     (let (m, e') = max_score_loop (parents b) 0 e in (sat_add m 1, e'))"

definition annotate_block :: "env \<Rightarrow> block_dag \<Rightarrow> block \<Rightarrow> ghostdag \<Rightarrow> (ghost_error + block) \<times> ghostdag" where
  "annotate_block E d b e =
     (let (sel, e1) =
        (if parents b = [] then (Inr None, e)
         else case select_parent_from_parents (parents b) e of
           (Inl er, e') \<Rightarrow> (Inl er, e')
         | (Inr p, e') \<Rightarrow> (Inr (Some p), e'))
      in case sel of
           Inl er \<Rightarrow> (Inl er, e1)
         | Inr selected \<Rightarrow>
             let chain_height = (case selected of
                   None \<Rightarrow> 0
                 | Some p \<Rightarrow> sat_add (case get_block_height d p of None \<Rightarrow> 0 | Some x \<Rightarrow> x) 1);
                 (score, e2) = calculate_blue_score_for_new_block b e1
             in (Inr (set_consensus_metadata E selected score chain_height
                   (of_nat (dag_block_count d)) b), e2))"

text \<open>Descending score, then ascending hash.\<close>

definition score_key :: "block_hash \<times> u64 \<Rightarrow> int \<times> block_hash" where
  "score_key x = (- uint (snd x), fst x)"

fun score_all :: "block_hash list \<Rightarrow> ghostdag \<Rightarrow> (ghost_error + (block_hash \<times> u64) list) \<times> ghostdag" where
  "score_all [] e = (Inr [], e)"
| "score_all (p # ps) e =
     (case calculate_blue_score p e of
        (Inl er, e') \<Rightarrow> (Inl er, e')
      | (Inr s, e') \<Rightarrow>
          (case score_all ps e' of
             (Inl er, e'') \<Rightarrow> (Inl er, e'')
           | (Inr xs, e'') \<Rightarrow> (Inr ((p, s) # xs), e'')))"

definition select_parent :: "block_hash \<Rightarrow> ghostdag \<Rightarrow> (ghost_error + block_hash) \<times> ghostdag" where
  "select_parent h e =
     (case gd_dag e of
        None \<Rightarrow> (Inl DagNotAttached, e)
      | Some d \<Rightarrow>
          let ps = trav_parents d h in
          if ps = [] then (Inl NoParents, e)
          else if length ps = 1 then (Inr (hd ps), e)
          else case score_all ps e of
            (Inl er, e') \<Rightarrow> (Inl er, e')
          | (Inr scored, e') \<Rightarrow> (Inr (fst (hd (sort_key score_key scored))), e'))"

text \<open>
  The rounds of \<open>generate_ordering\<close>. The set \<open>processed\<close> of the code is always the set of
  the elements of \<open>ordered\<close>.
\<close>

definition next_round ::
  "block_dag \<Rightarrow> (block_hash \<Rightarrow> u64) \<Rightarrow> block_hash list \<Rightarrow> block_hash list \<Rightarrow> block_hash list" where
  "next_round d score all ordered =
     (let next_blocks = filter (\<lambda>h. h \<notin> set ordered
            \<and> (\<forall>p \<in> set (trav_parents d h). p \<in> set ordered)) all
      in map fst (sort_key score_key (map (\<lambda>h. (h, score h)) next_blocks)))"

function ordering_loop ::
  "block_dag \<Rightarrow> (block_hash \<Rightarrow> u64) \<Rightarrow> block_hash list \<Rightarrow> block_hash list \<Rightarrow> block_hash list" where
  "ordering_loop d score all ordered =
     (if card (set ordered) < length all
      then let next = next_round d score all ordered
           in if next = [] then ordered else ordering_loop d score all (ordered @ next)
      else ordered)"
  by pat_completeness auto
termination
proof (relation "measure (\<lambda>(d, score, all, ordered). length all - card (set ordered))", goal_cases)
  case (2 d score all ordered nxt)
  have "set nxt \<inter> set ordered = {}"
    using 2(2) by (auto simp: next_round_def)
  moreover have "card (set nxt) \<noteq> 0"
    using 2(3) by (simp add: card_gt_0_iff)
  ultimately have "card (set ordered) < card (set (ordered @ nxt))"
    by (simp add: card_Un_disjoint Int_commute card_gt_0_iff)
  with 2(1) show ?case
    by simp
qed simp

declare ordering_loop.simps [simp del]

definition generate_ordering :: "ghostdag \<Rightarrow> ghost_error + block_hash list" where
  "generate_ordering e =
     (case gd_dag e of
        None \<Rightarrow> Inl DagNotAttached
      | Some d \<Rightarrow>
          (case trav_all_blocks d of
             None \<Rightarrow> Inl CountUnderflow
           | Some all \<Rightarrow>
               let score = calculate_blue_score_immutable e d;
                   genesis_blocks = sort (filter (\<lambda>h. case dag_get_block d h of
                       None \<Rightarrow> False | Some b \<Rightarrow> parents b = []) all)
               in if all = [] then Inr []
                  else Inr (ordering_loop d score all genesis_blocks)))"

definition position :: "'a \<Rightarrow> 'a list \<Rightarrow> nat option" where
  "position x xs = (if x \<in> set xs then Some (length (takeWhile (\<lambda>y. y \<noteq> x) xs)) else None)"

fun check_parents :: "block_hash list \<Rightarrow> nat \<Rightarrow> block_hash \<Rightarrow> block_hash list \<Rightarrow> ghost_error option" where
  "check_parents ordered i h [] = None"
| "check_parents ordered i h (p # ps) =
     (case position p ordered of
        None \<Rightarrow> Some (ParentNotInOrdering p h)
      | Some j \<Rightarrow> if j \<ge> i then Some (ParentAfterChild p h) else check_parents ordered i h ps)"

fun check_ordering ::
  "block_dag \<Rightarrow> block_hash list \<Rightarrow> nat \<Rightarrow> block_hash set \<Rightarrow> block_hash list
    \<Rightarrow> ghost_error + block_hash set" where
  "check_ordering d ordered i seen [] = Inr seen"
| "check_ordering d ordered i seen (h # hs) =
     (if dag_get_block d h = None then Inl (BlockNotFound h)
      else if h \<in> seen then Inl (DuplicateInOrdering h i)
      else case check_parents ordered i h (trav_parents d h) of
        Some er \<Rightarrow> Inl er
      | None \<Rightarrow> check_ordering d ordered (i + 1) (insert h seen) hs)"

definition validate_ordering :: "ghostdag \<Rightarrow> block_hash list \<Rightarrow> ghost_error + unit" where
  "validate_ordering e ordered =
     (case gd_dag e of
        None \<Rightarrow> Inl DagNotAttached
      | Some d \<Rightarrow>
          (case check_ordering d ordered 0 {} ordered of
             Inl er \<Rightarrow> Inl er
           | Inr seen \<Rightarrow>
               if card seen \<noteq> dag_block_count d
               then Inl (WrongCount (card seen) (dag_block_count d)) else Inr ()))"

definition get_all_blue_scores :: "ghostdag \<Rightarrow> ghost_error + (block_hash \<times> u64) list" where
  "get_all_blue_scores e =
     (case gd_dag e of
        None \<Rightarrow> Inl DagNotAttached
      | Some d \<Rightarrow>
          (case trav_all_blocks d of
             None \<Rightarrow> Inl CountUnderflow
           | Some all \<Rightarrow> Inr (map (\<lambda>h. (h, calculate_blue_score_immutable e d h)) all)))"

section \<open>Lemmas\<close>

lemma trav_ancestors_reach:
  "insert h (trav_ancestors d h) = (edges (parent_graph (dag_store d)))\<^sup>* `` {h}"
  by (auto simp: trav_ancestors_def bfs_trav_reach)

lemma trav_ancestors_all:
  "dag_inv E d \<Longrightarrow> trav_ancestors d h = get_all_ancestors (dag_store d) h"
  using parent_relation_acyclic [of E d]
  by (auto simp: trav_ancestors_def bfs_trav_reach get_all_ancestors_reach edges_parent_graph_set
      acyclic_def rtrancl_eq_or_trancl)

lemma trav_ancestors_store:
  "dag_store d = dag_store d' \<Longrightarrow> trav_ancestors d h = trav_ancestors d' h"
  by (simp add: trav_ancestors_def)

lemma anticone_empty:
  assumes "a \<in> insert h (trav_ancestors d h)"
  shows "get_anticone d a h = {}"
proof -
  let ?R = "edges (parent_graph (dag_store d))"
  have "(h, a) \<in> ?R\<^sup>*"
    using assms unfolding trav_ancestors_reach by simp
  then have "?R\<^sup>* `` {a} \<subseteq> ?R\<^sup>* `` {h}"
    by (auto intro: rtrancl_trans)
  then have "trav_ancestors d a \<subseteq> insert h (trav_ancestors d h)"
    unfolding trav_ancestors_reach using trav_ancestors_reach [of a d] by blast
  then show ?thesis
    by (auto simp: get_anticone_def Let_def)
qed

lemma count_blue_eq: "count_blue k d h = of_nat (Suc (card (trav_ancestors d h)))"
proof -
  have "Set.filter (\<lambda>a. card (get_anticone d a h) \<le> k) (trav_ancestors d h) = trav_ancestors d h"
    using anticone_empty [of _ h d] by auto
  moreover have "get_anticone d h h = {}"
    by (rule anticone_empty) simp
  ultimately show ?thesis
    by (simp add: count_blue_def)
qed

lemma trav_parents_eq: "trav_parents d h = parents_of (dag_store d) h"
  by (simp add: trav_parents_def parents_of_eq dag_get_block_def)

text \<open>Sorting by score and hash is insensitive to the order of its input.\<close>

lemma mset_next_round:
  "mset (next_round d score all ordered) =
     mset (filter (\<lambda>h. h \<notin> set ordered \<and> (\<forall>p \<in> set (trav_parents d h). p \<in> set ordered)) all)"
proof -
  have "mset (map fst (sort_key score_key (map (\<lambda>h. (h, score h)) xs))) = mset xs" for xs
    by (simp only: mset_map mset_sort) (simp add: multiset.map_comp comp_def)
  then show ?thesis
    unfolding next_round_def Let_def .
qed

lemma set_next_round:
  "set (next_round d score all ordered) =
     {h \<in> set all. h \<notin> set ordered \<and> set (trav_parents d h) \<subseteq> set ordered}"
  using arg_cong [OF mset_next_round, of set_mset d score all ordered] by auto

lemma distinct_next_round: "distinct all \<Longrightarrow> distinct (next_round d score all ordered)"
  by (simp add: mset_eq_imp_distinct_iff [OF mset_next_round])

lemma sort_score_mset:
  assumes "mset xs = mset ys"
  shows "sort_key score_key xs = sort_key score_key ys"
proof (rule sort_key_inj_key_eq)
  show "mset xs = mset (sort_key score_key ys)"
    using assms by simp
  show "inj_on score_key (set xs)"
    by (auto simp: inj_on_def score_key_def) (metis word_of_int_uint)
  show "sorted (map score_key (sort_key score_key ys))"
    by simp
qed

lemma next_round_cong:
  assumes "mset all = mset all'" and "dag_store d = dag_store d'"
  shows "next_round d score all ordered = next_round d' score all' ordered"
proof -
  have "trav_parents d = trav_parents d'"
    using assms(2) by (auto simp: trav_parents_eq)
  with assms(1) show ?thesis
    by (auto simp: next_round_def intro!: arg_cong [of _ _ "map fst"] sort_score_mset)
qed

lemma ordering_loop_cong:
  assumes "mset all = mset all'" and "dag_store d = dag_store d'"
  shows "ordering_loop d score all ordered = ordering_loop d' score all' ordered"
  using assms
proof (induction d score all ordered rule: ordering_loop.induct)
  case (1 d score all ordered)
  have l: "length all = length all'"
    using "1.prems"(1) by (rule mset_eq_length)
  have n: "next_round d score all ordered = next_round d' score all' ordered"
    by (rule next_round_cong [OF "1.prems"])
  show ?case
  proof (cases "card (set ordered) < length all \<and> next_round d score all ordered \<noteq> []")
    case True
    from "1.IH" [OF conjunct1 [OF True] refl conjunct2 [OF True] "1.prems"] have
      "ordering_loop d score all (ordered @ next_round d score all ordered) =
       ordering_loop d' score all' (ordered @ next_round d' score all' ordered)"
      by (simp only: n)
    with True l n show ?thesis
      by (simp add: ordering_loop.simps [of d] ordering_loop.simps [of d'] Let_def)
  next
    case False
    with l n show ?thesis
      by (auto simp: ordering_loop.simps [of d] ordering_loop.simps [of d'] Let_def)
  qed
qed

text \<open>The rounds of the ordering.\<close>

definition parents_first :: "block_view \<Rightarrow> block_hash list \<Rightarrow> bool" where
  "parents_first v xs \<longleftrightarrow> (\<forall>i < length xs. set (parents_of v (xs ! i)) \<subseteq> set (take i xs))"

lemma parents_first_append:
  assumes "parents_first v xs" and "\<And>y. y \<in> set ys \<Longrightarrow> set (parents_of v y) \<subseteq> set xs"
  shows "parents_first v (xs @ ys)"
  unfolding parents_first_def
proof (intro allI impI)
  fix i
  assume i: "i < length (xs @ ys)"
  show "set (parents_of v ((xs @ ys) ! i)) \<subseteq> set (take i (xs @ ys))"
  proof (cases "i < length xs")
    case True
    with assms(1) show ?thesis
      by (simp add: parents_first_def nth_append)
  next
    case False
    with i have "ys ! (i - length xs) \<in> set ys"
      by (intro nth_mem) auto
    from assms(2) [OF this] False show ?thesis
      by (auto simp: nth_append)
  qed
qed

lemma next_round_progress:
  assumes "dag_inv E d" and "set all = fst ` set (dag_store d)" and "\<not> set all \<subseteq> set ordered"
  shows "next_round d score all ordered \<noteq> []"
proof -
  obtain z where z: "z \<in> set all - set ordered"
    using assms(3) by blast
  obtain h where h: "h \<in> set all - set ordered"
    and m: "\<And>p. (p, h) \<in> {(y, x). x \<in> set (parents_of (dag_store d) y)}\<inverse> \<Longrightarrow> p \<notin> set all - set ordered"
    using wfE_min [OF bd.wf_up [OF assms(1)] z] by blast
  have "p \<in> set ordered" if "p \<in> set (parents_of (dag_store d) h)" for p
    using m [of p] that parents_closedD [OF dag_invD(2) [OF assms(1)] that] assms(2) by auto
  then have "h \<in> set (next_round d score all ordered)"
    using h by (auto simp: set_next_round trav_parents_eq)
  then show ?thesis
    by auto
qed

lemma ordering_loop_spec:
  assumes "dag_inv E d" and "distinct all" and "set all = fst ` set (dag_store d)"
    and "distinct ordered" and "set ordered \<subseteq> set all" and "parents_first (dag_store d) ordered"
  shows "distinct (ordering_loop d score all ordered)
    \<and> set (ordering_loop d score all ordered) = set all
    \<and> parents_first (dag_store d) (ordering_loop d score all ordered)"
  using assms
proof (induction d score all ordered rule: ordering_loop.induct)
  case (1 d score all ordered)
  let ?n = "next_round d score all ordered"
  have all: "length all = card (set all)"
    using "1.prems"(2) by (simp add: distinct_card)
  show ?case
  proof (cases "card (set ordered) < length all")
    case True
    then have "\<not> set all \<subseteq> set ordered"
      using card_mono [of "set ordered" "set all"] all by auto
    then have n: "?n \<noteq> []"
      by (rule next_round_progress [OF "1.prems"(1,3)])
    have "distinct (ordered @ ?n)" "set (ordered @ ?n) \<subseteq> set all"
      using "1.prems"(4,5) distinct_next_round [OF "1.prems"(2)] by (auto simp: set_next_round)
    moreover have "parents_first (dag_store d) (ordered @ ?n)"
      by (rule parents_first_append [OF "1.prems"(6)]) (simp add: set_next_round trav_parents_eq)
    ultimately have "distinct (ordering_loop d score all (ordered @ ?n))
      \<and> set (ordering_loop d score all (ordered @ ?n)) = set all
      \<and> parents_first (dag_store d) (ordering_loop d score all (ordered @ ?n))"
      by (rule "1.IH" [OF True refl n "1.prems"(1-3)])
    with True n show ?thesis
      by (simp add: ordering_loop.simps [of d score all ordered] Let_def)
  next
    case False
    then have "set ordered = set all"
      using card_seteq [OF _ "1.prems"(5)] all by simp
    with False "1.prems" show ?thesis
      by (simp add: ordering_loop.simps [of d score all ordered])
  qed
qed

text \<open>The validator.\<close>

lemma position_less:
  "p \<in> set xs \<Longrightarrow> \<exists>j. position p xs = Some j \<and> (\<forall>i \<le> length xs. j < i \<longleftrightarrow> p \<in> set (take i xs))"
proof -
  assume p: "p \<in> set xs"
  have "length (takeWhile (\<lambda>y. y \<noteq> p) xs) < i \<longleftrightarrow> p \<in> set (take i xs)" if "i \<le> length xs" for i
    using p that
  proof (induction xs arbitrary: i)
    case (Cons x xs)
    then show ?case
      by (cases i) auto
  qed simp
  with p show ?thesis
    by (auto simp: position_def)
qed

lemma check_parents_iff:
  assumes "i \<le> length xs"
  shows "check_parents xs i h ps = None \<longleftrightarrow> set ps \<subseteq> set (take i xs)"
proof (induction ps)
  case (Cons p ps)
  show ?case
  proof (cases "p \<in> set xs")
    case True
    from position_less [OF True] assms Cons show ?thesis
      by (auto simp: not_less)
  next
    case False
    then have "p \<notin> set (take i xs)"
      by (meson in_set_takeD)
    with False show ?thesis
      by (simp add: position_def)
  qed
qed simp

lemma range_split:
  assumes "(a :: nat) < n"
  shows "(\<forall>j. a \<le> j \<and> j < n \<longrightarrow> P j) \<longleftrightarrow> P a \<and> (\<forall>j. Suc a \<le> j \<and> j < n \<longrightarrow> P j)"
proof
  assume r: "P a \<and> (\<forall>j. Suc a \<le> j \<and> j < n \<longrightarrow> P j)"
  show "\<forall>j. a \<le> j \<and> j < n \<longrightarrow> P j"
  proof (intro allI impI)
    fix j
    assume "a \<le> j \<and> j < n"
    with r show "P j"
      by (cases "j = a") auto
  qed
qed (use assms in auto)

lemma check_ordering_iff:
  assumes "xs = pre @ hs" and "distinct pre"
  shows "check_ordering d xs (length pre) (set pre) hs = Inr seen \<longleftrightarrow>
    distinct xs \<and> set hs \<subseteq> fst ` set (dag_store d) \<and> seen = set xs
    \<and> (\<forall>j. length pre \<le> j \<and> j < length xs \<longrightarrow> set (parents_of (dag_store d) (xs ! j)) \<subseteq> set (take j xs))"
  using assms
proof (induction hs arbitrary: pre)
  case Nil
  then show ?case
    by auto
next
  case (Cons h hs)
  let ?v = "dag_store d"
  have xs: "xs ! length pre = h" "length pre < length xs" "take (length pre) xs = pre"
    using Cons.prems(1) by simp_all
  have key: "dag_get_block d h \<noteq> None \<longleftrightarrow> h \<in> fst ` set ?v"
    by (simp add: dag_get_block_def hm_key_iff)
  have ps: "check_parents xs (length pre) h (trav_parents d h) = None \<longleftrightarrow>
      set (parents_of ?v h) \<subseteq> set pre"
    using check_parents_iff [of "length pre" xs] xs(2,3) by (simp add: trav_parents_eq)
  note range = range_split [OF xs(2)]
  show ?case
  proof (cases "h \<in> fst ` set ?v \<and> h \<notin> set pre \<and> set (parents_of ?v h) \<subseteq> set pre")
    case True
    have IH: "check_ordering d xs (length (pre @ [h])) (set (pre @ [h])) hs = Inr seen \<longleftrightarrow>
        distinct xs \<and> set hs \<subseteq> fst ` set ?v \<and> seen = set xs \<and>
        (\<forall>j. length (pre @ [h]) \<le> j \<and> j < length xs \<longrightarrow>
           set (parents_of ?v (xs ! j)) \<subseteq> set (take j xs))"
      by (rule Cons.IH) (use Cons.prems True in auto)
    have "dag_get_block d h \<noteq> None" "check_parents xs (length pre) h (trav_parents d h) = None"
      using True key ps by simp_all
    then have "check_ordering d xs (length pre) (set pre) (h # hs) =
        check_ordering d xs (length (pre @ [h])) (set (pre @ [h])) hs"
      using True by auto
    with IH True show ?thesis
      unfolding range by (simp add: xs)
  next
    case False
    have "check_ordering d xs (length pre) (set pre) (h # hs) \<noteq> Inr seen"
      using False key ps by (cases "check_parents xs (length pre) h (trav_parents d h)") auto
    moreover have "\<not> (distinct xs \<and> h \<in> fst ` set ?v \<and> set (parents_of ?v h) \<subseteq> set pre)"
      using False Cons.prems(1) by auto
    ultimately show ?thesis
      unfolding range by (auto simp: xs)
  qed
qed

lemma validate_ordering_iff:
  assumes "gd_dag e = Some d" and "view_ok (dag_store d)"
  shows "validate_ordering e xs = Inr () \<longleftrightarrow>
    distinct xs \<and> set xs = fst ` set (dag_store d) \<and> parents_first (dag_store d) xs"
proof -
  let ?v = "dag_store d"
  have card: "card (fst ` set ?v) = dag_block_count d"
    using distinct_card [OF omap_inv_distinct, of ?v] assms(2) by (simp add: view_ok_def dag_block_count_def)
  have "validate_ordering e xs = Inr () \<longleftrightarrow>
      check_ordering d xs 0 {} xs = Inr (set xs) \<and> card (set xs) = dag_block_count d"
    using check_ordering_iff [of xs "[]" xs d] assms(1)
    by (auto simp: validate_ordering_def split: sum.splits if_splits)
  also have "\<dots> \<longleftrightarrow> distinct xs \<and> set xs = fst ` set ?v \<and> parents_first ?v xs"
    using check_ordering_iff [of xs "[]" xs d] card card_subset_eq [of "fst ` set ?v" "set xs"]
    by (auto simp: parents_first_def)
  finally show ?thesis .
qed

text \<open>The cached engine.\<close>

definition gd_inv :: "ghostdag \<Rightarrow> bool" where
  "gd_inv e \<longleftrightarrow> (\<forall>h s. map_of (blue_score_cache e) h = Some s \<longrightarrow>
     (\<exists>d. gd_dag e = Some d \<and> s = count_blue (gd_k e) d h))"

lemma get_blue_score_spec:
  assumes "gd_inv e" and "gd_dag e = Some d"
  shows "\<exists>e'. get_blue_score h e = (Inr (count_blue (gd_k e) d h), e') \<and> gd_inv e'
    \<and> gd_dag e' = Some d \<and> gd_k e' = gd_k e"
  using assms
  by (auto simp: get_blue_score_def calculate_blue_score_def gd_inv_def Let_def map_of_hm_update
      split: option.splits)

lemma score_or_0_spec:
  assumes "gd_inv e" and "gd_dag e = Some d"
  shows "\<exists>e'. score_or_0 h e = (count_blue (gd_k e) d h, e') \<and> gd_inv e'
    \<and> gd_dag e' = Some d \<and> gd_k e' = gd_k e"
  using get_blue_score_spec [OF assms, of h] by (auto simp: score_or_0_def)

lemma calculate_blue_score_spec:
  assumes "gd_inv e" and "gd_dag e = Some d"
  shows "\<exists>e'. calculate_blue_score h e = (Inr (count_blue (gd_k e) d h), e') \<and> gd_inv e'
    \<and> gd_dag e' = Some d \<and> gd_k e' = gd_k e"
  using assms
  by (auto simp: calculate_blue_score_def gd_inv_def Let_def map_of_hm_update split: option.splits)

text \<open>\<open>p\<close> is preferred to \<open>q\<close>: a higher score, or the same score and a smaller hash.\<close>

definition preferred :: "nat \<Rightarrow> block_dag \<Rightarrow> block_hash \<Rightarrow> block_hash \<Rightarrow> bool" where
  "preferred k d p q \<longleftrightarrow> score_key (p, count_blue k d p) \<le> score_key (q, count_blue k d q)"

lemma preferred_iff:
  "preferred k d p q \<longleftrightarrow> count_blue k d q < count_blue k d p
     \<or> count_blue k d q = count_blue k d p \<and> p \<le> q"
proof -
  have "uint x = uint y \<longleftrightarrow> x = y" for x y :: u64
    by (metis word_of_int_uint)
  then show ?thesis
    by (auto simp: preferred_def score_key_def less_eq_prod_def word_less_alt)
qed

lemma select_loop_spec:
  assumes "gd_inv e" and "gd_dag e = Some d" and "s = count_blue (gd_k e) d best"
  shows "\<exists>best' e'. select_loop ps best s e = (best', e') \<and> best' \<in> insert best (set ps)
    \<and> (\<forall>p \<in> insert best (set ps). preferred (gd_k e) d best' p) \<and> gd_inv e' \<and> gd_dag e' = Some d"
  using assms
proof (induction ps best s e rule: select_loop.induct)
  case (1 best s e)
  then show ?case
    by (simp add: preferred_def)
next
  case (2 p ps best s e)
  obtain e1 where e1: "score_or_0 p e = (count_blue (gd_k e) d p, e1)" "gd_inv e1"
    "gd_dag e1 = Some d" "gd_k e1 = gd_k e"
    using score_or_0_spec [OF "2.prems"(1,2), of p] by blast
  let ?better = "count_blue (gd_k e) d p > s \<or> count_blue (gd_k e) d p = s \<and> p < best"
  show ?case
  proof (cases ?better)
    case True
    from "2.IH"(1) [OF e1(1) [symmetric] refl True e1(2,3)] e1(4) obtain best' e' where
      r: "select_loop ps p (count_blue (gd_k e) d p) e1 = (best', e')" "best' \<in> insert p (set ps)"
      "\<forall>q \<in> insert p (set ps). preferred (gd_k e) d best' q" "gd_inv e'" "gd_dag e' = Some d"
      by auto
    moreover have "preferred (gd_k e) d p best"
      using True "2.prems"(3) by (auto simp: preferred_iff)
    then have "preferred (gd_k e) d best' best"
      using r(3) unfolding preferred_def by (meson insertI1 order_trans)
    ultimately show ?thesis
      using True e1(1) by auto
  next
    case False
    from "2.IH"(2) [OF e1(1) [symmetric] refl False e1(2,3)] e1(4) "2.prems"(3) obtain best' e' where
      r: "select_loop ps best s e1 = (best', e')" "best' \<in> insert best (set ps)"
      "\<forall>q \<in> insert best (set ps). preferred (gd_k e) d best' q" "gd_inv e'" "gd_dag e' = Some d"
      by auto
    moreover have "preferred (gd_k e) d best p"
      using False "2.prems"(3) by (auto simp: preferred_iff)
    then have "preferred (gd_k e) d best' p"
      using r(3) unfolding preferred_def by (meson insertI1 order_trans)
    ultimately show ?thesis
      using False e1(1) by auto
  qed
qed

section \<open>Properties\<close>

lemma generate_ordering_attached:
  assumes "gd_dag e = Some d" and "dag_inv E d"
  shows "\<exists>xs. generate_ordering e = Inr xs \<and> distinct xs \<and> set xs = fst ` set (dag_store d)
    \<and> parents_first (dag_store d) xs"
proof -
  let ?v = "dag_store d"
  obtain all where all: "trav_all_blocks d = Some all" "distinct all" "set all = fst ` set ?v"
    using topological_order_ex [OF assms(2)] unfolding trav_all_blocks_def by blast
  let ?g = "sort (filter (\<lambda>h. case dag_get_block d h of None \<Rightarrow> False | Some b \<Rightarrow> parents b = []) all)"
  have "parents_of ?v h = []" if "h \<in> set ?g" for h
    using that by (auto simp: parents_of_eq dag_get_block_def split: option.splits)
  then have "parents_first ?v ([] @ ?g)"
    by (intro parents_first_append) (simp_all add: parents_first_def)
  moreover have "distinct ?g" "set ?g \<subseteq> set all"
    using all(2) by auto
  ultimately have "distinct (ordering_loop d sc all ?g) \<and> set (ordering_loop d sc all ?g) = set all
      \<and> parents_first ?v (ordering_loop d sc all ?g)" for sc
    by (intro ordering_loop_spec [OF assms(2) all(2,3)]) simp_all
  with all assms(1) show ?thesis
    by (auto simp: generate_ordering_def Let_def parents_first_def)
qed

text \<open>
  C2. On an attached DAG that satisfies the invariant, \<open>generate_ordering\<close> terminates with an
  ordering that \<open>validate_ordering\<close> accepts, and \<open>validate_ordering\<close> accepts exactly the
  enumerations of all stored blocks in which every block comes after its parents.
\<close>

theorem generated_ordering_is_valid:
  assumes "gd_dag e = Some d" and "dag_inv E d"
  shows "(\<exists>xs. generate_ordering e = Inr xs \<and> validate_ordering e xs = Inr ())
    \<and> (\<forall>ys. validate_ordering e ys = Inr () \<longleftrightarrow>
        distinct ys \<and> set ys = fst ` set (dag_store d) \<and> parents_first (dag_store d) ys)"
  using generate_ordering_attached [OF assms] validate_ordering_iff [OF assms(1) dag_invD(1) [OF assms(2)]]
  by auto

theorem generated_ordering_is_valid_witness:
  "\<exists>xs. generate_ordering (attach_dag sample_dag3 (ghostdag_new 3)) = Inr xs
     \<and> validate_ordering (attach_dag sample_dag3 (ghostdag_new 3)) xs = Inr ()"
  using generated_ordering_is_valid [of "attach_dag sample_dag3 (ghostdag_new 3)" sample_dag3 sample_env]
    dag_reachable_inv [OF sample_dag3_reachable]
  by (auto simp: attach_dag_def clear_cache_def)

text \<open>
  The ordering is a function of the stored blocks alone: two engines, whatever their
  parameter k, with DAGs that hold the same blocks but were indexed differently, produce the
  same ordering.
\<close>

theorem ordering_depends_on_store_only:
  assumes "dag_inv E d" and "dag_inv E d'" and "dag_store d = dag_store d'"
  shows "generate_ordering (attach_dag d e) = generate_ordering (attach_dag d' e')"
proof -
  obtain all all' where all: "trav_all_blocks d = Some all" "distinct all"
      "set all = fst ` set (dag_store d)"
    and all': "trav_all_blocks d' = Some all'" "distinct all'" "set all' = fst ` set (dag_store d')"
    using topological_order_ex [OF assms(1)] topological_order_ex [OF assms(2)]
    unfolding trav_all_blocks_def by metis
  have m: "mset all = mset all'"
    using all all' assms(3) by (simp add: set_eq_iff_mset_eq_distinct [symmetric])
  let ?P = "\<lambda>h. case dag_get_block d h of None \<Rightarrow> False | Some b \<Rightarrow> parents b = []"
  have "sort (filter ?P all) = sort (filter ?P all')"
    by (rule properties_for_sort) (use m in \<open>simp_all add: mset_filter\<close>)
  moreover have "dag_get_block d = dag_get_block d'"
    using assms(3) by (auto simp: dag_get_block_def)
  moreover have "calculate_blue_score_immutable (attach_dag d e) d =
      calculate_blue_score_immutable (attach_dag d' e') d'"
    using trav_ancestors_store [OF assms(3)]
    by (auto simp: calculate_blue_score_immutable_def attach_dag_def clear_cache_def count_blue_eq)
  moreover have "all = [] \<longleftrightarrow> all' = []"
    using m by auto
  ultimately show ?thesis
    using all(1) all'(1) ordering_loop_cong [OF m assms(3)]
    by (simp add: generate_ordering_def attach_dag_def clear_cache_def Let_def)
qed

theorem ordering_depends_on_store_only_witness:
  "generate_ordering (attach_dag sample_dag3 (ghostdag_new 0)) =
   generate_ordering (attach_dag (rebuild_index sample_dag3) (ghostdag_new 18))"
proof -
  note inv = dag_reachable_inv [OF sample_dag3_reachable]
  have "index_ok (build_from_store (dag_store sample_dag3)) (dag_store sample_dag3)"
    by (rule build_from_store_ok [OF dag_invD(1) [OF inv]])
  then have "dag_inv sample_env (rebuild_index sample_dag3)"
    using inv by (simp add: dag_inv_def rebuild_index_def Let_def)
  from ordering_depends_on_store_only [OF inv this] show ?thesis
    by (simp add: rebuild_index_def)
qed

text \<open>
  The anticone of a block relative to a descendant of it, as \<open>get_anticone\<close> computes it,
  is always empty. So every block has blue score one plus the number of its ancestors and
  every ancestor is blue, whatever the parameter k.
\<close>

theorem blue_score_ignores_k:
  "count_blue k d h = of_nat (Suc (card (trav_ancestors d h)))
   \<and> (is_blue k d a h \<longleftrightarrow> a = h \<or> is_ancestor (dag_store d) a h)"
proof -
  have "get_anticone d a h = {}" if "a = h \<or> is_ancestor (dag_store d) a h"
  proof (rule anticone_empty)
    show "a \<in> insert h (trav_ancestors d h)"
      using that unfolding trav_ancestors_reach
      by (auto simp: is_ancestor_def get_all_ancestors_reach)
  qed
  then show ?thesis
    using count_blue_eq [of k d h] by (auto simp: is_blue_def)
qed

text \<open>
  With a coherent cache, \<open>select_parent_from_parents\<close> returns a candidate of the highest
  blue score, the one with the smallest hash among equals, and leaves the cache coherent.
\<close>

theorem select_parent_best:
  assumes "gd_inv e" and "gd_dag e = Some d" and "ps \<noteq> []"
  shows "\<exists>best e'. select_parent_from_parents ps e = (Inr best, e') \<and> best \<in> set ps \<and> gd_inv e'
    \<and> (\<forall>p \<in> set ps. count_blue (gd_k e) d p < count_blue (gd_k e) d best
         \<or> count_blue (gd_k e) d p = count_blue (gd_k e) d best \<and> best \<le> p)"
proof -
  from assms(3) obtain p rest where ps: "ps = p # rest"
    by (cases ps) auto
  obtain e1 where e1: "score_or_0 p e = (count_blue (gd_k e) d p, e1)" "gd_inv e1"
    "gd_dag e1 = Some d" "gd_k e1 = gd_k e"
    using score_or_0_spec [OF assms(1,2), of p] by blast
  from select_loop_spec [OF e1(2,3), of "count_blue (gd_k e) d p" p rest] e1(4)
  obtain best e2 where "select_loop rest p (count_blue (gd_k e) d p) e1 = (best, e2)"
    "best \<in> insert p (set rest)" "\<forall>q \<in> insert p (set rest). preferred (gd_k e) d best q" "gd_inv e2"
    by auto
  then show ?thesis
    using e1(1) by (auto simp: ps select_parent_from_parents_def preferred_iff)
qed

theorem select_parent_best_witness:
  "\<exists>best e'. select_parent_from_parents [replicate 32 172, replicate 32 204]
       (attach_dag sample_dag3 (ghostdag_new 3)) = (Inr best, e')
     \<and> best \<in> {replicate 32 172, replicate 32 204}"
  using select_parent_best [of "attach_dag sample_dag3 (ghostdag_new 3)" sample_dag3
      "[replicate 32 172, replicate 32 204]"]
  by (auto simp: attach_dag_def clear_cache_def gd_inv_def simp del: replicate.simps)

end
