(* ===== verification/Finality.thy ===== *)
theory Finality
  imports Block_Dag F64
begin

text \<open>
  The finality engine: \<^verbatim>\<open>src/src/finality/finality_engine.rs\<close>.

  The engine's caches sit behind locks; each operation takes them one after another and is one
  step on the record \<open>finality_engine\<close>, returned in the error case too. The interval tree is the
  datatype \<open>interval_node\<close>, whose reachability caches (\<open>RefCell\<close>s in the code) are updated by
  rebuilding the path to the node. \<open>FinPanic\<close> is the counter underflow of the topological sort,
  which does not occur on DAGs that satisfy their invariant. The loops over \<open>scores\<close> collect
  into sorted maps of sets and maxima, so their order does not matter; the eviction from the
  anticone cache takes the order of the keys as the argument \<open>iter\<close>.
\<close>

section \<open>State\<close>

datatype interval_node = IntervalNode
  (in_hash: block_hash) (in_height: u64) (in_score: u64)
  (in_left: "interval_node option") (in_right: "interval_node option")
  (reachability_cache: "(block_hash \<times> bool) list")

record anticone_entry =
  ae_anticone :: "block_hash set"
  computed_at :: u64
  ae_size :: nat

record virtual_selected_parent =
  vsp_hash :: block_hash
  vsp_height :: u64
  vsp_score :: u64
  vsp_blue_score :: u64

record finality_engine =
  confirmation_depth :: nat
  fe_k :: nat
  interval_tree :: "interval_node option"
  anticone_cache :: "(block_hash \<times> anticone_entry) list"
  vsp_cache :: "(block_hash \<times> virtual_selected_parent) list"
  finalized_blocks :: "(u64 \<times> block_hash set) list"
  block_heights :: "(block_hash \<times> u64) list"
  block_scores :: "(block_hash \<times> u64) list"
  blue_scores :: "(block_hash \<times> u64) list"
  max_cache_size :: nat

datatype finality_error =
    EmptyOrdering | FinPanic | HeightNotFound block_hash | TreeNotBuilt | FromHeightNotFound
  | ToHeightNotFound | FromScoreNotFound | ToScoreNotFound | ParentsNotFound block_hash
  | SelectedHeightNotFound | BlueSetNotFound block_hash | BlockHeightNotFound

definition finality_new_with_k :: "nat \<Rightarrow> nat \<Rightarrow> finality_engine" where
  "finality_new_with_k depth k =
     \<lparr>confirmation_depth = depth, fe_k = k, interval_tree = None, anticone_cache = [], vsp_cache = [],
      finalized_blocks = [], block_heights = [], block_scores = [], blue_scores = [],
      max_cache_size = 10000\<rparr>"

definition finality_new :: "nat \<Rightarrow> finality_engine" where
  "finality_new depth = finality_new_with_k depth 8"

section \<open>Interval tree\<close>

definition set_children ::
  "interval_node option \<Rightarrow> interval_node option \<Rightarrow> interval_node \<Rightarrow> interval_node" where
  "set_children l r n = IntervalNode (in_hash n) (in_height n) (in_score n) l r (reachability_cache n)"

text \<open>\<open>swap_remove(i)\<close>\<close>

definition swap_remove :: "nat \<Rightarrow> 'a list \<Rightarrow> 'a list" where
  "swap_remove i xs = butlast (xs[i := last xs])"

lemma length_swap_remove [simp]: "length (swap_remove i xs) = length xs - 1"
  by (simp add: swap_remove_def)

lemma filter_swap_remove_shorter:
  assumes "sort_key f nodes \<noteq> []"
  shows "length (filter P (swap_remove i (sort_key f nodes))) < length nodes"
proof -
  have "length (filter P (swap_remove i (sort_key f nodes))) \<le> length nodes - 1"
    using length_filter_le [of P "swap_remove i (sort_key f nodes)"] by simp
  moreover have "nodes \<noteq> []"
    using assms by auto
  ultimately show ?thesis
    by (cases nodes) auto
qed

text \<open>The code never calls it on an empty vector, which is \<open>None\<close> here.\<close>

function build_balanced_tree :: "interval_node list \<Rightarrow> interval_node option" where
  "build_balanced_tree nodes =
     (let nodes = sort_key in_height nodes in
      if nodes = [] then None
      else if length nodes = 1 then Some (hd nodes)
      else let mid = length nodes div 2;
               node = nodes ! mid;
               rest = swap_remove mid nodes;
               left_nodes = filter (\<lambda>n. in_height n < in_height node) rest;
               right_nodes = filter (\<lambda>n. \<not> in_height n < in_height node) rest
           in Some (set_children
                (if left_nodes = [] then in_left node else build_balanced_tree left_nodes)
                (if right_nodes = [] then in_right node else build_balanced_tree right_nodes) node))"
  by pat_completeness auto

termination
  by (relation "measure length", rule wf_measure)
    (simp_all only: in_measure, (rule filter_swap_remove_shorter, assumption)+)

declare build_balanced_tree.simps [simp del]

fun find_node :: "interval_node \<Rightarrow> block_hash \<Rightarrow> interval_node option" where
  "find_node (IntervalNode h height score l r cch) target =
     (if h = target then Some (IntervalNode h height score l r cch)
      else case (case l of None \<Rightarrow> None | Some left \<Rightarrow> find_node left target) of
        Some node \<Rightarrow> Some node
      | None \<Rightarrow> (case r of None \<Rightarrow> None | Some right \<Rightarrow> find_node right target))"

text \<open>The write through the \<open>RefCell\<close> of the node that \<open>find_node\<close> returns; \<open>None\<close> if it returns none.\<close>

fun update_node ::
  "((block_hash \<times> bool) list \<Rightarrow> (block_hash \<times> bool) list) \<Rightarrow> interval_node \<Rightarrow> block_hash
    \<Rightarrow> interval_node option" where
  "update_node f (IntervalNode h height score l r cch) target =
     (if h = target then Some (IntervalNode h height score l r (f cch))
      else case (case l of None \<Rightarrow> None | Some left \<Rightarrow> update_node f left target) of
        Some left' \<Rightarrow> Some (IntervalNode h height score (Some left') r cch)
      | None \<Rightarrow>
          map_option (\<lambda>right'. IntervalNode h height score l (Some right') cch)
            (case r of None \<Rightarrow> None | Some right \<Rightarrow> update_node f right target))"

section \<open>Finality\<close>

definition get_block_parents :: "block_dag \<Rightarrow> block_hash \<Rightarrow> block_hash list option" where
  "get_block_parents d h = map_option parents (dag_get_block d h)"

fun interval_nodes ::
  "block_dag \<Rightarrow> nat \<Rightarrow> block_hash list \<Rightarrow> finality_error + interval_node list" where
  "interval_nodes d index [] = Inr []"
| "interval_nodes d index (h # hs) =
     (case get_block_height d h of
        None \<Rightarrow> Inl (HeightNotFound h)
      | Some height \<Rightarrow>
          map_sum id (Cons (IntervalNode h height (of_nat index) None None [])) (interval_nodes d (index + 1) hs))"

definition build_interval_tree ::
  "block_hash list \<Rightarrow> block_dag \<Rightarrow> finality_engine \<Rightarrow> finality_error + finality_engine" where
  "build_interval_tree ordering' d fe =
     (if ordering' = [] then Inr fe
      else case interval_nodes d 0 ordering' of
        Inl e \<Rightarrow> Inl e
      | Inr nodes \<Rightarrow>
          Inr (fe\<lparr>interval_tree := build_balanced_tree nodes,
                  block_heights := fold (\<lambda>n. AList.update (in_hash n) (in_height n)) nodes [],
                  block_scores := fold (\<lambda>n. AList.update (in_hash n) (in_score n)) nodes []\<rparr>))"

definition compute_reachability ::
  "finality_engine \<Rightarrow> block_hash \<Rightarrow> block_hash \<Rightarrow> finality_error + bool" where
  "compute_reachability fe from to =
     (case map_of (block_heights fe) from of None \<Rightarrow> Inl FromHeightNotFound | Some from_height \<Rightarrow>
     (case map_of (block_heights fe) to of None \<Rightarrow> Inl ToHeightNotFound | Some to_height \<Rightarrow>
     (case map_of (block_scores fe) from of None \<Rightarrow> Inl FromScoreNotFound | Some from_score \<Rightarrow>
     (case map_of (block_scores fe) to of None \<Rightarrow> Inl ToScoreNotFound | Some to_score \<Rightarrow>
        Inr (from_height \<le> to_height \<and> from_score \<le> to_score)))))"

definition cache_insert ::
  "nat \<Rightarrow> block_hash \<Rightarrow> bool \<Rightarrow> (block_hash \<times> bool) list \<Rightarrow> (block_hash \<times> bool) list" where
  "cache_insert limit to b cch =
     (let cch2 = AList.update to b cch in if length cch2 > limit then [] else cch2)"

definition can_reach ::
  "block_hash \<Rightarrow> block_hash \<Rightarrow> finality_engine \<Rightarrow> (finality_error + bool) \<times> finality_engine" where
  "can_reach from to fe =
     (case interval_tree fe of
        None \<Rightarrow> (Inl TreeNotBuilt, fe)
      | Some tree \<Rightarrow>
     (case (case find_node tree from of None \<Rightarrow> None | Some node \<Rightarrow> map_of (reachability_cache node) to) of
        Some cached \<Rightarrow> (Inr cached, fe)
      | None \<Rightarrow>
     (case compute_reachability fe from to of
        Inl e \<Rightarrow> (Inl e, fe)
      | Inr b \<Rightarrow>
          (Inr b,
           case update_node (cache_insert (max_cache_size fe div 100) to b) tree from of
             None \<Rightarrow> fe
           | Some tree' \<Rightarrow> fe\<lparr>interval_tree := Some tree'\<rparr>))))"

definition fin_get_blue_score ::
  "block_hash \<Rightarrow> block_dag \<Rightarrow> finality_engine \<Rightarrow> (finality_error + u64) \<times> finality_engine" where
  "fin_get_blue_score h d fe =
     (case map_of (blue_scores fe) h of
        Some score \<Rightarrow> (Inr score, fe)
      | None \<Rightarrow>
     (case get_blue_set d h of
        None \<Rightarrow> (Inl (BlueSetNotFound h), fe)
      | Some blue_set \<Rightarrow>
          let score = of_nat (card blue_set)
          in (Inr score, fe\<lparr>blue_scores := AList.update h score (blue_scores fe)\<rparr>)))"

fun vsp_best ::
  "block_dag \<Rightarrow> block_hash list \<Rightarrow> block_hash option \<times> u64 \<Rightarrow> finality_engine
    \<Rightarrow> (finality_error + block_hash option \<times> u64) \<times> finality_engine" where
  "vsp_best d [] acc fe = (Inr acc, fe)"
| "vsp_best d (p # ps) (best, best_score) fe =
     (case fin_get_blue_score p d fe of
        (Inl e, fe') \<Rightarrow> (Inl e, fe')
      | (Inr score, fe') \<Rightarrow>
          vsp_best d ps (if score > best_score then (Some p, score) else (best, best_score)) fe')"

definition compute_single_vsp ::
  "block_hash \<Rightarrow> block_dag \<Rightarrow> finality_engine
    \<Rightarrow> (finality_error + virtual_selected_parent) \<times> finality_engine" where
  "compute_single_vsp h d fe =
     (case get_block_parents d h of
        None \<Rightarrow> (Inl (ParentsNotFound h), fe)
      | Some ps \<Rightarrow>
          if ps = [] then (Inr \<lparr>vsp_hash = h, vsp_height = 0, vsp_score = 0, vsp_blue_score = 0\<rparr>, fe)
          else case vsp_best d ps (None, 0) fe of
            (Inl e, fe') \<Rightarrow> (Inl e, fe')
          | (Inr (best, best_score), fe') \<Rightarrow>
              let selected = (case best of Some p \<Rightarrow> p | None \<Rightarrow> hd ps) in
              case get_block_height d selected of
                None \<Rightarrow> (Inl SelectedHeightNotFound, fe')
              | Some height \<Rightarrow>
                  (Inr \<lparr>vsp_hash = selected, vsp_height = height,
                       vsp_score = (case map_of (block_scores fe') selected of None \<Rightarrow> 0 | Some s \<Rightarrow> s),
                       vsp_blue_score = best_score\<rparr>, fe'))"

fun vsp_loop ::
  "block_dag \<Rightarrow> block_hash list \<Rightarrow> (block_hash \<times> virtual_selected_parent) list \<Rightarrow> finality_engine
    \<Rightarrow> (finality_error + (block_hash \<times> virtual_selected_parent) list) \<times> finality_engine" where
  "vsp_loop d [] cch fe = (Inr cch, fe)"
| "vsp_loop d (h # hs) cch fe =
     (case compute_single_vsp h d fe of
        (Inl e, fe') \<Rightarrow> (Inl e, fe')
      | (Inr vsp, fe') \<Rightarrow> vsp_loop d hs (AList.update h vsp cch) fe')"

definition compute_virtual_selected_parents ::
  "block_dag \<Rightarrow> finality_engine \<Rightarrow> (finality_error + unit) \<times> finality_engine" where
  "compute_virtual_selected_parents d fe =
     (case vsp_loop d (map fst (dag_store d)) [] fe of
        (Inl e, fe') \<Rightarrow> (Inl e, fe')
      | (Inr cch, fe') \<Rightarrow> (Inr (), fe'\<lparr>vsp_cache := cch\<rparr>))"

text \<open>\<open>0.1\<close> is the double nearest to a tenth; the conversion and the product are rounded.\<close>

definition safety_margin :: "u64 \<Rightarrow> u64" where
  "safety_margin head_score = f64_to_u64 (fl (fl (of_nat (unat head_score)) * fl (1 / 10)))"

definition calculate_finality_threshold :: "finality_engine \<Rightarrow> u64 \<Rightarrow> u64" where
  "calculate_finality_threshold fe head_score =
     (let threshold = sat_sub head_score (of_nat (fe_k fe))
      in sat_sub threshold (safety_margin head_score))"

definition head_score :: "finality_engine \<Rightarrow> u64" where
  "head_score fe = foldr max (map snd (block_scores fe)) 0"

definition finalize_entry ::
  "(block_hash \<times> u64) list \<Rightarrow> u64 \<Rightarrow> block_hash \<times> u64 \<Rightarrow> (u64 \<times> block_hash set) list
    \<Rightarrow> (u64 \<times> block_hash set) list" where
  "finalize_entry heights threshold hs finalized =
     (if snd hs \<le> threshold
      then let height = (case map_of heights (fst hs) of None \<Rightarrow> 0 | Some x \<Rightarrow> x);
               old = (case map_of finalized height of None \<Rightarrow> {} | Some S \<Rightarrow> S)
           in omap_insert height (insert (fst hs) old) finalized
      else finalized)"

definition calculate_score_based_finality :: "finality_engine \<Rightarrow> finality_engine" where
  "calculate_score_based_finality fe =
     (let threshold = calculate_finality_threshold fe (head_score fe)
      in fe\<lparr>finalized_blocks := fold (finalize_entry (block_heights fe) threshold) (block_scores fe) []\<rparr>)"

definition compute_finality ::
  "block_dag \<Rightarrow> finality_engine \<Rightarrow> (finality_error + unit) \<times> finality_engine" where
  "compute_finality d fe =
     (case get_topological_order (dag_idx d) (dag_store d) of
        None \<Rightarrow> (Inl FinPanic, fe)
      | Some ordering' \<Rightarrow>
          if ordering' = [] then (Inl EmptyOrdering, fe)
          else case build_interval_tree ordering' d fe of
            Inl e \<Rightarrow> (Inl e, fe)
          | Inr fe1 \<Rightarrow>
              (case compute_virtual_selected_parents d fe1 of
                 (Inl e, fe2) \<Rightarrow> (Inl e, fe2)
               | (Inr _, fe2) \<Rightarrow> (Inr (), calculate_score_based_finality fe2)))"

section \<open>Anticone and queries\<close>

fun anticone_loop ::
  "block_hash \<Rightarrow> u64 \<Rightarrow> block_hash list \<Rightarrow> block_hash set \<Rightarrow> finality_engine
    \<Rightarrow> (finality_error + block_hash set) \<times> finality_engine" where
  "anticone_loop h block_height [] acc fe = (Inr acc, fe)"
| "anticone_loop h block_height (other # others) acc fe =
     (if other = h then anticone_loop h block_height others acc fe
      else let other_height = (case map_of (block_heights fe) other of None \<Rightarrow> 0 | Some x \<Rightarrow> x) in
        if other_height \<ge> block_height
        then (case can_reach h other fe of
                (Inl e, fe') \<Rightarrow> (Inl e, fe')
              | (Inr reached, fe') \<Rightarrow>
                  anticone_loop h block_height others (if reached then acc else insert other acc) fe')
        else anticone_loop h block_height others acc fe)"

definition compute_anticone ::
  "block_hash \<Rightarrow> block_dag \<Rightarrow> finality_engine \<Rightarrow> (finality_error + block_hash set) \<times> finality_engine" where
  "compute_anticone h d fe =
     (case map_of (block_heights fe) h of
        None \<Rightarrow> (Inl BlockHeightNotFound, fe)
      | Some block_height \<Rightarrow> anticone_loop h block_height (map fst (dag_store d)) {} fe)"

definition evict_anticones ::
  "((block_hash \<times> anticone_entry) list \<Rightarrow> block_hash list) \<Rightarrow> nat \<Rightarrow> (block_hash \<times> anticone_entry) list
    \<Rightarrow> (block_hash \<times> anticone_entry) list" where
  "evict_anticones iter limit cch =
     (if length cch > limit
      then let keys = sort_key (\<lambda>k. case map_of cch k of None \<Rightarrow> 0 | Some e \<Rightarrow> computed_at e) (iter cch)
           in fold AList.delete (take (length cch div 10) keys) cch
      else cch)"

definition fin_get_anticone ::
  "((block_hash \<times> anticone_entry) list \<Rightarrow> block_hash list) \<Rightarrow> u64 \<Rightarrow> block_hash \<Rightarrow> block_dag
    \<Rightarrow> finality_engine \<Rightarrow> (finality_error + block_hash set) \<times> finality_engine" where
  "fin_get_anticone iter now h d fe =
     (case map_of (anticone_cache fe) h of
        Some entry \<Rightarrow> (Inr (ae_anticone entry), fe)
      | None \<Rightarrow>
     (case compute_anticone h d fe of
        (Inl e, fe') \<Rightarrow> (Inl e, fe')
      | (Inr anticone, fe') \<Rightarrow>
          let entry = \<lparr>ae_anticone = anticone, computed_at = now, ae_size = card anticone\<rparr>
          in (Inr anticone, fe'\<lparr>anticone_cache := evict_anticones iter (max_cache_size fe')
                (AList.update h entry (anticone_cache fe'))\<rparr>)))"

definition is_finalized :: "finality_engine \<Rightarrow> block_hash \<Rightarrow> bool" where
  "is_finalized fe h \<longleftrightarrow> list_ex (\<lambda>(height, S). h \<in> S) (finalized_blocks fe)"

definition get_finality_confidence :: "finality_engine \<Rightarrow> block_hash \<Rightarrow> rat" where
  "get_finality_confidence fe h =
     (case map_of (block_scores fe) h of
        None \<Rightarrow> 0
      | Some score \<Rightarrow>
          let head = head_score fe in
          if head = 0 then 0
          else let distance = sat_sub head score;
                   confidence = fl (1 - fl (fl (of_nat (unat distance)) / fl (of_nat (unat head))))
               in min (max confidence 0) 1)"

definition get_virtual_selected_parent ::
  "finality_engine \<Rightarrow> block_hash \<Rightarrow> virtual_selected_parent option" where
  "get_virtual_selected_parent fe h = map_of (vsp_cache fe) h"

definition get_finalized_at_height :: "finality_engine \<Rightarrow> u64 \<Rightarrow> block_hash set option" where
  "get_finalized_at_height fe height = map_of (finalized_blocks fe) height"

definition get_finalization_height :: "finality_engine \<Rightarrow> u64 option" where
  "get_finalization_height fe =
     (if finalized_blocks fe = [] then None else Some (fst (last (finalized_blocks fe))))"

definition finality_reset :: "finality_engine \<Rightarrow> finality_engine" where
  "finality_reset fe =
     fe\<lparr>interval_tree := None, anticone_cache := [], vsp_cache := [], finalized_blocks := [],
        block_heights := [], block_scores := [], blue_scores := []\<rparr>"

section \<open>The interval tree holds the blocks\<close>

fun tree_hashes :: "interval_node \<Rightarrow> block_hash list" where
  "tree_hashes (IntervalNode h _ _ l r _) =
     h # (case l of None \<Rightarrow> [] | Some t \<Rightarrow> tree_hashes t) @ (case r of None \<Rightarrow> [] | Some t \<Rightarrow> tree_hashes t)"

fun tree_all :: "(interval_node \<Rightarrow> bool) \<Rightarrow> interval_node \<Rightarrow> bool" where
  "tree_all P (IntervalNode h ht s l r c) \<longleftrightarrow>
     P (IntervalNode h ht s l r c) \<and> (case l of None \<Rightarrow> True | Some t \<Rightarrow> tree_all P t)
     \<and> (case r of None \<Rightarrow> True | Some t \<Rightarrow> tree_all P t)"

lemma find_node_hash: "find_node t h = Some n \<Longrightarrow> in_hash n = h"
proof (induction t)
  case (IntervalNode x ht sc l r c)
  then show ?case
    by (cases l; cases r) (auto split: if_splits option.splits)
qed

lemma find_node_None: "find_node t h = None \<longleftrightarrow> h \<notin> set (tree_hashes t)"
proof (induction t)
  case (IntervalNode x ht sc l r c)
  then show ?case
    by (cases l; cases r) (auto split: option.split)
qed

lemma find_node_all: "tree_all P t \<Longrightarrow> find_node t h = Some n \<Longrightarrow> P n"
proof (induction t)
  case (IntervalNode x ht sc l r c)
  then show ?case
    by (cases l; cases r) (auto split: if_splits option.splits)
qed

lemma mset_swap_remove:
  assumes "i < length xs"
  shows "add_mset (xs ! i) (mset (swap_remove i xs)) = mset xs"
proof -
  obtain ys z where xs: "xs = ys @ [z]"
    using assms by (cases xs rule: rev_cases) auto
  show ?thesis
  proof (cases "i = length ys")
    case True
    then show ?thesis
      by (simp add: xs swap_remove_def)
  next
    case False
    with assms have "i < length ys"
      by (simp add: xs)
    then show ?thesis
      by (simp add: xs swap_remove_def list_update_append nth_append mset_update)
  qed
qed

definition plain_node :: "interval_node \<Rightarrow> bool" where
  "plain_node n \<longleftrightarrow> in_left n = None \<and> in_right n = None \<and> reachability_cache n = []"

lemma build_balanced_tree_spec:
  assumes "nodes \<noteq> []" and "\<forall>n \<in> set nodes. plain_node n"
  shows "\<exists>t. build_balanced_tree nodes = Some t \<and> mset (tree_hashes t) = mset (map in_hash nodes)
    \<and> tree_all (\<lambda>n. reachability_cache n = []) t"
  using assms
proof (induction nodes rule: length_induct)
  case (1 nodes)
  let ?s = "sort_key in_height nodes" and ?mid = "length nodes div 2"
  let ?node = "?s ! ?mid" and ?rest = "swap_remove ?mid ?s"
  let ?l = "filter (\<lambda>n. in_height n < in_height ?node) ?rest"
    and ?r = "filter (\<lambda>n. \<not> in_height n < in_height ?node) ?rest"
  have ne: "?s \<noteq> []"
    using 1(2) by (metis length_0_conv length_sort)
  have mid: "?mid < length ?s"
    using 1(2) by simp
  have split: "add_mset ?node (mset ?l + mset ?r) = mset nodes"
    using mset_swap_remove [OF mid] by (simp add: mset_filter multiset_partition [symmetric])
  have mem: "?node \<in> set nodes" "set ?l \<subseteq> set nodes" "set ?r \<subseteq> set nodes"
    using arg_cong [OF split, of set_mset] by auto
  have plain: "plain_node ?node"
    using 1(3) mem(1) by blast
  obtain h ht sc where node: "?node = IntervalNode h ht sc None None []"
    using plain by (cases ?node) (auto simp: plain_node_def)
  have sub: "\<exists>t. build_balanced_tree xs = Some t \<and> mset (tree_hashes t) = mset (map in_hash xs)
      \<and> tree_all (\<lambda>n. reachability_cache n = []) t"
    if "xs \<noteq> []" "xs = filter P ?rest" "set xs \<subseteq> set nodes" for xs P
    using 1(1) [rule_format, of xs] 1(3) that filter_swap_remove_shorter [OF ne, of P ?mid] by auto
  show ?case
  proof (cases "length nodes = 1")
    case True
    then obtain n where n: "nodes = [n]"
      by (auto simp: length_Suc_conv)
    then obtain h ht sc where "n = IntervalNode h ht sc None None []"
      using 1(3) by (cases n) (auto simp: plain_node_def)
    then show ?thesis
      by (simp add: n build_balanced_tree.simps)
  next
    case False
    have b: "build_balanced_tree nodes = Some (set_children
        (if ?l = [] then None else build_balanced_tree ?l)
        (if ?r = [] then None else build_balanced_tree ?r) ?node)"
      using ne False plain by (subst build_balanced_tree.simps) (simp add: Let_def plain_node_def)
    have hashes: "mset (map in_hash nodes) = add_mset h (mset (map in_hash ?l) + mset (map in_hash ?r))"
      using arg_cong [OF split, of "image_mset in_hash"] node
      by (simp only: image_mset_add_mset image_mset_union mset_map interval_node.sel)
    have L: "?l = [] \<or> (\<exists>t. build_balanced_tree ?l = Some t \<and> mset (tree_hashes t) = mset (map in_hash ?l)
        \<and> tree_all (\<lambda>n. reachability_cache n = []) t)"
      using sub [OF _ refl mem(2)] by blast
    have R: "?r = [] \<or> (\<exists>t. build_balanced_tree ?r = Some t \<and> mset (tree_hashes t) = mset (map in_hash ?r)
        \<and> tree_all (\<lambda>n. reachability_cache n = []) t)"
      using sub [OF _ refl mem(3)] by blast
    show ?thesis
      unfolding b hashes using L R by (auto simp: set_children_def node simp del: mset_map)
  qed
qed

section \<open>Heights and scores\<close>

lemma interval_nodes_spec:
  assumes "\<And>h. h \<in> set hs \<Longrightarrow> get_block_height d h = Some (f h)"
  shows "interval_nodes d k hs =
    Inr (map (\<lambda>(i, h). IntervalNode h (f h) (of_nat i) None None []) (enumerate k hs))"
  using assms by (induction hs arbitrary: k) simp_all

lemma map_of_fold_update:
  "map_of (fold (\<lambda>n. AList.update (g n) (f n)) ns m) = map_of m ++ map_of (rev (map (\<lambda>n. (g n, f n)) ns))"
  by (induction ns arbitrary: m) (auto simp: map_of_hm_update fun_eq_iff map_add_def split: option.split)

lemma hm_inv_fold_update: "hm_inv m \<Longrightarrow> hm_inv (fold (\<lambda>n. AList.update (g n) (f n)) ns m)"
  by (induction ns arbitrary: m) (simp_all add: hm_inv_update)

lemma map_of_fold_update_distinct:
  assumes "distinct (map g ns)"
  shows "map_of (fold (\<lambda>n. AList.update (g n) (f n)) ns []) x = Some y \<longleftrightarrow> (\<exists>n \<in> set ns. g n = x \<and> f n = y)"
proof -
  have "distinct (map fst (rev (map (\<lambda>n. (g n, f n)) ns)))"
    using assms by (simp add: rev_map [symmetric] o_def)
  then show ?thesis
    unfolding map_of_fold_update by (auto simp: map_of_eq_Some_iff simp del: set_rev)
      (auto simp: image_iff)
qed

text \<open>The state after the interval tree has been built on an ordering.\<close>

definition scored :: "block_dag \<Rightarrow> block_hash list \<Rightarrow> finality_engine \<Rightarrow> bool" where
  "scored d r fe \<longleftrightarrow>
     hm_inv (block_scores fe) \<and>
     (\<forall>h s. map_of (block_scores fe) h = Some s \<longleftrightarrow> (\<exists>i < length r. h = r ! i \<and> s = of_nat i)) \<and>
     (\<forall>h. map_of (block_heights fe) h = (if h \<in> set r then get_block_height d h else None)) \<and>
     (\<exists>t. interval_tree fe = Some t \<and> set (tree_hashes t) = set r
        \<and> tree_all (\<lambda>n. reachability_cache n = []) t)"

lemma build_interval_tree_scored:
  assumes "r \<noteq> []" and "distinct r" and "\<And>h. h \<in> set r \<Longrightarrow> get_block_height d h \<noteq> None"
  shows "\<exists>t H S. build_interval_tree r d fe = Inr (fe\<lparr>interval_tree := Some t, block_heights := H, block_scores := S\<rparr>)
    \<and> scored d r (fe\<lparr>interval_tree := Some t, block_heights := H, block_scores := S\<rparr>)"
proof -
  define f where "f h = the (get_block_height d h)" for h
  define nodes where "nodes = map (\<lambda>(i, h). IntervalNode h (f h) (of_nat i) None None []) (enumerate 0 r)"
  have f: "get_block_height d h = Some (f h)" if "h \<in> set r" for h
    using assms(3) [OF that] by (auto simp: f_def)
  have n: "interval_nodes d 0 r = Inr nodes"
    using interval_nodes_spec [OF f] by (simp add: nodes_def)
  have hashes: "map in_hash nodes = r"
    unfolding nodes_def by (rule nth_equalityI) (simp_all add: nth_enumerate_eq)
  have mem: "n \<in> set nodes \<longleftrightarrow> (\<exists>i < length r. n = IntervalNode (r ! i) (f (r ! i)) (of_nat i) None None [])" for n
  proof -
    have "nodes = map (\<lambda>i. IntervalNode (r ! i) (f (r ! i)) (of_nat i) None None []) [0..<length r]"
      unfolding nodes_def by (rule nth_equalityI) (simp_all add: nth_enumerate_eq)
    then show ?thesis
      by (auto simp: image_iff)
  qed
  have "nodes \<noteq> []"
    using hashes assms(1) by auto
  moreover have "\<forall>n \<in> set nodes. plain_node n"
    by (auto simp: mem plain_node_def)
  ultimately obtain t where t: "build_balanced_tree nodes = Some t"
      "mset (tree_hashes t) = mset (map in_hash nodes)" "tree_all (\<lambda>n. reachability_cache n = []) t"
    using build_balanced_tree_spec [of nodes] by blast
  have d: "distinct (map in_hash nodes)"
    using assms(2) by (simp only: hashes)
  note lookup = map_of_fold_update_distinct [OF d]
  let ?H = "fold (\<lambda>n. AList.update (in_hash n) (in_height n)) nodes []"
  let ?S = "fold (\<lambda>n. AList.update (in_hash n) (in_score n)) nodes []"
  have "map_of ?S h = Some s \<longleftrightarrow> (\<exists>i < length r. h = r ! i \<and> s = of_nat i)" for h s
    unfolding lookup by (auto simp: Bex_def mem)
  moreover have "map_of ?H h = (if h \<in> set r then get_block_height d h else None)" for h
  proof (cases "h \<in> set r")
    case True
    then obtain i where "i < length r" "h = r ! i"
      by (auto simp: in_set_conv_nth)
    then have "map_of ?H h = Some (f h)"
      unfolding lookup by (auto simp: Bex_def mem)
    with True f show ?thesis
      by simp
  next
    case False
    then have "map_of ?H h \<noteq> Some x" for x
      unfolding lookup by (auto simp: Bex_def mem)
    with False show ?thesis
      by (cases "map_of ?H h") auto
  qed
  moreover have "set (tree_hashes t) = set r"
    using mset_eq_setD [OF t(2)] by (simp add: hashes [symmetric])
  moreover have "hm_inv ?S"
    by (simp add: hm_inv_fold_update)
  moreover have "build_interval_tree r d fe =
      Inr (fe\<lparr>interval_tree := Some t, block_heights := ?H, block_scores := ?S\<rparr>)"
    using assms(1) by (simp add: build_interval_tree_def n t(1))
  ultimately show ?thesis
    using t(3) unfolding scored_def
    by (intro exI [of _ t] exI [of _ ?H] exI [of _ ?S]) simp
qed

section \<open>Virtual selected parents\<close>

lemma stored_height:
  assumes "dag_inv E d" and "dag_get_block d h = Some b"
  shows "get_block_height d h = Some (blk_height b)"
proof -
  have b: "map_of (dag_store d) h = Some b"
    using assms(2) by (simp add: dag_get_block_def)
  have "meta_ok (dag_store d) b"
    by (rule dag_invD(7) [OF assms(1) stored_snd [OF b]])
  with depth_is_height [OF assms(1), of h] show ?thesis
    by (auto simp: get_block_height_def assms(2) meta_ok_def Let_def word_gt_0 height_of_def b)
qed

lemma fin_get_blue_score_ok:
  assumes "block_exists d h"
  shows "\<exists>s X. fin_get_blue_score h d fe = (Inr s, fe\<lparr>blue_scores := X\<rparr>)"
  using assms by (cases "map_of (blue_scores fe) h")
    (auto simp: fin_get_blue_score_def get_blue_set_def Let_def intro: exI [of _ "blue_scores fe"])

lemma vsp_best_ok:
  assumes "\<forall>p \<in> set ps. block_exists d p"
  shows "\<exists>b X. vsp_best d ps acc fe = (Inr b, fe\<lparr>blue_scores := X\<rparr>)
    \<and> (case fst b of None \<Rightarrow> True | Some p \<Rightarrow> p \<in> set ps \<or> fst acc = Some p)"
  using assms
proof (induction ps arbitrary: acc fe)
  case Nil
  show ?case
    by (auto intro!: exI [of _ acc] exI [of _ "blue_scores fe"] split: option.split)
next
  case (Cons p ps)
  obtain s X where s: "fin_get_blue_score p d fe = (Inr s, fe\<lparr>blue_scores := X\<rparr>)"
    using fin_get_blue_score_ok Cons.prems by fastforce
  let ?acc = "if s > snd acc then (Some p, s) else acc"
  have "\<forall>q \<in> set ps. block_exists d q"
    using Cons.prems by simp
  from Cons.IH [OF this, of ?acc "fe\<lparr>blue_scores := X\<rparr>"]
  obtain b Y where b: "vsp_best d ps ?acc (fe\<lparr>blue_scores := X\<rparr>) = (Inr b, fe\<lparr>blue_scores := Y\<rparr>)"
      "case fst b of None \<Rightarrow> True | Some q \<Rightarrow> q \<in> set ps \<or> fst ?acc = Some q"
    by auto
  have "vsp_best d (p # ps) acc fe = (Inr b, fe\<lparr>blue_scores := Y\<rparr>)"
    using b(1) by (cases acc) (auto simp: s split: if_splits)
  moreover have "case fst b of None \<Rightarrow> True | Some q \<Rightarrow> q \<in> set (p # ps) \<or> fst acc = Some q"
    using b(2) by (auto split: option.splits if_splits)
  ultimately show ?case
    by blast
qed

lemma compute_single_vsp_ok:
  assumes "dag_inv E d" and "h \<in> fst ` set (dag_store d)"
  shows "\<exists>v X. compute_single_vsp h d fe = (Inr v, fe\<lparr>blue_scores := X\<rparr>)"
proof -
  obtain b where b: "map_of (dag_store d) h = Some b"
    using assms(2) by (metis hm_key_iff not_Some_eq)
  have ex: "\<forall>p \<in> set (parents b). block_exists d p"
    using dag_invD(2) [OF assms(1)] stored_snd [OF b]
    by (force simp: parents_closed_def block_exists_def hm_key_iff)
  have ht: "get_block_height d p \<noteq> None" if "block_exists d p" for p
    using stored_height [OF assms(1), of p] that by (auto simp: block_exists_def dag_get_block_def)
  show ?thesis
  proof (cases "parents b = []")
    case True
    then show ?thesis
      by (auto simp: compute_single_vsp_def get_block_parents_def dag_get_block_def b
          intro: exI [of _ "blue_scores fe"])
  next
    case False
    obtain best X where v: "vsp_best d (parents b) (None, 0) fe = (Inr best, fe\<lparr>blue_scores := X\<rparr>)"
      "case fst best of None \<Rightarrow> True | Some p \<Rightarrow> p \<in> set (parents b)"
      using vsp_best_ok [OF ex, of "(None, 0)" fe] by (fastforce split: option.splits)
    let ?sel = "case fst best of Some p \<Rightarrow> p | None \<Rightarrow> hd (parents b)"
    have "?sel \<in> set (parents b)"
      using v(2) False by (auto split: option.splits)
    with ht ex obtain height where "get_block_height d ?sel = Some height"
      by blast
    with False v(1) show ?thesis
      by (cases best) (auto simp: compute_single_vsp_def get_block_parents_def dag_get_block_def b Let_def)
  qed
qed

lemma vsp_loop_ok:
  assumes "dag_inv E d" and "set hs \<subseteq> fst ` set (dag_store d)"
  shows "\<exists>vs X. vsp_loop d hs c fe = (Inr vs, fe\<lparr>blue_scores := X\<rparr>)"
  using assms(2)
proof (induction hs arbitrary: c fe)
  case Nil
  show ?case
    by (auto intro: exI [of _ "blue_scores fe"])
next
  case (Cons h hs)
  obtain v X where v: "compute_single_vsp h d fe = (Inr v, fe\<lparr>blue_scores := X\<rparr>)"
    using compute_single_vsp_ok [OF assms(1)] Cons.prems by force
  from Cons.IH [of "AList.update h v c" "fe\<lparr>blue_scores := X\<rparr>"] Cons.prems show ?case
    by (auto simp: v)
qed

section \<open>The finalised prefix\<close>

definition fin_mem :: "(u64 \<times> block_hash set) list \<Rightarrow> block_hash \<Rightarrow> bool" where
  "fin_mem m h \<longleftrightarrow> (\<exists>ht S. map_of m ht = Some S \<and> h \<in> S)"

lemma is_finalized_mem:
  assumes "omap_inv (finalized_blocks fe)"
  shows "is_finalized fe h \<longleftrightarrow> fin_mem (finalized_blocks fe) h"
  using omap_inv_distinct [OF assms] by (force simp: is_finalized_def fin_mem_def list_ex_iff map_of_eq_Some_iff)

lemma fin_mem_entry:
  "fin_mem (finalize_entry H thr hs m) h \<longleftrightarrow> fin_mem m h \<or> (snd hs \<le> thr \<and> fst hs = h)"
proof -
  have "fin_mem (omap_insert ht (insert x (case map_of m ht of None \<Rightarrow> {} | Some S \<Rightarrow> S)) m) h \<longleftrightarrow>
      fin_mem m h \<or> x = h" for ht x
  proof (cases "x = h")
    case True
    then show ?thesis
      by (auto simp: fin_mem_def map_of_omap_insert intro: exI [of _ ht])
  next
    case False
    let ?old = "case map_of m ht of None \<Rightarrow> {} | Some S \<Rightarrow> S"
    have "fin_mem (omap_insert ht (insert x ?old) m) h \<longleftrightarrow>
        h \<in> ?old \<or> (\<exists>ht'. ht' \<noteq> ht \<and> (\<exists>S. map_of m ht' = Some S \<and> h \<in> S))"
      using False by (auto simp: fin_mem_def map_of_omap_insert split: if_splits)
    also have "\<dots> \<longleftrightarrow> fin_mem m h"
      unfolding fin_mem_def by (cases "map_of m ht"; simp; metis option.distinct(1) option.inject)
    finally show ?thesis
      using False by simp
  qed
  then show ?thesis
    by (auto simp: finalize_entry_def Let_def)
qed

lemma fin_mem_fold:
  "fin_mem (fold (finalize_entry H thr) l m) h \<longleftrightarrow> fin_mem m h \<or> (\<exists>s. (h, s) \<in> set l \<and> s \<le> thr)"
  by (induction l arbitrary: m) (auto simp: fin_mem_entry)

lemma omap_inv_finalize: "omap_inv m \<Longrightarrow> omap_inv (fold (finalize_entry H thr) l m)"
  by (induction l arbitrary: m) (auto simp: finalize_entry_def Let_def intro!: omap_inv_insert)

lemma is_finalized_iff:
  assumes "hm_inv (block_scores fe)"
  shows "is_finalized (calculate_score_based_finality fe) h \<longleftrightarrow>
    (\<exists>s. map_of (block_scores fe) h = Some s \<and> s \<le> calculate_finality_threshold fe (head_score fe))"
proof -
  have "omap_inv (finalized_blocks (calculate_score_based_finality fe))"
    by (simp add: calculate_score_based_finality_def Let_def omap_inv_finalize)
  moreover have "fin_mem [] h = False"
    by (simp add: fin_mem_def)
  ultimately show ?thesis
    using assms unfolding is_finalized_mem [OF \<open>omap_inv _\<close>]
    by (simp add: calculate_score_based_finality_def Let_def fin_mem_fold map_of_eq_Some_iff hm_inv_def)
qed

lemma foldr_max_ge: "x \<in> set xs \<Longrightarrow> x \<le> foldr max xs (0 :: u64)"
  by (induction xs) (auto simp: max_def intro: order_trans)

lemma foldr_max_mem:
  assumes "xs \<noteq> []"
  shows "foldr max xs (0 :: u64) \<in> set xs"
  using assms
proof (induction xs)
  case (Cons x xs)
  then show ?case
    by (cases "xs = []") (auto simp: max_def)
qed simp

lemma head_score_scored:
  assumes "scored d r fe" and "r \<noteq> []" and "length r < 2 ^ 64"
  shows "unat (head_score fe) = length r - 1"
proof -
  have mem: "s \<in> snd ` set (block_scores fe) \<longleftrightarrow> (\<exists>i < length r. s = of_nat i)" for s
  proof -
    have "s \<in> snd ` set (block_scores fe) \<longleftrightarrow> (\<exists>h. map_of (block_scores fe) h = Some s)"
      using assms(1) by (auto simp: scored_def hm_inv_def image_iff Bex_def)
    also have "\<dots> \<longleftrightarrow> (\<exists>i < length r. s = of_nat i)"
      using assms(1) by (auto simp: scored_def)
    finally show ?thesis .
  qed
  have u: "unat (of_nat i :: u64) = i" if "i < length r" for i
    using that assms(3) by (intro unat_of_nat_small) simp
  have "of_nat (length r - 1) \<in> set (map snd (block_scores fe))"
    using mem [of "of_nat (length r - 1)"] assms(2) by (auto intro: exI [of _ "length r - 1"])
  then have ge: "of_nat (length r - 1) \<le> head_score fe" and ne: "map snd (block_scores fe) \<noteq> []"
    unfolding head_score_def by (rule foldr_max_ge, auto)
  obtain i where "i < length r" "head_score fe = of_nat i"
    using mem foldr_max_mem [OF ne] unfolding head_score_def by (metis set_map)
  with ge u [of i] u [of "length r - 1"] assms(2) show ?thesis
    by (simp add: word_le_nat_alt)
qed

lemma compute_finality_ok:
  assumes "dag_inv E d" and "dag_store d \<noteq> []"
  shows "\<exists>r fe1. get_topological_order (dag_idx d) (dag_store d) = Some r \<and> r \<noteq> []
    \<and> compute_finality d fe = (Inr (), calculate_score_based_finality fe1)
    \<and> scored d r fe1 \<and> anticone_cache fe1 = anticone_cache fe \<and> fe_k fe1 = fe_k fe
    \<and> max_cache_size fe1 = max_cache_size fe"
proof -
  obtain r where r: "get_topological_order (dag_idx d) (dag_store d) = Some r" "distinct r"
      "set r = fst ` set (dag_store d)"
    using topological_order_ex [OF assms(1)] by blast
  have ne: "r \<noteq> []"
    using r(3) assms(2) by auto
  have "get_block_height d h \<noteq> None" if "h \<in> set r" for h
  proof -
    have "map_of (dag_store d) h \<noteq> None"
      using that by (simp add: r(3) hm_key_iff)
    then obtain b where "map_of (dag_store d) h = Some b"
      by blast
    then have "dag_get_block d h = Some b"
      by (simp add: dag_get_block_def)
    from stored_height [OF assms(1) this] show ?thesis
      by simp
  qed
  from build_interval_tree_scored [OF ne r(2) this, of fe] obtain t H S where
    b: "build_interval_tree r d fe = Inr (fe\<lparr>interval_tree := Some t, block_heights := H, block_scores := S\<rparr>)"
    and sc: "scored d r (fe\<lparr>interval_tree := Some t, block_heights := H, block_scores := S\<rparr>)"
    by blast
  let ?fe = "fe\<lparr>interval_tree := Some t, block_heights := H, block_scores := S\<rparr>"
  obtain vs X where v: "vsp_loop d (map fst (dag_store d)) [] ?fe = (Inr vs, ?fe\<lparr>blue_scores := X\<rparr>)"
    using vsp_loop_ok [OF assms(1), of "map fst (dag_store d)" "[]" ?fe] by auto
  let ?fe1 = "?fe\<lparr>blue_scores := X, vsp_cache := vs\<rparr>"
  have "compute_finality d fe = (Inr (), calculate_score_based_finality ?fe1)"
    using ne by (simp add: compute_finality_def r(1) b compute_virtual_selected_parents_def v)
  moreover have "scored d r ?fe1"
    using sc by (simp add: scored_def)
  ultimately show ?thesis
    by (intro exI [of _ r] exI [of _ ?fe1] conjI r(1) ne) simp_all
qed

text \<open>Along an ordering with parents first, positions and heights grow from a block to its descendants.\<close>

lemma parents_first_position:
  assumes "\<forall>i < length r. set (parents_of v (r ! i)) \<subseteq> set (take i r)" and "distinct r"
    and "(y, x) \<in> {(y, x). x \<in> set (parents_of v y)}\<^sup>+" and "j < length r" and "r ! j = y"
  shows "\<exists>i < j. r ! i = x"
  using assms(3-5)
proof (induction arbitrary: j rule: converse_trancl_induct)
  case (base y)
  then have "x \<in> set (take j r)"
    using assms(1) by auto
  then show ?case
    using base.prems(1) by (auto simp: in_set_conv_nth)
next
  case (step y z)
  then have "z \<in> set (take j r)"
    using assms(1) by auto
  then obtain i where "i < j" "r ! i = z"
    using step.prems(1) by (auto simp: in_set_conv_nth)
  moreover from this obtain k where "k < i" "r ! k = x"
    using step.IH [of i] step.prems(1) by auto
  ultimately show ?case
    by (intro exI [of _ k]) simp
qed

section \<open>Cached reachability\<close>

text \<open>Every cached answer is what \<open>compute_reachability\<close> would return.\<close>

definition cache_right :: "finality_engine \<Rightarrow> interval_node \<Rightarrow> bool" where
  "cache_right fe n \<longleftrightarrow>
     (\<forall>to b. map_of (reachability_cache n) to = Some b \<longrightarrow> compute_reachability fe (in_hash n) to = Inr b)"

definition reach_coherent :: "finality_engine \<Rightarrow> bool" where
  "reach_coherent fe \<longleftrightarrow> (\<exists>t. interval_tree fe = Some t \<and> tree_all (cache_right fe) t)"

lemma update_node_all:
  assumes "tree_all P t" and "update_node f t target = Some t'"
    and "\<And>h ht s l r c l' r'. P (IntervalNode h ht s l r c) \<Longrightarrow> P (IntervalNode h ht s l' r' c)"
    and "\<And>ht s l r c. P (IntervalNode target ht s l r c) \<Longrightarrow> P (IntervalNode target ht s l r (f c))"
  shows "tree_all P t'"
  using assms(1,2)
proof (induction t arbitrary: t')
  case (IntervalNode x ht sc l r c)
  note p = IntervalNode.prems
  consider (here) "x = target" "t' = IntervalNode x ht sc l r (f c)"
    | (left) u u' where "l = Some u" "update_node f u target = Some u'" "t' = IntervalNode x ht sc (Some u') r c"
    | (right) u u' where "r = Some u" "update_node f u target = Some u'" "t' = IntervalNode x ht sc l (Some u') c"
    using p(2) by (auto split: if_splits option.splits)
  then show ?case
  proof cases
    case here
    with p(1) show ?thesis
      by (simp add: assms(4))
  next
    case left
    then have "tree_all P u'"
      using p(1) by (intro IntervalNode.IH(1) [of u u']) auto
    with left p(1) show ?thesis
      using assms(3) [of x ht sc l r c "Some u'" r] by simp
  next
    case right
    then have "tree_all P u'"
      using p(1) by (intro IntervalNode.IH(2) [of u u']) auto
    with right p(1) show ?thesis
      using assms(3) [of x ht sc l r c l "Some u'"] by simp
  qed
qed

lemma compute_reachability_tree [simp]:
  "compute_reachability (fe\<lparr>interval_tree := t\<rparr>) = compute_reachability fe"
  by (auto simp: compute_reachability_def fun_eq_iff split: option.split)

lemma cache_right_tree [simp]: "cache_right (fe\<lparr>interval_tree := t\<rparr>) = cache_right fe"
  by (simp add: cache_right_def fun_eq_iff)

lemma can_reach_spec:
  assumes "reach_coherent fe"
  shows "fst (can_reach x y fe) = compute_reachability fe x y
    \<and> reach_coherent (snd (can_reach x y fe))
    \<and> (\<exists>t. snd (can_reach x y fe) = fe\<lparr>interval_tree := t\<rparr>)"
proof -
  obtain t where t: "interval_tree fe = Some t" "tree_all (cache_right fe) t"
    using assms by (auto simp: reach_coherent_def)
  have "fe = fe\<lparr>interval_tree := Some t\<rparr>"
    using t(1) by simp
  then have fe: "\<exists>t. fe = fe\<lparr>interval_tree := t\<rparr>"
    by (rule exI)
  show ?thesis
  proof (cases "case find_node t x of None \<Rightarrow> None | Some node \<Rightarrow> map_of (reachability_cache node) y")
    case (Some b)
    then obtain n where n: "find_node t x = Some n" "map_of (reachability_cache n) y = Some b"
      by (auto split: option.splits)
    from find_node_all [OF t(2) n(1)] find_node_hash [OF n(1)] n(2)
    have "compute_reachability fe x y = Inr b"
      by (auto simp: cache_right_def)
    with Some t(1) assms fe show ?thesis
      by (auto simp: can_reach_def)
  next
    case None
    show ?thesis
    proof (cases "compute_reachability fe x y")
      case (Inl e)
      with None t(1) assms fe show ?thesis
        by (auto simp: can_reach_def)
    next
      case (Inr b)
      let ?f = "cache_insert (max_cache_size fe div 100) y b"
      have up: "tree_all (cache_right fe) t'" if "update_node ?f t x = Some t'" for t'
        by (rule update_node_all [OF t(2) that])
          (auto simp: cache_right_def cache_insert_def Let_def map_of_hm_update Inr split: if_splits)
      show ?thesis
        using None Inr t(1) assms fe up
        by (cases "update_node ?f t x") (auto simp: can_reach_def reach_coherent_def)
    qed
  qed
qed

lemma anticone_loop_spec:
  assumes "reach_coherent fe"
    and "\<And>o'. o' \<in> set others \<Longrightarrow> \<exists>b. compute_reachability fe h o' = Inr b"
  shows "\<exists>t. anticone_loop h ht others acc fe =
    (Inr (acc \<union> {o' \<in> set others. o' \<noteq> h \<and> ht \<le> (case map_of (block_heights fe) o' of None \<Rightarrow> 0 | Some x \<Rightarrow> x)
        \<and> compute_reachability fe h o' = Inr False}), fe\<lparr>interval_tree := t\<rparr>)"
  using assms
proof (induction others arbitrary: acc fe)
  case Nil
  show ?case
    by (auto intro: exI [of _ "interval_tree fe"])
next
  case (Cons a others)
  note c = can_reach_spec [OF Cons.prems(1), of h a]
  show ?case
  proof (cases "a \<noteq> h \<and> ht \<le> (case map_of (block_heights fe) a of None \<Rightarrow> 0 | Some x \<Rightarrow> x)")
    case False
    with Cons.IH [OF Cons.prems(1), of acc] Cons.prems(2) show ?thesis
      by auto
  next
    case True
    obtain b where b: "compute_reachability fe h a = Inr b"
      using Cons.prems(2) [of a] by auto
    obtain t where t: "can_reach h a fe = (Inr b, fe\<lparr>interval_tree := t\<rparr>)"
      "reach_coherent (fe\<lparr>interval_tree := t\<rparr>)"
      using c b by (cases "can_reach h a fe") auto
    have "\<exists>t'. anticone_loop h ht others (if b then acc else insert a acc) (fe\<lparr>interval_tree := t\<rparr>) =
        (Inr ((if b then acc else insert a acc) \<union> {o' \<in> set others. o' \<noteq> h
          \<and> ht \<le> (case map_of (block_heights fe) o' of None \<Rightarrow> 0 | Some x \<Rightarrow> x)
          \<and> compute_reachability fe h o' = Inr False}), fe\<lparr>interval_tree := t'\<rparr>)"
      using Cons.IH [OF t(2), of "if b then acc else insert a acc"] Cons.prems(2) by simp
    then show ?thesis
      using True b by (cases b) (auto simp: t(1))
  qed
qed

lemma scored_reachability:
  assumes "scored d r fe" and "i < length r" and "j < length r" and "distinct r" and "length r < 2 ^ 64"
    and "get_block_height d (r ! i) = Some a" and "get_block_height d (r ! j) = Some b"
  shows "compute_reachability fe (r ! i) (r ! j) = Inr (a \<le> b \<and> i \<le> j)"
proof -
  have "map_of (block_heights fe) (r ! i) = Some a" "map_of (block_heights fe) (r ! j) = Some b"
    using assms(1-3,6,7) by (simp_all add: scored_def)
  moreover have "map_of (block_scores fe) (r ! i) = Some (of_nat i)" "map_of (block_scores fe) (r ! j) = Some (of_nat j)"
    using assms(1-3) unfolding scored_def by blast+
  moreover have "unat (of_nat i :: u64) = i" "unat (of_nat j :: u64) = j"
    using assms(2,3,5) by (auto intro!: unat_of_nat_small)
  then have "(of_nat i :: u64) \<le> of_nat j \<longleftrightarrow> i \<le> j"
    by (simp only: word_le_nat_alt)
  ultimately show ?thesis
    by (simp add: compute_reachability_def)
qed

lemma scored_coherent:
  assumes "scored d r fe"
  shows "reach_coherent fe"
proof -
  obtain t where t: "interval_tree fe = Some t" "tree_all (\<lambda>n. reachability_cache n = []) t"
    using assms by (auto simp: scored_def)
  have "tree_all P t \<Longrightarrow> (\<And>n. P n \<Longrightarrow> Q n) \<Longrightarrow> tree_all Q t" for P Q t
    by (induction t) (auto split: option.splits)
  from this [OF t(2), of "cache_right fe"] t(1) show ?thesis
    by (simp add: reach_coherent_def cache_right_def)
qed

text \<open>Positions and heights of ancestors.\<close>

lemma ancestor_position:
  assumes "dag_inv E d" and "get_topological_order (dag_idx d) (dag_store d) = Some r"
    and "is_ancestor (dag_store d) x (r ! j)" and "j < length r"
  shows "\<exists>i < j. r ! i = x"
    and "height_of (dag_store d) x < height_of (dag_store d) (r ! j)"
proof -
  have r: "distinct r" "\<forall>i < length r. set (parents_of (dag_store d) (r ! i)) \<subseteq> set (take i r)"
    using topological_order_ex [OF assms(1)] assms(2) by auto
  have a: "(r ! j, x) \<in> (edges (parent_graph (dag_store d)))\<^sup>+"
    using assms(3) by (simp add: is_ancestor_def get_all_ancestors_reach)
  then have "(r ! j, x) \<in> {(y, x). x \<in> set (parents_of (dag_store d) y)}\<^sup>+"
    by (simp only: edges_parent_graph_set)
  from parents_first_position [OF r(2,1) this assms(4) refl] show "\<exists>i < j. r ! i = x" .
  from a obtain k where "(r ! j, x) \<in> edges (parent_graph (dag_store d)) ^^ k" "0 < k"
    unfolding trancl_power by blast
  with path_height [OF assms(1)] show "height_of (dag_store d) x < height_of (dag_store d) (r ! j)"
    by fastforce
qed

lemma ordering_facts:
  assumes "dag_inv E d" and "get_topological_order (dag_idx d) (dag_store d) = Some r"
  shows "distinct r" and "set r = fst ` set (dag_store d)" and "length r < 2 ^ 64"
proof -
  show rs: "distinct r" "set r = fst ` set (dag_store d)"
    using topological_order_ex [OF assms(1)] assms(2) by auto
  show "length r < 2 ^ 64"
    using rs dag_invD(1,4) [OF assms(1)] omap_inv_distinct [of "dag_store d"]
    by (metis view_ok_def distinct_card length_map set_map)
qed

lemma height_nat:
  assumes "dag_inv E d" and "x \<in> fst ` set (dag_store d)"
  shows "get_block_height d x = Some (of_nat (height_of (dag_store d) x))"
proof -
  have "map_of (dag_store d) x \<noteq> None"
    using assms(2) by (simp add: hm_key_iff)
  then obtain b where "map_of (dag_store d) x = Some b"
    by blast
  with stored_height [OF assms(1), of x b] show ?thesis
    by (simp add: dag_get_block_def height_of_def)
qed

lemma height_word_le:
  "(of_nat (height_of v x) :: u64) \<le> of_nat (height_of v y) \<longleftrightarrow> height_of v x \<le> height_of v y"
proof -
  have "height_of v z < 2 ^ 64" for z
    using unat_bound [where 'a = 64] by (auto simp: height_of_def split: option.split)
  from this [of x] this [of y] show ?thesis
    by (simp only: word_le_nat_alt) (simp add: unat_of_nat_small)
qed

lemma ordered_reachability:
  assumes "dag_inv E d" and "get_topological_order (dag_idx d) (dag_store d) = Some r"
    and "scored d r fe" and "i < length r" and "j < length r"
  shows "compute_reachability fe (r ! i) (r ! j) =
      Inr (height_of (dag_store d) (r ! i) \<le> height_of (dag_store d) (r ! j) \<and> i \<le> j)"
proof -
  note o = ordering_facts [OF assms(1,2)]
  have "r ! i \<in> fst ` set (dag_store d)" "r ! j \<in> fst ` set (dag_store d)"
    using assms(4,5) o(2) nth_mem by blast+
  from scored_reachability [OF assms(3-5) o(1,3) height_nat [OF assms(1) this(1)] height_nat [OF assms(1) this(2)]]
  show ?thesis
    by (simp add: height_word_le)
qed

lemma ancestor_reachable:
  assumes "dag_inv E d" and "get_topological_order (dag_idx d) (dag_store d) = Some r"
    and "scored d r fe" and "is_ancestor (dag_store d) x (r ! m)" and "m < length r"
  shows "compute_reachability fe x (r ! m) = Inr True"
proof -
  obtain i where "i < m" "r ! i = x"
    using ancestor_position(1) [OF assms(1,2,4,5)] by blast
  with ordered_reachability [OF assms(1-3), of i m] assms(5) ancestor_position(2) [OF assms(1,2,4,5)]
  show ?thesis
    by auto
qed

lemma finality_prefix:
  assumes "dag_inv E d" and "dag_store d \<noteq> []" and "fe_k fe < 2 ^ 64"
  shows "\<exists>r fe'. get_topological_order (dag_idx d) (dag_store d) = Some r
    \<and> compute_finality d fe = (Inr (), fe')
    \<and> (\<forall>h. is_finalized fe' h \<longleftrightarrow> (\<exists>i < length r. h = r ! i
         \<and> i \<le> length r - 1 - fe_k fe - unat (safety_margin (of_nat (length r - 1)))))
    \<and> (\<forall>x y. is_ancestor (dag_store d) x y \<and> is_finalized fe' y \<longrightarrow> is_finalized fe' x)
    \<and> is_finalized fe' (hd r)"
proof -
  obtain r fe1 where r: "get_topological_order (dag_idx d) (dag_store d) = Some r" "r \<noteq> []"
    and c: "compute_finality d fe = (Inr (), calculate_score_based_finality fe1)"
    and sc: "scored d r fe1" and k: "fe_k fe1 = fe_k fe"
    using compute_finality_ok [OF assms(1,2)] by blast
  note len = ordering_facts(3) [OF assms(1) r(1)]
  let ?n = "length r - 1"
  let ?lim = "?n - fe_k fe - unat (safety_margin (of_nat ?n))"
  have u: "unat (of_nat i :: u64) = i" if "i < length r" for i
    using that len by (intro unat_of_nat_small) simp
  have "?n < length r"
    using r(2) by simp
  from u [OF this] have hd: "head_score fe1 = of_nat ?n"
    unfolding word_unat_eq_iff head_score_scored [OF sc r(2) len] by simp
  have thr: "unat (calculate_finality_threshold fe1 (head_score fe1)) = ?lim"
    using r(2) assms(3) u [of ?n] by (simp add: calculate_finality_threshold_def hd unat_sat_sub k unat_of_nat_small)
  have fin: "is_finalized (calculate_score_based_finality fe1) h \<longleftrightarrow> (\<exists>i < length r. h = r ! i \<and> i \<le> ?lim)" for h
  proof -
    have "is_finalized (calculate_score_based_finality fe1) h \<longleftrightarrow>
        (\<exists>s :: u64. (\<exists>i < length r. h = r ! i \<and> s = of_nat i) \<and> unat s \<le> ?lim)"
      using is_finalized_iff [of fe1 h] sc thr by (simp add: scored_def word_le_nat_alt)
    then show ?thesis
      using u by auto
  qed
  have "is_finalized (calculate_score_based_finality fe1) x"
    if "is_ancestor (dag_store d) x y" "is_finalized (calculate_score_based_finality fe1) y" for x y
  proof -
    from that(2) obtain j where j: "j < length r" "y = r ! j" "j \<le> ?lim"
      using fin by blast
    from ancestor_position(1) [OF assms(1) r(1) that(1) [unfolded j(2)] j(1)] j show ?thesis
      using fin [of x] by force
  qed
  moreover have "is_finalized (calculate_score_based_finality fe1) (hd r)"
    using fin [of "hd r"] r(2) by (auto simp: hd_conv_nth)
  ultimately show ?thesis
    using r(1) c fin by blast
qed

section \<open>Properties\<close>

text \<open>
  C3. On a non-empty DAG that satisfies its invariant \<open>compute_finality\<close> succeeds, and what it
  finalises is exactly the prefix of the ordering that ends \<open>k\<close> positions and a tenth of the
  length before its last block. So finality is closed under ancestors, and the first block of
  the ordering is always finalised.
\<close>

theorem finality_is_ordering_prefix:
  assumes "dag_inv E d" and "dag_store d \<noteq> []" and "fe_k fe < 2 ^ 64"
  shows "\<exists>r fe'. get_topological_order (dag_idx d) (dag_store d) = Some r
    \<and> compute_finality d fe = (Inr (), fe')
    \<and> (\<forall>h. is_finalized fe' h \<longleftrightarrow> (\<exists>i < length r. h = r ! i
         \<and> i \<le> length r - 1 - fe_k fe - unat (safety_margin (of_nat (length r - 1)))))
    \<and> (\<forall>x y. is_ancestor (dag_store d) x y \<and> is_finalized fe' y \<longrightarrow> is_finalized fe' x)
    \<and> is_finalized fe' (hd r)"
  using assms by (rule finality_prefix)

theorem finality_is_ordering_prefix_witness:
  "\<exists>r fe'. get_topological_order (dag_idx sample_dag2) (dag_store sample_dag2) = Some r
    \<and> compute_finality sample_dag2 (finality_new 6) = (Inr (), fe') \<and> is_finalized fe' (hd r)"
proof -
  have "dag_store sample_dag2 \<noteq> []"
    by (simp add: sample_dag2_store)
  moreover have "fe_k (finality_new 6) < 2 ^ 64"
    by (simp add: finality_new_def finality_new_with_k_def)
  ultimately show ?thesis
    using finality_is_ordering_prefix [OF dag_reachable_inv [OF sample_dag2_reachable]] by blast
qed

text \<open>The set that is computed for a block without an entry in the cache, and what its members are.\<close>

definition unreached :: "block_dag \<Rightarrow> block_hash \<Rightarrow> finality_engine \<Rightarrow> block_hash set" where
  "unreached d h fe = {x \<in> set (map fst (dag_store d)). x \<noteq> h
     \<and> of_nat (height_of (dag_store d) h) \<le> (case map_of (block_heights fe) x of None \<Rightarrow> 0 | Some a \<Rightarrow> a)
     \<and> compute_reachability fe h x = Inr False}"

lemma scored_block_height:
  assumes "dag_inv E d" and "get_topological_order (dag_idx d) (dag_store d) = Some r" and "scored d r fe" and "x \<in> set r"
  shows "map_of (block_heights fe) x = Some (of_nat (height_of (dag_store d) x))"
  using assms(3,4) height_nat [OF assms(1), of x] ordering_facts(2) [OF assms(1,2)] by (simp add: scored_def)

lemma anticone_computed:
  assumes "dag_inv E d" and "get_topological_order (dag_idx d) (dag_store d) = Some r" and "scored d r fe" and "h \<in> set r"
    and "map_of (anticone_cache fe) h = None"
  shows "\<exists>fe'. fin_get_anticone iter now h d fe = (Inr (unreached d h fe), fe')"
proof -
  note rs = ordering_facts [OF assms(1,2)]
  obtain j where j: "j < length r" "h = r ! j"
    using assms(4) by (auto simp: in_set_conv_nth)
  have nb: "\<exists>b. compute_reachability fe h x = Inr b" if "x \<in> set (map fst (dag_store d))" for x
  proof -
    have "x \<in> set r"
      using that by (simp add: rs(2))
    then show ?thesis
      using ordered_reachability [OF assms(1-3), of j] j by (auto simp: in_set_conv_nth)
  qed
  obtain t where "anticone_loop h (of_nat (height_of (dag_store d) h)) (map fst (dag_store d)) {} fe =
      (Inr (unreached d h fe), fe\<lparr>interval_tree := t\<rparr>)"
    using anticone_loop_spec [where others = "map fst (dag_store d)" and h = h and acc = "{}"
        and ht = "of_nat (height_of (dag_store d) h)", OF scored_coherent [OF assms(3)] nb] by (auto simp: unreached_def)
  then have "compute_anticone h d fe = (Inr (unreached d h fe), fe\<lparr>interval_tree := t\<rparr>)"
    using scored_block_height [OF assms(1-4)] by (simp add: compute_anticone_def)
  then show ?thesis
    by (simp add: fin_get_anticone_def assms(5) Let_def)
qed

lemma unreached_unrelated:
  assumes "dag_inv E d" and "get_topological_order (dag_idx d) (dag_store d) = Some r" and "scored d r fe" and "h \<in> set r"
    and "x \<in> unreached d h fe"
  shows "x \<in> fst ` set (dag_store d) \<and> x \<noteq> h \<and> \<not> is_ancestor (dag_store d) x h \<and> \<not> is_ancestor (dag_store d) h x"
proof -
  have xr: "x \<in> set r"
    using assms(5) ordering_facts(2) [OF assms(1,2)] by (simp add: unreached_def)
  obtain j m where j: "j < length r" "h = r ! j" and m: "m < length r" "x = r ! m"
    using assms(4) xr by (auto simp: in_set_conv_nth)
  have "height_of (dag_store d) h \<le> height_of (dag_store d) x"
    using assms(5) scored_block_height [OF assms(1-3) xr] by (simp add: unreached_def height_word_le)
  then have "\<not> is_ancestor (dag_store d) x h"
    using ancestor_position(2) [OF assms(1,2), of x j] j by auto
  moreover have "\<not> is_ancestor (dag_store d) h x"
    using ancestor_reachable [OF assms(1-3), of h m] m assms(5) by (auto simp: unreached_def)
  ultimately show ?thesis
    using assms(5) by (auto simp: unreached_def)
qed

text \<open>
  C33. After \<open>compute_finality\<close>, \<open>can_reach\<close> reports every ancestor, and the anticone computed for
  a block is a set of stored blocks that are neither its ancestors nor its descendants. The
  converse does not hold: \<open>can_reach\<close> compares heights and positions only, so the anticone is
  the set of blocks that stand earlier in the ordering at the same or a greater height.
\<close>

theorem anticone_is_sound:
  assumes "dag_inv E d" and "compute_finality d fe = (Inr (), fe')"
    and "dag_store d \<noteq> []" and "h \<in> fst ` set (dag_store d)" and "map_of (anticone_cache fe) h = None"
  shows "\<exists>A fe''. fin_get_anticone iter now h d fe' = (Inr A, fe'')
    \<and> (\<forall>x \<in> A. x \<in> fst ` set (dag_store d) \<and> x \<noteq> h
        \<and> \<not> is_ancestor (dag_store d) x h \<and> \<not> is_ancestor (dag_store d) h x)
    \<and> (\<forall>x. is_ancestor (dag_store d) x h \<longrightarrow> fst (can_reach x h fe') = Inr True)"
proof -
  obtain r fe1 where r: "get_topological_order (dag_idx d) (dag_store d) = Some r"
    and c: "fe' = calculate_score_based_finality fe1"
    and sc1: "scored d r fe1" and ac: "anticone_cache fe1 = anticone_cache fe"
    using compute_finality_ok [OF assms(1,3), of fe] assms(2) by auto
  have sc: "scored d r fe'" and ca: "map_of (anticone_cache fe') h = None"
    using sc1 ac assms(5) by (simp_all add: c calculate_score_based_finality_def scored_def)
  have h: "h \<in> set r"
    using assms(4) ordering_facts(2) [OF assms(1) r] by simp
  then obtain j where j: "j < length r" "h = r ! j"
    by (auto simp: in_set_conv_nth)
  have "fst (can_reach x h fe') = Inr True" if "is_ancestor (dag_store d) x h" for x
    using can_reach_spec [OF scored_coherent [OF sc], of x h] ancestor_reachable [OF assms(1) r sc, of x j] that j by simp
  then show ?thesis
    using anticone_computed [OF assms(1) r sc h ca, of iter now] unreached_unrelated [OF assms(1) r sc h] by blast
qed

theorem anticone_is_sound_witness:
  "\<exists>fe' A fe''. compute_finality sample_dag2 (finality_new 6) = (Inr (), fe')
    \<and> fin_get_anticone (map fst) 0 (replicate 32 140) sample_dag2 fe' = (Inr A, fe'')"
proof -
  have d: "dag_inv sample_env sample_dag2"
    by (rule dag_reachable_inv [OF sample_dag2_reachable])
  have ne: "dag_store sample_dag2 \<noteq> []" "replicate 32 140 \<in> fst ` set (dag_store sample_dag2)"
    by (simp_all add: sample_dag2_store)
  obtain fe' where f: "compute_finality sample_dag2 (finality_new 6) = (Inr (), fe')"
    using compute_finality_ok [OF d ne(1), of "finality_new 6"] by blast
  have "map_of (anticone_cache (finality_new 6)) (replicate 32 140) = None"
    by (simp add: finality_new_def finality_new_with_k_def)
  from anticone_is_sound [OF d f ne this, of "map fst" 0] f show ?thesis
    by blast
qed

text \<open>
  The anticone cache is not cleared by \<open>compute_finality\<close>: an anticone computed once is reported
  unchanged however the DAG has grown in between.
\<close>

theorem anticone_cache_is_stale:
  assumes "dag_inv E d" and "dag_store d \<noteq> []" and "map_of (anticone_cache fe) h = Some e"
  shows "fst (fin_get_anticone iter now h d (snd (compute_finality d fe))) = Inr (ae_anticone e)"
proof -
  obtain fe1 where "compute_finality d fe = (Inr (), calculate_score_based_finality fe1)"
    and "anticone_cache fe1 = anticone_cache fe"
    using compute_finality_ok [OF assms(1,2), of fe] by blast
  with assms(3) show ?thesis
    by (simp add: fin_get_anticone_def calculate_score_based_finality_def Let_def)
qed

end
