(* ===== verification/Fees.thy ===== *)
theory Fees
  imports Block_Dag
begin

text \<open>
  What the next block has to offer: the base fee (\<^verbatim>\<open>src/src/consensus/fee_market.rs\<close>) and the
  difficulty (\<^verbatim>\<open>src/src/consensus/daa.rs\<close>), both computed from the DAG's topological order.
  \<open>None\<close> is a counter underflow of the topological sort, as in \<open>Dag_Index\<close>.
\<close>

section \<open>Base fee\<close>

definition adjust_base_fee :: "u64 \<Rightarrow> nat \<Rightarrow> u64" where
  "adjust_base_fee base tx_len =
     (let prev_base = max base 1;
          tx_count = (of_nat tx_len :: u64);
          new_fee = (if tx_count * 2 > 1000 then prev_base + prev_base * 10 div 100
                     else sat_sub prev_base (prev_base * 10 div 100))
      in max new_fee 1)"

definition next_base_fee :: "block_dag \<Rightarrow> u64 option" where
  "next_base_fee d =
     map_option
       (\<lambda>order. if order = [] then 1
          else case dag_get_block d (last order) of
            None \<Rightarrow> 1
          | Some b \<Rightarrow> adjust_base_fee (hd_base_fee (header b)) (length (transactions b)))
       (get_topological_order (dag_idx d) (dag_store d))"

section \<open>Difficulty\<close>

definition DAA_WINDOW :: nat where "DAA_WINDOW = 263"
definition MAX_GAP :: u64 where "MAX_GAP = 4"

fun clamped_timespan :: "u64 \<Rightarrow> block list \<Rightarrow> u64 \<Rightarrow> u64" where
  "clamped_timespan prev_ts [] actual = actual"
| "clamped_timespan prev_ts (b # bs) actual =
     (let ts = hd_timestamp (header b);
          delta = (if ts > prev_ts then ts - prev_ts else 0)
      in clamped_timespan ts bs (sat_add actual (min delta MAX_GAP)))"

definition adjust_ratio :: "u64 \<Rightarrow> rat" where
  "adjust_ratio actual =
     (let ratio = fl (u64_to_f64 actual / of_nat DAA_WINDOW)
      in if ratio < 1 / 4 then 1 / 4 else if ratio > 4 then 4 else ratio)"

definition scale_difficulty :: "u32 \<Rightarrow> rat \<Rightarrow> u32" where
  "scale_difficulty prev ratio =
     (let next = f64_round (fl (of_nat (unat prev) * ratio));
          next = (if next < 1 then 1 else next);
          next = (if next > 4294967295 then 4294967295 else next)
      in f64_to_u32 next)"

definition calculate_next_difficulty :: "block list \<Rightarrow> u32" where
  "calculate_next_difficulty blocks =
     (if length blocks < DAA_WINDOW
      then (if blocks = [] then 1 else hd_difficulty (header (last blocks)))
      else let recent = drop (length blocks - DAA_WINDOW) blocks;
               actual = clamped_timespan (hd_timestamp (header (hd recent))) (tl recent) 0
           in scale_difficulty (hd_difficulty (header (last recent))) (adjust_ratio actual))"

definition next_difficulty :: "block_dag \<Rightarrow> u32 option" where
  "next_difficulty d =
     map_option
       (\<lambda>order. calculate_next_difficulty
          (rev (List.map_filter (dag_get_block d) (take DAA_WINDOW (rev order)))))
       (get_topological_order (dag_idx d) (dag_store d))"

section \<open>Lemmas\<close>

lemma unat_ten_percent:
  assumes "unat (x :: u64) < 2 ^ 60"
  shows "unat (x * 10 div 100) = unat x * 10 div 100"
proof -
  have "unat (x * 10) = unat x * 10"
    using assms by (simp add: unat_word_ariths)
  then show ?thesis
    by (simp add: unat_div)
qed

lemma clamped_timespan_bound:
  "unat (clamped_timespan t bs a) \<le> unat a + 4 * length bs"
proof (induction bs arbitrary: t a)
  case (Cons b bs)
  let ?d = "if hd_timestamp (header b) > t then hd_timestamp (header b) - t else 0"
  let ?a = "sat_add a (min ?d MAX_GAP)"
  have "unat (min ?d MAX_GAP) \<le> 4"
    by (auto simp: min_def MAX_GAP_def word_le_nat_alt)
  then have "unat ?a \<le> unat a + 4"
    by (simp add: unat_sat_add)
  with Cons.IH [of "hd_timestamp (header b)" ?a]
  have "unat (clamped_timespan (hd_timestamp (header b)) bs ?a) \<le> unat a + 4 * length (b # bs)"
    by simp
  then show ?case
    by (simp only: clamped_timespan.simps Let_def)
qed simp

lemma clamped_timespan_slow:
  assumes "sorted_wrt (\<lambda>x y. unat x + 4 \<le> unat y) (t # map (hd_timestamp \<circ> header) bs)"
    and "unat a + 4 * length bs < 2 ^ 64"
  shows "unat (clamped_timespan t bs a) = unat a + 4 * length bs"
  using assms
proof (induction t bs a rule: clamped_timespan.induct)
  case (2 prev_ts b bs a)
  let ?ts = "hd_timestamp (header b)"
  have "unat prev_ts + 4 \<le> unat ?ts"
    using "2.prems"(1) by simp
  then have "prev_ts < ?ts" "4 \<le> unat (?ts - prev_ts)"
    by (auto simp: word_less_nat_alt unat_sub word_le_nat_alt)
  then have m: "min (if ?ts > prev_ts then ?ts - prev_ts else 0) MAX_GAP = 4"
    by (simp add: MAX_GAP_def min_absorb2 word_le_nat_alt)
  have "unat (sat_add a 4) = unat a + 4"
    using "2.prems"(2) by (simp add: unat_sat_add)
  with "2.IH" [OF refl refl] "2.prems" show ?case
    by (simp add: m Let_def)
qed simp

lemma adjust_ratio_range: "1 / 4 \<le> adjust_ratio a \<and> adjust_ratio a \<le> 4"
  by (auto simp: adjust_ratio_def Let_def)

lemma f64_round_le_int: "0 \<le> x \<Longrightarrow> x \<le> of_int m \<Longrightarrow> f64_round x \<le> of_int m"
  by (simp add: f64_round_def floor_le_iff)

lemma f64_round_ge_int: "0 \<le> m \<Longrightarrow> of_int m \<le> x \<Longrightarrow> of_int m \<le> f64_round x"
  by (simp add: f64_round_def le_floor_iff)

lemma scale_difficulty_eq:
  assumes "0 \<le> r"
  shows "int (unat (scale_difficulty prev r)) =
    min (max \<lfloor>f64_round (fl (of_nat (unat prev) * r))\<rfloor> 1) 4294967295"
proof -
  let ?n = "f64_round (fl (of_nat (unat prev) * r))"
  let ?m = "if (if ?n < 1 then 1 else ?n) > 4294967295 then 4294967295 else if ?n < 1 then 1 else ?n"
  have "0 \<le> ?m" "?m < 2 ^ 32"
    by auto
  then have "int (unat (scale_difficulty prev r)) = \<lfloor>?m\<rfloor>"
    unfolding scale_difficulty_def Let_def by (subst unat_f64_to_u32) auto
  also have "\<dots> = min (max \<lfloor>?n\<rfloor> 1) 4294967295"
    by (auto simp: min_def max_def not_less le_floor_iff floor_less_iff intro: floor_unique)
  finally show ?thesis .
qed

section \<open>Properties\<close>

text \<open>
  One step of the base fee: a tenth, rounded down, up after a block with more than 500
  transactions and down after any other, never below 1. Below 10 the tenth is 0, so a base
  fee under 10 never moves again.
\<close>

theorem base_fee_step:
  assumes "unat base < 2 ^ 60" and "tx_len < 2 ^ 60"
  shows "unat (adjust_base_fee base tx_len) =
      (let p = max (unat base) 1 in if 500 < tx_len then p + p div 10 else p - p div 10)
    \<and> (base < 10 \<longrightarrow> adjust_base_fee base tx_len = max base 1)"
proof -
  let ?p = "max base 1"
  have p: "unat ?p = max (unat base) 1"
    by (simp add: max_def word_le_nat_alt)
  have ten: "unat (?p * 10 div 100) = unat ?p div 10"
    using unat_ten_percent [of ?p] assms(1) p by (simp add: div_mult2_eq [of _ 10 10])
  have cnt: "(of_nat tx_len * 2 :: u64) > 1000 \<longleftrightarrow> 500 < tx_len"
  proof -
    have "unat (of_nat tx_len * 2 :: u64) = tx_len * 2"
      using assms(2) by (simp add: unat_word_ariths unat_of_nat)
    then show ?thesis
      by (simp add: word_less_nat_alt)
  qed
  have up: "unat (?p + ?p * 10 div 100) = unat ?p + unat ?p div 10"
    using assms(1) p by (subst unat_add_no_overflow) (simp_all add: ten)
  have down: "unat (sat_sub ?p (?p * 10 div 100)) = unat ?p - unat ?p div 10"
    by (simp only: unat_sat_sub ten)
  have ge: "1 \<le> unat ?p - unat ?p div 10"
    using p by (cases "unat ?p") auto
  have *: "unat (adjust_base_fee base tx_len) =
      (if 500 < tx_len then unat ?p + unat ?p div 10 else unat ?p - unat ?p div 10)"
    unfolding adjust_base_fee_def Let_def cnt using up down ge p
    by (auto simp: max_def word_le_nat_alt [of _ "1 :: u64"] split: if_splits)
  moreover have "adjust_base_fee base tx_len = ?p" if "base < 10"
  proof -
    have "unat ?p div 10 = 0"
      using that p by (simp add: word_less_nat_alt max_def)
    with * have "unat (adjust_base_fee base tx_len) = unat ?p"
      by simp
    then show ?thesis
      by (simp only: word_unat_eq_iff)
  qed
  ultimately show ?thesis
    by (simp add: p Let_def)
qed

theorem base_fee_step_witness: "adjust_base_fee 9 900 = 9 \<and> unat (adjust_base_fee 100 900) = 110"
  using base_fee_step [of 9 900] base_fee_step [of 100 900] by (simp add: max_def Let_def word_le_nat_alt)

text \<open>
  The difficulty of the next block is at least 1 and at most four times the last one, and
  it moves against its purpose: when every block of the window came at least four seconds
  after its predecessor (the target is one second), the difficulty at least triples.
\<close>

theorem next_difficulty_range:
  assumes "DAA_WINDOW \<le> length blocks" and "prev = hd_difficulty (header (last blocks))"
    and "1 \<le> unat prev" and "unat prev < 2 ^ 30"
  shows "1 \<le> unat (calculate_next_difficulty blocks)
    \<and> unat (calculate_next_difficulty blocks) \<le> 4 * unat prev
    \<and> (sorted_wrt (\<lambda>x y. unat x + 4 \<le> unat y) (map (hd_timestamp \<circ> header) blocks) \<longrightarrow>
        3 * unat prev \<le> unat (calculate_next_difficulty blocks))"
proof -
  define recent where "recent = drop (length blocks - DAA_WINDOW) blocks"
  define r where "r = adjust_ratio (clamped_timespan (hd_timestamp (header (hd recent))) (tl recent) 0)"
  have len: "length recent = 263" and last: "last recent = last blocks"
    using assms(1) by (auto simp: recent_def DAA_WINDOW_def)
  have eq: "calculate_next_difficulty blocks = scale_difficulty prev r"
    using assms(1) unfolding calculate_next_difficulty_def Let_def recent_def [symmetric] last assms(2) r_def
    by simp
  have r: "1 / 4 \<le> r" "r \<le> 4"
    using adjust_ratio_range by (simp_all add: r_def)
  let ?x = "of_nat (unat prev) * r" and ?p = "int (unat prev)"
  have "0 \<le> r"
    using r(1) by simp
  then have x0: "0 \<le> ?x"
    by (rule mult_nonneg_nonneg [OF of_nat_0_le_iff])
  have "?x \<le> of_nat (unat prev) * 4"
    by (rule mult_left_mono [OF r(2) of_nat_0_le_iff])
  also have "\<dots> = of_int (4 * ?p)"
    by (simp only: of_int_mult of_int_of_nat_eq of_int_numeral mult.commute)
  finally have x4: "?x \<le> of_int (4 * ?p)" .
  have "unat prev < 1073741824"
    using assms(4) by simp
  then have pi: "?p < 1073741824"
    by linarith
  then have pb: "\<bar>4 * ?p\<bar> < 2 ^ 53"
    by simp
  have "fl ?x \<le> of_int (4 * ?p)"
    by (rule f64.rnd_le_int [OF pb x4])
  then have up: "f64_round (fl ?x) \<le> of_int (4 * ?p)"
    by (intro f64_round_le_int f64.rnd_nonneg x0)
  have v: "int (unat (scale_difficulty prev r)) = min (max \<lfloor>f64_round (fl ?x)\<rfloor> 1) 4294967295"
    using scale_difficulty_eq [of r prev] r(1) by simp
  have "\<lfloor>f64_round (fl ?x)\<rfloor> \<le> 4 * ?p"
    using up by (simp add: floor_le_iff)
  with v assms(3) have "1 \<le> unat (scale_difficulty prev r)" "unat (scale_difficulty prev r) \<le> 4 * unat prev"
    by linarith+
  moreover have "3 * unat prev \<le> unat (scale_difficulty prev r)"
    if slow: "sorted_wrt (\<lambda>x y. unat x + 4 \<le> unat y) (map (hd_timestamp \<circ> header) blocks)"
  proof -
    have "sorted_wrt (\<lambda>x y. unat x + 4 \<le> unat y) (map (hd_timestamp \<circ> header) recent)"
      unfolding recent_def drop_map [symmetric] by (rule sorted_wrt_drop [OF slow])
    moreover have "recent = hd recent # tl recent"
      using len by (cases recent) auto
    ultimately have "sorted_wrt (\<lambda>x y. unat x + 4 \<le> unat y)
        (hd_timestamp (header (hd recent)) # map (hd_timestamp \<circ> header) (tl recent))"
      by (metis comp_apply list.simps(9))
    from clamped_timespan_slow [OF this, of 0]
    have "unat (clamped_timespan (hd_timestamp (header (hd recent))) (tl recent) 0) = 1048"
      using len by simp
    then have "r = adjust_ratio 1048"
      unfolding r_def by (intro arg_cong [of _ _ adjust_ratio]) (simp add: word_unat_eq_iff)
    moreover have "3 \<le> adjust_ratio 1048"
    proof -
      have "u64_to_f64 1048 = 1048"
        using f64.rnd_int [of 1048] by (simp add: u64_to_f64_def)
      moreover have "3 \<le> fl (1048 / 263)"
        using f64.rnd_ge_int [of 3 "1048 / 263"] by simp
      ultimately show ?thesis
        by (simp add: adjust_ratio_def DAA_WINDOW_def Let_def)
    qed
    ultimately have "of_nat (unat prev) * 3 \<le> ?x"
      by (intro mult_left_mono of_nat_0_le_iff) simp
    then have "of_int (3 * ?p) \<le> ?x"
      by (simp only: of_int_mult of_int_of_nat_eq of_int_numeral mult.commute)
    then have "of_int (3 * ?p) \<le> fl ?x"
      by (rule f64.rnd_ge_int [rotated]) (use pb in linarith)
    then have "of_int (3 * ?p) \<le> f64_round (fl ?x)"
      by (intro f64_round_ge_int) simp_all
    then have "3 * ?p \<le> \<lfloor>f64_round (fl ?x)\<rfloor>"
      by (simp only: le_floor_iff)
    moreover have "3 * ?p \<le> 4294967295"
      using pi by linarith
    ultimately have "3 * ?p \<le> int (unat (scale_difficulty prev r))"
      unfolding v by linarith
    then show ?thesis
      by linarith
  qed
  ultimately show ?thesis
    unfolding eq by blast
qed

definition slow_block :: "nat \<Rightarrow> block" where
  "slow_block i = block_new sample_env [] (of_nat (10 * i)) [] 0 5 1 (replicate 20 9) (replicate 32 0)"

theorem next_difficulty_range_witness:
  "15 \<le> unat (calculate_next_difficulty (map slow_block [0..<263]))
   \<and> unat (calculate_next_difficulty (map slow_block [0..<263])) \<le> 20"
proof -
  let ?bs = "map slow_block [0..<263]"
  have A: "DAA_WINDOW \<le> length ?bs" and B: "5 = hd_difficulty (header (last ?bs))"
    by (simp_all add: DAA_WINDOW_def last_map slow_block_def)
  have e: "map (hd_timestamp \<circ> header) ?bs = map (\<lambda>i. of_nat (10 * i) :: u64) [0..<263]"
    by (simp add: slow_block_def)
  have "unat (of_nat (10 * i) :: u64) = 10 * i" if "i < 263" for i
    using that by (intro unat_of_nat_small) simp
  then have "sorted_wrt (\<lambda>x y. unat x + 4 \<le> unat y) (map (hd_timestamp \<circ> header) ?bs)"
    unfolding e by (simp add: sorted_wrt_iff_nth_less)
  with next_difficulty_range [OF A B] show ?thesis
    by (simp del: map_map)
qed

end
