(* ===== verification/State.thy ===== *)
theory State
  imports Block
begin

text \<open>
  Accounts, the Merkle tree over them and the state manager:
  \<^verbatim>\<open>src/src/state/state_tree.rs\<close> and \<^verbatim>\<open>src/src/state/state_manager.rs\<close>.

  The leaves are a hash map. \<open>rebuild_tree\<close> and \<open>get_total_supply\<close> iterate over it; the order
  they meet is the argument \<open>iter\<close>, of which \<open>iterates iter\<close> says what the standard library
  documents: every entry is visited exactly once. The digest is the argument \<open>sha\<close>.
\<close>

section \<open>Accounts and the tree\<close>

record account =
  acc_balance :: u64
  acc_nonce :: u64

definition account_new :: "u64 \<Rightarrow> u64 \<Rightarrow> account" where
  "account_new b n = \<lparr>acc_balance = b, acc_nonce = n\<rparr>"

definition account_hash :: "(bytes \<Rightarrow> bytes) \<Rightarrow> account \<Rightarrow> bytes" where
  "account_hash sha a = sha (le_bytes 8 (acc_balance a) @ le_bytes 8 (acc_nonce a))"

datatype merkle_node =
  MerkleNode (mn_hash: bytes) (mn_left: "merkle_node option") (mn_right: "merkle_node option")
    (mn_key: "address option") (mn_value: "account option")

definition new_leaf :: "(bytes \<Rightarrow> bytes) \<Rightarrow> address \<Rightarrow> account \<Rightarrow> merkle_node" where
  "new_leaf sha key value =
     MerkleNode (sha (key @ account_hash sha value)) None None (Some key) (Some value)"

definition new_internal :: "(bytes \<Rightarrow> bytes) \<Rightarrow> merkle_node \<Rightarrow> merkle_node \<Rightarrow> merkle_node" where
  "new_internal sha l r = MerkleNode (sha (mn_hash l @ mn_hash r)) (Some l) (Some r) None None"

definition is_leaf :: "merkle_node \<Rightarrow> bool" where
  "is_leaf n \<longleftrightarrow> mn_key n \<noteq> None \<and> mn_value n \<noteq> None"

type_synonym leaf_map = "(address \<times> account) list"
type_synonym leaf_iter = "leaf_map \<Rightarrow> leaf_map"

record merkle_tree =
  tree_root :: "merkle_node option"
  leaves :: leaf_map

definition tree_new :: merkle_tree where
  "tree_new = \<lparr>tree_root = None, leaves = []\<rparr>"

definition tree_get :: "merkle_tree \<Rightarrow> address \<Rightarrow> account option" where
  "tree_get t a = map_of (leaves t) a"

text \<open>\<open>chunks(2)\<close> with the pairing of each chunk.\<close>

fun pair_up :: "(bytes \<Rightarrow> bytes) \<Rightarrow> merkle_node list \<Rightarrow> merkle_node list" where
  "pair_up sha (x # y # xs) = new_internal sha x y # pair_up sha xs"
| "pair_up sha xs = xs"

lemma length_pair_up: "2 * length (pair_up sha xs) \<le> length xs + 1"
  by (induction sha xs rule: pair_up.induct) auto

function merge_nodes :: "(bytes \<Rightarrow> bytes) \<Rightarrow> merkle_node list \<Rightarrow> merkle_node list" where
  "merge_nodes sha xs = (if length xs > 1 then merge_nodes sha (pair_up sha xs) else xs)"
  by pat_completeness auto
termination
proof (relation "measure (\<lambda>(sha, xs). length xs)")
  fix sha :: "bytes \<Rightarrow> bytes" and xs :: "merkle_node list"
  assume "1 < length xs"
  with length_pair_up [of sha xs] show "((sha, pair_up sha xs), (sha, xs)) \<in> measure (\<lambda>(sha, xs). length xs)"
    by simp
qed simp

declare merge_nodes.simps [simp del]

definition rebuild_tree :: "(bytes \<Rightarrow> bytes) \<Rightarrow> leaf_iter \<Rightarrow> merkle_tree \<Rightarrow> merkle_tree" where
  "rebuild_tree sha iter t =
     (if leaves t = [] then t\<lparr>tree_root := None\<rparr>
      else let nodes = map (\<lambda>(k, v). new_leaf sha k v) (iter (leaves t))
           in t\<lparr>tree_root := (case merge_nodes sha nodes of [] \<Rightarrow> None | n # _ \<Rightarrow> Some n)\<rparr>)"

definition update_account ::
  "(bytes \<Rightarrow> bytes) \<Rightarrow> leaf_iter \<Rightarrow> address \<Rightarrow> account \<Rightarrow> merkle_tree \<Rightarrow> merkle_tree" where
  "update_account sha iter a acc t =
     rebuild_tree sha iter (t\<lparr>leaves := AList.update a acc (leaves t)\<rparr>)"

definition calculate_root :: "merkle_tree \<Rightarrow> bytes" where
  "calculate_root t = (case tree_root t of Some n \<Rightarrow> mn_hash n | None \<Rightarrow> replicate 32 0)"

section \<open>The state manager\<close>

definition GENESIS_WALLET :: address where "GENESIS_WALLET = replicate 20 1"
definition EMISSION_STATE_ACCOUNT :: address where "EMISSION_STATE_ACCOUNT = replicate 20 255"

record state_manager =
  state_tree :: merkle_tree
  current_state_root :: bytes

datatype state_error =
    ZeroAmount | InvalidNonce u64 u64 | InsufficientBalance | InsufficientForFee | BeyondMaxSupply

definition account_or_zero :: "merkle_tree \<Rightarrow> address \<Rightarrow> account" where
  "account_or_zero t a = (case tree_get t a of None \<Rightarrow> account_new 0 0 | Some acc \<Rightarrow> acc)"

text \<open>An update of one account followed by the refresh of the root.\<close>

definition put_account ::
  "(bytes \<Rightarrow> bytes) \<Rightarrow> leaf_iter \<Rightarrow> address \<Rightarrow> account \<Rightarrow> state_manager \<Rightarrow> state_manager" where
  "put_account sha iter a acc s =
     (let t = update_account sha iter a acc (state_tree s)
      in \<lparr>state_tree = t, current_state_root = calculate_root t\<rparr>)"

definition state_manager_new :: "(bytes \<Rightarrow> bytes) \<Rightarrow> leaf_iter \<Rightarrow> state_manager" where
  "state_manager_new sha iter =
     (let t = update_account sha iter EMISSION_STATE_ACCOUNT (account_new 0 0)
                (update_account sha iter GENESIS_WALLET (account_new 0 0) tree_new)
      in \<lparr>state_tree = t, current_state_root = calculate_root t\<rparr>)"

definition initialize_tokenomics ::
  "(bytes \<Rightarrow> bytes) \<Rightarrow> leaf_iter \<Rightarrow> state_manager \<Rightarrow> state_manager" where
  "initialize_tokenomics sha iter s =
     (let t = state_tree s;
          t = (if tree_get t GENESIS_WALLET = None
               then update_account sha iter GENESIS_WALLET (account_new 0 0) t else t);
          genesis_account = account_or_zero t GENESIS_WALLET;
          t = (if acc_balance genesis_account = 0
               then update_account sha iter GENESIS_WALLET
                      (account_new 100000000 (acc_nonce genesis_account)) t
               else t);
          t = (if tree_get t EMISSION_STATE_ACCOUNT = None
               then update_account sha iter EMISSION_STATE_ACCOUNT (account_new 0 0) t else t)
      in \<lparr>state_tree = t, current_state_root = calculate_root t\<rparr>)"

definition get_emitted_supply :: "state_manager \<Rightarrow> u64" where
  "get_emitted_supply s =
     (case tree_get (state_tree s) EMISSION_STATE_ACCOUNT of None \<Rightarrow> 0 | Some acc \<Rightarrow> acc_balance acc)"

definition add_emitted_supply ::
  "(bytes \<Rightarrow> bytes) \<Rightarrow> leaf_iter \<Rightarrow> u64 \<Rightarrow> state_manager \<Rightarrow> state_manager" where
  "add_emitted_supply sha iter amount s =
     (if amount = 0 then s
      else let acc = account_or_zero (state_tree s) EMISSION_STATE_ACCOUNT;
               remaining = sat_sub CTS_MINING_SUPPLY (acc_balance acc)
           in if remaining = 0 then s
              else let to_add = min amount remaining
                   in put_account sha iter EMISSION_STATE_ACCOUNT
                        (acc\<lparr>acc_balance := sat_add (acc_balance acc) to_add\<rparr>) s)"

definition get_total_supply :: "leaf_iter \<Rightarrow> state_manager \<Rightarrow> u64" where
  "get_total_supply iter s =
     fold (\<lambda>(a, acc) total. if a = EMISSION_STATE_ACCOUNT then total else sat_add total (acc_balance acc))
       (iter (leaves (state_tree s))) 0"

definition apply_transfer ::
  "(bytes \<Rightarrow> bytes) \<Rightarrow> leaf_iter \<Rightarrow> address \<Rightarrow> address \<Rightarrow> u64 \<Rightarrow> u64 \<Rightarrow> u64 \<Rightarrow> state_manager
    \<Rightarrow> state_error + state_manager" where
  "apply_transfer sha iter from to amount nonce fee s =
     (if amount = 0 then Inl ZeroAmount
      else let sender = account_or_zero (state_tree s) from in
        if acc_nonce sender \<noteq> nonce then Inl (InvalidNonce (acc_nonce sender) nonce)
        else let total_cost = sat_add amount fee in
          if acc_balance sender < total_cost then Inl InsufficientBalance
          else let t = update_account sha iter from
                     (account_new (acc_balance sender - total_cost) (acc_nonce sender + 1)) (state_tree s);
                   receiver = account_or_zero t to;
                   t' = update_account sha iter to
                     (account_new (acc_balance receiver + amount) (acc_nonce receiver)) t
               in Inr \<lparr>state_tree = t', current_state_root = calculate_root t'\<rparr>)"

definition tx_fee :: "transaction \<Rightarrow> u64" where
  "tx_fee tx = sat_mul (gas_limit tx) (gas_price tx)"

definition apply_transaction ::
  "(bytes \<Rightarrow> bytes) \<Rightarrow> leaf_iter \<Rightarrow> transaction \<Rightarrow> state_manager \<Rightarrow> state_error + state_manager" where
  "apply_transaction sha iter tx s =
     (case payload tx of
        Transfer to amount \<Rightarrow> apply_transfer sha iter (tx_from tx) to amount (tx_nonce tx) (tx_fee tx) s
      | _ \<Rightarrow> Inr s)"

definition get_balance :: "state_manager \<Rightarrow> address \<Rightarrow> u64" where
  "get_balance s a = (case tree_get (state_tree s) a of None \<Rightarrow> 0 | Some acc \<Rightarrow> acc_balance acc)"

definition deduct_fee ::
  "(bytes \<Rightarrow> bytes) \<Rightarrow> leaf_iter \<Rightarrow> address \<Rightarrow> u64 \<Rightarrow> state_manager \<Rightarrow> state_error + state_manager" where
  "deduct_fee sha iter from fee s =
     (if fee = 0 then Inr s
      else let acc = account_or_zero (state_tree s) from in
        if acc_balance acc < fee then Inl InsufficientForFee
        else Inr (put_account sha iter from (account_new (acc_balance acc - fee) (acc_nonce acc)) s))"

definition credit_account ::
  "(bytes \<Rightarrow> bytes) \<Rightarrow> leaf_iter \<Rightarrow> address \<Rightarrow> u64 \<Rightarrow> state_manager \<Rightarrow> state_error + state_manager" where
  "credit_account sha iter to amount s =
     (if amount = 0 then Inr s
      else if sat_add (get_total_supply iter s) amount > CTS_MAX_SUPPLY then Inl BeyondMaxSupply
      else let acc = account_or_zero (state_tree s) to
           in Inr (put_account sha iter to (account_new (acc_balance acc + amount) (acc_nonce acc)) s))"

definition get_active_account_count :: "state_manager \<Rightarrow> nat" where
  "get_active_account_count s = length (filter (\<lambda>(a, acc). acc_balance acc > 0) (leaves (state_tree s)))"

text \<open>Replay: the tree is changed in place, so the state is returned with an error too.\<close>

fun apply_all ::
  "(bytes \<Rightarrow> bytes) \<Rightarrow> leaf_iter \<Rightarrow> transaction list \<Rightarrow> state_manager
    \<Rightarrow> (state_error + unit) \<times> state_manager" where
  "apply_all sha iter [] s = (Inr (), s)"
| "apply_all sha iter (tx # txs) s =
     (case apply_transaction sha iter tx s of
        Inl e \<Rightarrow> (Inl e, s)
      | Inr s' \<Rightarrow> apply_all sha iter txs s')"

definition rebuild_from_blocks ::
  "(bytes \<Rightarrow> bytes) \<Rightarrow> leaf_iter \<Rightarrow> block list \<Rightarrow> state_manager
    \<Rightarrow> (state_error + unit) \<times> state_manager" where
  "rebuild_from_blocks sha iter blocks s =
     apply_all sha iter (concat (map transactions blocks))
       \<lparr>state_tree = tree_new, current_state_root = calculate_root tree_new\<rparr>"

section \<open>Supply\<close>

definition iterates :: "leaf_iter \<Rightarrow> bool" where
  "iterates iter \<longleftrightarrow> (\<forall>m. mset (iter m) = mset m)"

definition circulating :: "leaf_map \<Rightarrow> nat" where
  "circulating m = (\<Sum>(a, acc) \<leftarrow> m. if a = EMISSION_STATE_ACCOUNT then 0 else unat (acc_balance acc))"

abbreviation balance_of :: "merkle_tree \<Rightarrow> address \<Rightarrow> nat" where
  "balance_of t a \<equiv> unat (acc_balance (account_or_zero t a))"

lemma leaves_update_account [simp]:
  "leaves (update_account sha iter a acc t) = AList.update a acc (leaves t)"
  by (simp add: update_account_def rebuild_tree_def Let_def)

lemma leaves_put_account [simp]:
  "leaves (state_tree (put_account sha iter a acc s)) = AList.update a acc (leaves (state_tree s))"
  by (simp add: put_account_def Let_def)

lemma tree_get_update:
  "tree_get (update_account sha iter a acc t) = (tree_get t)(a \<mapsto> acc)"
  by (auto simp: tree_get_def map_of_hm_update)

lemma account_or_zero_update:
  "account_or_zero (update_account sha iter a acc t) b = (if b = a then acc else account_or_zero t b)"
  by (simp add: account_or_zero_def tree_get_update)

lemma supply_update:
  assumes "a \<noteq> EMISSION_STATE_ACCOUNT"
  shows "circulating (AList.update a acc (leaves t)) + balance_of t a = circulating (leaves t) + unat (acc_balance acc)"
proof -
  have "circulating (AList.update a acc m) +
      (case map_of m a of None \<Rightarrow> 0 | Some x \<Rightarrow> unat (acc_balance x)) = circulating m + unat (acc_balance acc)" for m
    using assms by (induction m) (auto simp: circulating_def)
  from this [of "leaves t"] show ?thesis
    by (auto simp: account_or_zero_def tree_get_def account_new_def split: option.splits)
qed

lemma supply_update_emission: "circulating (AList.update EMISSION_STATE_ACCOUNT acc m) = circulating m"
  by (induction m) (auto simp: circulating_def)

lemma balance_le_supply:
  assumes "a \<noteq> EMISSION_STATE_ACCOUNT"
  shows "balance_of t a \<le> circulating (leaves t)"
proof -
  have "map_of m a = Some x \<Longrightarrow> unat (acc_balance x) \<le> circulating m" for m x
    using assms by (induction m) (auto simp: circulating_def split: if_splits)
  then show ?thesis
    by (auto simp: account_or_zero_def tree_get_def account_new_def split: option.splits)
qed

lemma supply_iter: "iterates iter \<Longrightarrow> circulating (iter m) = circulating m"
  by (simp add: circulating_def iterates_def flip: sum_mset_sum_list)

lemma unat_total_supply:
  assumes "iterates iter"
  shows "unat (get_total_supply iter s) = min (circulating (leaves (state_tree s))) (2 ^ 64 - 1)"
proof -
  let ?f = "\<lambda>(a, acc) total. if a = EMISSION_STATE_ACCOUNT then total else sat_add total (acc_balance acc)"
  have "unat (fold ?f m x) = min (unat x + circulating m) (2 ^ 64 - 1)" for m and x :: u64
  proof (induction m arbitrary: x)
    case Nil
    have "unat x \<le> 2 ^ 64 - 1"
      using unat_bound [of x] by simp
    then show ?case
      by (simp add: circulating_def)
  next
    case (Cons p m)
    then show ?case
      by (cases p) (auto simp: circulating_def unat_sat_add min_def)
  qed
  then show ?thesis
    by (simp add: get_total_supply_def supply_iter [OF assms])
qed

definition state_inv :: "state_manager \<Rightarrow> bool" where
  "state_inv s \<longleftrightarrow> hm_inv (leaves (state_tree s)) \<and> circulating (leaves (state_tree s)) \<le> 600000000
     \<and> current_state_root s = calculate_root (state_tree s)"

lemma put_account_inv:
  assumes "state_inv s"
    and "a \<noteq> EMISSION_STATE_ACCOUNT \<Longrightarrow>
      circulating (leaves (state_tree s)) + unat (acc_balance acc) \<le> 600000000 + balance_of (state_tree s) a"
  shows "state_inv (put_account sha iter a acc s)"
proof -
  have "circulating (AList.update a acc (leaves (state_tree s))) \<le> 600000000"
    using assms supply_update [of a acc "state_tree s"] supply_update_emission [of acc]
    by (cases "a = EMISSION_STATE_ACCOUNT") (auto simp: state_inv_def)
  then show ?thesis
    using assms(1) by (simp add: state_inv_def hm_inv_update) (simp add: put_account_def Let_def)
qed

lemma credit_account_inv:
  assumes "iterates iter" and "state_inv s" and "credit_account sha iter a amount s = Inr s'"
  shows "state_inv s'"
proof (cases "amount = 0")
  case True
  with assms show ?thesis
    by (simp add: credit_account_def)
next
  case False
  let ?t = "state_tree s"
  from False assms(3) have c: "\<not> sat_add (get_total_supply iter s) amount > CTS_MAX_SUPPLY"
    and s': "s' = put_account sha iter a (account_new (acc_balance (account_or_zero ?t a) + amount)
        (acc_nonce (account_or_zero ?t a))) s"
    by (auto simp: credit_account_def Let_def split: if_splits)
  have sup: "circulating (leaves ?t) \<le> 600000000"
    using assms(2) by (simp add: state_inv_def)
  from c sup have le: "circulating (leaves ?t) + unat amount \<le> 600000000"
    by (simp add: not_less word_le_nat_alt unat_sat_add unat_total_supply [OF assms(1)]
        CTS_MAX_SUPPLY_def min_def split: if_splits)
  show ?thesis
    unfolding s'
  proof (rule put_account_inv [OF assms(2)])
    assume a: "a \<noteq> EMISSION_STATE_ACCOUNT"
    have "unat (acc_balance (account_or_zero ?t a) + amount) = balance_of ?t a + unat amount"
      by (rule unat_add_no_overflow) (use balance_le_supply [OF a, of ?t] le in simp)
    with le show "circulating (leaves ?t) + unat (acc_balance (account_new
        (acc_balance (account_or_zero ?t a) + amount) (acc_nonce (account_or_zero ?t a))))
      \<le> 600000000 + balance_of ?t a"
      by (simp add: account_new_def)
  qed
qed

lemma deduct_fee_inv:
  assumes "state_inv s" and "deduct_fee sha iter a fee s = Inr s'"
  shows "state_inv s'"
proof (cases "fee = 0")
  case True
  with assms show ?thesis
    by (simp add: deduct_fee_def)
next
  case False
  let ?acc = "account_or_zero (state_tree s) a"
  from False assms(2) have le: "fee \<le> acc_balance ?acc"
    and s': "s' = put_account sha iter a (account_new (acc_balance ?acc - fee) (acc_nonce ?acc)) s"
    by (auto simp: deduct_fee_def Let_def not_less split: if_splits)
  have "unat (acc_balance ?acc - fee) \<le> unat (acc_balance ?acc)"
    using le by (simp add: unat_sub word_le_nat_alt)
  with assms(1) show ?thesis
    unfolding s' by (intro put_account_inv) (auto simp: state_inv_def account_new_def)
qed

lemma add_emitted_supply_inv: "state_inv s \<Longrightarrow> state_inv (add_emitted_supply sha iter amount s)"
  by (auto simp: add_emitted_supply_def Let_def intro: put_account_inv)

text \<open>A successful transfer, taken apart.\<close>

lemma apply_transferE:
  assumes "apply_transfer sha iter from to amount nonce fee s = Inr s'"
    and "circulating (leaves (state_tree s)) < 2 ^ 64 - 1" and "from \<noteq> EMISSION_STATE_ACCOUNT"
  obtains t where "amount \<noteq> 0" and "acc_nonce (account_or_zero (state_tree s) from) = nonce"
    and "unat amount + unat fee \<le> balance_of (state_tree s) from"
    and "t = update_account sha iter from
      (account_new (acc_balance (account_or_zero (state_tree s) from) - sat_add amount fee) (nonce + 1))
      (state_tree s)"
    and "balance_of t from + unat amount + unat fee = balance_of (state_tree s) from"
    and "state_tree s' = update_account sha iter to
      (account_new (acc_balance (account_or_zero t to) + amount) (acc_nonce (account_or_zero t to))) t"
    and "current_state_root s' = calculate_root (state_tree s')"
proof -
  let ?t = "state_tree s" and ?sender = "account_or_zero (state_tree s) from"
  note r = assms(1) [unfolded apply_transfer_def Let_def]
  from r have a: "amount \<noteq> 0" "acc_nonce ?sender = nonce" "\<not> acc_balance ?sender < sat_add amount fee"
    by (auto split: if_splits)
  define t where "t = update_account sha iter from
      (account_new (acc_balance ?sender - sat_add amount fee) (nonce + 1)) ?t"
  from r a have s': "s' = \<lparr>state_tree = update_account sha iter to
      (account_new (acc_balance (account_or_zero t to) + amount) (acc_nonce (account_or_zero t to))) t,
      current_state_root = calculate_root (update_account sha iter to
      (account_new (acc_balance (account_or_zero t to) + amount) (acc_nonce (account_or_zero t to))) t)\<rparr>"
    by (simp add: t_def)
  have b: "balance_of ?t from < 2 ^ 64 - 1"
    using balance_le_supply [OF assms(3), of ?t] assms(2) by simp
  have le: "unat (sat_add amount fee) \<le> balance_of ?t from"
    using a(3) by (simp add: word_le_nat_alt not_less)
  with b have c: "unat (sat_add amount fee) = unat amount + unat fee"
    by (simp add: unat_sat_add min_def split: if_splits)
  have "balance_of t from = balance_of ?t from - unat (sat_add amount fee)"
    using a(3) by (simp add: t_def account_or_zero_update account_new_def unat_sub word_le_nat_alt not_less)
  with le c show thesis
    by (intro that [OF a(1,2) _ t_def]) (auto simp: s')
qed

lemma transfer_circulating:
  assumes "apply_transfer sha iter from to amount nonce fee s = Inr s'"
    and "state_inv s" and "from \<noteq> EMISSION_STATE_ACCOUNT" and "to \<noteq> EMISSION_STATE_ACCOUNT"
  shows "circulating (leaves (state_tree s')) + unat fee = circulating (leaves (state_tree s))"
proof -
  have sup: "circulating (leaves (state_tree s)) \<le> 600000000"
    using assms(2) by (simp add: state_inv_def)
  then have lt: "circulating (leaves (state_tree s)) < 2 ^ 64 - 1"
    by simp
  obtain t where t: "t = update_account sha iter from
      (account_new (acc_balance (account_or_zero (state_tree s) from) - sat_add amount fee) (nonce + 1))
      (state_tree s)"
    and b: "balance_of t from + unat amount + unat fee = balance_of (state_tree s) from"
    and s': "state_tree s' = update_account sha iter to
      (account_new (acc_balance (account_or_zero t to) + amount) (acc_nonce (account_or_zero t to))) t"
    by (rule apply_transferE [OF assms(1) lt assms(3)])
  have c1: "circulating (leaves t) + balance_of (state_tree s) from =
      circulating (leaves (state_tree s)) + balance_of t from"
    unfolding t leaves_update_account supply_update [OF assms(3)]
    by (simp add: account_or_zero_update)
  have "balance_of t to + unat amount < 2 ^ 64"
    using balance_le_supply [OF assms(4), of t] c1 b sup by simp
  then have "unat (acc_balance (account_or_zero t to) + amount) = balance_of t to + unat amount"
    by (intro unat_add_no_overflow) simp
  then have "circulating (leaves (state_tree s')) = circulating (leaves t) + unat amount"
    using supply_update [OF assms(4), of "account_new (acc_balance (account_or_zero t to) + amount)
        (acc_nonce (account_or_zero t to))" t]
    unfolding s' leaves_update_account by (simp add: account_new_def)
  with c1 b show ?thesis
    by simp
qed

lemma apply_transfer_inv:
  assumes "apply_transfer sha iter from to amount nonce fee s = Inr s'"
    and "state_inv s" and "from \<noteq> EMISSION_STATE_ACCOUNT"
  shows "state_inv s'"
proof -
  have lt: "circulating (leaves (state_tree s)) < 2 ^ 64 - 1"
    using assms(2) by (simp add: state_inv_def)
  obtain t where t: "t = update_account sha iter from
      (account_new (acc_balance (account_or_zero (state_tree s) from) - sat_add amount fee) (nonce + 1))
      (state_tree s)"
    and b: "balance_of t from + unat amount + unat fee = balance_of (state_tree s) from"
    and s': "state_tree s' = update_account sha iter to
      (account_new (acc_balance (account_or_zero t to) + amount) (acc_nonce (account_or_zero t to))) t"
    and root: "current_state_root s' = calculate_root (state_tree s')"
    by (rule apply_transferE [OF assms(1) lt assms(3)])
  have "hm_inv (leaves (state_tree s'))"
    using assms(2) by (simp add: s' t state_inv_def hm_inv_update)
  moreover have "circulating (leaves (state_tree s')) \<le> circulating (leaves (state_tree s))"
  proof (cases "to = EMISSION_STATE_ACCOUNT")
    case True
    have "circulating (leaves t) + balance_of (state_tree s) from =
        circulating (leaves (state_tree s)) + balance_of t from"
      unfolding t leaves_update_account supply_update [OF assms(3)]
      by (simp add: account_or_zero_update)
    with b True show ?thesis
      by (simp add: s' supply_update_emission)
  next
    case False
    with transfer_circulating [OF assms] show ?thesis
      by simp
  qed
  ultimately show ?thesis
    using assms(2) root by (simp add: state_inv_def)
qed

section \<open>Sequences of operations\<close>

datatype state_op = ApplyTx transaction | DeductFee address u64 | Credit address u64 | AddEmitted u64

fun run_op :: "(bytes \<Rightarrow> bytes) \<Rightarrow> leaf_iter \<Rightarrow> state_op \<Rightarrow> state_manager \<Rightarrow> state_manager" where
  "run_op sha iter (ApplyTx tx) s = (case apply_transaction sha iter tx s of Inl _ \<Rightarrow> s | Inr s' \<Rightarrow> s')"
| "run_op sha iter (DeductFee a fee) s = (case deduct_fee sha iter a fee s of Inl _ \<Rightarrow> s | Inr s' \<Rightarrow> s')"
| "run_op sha iter (Credit a n) s = (case credit_account sha iter a n s of Inl _ \<Rightarrow> s | Inr s' \<Rightarrow> s')"
| "run_op sha iter (AddEmitted n) s = add_emitted_supply sha iter n s"

fun op_ok :: "state_op \<Rightarrow> bool" where
  "op_ok (ApplyTx tx) \<longleftrightarrow> tx_from tx \<noteq> EMISSION_STATE_ACCOUNT"
| "op_ok _ \<longleftrightarrow> True"

lemma run_op_inv:
  assumes "iterates iter" and "state_inv s" and "op_ok op"
  shows "state_inv (run_op sha iter op s)"
proof (cases op)
  case (ApplyTx tx)
  with assms(2,3) show ?thesis
    by (auto simp: apply_transaction_def intro: apply_transfer_inv split: sum.split tx_payload.split)
qed (use assms in \<open>auto intro: deduct_fee_inv credit_account_inv add_emitted_supply_inv split: sum.split\<close>)

lemma emission_not_genesis: "EMISSION_STATE_ACCOUNT \<noteq> GENESIS_WALLET"
  by (simp add: EMISSION_STATE_ACCOUNT_def GENESIS_WALLET_def)

lemma initial_state:
  "leaves (state_tree (state_manager_new sha iter)) =
     [(GENESIS_WALLET, account_new 0 0), (EMISSION_STATE_ACCOUNT, account_new 0 0)]"
  using emission_not_genesis by (simp add: state_manager_new_def Let_def tree_new_def)

lemma initialized_state:
  "leaves (state_tree (initialize_tokenomics sha iter (state_manager_new sha iter))) =
     [(GENESIS_WALLET, account_new 100000000 0), (EMISSION_STATE_ACCOUNT, account_new 0 0)]"
  using emission_not_genesis
  by (simp add: initialize_tokenomics_def Let_def tree_get_def account_or_zero_def initial_state
      account_new_def)

lemma initialized_state_inv: "state_inv (initialize_tokenomics sha iter (state_manager_new sha iter))"
  using emission_not_genesis unfolding state_inv_def initialized_state
  by (simp add: circulating_def hm_inv_def account_new_def) (simp add: initialize_tokenomics_def Let_def)

section \<open>What the root commits to\<close>

inductive built :: "(bytes \<Rightarrow> bytes) \<Rightarrow> merkle_node \<Rightarrow> bool" for sha where
  leaf: "length k = 20 \<Longrightarrow> built sha (new_leaf sha k v)"
| internal: "built sha l \<Longrightarrow> built sha r \<Longrightarrow> built sha (new_internal sha l r)"

fun leaf_list :: "merkle_node \<Rightarrow> (address \<times> account) list" where
  "leaf_list (MerkleNode h (Some l) (Some r) k v) = leaf_list l @ leaf_list r"
| "leaf_list (MerkleNode h l r (Some k) (Some v)) = [(k, v)]"
| "leaf_list _ = []"

text \<open>The byte strings that are digested to compute the hash of a node.\<close>

fun node_inputs :: "(bytes \<Rightarrow> bytes) \<Rightarrow> merkle_node \<Rightarrow> bytes set" where
  "node_inputs sha (MerkleNode h (Some l) (Some r) k v) =
     insert (mn_hash l @ mn_hash r) (node_inputs sha l \<union> node_inputs sha r)"
| "node_inputs sha (MerkleNode h l r (Some k) (Some v)) =
     {k @ account_hash sha v, le_bytes 8 (acc_balance v) @ le_bytes 8 (acc_nonce v)}"
| "node_inputs sha _ = {}"

lemma leaf_list_new [simp]:
  "leaf_list (new_leaf sha k v) = [(k, v)]"
  "leaf_list (new_internal sha l r) = leaf_list l @ leaf_list r"
  by (simp_all add: new_leaf_def new_internal_def)

lemma node_inputs_new [simp]:
  "node_inputs sha (new_leaf sha k v) =
     {k @ account_hash sha v, le_bytes 8 (acc_balance v) @ le_bytes 8 (acc_nonce v)}"
  "node_inputs sha (new_internal sha l r) =
     insert (mn_hash l @ mn_hash r) (node_inputs sha l \<union> node_inputs sha r)"
  by (simp_all add: new_leaf_def new_internal_def)

lemma mn_hash_new [simp]:
  "mn_hash (new_leaf sha k v) = sha (k @ account_hash sha v)"
  "mn_hash (new_internal sha l r) = sha (mn_hash l @ mn_hash r)"
  by (simp_all add: new_leaf_def new_internal_def)

lemma built_hash_length: "sha_len sha \<Longrightarrow> built sha n \<Longrightarrow> length (mn_hash n) = 32"
  by (erule built.cases) (simp_all add: sha_lenD)

lemma account_hash_inj:
  assumes "inj_on sha S" and "account_hash sha v = account_hash sha w"
    and "le_bytes 8 (acc_balance v) @ le_bytes 8 (acc_nonce v) \<in> S"
    and "le_bytes 8 (acc_balance w) @ le_bytes 8 (acc_nonce w) \<in> S"
  shows "v = w"
proof -
  have "le_bytes 8 (acc_balance v) @ le_bytes 8 (acc_nonce v) =
      le_bytes 8 (acc_balance w) @ le_bytes 8 (acc_nonce w)"
    using inj_onD [OF assms(1) _ assms(3,4)] assms(2) by (simp add: account_hash_def)
  then have "acc_balance v = acc_balance w \<and> acc_nonce v = acc_nonce w"
    by simp
  then show ?thesis
    by simp
qed

lemma leaf_internal_differ:
  assumes "sha_len sha" and "inj_on sha S" and "length k = 20" and "built sha l" and "built sha r"
    and "k @ account_hash sha v \<in> S" and "mn_hash l @ mn_hash r \<in> S"
  shows "sha (k @ account_hash sha v) \<noteq> sha (mn_hash l @ mn_hash r)"
proof
  assume "sha (k @ account_hash sha v) = sha (mn_hash l @ mn_hash r)"
  then have "k @ account_hash sha v = mn_hash l @ mn_hash r"
    by (rule inj_onD [OF assms(2) _ assms(6,7)])
  then have "length (k @ account_hash sha v) = length (mn_hash l @ mn_hash r)"
    by simp
  with assms(1,3) built_hash_length [OF assms(1,4)] built_hash_length [OF assms(1,5)] show False
    by (simp add: account_hash_def)
qed

lemma built_hash_inj:
  assumes "sha_len sha" and "built sha a" and "built sha b"
    and "inj_on sha (node_inputs sha a \<union> node_inputs sha b)" and "mn_hash a = mn_hash b"
  shows "a = b"
  using assms(2-5)
proof (induction arbitrary: b rule: built.induct)
  case (leaf k v)
  note inj = leaf.prems(2)
  from leaf.prems(1) show ?case
  proof (cases rule: built.cases)
    case (leaf k' v')
    have "k @ account_hash sha v = k' @ account_hash sha v'"
      by (rule inj_onD [OF inj]) (use leaf \<open>mn_hash (new_leaf sha k v) = mn_hash b\<close> in simp_all)
    then have "k = k'" "account_hash sha v = account_hash sha v'"
      using \<open>length k = 20\<close> leaf(2) by simp_all
    moreover have "v = v'"
      by (rule account_hash_inj [OF inj calculation(2)]) (simp_all add: leaf(1))
    ultimately show ?thesis
      by (simp add: leaf(1))
  next
    case (internal l r)
    have "sha (k @ account_hash sha v) \<noteq> sha (mn_hash l @ mn_hash r)"
      by (rule leaf_internal_differ [OF assms(1) inj \<open>length k = 20\<close> internal(2,3)])
        (simp_all add: internal(1))
    with leaf.prems(3) internal(1) show ?thesis
      by simp
  qed
next
  case (internal l r)
  note inj = internal.prems(2)
  from internal.prems(1) show ?case
  proof (cases rule: built.cases)
    case (leaf k v)
    have "sha (k @ account_hash sha v) \<noteq> sha (mn_hash l @ mn_hash r)"
      by (rule leaf_internal_differ [OF assms(1) inj leaf(2) internal.hyps])
        (simp_all add: leaf(1))
    with internal.prems(3) leaf(1) show ?thesis
      by simp
  next
    case (internal l' r')
    have "mn_hash l @ mn_hash r = mn_hash l' @ mn_hash r'"
      by (rule inj_onD [OF inj])
        (use internal \<open>mn_hash (new_internal sha l r) = mn_hash b\<close> in simp_all)
    then have h: "mn_hash l = mn_hash l'" "mn_hash r = mn_hash r'"
      using built_hash_length [OF assms(1)] \<open>built sha l\<close> internal(2) by simp_all
    have "l = l'" "r = r'"
      by (rule \<open>\<And>b. built sha b \<Longrightarrow> inj_on sha (node_inputs sha l \<union> node_inputs sha b) \<Longrightarrow>
            mn_hash l = mn_hash b \<Longrightarrow> l = b\<close> [OF internal(2) inj_on_subset [OF inj] h(1)],
          auto simp: internal(1))
        (rule \<open>\<And>b. built sha b \<Longrightarrow> inj_on sha (node_inputs sha r \<union> node_inputs sha b) \<Longrightarrow>
            mn_hash r = mn_hash b \<Longrightarrow> r = b\<close> [OF internal(3) inj_on_subset [OF inj] h(2)],
          auto simp: internal(1))
    then show ?thesis
      by (simp add: internal(1))
  qed
qed

lemma pair_up_built: "\<forall>n \<in> set ns. built sha n \<Longrightarrow> \<forall>n \<in> set (pair_up sha ns). built sha n"
  by (induction sha ns rule: pair_up.induct) (auto intro: built.internal)

lemma pair_up_leaves: "concat (map leaf_list (pair_up sha ns)) = concat (map leaf_list ns)"
  by (induction sha ns rule: pair_up.induct) simp_all

lemma merge_nodes_spec:
  assumes "ns \<noteq> []" and "\<forall>n \<in> set ns. built sha n"
  shows "\<exists>n. merge_nodes sha ns = [n] \<and> built sha n \<and> leaf_list n = concat (map leaf_list ns)"
  using assms
proof (induction sha ns rule: merge_nodes.induct)
  case (1 sha ns)
  show ?case
  proof (cases "1 < length ns")
    case True
    have "pair_up sha ns \<noteq> []"
      using \<open>ns \<noteq> []\<close> by (cases "(sha, ns)" rule: pair_up.cases) auto
    from "1.IH" [OF True this pair_up_built [OF "1.prems"(2)]] True show ?thesis
      by (simp add: merge_nodes.simps [of sha ns] pair_up_leaves)
  next
    case False
    with "1.prems" obtain n where "ns = [n]"
      by (cases ns) auto
    with "1.prems" show ?thesis
      by (simp add: merge_nodes.simps [of sha "[n]"])
  qed
qed

definition tree_inputs :: "(bytes \<Rightarrow> bytes) \<Rightarrow> merkle_tree \<Rightarrow> bytes set" where
  "tree_inputs sha t = (case tree_root t of None \<Rightarrow> {} | Some n \<Rightarrow> node_inputs sha n)"

lemma rebuild_tree_root:
  assumes "iterates iter" and "leaves t \<noteq> []" and "\<forall>a \<in> fst ` set (leaves t). length a = 20"
  shows "\<exists>n. tree_root (rebuild_tree sha iter t) = Some n \<and> built sha n \<and> leaf_list n = iter (leaves t)"
proof -
  let ?ns = "map (\<lambda>(k, v). new_leaf sha k v) (iter (leaves t))"
  have m: "mset (iter (leaves t)) = mset (leaves t)"
    using assms(1) by (simp add: iterates_def)
  have ne: "?ns \<noteq> []"
    using m assms(2) by auto
  have "set (iter (leaves t)) = set (leaves t)"
    using m by (rule mset_eq_setD)
  then have b: "\<forall>n \<in> set ?ns. built sha n"
    using assms(3) by (auto intro!: built.leaf)
  obtain n where n: "merge_nodes sha ?ns = [n]" "built sha n" "leaf_list n = concat (map leaf_list ?ns)"
    using merge_nodes_spec [OF ne b] by blast
  have "concat (map leaf_list (map (\<lambda>(k, v). new_leaf sha k v) xs)) = xs" for xs
    by (induction xs) auto
  with n assms(2) show ?thesis
    by (auto simp: rebuild_tree_def Let_def)
qed

section \<open>Sample instances\<close>

text \<open>A digest for which the one key of \<open>sample_secp\<close> owns the genesis wallet.\<close>

definition ones_sha :: "bytes \<Rightarrow> bytes" where
  "ones_sha x = replicate 32 1"

definition genesis_transfer :: "address \<Rightarrow> transaction" where
  "genesis_transfer to = (new_transfer GENESIS_WALLET to 5 0 21 1)
     \<lparr>tx_signature := \<lparr>algorithm = Secp256k1, sig_data = replicate 65 1\<rparr>\<rparr>"

lemma genesis_transfer_payload: "payload (genesis_transfer to) = Transfer to 5"
  "tx_from (genesis_transfer to) = GENESIS_WALLET" "tx_fee (genesis_transfer to) = 21"
  by (simp_all add: genesis_transfer_def new_transfer_def tx_fee_def sat_mul_def)

lemma genesis_transfer_valid: "tx_validate_basic ones_sha sample_secp (genesis_transfer to) = Inr ()"
  by (simp add: tx_validate_basic_def genesis_transfer_def new_transfer_def verify_signature_def Let_def
      sample_secp_def address_of_def ones_sha_def GENESIS_WALLET_def)

section \<open>Properties\<close>

text \<open>
  C8. From the initial allocation on, no sequence of transfers, fee deductions, credits and
  emission updates takes the circulating balances over 600,000,000, provided no transaction of the
  sequence is sent from the emission tracker's address; the stored root always is the root of
  the tree.
\<close>

theorem supply_cap_invariant:
  assumes "iterates iter" and "\<forall>op \<in> set ops. op_ok op"
  shows "state_inv (fold (run_op sha iter) ops (initialize_tokenomics sha iter (state_manager_new sha iter)))"
proof -
  have "state_inv (fold (run_op sha iter) ops s)" if "state_inv s" for s
    using assms(2) that
  proof (induction ops arbitrary: s)
    case (Cons op ops)
    then show ?case
      by (simp add: run_op_inv [OF assms(1)])
  qed simp
  then show ?thesis
    using initialized_state_inv by blast
qed

theorem supply_cap_invariant_witness:
  "state_inv (fold (run_op sample_sha rev)
     [ApplyTx (new_transfer GENESIS_WALLET (replicate 20 3) 5 0 21 2), Credit (replicate 20 4) 100,
      AddEmitted 100, DeductFee (replicate 20 4) 1]
     (initialize_tokenomics sample_sha rev (state_manager_new sample_sha rev)))"
  by (rule supply_cap_invariant)
    (simp_all add: iterates_def new_transfer_def emission_not_genesis [symmetric])

lemma transfer_success:
  assumes "state_inv s" and "from \<noteq> EMISSION_STATE_ACCOUNT" and "to \<noteq> EMISSION_STATE_ACCOUNT"
    and "apply_transfer sha iter from to amount nonce fee s = Inr s'"
  shows "acc_nonce (account_or_zero (state_tree s) from) = nonce
    \<and> acc_nonce (account_or_zero (state_tree s') from) = nonce + 1
    \<and> (\<forall>a. a \<noteq> from \<and> a \<noteq> to \<longrightarrow> account_or_zero (state_tree s') a = account_or_zero (state_tree s) a)
    \<and> (from \<noteq> to \<longrightarrow> acc_nonce (account_or_zero (state_tree s') to) = acc_nonce (account_or_zero (state_tree s) to))
    \<and> circulating (leaves (state_tree s')) + unat fee = circulating (leaves (state_tree s))
    \<and> (if from = to
       then balance_of (state_tree s') from + unat fee = balance_of (state_tree s) from
       else balance_of (state_tree s') from + unat amount + unat fee = balance_of (state_tree s) from
         \<and> balance_of (state_tree s') to = balance_of (state_tree s) to + unat amount)"
proof -
  have sup: "circulating (leaves (state_tree s)) \<le> 600000000"
    using assms(1) by (simp add: state_inv_def)
  then have lt: "circulating (leaves (state_tree s)) < 2 ^ 64 - 1"
    by simp
  obtain t where non: "acc_nonce (account_or_zero (state_tree s) from) = nonce"
    and le: "unat amount + unat fee \<le> balance_of (state_tree s) from"
    and t: "t = update_account sha iter from
      (account_new (acc_balance (account_or_zero (state_tree s) from) - sat_add amount fee) (nonce + 1))
      (state_tree s)"
    and b: "balance_of t from + unat amount + unat fee = balance_of (state_tree s) from"
    and s': "state_tree s' = update_account sha iter to
      (account_new (acc_balance (account_or_zero t to) + amount) (acc_nonce (account_or_zero t to))) t"
    by (rule apply_transferE [OF assms(4) lt assms(2)])
  have small: "balance_of (state_tree s) from \<le> 600000000" "balance_of (state_tree s) to \<le> 600000000"
    using balance_le_supply [OF assms(2), of "state_tree s"]
      balance_le_supply [OF assms(3), of "state_tree s"] sup by simp_all
  have tto: "account_or_zero t to = (if to = from
      then account_new (acc_balance (account_or_zero (state_tree s) from) - sat_add amount fee) (nonce + 1)
      else account_or_zero (state_tree s) to)"
    by (simp add: t account_or_zero_update)
  have "balance_of t to + unat amount < 2 ^ 64"
    using b small le tto by (cases "to = from") auto
  then have recv: "unat (acc_balance (account_or_zero t to) + amount) = balance_of t to + unat amount"
    by (intro unat_add_no_overflow) simp
  have bal: "balance_of (state_tree s') a = (if a = to then balance_of t to + unat amount else balance_of t a)" for a
    unfolding s' by (simp add: account_or_zero_update account_new_def recv)
  have "account_or_zero (state_tree s') a = account_or_zero (state_tree s) a" if "a \<noteq> from" "a \<noteq> to" for a
    using that by (simp add: s' t account_or_zero_update)
  moreover have "acc_nonce (account_or_zero (state_tree s') to) = acc_nonce (account_or_zero (state_tree s) to)" if "from \<noteq> to"
    using that tto by (simp add: s' account_or_zero_update account_new_def)
  moreover have "acc_nonce (account_or_zero (state_tree s') from) = nonce + 1"
    unfolding s' account_or_zero_update tto by (auto simp: account_new_def t account_or_zero_update)
  moreover have "from \<noteq> to \<Longrightarrow> balance_of t to = balance_of (state_tree s) to"
    using tto by simp
  ultimately show ?thesis
    using non b transfer_circulating [OF assms(4,1-3)] by (auto simp: bal)
qed

lemma transfer_refused:
  assumes "state_inv s" and "from \<noteq> EMISSION_STATE_ACCOUNT"
    and "apply_transfer sha iter from to amount nonce fee s = Inl e"
  shows "e = (if amount = 0 then ZeroAmount
      else if acc_nonce (account_or_zero (state_tree s) from) \<noteq> nonce
      then InvalidNonce (acc_nonce (account_or_zero (state_tree s) from)) nonce else InsufficientBalance)
    \<and> (amount = 0 \<or> acc_nonce (account_or_zero (state_tree s) from) \<noteq> nonce
       \<or> balance_of (state_tree s) from < unat amount + unat fee)"
proof -
  have "balance_of (state_tree s) from < 2 ^ 64 - 1"
    using balance_le_supply [OF assms(2), of "state_tree s"] assms(1) by (simp add: state_inv_def)
  then have "acc_balance (account_or_zero (state_tree s) from) < sat_add amount fee
      \<longleftrightarrow> balance_of (state_tree s) from < unat amount + unat fee"
    by (auto simp: word_less_nat_alt unat_sat_add min_def)
  with assms(3) show ?thesis
    by (auto simp: apply_transfer_def Let_def split: if_splits)
qed

text \<open>
  C19. On a ledger that satisfies its invariant, and apart from the emission tracker's address, a transfer
  succeeds exactly when the amount is not zero, the nonce is that of the sender and the balance of
  the sender covers amount and fee; otherwise the error names the first of these that fails. It
  then moves exactly the amount and burns exactly the fee: sender and receiver change by these,
  also when they are the same account, the nonce of the sender goes up by one, that of the receiver
  stays, every other account is untouched, and the root is that of the new tree.
\<close>

theorem transfer_effect:
  assumes "state_inv s" and "from \<noteq> EMISSION_STATE_ACCOUNT" and "to \<noteq> EMISSION_STATE_ACCOUNT"
  shows "case apply_transfer sha iter from to amount nonce fee s of
      Inl e \<Rightarrow>
        e = (if amount = 0 then ZeroAmount
          else if acc_nonce (account_or_zero (state_tree s) from) \<noteq> nonce
          then InvalidNonce (acc_nonce (account_or_zero (state_tree s) from)) nonce else InsufficientBalance)
        \<and> (amount = 0 \<or> acc_nonce (account_or_zero (state_tree s) from) \<noteq> nonce
           \<or> balance_of (state_tree s) from < unat amount + unat fee)
    | Inr s' \<Rightarrow>
        amount \<noteq> 0 \<and> acc_nonce (account_or_zero (state_tree s) from) = nonce
        \<and> unat amount + unat fee \<le> balance_of (state_tree s) from
        \<and> acc_nonce (account_or_zero (state_tree s') from) = nonce + 1
        \<and> (\<forall>a. a \<noteq> from \<and> a \<noteq> to \<longrightarrow> account_or_zero (state_tree s') a = account_or_zero (state_tree s) a)
        \<and> (from \<noteq> to \<longrightarrow> acc_nonce (account_or_zero (state_tree s') to) = acc_nonce (account_or_zero (state_tree s) to))
        \<and> circulating (leaves (state_tree s')) + unat fee = circulating (leaves (state_tree s))
        \<and> (if from = to
           then balance_of (state_tree s') from + unat fee = balance_of (state_tree s) from
           else balance_of (state_tree s') from + unat amount + unat fee = balance_of (state_tree s) from
             \<and> balance_of (state_tree s') to = balance_of (state_tree s) to + unat amount)
        \<and> current_state_root s' = calculate_root (state_tree s')"
proof (cases "apply_transfer sha iter from to amount nonce fee s")
  case (Inl e)
  from transfer_refused [OF assms(1,2) this] Inl show ?thesis
    by simp
next
  case (Inr s')
  have lt: "circulating (leaves (state_tree s)) < 2 ^ 64 - 1"
    using assms(1) by (simp add: state_inv_def)
  have "amount \<noteq> 0" "unat amount + unat fee \<le> balance_of (state_tree s) from"
    "current_state_root s' = calculate_root (state_tree s')"
    by (rule apply_transferE [OF Inr lt assms(2)]; assumption)+
  with transfer_success [OF assms Inr] show ?thesis
    unfolding Inr sum.case by blast
qed

theorem transfer_effect_witness:
  "let s = initialize_tokenomics sample_sha id (state_manager_new sample_sha id) in
   case apply_transfer sample_sha id GENESIS_WALLET (replicate 20 3) 5 0 2 s of
     Inl e \<Rightarrow> False
   | Inr s' \<Rightarrow> circulating (leaves (state_tree s')) + 2 = 100000000"
proof -
  let ?s = "initialize_tokenomics sample_sha id (state_manager_new sample_sha id)"
  have g: "account_or_zero (state_tree ?s) GENESIS_WALLET = account_new 100000000 0"
    by (simp add: account_or_zero_def tree_get_def initialized_state)
  have "unat (sat_add (5 :: u64) 2) = 7"
    by (simp add: unat_sat_add)
  then have "apply_transfer sample_sha id GENESIS_WALLET (replicate 20 3) 5 0 2 ?s \<noteq> Inl e" for e
    by (simp add: apply_transfer_def g account_new_def Let_def word_less_nat_alt)
  then obtain s' where r: "apply_transfer sample_sha id GENESIS_WALLET (replicate 20 3) 5 0 2 ?s = Inr s'"
    by (cases "apply_transfer sample_sha id GENESIS_WALLET (replicate 20 3) 5 0 2 ?s") auto
  have "replicate 20 3 \<noteq> EMISSION_STATE_ACCOUNT"
    by (simp add: EMISSION_STATE_ACCOUNT_def)
  from transfer_effect [OF initialized_state_inv [of sample_sha id] emission_not_genesis [symmetric] this, where sha = sample_sha and iter = id and amount = 5 and nonce = 0 and fee = 2] r
    emission_not_genesis show ?thesis
    by (simp add: Let_def initialized_state circulating_def account_new_def)
qed

text \<open>
  C34. The state root commits to the sequence in which the leaves were met, and to nothing
  less: two non-empty trees have the same root exactly when they list the same accounts in the
  same order. The same accounts met in two different orders therefore have different roots.
\<close>

theorem merkle_root_binds:
  assumes "sha_len sha" and "iterates iter" and "iterates iter'"
    and "leaves t \<noteq> []" and "leaves t' \<noteq> []"
    and "\<forall>a \<in> fst ` set (leaves t @ leaves t'). length a = 20"
    and "sha_collision_free sha
      (tree_inputs sha (rebuild_tree sha iter t) \<union> tree_inputs sha (rebuild_tree sha iter' t'))"
  shows "calculate_root (rebuild_tree sha iter t) = calculate_root (rebuild_tree sha iter' t')
    \<longleftrightarrow> iter (leaves t) = iter' (leaves t')"
proof -
  obtain n where n: "tree_root (rebuild_tree sha iter t) = Some n" "built sha n" "leaf_list n = iter (leaves t)"
    using rebuild_tree_root [OF assms(2,4)] assms(6) by fastforce
  obtain n' where n': "tree_root (rebuild_tree sha iter' t') = Some n'" "built sha n'"
      "leaf_list n' = iter' (leaves t')"
    using rebuild_tree_root [OF assms(3,5)] assms(6) by fastforce
  have inj: "inj_on sha (node_inputs sha n \<union> node_inputs sha n')"
    using assms(7) by (simp add: sha_collision_free_def tree_inputs_def n n')
  show ?thesis
  proof
    assume "calculate_root (rebuild_tree sha iter t) = calculate_root (rebuild_tree sha iter' t')"
    then have "mn_hash n = mn_hash n'"
      by (simp add: calculate_root_def n n')
    with built_hash_inj [OF assms(1) n(2) n'(2) inj] n(3) n'(3) show "iter (leaves t) = iter' (leaves t')"
      by simp
  next
    assume "iter (leaves t) = iter' (leaves t')"
    with assms(4,5) show "calculate_root (rebuild_tree sha iter t) = calculate_root (rebuild_tree sha iter' t')"
      by (simp add: calculate_root_def rebuild_tree_def Let_def)
  qed
qed

text \<open>A digest that keeps the length and the first bytes of its input.\<close>

definition prefix_sha :: "bytes \<Rightarrow> bytes" where
  "prefix_sha x = take 32 ([of_nat (length x)] @ x @ replicate 32 0)"

definition two_accounts :: merkle_tree where
  "two_accounts = \<lparr>tree_root = None,
     leaves = [(replicate 20 1, account_new 5 0), (replicate 20 2, account_new 7 0)]\<rparr>"

theorem merkle_root_binds_witness:
  "calculate_root (rebuild_tree prefix_sha id two_accounts) \<noteq>
   calculate_root (rebuild_tree prefix_sha rev two_accounts)"
proof -
  have "sha_collision_free prefix_sha (tree_inputs prefix_sha (rebuild_tree prefix_sha id two_accounts)
      \<union> tree_inputs prefix_sha (rebuild_tree prefix_sha rev two_accounts))"
    by (simp add: sha_collision_free_def tree_inputs_def rebuild_tree_def two_accounts_def
        merge_nodes.simps account_hash_def account_new_def prefix_sha_def le_bytes_def upt_rec inj_on_def)
  moreover have "sha_len prefix_sha"
    by (auto simp: sha_len_def prefix_sha_def)
  ultimately show ?thesis
    using merkle_root_binds [of prefix_sha id rev two_accounts two_accounts]
    by (simp add: two_accounts_def iterates_def)
qed

text \<open>
  \<open>initialize_tokenomics\<close> mints the genesis allocation whenever the genesis wallet is
  empty, also when it was funded before and has spent everything.
\<close>

theorem initialize_tokenomics_mints_again:
  assumes "get_balance s GENESIS_WALLET = 0"
  shows "circulating (leaves (state_tree (initialize_tokenomics sha iter s))) =
    circulating (leaves (state_tree s)) + 100000000"
proof -
  let ?t0 = "state_tree s"
  define t1 where "t1 = (if tree_get ?t0 GENESIS_WALLET = None
      then update_account sha iter GENESIS_WALLET (account_new 0 0) ?t0 else ?t0)"
  have z: "acc_balance (account_or_zero t1 GENESIS_WALLET) = 0"
    using assms by (auto simp: t1_def account_or_zero_def tree_get_update get_balance_def account_new_def
        split: option.splits)
  have "balance_of ?t0 GENESIS_WALLET = 0"
    using assms by (auto simp: account_or_zero_def get_balance_def account_new_def split: option.splits)
  then have c1: "circulating (leaves t1) = circulating (leaves ?t0)"
    using supply_update [OF emission_not_genesis [symmetric], of "account_new 0 0" ?t0]
    by (simp add: t1_def account_new_def)
  have "circulating (AList.update GENESIS_WALLET (account_new 100000000 n) (leaves t1)) =
      circulating (leaves t1) + 100000000" for n
    using supply_update [OF emission_not_genesis [symmetric], of "account_new 100000000 n" t1] z
    by (simp add: account_new_def)
  with c1 z show ?thesis
    unfolding initialize_tokenomics_def Let_def t1_def [symmetric]
    by (simp add: supply_update_emission)
qed

theorem initialize_tokenomics_mints_again_witness:
  "circulating (leaves (state_tree (initialize_tokenomics sample_sha id (state_manager_new sample_sha id))))
     = 100000000"
  using initialize_tokenomics_mints_again [of "state_manager_new sample_sha id" sample_sha id]
  by (simp add: get_balance_def tree_get_def initial_state account_new_def circulating_def)

end
