(* ===== verification/Mempool.thy ===== *)
theory Mempool
  imports State
begin

text \<open>
  The transaction pool: \<^verbatim>\<open>src/src/mempool/tx_dag_mempool.rs\<close>.

  The locks of the code guard one field each; an operation is modelled as one step, and the
  pool is returned with an error too, since rate limiting and eviction happen before the
  checks that can fail. The account state is read through \<open>get_balance\<close>, the two readings of
  the clock are the arguments \<open>now\<close> and \<open>now'\<close>, and \<open>iter\<close> is the order in which the hash map
  of transactions is enumerated. A set of children is a list without repetitions.
\<close>

section \<open>State\<close>

record mempool_tx =
  mt_transaction :: transaction
  parent_tx_hashes :: "tx_id list"
  mt_timestamp :: u64
  is_ready :: bool

type_synonym tx_map = "(tx_id \<times> mempool_tx) list"

record mempool =
  mp_transactions :: tx_map
  parent_child_map :: "(tx_id \<times> tx_id list) list"
  pending_by_sender :: "(address \<times> tx_id list) list"
  max_size :: nat
  current_base_fee :: u64
  rate_limits :: "(string \<times> (nat \<times> u64)) list"
  min_gas_price :: u64

datatype mempool_error =
    RateLimited | MempoolFull | Unsigned | GasPriceTooLow u64 u64 | ZeroBalance | AlreadyInMempool
  | InvalidTx tx_error | MempoolAmountZero | MempoolGasZero

definition RATE_LIMIT_WINDOW_SECS :: u64 where "RATE_LIMIT_WINDOW_SECS = 60"
definition MAX_TX_PER_SOURCE :: nat where "MAX_TX_PER_SOURCE = 100"

section \<open>Operations\<close>

definition mempool_tx_new :: "transaction \<Rightarrow> tx_id list \<Rightarrow> u64 \<Rightarrow> mempool_tx" where
  "mempool_tx_new tx ps t =
     \<lparr>mt_transaction = tx, parent_tx_hashes = ps, mt_timestamp = t, is_ready = (ps = [])\<rparr>"

definition mempool_new :: "nat \<Rightarrow> u64 \<Rightarrow> mempool" where
  "mempool_new sz price =
     \<lparr>mp_transactions = [], parent_child_map = [], pending_by_sender = [], max_size = sz,
      current_base_fee = price, rate_limits = [], min_gas_price = price\<rparr>"

text \<open>The rate limiter; \<open>None\<close> when the limit is reached.\<close>

definition charge_source ::
  "u64 \<Rightarrow> string \<Rightarrow> (string \<times> (nat \<times> u64)) list \<Rightarrow> bool \<times> (string \<times> (nat \<times> u64)) list" where
  "charge_source now src rates =
     (let (count, start) = (case map_of rates src of None \<Rightarrow> (0, now) | Some e \<Rightarrow> e);
          (count, start) = (if now \<ge> start + RATE_LIMIT_WINDOW_SECS then (0, now) else (count, start))
      in if count \<ge> MAX_TX_PER_SOURCE then (False, AList.update src (count, start) rates)
         else (True, AList.update src (count + 1, start) rates))"

text \<open>\<open>min_by_key\<close>: the first entry of the least gas price.\<close>

fun min_by_price :: "tx_map \<Rightarrow> (tx_id \<times> mempool_tx) option" where
  "min_by_price [] = None"
| "min_by_price (x # xs) =
     (case min_by_price xs of
        None \<Rightarrow> Some x
      | Some y \<Rightarrow>
          if gas_price (mt_transaction (snd x)) \<le> gas_price (mt_transaction (snd y)) then Some x else Some y)"

definition make_room :: "(tx_map \<Rightarrow> tx_map) \<Rightarrow> transaction \<Rightarrow> mempool \<Rightarrow> tx_map option" where
  "make_room iter tx mp =
     (let txs = mp_transactions mp in
      if length txs \<ge> max_size mp then
        (case min_by_price (iter txs) of
           None \<Rightarrow> None
         | Some (low_hash, low_tx) \<Rightarrow>
             if gas_price tx > gas_price (mt_transaction low_tx) then Some (AList.delete low_hash txs)
             else None)
      else Some txs)"

definition add_child :: "tx_id \<Rightarrow> tx_id \<Rightarrow> (tx_id \<times> tx_id list) list \<Rightarrow> (tx_id \<times> tx_id list) list" where
  "add_child child p m =
     (let cs = hm_list m p in AList.update p (if child \<in> set cs then cs else cs @ [child]) m)"

definition insert_tx ::
  "tx_id \<Rightarrow> transaction \<Rightarrow> tx_id list \<Rightarrow> u64 \<Rightarrow> mempool \<Rightarrow> mempool" where
  "insert_tx h tx ps now mp =
     (let ready = (ps = [] \<or> (\<forall>p \<in> set ps. map_of (mp_transactions mp) p = None));
          mt = (mempool_tx_new tx ps now)\<lparr>is_ready := ready\<rparr>
      in mp\<lparr>mp_transactions := AList.update h mt (mp_transactions mp),
            parent_child_map := fold (add_child h) ps (parent_child_map mp),
            pending_by_sender := hm_push (tx_from tx) h (pending_by_sender mp)\<rparr>)"

definition add_transaction ::
  "(bytes \<Rightarrow> bytes) \<Rightarrow> (tx_map \<Rightarrow> tx_map) \<Rightarrow> state_manager \<Rightarrow> u64 \<Rightarrow> u64 \<Rightarrow> transaction \<Rightarrow> tx_id list
    \<Rightarrow> string option \<Rightarrow> mempool \<Rightarrow> (mempool_error + unit) \<times> mempool" where
  "add_transaction sha iter st now now' tx ps source mp =
     (let (allowed, rates) =
        (case source of None \<Rightarrow> (True, rate_limits mp) | Some src \<Rightarrow> charge_source now src (rate_limits mp));
          mp = mp\<lparr>rate_limits := rates\<rparr>
      in if \<not> allowed then (Inl RateLimited, mp)
         else case make_room iter tx mp of
           None \<Rightarrow> (Inl MempoolFull, mp)
         | Some txs \<Rightarrow>
             let mp = mp\<lparr>mp_transactions := txs\<rparr>;
                 threshold = max (current_base_fee mp) (min_gas_price mp);
                 h = tx_hash sha tx
             in if sig_data (tx_signature tx) = [] then (Inl Unsigned, mp)
                else if gas_price tx < threshold then (Inl (GasPriceTooLow (gas_price tx) threshold), mp)
                else if get_balance st (tx_from tx) = 0 then (Inl ZeroBalance, mp)
                else if map_of txs h \<noteq> None then (Inl AlreadyInMempool, mp)
                else (Inr (), insert_tx h tx ps now' mp))"

definition validate_transaction ::
  "(bytes \<Rightarrow> bytes) \<Rightarrow> ('sk, 'pk, 'rs) secp \<Rightarrow> transaction \<Rightarrow> mempool_error + unit" where
  "validate_transaction sha k tx =
     (case tx_validate_basic sha k tx of
        Inl e \<Rightarrow> Inl (InvalidTx e)
      | Inr _ \<Rightarrow>
          if (case payload tx of Transfer _ amount \<Rightarrow> amount = 0 | _ \<Rightarrow> False) then Inl MempoolAmountZero
          else if gas_limit tx = 0 then Inl MempoolGasZero
          else Inr ())"

definition get_ready_transactions :: "(tx_map \<Rightarrow> tx_map) \<Rightarrow> mempool \<Rightarrow> mempool_tx list" where
  "get_ready_transactions iter mp = filter is_ready (map snd (iter (mp_transactions mp)))"

definition tx_count :: "mempool \<Rightarrow> nat" where
  "tx_count mp = length (mp_transactions mp)"

text \<open>The update of a child's readiness in \<open>remove_transaction\<close>.\<close>

definition refresh_child :: "tx_id \<Rightarrow> tx_map \<Rightarrow> tx_map" where
  "refresh_child c txs =
     (case map_of txs c of
        None \<Rightarrow> txs
      | Some child \<Rightarrow>
          AList.update c (child\<lparr>is_ready := (\<forall>p \<in> set (parent_tx_hashes child). map_of txs p = None)\<rparr>) txs)"

definition remove_transaction :: "tx_id \<Rightarrow> mempool \<Rightarrow> mempool_tx option \<times> mempool" where
  "remove_transaction h mp =
     (let removed = map_of (mp_transactions mp) h;
          txs = AList.delete h (mp_transactions mp)
      in case removed of
           None \<Rightarrow> (None, mp\<lparr>mp_transactions := txs\<rparr>)
         | Some mt \<Rightarrow>
             let pc = AList.delete h (parent_child_map mp);
                 txs = (case map_of pc h of None \<Rightarrow> txs | Some children \<Rightarrow> fold refresh_child children txs);
                 from = tx_from (mt_transaction mt);
                 pending = (case map_of (pending_by_sender mp) from of
                     None \<Rightarrow> pending_by_sender mp
                   | Some l \<Rightarrow> AList.update from (filter (\<lambda>x. x \<noteq> h) l) (pending_by_sender mp))
             in (Some mt, mp\<lparr>mp_transactions := txs, parent_child_map := pc,
                            pending_by_sender := pending\<rparr>))"

definition set_base_fee :: "u64 \<Rightarrow> mempool \<Rightarrow> mempool" where
  "set_base_fee fee mp = mp\<lparr>current_base_fee := fee\<rparr>"

definition mempool_clear :: "mempool \<Rightarrow> mempool" where
  "mempool_clear mp = mp\<lparr>mp_transactions := [], parent_child_map := [], pending_by_sender := []\<rparr>"

definition get_sender_pending :: "mempool \<Rightarrow> address \<Rightarrow> tx_id list" where
  "get_sender_pending mp a = hm_list (pending_by_sender mp) a"

section \<open>Steps and invariant\<close>

definition tx_iterates :: "(tx_map \<Rightarrow> tx_map) \<Rightarrow> bool" where
  "tx_iterates iter \<longleftrightarrow> (\<forall>m. mset (iter m) = mset m)"

inductive mp_step ::
  "(bytes \<Rightarrow> bytes) \<Rightarrow> (tx_map \<Rightarrow> tx_map) \<Rightarrow> mempool \<Rightarrow> mempool \<Rightarrow> bool" for sha iter where
  add: "mp_step sha iter mp (snd (add_transaction sha iter st now now' tx ps source mp))"
| remove: "mp_step sha iter mp (snd (remove_transaction h mp))"
| base_fee: "mp_step sha iter mp (set_base_fee fee mp)"
| clear: "mp_step sha iter mp (mempool_clear mp)"

definition rates_ok :: "(string \<times> (nat \<times> u64)) list \<Rightarrow> bool" where
  "rates_ok rates \<longleftrightarrow> (\<forall>src. case map_of rates src of None \<Rightarrow> True | Some (c, t) \<Rightarrow> c \<le> MAX_TX_PER_SOURCE)"

definition mp_inv :: "(bytes \<Rightarrow> bytes) \<Rightarrow> mempool \<Rightarrow> bool" where
  "mp_inv sha mp \<longleftrightarrow>
     hm_inv (mp_transactions mp) \<and> length (mp_transactions mp) \<le> max_size mp \<and>
     (\<forall>h mt. map_of (mp_transactions mp) h = Some mt \<longrightarrow>
        tx_hash sha (mt_transaction mt) = h \<and> sig_data (tx_signature (mt_transaction mt)) \<noteq> []
        \<and> min_gas_price mp \<le> gas_price (mt_transaction mt)
        \<and> h \<in> set (get_sender_pending mp (tx_from (mt_transaction mt)))) \<and>
     rates_ok (rate_limits mp)"

section \<open>Lemmas\<close>

lemma min_by_price_in: "min_by_price xs = Some x \<Longrightarrow> x \<in> set xs"
  by (induction xs arbitrary: x) (auto split: option.splits if_splits)

lemma min_by_price_None: "min_by_price xs = None \<longleftrightarrow> xs = []"
  by (cases xs) (auto split: option.split)

lemma make_room_spec:
  assumes "tx_iterates iter" and "hm_inv (mp_transactions mp)" and "make_room iter tx mp = Some txs"
    and "length (mp_transactions mp) \<le> max_size mp"
  shows "hm_inv txs \<and> length txs < max_size mp \<and> map_of txs \<subseteq>\<^sub>m map_of (mp_transactions mp)"
proof (cases "length (mp_transactions mp) \<ge> max_size mp")
  case True
  then obtain h mt where m: "min_by_price (iter (mp_transactions mp)) = Some (h, mt)"
    and txs: "txs = AList.delete h (mp_transactions mp)"
    using assms(3) by (auto simp: make_room_def Let_def split: option.splits if_splits)
  have "set (iter (mp_transactions mp)) = set (mp_transactions mp)"
    using assms(1) mset_eq_setD by (auto simp: tx_iterates_def)
  with min_by_price_in [OF m] have "map_of (mp_transactions mp) h = Some mt"
    using assms(2) by (simp add: hm_inv_def)
  from length_delete_old [OF assms(2) this] show ?thesis
    using assms(2,4) by (auto simp: txs hm_inv_delete map_of_hm_delete map_le_def)
next
  case False
  with assms show ?thesis
    by (auto simp: make_room_def Let_def)
qed

lemma rates_ok_update: "rates_ok rates \<Longrightarrow> c \<le> MAX_TX_PER_SOURCE \<Longrightarrow> rates_ok (AList.update src (c, t) rates)"
  by (simp add: rates_ok_def map_of_hm_update)

lemma charge_source_ok:
  assumes "rates_ok rates"
  shows "rates_ok (snd (charge_source now src rates))"
proof -
  have "c \<le> MAX_TX_PER_SOURCE" if "map_of rates src = Some (c, t)" for c t
    using assms that unfolding rates_ok_def by (metis case_prod_conv option.simps(5))
  then show ?thesis
    using assms by (auto simp: charge_source_def Let_def split: option.split prod.split intro!: rates_ok_update)
qed

lemma removed_children_never_refreshed:
  "mp_transactions (snd (remove_transaction h mp)) = AList.delete h (mp_transactions mp)"
  by (simp add: remove_transaction_def Let_def map_of_hm_delete split: option.split)

lemma add_transaction_cases:
  assumes "tx_iterates iter" and "mp_inv sha mp"
    and "add_transaction sha iter st now now' tx ps source mp = (r, mp')"
  obtains (kept) "r \<noteq> Inr ()" and "map_of (mp_transactions mp') \<subseteq>\<^sub>m map_of (mp_transactions mp)"
      and "mp_inv sha mp'"
  | (added) mp1 where "r = Inr ()" and "map_of (mp_transactions mp1) \<subseteq>\<^sub>m map_of (mp_transactions mp)"
      and "mp_inv sha mp1" and "length (mp_transactions mp1) < max_size mp1"
      and "mp' = insert_tx (tx_hash sha tx) tx ps now' mp1"
      and "map_of (mp_transactions mp1) (tx_hash sha tx) = None"
      and "sig_data (tx_signature tx) \<noteq> []" and "min_gas_price mp1 \<le> gas_price tx"
      and "current_base_fee mp \<le> gas_price tx" and "get_balance st (tx_from tx) \<noteq> 0"
proof -
  obtain ok rates where c: "(case source of None \<Rightarrow> (True, rate_limits mp)
      | Some src \<Rightarrow> charge_source now src (rate_limits mp)) = (ok, rates)"
    by fastforce
  have rates: "rates_ok rates"
  proof (cases source)
    case None
    with assms(2) c show ?thesis
      by (simp add: mp_inv_def)
  next
    case (Some src)
    with assms(2) c charge_source_ok [of "rate_limits mp" now src] show ?thesis
      by (simp add: mp_inv_def)
  qed
  let ?mp = "mp\<lparr>rate_limits := rates\<rparr>"
  have inv: "mp_inv sha ?mp"
    using assms(2) rates by (auto simp: mp_inv_def get_sender_pending_def)
  note d = assms(3) [unfolded add_transaction_def c Let_def prod.case]
  show thesis
  proof (cases "ok \<and> make_room iter tx ?mp \<noteq> None")
    case False
    then have "r \<noteq> Inr ()" "mp' = ?mp"
      using d by (auto split: if_splits option.splits)
    with inv show thesis
      by (intro kept) auto
  next
    case True
    then obtain txs where txs: "make_room iter tx ?mp = Some txs"
      by auto
    let ?mp1 = "?mp\<lparr>mp_transactions := txs\<rparr>"
    have room: "hm_inv txs" "length txs < max_size mp" "map_of txs \<subseteq>\<^sub>m map_of (mp_transactions mp)"
      using make_room_spec [OF assms(1) _ txs] inv by (auto simp: mp_inv_def)
    have inv1: "mp_inv sha ?mp1"
      using inv room unfolding mp_inv_def get_sender_pending_def
      by (auto simp: map_le_def dom_def)
    show thesis
    proof (cases "r = Inr ()")
      case r: True
      have checks: "mp' = insert_tx (tx_hash sha tx) tx ps now' ?mp1"
        "map_of txs (tx_hash sha tx) = None" "sig_data (tx_signature tx) \<noteq> []"
        "\<not> gas_price tx < max (current_base_fee mp) (min_gas_price mp)"
        "get_balance st (tx_from tx) \<noteq> 0"
        using d True txs r by (auto split: if_splits)
      show thesis
        by (rule added [OF r _ inv1 _ checks(1)]) (use checks room in \<open>auto simp: not_less\<close>)
    next
      case r: False
      have "mp' = ?mp1"
        using d True txs r by (auto split: if_splits)
      with r inv1 room show thesis
        by (intro kept) auto
    qed
  qed
qed

lemma insert_tx_inv:
  assumes "mp_inv sha mp" and "length (mp_transactions mp) < max_size mp"
    and "map_of (mp_transactions mp) (tx_hash sha tx) = None"
    and "sig_data (tx_signature tx) \<noteq> []" and "min_gas_price mp \<le> gas_price tx"
  shows "mp_inv sha (insert_tx (tx_hash sha tx) tx ps now mp)"
proof -
  have "length (AList.update (tx_hash sha tx) mt (mp_transactions mp)) \<le> max_size mp" for mt
    using assms(2) length_update_fresh [OF assms(3)] by simp
  with assms show ?thesis
    by (fastforce simp: mp_inv_def insert_tx_def Let_def hm_inv_update map_of_hm_update mempool_tx_new_def
        get_sender_pending_def hm_list_push)
qed

lemma remove_transaction_inv:
  assumes "mp_inv sha mp"
  shows "mp_inv sha (snd (remove_transaction h mp))"
proof -
  let ?mp = "snd (remove_transaction h mp)"
  note t = removed_children_never_refreshed [of h mp]
  have "length (AList.delete h (mp_transactions mp)) \<le> max_size mp"
    using assms by (auto simp: mp_inv_def AList.delete_eq intro: order_trans [OF length_filter_le])
  moreover have "x \<in> set (get_sender_pending ?mp a)"
    if "x \<in> set (get_sender_pending mp a)" "x \<noteq> h" for x a
    using that
    by (auto simp: remove_transaction_def Let_def get_sender_pending_def hm_list_def map_of_hm_update
        split: option.splits)
  moreover have "rate_limits ?mp = rate_limits mp" "max_size ?mp = max_size mp"
    "min_gas_price ?mp = min_gas_price mp"
    by (simp_all add: remove_transaction_def Let_def split: option.split)
  ultimately show ?thesis
    using assms unfolding mp_inv_def t by (auto simp: hm_inv_delete map_of_hm_delete)
qed

lemma mp_step_inv:
  assumes "mp_step sha iter mp mp'" and "tx_iterates iter" and "mp_inv sha mp"
  shows "mp_inv sha mp'"
  using assms(1)
proof cases
  case (add st now now' tx ps source)
  obtain r where r: "add_transaction sha iter st now now' tx ps source mp = (r, mp')"
    using add by (metis prod.collapse)
  from assms(2,3) r show ?thesis
    by (rule add_transaction_cases) (auto intro: insert_tx_inv)
next
  case (remove h)
  with assms(3) show ?thesis
    by (simp add: remove_transaction_inv)
qed (use assms(3) in \<open>auto simp: mp_inv_def set_base_fee_def mempool_clear_def get_sender_pending_def\<close>)

lemma mp_steps_inv: "(mp_step sha iter)\<^sup>*\<^sup>* mp mp' \<Longrightarrow> tx_iterates iter \<Longrightarrow> mp_inv sha mp \<Longrightarrow> mp_inv sha mp'"
  by (induction rule: rtranclp_induct) (auto intro: mp_step_inv)

lemma mempool_new_inv: "mp_inv sha (mempool_new n price)"
  by (simp add: mp_inv_def mempool_new_def rates_ok_def)

section \<open>Sample instances\<close>

definition signed_tx :: "u64 \<Rightarrow> transaction" where
  "signed_tx price = (new_transfer GENESIS_WALLET (replicate 20 3) 5 0 21 price)
     \<lparr>tx_signature := \<lparr>algorithm = Secp256k1, sig_data = [1]\<rparr>\<rparr>"

definition sample_state :: state_manager where
  "sample_state = initialize_tokenomics sample_sha id (state_manager_new sample_sha id)"

lemma sample_state_balance: "get_balance sample_state GENESIS_WALLET = 100000000"
  by (simp add: sample_state_def get_balance_def tree_get_def initialized_state account_new_def)

lemma tx_iterates_id: "tx_iterates id"
  by (simp add: tx_iterates_def)

section \<open>Properties\<close>

text \<open>
  C36. Whatever sequence of additions, removals, fee changes and clearings: the pool never
  holds more transactions than its size, every entry is keyed by its own hash, is signed, pays
  at least the minimum gas price and is listed under its sender, and no source has more than
  100 charges in its window.
\<close>

theorem mempool_invariant:
  assumes "tx_iterates iter" and "(mp_step sha iter)\<^sup>*\<^sup>* (mempool_new n price) mp"
  shows "mp_inv sha mp \<and> tx_count mp \<le> max_size mp"
  using mp_steps_inv [OF assms(2,1) mempool_new_inv] by (simp add: mp_inv_def tx_count_def)

theorem mempool_invariant_witness:
  "mp_inv sample_sha (snd (add_transaction sample_sha id sample_state 7 7 (signed_tx 3) [] None
     (mempool_new 2 1)))"
proof -
  have "(mp_step sample_sha id)\<^sup>*\<^sup>* (mempool_new 2 1)
      (snd (add_transaction sample_sha id sample_state 7 7 (signed_tx 3) [] None (mempool_new 2 1)))"
    by (rule r_into_rtranclp) (rule mp_step.add)
  from mempool_invariant [OF tx_iterates_id this] show ?thesis
    by blast
qed

text \<open>
  A successful addition adds exactly the transaction, ready exactly when none of its
  declared parents is in the pool; at most one other entry, the one evicted, disappears and no
  other entry changes. It pays the base fee and its sender has a balance.
\<close>

theorem add_transaction_effect:
  assumes "tx_iterates iter" and "mp_inv sha mp"
    and "add_transaction sha iter st now now' tx ps source mp = (Inr (), mp')"
  shows "\<exists>m. m \<subseteq>\<^sub>m map_of (mp_transactions mp)
    \<and> map_of (mp_transactions mp') = m(tx_hash sha tx \<mapsto>
        \<lparr>mt_transaction = tx, parent_tx_hashes = ps, mt_timestamp = now',
         is_ready = (\<forall>p \<in> set ps. m p = None)\<rparr>)
    \<and> current_base_fee mp \<le> gas_price tx \<and> get_balance st (tx_from tx) \<noteq> 0"
  using assms
proof (cases rule: add_transaction_cases)
  case (added mp1)
  then show ?thesis
    by (intro exI [of _ "map_of (mp_transactions mp1)"])
      (auto simp: insert_tx_def Let_def map_of_hm_update mempool_tx_new_def fun_eq_iff)
qed simp

theorem add_transaction_effect_witness:
  "let (r, mp') = add_transaction sample_sha id sample_state 7 7 (signed_tx 3) [] None (mempool_new 2 1)
   in r = Inr () \<and> map_of (mp_transactions mp') (tx_hash sample_sha (signed_tx 3)) \<noteq> None"
proof -
  let ?a = "add_transaction sample_sha id sample_state 7 7 (signed_tx 3) [] None (mempool_new 2 1)"
  have "fst ?a = Inr ()"
    by (simp add: add_transaction_def Let_def make_room_def mempool_new_def signed_tx_def new_transfer_def
        sample_state_balance)
  then obtain mp' where a: "?a = (Inr (), mp')"
    by (metis prod.collapse)
  from add_transaction_effect [OF tx_iterates_id mempool_new_inv a] a show ?thesis
    by auto
qed

text \<open>
  \<open>remove_transaction\<close> removes the entry and changes no other one. In particular it never
  makes a waiting child of the removed transaction ready: the list of children is discarded
  before it is read.
\<close>

theorem remove_transaction_effect:
  "map_of (mp_transactions (snd (remove_transaction h mp))) = (map_of (mp_transactions mp))(h := None)
   \<and> fst (remove_transaction h mp) = map_of (mp_transactions mp) h"
  by (simp add: removed_children_never_refreshed map_of_hm_delete)
    (simp add: remove_transaction_def Let_def split: option.split)

text \<open>
  Eviction comes before the checks: at a full pool, an unsigned transaction with a higher
  gas price than the cheapest entry is refused, and the cheapest entry is gone all the same.
\<close>

theorem refused_transaction_evicts:
  assumes "length (mp_transactions mp) \<ge> max_size mp" and "sig_data (tx_signature tx) = []"
    and "min_by_price (iter (mp_transactions mp)) = Some (low, mt)"
    and "gas_price (mt_transaction mt) < gas_price tx"
  shows "add_transaction sha iter st now now' tx ps None mp =
    (Inl Unsigned, mp\<lparr>mp_transactions := AList.delete low (mp_transactions mp)\<rparr>)"
  using assms by (simp add: add_transaction_def make_room_def Let_def)

theorem refused_transaction_evicts_witness:
  "let mt = mempool_tx_new (signed_tx 3) [] 0;
       mp = (mempool_new 1 1)\<lparr>mp_transactions := [(tx_hash sample_sha (signed_tx 3), mt)]\<rparr>
   in mp_transactions (snd (add_transaction sample_sha id sample_state 7 7
        (new_transfer GENESIS_WALLET (replicate 20 3) 5 1 21 9) [] None mp)) = []"
  using refused_transaction_evicts [of "(mempool_new 1 1)\<lparr>mp_transactions :=
      [(tx_hash sample_sha (signed_tx 3), mempool_tx_new (signed_tx 3) [] 0)]\<rparr>"
      "new_transfer GENESIS_WALLET (replicate 20 3) 5 1 21 9" id "tx_hash sample_sha (signed_tx 3)"
      "mempool_tx_new (signed_tx 3) [] 0" sample_sha sample_state 7 7 "[]"]
  by (simp add: mempool_new_def new_transfer_def empty_signature_def mempool_tx_new_def signed_tx_def)

end
