(* ===== verification/Block_Producer.thy ===== *)
theory Block_Producer
  imports Fees Mempool
begin

text \<open>
  The block producer: \<^verbatim>\<open>src/src/block/block_producer.rs\<close>.

  The mempool, the DAG and the state manager are shared with the node and are arguments; the
  fields the producer owns are the record \<open>block_producer\<close>. \<open>t\<close> is the clock reading that stamps
  the block, \<open>now\<close> the one \<open>validate_basic\<close> takes. \<open>enum\<close> enumerates the set of tips and \<open>iter\<close>
  the map of transactions. The parallel search over the nonces (crate \<^verbatim>\<open>rayon\<close>, \<open>find_any\<close>) is
  the argument \<open>search\<close>: \<open>find_any_ok\<close> says that it returns some nonce below \<open>u64::MAX\<close> that
  passes the test, and none only if there is none.
\<close>

section \<open>State\<close>

record block_producer =
  producer_id :: address
  bp_nonce :: u64
  min_transactions :: nat
  max_transactions :: nat
  bp_difficulty :: difficulty_state

datatype producer_error = NotEnoughReady nat nat | ProducedInvalid block_error | NoNonceFound

definition find_any_ok :: "((u64 \<Rightarrow> bool) \<Rightarrow> u64 option) \<Rightarrow> bool" where
  "find_any_ok search \<longleftrightarrow>
     (\<forall>P. case search P of Some n \<Rightarrow> n < - 1 \<and> P n | None \<Rightarrow> \<forall>n < - 1. \<not> P n)"

section \<open>Operations\<close>

definition block_producer_new :: "u64 \<Rightarrow> address \<Rightarrow> nat \<Rightarrow> nat \<Rightarrow> daa_config \<Rightarrow> block_producer" where
  "block_producer_new now pid mn mx config =
     \<lparr>producer_id = pid, bp_nonce = 0, min_transactions = mn, max_transactions = mx,
      bp_difficulty = difficulty_state_new now config\<rparr>"

definition priority_key :: "u64 \<Rightarrow> mempool_tx \<Rightarrow> u64" where
  "priority_key base_fee mt = - 1 - sat_sub (gas_price (mt_transaction mt)) base_fee"

text \<open>The transactions of the next block without the coinbase: truncated first, then sorted.\<close>

definition candidate_transactions ::
  "(tx_map \<Rightarrow> tx_map) \<Rightarrow> u64 \<Rightarrow> mempool \<Rightarrow> block_producer \<Rightarrow> producer_error + transaction list" where
  "candidate_transactions iter base_fee mp bp =
     (let ready = get_ready_transactions iter mp in
      if length ready < min_transactions bp \<and> length ready > 0 \<and> tx_count mp > min_transactions bp
      then Inl (NotEnoughReady (length ready) (min_transactions bp))
      else let kept = (if length ready > max_transactions bp then take (max_transactions bp) ready else ready)
           in Inr (map mt_transaction (sort_key (priority_key base_fee) kept)))"

text \<open>The greatest height among the tips, and the reward that is due on top of them.\<close>

definition tip_height :: "(block_hash set \<Rightarrow> block_hash list) \<Rightarrow> block_dag \<Rightarrow> u64" where
  "tip_height enum d = foldr max (map (hd_chain_height \<circ> header) (get_tip_blocks enum d)) 0"

definition due_reward ::
  "env \<Rightarrow> (block_hash set \<Rightarrow> block_hash list) \<Rightarrow> block_dag \<Rightarrow> state_manager \<Rightarrow> nat \<Rightarrow> u64" where
  "due_reward E enum d st n =
     calculate_expected_block_reward (exp_f64 E) (get_emitted_supply st) (u64_to_f64 (tip_height enum d))
       (get_recent_timestamps enum d (activity_window_size default_reward_config)) n default_reward_config"

definition coinbase :: "address \<Rightarrow> u64 \<Rightarrow> transaction" where
  "coinbase pid reward = new_transfer (replicate 20 0) pid reward 0 0 0"

definition create_block ::
  "env \<Rightarrow> (block_hash set \<Rightarrow> block_hash list) \<Rightarrow> (tx_map \<Rightarrow> tx_map) \<Rightarrow> u64 \<Rightarrow> u64 \<Rightarrow> u32 \<Rightarrow> u64
    \<Rightarrow> mempool \<Rightarrow> block_dag \<Rightarrow> state_manager \<Rightarrow> block_producer
    \<Rightarrow> (producer_error + block) \<times> block_producer" where
  "create_block E enum iter t now difficulty base_fee mp d st bp =
     (case candidate_transactions iter base_fee mp bp of
        Inl e \<Rightarrow> (Inl e, bp)
      | Inr txs \<Rightarrow>
          let reward = due_reward E enum d st (length txs);
              all_transactions = coinbase (producer_id bp) reward # txs;
              block_nonce = bp_nonce bp;
              bp = bp\<lparr>bp_nonce := block_nonce + 1\<rparr>;
              b = block_new E (get_tips enum (dag_idx d)) t all_transactions block_nonce difficulty
                    base_fee (producer_id bp) (replicate 32 0)
          in case validate_basic E now b of
               Inl e \<Rightarrow> (Inl (ProducedInvalid e), bp)
             | Inr _ \<Rightarrow> (Inr b, bp))"

definition with_nonce :: "u64 \<Rightarrow> block \<Rightarrow> block" where
  "with_nonce n b = b\<lparr>header := (header b)\<lparr>hd_nonce := n\<rparr>\<rparr>"

definition coinbase_amount :: "block \<Rightarrow> u64" where
  "coinbase_amount b =
     (case transactions b of
        [] \<Rightarrow> 0
      | tx # _ \<Rightarrow> (case payload tx of Transfer _ amount \<Rightarrow> amount | _ \<Rightarrow> 0))"

text \<open>\<open>now2\<close> is the clock of the second \<open>validate_basic\<close>, \<open>now3\<close> the one \<open>add_block\<close> takes.\<close>

definition mine_block ::
  "env \<Rightarrow> (block_hash set \<Rightarrow> block_hash list) \<Rightarrow> (tx_map \<Rightarrow> tx_map) \<Rightarrow> leaf_iter
    \<Rightarrow> ((u64 \<Rightarrow> bool) \<Rightarrow> u64 option) \<Rightarrow> u64 \<Rightarrow> u64 \<Rightarrow> u64 \<Rightarrow> u64 \<Rightarrow> u32 \<Rightarrow> u64
    \<Rightarrow> mempool \<Rightarrow> block_dag \<Rightarrow> state_manager \<Rightarrow> block_producer
    \<Rightarrow> (producer_error + block) \<times> state_manager \<times> block_producer" where
  "mine_block E enum iter liter search t now now2 now3 difficulty base_fee mp d st bp =
     (case create_block E enum iter t now difficulty base_fee mp d st bp of
        (Inl e, bp1) \<Rightarrow> (Inl e, st, bp1)
      | (Inr base, bp1) \<Rightarrow>
          (case search (\<lambda>n. meets_difficulty (calculate_hash E (with_nonce n base))
              (hd_difficulty (header (with_nonce n base)))) of
             None \<Rightarrow> (Inl NoNonceFound, st, bp1)
           | Some n \<Rightarrow>
               let base = with_nonce n base;
                   base = base\<lparr>blk_hash := calculate_hash E base\<rparr>
               in case validate_basic E now2 base of
                    Inl e \<Rightarrow> (Inl (ProducedInvalid e), st, bp1)
                  | Inr _ \<Rightarrow>
                      (Inr base, add_emitted_supply (sha256 E) liter (coinbase_amount base) st,
                       bp1\<lparr>bp_difficulty := add_block now3 (hd_timestamp (header base)) (bp_difficulty bp1)\<rparr>)))"

definition get_pending_transactions :: "(tx_map \<Rightarrow> tx_map) \<Rightarrow> mempool \<Rightarrow> block_producer \<Rightarrow> transaction list" where
  "get_pending_transactions iter mp bp =
     map mt_transaction (take (max_transactions bp) (get_ready_transactions iter mp))"

definition reset_nonce :: "block_producer \<Rightarrow> block_producer" where
  "reset_nonce bp = bp\<lparr>bp_nonce := 0\<rparr>"

definition get_nonce :: "block_producer \<Rightarrow> u64" where
  "get_nonce bp = bp_nonce bp"

section \<open>Lemmas\<close>

lemma create_blockE:
  assumes "create_block E enum iter t now difficulty base_fee mp d st bp = (Inr b, bp')"
  obtains txs where "candidate_transactions iter base_fee mp bp = Inr txs"
    "b = block_new E (get_tips enum (dag_idx d)) t
       (coinbase (producer_id bp) (due_reward E enum d st (length txs)) # txs)
       (bp_nonce bp) difficulty base_fee (producer_id bp) (replicate 32 0)"
    "validate_basic E now b = Inr ()" "bp' = bp\<lparr>bp_nonce := bp_nonce bp + 1\<rparr>"
  using assms by (auto simp: create_block_def Let_def split: sum.splits)

lemma candidate_transactions_spec:
  assumes "candidate_transactions iter base_fee mp bp = Inr txs"
  shows "mset txs = mset (get_pending_transactions iter mp bp)"
    and "sorted_wrt (\<lambda>a b. sat_sub (gas_price b) base_fee \<le> sat_sub (gas_price a) base_fee) txs"
    and "length txs \<le> max_transactions bp"
proof -
  let ?ready = "get_ready_transactions iter mp" and ?k = "priority_key base_fee"
  have txs: "txs = map mt_transaction (sort_key ?k (take (max_transactions bp) ?ready))"
    using assms by (auto simp: candidate_transactions_def Let_def split: if_splits)
  then show "mset txs = mset (get_pending_transactions iter mp bp)"
    by (simp add: get_pending_transactions_def)
  show "length txs \<le> max_transactions bp"
    by (simp add: txs)
  have "sorted (map ?k (sort_key ?k (take (max_transactions bp) ?ready)))"
    by (rule sorted_sort_key)
  then show "sorted_wrt (\<lambda>a b. sat_sub (gas_price b) base_fee \<le> sat_sub (gas_price a) base_fee) txs"
    unfolding txs sorted_map sorted_wrt_map
    by (rule sorted_wrt_mono_rel [rotated])
      (simp add: priority_key_def descending_key_le)
qed

lemma validate_basicD:
  assumes "validate_basic E now b = Inr ()"
  shows "blk_hash b = calculate_hash E b" and "meets_difficulty (blk_hash b) (hd_difficulty (header b))"
proof -
  show "blk_hash b = calculate_hash E b" "meets_difficulty (blk_hash b) (hd_difficulty (header b))"
    using assms by (auto simp: validate_basic_def Let_def meets_difficulty_def [of _ 0] word_gt_0
        split: if_splits)
qed

lemma with_nonce_simps [simp]:
  "hd_difficulty (header (with_nonce n b)) = hd_difficulty (header b)"
  "transactions (with_nonce n b) = transactions b" "parents (with_nonce n b) = parents b"
  "hd_timestamp (header (with_nonce n b)) = hd_timestamp (header b)"
  "blk_reward (with_nonce n b) = blk_reward b" "hd_nonce (header (with_nonce n b)) = n"
  "blk_hash (with_nonce n b) = blk_hash b" "producer (with_nonce n b) = producer b"
  by (simp_all add: with_nonce_def)

lemma with_own_nonce: "with_nonce (hd_nonce (header b)) b = b"
  by (simp add: with_nonce_def)

text \<open>Changing the nonce and refreshing the hash touches no check but the proof of work.\<close>

lemma remined_validates:
  assumes "validate_basic E now b = Inr ()" and "b' = with_nonce n b"
  shows "validate_basic E now2 (b'\<lparr>blk_hash := calculate_hash E b'\<rparr>) =
    (if \<not> meets_difficulty (calculate_hash E b') (hd_difficulty (header b)) then Inl PowNotMet
     else if hd_timestamp (header b) > now2 + 3600 then Inl TimestampTooFar else Inr ())"
  using assms by (auto simp: validate_basic_def Let_def meets_difficulty_def [of _ 0] word_gt_0
      split: if_splits)

lemma find_any_okD:
  assumes "find_any_ok search"
  shows "search P = None \<Longrightarrow> n < - 1 \<Longrightarrow> \<not> P n" and "search P = Some n \<Longrightarrow> P n"
  using assms spec [of "\<lambda>P. case search P of Some n \<Rightarrow> n < - 1 \<and> P n | None \<Rightarrow> \<forall>n < - 1. \<not> P n" P]
  by (auto simp: find_any_ok_def)

lemma emitted_supply_added:
  assumes "unat (get_emitted_supply st) + unat r \<le> 500000000"
  shows "unat (get_emitted_supply (add_emitted_supply sha iter r st)) = unat (get_emitted_supply st) + unat r"
proof (cases "r = 0")
  case True
  then show ?thesis
    by (simp add: add_emitted_supply_def)
next
  case False
  let ?acc = "account_or_zero (state_tree st) EMISSION_STATE_ACCOUNT"
  have acc: "acc_balance ?acc = get_emitted_supply st"
    by (simp add: get_emitted_supply_def account_or_zero_def account_new_def split: option.split)
  have m: "unat CTS_MINING_SUPPLY = 500000000"
    by (simp add: CTS_MINING_SUPPLY_def CTS_MAX_SUPPLY_def CTS_GENESIS_ALLOCATION_def)
  have "unat r \<le> unat (sat_sub CTS_MINING_SUPPLY (get_emitted_supply st))" "0 < unat r"
    using assms False by (simp_all add: unat_sat_sub m unat_gt_0)
  then have "add_emitted_supply sha iter r st = put_account sha iter EMISSION_STATE_ACCOUNT
      (?acc\<lparr>acc_balance := sat_add (get_emitted_supply st) r\<rparr>) st"
    using False by (auto simp: add_emitted_supply_def Let_def acc min_def word_le_nat_alt)
  moreover have "unat (sat_add (get_emitted_supply st) r) = unat (get_emitted_supply st) + unat r"
    using assms by (simp add: unat_sat_add)
  moreover have "get_emitted_supply (put_account sha iter EMISSION_STATE_ACCOUNT a st) = acc_balance a" for a
    by (simp add: get_emitted_supply_def put_account_def Let_def tree_get_update)
  ultimately show ?thesis
    by simp
qed

section \<open>Sample instances\<close>

definition nonces_below :: "nat \<Rightarrow> u64 list" where
  "nonces_below m = map of_nat [0..<m]"

definition all_nonces :: "(u64 \<Rightarrow> bool) \<Rightarrow> u64 option" where
  "all_nonces P = List.find P (nonces_below (unat (- 1 :: u64)))"

lemma set_nonces_below: "m \<le> unat (- 1 :: u64) \<Longrightarrow> n \<in> set (nonces_below m) \<longleftrightarrow> unat n < m"
proof -
  assume m: "m \<le> unat (- 1 :: u64)"
  have "unat (of_nat i :: u64) = i" if "i < m" for i
    using that m by (simp add: unat_of_nat_small unat_minus_one_max)
  then show ?thesis
    by (force simp: nonces_below_def image_iff)
qed

lemma all_nonces_ok: "find_any_ok all_nonces"
  unfolding find_any_ok_def
proof
  fix P :: "u64 \<Rightarrow> bool"
  let ?l = "nonces_below (unat (- 1 :: u64))"
  have l: "n \<in> set ?l \<longleftrightarrow> n < - 1" for n
    by (simp only: set_nonces_below [OF order.refl] word_less_nat_alt)
  show "case all_nonces P of None \<Rightarrow> \<forall>n < - 1. \<not> P n | Some n \<Rightarrow> n < - 1 \<and> P n"
    unfolding all_nonces_def
    by (auto split: option.split simp: find_None_iff find_Some_iff simp flip: l)
qed

definition sample_producer :: block_producer where
  "sample_producer = block_producer_new 1000 (replicate 20 9) 0 10 default_daa_config"

lemma sample_producer_fields: "bp_nonce sample_producer = 0" "producer_id sample_producer = replicate 20 9"
  by (simp_all add: sample_producer_def block_producer_new_def)

lemma sample_producer_nonce: "bp_nonce sample_producer < - 1"
  by (simp add: sample_producer_def block_producer_new_def word_less_nat_alt unat_minus_one_max)

lemma sample_candidates:
  "candidate_transactions id 1 (mempool_new 2 1) sample_producer = Inr []"
  by (simp add: candidate_transactions_def get_ready_transactions_def mempool_new_def sample_producer_def
      block_producer_new_def)

lemma sample_create:
  "\<exists>b bp'. create_block sample_env sorted_list_of_set id 1000 1000 0 1 (mempool_new 2 1) (block_dag_new [])
     sample_state sample_producer = (Inr b, bp')"
  by (simp add: create_block_def sample_candidates Let_def block_new_checks)

lemma sample_mine:
  "\<exists>b st' bp'. mine_block sample_env sorted_list_of_set id id all_nonces 1000 1000 1000 1000 0 1
     (mempool_new 2 1) (block_dag_new []) sample_state sample_producer = (Inr b, st', bp')"
proof -
  obtain b bp' where c: "create_block sample_env sorted_list_of_set id 1000 1000 0 1 (mempool_new 2 1)
      (block_dag_new []) sample_state sample_producer = (Inr b, bp')"
    using sample_create by metis
  then obtain txs where b: "b = block_new sample_env (get_tips sorted_list_of_set (dag_idx (block_dag_new []))) 1000
      txs (bp_nonce sample_producer) 0 1 (producer_id sample_producer) (replicate 32 0)"
    and v: "validate_basic sample_env 1000 b = Inr ()"
    by (rule create_blockE) blast
  have p: "meets_difficulty h (hd_difficulty (header b))" for h
    by (simp add: b meets_difficulty_def)
  obtain n where n: "all_nonces (\<lambda>n. True) = Some n"
    using find_any_okD(1) [OF all_nonces_ok _ sample_producer_nonce] by (metis not_None_eq)
  have "hd_timestamp (header b) = 1000"
    by (simp add: b)
  then show ?thesis
    using remined_validates [OF v refl, of 1000 n] by (simp add: mine_block_def c p n Let_def)
qed

section \<open>Properties\<close>

text \<open>
  C21. A block that \<open>create_block\<close> returns extends all current tips. Its first transaction is the
  coinbase, which pays the due reward to the producer; the others are the first ready
  transactions of the pool up to the configured maximum, ordered by descending priority fee.
  The block passes \<open>validate_basic\<close> and takes the producer's nonce, which goes up by one.
\<close>

theorem create_block_effect:
  assumes "create_block E enum iter t now difficulty base_fee mp d st bp = (Inr b, bp')"
  shows "\<exists>txs. transactions b = coinbase (producer_id bp) (due_reward E enum d st (length txs)) # txs
    \<and> mset txs = mset (get_pending_transactions iter mp bp) \<and> length txs \<le> max_transactions bp
    \<and> sorted_wrt (\<lambda>x y. sat_sub (gas_price y) base_fee \<le> sat_sub (gas_price x) base_fee) txs
    \<and> parents b = get_tips enum (dag_idx d) \<and> hd_nonce (header b) = bp_nonce bp
    \<and> validate_basic E now b = Inr () \<and> bp' = bp\<lparr>bp_nonce := bp_nonce bp + 1\<rparr>"
proof -
  obtain txs where txs: "candidate_transactions iter base_fee mp bp = Inr txs"
    and b: "b = block_new E (get_tips enum (dag_idx d)) t
      (coinbase (producer_id bp) (due_reward E enum d st (length txs)) # txs)
      (bp_nonce bp) difficulty base_fee (producer_id bp) (replicate 32 0)"
    and v: "validate_basic E now b = Inr ()" and bp': "bp' = bp\<lparr>bp_nonce := bp_nonce bp + 1\<rparr>"
    using create_blockE [OF assms] .
  have "hd_nonce (header b) = bp_nonce bp"
    by (simp add: b block_new_def Let_def)
  with candidate_transactions_spec [OF txs] b v bp' show ?thesis
    by (intro exI [of _ txs]) simp
qed

theorem create_block_effect_witness:
  "case create_block sample_env sorted_list_of_set id 1000 1000 0 1 (mempool_new 2 1) (block_dag_new [])
       sample_state sample_producer of
     (Inr b, bp') \<Rightarrow> tl (transactions b) = [] \<and> parents b = [] \<and> bp_nonce bp' = 1
   | _ \<Rightarrow> False"
proof -
  obtain b bp' where c: "create_block sample_env sorted_list_of_set id 1000 1000 0 1 (mempool_new 2 1)
      (block_dag_new []) sample_state sample_producer = (Inr b, bp')"
    using sample_create by metis
  have "get_pending_transactions id (mempool_new 2 1) sample_producer = []"
    by (simp add: get_pending_transactions_def get_ready_transactions_def mempool_new_def)
  with create_block_effect [OF c] show ?thesis
    unfolding c by (auto simp: get_tips_def block_dag_new_def dag_index_new_def sample_producer_fields)
qed

text \<open>
  Mining never repairs a template: \<open>create_block\<close> checks the proof of work of the block it
  hands to the search. So when the transactions are selected, \<open>mine_block\<close> succeeds exactly when
  the template with the producer's current nonce already meets the difficulty (its hashes are
  distinct and the clock has not moved back by more than an hour); a template that misses it
  is refused whatever other nonces would do, and only the producer's nonce changes.
\<close>

theorem mining_needs_lucky_template:
  assumes "find_any_ok search" and "bp_nonce bp < - 1" and "t \<le> now2 + 3600" and "t \<le> now + 3600"
    and txs: "candidate_transactions iter base_fee mp bp = Inr txs"
    and b: "b = block_new E (get_tips enum (dag_idx d)) t
      (coinbase (producer_id bp) (due_reward E enum d st (length txs)) # txs)
      (bp_nonce bp) difficulty base_fee (producer_id bp) (replicate 32 0)"
  shows "((\<exists>b'. fst (mine_block E enum iter liter search t now now2 now3 difficulty base_fee mp d st bp) = Inr b')
        \<longleftrightarrow> meets_difficulty (blk_hash b) difficulty \<and> distinct (map (tx_hash (sha256 E)) (transactions b)))
    \<and> (\<not> meets_difficulty (blk_hash b) difficulty \<longrightarrow>
        mine_block E enum iter liter search t now now2 now3 difficulty base_fee mp d st bp =
          (Inl (ProducedInvalid PowNotMet), st, bp\<lparr>bp_nonce := bp_nonce bp + 1\<rparr>))"
proof -
  let ?m = "mine_block E enum iter liter search t now now2 now3 difficulty base_fee mp d st bp"
  let ?bp = "bp\<lparr>bp_nonce := bp_nonce bp + 1\<rparr>"
  have c: "create_block E enum iter t now difficulty base_fee mp d st bp =
      (case validate_basic E now b of Inl e \<Rightarrow> (Inl (ProducedInvalid e), ?bp) | Inr _ \<Rightarrow> (Inr b, ?bp))"
    by (simp add: create_block_def txs Let_def b split: sum.split)
  have v: "validate_basic E now b =
      (if \<not> meets_difficulty (blk_hash b) difficulty then Inl PowNotMet
       else if \<not> distinct (map (tx_hash (sha256 E)) (transactions b)) then Inl DuplicateTransactions
       else Inr ())"
    unfolding b block_new_checks using assms(4)
    by (auto simp: block_new_hash meets_difficulty_def [of _ 0] word_gt_0 not_less)
  show ?thesis
  proof (cases "validate_basic E now b")
    case (Inl e)
    then show ?thesis
      using v by (auto simp: mine_block_def c split: if_splits)
  next
    case (Inr x)
    let ?P = "\<lambda>n. meets_difficulty (calculate_hash E (with_nonce n b)) (hd_difficulty (header b))"
    have nonce: "hd_nonce (header b) = bp_nonce bp" and ts: "hd_timestamp (header b) = t"
      by (simp_all add: b) (simp add: block_new_def Let_def)
    have ok: "validate_basic E now b = Inr ()"
      using Inr by simp
    have "?P (bp_nonce bp)"
      using validate_basicD [OF ok] with_own_nonce [of b] by (simp add: nonce)
    with find_any_okD(1) [OF assms(1), of ?P, OF _ assms(2)] obtain n where n: "search ?P = Some n"
      by (cases "search ?P") auto
    note pn = find_any_okD(2) [OF assms(1) n]
    have "\<exists>b'. fst ?m = Inr b'"
      using remined_validates [OF ok refl, of now2 n] assms(3) pn
      by (simp add: mine_block_def c ok n Let_def ts not_less)
    then show ?thesis
      using v ok by (simp split: if_splits)
  qed
qed

theorem mining_needs_lucky_template_witness:
  "fst (mine_block sample_env sorted_list_of_set id id all_nonces 1000 1000 1000 1000 1 1
     (mempool_new 2 1) (block_dag_new []) sample_state sample_producer) = Inl (ProducedInvalid PowNotMet)"
proof -
  let ?b = "block_new sample_env (get_tips sorted_list_of_set (dag_idx (block_dag_new []))) 1000
      (coinbase (producer_id sample_producer)
        (due_reward sample_env sorted_list_of_set (block_dag_new []) sample_state (length ([] :: transaction list))) # [])
      (bp_nonce sample_producer) 1 1 (producer_id sample_producer) (replicate 32 0)"
  have h: "blk_hash ?b = replicate 32 172"
    by (simp add: block_new_hash calculate_hash_def block_preimage_def header_tail_def sample_env_def
        sample_sha_def block_new_def Let_def block_dag_new_def dag_index_new_def get_tips_def tx_hash_def
        sample_producer_fields)
  have "\<not> meets_difficulty (replicate 32 172) 1"
    by code_simp
  with h have "\<not> meets_difficulty (blk_hash ?b) 1"
    by (simp only: h not_False_eq_True)
  with mining_needs_lucky_template [OF all_nonces_ok sample_producer_nonce _ _ sample_candidates refl,
      where ?t = 1000 and ?now2.0 = 1000 and now = 1000]
  show ?thesis
    by simp
qed

text \<open>
  C22. A mined block meets its difficulty and validates; apart from nonce and hash it is the block
  of \<open>create_block\<close>. The emitted supply grows by exactly the reward of its coinbase and never
  exceeds the mining supply of 500 million, the ledger keeps its invariant and the producer's
  difficulty its range.
\<close>

theorem mined_block_valid:
  assumes "find_any_ok search" and "state_inv st" and "daa_inv (bp_difficulty bp)"
    and "unat (get_emitted_supply st) \<le> 500000000"
    and m: "mine_block E enum iter liter search t now now2 now3 difficulty base_fee mp d st bp = (Inr b, st', bp')"
  shows "validate_basic E now2 b = Inr () \<and> meets_difficulty (blk_hash b) difficulty
    \<and> state_inv st' \<and> daa_inv (bp_difficulty bp')
    \<and> unat (get_emitted_supply st') = unat (get_emitted_supply st) + unat (coinbase_amount b)
    \<and> unat (get_emitted_supply st') \<le> 500000000"
proof -
  obtain base bp1 n where c: "create_block E enum iter t now difficulty base_fee mp d st bp = (Inr base, bp1)"
    and b: "b = (with_nonce n base)\<lparr>blk_hash := calculate_hash E (with_nonce n base)\<rparr>"
    and v: "validate_basic E now2 b = Inr ()"
    and st': "st' = add_emitted_supply (sha256 E) liter (coinbase_amount b) st"
    and bp': "bp' = bp1\<lparr>bp_difficulty := add_block now3 (hd_timestamp (header b)) (bp_difficulty bp1)\<rparr>"
    using m by (auto simp: mine_block_def Let_def split: sum.splits prod.splits option.splits)
  obtain txs where base: "base = block_new E (get_tips enum (dag_idx d)) t
      (coinbase (producer_id bp) (due_reward E enum d st (length txs)) # txs)
      (bp_nonce bp) difficulty base_fee (producer_id bp) (replicate 32 0)"
    and bp1: "bp1 = bp\<lparr>bp_nonce := bp_nonce bp + 1\<rparr>"
    using create_blockE [OF c] by metis
  have amount: "coinbase_amount b = due_reward E enum d st (length txs)"
    by (simp add: coinbase_amount_def b base coinbase_def new_transfer_def)
  have le: "unat (get_emitted_supply st) + unat (coinbase_amount b) \<le> 500000000"
    unfolding amount due_reward_def using reward_bounds [OF assms(4)] by blast
  have "hd_difficulty (header b) = difficulty"
    by (simp add: b base)
  with validate_basicD(2) [OF v] have "meets_difficulty (blk_hash b) difficulty"
    by simp
  with v emitted_supply_added [OF le, of "sha256 E" liter] le assms(2,3) show ?thesis
    by (simp add: st' bp' bp1 add_emitted_supply_inv add_block_inv)
qed

theorem mined_block_valid_witness:
  "case mine_block sample_env sorted_list_of_set id id all_nonces 1000 1000 1000 1000 0 1
       (mempool_new 2 1) (block_dag_new []) sample_state sample_producer of
     (Inr b, st', bp') \<Rightarrow> validate_basic sample_env 1000 b = Inr ()
       \<and> unat (get_emitted_supply st') = unat (coinbase_amount b)
   | _ \<Rightarrow> False"
proof -
  obtain b st' bp' where m: "mine_block sample_env sorted_list_of_set id id all_nonces 1000 1000 1000 1000 0 1
      (mempool_new 2 1) (block_dag_new []) sample_state sample_producer = (Inr b, st', bp')"
    using sample_mine by metis
  have "daa_inv (bp_difficulty sample_producer)"
    by (simp add: sample_producer_def block_producer_new_def daa_inv_def difficulty_state_new_def
        default_daa_config_def word_le_nat_alt)
  moreover have "get_emitted_supply sample_state = 0"
    by (simp add: sample_state_def get_emitted_supply_def tree_get_def initialized_state account_new_def
        emission_not_genesis)
  moreover have "state_inv sample_state"
    unfolding sample_state_def by (rule initialized_state_inv)
  ultimately show ?thesis
    using mined_block_valid [OF all_nonces_ok _ _ _ m] by (simp add: m)
qed

end
