(* ===== verification/Pruning.thy ===== *)
theory Pruning
  imports Block_Store Mempool
begin

text \<open>
  The rolling-window pruner, \<^verbatim>\<open>src/src/storage/pruning.rs\<close>, and the rollback of blocks,
  \<open>rollback_blocks\<close> of \<^verbatim>\<open>src/src/storage/block_store.rs\<close>.

  The pruner has a database of its own for snapshots and metadata: the record \<open>pdb\<close>, with
  \<open>pdb_ok\<close> for what the code relies on (a write that succeeds changes one key of one column
  family), and \<open>prune_codec\<close> for \<^verbatim>\<open>bincode\<close>. The wall clock is the argument \<open>now\<close>. Both
  databases are changed in place, so the pruner is returned with an error too.
\<close>

section \<open>External code\<close>

datatype pcf = STATE_SNAPSHOTS_CF | PRUNING_METADATA_CF

record state_snapshot =
  ss_height :: u64
  ss_timestamp :: u64
  ss_state_root :: bytes
  ss_total_supply :: u64
  ss_active_accounts :: u64

record pruning_metadata =
  last_pruned_height :: u64
  total_blocks_pruned :: u64
  total_size_pruned :: u64
  last_snapshot_height :: u64
  snapshot_count :: u32

record 'p pdb =
  pk_has_cf :: "'p \<Rightarrow> pcf \<Rightarrow> bool"
  pk_get :: "'p \<Rightarrow> pcf \<Rightarrow> bytes \<Rightarrow> unit + bytes option"
  pk_put :: "'p \<Rightarrow> pcf \<Rightarrow> bytes \<Rightarrow> bytes \<Rightarrow> unit + 'p"

record prune_codec =
  ser_snapshot :: "state_snapshot \<Rightarrow> bytes option"
  de_snapshot :: "bytes \<Rightarrow> state_snapshot option"
  ser_pmeta :: "pruning_metadata \<Rightarrow> bytes option"
  de_pmeta :: "bytes \<Rightarrow> pruning_metadata option"

definition pdb_ok :: "'p pdb \<Rightarrow> ('p \<Rightarrow> pcf \<Rightarrow> bytes \<rightharpoonup> bytes) \<Rightarrow> bool" where
  "pdb_ok P pview \<longleftrightarrow>
     (\<forall>d c. pk_has_cf P d c) \<and>
     (\<forall>d c k. pk_get P d c k = Inr (pview d c k)) \<and>
     (\<forall>d c k v d'. pk_put P d c k v = Inr d' \<longrightarrow> pview d' = (pview d)(c := (pview d c)(k \<mapsto> v)))"

definition prune_codec_ok :: "prune_codec \<Rightarrow> bool" where
  "prune_codec_ok Q \<longleftrightarrow>
     (\<forall>x d. ser_snapshot Q x = Some d \<longrightarrow> de_snapshot Q d = Some x) \<and>
     (\<forall>x d. ser_pmeta Q x = Some d \<longrightarrow> de_pmeta Q d = Some x)"

section \<open>State\<close>

record ('p, 'db) pruner =
  pr_db :: 'p
  pr_store :: "'db store"
  window_size :: u64
  snapshot_interval :: u64
  pruning_threshold :: u64

datatype prune_error =
    PruneStore store_error | PruneCfNotFound pcf | DeserializeSnapshot | DeserializePruneMetadata
  | SerializeSnapshot | SerializePruneMetadata | SaveSnapshotFailed | SaveMetadataFailed | PruneDbError

section \<open>Operations\<close>

definition pruner_new :: "'p \<Rightarrow> 'db store \<Rightarrow> u64 \<Rightarrow> u64 \<Rightarrow> u64 \<Rightarrow> ('p, 'db) pruner" where
  "pruner_new d store window interval threshold =
     \<lparr>pr_db = d, pr_store = store, window_size = window, snapshot_interval = interval,
      pruning_threshold = threshold\<rparr>"

definition should_prune :: "u64 \<Rightarrow> ('p, 'db) pruner \<Rightarrow> bool" where
  "should_prune height pr \<longleftrightarrow> height \<ge> pruning_threshold pr"

definition metadata_bytes :: bytes where
  "metadata_bytes = map (of_nat \<circ> of_char) ''metadata''"

definition default_pruning_metadata :: pruning_metadata where
  "default_pruning_metadata =
     \<lparr>last_pruned_height = 0, total_blocks_pruned = 0, total_size_pruned = 0, last_snapshot_height = 0,
      snapshot_count = 0\<rparr>"

definition get_metadata :: "'p pdb \<Rightarrow> prune_codec \<Rightarrow> ('p, 'db) pruner \<Rightarrow> prune_error + pruning_metadata" where
  "get_metadata P Q pr =
     (if \<not> pk_has_cf P (pr_db pr) PRUNING_METADATA_CF then Inl (PruneCfNotFound PRUNING_METADATA_CF)
      else case pk_get P (pr_db pr) PRUNING_METADATA_CF metadata_bytes of
        Inr (Some data) \<Rightarrow>
          (case de_pmeta Q data of None \<Rightarrow> Inl DeserializePruneMetadata | Some m \<Rightarrow> Inr m)
      | Inr None \<Rightarrow> Inr default_pruning_metadata
      | Inl _ \<Rightarrow> Inl PruneDbError)"

definition save_metadata ::
  "'p pdb \<Rightarrow> prune_codec \<Rightarrow> pruning_metadata \<Rightarrow> ('p, 'db) pruner \<Rightarrow> prune_error + ('p, 'db) pruner" where
  "save_metadata P Q m pr =
     (if \<not> pk_has_cf P (pr_db pr) PRUNING_METADATA_CF then Inl (PruneCfNotFound PRUNING_METADATA_CF)
      else case ser_pmeta Q m of
        None \<Rightarrow> Inl SerializePruneMetadata
      | Some data \<Rightarrow>
          (case pk_put P (pr_db pr) PRUNING_METADATA_CF metadata_bytes data of
             Inl _ \<Rightarrow> Inl SaveMetadataFailed
           | Inr d \<Rightarrow> Inr (pr\<lparr>pr_db := d\<rparr>)))"

text \<open>\<open>format!("{:010}", n)\<close>: the decimal digits, filled up with zeros to ten.\<close>

fun decimal :: "nat \<Rightarrow> bytes" where
  "decimal n = (if n < 10 then [48 + of_nat n] else decimal (n div 10) @ [48 + of_nat (n mod 10)])"

definition pad10 :: "bytes \<Rightarrow> bytes" where
  "pad10 ds = replicate (10 - length ds) 48 @ ds"

definition snapshot_key :: "u64 \<Rightarrow> bytes" where
  "snapshot_key height = map (of_nat \<circ> of_char) ''snapshot_'' @ pad10 (decimal (unat height))"

definition make_snapshot :: "leaf_iter \<Rightarrow> u64 \<Rightarrow> u64 \<Rightarrow> state_manager \<Rightarrow> state_snapshot" where
  "make_snapshot iter height now st =
     \<lparr>ss_height = height, ss_timestamp = now, ss_state_root = current_state_root st,
      ss_total_supply = get_total_supply iter st,
      ss_active_accounts = of_nat (get_active_account_count st)\<rparr>"

definition take_state_snapshot ::
  "'p pdb \<Rightarrow> prune_codec \<Rightarrow> leaf_iter \<Rightarrow> u64 \<Rightarrow> u64 \<Rightarrow> state_manager \<Rightarrow> ('p, 'db) pruner
    \<Rightarrow> (prune_error + unit) \<times> ('p, 'db) pruner" where
  "take_state_snapshot P Q iter height now st pr =
     (case ser_snapshot Q (make_snapshot iter height now st) of
        None \<Rightarrow> (Inl SerializeSnapshot, pr)
      | Some data \<Rightarrow>
      if \<not> pk_has_cf P (pr_db pr) STATE_SNAPSHOTS_CF then (Inl (PruneCfNotFound STATE_SNAPSHOTS_CF), pr)
      else case pk_put P (pr_db pr) STATE_SNAPSHOTS_CF (snapshot_key height) data of
        Inl _ \<Rightarrow> (Inl SaveSnapshotFailed, pr)
      | Inr d \<Rightarrow>
          (let pr1 = pr\<lparr>pr_db := d\<rparr> in
           case get_metadata P Q pr1 of
             Inl e \<Rightarrow> (Inl e, pr1)
           | Inr m \<Rightarrow>
               (case save_metadata P Q
                   (m\<lparr>last_snapshot_height := height, snapshot_count := snapshot_count m + 1\<rparr>) pr1 of
                  Inl e \<Rightarrow> (Inl e, pr1)
                | Inr pr2 \<Rightarrow> (Inr (), pr2))))"

definition take_snapshot_if_needed ::
  "'p pdb \<Rightarrow> prune_codec \<Rightarrow> leaf_iter \<Rightarrow> u64 \<Rightarrow> u64 \<Rightarrow> state_manager \<Rightarrow> ('p, 'db) pruner
    \<Rightarrow> (prune_error + unit) \<times> ('p, 'db) pruner" where
  "take_snapshot_if_needed P Q iter height now st pr =
     (case get_metadata P Q pr of
        Inl e \<Rightarrow> (Inl e, pr)
      | Inr m \<Rightarrow>
          if height - last_snapshot_height m \<ge> snapshot_interval pr
          then take_state_snapshot P Q iter height now st pr else (Inr (), pr))"

definition get_state_snapshot ::
  "'p pdb \<Rightarrow> prune_codec \<Rightarrow> u64 \<Rightarrow> ('p, 'db) pruner \<Rightarrow> prune_error + state_snapshot option" where
  "get_state_snapshot P Q height pr =
     (if \<not> pk_has_cf P (pr_db pr) STATE_SNAPSHOTS_CF then Inl (PruneCfNotFound STATE_SNAPSHOTS_CF)
      else case pk_get P (pr_db pr) STATE_SNAPSHOTS_CF (snapshot_key height) of
        Inr (Some data) \<Rightarrow>
          (case de_snapshot Q data of None \<Rightarrow> Inl DeserializeSnapshot | Some x \<Rightarrow> Inr (Some x))
      | Inr None \<Rightarrow> Inr None
      | Inl _ \<Rightarrow> Inl PruneDbError)"

definition get_latest_snapshot ::
  "'p pdb \<Rightarrow> prune_codec \<Rightarrow> ('p, 'db) pruner \<Rightarrow> prune_error + state_snapshot option" where
  "get_latest_snapshot P Q pr =
     (case get_metadata P Q pr of
        Inl e \<Rightarrow> Inl e
      | Inr m \<Rightarrow>
          if last_snapshot_height m = 0 then Inr None
          else get_state_snapshot P Q (last_snapshot_height m) pr)"

text \<open>The two loops over the blocks to prune; a failing lookup of a size counts as nothing.\<close>

definition pruned_size :: "'db rocks \<Rightarrow> codec \<Rightarrow> 'db store \<Rightarrow> block list \<Rightarrow> u64" where
  "pruned_size R C s bs =
     sum_list (map (\<lambda>b. case store_get_metadata R C s (blk_hash b) of
       Inr (Some m) \<Rightarrow> of_nat (meta_size m) | _ \<Rightarrow> 0) bs)"

fun delete_blocks ::
  "'db rocks \<Rightarrow> codec \<Rightarrow> env \<Rightarrow> ((block_hash \<times> block) list \<Rightarrow> nat) \<Rightarrow> block list \<Rightarrow> 'db store
    \<Rightarrow> (store_error + unit) \<times> 'db store" where
  "delete_blocks R C E pick [] s = (Inr (), s)"
| "delete_blocks R C E pick (b # bs) s =
     (case store_delete_block R C E pick (blk_hash b) s of
        (Inl e, s') \<Rightarrow> (Inl e, s')
      | (Inr _, s') \<Rightarrow> delete_blocks R C E pick bs s')"

definition prune_range ::
  "'db rocks \<Rightarrow> codec \<Rightarrow> env \<Rightarrow> ((block_hash \<times> block) list \<Rightarrow> nat) \<Rightarrow> 'p pdb \<Rightarrow> prune_codec \<Rightarrow> u64
    \<Rightarrow> pruning_metadata \<Rightarrow> ('p, 'db) pruner \<Rightarrow> (prune_error + u64) \<times> ('p, 'db) pruner" where
  "prune_range R C E pick P Q prune_up_to m pr =
     (case store_blocks_by_height_range R C pick (last_pruned_height m + 1) prune_up_to (pr_store pr) of
        (Inl e, s1) \<Rightarrow> (Inl (PruneStore e), pr\<lparr>pr_store := s1\<rparr>)
      | (Inr blocks_to_prune, s1) \<Rightarrow>
          if blocks_to_prune = [] then (Inr 0, pr\<lparr>pr_store := s1\<rparr>)
          else let sz = pruned_size R C s1 blocks_to_prune in
            case delete_blocks R C E pick blocks_to_prune s1 of
              (Inl e, s2) \<Rightarrow> (Inl (PruneStore e), pr\<lparr>pr_store := s2\<rparr>)
            | (Inr _, s2) \<Rightarrow>
                let pr2 = pr\<lparr>pr_store := s2\<rparr>;
                    n = (of_nat (length blocks_to_prune) :: u64)
                in case save_metadata P Q
                     \<lparr>last_pruned_height = prune_up_to,
                      total_blocks_pruned = total_blocks_pruned m + n,
                      total_size_pruned = total_size_pruned m + sz,
                      last_snapshot_height = last_snapshot_height m,
                      snapshot_count = snapshot_count m\<rparr> pr2 of
                     Inl e \<Rightarrow> (Inl e, pr2)
                   | Inr pr3 \<Rightarrow>
                       (case store_compact R s2 of
                          Inl e \<Rightarrow> (Inl (PruneStore e), pr3)
                        | Inr _ \<Rightarrow> (Inr n, pr3)))"

definition maybe_prune ::
  "'db rocks \<Rightarrow> codec \<Rightarrow> env \<Rightarrow> ((block_hash \<times> block) list \<Rightarrow> nat) \<Rightarrow> 'p pdb \<Rightarrow> prune_codec
    \<Rightarrow> leaf_iter \<Rightarrow> u64 \<Rightarrow> u64 \<Rightarrow> state_manager \<Rightarrow> ('p, 'db) pruner
    \<Rightarrow> (prune_error + u64) \<times> ('p, 'db) pruner" where
  "maybe_prune R C E pick P Q iter height now st pr =
     (if \<not> should_prune height pr then (Inr 0, pr)
      else case take_snapshot_if_needed P Q iter height now st pr of
        (Inl e, pr1) \<Rightarrow> (Inl e, pr1)
      | (Inr _, pr1) \<Rightarrow>
          (case get_metadata P Q pr1 of
             Inl e \<Rightarrow> (Inl e, pr1)
           | Inr m \<Rightarrow>
               let prune_up_to = (if height > window_size pr1 then sat_sub height (window_size pr1) else 0)
               in if prune_up_to \<le> last_pruned_height m then (Inr 0, pr1)
                  else prune_range R C E pick P Q prune_up_to m pr1))"

record pruning_stats =
  ps_window_size :: u64
  ps_pruning_threshold :: u64
  ps_snapshot_interval :: u64
  ps_last_pruned_height :: u64
  ps_total_blocks_pruned :: u64
  ps_total_size_pruned :: u64
  ps_snapshot_count :: u32
  ps_current_block_count :: nat
  ps_current_storage_size :: nat

definition pruner_get_stats ::
  "'db rocks \<Rightarrow> 'p pdb \<Rightarrow> prune_codec \<Rightarrow> ('p, 'db) pruner \<Rightarrow> prune_error + pruning_stats" where
  "pruner_get_stats R P Q pr =
     (case get_metadata P Q pr of
        Inl e \<Rightarrow> Inl e
      | Inr m \<Rightarrow>
          (case store_get_stats R (pr_store pr) of
             Inl e \<Rightarrow> Inl (PruneStore e)
           | Inr st \<Rightarrow>
               Inr \<lparr>ps_window_size = window_size pr, ps_pruning_threshold = pruning_threshold pr,
                    ps_snapshot_interval = snapshot_interval pr,
                    ps_last_pruned_height = last_pruned_height m,
                    ps_total_blocks_pruned = total_blocks_pruned m,
                    ps_total_size_pruned = total_size_pruned m, ps_snapshot_count = snapshot_count m,
                    ps_current_block_count = st_block_count st,
                    ps_current_storage_size = st_total_size st\<rparr>))"

definition pruner_compact :: "'p pdb \<Rightarrow> ('p, 'db) pruner \<Rightarrow> prune_error + unit" where
  "pruner_compact P pr =
     (if \<not> pk_has_cf P (pr_db pr) STATE_SNAPSHOTS_CF then Inl (PruneCfNotFound STATE_SNAPSHOTS_CF)
      else if \<not> pk_has_cf P (pr_db pr) PRUNING_METADATA_CF then Inl (PruneCfNotFound PRUNING_METADATA_CF)
      else Inr ())"

section \<open>The store during pruning\<close>

text \<open>
  Deleting leaves stale entries in the cache, so pruning runs with a weaker invariant than
  \<open>store_inv\<close>: a cached block agrees with the database where the database still has it. The
  metadata entry of every stored block has the height of the block.
\<close>

definition entry_ok :: "codec \<Rightarrow> (bytes \<rightharpoonup> bytes) \<Rightarrow> block_hash \<Rightarrow> bytes \<Rightarrow> bool" where
  "entry_ok C metas k d \<longleftrightarrow> length k = 32 \<and>
     (\<exists>b md m. de_block C d = Some b \<and> blk_hash b = k \<and> metas (metadata_key C k) = Some md
        \<and> de_meta C md = Some m \<and> meta_height m = blk_height b)"

definition store_sound :: "codec \<Rightarrow> ('db \<Rightarrow> cf \<Rightarrow> (bytes \<times> bytes) list) \<Rightarrow> 'db store \<Rightarrow> bool" where
  "store_sound C view s \<longleftrightarrow>
     (\<forall>(k, d) \<in> set (view (db s) BLOCKS_CF). entry_ok C (map_of (view (db s) METADATA_CF)) k d) \<and>
     hm_inv (cache s) \<and> cache_size s = length (cache s) \<and>
     (\<forall>h b b'. map_of (cache s) h = Some b \<and> map_of (store_view C view s) h = Some b' \<longrightarrow> b = b')"

definition in_window :: "u64 \<Rightarrow> u64 \<Rightarrow> block \<Rightarrow> bool" where
  "in_window lo hi b \<longleftrightarrow> lo \<le> blk_height b \<and> blk_height b \<le> hi"

lemma store_soundE:
  assumes "store_sound C view s" and "map_of (view (db s) BLOCKS_CF) k = Some d"
  obtains b md m where "de_block C d = Some b" "blk_hash b = k" "length k = 32"
    "map_of (view (db s) METADATA_CF) (metadata_key C k) = Some md" "de_meta C md = Some m"
    "meta_height m = blk_height b" "map_of (store_view C view s) k = Some b"
  using assms map_of_SomeD [OF assms(2)]
  by (fastforce simp: store_sound_def entry_ok_def map_of_store_view)

lemma add_to_cache_sound:
  assumes "store_sound C view s" and "map_of (store_view C view s) h = Some b"
  shows "store_sound C view (add_to_cache pick h b s)"
proof -
  obtain c n where e: "evict pick (cache_size_limit s) (cache s) (cache_size s) = (c, n)"
    by force
  have s: "hm_inv (cache s)" "cache_size s = length (cache s)"
    using assms(1) by (auto simp: store_sound_def)
  from evict_spec [OF s e] have c: "hm_inv c" "n = length c" "map_of c \<subseteq>\<^sub>m map_of (cache s)"
    by auto
  have sub: "map_of (cache s) k = Some x" if "map_of c k = Some x" for k x
    using c(3) that by (metis domI map_le_def)
  have "hm_inv (cache (add_to_cache pick h b s))"
    "cache_size (add_to_cache pick h b s) = length (cache (add_to_cache pick h b s))"
    using c by (cases "map_of c h"; simp add: add_to_cache_def e Let_def hm_inv_update
        length_update_fresh length_update_old)+
  moreover have "x = x'" if "map_of (cache (add_to_cache pick h b s)) k = Some x"
    and "map_of (store_view C view s) k = Some x'" for k x x'
    using that assms sub [of k] by (cases "k = h")
      (auto simp: add_to_cache_def e Let_def map_of_hm_update store_sound_def)
  ultimately show ?thesis
    using assms(1) by (auto simp: store_sound_def)
qed

lemma store_get_block_sound:
  assumes R: "rocks_ok R view" and s: "store_sound C view s"
  shows "db (snd (store_get_block R C pick s h)) = db s"
    and "store_sound C view (snd (store_get_block R C pick s h))"
    and "map_of (store_view C view s) h = Some b \<Longrightarrow> fst (store_get_block R C pick s h) = Some b"
proof -
  note get = rocks_okD(1,3) [OF R]
  consider (cached) x where "map_of (cache s) h = Some x"
    | (absent) "map_of (cache s) h = None" "map_of (view (db s) BLOCKS_CF) h = None"
    | (present) d x where "map_of (cache s) h = None" "map_of (view (db s) BLOCKS_CF) h = Some d"
        "de_block C d = Some x" "map_of (store_view C view s) h = Some x"
    using store_soundE [OF s] by (metis not_None_eq)
  then have "db (snd (store_get_block R C pick s h)) = db s
    \<and> store_sound C view (snd (store_get_block R C pick s h))
    \<and> (map_of (store_view C view s) h = Some b \<longrightarrow> fst (store_get_block R C pick s h) = Some b)"
  proof cases
    case cached
    with s show ?thesis
      by (auto simp: store_get_block_def get_from_cache_def store_sound_def)
  next
    case absent
    with s get show ?thesis
      by (simp add: store_get_block_def get_from_cache_def map_of_store_view)
  next
    case present
    with s get show ?thesis
      by (simp add: store_get_block_def get_from_cache_def add_to_cache_sound)
  qed
  then show "db (snd (store_get_block R C pick s h)) = db s"
    "store_sound C view (snd (store_get_block R C pick s h))"
    "map_of (store_view C view s) h = Some b \<Longrightarrow> fst (store_get_block R C pick s h) = Some b"
    by auto
qed

lemma store_view_db: "db s' = db s \<Longrightarrow> store_view C view s' = store_view C view s"
  by (simp add: store_view_def)

lemma range_blocks_sound:
  assumes R: "rocks_ok R view" and "store_sound C view s"
    and "set hs \<subseteq> fst ` set (store_view C view s)"
  shows "\<exists>s'. range_blocks R C pick lo hi hs s =
      (Inr (filter (in_window lo hi) (map (\<lambda>h. the (map_of (store_view C view s) h)) hs)), s')
    \<and> db s' = db s \<and> store_sound C view s'"
  using assms(2,3)
proof (induction hs arbitrary: s)
  case (Cons h hs)
  obtain d where "map_of (view (db s) BLOCKS_CF) h = Some d"
    using Cons.prems(2) by (fastforce simp: store_view_def dest: weak_map_of_SomeI)
  from store_soundE [OF Cons.prems(1) this] obtain b md m where
    md: "map_of (view (db s) METADATA_CF) (metadata_key C h) = Some md" "de_meta C md = Some m"
      "meta_height m = blk_height b" and v: "map_of (store_view C view s) h = Some b" .
  have meta: "store_get_metadata R C s h = Inr (Some m)"
    using rocks_okD(1,3) [OF R] md by (simp add: store_get_metadata_def)
  let ?g = "if in_window lo hi b then store_get_block R C pick s h else (None, s)"
  obtain ob s1 where g: "?g = (ob, s1)"
    by force
  have s1: "db s1 = db s" "store_sound C view s1"
    using g store_get_block_sound(1,2) [OF R Cons.prems(1), of pick h] Cons.prems(1)
    by (auto split: if_splits)
  have ob: "ob = (if in_window lo hi b then Some b else None)"
    using g store_get_block_sound(3) [OF R Cons.prems(1) v, of pick] by (auto split: if_splits)
  note v1 = store_view_db [OF s1(1)]
  from Cons.IH [OF s1(2)] Cons.prems(2) obtain s2 where
    "range_blocks R C pick lo hi hs s1 =
       (Inr (filter (in_window lo hi) (map (\<lambda>h. the (map_of (store_view C view s) h)) hs)), s2)"
    "db s2 = db s" "store_sound C view s2"
    by (auto simp: v1 s1(1))
  then show ?case
    using g v md(3) by (auto simp: meta ob in_window_def [of lo hi b] Let_def)
qed simp

lemma store_delete_block_sound:
  assumes R: "rocks_ok R view" and hex: "inj (hex_encode C)" and s: "store_sound C view s"
    and del: "store_delete_block R C E pick h s = (Inr (), s')"
  shows "store_view C view s' = omap_delete h (store_view C view s) \<and> store_sound C view s'"
proof -
  let ?s1 = "remove_from_cache h s"
  have s1: "store_sound C view ?s1" and db1: "db ?s1 = db s"
    using s length_delete_old [of "cache s" h]
    by (auto simp: remove_from_cache_def store_sound_def store_view_def map_of_hm_delete
        hm_inv_delete split: option.split if_splits)
  obtain ob s2 where g: "store_get_block R C pick ?s1 h = (ob, s2)"
    by force
  have s2: "db s2 = db s" "store_sound C view s2"
    using store_get_block_sound(1,2) [OF R s1, of pick h] by (auto simp: g db1)
  let ?dels = "case ob of None \<Rightarrow> [] | Some b \<Rightarrow>
      map (\<lambda>tx. Del TRANSACTIONS_CF (tx_hash (sha256 E) tx)) (transactions b)"
  obtain d where w: "kv_write R (db s) ([Del BLOCKS_CF h, Del METADATA_CF (metadata_key C h)] @ ?dels) = Inr d"
    and s': "s' = s2\<lparr>db := d\<rparr>"
    using del rocks_okD(1) [OF R] s2(1)
    by (auto simp: store_delete_block_def Let_def g db1 split: sum.splits)
  have skip: "fold (apply_op c) (map (\<lambda>tx. Del TRANSACTIONS_CF (tx_hash (sha256 E) tx)) txs) m = m"
    if "c \<noteq> TRANSACTIONS_CF" for c txs m
    using that by (induction txs arbitrary: m) auto
  have d: "view d BLOCKS_CF = omap_delete h (view (db s) BLOCKS_CF)"
    "view d METADATA_CF = omap_delete (metadata_key C h) (view (db s) METADATA_CF)"
    using rocks_okD(4) [OF R w] by (auto simp: skip split: option.splits)
  have v: "store_view C view s' = omap_delete h (store_view C view s)"
    by (simp add: store_view_def s' d map_omap_delete)
  have key: "metadata_key C k = metadata_key C h \<longleftrightarrow> k = h" for k
    using hex by (auto simp: metadata_key_def dest: injD)
  have "\<forall>(k, x) \<in> set (view d BLOCKS_CF). entry_ok C (map_of (view d METADATA_CF)) k x"
    using s key unfolding d store_sound_def entry_ok_def map_of_omap_delete
    by (fastforce simp: omap_delete_def)
  moreover have "b = b'" if "map_of (cache s2) k = Some b" "map_of (store_view C view s') k = Some b'"
    for k b b'
    using s2(2) that v store_view_db [OF s2(1), of C view]
    by (auto simp: store_sound_def map_of_omap_delete split: if_splits)
  ultimately show ?thesis
    using s2(2) v by (auto simp: store_sound_def s')
qed

lemma delete_blocks_sound:
  assumes R: "rocks_ok R view" and hex: "inj (hex_encode C)" and "store_sound C view s"
    and "delete_blocks R C E pick bs s = (Inr (), s')"
  shows "store_view C view s' = filter (\<lambda>(k, b). k \<notin> blk_hash ` set bs) (store_view C view s)
    \<and> store_sound C view s'"
  using assms(3,4)
proof (induction bs arbitrary: s)
  case (Cons b bs)
  then obtain s1 where d: "store_delete_block R C E pick (blk_hash b) s = (Inr (), s1)"
    and r: "delete_blocks R C E pick bs s1 = (Inr (), s')"
    by (auto split: prod.splits sum.splits)
  from store_delete_block_sound [OF R hex Cons.prems(1) d]
  have v: "store_view C view s1 = omap_delete (blk_hash b) (store_view C view s)"
    and s1: "store_sound C view s1"
    by auto
  from Cons.IH [OF s1 r] show ?case
    by (auto simp: v omap_delete_def intro: filter_cong)
qed simp

section \<open>Snapshots and metadata\<close>

definition digits_value :: "bytes \<Rightarrow> nat" where
  "digits_value ds = foldl (\<lambda>a d. 10 * a + unat (d - 48)) 0 ds"

declare decimal.simps [simp del]

lemma digits_value_snoc: "digits_value (ds @ [48 + of_nat k]) = 10 * digits_value ds + k" if "k < 10"
  using that by (simp add: digits_value_def unat_of_nat)

lemma digits_value_decimal: "digits_value (decimal n) = n"
proof (induction n rule: decimal.induct)
  case (1 n)
  show ?case
  proof (cases "n < 10")
    case True
    then show ?thesis
      using digits_value_snoc [of n "[]"] by (simp add: decimal.simps [of n] digits_value_def)
  next
    case False
    with "1.IH" show ?thesis
      by (simp add: decimal.simps [of n] digits_value_snoc)
  qed
qed

lemma digits_value_pad10: "digits_value (pad10 ds) = digits_value ds"
proof -
  have "foldl (\<lambda>a d. 10 * a + unat (d - 48)) 0 (replicate n (48 :: u8)) = 0" for n
    by (induction n) auto
  then show ?thesis
    by (simp add: digits_value_def pad10_def)
qed

lemma snapshot_key_inj: "snapshot_key a = snapshot_key b \<longleftrightarrow> a = b"
proof
  assume "snapshot_key a = snapshot_key b"
  then have "pad10 (decimal (unat a)) = pad10 (decimal (unat b))"
    by (simp add: snapshot_key_def)
  then have "unat a = unat b"
    using digits_value_pad10 digits_value_decimal by metis
  then show "a = b"
    by (rule unsigned_word_eqI)
qed simp

lemma pdb_okD:
  assumes "pdb_ok P pview"
  shows "pk_has_cf P d c" "pk_get P d c k = Inr (pview d c k)"
    "pk_put P d c k v = Inr d' \<Longrightarrow> pview d' = (pview d)(c := (pview d c)(k \<mapsto> v))"
  using assms by (auto simp: pdb_ok_def)

lemma save_metadata_effect:
  assumes P: "pdb_ok P pview" and Q: "prune_codec_ok Q" and sv: "save_metadata P Q m pr = Inr pr'"
  shows "get_metadata P Q pr' = Inr m" and "\<exists>d. pr' = pr\<lparr>pr_db := d\<rparr>"
    and "get_state_snapshot P Q height pr' = get_state_snapshot P Q height pr"
proof -
  from sv obtain data d where d: "ser_pmeta Q m = Some data"
    "pk_put P (pr_db pr) PRUNING_METADATA_CF metadata_bytes data = Inr d" "pr' = pr\<lparr>pr_db := d\<rparr>"
    by (auto simp: save_metadata_def split: if_splits option.splits sum.splits)
  have de: "de_pmeta Q data = Some m"
    using Q d(1) by (simp add: prune_codec_ok_def)
  note v = pdb_okD(3) [OF P d(2)]
  show "get_metadata P Q pr' = Inr m" "\<exists>d. pr' = pr\<lparr>pr_db := d\<rparr>"
    "get_state_snapshot P Q height pr' = get_state_snapshot P Q height pr"
    using d(3) pdb_okD(1,2) [OF P]
    by (auto simp: get_metadata_def get_state_snapshot_def v de)
qed

lemma take_state_snapshot_effect:
  assumes P: "pdb_ok P pview" and Q: "prune_codec_ok Q" and m: "get_metadata P Q pr = Inr m"
    and ts: "take_state_snapshot P Q iter height now st pr = (Inr (), pr')"
  shows "get_metadata P Q pr' =
      Inr (m\<lparr>last_snapshot_height := height, snapshot_count := snapshot_count m + 1\<rparr>)"
    and "\<exists>d. pr' = pr\<lparr>pr_db := d\<rparr>"
    and "get_state_snapshot P Q h pr' =
      (if h = height then Inr (Some (make_snapshot iter height now st)) else get_state_snapshot P Q h pr)"
proof -
  from ts obtain data d where d: "ser_snapshot Q (make_snapshot iter height now st) = Some data"
    "pk_put P (pr_db pr) STATE_SNAPSHOTS_CF (snapshot_key height) data = Inr d"
    by (auto simp: take_state_snapshot_def Let_def split: if_splits option.splits sum.splits)
  let ?pr1 = "pr\<lparr>pr_db := d\<rparr>"
  note v = pdb_okD(3) [OF P d(2)]
  have m1: "get_metadata P Q ?pr1 = Inr m"
    using m pdb_okD(1,2) [OF P] by (simp add: get_metadata_def v)
  have sv: "save_metadata P Q
      (m\<lparr>last_snapshot_height := height, snapshot_count := snapshot_count m + 1\<rparr>) ?pr1 = Inr pr'"
    using ts pdb_okD(1) [OF P]
    by (auto simp: take_state_snapshot_def Let_def d m1 split: sum.splits)
  show "get_metadata P Q pr' =
      Inr (m\<lparr>last_snapshot_height := height, snapshot_count := snapshot_count m + 1\<rparr>)"
    by (rule save_metadata_effect(1) [OF P Q sv])
  show "\<exists>d. pr' = pr\<lparr>pr_db := d\<rparr>"
    using save_metadata_effect(2) [OF P Q sv] by auto
  have "de_snapshot Q data = Some (make_snapshot iter height now st)"
    using Q d(1) by (simp add: prune_codec_ok_def)
  then show "get_state_snapshot P Q h pr' =
      (if h = height then Inr (Some (make_snapshot iter height now st)) else get_state_snapshot P Q h pr)"
    unfolding save_metadata_effect(3) [OF P Q sv]
    using pdb_okD(1,2) [OF P] by (simp add: get_state_snapshot_def v snapshot_key_inj)
qed

text \<open>The metadata after the snapshot that is due, if one is.\<close>

definition snapshot_recorded :: "u64 \<Rightarrow> ('p, 'db) pruner \<Rightarrow> pruning_metadata \<Rightarrow> pruning_metadata" where
  "snapshot_recorded height pr m =
     (if snapshot_interval pr \<le> height - last_snapshot_height m
      then m\<lparr>last_snapshot_height := height, snapshot_count := snapshot_count m + 1\<rparr> else m)"

lemma take_snapshot_if_needed_effect:
  assumes P: "pdb_ok P pview" and Q: "prune_codec_ok Q" and m: "get_metadata P Q pr = Inr m"
    and ts: "take_snapshot_if_needed P Q iter height now st pr = (Inr (), pr')"
  shows "\<exists>d. pr' = pr\<lparr>pr_db := d\<rparr> \<and> get_metadata P Q pr' = Inr (snapshot_recorded height pr m)"
proof (cases "height - last_snapshot_height m \<ge> snapshot_interval pr")
  case True
  with ts have "take_state_snapshot P Q iter height now st pr = (Inr (), pr')"
    by (simp add: take_snapshot_if_needed_def m)
  from take_state_snapshot_effect(1,2) [OF P Q m this] True show ?thesis
    by (auto simp: snapshot_recorded_def)
next
  case False
  with ts m show ?thesis
    by (auto simp: take_snapshot_if_needed_def snapshot_recorded_def intro: exI [of _ "pr_db pr"])
qed

lemma pruned_size_sort: "pruned_size R C s (sort_key f bs) = pruned_size R C s bs"
proof -
  have "sum_list (map g (sort_key f bs)) = sum_list (map g bs)" for g :: "block \<Rightarrow> u64"
    by (metis mset_map mset_sort sum_mset_sum_list)
  then show ?thesis
    by (simp add: pruned_size_def)
qed

section \<open>Pruning a range\<close>

lemma blocks_of_range:
  assumes R: "rocks_ok R view" and s: "store_sound C view s"
  shows "\<exists>s'. store_blocks_by_height_range R C pick lo hi s =
      (Inr (sort_key blk_height (filter (in_window lo hi) (map snd (store_view C view s)))), s')
    \<and> db s' = db s \<and> store_sound C view s'"
proof -
  let ?v = "store_view C view s"
  have inv: "omap_inv (view (db s) BLOCKS_CF)"
    by (rule rocks_okD(2) [OF R])
  then have di: "distinct (map fst ?v)"
    using omap_inv_distinct by (simp add: store_view_def comp_def case_prod_beta)
  have "store_all_block_hashes R s = Inr (filter (\<lambda>k. length k = 32) (map fst (view (db s) BLOCKS_CF)))"
    using rocks_okD(1,5) [OF R] by (simp add: store_all_block_hashes_def collect_hashes_ok)
  also have "filter (\<lambda>k. length k = 32) (map fst (view (db s) BLOCKS_CF)) = map fst ?v"
    using s by (subst filter_True) (auto simp: store_sound_def entry_ok_def store_view_def comp_def
        case_prod_beta)
  finally have hs: "store_all_block_hashes R s = Inr (map fst ?v)" .
  have own: "map (\<lambda>h. the (map_of ?v h)) (map fst ?v) = map snd ?v"
    using di by (auto simp: map_of_eq_Some_iff)
  have "set (map fst ?v) \<subseteq> fst ` set ?v"
    by simp
  from range_blocks_sound [OF R s this, of pick lo hi, unfolded own] show ?thesis
    by (auto simp only: store_blocks_by_height_range_def hs sum.case prod.case)
qed

lemma sound_keys:
  assumes R: "rocks_ok R view" and s: "store_sound C view s"
    and kb: "(k, b) \<in> set (store_view C view s)" and "b' \<in> snd ` set (store_view C view s)"
    and eq: "blk_hash b' = k \<or> b' = b"
  shows "blk_hash b = k \<and> b = b'"
proof -
  let ?v = "store_view C view s"
  have own: "blk_hash x = h" if "(h, x) \<in> set ?v" for h x
    using that s by (fastforce simp: store_view_def store_sound_def entry_ok_def)
  from assms(4) obtain k' where k': "(k', b') \<in> set ?v"
    by auto
  with own [OF k'] own [OF kb] eq have "k' = k"
    by auto
  moreover have "distinct (map fst ?v)"
    using omap_inv_distinct [OF rocks_okD(2) [OF R]] by (simp add: store_view_def comp_def case_prod_beta)
  ultimately show ?thesis
    using own k' kb by (metis eq_key_imp_eq_value)
qed

lemma filter_pruned:
  assumes R: "rocks_ok R view" and s: "store_sound C view s"
    and bs: "set bs = set (filter Q (map snd (store_view C view s)))"
  shows "filter (\<lambda>(k, b). k \<notin> blk_hash ` set bs) (store_view C view s) =
    filter (\<lambda>(k, b). \<not> Q b) (store_view C view s)"
proof (rule filter_cong [OF refl])
  fix x
  assume x: "x \<in> set (store_view C view s)"
  obtain k b where kb: "x = (k, b)"
    by force
  note sk = sound_keys [OF R s x [unfolded kb]]
  have "k \<in> blk_hash ` set bs \<longleftrightarrow> Q b"
  proof
    assume "k \<in> blk_hash ` set bs"
    then obtain b' where "b' \<in> snd ` set (store_view C view s)" "Q b'" "blk_hash b' = k"
      using bs by auto
    with sk [of b'] show "Q b"
      by auto
  next
    assume "Q b"
    moreover have "b \<in> snd ` set (store_view C view s)"
      using x kb by force
    ultimately have "b \<in> set bs" "blk_hash b = k"
      using bs sk [of b] by auto
    then show "k \<in> blk_hash ` set bs"
      by auto
  qed
  then show "(case x of (k, b) \<Rightarrow> k \<notin> blk_hash ` set bs) \<longleftrightarrow> (case x of (k, b) \<Rightarrow> \<not> Q b)"
    by (simp add: kb)
qed

lemma prune_range_effect:
  assumes R: "rocks_ok R view" and hex: "inj (hex_encode C)" and P: "pdb_ok P pview"
    and Q: "prune_codec_ok Q" and s: "store_sound C view (pr_store pr)"
    and run: "prune_range R C E pick P Q hi m pr = (Inr n, pr')"
  defines "lo \<equiv> last_pruned_height m + 1" and "v \<equiv> store_view C view (pr_store pr)"
  shows "store_view C view (pr_store pr') = filter (\<lambda>(k, b). \<not> in_window lo hi b) v
    \<and> store_sound C view (pr_store pr') \<and> n = of_nat (length (filter (\<lambda>(k, b). in_window lo hi b) v))
    \<and> get_metadata P Q pr' =
        (if filter (\<lambda>(k, b). in_window lo hi b) v = [] then get_metadata P Q pr
         else Inr (m\<lparr>last_pruned_height := hi, total_blocks_pruned := total_blocks_pruned m + n,
           total_size_pruned := total_size_pruned m
             + pruned_size R C (pr_store pr) (map snd (filter (\<lambda>(k, b). in_window lo hi b) v))\<rparr>))"
proof -
  let ?bs = "sort_key blk_height (filter (in_window lo hi) (map snd v))"
  obtain s1 where g: "store_blocks_by_height_range R C pick lo hi (pr_store pr) = (Inr ?bs, s1)"
    and s1: "db s1 = db (pr_store pr)" "store_sound C view s1"
    using blocks_of_range [OF R s, of pick lo hi] by (auto simp: v_def)
  have v1: "store_view C view s1 = v"
    by (simp add: v_def store_view_db [OF s1(1)])
  have meta: "pruned_size R C s1 bs = pruned_size R C (pr_store pr) bs" for bs
    unfolding pruned_size_def store_get_metadata_def s1(1) ..
  have bs: "filter (in_window lo hi) (map snd v) = map snd (filter (\<lambda>(k, b). in_window lo hi b) v)"
    by (simp add: filter_map comp_def case_prod_unfold)
  then have len: "length ?bs = length (filter (\<lambda>(k, b). in_window lo hi b) v)"
    by simp
  note r = run [unfolded prune_range_def, folded lo_def, unfolded g prod.case sum.case]
  show ?thesis
  proof (cases "?bs = []")
    case True
    with len have e: "filter (\<lambda>(k, b). in_window lo hi b) v = []"
      by simp
    then have none: "\<not> in_window lo hi b" if "(k, b) \<in> set v" for k b
      using that by (auto simp: filter_empty_conv)
    have "pr' = pr\<lparr>pr_store := s1\<rparr>" "n = 0"
      using r True by auto
    moreover have "filter (\<lambda>(k, b). \<not> in_window lo hi b) v = v"
      using none by (auto simp: filter_id_conv)
    ultimately show ?thesis
      using v1 s1(2) e by (simp add: get_metadata_def)
  next
    case False
    obtain x s2 where "delete_blocks R C E pick ?bs s1 = (x, s2)"
      by force
    with False r have d: "delete_blocks R C E pick ?bs s1 = (Inr (), s2)"
      by (cases x) (auto simp: Let_def)
    let ?m = "m\<lparr>last_pruned_height := hi,
        total_blocks_pruned := total_blocks_pruned m + of_nat (length ?bs),
        total_size_pruned := total_size_pruned m + pruned_size R C s1 ?bs\<rparr>"
    have "save_metadata P Q ?m (pr\<lparr>pr_store := s2\<rparr>) = Inr pr' \<and> n = of_nat (length ?bs)"
      using False r d by (cases m) (auto simp: Let_def split: sum.splits)
    then have sv: "save_metadata P Q ?m (pr\<lparr>pr_store := s2\<rparr>) = Inr pr'" and n: "n = of_nat (length ?bs)"
      by auto
    from delete_blocks_sound [OF R hex s1(2) d]
    have "store_view C view s2 = filter (\<lambda>(k, b). k \<notin> blk_hash ` set ?bs) v" "store_sound C view s2"
      by (auto simp: v1)
    moreover have "filter (\<lambda>(k, b). k \<notin> blk_hash ` set ?bs) v = filter (\<lambda>(k, b). \<not> in_window lo hi b) v"
      unfolding v_def by (rule filter_pruned [OF R s]) simp
    moreover obtain d where "pr' = pr\<lparr>pr_store := s2, pr_db := d\<rparr>"
      using save_metadata_effect(2) [OF P Q sv] by auto
    ultimately show ?thesis
      using save_metadata_effect(1) [OF P Q sv] n len False by (auto simp: meta pruned_size_sort bs)
  qed
qed

section \<open>Sample instances\<close>

definition log_pdb :: "(pcf \<times> bytes \<times> bytes) list pdb" where
  "log_pdb =
     \<lparr>pk_has_cf = (\<lambda>_ _. True),
      pk_get = (\<lambda>d c k. Inr (map_of (map (\<lambda>(c, k, v). ((c, k), v)) d) (c, k))),
      pk_put = (\<lambda>d c k v. Inr ((c, k, v) # d))\<rparr>"

definition log_pview :: "(pcf \<times> bytes \<times> bytes) list \<Rightarrow> pcf \<Rightarrow> bytes \<rightharpoonup> bytes" where
  "log_pview d c k = map_of (map (\<lambda>(c, k, v). ((c, k), v)) d) (c, k)"

lemma log_pdb_ok: "pdb_ok log_pdb log_pview"
  by (auto simp: pdb_ok_def log_pdb_def log_pview_def fun_eq_iff)

text \<open>A serialiser that knows one snapshot and one metadata record.\<close>

definition one_codec :: "state_snapshot \<Rightarrow> pruning_metadata \<Rightarrow> prune_codec" where
  "one_codec x m =
     \<lparr>ser_snapshot = (\<lambda>y. if y = x then Some [1] else None),
      de_snapshot = (\<lambda>d. if d = [1] then Some x else None),
      ser_pmeta = (\<lambda>y. if y = m then Some [2] else None),
      de_pmeta = (\<lambda>d. if d = [2] then Some m else None)\<rparr>"

lemma one_codec_ok: "prune_codec_ok (one_codec x m)"
  by (auto simp: prune_codec_ok_def one_codec_def)

definition high_block :: block where
  "high_block = (sample_block [] 4)\<lparr>blk_height := 1\<rparr>"

definition sample_pruner :: "((pcf \<times> bytes \<times> bytes) list, kv_op list) pruner" where
  "sample_pruner = pruner_new [] (sample_store high_block) 5 100 5"

lemma sample_pruner_sound: "store_sound (sample_codec high_block) log_view (pr_store sample_pruner)"
  by (simp add: store_sound_def entry_ok_def sample_pruner_def pruner_new_def sample_store_def
      sample_log_def log_view_def sample_codec_def Let_def sample_block_hash high_block_def)

section \<open>Properties\<close>

text \<open>What \<open>maybe_prune\<close> does after the snapshot, and the edge of the window read as a number.\<close>

definition window_edge :: "u64 \<Rightarrow> u64 \<Rightarrow> u64" where
  "window_edge height w = (if height > w then sat_sub height w else 0)"

lemma window_edge_le:
  assumes "lo < x"
  shows "x \<le> window_edge height w \<longleftrightarrow> unat x + unat w \<le> unat height"
proof -
  have "unat (window_edge height w) = unat height - unat w"
    by (auto simp: window_edge_def unat_sat_sub word_less_nat_alt)
  then show ?thesis
    using assms unfolding word_le_nat_alt word_less_nat_alt by arith
qed

lemma maybe_prune_run:
  assumes "pdb_ok P pview" and "prune_codec_ok Q" and "get_metadata P Q pr = Inr m" and "should_prune height pr"
    and "maybe_prune R C E pick P Q iter height now st pr = (Inr n, pr')"
  shows "\<exists>d. get_metadata P Q (pr\<lparr>pr_db := d\<rparr>) = Inr (snapshot_recorded height pr m)
    \<and> (if window_edge height (window_size pr) \<le> last_pruned_height m then (Inr 0, pr\<lparr>pr_db := d\<rparr>)
       else prune_range R C E pick P Q (window_edge height (window_size pr)) (snapshot_recorded height pr m) (pr\<lparr>pr_db := d\<rparr>))
      = (Inr n, pr')"
proof -
  obtain r pr1 where t: "take_snapshot_if_needed P Q iter height now st pr = (r, pr1)"
    by force
  with assms(4,5) have r: "r = Inr ()"
    by (cases r) (auto simp: maybe_prune_def)
  with take_snapshot_if_needed_effect [OF assms(1-3)] t obtain d where
    pr1: "pr1 = pr\<lparr>pr_db := d\<rparr>" "get_metadata P Q pr1 = Inr (snapshot_recorded height pr m)"
    by metis
  have "last_pruned_height (snapshot_recorded height pr m) = last_pruned_height m"
    by (simp add: snapshot_recorded_def)
  then have "(if window_edge height (window_size pr) \<le> last_pruned_height m then (Inr 0, pr1)
      else prune_range R C E pick P Q (window_edge height (window_size pr)) (snapshot_recorded height pr m) pr1) = (Inr n, pr')"
    using assms(4,5) t r pr1(2) by (simp add: maybe_prune_def Let_def pr1(1) window_edge_def cong: if_cong)
  with pr1 show ?thesis
    by blast
qed

text \<open>The blocks that a run at some height removes.\<close>

definition prunable :: "u64 \<Rightarrow> ('p, 'db) pruner \<Rightarrow> pruning_metadata \<Rightarrow> block \<Rightarrow> bool" where
  "prunable height pr m b \<longleftrightarrow> pruning_threshold pr \<le> height \<and> last_pruned_height m < blk_height b
     \<and> unat (blk_height b) + unat (window_size pr) \<le> unat height"

lemma prunable_in_window:
  assumes "should_prune height pr"
  shows "window_edge height (window_size pr) \<le> last_pruned_height m \<Longrightarrow> \<not> prunable height pr m b"
    and "\<not> window_edge height (window_size pr) \<le> last_pruned_height m \<Longrightarrow>
      prunable height pr m b \<longleftrightarrow> in_window (last_pruned_height m + 1) (window_edge height (window_size pr)) b"
proof -
  let ?hi = "window_edge height (window_size pr)" and ?lo = "last_pruned_height m + 1"
  note le = window_edge_le [of "last_pruned_height m" "blk_height b" height "window_size pr"]
  show "?hi \<le> last_pruned_height m \<Longrightarrow> \<not> prunable height pr m b"
    using le unfolding prunable_def by (metis leD order.trans)
  assume "\<not> ?hi \<le> last_pruned_height m"
  then have "unat ?lo = Suc (unat (last_pruned_height m))"
    using unat_bound [of ?hi] unfolding word_le_nat_alt by (simp add: unat_add_no_overflow)
  then show "prunable height pr m b \<longleftrightarrow> in_window ?lo ?hi b"
    using le assms unfolding in_window_def prunable_def should_prune_def
    by (auto simp: word_le_nat_alt [of ?lo] word_less_nat_alt [of "last_pruned_height m"])
qed

text \<open>
  C23. Pruning at a height keeps the window: when \<open>maybe_prune\<close> succeeds, exactly the stored blocks
  above the last pruned height and at least a window below the current height are gone from
  the database, and nothing is gone below the threshold. So every block of the window stays,
  and so does every block of height zero. The result counts the removed blocks, and the store
  stays sound for the next run. The metadata that is read afterwards has the height of the snapshot
  that was due, if one was, and, when blocks were removed, the edge of the window as the last
  pruned height and the totals increased by their number and their size; when none was, the last
  pruned height and the totals are as before.
\<close>

theorem prune_keeps_window:
  assumes R: "rocks_ok R view" and hex: "inj (hex_encode C)" and P: "pdb_ok P pview"
    and Q: "prune_codec_ok Q" and s: "store_sound C view (pr_store pr)"
    and m: "get_metadata P Q pr = Inr m"
    and run: "maybe_prune R C E pick P Q iter height now st pr = (Inr n, pr')"
    and gone: "gone = filter (\<lambda>(k, b). prunable height pr m b) (store_view C view (pr_store pr))"
    and m1: "m1 = (if pruning_threshold pr \<le> height then snapshot_recorded height pr m else m)"
  shows "store_view C view (pr_store pr') = filter (\<lambda>(k, b). \<not> prunable height pr m b) (store_view C view (pr_store pr))
    \<and> n = of_nat (length gone)
    \<and> store_sound C view (pr_store pr')
    \<and> get_metadata P Q pr' = Inr (if gone = [] then m1
        else m1\<lparr>last_pruned_height := height - window_size pr, total_blocks_pruned := total_blocks_pruned m + n,
          total_size_pruned := total_size_pruned m + pruned_size R C (pr_store pr) (map snd gone)\<rparr>)"
proof (cases "should_prune height pr")
  case False
  with run s m show ?thesis
    by (auto simp: maybe_prune_def should_prune_def prunable_def gone m1)
next
  case True
  let ?hi = "window_edge height (window_size pr)"
  have m1': "m1 = snapshot_recorded height pr m" "last_pruned_height m1 = last_pruned_height m"
    "total_blocks_pruned m1 = total_blocks_pruned m" "total_size_pruned m1 = total_size_pruned m"
    using True by (simp_all add: m1 should_prune_def snapshot_recorded_def)
  obtain d where d: "get_metadata P Q (pr\<lparr>pr_db := d\<rparr>) = Inr m1"
    and run1: "(if ?hi \<le> last_pruned_height m then (Inr 0, pr\<lparr>pr_db := d\<rparr>)
      else prune_range R C E pick P Q ?hi m1 (pr\<lparr>pr_db := d\<rparr>)) = (Inr n, pr')"
    using maybe_prune_run [OF P Q m True run] unfolding m1'(1) by blast
  show ?thesis
  proof (cases "?hi \<le> last_pruned_height m")
    case le: True
    then show ?thesis
      using s run1 d prunable_in_window(1) [OF True le] by (auto simp: gone case_prod_unfold)
  next
    case gt: False
    then have "?hi = height - window_size pr"
      by (auto simp: window_edge_def sat_sub_def split: if_splits)
    moreover have "(\<lambda>(k, b). in_window (last_pruned_height m1 + 1) ?hi b) = (\<lambda>(k :: block_hash, b). prunable height pr m b)"
      using prunable_in_window(2) [OF True gt] by (simp add: m1'(2))
    moreover have "in_window (last_pruned_height m1 + 1) ?hi = prunable height pr m"
      using prunable_in_window(2) [OF True gt] by (auto simp: m1'(2))
    ultimately show ?thesis
      using prune_range_effect [OF R hex P Q, of "pr\<lparr>pr_db := d\<rparr>" E pick ?hi m1 n pr'] s run1 gt d
      by (simp add: gone m1'(3,4))
  qed
qed

definition pruned_once :: pruning_metadata where
  "pruned_once = \<lparr>last_pruned_height = 1, total_blocks_pruned = 1, total_size_pruned = 1,
     last_snapshot_height = 0, snapshot_count = 0\<rparr>"

definition blank_state :: state_manager where
  "blank_state = \<lparr>state_tree = tree_new, current_state_root = replicate 32 0\<rparr>"

theorem prune_keeps_window_witness:
  "let C = sample_codec high_block; Q = one_codec (make_snapshot id 0 0 blank_state) pruned_once;
       r = maybe_prune log_rocks C sample_env (\<lambda>_. 0) log_pdb Q id 6 0 blank_state sample_pruner
   in fst r = Inr 1 \<and> store_view C log_view (pr_store (snd r)) = []
     \<and> map_sum id last_pruned_height (get_metadata log_pdb Q (snd r)) = Inr 1
     \<and> map_sum id total_blocks_pruned (get_metadata log_pdb Q (snd r)) = Inr 1"
proof -
  let ?C = "sample_codec high_block" and ?Q = "one_codec (make_snapshot id 0 0 blank_state) pruned_once"
  let ?r = "maybe_prune log_rocks ?C sample_env (\<lambda>_. 0) log_pdb ?Q id 6 0 blank_state sample_pruner"
  have hex: "inj (hex_encode ?C)"
    by (simp add: sample_codec_def Let_def)
  have m: "get_metadata log_pdb ?Q sample_pruner = Inr default_pruning_metadata"
    by (simp add: get_metadata_def log_pdb_def sample_pruner_def pruner_new_def)
  have f: "pruning_threshold sample_pruner = 5" "window_size sample_pruner = 5"
    "snapshot_interval sample_pruner = 100" "pr_store sample_pruner = sample_store high_block"
    "pr_db sample_pruner = []"
    by (simp_all add: sample_pruner_def pruner_new_def)
  have hb: "length (blk_hash high_block) = 32" "transactions high_block = []" "blk_height high_block = 1"
    by (simp_all add: high_block_def sample_block_hash) (simp add: sample_block_def)
  have "?r = prune_range log_rocks ?C sample_env (\<lambda>_. 0) log_pdb ?Q 1 default_pruning_metadata sample_pruner"
    by (simp add: maybe_prune_def should_prune_def take_snapshot_if_needed_def m f
        default_pruning_metadata_def sat_sub_def)
  also have "fst \<dots> = Inr 1"
    using hb
    by (simp add: prune_range_def f store_blocks_by_height_range_def store_all_block_hashes_def
        log_rocks_def sample_store_def sample_log_def log_view_def store_get_metadata_def
        store_get_block_def get_from_cache_def default_pruning_metadata_def sample_codec_def
        store_delete_block_def remove_from_cache_def add_to_cache_def evict.simps save_metadata_def
        log_pdb_def one_codec_def pruned_once_def pruned_size_def store_compact_def Let_def)
  finally have "fst ?r = Inr 1" .
  then have "?r = (Inr 1, snd ?r)"
    by (metis prod.collapse)
  note t = prune_keeps_window [OF log_rocks_ok hex log_pdb_ok one_codec_ok sample_pruner_sound m this refl refl]
  have p: "prunable 6 sample_pruner default_pruning_metadata high_block"
    by (simp add: prunable_def f hb default_pruning_metadata_def)
  show ?thesis
    using t \<open>fst ?r = Inr 1\<close>
    by (simp add: Let_def sample_store_view f p snapshot_recorded_def) (simp add: default_pruning_metadata_def)
qed

text \<open>
  A snapshot that was taken is read back under its height with the state root, supply and
  number of active accounts of the state it was taken of; no snapshot of another height
  changes, the latest snapshot is the new one (unless its height is zero, which counts as
  none), and the snapshot counter goes up by one.
\<close>

theorem snapshot_roundtrip:
  assumes "pdb_ok P pview" and "prune_codec_ok Q" and "get_metadata P Q pr = Inr m"
    and "take_state_snapshot P Q iter height now st pr = (Inr (), pr')"
  shows "get_state_snapshot P Q height pr' = Inr (Some (make_snapshot iter height now st))
    \<and> (h \<noteq> height \<longrightarrow> get_state_snapshot P Q h pr' = get_state_snapshot P Q h pr)
    \<and> get_latest_snapshot P Q pr' =
        (if height = 0 then Inr None else Inr (Some (make_snapshot iter height now st)))
    \<and> get_metadata P Q pr' =
        Inr (m\<lparr>last_snapshot_height := height, snapshot_count := snapshot_count m + 1\<rparr>)"
  using take_state_snapshot_effect [OF assms] by (simp add: get_latest_snapshot_def)

theorem snapshot_roundtrip_witness:
  "let x = make_snapshot id 7 3 blank_state;
       m = default_pruning_metadata\<lparr>last_snapshot_height := 7, snapshot_count := 1\<rparr>;
       pr' = snd (take_state_snapshot log_pdb (one_codec x m) id 7 3 blank_state sample_pruner)
   in get_latest_snapshot log_pdb (one_codec x m) pr' = Inr (Some x)"
proof -
  let ?x = "make_snapshot id 7 3 blank_state"
  let ?m = "default_pruning_metadata\<lparr>last_snapshot_height := 7, snapshot_count := 1\<rparr>"
  let ?r = "take_state_snapshot log_pdb (one_codec ?x ?m) id 7 3 blank_state sample_pruner"
  have m: "get_metadata log_pdb (one_codec ?x ?m) sample_pruner = Inr default_pruning_metadata"
    by (simp add: get_metadata_def log_pdb_def sample_pruner_def pruner_new_def)
  have "fst ?r = Inr ()"
    by (simp add: take_state_snapshot_def save_metadata_def get_metadata_def log_pdb_def one_codec_def
        sample_pruner_def pruner_new_def default_pruning_metadata_def Let_def)
  then have "?r = (Inr (), snd ?r)"
    by (metis prod.collapse)
  from snapshot_roundtrip [OF log_pdb_ok one_codec_ok m this] show ?thesis
    by (simp add: Let_def)
qed

end
