(* ===== verification/Contracts.thy ===== *)
theory Contracts
  imports State
begin

text \<open>
  Contracts: gas (\<^verbatim>\<open>src/src/vm/gas_meter.rs\<close>), host functions (\<^verbatim>\<open>src/src/vm/host_functions.rs\<close>),
  contract storage and registry (\<^verbatim>\<open>src/src/contracts\<close>), the contract executor
  (\<^verbatim>\<open>src/src/vm/contract_executor.rs\<close>) and the sequential block executor
  (\<^verbatim>\<open>src/src/execution/transaction_executor.rs\<close>).

  The key-value database is the record \<open>cdb\<close> over an opaque database type, with \<open>cdb_ok\<close> what
  the code relies on; \<^verbatim>\<open>bincode\<close> of a contract record is the pair \<open>ser\<close>, \<open>de\<close> with
  \<open>info_codec_ok\<close>. The WebAssembly engine is the record \<open>wasm\<close>: instantiation and calls of
  contract code, which may run host functions and so change storage and gas. Pointers are
  32-bit, addresses computed from them 64-bit and wrapping, as in a release build; a slice out
  of range is the outcome \<open>Panic\<close>.
\<close>

section \<open>External code\<close>

record 'db cdb =
  cdb_get :: "'db \<Rightarrow> bytes \<Rightarrow> unit + bytes option"
  cdb_put :: "'db \<Rightarrow> bytes \<Rightarrow> bytes \<Rightarrow> unit + 'db"
  cdb_delete :: "'db \<Rightarrow> bytes \<Rightarrow> unit + 'db"
  cdb_from :: "'db \<Rightarrow> bytes \<Rightarrow> (unit + bytes \<times> bytes) list"

definition cdb_ok :: "'db cdb \<Rightarrow> ('db \<Rightarrow> (bytes \<times> bytes) list) \<Rightarrow> bool" where
  "cdb_ok K view \<longleftrightarrow>
     (\<forall>d. omap_inv (view d)) \<and>
     (\<forall>d k. cdb_get K d k = Inr (map_of (view d) k)) \<and>
     (\<forall>d k v d'. cdb_put K d k v = Inr d' \<longrightarrow> view d' = omap_insert k v (view d)) \<and>
     (\<forall>d k d'. cdb_delete K d k = Inr d' \<longrightarrow> view d' = omap_delete k (view d)) \<and>
     (\<forall>d k. cdb_from K d k = map Inr (filter (\<lambda>(k', v). k \<le> k') (view d)))"

section \<open>Gas\<close>

record gas_meter =
  gas_cap :: u64
  gas_used :: u64

definition gas_meter_new :: "u64 \<Rightarrow> gas_meter" where
  "gas_meter_new limit = \<lparr>gas_cap = limit, gas_used = 0\<rparr>"

definition charge :: "u64 \<Rightarrow> gas_meter \<Rightarrow> gas_meter option" where
  "charge amount g =
     (if gas_used g + amount > gas_cap g then None else Some (g\<lparr>gas_used := gas_used g + amount\<rparr>))"

section \<open>Contract storage\<close>

definition storage_get :: "'db cdb \<Rightarrow> 'db \<Rightarrow> bytes \<Rightarrow> bytes option" where
  "storage_get K d key = (case cdb_get K d key of Inr (Some v) \<Rightarrow> Some v | _ \<Rightarrow> None)"

text \<open>\<open>None\<close> is the panic of \<open>unwrap\<close>.\<close>

definition storage_put :: "'db cdb \<Rightarrow> 'db \<Rightarrow> bytes \<Rightarrow> bytes \<Rightarrow> 'db option" where
  "storage_put K d key value = (case cdb_put K d key value of Inl _ \<Rightarrow> None | Inr d' \<Rightarrow> Some d')"

definition make_key :: "address \<Rightarrow> bytes \<Rightarrow> bytes" where
  "make_key contract key = contract @ key"

section \<open>Host functions\<close>

record 'db runtime_state =
  rt_contract :: address
  rt_caller :: address
  rt_block_height :: u64
  rt_timestamp :: u64
  rt_storage :: 'db
  rt_gas :: gas_meter

datatype host_outcome = Ret "64 word" | Trap | Panic

definition as_usize :: "i32 \<Rightarrow> u64" where
  "as_usize p = scast p"

text \<open>\<open>&data[start..end]\<close>\<close>

definition slice :: "bytes \<Rightarrow> u64 \<Rightarrow> u64 \<Rightarrow> bytes option" where
  "slice data start stop =
     (if start > stop \<or> unat stop > length data then None
      else Some (take (unat stop - unat start) (drop (unat start) data)))"

text \<open>\<open>data[start..end].copy_from_slice(bytes)\<close> with \<open>end = start + bytes.len()\<close>\<close>

definition copy_into :: "bytes \<Rightarrow> u64 \<Rightarrow> bytes \<Rightarrow> bytes option" where
  "copy_into data start bs =
     (let stop = start + of_nat (length bs)
      in if start > stop \<or> unat stop > length data then None
         else Some (take (unat start) data @ bs @ drop (unat stop) data))"

text \<open>The prologue every host function shares: charge, then look up the exported memory.\<close>

definition charge_state :: "u64 \<Rightarrow> 'db runtime_state \<Rightarrow> 'db runtime_state option" where
  "charge_state n st = map_option (\<lambda>g. st\<lparr>rt_gas := g\<rparr>) (charge n (rt_gas st))"

definition storage_read ::
  "'db cdb \<Rightarrow> i32 \<Rightarrow> i32 \<Rightarrow> i32 \<Rightarrow> 'db runtime_state \<Rightarrow> bytes option
    \<Rightarrow> host_outcome \<times> 'db runtime_state \<times> bytes option" where
  "storage_read K key_ptr key_len out_ptr st memory =
     (case charge_state 10 st of
        None \<Rightarrow> (Trap, st, memory)
      | Some st \<Rightarrow>
     (case memory of
        None \<Rightarrow> (Trap, st, memory)
      | Some data \<Rightarrow>
          let start = as_usize key_ptr; stop = start + as_usize key_len in
          if stop > of_nat (length data) then (Trap, st, memory)
          else case slice data start stop of
            None \<Rightarrow> (Panic, st, memory)
          | Some key \<Rightarrow>
              let bs = (case storage_get K (rt_storage st) key of None \<Rightarrow> [] | Some v \<Rightarrow> v);
                  out = as_usize out_ptr
              in if out + of_nat (length bs) > of_nat (length data) then (Trap, st, memory)
                 else case copy_into data out bs of
                   None \<Rightarrow> (Panic, st, memory)
                 | Some data' \<Rightarrow> (Ret (of_nat (length bs)), st, Some data')))"

definition storage_write ::
  "'db cdb \<Rightarrow> i32 \<Rightarrow> i32 \<Rightarrow> i32 \<Rightarrow> i32 \<Rightarrow> 'db runtime_state \<Rightarrow> bytes option
    \<Rightarrow> host_outcome \<times> 'db runtime_state \<times> bytes option" where
  "storage_write K key_ptr key_len val_ptr val_len st memory =
     (case charge_state 20 st of
        None \<Rightarrow> (Trap, st, memory)
      | Some st \<Rightarrow>
     (case memory of
        None \<Rightarrow> (Trap, st, memory)
      | Some data \<Rightarrow>
          let kstart = as_usize key_ptr; kend = kstart + as_usize key_len;
              vstart = as_usize val_ptr; vend = vstart + as_usize val_len
          in if kend > of_nat (length data) \<or> vend > of_nat (length data) then (Trap, st, memory)
             else case (slice data kstart kend, slice data vstart vend) of
               (Some key, Some val) \<Rightarrow>
                 (case storage_put K (rt_storage st) key val of
                    None \<Rightarrow> (Panic, st, memory)
                  | Some d \<Rightarrow> (Ret 0, st\<lparr>rt_storage := d\<rparr>, memory))
             | _ \<Rightarrow> (Panic, st, memory)))"

definition get_caller ::
  "i32 \<Rightarrow> 'db runtime_state \<Rightarrow> bytes option \<Rightarrow> host_outcome \<times> 'db runtime_state \<times> bytes option" where
  "get_caller p st memory =
     (case charge_state 1 st of
        None \<Rightarrow> (Trap, st, memory)
      | Some st \<Rightarrow>
     (case memory of
        None \<Rightarrow> (Trap, st, memory)
      | Some data \<Rightarrow>
          if as_usize p + 20 > of_nat (length data) then (Trap, st, memory)
          else case copy_into data (as_usize p) (rt_caller st) of
            None \<Rightarrow> (Panic, st, memory)
          | Some data' \<Rightarrow> (Ret 0, st, Some data')))"

definition host_block_height :: "'db runtime_state \<Rightarrow> host_outcome \<times> 'db runtime_state" where
  "host_block_height st =
     (case charge_state 1 st of None \<Rightarrow> (Trap, st) | Some st \<Rightarrow> (Ret (rt_block_height st), st))"

definition host_timestamp :: "'db runtime_state \<Rightarrow> host_outcome \<times> 'db runtime_state" where
  "host_timestamp st =
     (case charge_state 1 st of None \<Rightarrow> (Trap, st) | Some st \<Rightarrow> (Ret (rt_timestamp st), st))"

section \<open>Registry\<close>

record contract_info =
  ci_address :: address
  ci_bytecode :: bytes
  ci_metadata :: bytes

record info_codec =
  ser_info :: "contract_info \<Rightarrow> bytes option"
  de_info :: "bytes \<Rightarrow> contract_info option"

definition info_codec_ok :: "info_codec \<Rightarrow> bool" where
  "info_codec_ok C \<longleftrightarrow> (\<forall>i d. ser_info C i = Some d \<longrightarrow> de_info C d = Some i)"

datatype registry_error =
    ContractExists | ContractNotFound | SerializeFailed | DeserializeFailed | RegistryDbError

definition registry_prefix :: bytes where
  "registry_prefix = map (of_nat \<circ> of_char) ''contract:''"

definition make_registry_key :: "address \<Rightarrow> bytes" where
  "make_registry_key a = registry_prefix @ a"

definition get_contract :: "'db cdb \<Rightarrow> info_codec \<Rightarrow> 'db \<Rightarrow> address \<Rightarrow> contract_info option" where
  "get_contract K C d a =
     (case cdb_get K d (make_registry_key a) of Inr (Some data) \<Rightarrow> de_info C data | _ \<Rightarrow> None)"

definition register_contract ::
  "'db cdb \<Rightarrow> info_codec \<Rightarrow> address \<Rightarrow> bytes \<Rightarrow> 'db \<Rightarrow> registry_error + 'db" where
  "register_contract K C a bytecode d =
     (if get_contract K C d a \<noteq> None then Inl ContractExists
      else case ser_info C \<lparr>ci_address = a, ci_bytecode = bytecode, ci_metadata = []\<rparr> of
        None \<Rightarrow> Inl SerializeFailed
      | Some data \<Rightarrow>
          (case cdb_put K d (make_registry_key a) data of
             Inl _ \<Rightarrow> Inl RegistryDbError
           | Inr d' \<Rightarrow> Inr d'))"

definition add_metadata ::
  "'db cdb \<Rightarrow> info_codec \<Rightarrow> address \<Rightarrow> bytes \<Rightarrow> 'db \<Rightarrow> registry_error + 'db" where
  "add_metadata K C a metadata d =
     (case cdb_get K d (make_registry_key a) of
        Inl _ \<Rightarrow> Inl RegistryDbError
      | Inr None \<Rightarrow> Inl ContractNotFound
      | Inr (Some data) \<Rightarrow>
          (case de_info C data of
             None \<Rightarrow> Inl DeserializeFailed
           | Some info \<Rightarrow>
               (case ser_info C (info\<lparr>ci_metadata := metadata\<rparr>) of
                  None \<Rightarrow> Inl SerializeFailed
                | Some data' \<Rightarrow>
                    (case cdb_put K d (make_registry_key a) data' of
                       Inl _ \<Rightarrow> Inl RegistryDbError
                     | Inr d' \<Rightarrow> Inr d'))))"

definition delete_contract :: "'db cdb \<Rightarrow> address \<Rightarrow> 'db \<Rightarrow> registry_error + 'db" where
  "delete_contract K a d =
     (case cdb_delete K d (make_registry_key a) of Inl _ \<Rightarrow> Inl RegistryDbError | Inr d' \<Rightarrow> Inr d')"

definition contract_exists :: "'db cdb \<Rightarrow> 'db \<Rightarrow> address \<Rightarrow> bool" where
  "contract_exists K d a =
     (case cdb_get K d (make_registry_key a) of Inr (Some _) \<Rightarrow> True | _ \<Rightarrow> False)"

fun collect_contracts ::
  "info_codec \<Rightarrow> (unit + bytes \<times> bytes) list \<Rightarrow> registry_error + contract_info list" where
  "collect_contracts C [] = Inr []"
| "collect_contracts C (Inl _ # xs) = Inl RegistryDbError"
| "collect_contracts C (Inr (k, v) # xs) =
     (case collect_contracts C xs of
        Inl e \<Rightarrow> Inl e
      | Inr cs \<Rightarrow>
          if prefix registry_prefix k
          then (case de_info C v of None \<Rightarrow> Inr cs | Some i \<Rightarrow> Inr (i # cs))
          else Inr cs)"

definition list_all_contracts ::
  "'db cdb \<Rightarrow> info_codec \<Rightarrow> 'db \<Rightarrow> registry_error + contract_info list" where
  "list_all_contracts K C d =
     collect_contracts C (cdb_from K d (map (of_nat \<circ> of_char) ''cont''))"

definition contract_count :: "'db cdb \<Rightarrow> info_codec \<Rightarrow> 'db \<Rightarrow> registry_error + nat" where
  "contract_count K C d = map_sum id length (list_all_contracts K C d)"

section \<open>The executors\<close>

text \<open>
  Instantiation and the optional call of \<open>init\<close>, or of a method: an error at instantiation with
  the storage left then, or whether the call succeeded together with the runtime state it left.
\<close>

record 'db wasm =
  wasm_deploy :: "bytes \<Rightarrow> 'db runtime_state \<Rightarrow> 'db + bool \<times> 'db runtime_state"
  wasm_call :: "bytes \<Rightarrow> bytes \<Rightarrow> 'db runtime_state \<Rightarrow> 'db + bool \<times> 'db runtime_state"

record ('rdb, 'db) contract_executor =
  ce_state :: state_manager
  ce_registry :: 'rdb
  ce_storage :: 'db

datatype exec_error =
    ExecState state_error | ExecRegistry registry_error | InstantiateError | InitFailed
  | NoSuchContract | CallFailed

definition runtime_for :: "address \<Rightarrow> transaction \<Rightarrow> 'db \<Rightarrow> 'db runtime_state" where
  "runtime_for a tx storage =
     \<lparr>rt_contract = a, rt_caller = tx_from tx, rt_block_height = 0, rt_timestamp = 0,
      rt_storage = storage, rt_gas = gas_meter_new (gas_limit tx)\<rparr>"

text \<open>
  The executor is changed in place and storage is shared with the running contract, so the
  executor is returned with an error too.
\<close>

definition deploy_contract ::
  "(bytes \<Rightarrow> bytes) \<Rightarrow> leaf_iter \<Rightarrow> 'rdb cdb \<Rightarrow> info_codec \<Rightarrow> 'db wasm \<Rightarrow> transaction \<Rightarrow> bytes
    \<Rightarrow> ('rdb, 'db) contract_executor \<Rightarrow> (exec_error + u64) \<times> ('rdb, 'db) contract_executor" where
  "deploy_contract sha iter K C W tx wasm_code ce =
     (let address = take 20 (sha wasm_code) in
      case wasm_deploy W wasm_code (runtime_for address tx (ce_storage ce)) of
        Inl d \<Rightarrow> (Inl InstantiateError, ce\<lparr>ce_storage := d\<rparr>)
      | Inr (success, rt) \<Rightarrow>
          let ce = ce\<lparr>ce_storage := rt_storage rt\<rparr>;
              used = gas_used (rt_gas rt);
              fee = sat_mul used (gas_price tx)
          in case deduct_fee sha iter (tx_from tx) fee (ce_state ce) of
               Inl e \<Rightarrow> (Inl (ExecState e), ce)
             | Inr s \<Rightarrow>
                 let ce = ce\<lparr>ce_state := s\<rparr> in
                 if success then
                   (case register_contract K C address wasm_code (ce_registry ce) of
                      Inl e \<Rightarrow> (Inl (ExecRegistry e), ce)
                    | Inr r \<Rightarrow> (Inr used, ce\<lparr>ce_registry := r\<rparr>))
                 else (Inl InitFailed, ce))"

definition call_contract ::
  "(bytes \<Rightarrow> bytes) \<Rightarrow> leaf_iter \<Rightarrow> 'rdb cdb \<Rightarrow> info_codec \<Rightarrow> 'db wasm \<Rightarrow> transaction \<Rightarrow> address \<Rightarrow> bytes
    \<Rightarrow> ('rdb, 'db) contract_executor \<Rightarrow> (exec_error + u64) \<times> ('rdb, 'db) contract_executor" where
  "call_contract sha iter K C W tx contract method ce =
     (case get_contract K C (ce_registry ce) contract of
        None \<Rightarrow> (Inl NoSuchContract, ce)
      | Some info \<Rightarrow>
     (case wasm_call W (ci_bytecode info) method (runtime_for contract tx (ce_storage ce)) of
        Inl d \<Rightarrow> (Inl InstantiateError, ce\<lparr>ce_storage := d\<rparr>)
      | Inr (success, rt) \<Rightarrow>
          let ce = ce\<lparr>ce_storage := rt_storage rt\<rparr>;
              used = gas_used (rt_gas rt);
              fee = sat_mul used (gas_price tx)
          in case deduct_fee sha iter (tx_from tx) fee (ce_state ce) of
               Inl e \<Rightarrow> (Inl (ExecState e), ce)
             | Inr s \<Rightarrow>
                 (if success then Inr used else Inl CallFailed, ce\<lparr>ce_state := s\<rparr>)))"

definition execute_transaction ::
  "(bytes \<Rightarrow> bytes) \<Rightarrow> leaf_iter \<Rightarrow> 'rdb cdb \<Rightarrow> info_codec \<Rightarrow> 'db wasm \<Rightarrow> transaction
    \<Rightarrow> ('rdb, 'db) contract_executor \<Rightarrow> (exec_error + u64) \<times> ('rdb, 'db) contract_executor" where
  "execute_transaction sha iter K C W tx ce =
     (case payload tx of
        Transfer _ _ \<Rightarrow>
          (case apply_transaction sha iter tx (ce_state ce) of
             Inl e \<Rightarrow> (Inl (ExecState e), ce)
           | Inr s \<Rightarrow> (Inr (gas_limit tx), ce\<lparr>ce_state := s\<rparr>))
      | ContractDeploy wasm_code init_args \<Rightarrow> deploy_contract sha iter K C W tx wasm_code ce
      | ContractCall contract method args \<Rightarrow> call_contract sha iter K C W tx contract method ce)"

record execution_result =
  new_state_root :: bytes
  executed_transactions :: nat
  exec_success :: bool
  total_fees :: u64

fun execute_txs ::
  "(bytes \<Rightarrow> bytes) \<Rightarrow> leaf_iter \<Rightarrow> 'rdb cdb \<Rightarrow> info_codec \<Rightarrow> 'db wasm \<Rightarrow> transaction list \<Rightarrow> nat \<Rightarrow> u64
    \<Rightarrow> ('rdb, 'db) contract_executor \<Rightarrow> execution_result \<times> ('rdb, 'db) contract_executor" where
  "execute_txs sha iter K C W [] executed fees ce =
     (\<lparr>new_state_root = current_state_root (ce_state ce), executed_transactions = executed,
       exec_success = True, total_fees = fees\<rparr>, ce)"
| "execute_txs sha iter K C W (tx # txs) executed fees ce =
     (case execute_transaction sha iter K C W tx ce of
        (Inr used, ce') \<Rightarrow>
          execute_txs sha iter K C W txs (executed + 1) (sat_add fees (sat_mul used (gas_price tx))) ce'
      | (Inl _, ce') \<Rightarrow>
          (\<lparr>new_state_root = current_state_root (ce_state ce'), executed_transactions = executed,
            exec_success = False, total_fees = fees\<rparr>, ce'))"

definition execute_block ::
  "(bytes \<Rightarrow> bytes) \<Rightarrow> leaf_iter \<Rightarrow> 'rdb cdb \<Rightarrow> info_codec \<Rightarrow> 'db wasm \<Rightarrow> block
    \<Rightarrow> ('rdb, 'db) contract_executor \<Rightarrow> execution_result \<times> ('rdb, 'db) contract_executor" where
  "execute_block sha iter K C W b ce = execute_txs sha iter K C W (transactions b) 0 0 ce"

fun execute_blocks_in_order ::
  "(bytes \<Rightarrow> bytes) \<Rightarrow> leaf_iter \<Rightarrow> 'rdb cdb \<Rightarrow> info_codec \<Rightarrow> 'db wasm \<Rightarrow> block list
    \<Rightarrow> ('rdb, 'db) contract_executor \<Rightarrow> execution_result list \<times> ('rdb, 'db) contract_executor" where
  "execute_blocks_in_order sha iter K C W [] ce = ([], ce)"
| "execute_blocks_in_order sha iter K C W (b # bs) ce =
     (let (r, ce1) = execute_block sha iter K C W b ce;
          (rs, ce2) = execute_blocks_in_order sha iter K C W bs ce1
      in (r # rs, ce2))"

section \<open>Lemmas\<close>

lemma cdb_okD:
  assumes "cdb_ok K view"
  shows "omap_inv (view d)" "cdb_get K d k = Inr (map_of (view d) k)"
    "cdb_put K d k v = Inr d' \<Longrightarrow> view d' = omap_insert k v (view d)"
    "cdb_delete K d k = Inr d' \<Longrightarrow> view d' = omap_delete k (view d)"
  using assms by (auto simp: cdb_ok_def)

definition gas_ok :: "'db runtime_state \<Rightarrow> bool" where
  "gas_ok st \<longleftrightarrow> gas_used (rt_gas st) \<le> gas_cap (rt_gas st)"

lemma charge_state_ok:
  "charge_state n st = Some st' \<Longrightarrow> gas_ok st' \<and> gas_cap (rt_gas st') = gas_cap (rt_gas st)
     \<and> rt_storage st' = rt_storage st"
  by (auto simp: charge_state_def charge_def gas_ok_def split: if_splits)

lemma charge_state_enough:
  assumes "unat (gas_used (rt_gas st)) + unat n \<le> unat (gas_cap (rt_gas st))"
  shows "charge_state n st = Some (st\<lparr>rt_gas := (rt_gas st)\<lparr>gas_used := gas_used (rt_gas st) + n\<rparr>\<rparr>)"
    and "unat (gas_used (rt_gas st) + n) = unat (gas_used (rt_gas st)) + unat n"
proof -
  show u: "unat (gas_used (rt_gas st) + n) = unat (gas_used (rt_gas st)) + unat n"
    by (rule unat_add_no_overflow) (use assms unat_bound [of "gas_cap (rt_gas st)"] in simp)
  with assms show "charge_state n st = Some (st\<lparr>rt_gas := (rt_gas st)\<lparr>gas_used := gas_used (rt_gas st) + n\<rparr>\<rparr>)"
    by (simp add: charge_state_def charge_def word_less_nat_alt not_less)
qed

lemma as_usize_nonneg:
  assumes "unat p < 2 ^ 31"
  shows "unat (as_usize p) = unat p"
proof -
  have "unat p < 2147483648"
    using assms by simp
  then have u: "uint p < 2147483648"
    by (metis nat_less_iff of_nat_numeral uint_nat unsigned_greater_eq unat_eq_nat_uint nat_numeral)
  have "sint p = uint p"
    unfolding sint_uint
    by (rule signed_take_bit_int_eq_self) (use u in \<open>auto intro: order_trans [of _ 0]\<close>)
  then have e: "as_usize p = word_of_int (uint p)"
    by (simp only: as_usize_def scast_eq)
  have "uint p < 2 ^ 32"
    using uint_bounded [of p] by simp
  then have "uint p < 18446744073709551616"
    by simp
  then have "uint (word_of_int (uint p) :: u64) = uint p"
    by (simp only: uint_word_of_int) (simp add: mod_pos_pos_trivial)
  then show ?thesis
    by (simp only: e unat_eq_nat_uint)
qed

text \<open>A region of the memory that pointers can name.\<close>

definition region :: "bytes \<Rightarrow> i32 \<Rightarrow> i32 \<Rightarrow> bool" where
  "region data p n \<longleftrightarrow> unat p < 2 ^ 31 \<and> unat n < 2 ^ 31 \<and> unat p + unat n \<le> length data"

lemma region_end:
  assumes "region data p n"
  shows "unat (as_usize p + as_usize n) = unat p + unat n"
  using assms by (subst unat_add_no_overflow) (simp_all add: region_def as_usize_nonneg)

lemma region_slice:
  assumes "region data p n" and "length data < 2 ^ 32"
  shows "slice data (as_usize p) (as_usize p + as_usize n) = Some (take (unat n) (drop (unat p) data))"
    and "\<not> as_usize p + as_usize n > of_nat (length data)"
proof -
  have l: "unat (of_nat (length data) :: u64) = length data"
    using assms(2) by (intro unat_of_nat_small) simp
  show "\<not> as_usize p + as_usize n > of_nat (length data)"
    using assms(1) by (simp add: word_less_nat_alt region_end [OF assms(1)] l region_def)
  show "slice data (as_usize p) (as_usize p + as_usize n) = Some (take (unat n) (drop (unat p) data))"
    using assms(1) by (simp add: slice_def word_less_nat_alt region_end [OF assms(1)] as_usize_nonneg region_def)
qed

lemma copy_into_region:
  assumes "unat p < 2 ^ 31" and "unat p + length bs \<le> length data" and "length data < 2 ^ 32"
  shows "copy_into data (as_usize p) bs = Some (take (unat p) data @ bs @ drop (unat p + length bs) data)"
    and "\<not> as_usize p + of_nat (length bs) > of_nat (length data)"
proof -
  have l: "unat (of_nat (length data) :: u64) = length data" "unat (of_nat (length bs) :: u64) = length bs"
    using assms(2,3) by (auto intro!: unat_of_nat_small)
  have e: "unat (as_usize p + of_nat (length bs)) = unat p + length bs"
    using assms by (subst unat_add_no_overflow) (simp_all add: l as_usize_nonneg)
  show "\<not> as_usize p + of_nat (length bs) > of_nat (length data)"
    using assms(2) by (simp add: word_less_nat_alt e l)
  show "copy_into data (as_usize p) bs = Some (take (unat p) data @ bs @ drop (unat p + length bs) data)"
    using assms(1,2) by (simp add: copy_into_def Let_def word_less_nat_alt e as_usize_nonneg)
qed

lemma registry_key_inj [simp]: "make_registry_key a = make_registry_key b \<longleftrightarrow> a = b"
  by (simp add: make_registry_key_def)

lemma get_contract_view:
  "cdb_ok K view \<Longrightarrow> get_contract K C d a =
     (case map_of (view d) (make_registry_key a) of None \<Rightarrow> None | Some x \<Rightarrow> de_info C x)"
  by (simp add: get_contract_def cdb_okD split: option.split)

lemma deduct_fee_nonce:
  "deduct_fee sha iter a fee s = Inr s' \<Longrightarrow>
     acc_nonce (account_or_zero (state_tree s') x) = acc_nonce (account_or_zero (state_tree s) x)"
  by (auto simp: deduct_fee_def Let_def put_account_def account_or_zero_update account_new_def
      split: if_splits)

text \<open>What one transaction does to the coins in circulation.\<close>

abbreviation ce_supply :: "('rdb, 'db) contract_executor \<Rightarrow> nat" where
  "ce_supply ce \<equiv> circulating (leaves (state_tree (ce_state ce)))"

definition avoids_emission :: "transaction \<Rightarrow> bool" where
  "avoids_emission tx \<longleftrightarrow> tx_from tx \<noteq> EMISSION_STATE_ACCOUNT \<and>
     (case payload tx of Transfer to _ \<Rightarrow> to \<noteq> EMISSION_STATE_ACCOUNT | _ \<Rightarrow> True)"

lemma deduct_fee_supply:
  assumes "deduct_fee sha iter a fee s = Inr s'" and "a \<noteq> EMISSION_STATE_ACCOUNT"
  shows "circulating (leaves (state_tree s')) + unat fee = circulating (leaves (state_tree s))"
proof (cases "fee = 0")
  case True
  with assms(1) show ?thesis
    by (simp add: deduct_fee_def)
next
  case False
  let ?acc = "account_or_zero (state_tree s) a"
  from False assms(1) have le: "fee \<le> acc_balance ?acc"
    and s': "s' = put_account sha iter a (account_new (acc_balance ?acc - fee) (acc_nonce ?acc)) s"
    by (auto simp: deduct_fee_def Let_def not_less split: if_splits)
  show ?thesis
    using supply_update [OF assms(2), of "account_new (acc_balance ?acc - fee) (acc_nonce ?acc)" "state_tree s"]
      le by (simp add: s' account_new_def unat_sub word_le_nat_alt)
qed

lemma charge_contract_tx:
  assumes "deduct_fee sha iter (tx_from tx) fee s = Inr s'" and "state_inv s" and "avoids_emission tx"
  shows "state_inv s' \<and> circulating (leaves (state_tree s')) + unat fee = circulating (leaves (state_tree s))"
  using deduct_fee_inv [OF assms(2,1)] deduct_fee_supply [OF assms(1)] assms(3)
  by (auto simp: avoids_emission_def)

lemma execute_transaction_supply:
  assumes "execute_transaction sha iter K C W tx ce = (r, ce')"
    and "state_inv (ce_state ce)" and "avoids_emission tx"
  shows "state_inv (ce_state ce')" and "ce_supply ce' \<le> ce_supply ce"
    and "r = Inr used \<Longrightarrow> ce_supply ce' + unat (sat_mul used (gas_price tx)) = ce_supply ce"
proof -
  have "state_inv (ce_state ce') \<and> ce_supply ce' \<le> ce_supply ce \<and>
      (r = Inr used \<longrightarrow> ce_supply ce' + unat (sat_mul used (gas_price tx)) = ce_supply ce)"
  proof (cases "payload tx")
    case (Transfer to n)
    show ?thesis
    proof (cases "apply_transaction sha iter tx (ce_state ce)")
      case (Inl e)
      with assms(1,2) Transfer show ?thesis
        by (auto simp: execute_transaction_def)
    next
      case (Inr s)
      then have t: "apply_transfer sha iter (tx_from tx) to n (tx_nonce tx) (tx_fee tx) (ce_state ce) = Inr s"
        by (simp add: apply_transaction_def Transfer)
      from Inr assms(1) Transfer have r: "r = Inr (gas_limit tx)" "ce' = ce\<lparr>ce_state := s\<rparr>"
        by (auto simp: execute_transaction_def)
      have "circulating (leaves (state_tree s)) + unat (tx_fee tx) = ce_supply ce" "state_inv s"
        using transfer_circulating [OF t assms(2)] apply_transfer_inv [OF t assms(2)] assms(3) Transfer
        by (auto simp: avoids_emission_def)
      then show ?thesis
        by (auto simp: r tx_fee_def)
    qed
  next
    case (ContractDeploy code args)
    with assms(1) have "deploy_contract sha iter K C W tx code ce = (r, ce')"
      by (simp add: execute_transaction_def)
    with assms(2) show ?thesis
      by (auto simp: deploy_contract_def Let_def split: sum.splits if_splits
          dest!: charge_contract_tx [OF _ _ assms(3)])
  next
    case (ContractCall a m args)
    with assms(1) have "call_contract sha iter K C W tx a m ce = (r, ce')"
      by (simp add: execute_transaction_def)
    with assms(2) show ?thesis
      by (auto simp: call_contract_def Let_def split: sum.splits if_splits option.splits
          dest!: charge_contract_tx [OF _ _ assms(3)])
  qed
  then show "state_inv (ce_state ce')" "ce_supply ce' \<le> ce_supply ce"
    "r = Inr used \<Longrightarrow> ce_supply ce' + unat (sat_mul used (gas_price tx)) = ce_supply ce"
    by auto
qed

lemma execute_txs_supply:
  assumes "execute_txs sha iter K C W txs n fees ce = (r, ce')"
    and "state_inv (ce_state ce)" and "list_all avoids_emission txs"
    and "unat fees + ce_supply ce < 2 ^ 64"
  shows "state_inv (ce_state ce') \<and> new_state_root r = current_state_root (ce_state ce')
    \<and> n \<le> executed_transactions r \<and> executed_transactions r \<le> n + length txs
    \<and> (exec_success r \<longleftrightarrow> executed_transactions r = n + length txs)
    \<and> ce_supply ce' + unat (total_fees r) \<le> ce_supply ce + unat fees
    \<and> (exec_success r \<longrightarrow> ce_supply ce' + unat (total_fees r) = ce_supply ce + unat fees)"
  using assms
proof (induction txs arbitrary: n fees ce)
  case Nil
  then show ?case
    by auto
next
  case (Cons tx txs)
  obtain q ce1 where e: "execute_transaction sha iter K C W tx ce = (q, ce1)"
    by fastforce
  note s = execute_transaction_supply [OF e Cons.prems(2)]
  have a: "avoids_emission tx" "list_all avoids_emission txs"
    using Cons.prems(3) by auto
  show ?case
  proof (cases q)
    case (Inl x)
    with Cons.prems(1) e s(1,2) [OF a(1)] show ?thesis
      by auto
  next
    case (Inr used)
    let ?fees = "sat_add fees (sat_mul used (gas_price tx))"
    have c: "ce_supply ce1 + unat (sat_mul used (gas_price tx)) = ce_supply ce"
      using s(3) [OF a(1) Inr] .
    then have f: "unat ?fees = unat fees + unat (sat_mul used (gas_price tx))"
      using Cons.prems(4) by (simp add: unat_sat_add)
    have "execute_txs sha iter K C W txs (n + 1) ?fees ce1 = (r, ce')"
      using Cons.prems(1) e Inr by simp
    from Cons.IH [OF this s(1) [OF a(1)] a(2)] c f Cons.prems(4) show ?thesis
      by auto
  qed
qed

section \<open>Sample instances\<close>

text \<open>A database kept as the log of its writes, and a codec for one contract.\<close>

definition log_cdb_view :: "(bytes \<times> bytes option) list \<Rightarrow> (bytes \<times> bytes) list" where
  "log_cdb_view l =
     fold (\<lambda>(k, v) m. case v of None \<Rightarrow> omap_delete k m | Some x \<Rightarrow> omap_insert k x m) l []"

definition log_cdb :: "(bytes \<times> bytes option) list cdb" where
  "log_cdb =
     \<lparr>cdb_get = (\<lambda>d k. Inr (map_of (log_cdb_view d) k)), cdb_put = (\<lambda>d k v. Inr (d @ [(k, Some v)])),
      cdb_delete = (\<lambda>d k. Inr (d @ [(k, None)])),
      cdb_from = (\<lambda>d k. map Inr (filter (\<lambda>(k', v). k \<le> k') (log_cdb_view d)))\<rparr>"

lemma log_cdb_view_snoc:
  "log_cdb_view (l @ [(k, Some v)]) = omap_insert k v (log_cdb_view l)"
  "log_cdb_view (l @ [(k, None)]) = omap_delete k (log_cdb_view l)"
  by (simp_all add: log_cdb_view_def)

lemma log_cdb_view_inv: "omap_inv (log_cdb_view l)"
proof (induction l rule: rev_induct)
  case Nil
  show ?case by (simp add: log_cdb_view_def)
next
  case (snoc x l)
  then show ?case
    by (cases x; cases "snd x") (auto simp: log_cdb_view_snoc intro: omap_inv_insert omap_inv_delete)
qed

lemma log_cdb_ok: "cdb_ok log_cdb log_cdb_view"
  unfolding cdb_ok_def log_cdb_def by (simp add: log_cdb_view_inv log_cdb_view_snoc)

definition sample_info_codec :: info_codec where
  "sample_info_codec =
     \<lparr>ser_info = (\<lambda>i. if i = \<lparr>ci_address = replicate 20 7, ci_bytecode = [1], ci_metadata = []\<rparr>
        then Some [5] else None),
      de_info = (\<lambda>d. if d = [5]
        then Some \<lparr>ci_address = replicate 20 7, ci_bytecode = [1], ci_metadata = []\<rparr> else None)\<rparr>"

definition sample_runtime :: "(bytes \<times> bytes option) list runtime_state" where
  "sample_runtime =
     \<lparr>rt_contract = replicate 20 7, rt_caller = replicate 20 3, rt_block_height = 0, rt_timestamp = 0,
      rt_storage = [], rt_gas = gas_meter_new 100\<rparr>"

section \<open>Properties\<close>

text \<open>
  No host function lets a contract use more gas than its limit, whatever the arguments and
  the memory, also where the addition in the meter wraps.
\<close>

theorem host_functions_gas_bounded:
  assumes "gas_ok st"
  shows "gas_ok (fst (snd (storage_read K a b c st mem)))
    \<and> gas_ok (fst (snd (storage_write K a b c n st mem)))
    \<and> gas_ok (fst (snd (get_caller a st mem)))
    \<and> gas_ok (snd (host_block_height st)) \<and> gas_ok (snd (host_timestamp st))"
proof -
  have ok: "gas_ok st'" if "charge_state n st = Some st'" for n st'
    using charge_state_ok [OF that] by blast
  have upd: "gas_ok (st'\<lparr>rt_storage := d\<rparr>) = gas_ok st'" for st' :: "'a runtime_state" and d
    by (simp add: gas_ok_def)
  have "gas_ok (fst (snd (storage_read K a b c st mem)))"
    using assms ok [of 10] by (auto simp: storage_read_def Let_def split: option.split)
  moreover have "gas_ok (fst (snd (storage_write K a b c n st mem)))"
    using assms ok [of 20] by (auto simp: storage_write_def Let_def upd split: option.split)
  moreover have "gas_ok (fst (snd (get_caller a st mem)))"
    using assms ok [of 1] by (auto simp: get_caller_def Let_def split: option.split)
  ultimately show ?thesis
    using assms ok [of 1] by (auto simp: host_block_height_def host_timestamp_def split: option.split)
qed

theorem host_functions_gas_bounded_witness:
  "gas_ok (fst (snd (storage_write log_cdb 0 1 1 2 sample_runtime (Some [9, 8, 7, 6]))))"
  using host_functions_gas_bounded [of sample_runtime log_cdb 0 1 1 "Some [9, 8, 7, 6]" 2]
  by (simp add: gas_ok_def sample_runtime_def gas_meter_new_def)

text \<open>
  What a contract writes to storage it reads back: with enough gas, regions inside the
  memory and a database that takes the write, \<open>storage_write\<close> followed by \<open>storage_read\<close> of the
  same key copies the value to the output region and changes nothing else of the memory.
\<close>

theorem storage_write_read:
  assumes "cdb_ok K view" and "length mem < 2 ^ 32"
    and "region mem kp kn" and "region mem vp vn" and "region mem out vn"
    and "unat (gas_used (rt_gas st)) + 30 \<le> unat (gas_cap (rt_gas st))"
    and "cdb_put K (rt_storage st) (take (unat kn) (drop (unat kp) mem)) (take (unat vn) (drop (unat vp) mem)) = Inr d"
  shows "\<exists>st1 st2. storage_write K kp kn vp vn st (Some mem) = (Ret 0, st1, Some mem)
    \<and> storage_read K kp kn out st1 (Some mem) =
        (Ret (of_nat (unat vn)), st2,
         Some (take (unat out) mem @ take (unat vn) (drop (unat vp) mem) @ drop (unat out + unat vn) mem))"
proof -
  let ?key = "take (unat kn) (drop (unat kp) mem)" and ?val = "take (unat vn) (drop (unat vp) mem)"
  let ?g = "rt_gas st"
  have c20: "unat (gas_used ?g) + unat (20 :: u64) \<le> unat (gas_cap ?g)"
    using assms(6) by simp
  define st0 where "st0 = st\<lparr>rt_gas := ?g\<lparr>gas_used := gas_used ?g + 20\<rparr>\<rparr>"
  define st1 where "st1 = st0\<lparr>rt_storage := d\<rparr>"
  have w: "storage_write K kp kn vp vn st (Some mem) = (Ret 0, st1, Some mem)"
    using region_slice [OF assms(3,2)] region_slice [OF assms(4,2)] assms(7)
    by (simp add: storage_write_def charge_state_enough(1) [OF c20] st0_def [symmetric] st1_def Let_def
        storage_put_def) (simp add: st0_def)
  have "unat (gas_used (rt_gas st1)) + unat (10 :: u64) \<le> unat (gas_cap (rt_gas st1))"
    using assms(6) charge_state_enough(2) [OF c20] by (simp add: st1_def st0_def)
  note c10 = charge_state_enough(1) [OF this]
  have lv: "length ?val = unat vn"
    using assms(4) by (auto simp: region_def min_def)
  have "storage_get K d ?key = Some ?val"
    using cdb_okD(2) [OF assms(1)] cdb_okD(3) [OF assms(1,7)]
    by (simp add: storage_get_def map_of_omap_insert)
  then have r0: "storage_get K (rt_storage st1) ?key = Some ?val"
    by (simp add: st1_def)
  have o: "unat out < 2 ^ 31" "unat out + length ?val \<le> length mem"
    using assms(5) by (simp_all only: region_def lv)
  have "\<exists>st2. storage_read K kp kn out st1 (Some mem) = (Ret (of_nat (unat vn)), st2,
      Some (take (unat out) mem @ ?val @ drop (unat out + unat vn) mem))"
    using region_slice [OF assms(3,2)] copy_into_region [OF o assms(2)]
    by (simp add: storage_read_def c10 Let_def r0 lv del: length_take)
  with w show ?thesis
    by blast
qed

theorem storage_write_read_witness:
  "\<exists>st1 st2. storage_write log_cdb 0 1 1 2 sample_runtime (Some [9, 8, 7, 6, 5]) =
       (Ret 0, st1, Some [9, 8, 7, 6, 5])
     \<and> storage_read log_cdb 0 1 3 st1 (Some [9, 8, 7, 6, 5]) = (Ret 2, st2, Some [9, 8, 7, 8, 7])"
  using storage_write_read [OF log_cdb_ok, of "[9, 8, 7, 6, 5]" 0 1 1 2 3 sample_runtime]
  by (simp add: region_def sample_runtime_def gas_meter_new_def log_cdb_def Let_def)

text \<open>
  The bounds check of the host functions is computed with wrapping addition: a negative
  pointer passes it, and the slice then panics in the host instead of trapping the contract.
\<close>

theorem negative_pointer_panics:
  assumes "unat (gas_used (rt_gas st)) + 10 \<le> unat (gas_cap (rt_gas st))"
    and "1 \<le> length mem" and "length mem < 2 ^ 32"
  shows "fst (storage_read K (- 1) 2 out st (Some mem)) = Panic"
proof -
  have c: "unat (gas_used (rt_gas st)) + unat (10 :: u64) \<le> unat (gas_cap (rt_gas st))"
    using assms(1) by simp
  have m: "as_usize (- 1) = - 1" "as_usize 2 = 2"
    by (simp_all add: as_usize_def)
  have "unat (of_nat (length mem) :: u64) = length mem"
    using assms(3) by (intro unat_of_nat_small) simp
  then have "\<not> (1 :: u64) > of_nat (length mem)"
    using assms(2) by (simp add: word_less_nat_alt not_less Suc_le_eq del: unat_of_nat unsigned_of_nat)
  moreover have "(1 :: u64) < - 1"
    by code_simp
  then have "slice mem (- 1) 1 = None"
    by (simp add: slice_def)
  ultimately show ?thesis
    by (simp add: storage_read_def charge_state_enough(1) [OF c] m Let_def)
qed

theorem negative_pointer_panics_witness:
  "fst (storage_read log_cdb (- 1) 2 0 sample_runtime (Some [9, 8])) = Panic"
  by (rule negative_pointer_panics) (simp_all add: sample_runtime_def gas_meter_new_def)

text \<open>
  A registered contract is found with its code and empty metadata, every other contract is
  found as before, the same address cannot be registered again, and after deletion it is gone.
\<close>

theorem registry_roundtrip:
  assumes "cdb_ok K view" and "info_codec_ok C" and "register_contract K C a code d = Inr d'"
  shows "get_contract K C d' b =
      (if b = a then Some \<lparr>ci_address = a, ci_bytecode = code, ci_metadata = []\<rparr> else get_contract K C d b)
    \<and> register_contract K C a code' d' = Inl ContractExists
    \<and> contract_exists K d' a
    \<and> (\<forall>d''. delete_contract K a d' = Inr d'' \<longrightarrow>
        get_contract K C d'' b = (if b = a then None else get_contract K C d b))"
proof -
  let ?i = "\<lparr>ci_address = a, ci_bytecode = code, ci_metadata = []\<rparr>"
  from assms(3) obtain data where s: "ser_info C ?i = Some data"
    and p: "cdb_put K d (make_registry_key a) data = Inr d'"
    by (auto simp: register_contract_def split: if_splits option.splits sum.splits)
  have de: "de_info C data = Some ?i"
    using assms(2) s by (simp add: info_codec_ok_def)
  note v = cdb_okD(3) [OF assms(1) p]
  have get: "get_contract K C d' b = (if b = a then Some ?i else get_contract K C d b)" for b
    by (simp add: get_contract_view [OF assms(1)] v map_of_omap_insert de)
  moreover have "register_contract K C a code' d' = Inl ContractExists"
    by (simp add: register_contract_def get)
  moreover have "contract_exists K d' a"
    by (simp add: contract_exists_def cdb_okD(2) [OF assms(1)] v map_of_omap_insert)
  moreover have "get_contract K C d'' b = (if b = a then None else get_contract K C d b)"
    if "delete_contract K a d' = Inr d''" for d''
  proof -
    from that have "cdb_delete K d' (make_registry_key a) = Inr d''"
      by (auto simp: delete_contract_def split: sum.splits)
    from cdb_okD(4) [OF assms(1) this] show ?thesis
      by (simp add: get_contract_view [OF assms(1)] v map_of_omap_insert map_of_omap_delete)
  qed
  ultimately show ?thesis
    by blast
qed

theorem registry_roundtrip_witness:
  "\<exists>d'. register_contract log_cdb sample_info_codec (replicate 20 7) [1] [] = Inr d'
     \<and> contract_exists log_cdb d' (replicate 20 7)"
proof -
  have "\<exists>d'. register_contract log_cdb sample_info_codec (replicate 20 7) [1] [] = Inr d'"
    by (simp add: register_contract_def get_contract_def log_cdb_def log_cdb_view_def sample_info_codec_def)
  moreover have "info_codec_ok sample_info_codec"
    by (simp add: info_codec_ok_def sample_info_codec_def)
  ultimately show ?thesis
    using registry_roundtrip [OF log_cdb_ok] by blast
qed

text \<open>
  C9. Executing a block on a ledger that satisfies the state invariant, no transaction of which is sent
  from or to the emission tracker's address, keeps the invariant and accounts for every coin: whatever the
  contracts do, the coins in circulation and the fees reported add up to at most what was in
  circulation before, and to exactly that when the block succeeds, which it does when and only
  when every transaction was executed; the root reported is the root of the state reached.
\<close>

theorem execute_block_conserves:
  assumes "execute_block sha iter K C W b ce = (r, ce')"
    and "state_inv (ce_state ce)" and "list_all avoids_emission (transactions b)"
  shows "state_inv (ce_state ce') \<and> new_state_root r = calculate_root (state_tree (ce_state ce'))
    \<and> (exec_success r \<longleftrightarrow> executed_transactions r = length (transactions b))
    \<and> ce_supply ce' + unat (total_fees r) \<le> ce_supply ce
    \<and> (exec_success r \<longrightarrow> ce_supply ce' + unat (total_fees r) = ce_supply ce)"
proof -
  have "unat (0 :: u64) + ce_supply ce < 2 ^ 64"
    using assms(2) by (simp add: state_inv_def)
  from execute_txs_supply [OF assms(1) [unfolded execute_block_def] assms(2,3) this] show ?thesis
    by (auto simp: state_inv_def)
qed

definition idle_wasm :: "'db wasm" where
  "idle_wasm = \<lparr>wasm_deploy = (\<lambda>code rt. Inr (True, rt)), wasm_call = (\<lambda>code m rt. Inr (False, rt))\<rparr>"

definition sample_executor :: "((bytes \<times> bytes option) list, (bytes \<times> bytes option) list) contract_executor" where
  "sample_executor =
     \<lparr>ce_state = initialize_tokenomics sample_sha id (state_manager_new sample_sha id),
      ce_registry = [], ce_storage = []\<rparr>"

definition sample_call :: transaction where
  "sample_call =
     \<lparr>tx_from = GENESIS_WALLET, payload = ContractDeploy [1] [], tx_nonce = 0, gas_limit = 5, gas_price = 1,
      tx_signature = \<lparr>algorithm = Secp256k1, sig_data = []\<rparr>\<rparr>"

theorem execute_block_conserves_witness:
  "let (r, ce) = execute_block sample_sha id log_cdb sample_info_codec idle_wasm
       (sample_block [] 1\<lparr>transactions := [sample_call]\<rparr>) sample_executor
   in state_inv (ce_state ce) \<and> ce_supply ce + unat (total_fees r) \<le> ce_supply sample_executor"
proof -
  let ?b = "sample_block [] 1\<lparr>transactions := [sample_call]\<rparr>"
  obtain r ce where e: "execute_block sample_sha id log_cdb sample_info_codec idle_wasm ?b sample_executor = (r, ce)"
    by fastforce
  have "state_inv (ce_state sample_executor)"
    by (simp add: sample_executor_def initialized_state_inv)
  moreover have "list_all avoids_emission (transactions ?b)"
    using emission_not_genesis by (simp add: avoids_emission_def sample_call_def)
  ultimately show ?thesis
    using execute_block_conserves [OF e] by (simp add: e)
qed

text \<open>
  A contract transaction can be replayed: its nonce has no influence on what it does, and it
  leaves the nonce of every account as it was, the sender's included.
\<close>

theorem contract_transactions_replay:
  assumes "\<And>to amount. payload tx \<noteq> Transfer to amount"
    and "execute_transaction sha iter K C W tx ce = (r, ce')"
  shows "execute_transaction sha iter K C W (tx\<lparr>tx_nonce := n\<rparr>) ce = (r, ce')
    \<and> acc_nonce (account_or_zero (state_tree (ce_state ce')) a) =
        acc_nonce (account_or_zero (state_tree (ce_state ce)) a)"
proof (cases "payload tx")
  case (Transfer to amount)
  with assms(1) [of to amount] show ?thesis
    by simp
next
  case (ContractDeploy code args)
  with assms(2) show ?thesis
    by (auto simp: execute_transaction_def deploy_contract_def runtime_for_def Let_def deduct_fee_nonce
        split: sum.splits if_splits)
next
  case (ContractCall c m args)
  with assms(2) show ?thesis
    by (auto simp: execute_transaction_def call_contract_def runtime_for_def Let_def deduct_fee_nonce
        split: sum.splits if_splits option.splits)
qed

theorem contract_transactions_replay_witness:
  "execute_transaction sample_sha id log_cdb sample_info_codec idle_wasm sample_call sample_executor =
     execute_transaction sample_sha id log_cdb sample_info_codec idle_wasm (sample_call\<lparr>tx_nonce := 7\<rparr>) sample_executor"
proof -
  obtain r ce where e: "execute_transaction sample_sha id log_cdb sample_info_codec idle_wasm sample_call
      sample_executor = (r, ce)"
    by fastforce
  have "payload sample_call \<noteq> Transfer to n" for to n
    by (simp add: sample_call_def)
  from contract_transactions_replay [OF this e, of 7] e show ?thesis
    by simp
qed

end
