(* ===== verification/Node_Runtime.thy ===== *)
theory Node_Runtime
  imports Ghostdag Finality Block_Producer Pruning Contracts
begin

text \<open>
  The node that composes the components: \<^verbatim>\<open>src/src/node/node_runtime.rs\<close>.

  Every operation is a function on the record \<open>node_runtime\<close>; the parts that sit behind locks
  are taken one after the other, and an operation is one step here. External code is collected
  in the record \<open>node_env\<close>. A clock reading is an argument for each place that reads the
  clock, and \<open>w\<close> is the outcome of writing a block to the store, as in \<open>Block_Dag\<close>. The fields
  \<open>contract_registry\<close>, \<open>discovery_manager\<close> and \<open>state_sync_manager\<close> are handed to other parts of
  the program and no operation of this file reads them; they are left out.
\<close>

section \<open>State\<close>

record ('sk, 'pk, 'rs, 'rdb, 'sdb, 'p, 'bdb) node_env =
  ne_env :: env
  ne_enum :: "block_hash set \<Rightarrow> block_hash list"
  ne_txs :: "tx_map \<Rightarrow> tx_map"
  ne_leaves :: leaf_iter
  ne_secp :: "('sk, 'pk, 'rs) secp"
  ne_cdb :: "'rdb cdb"
  ne_info :: info_codec
  ne_wasm :: "'sdb wasm"
  ne_rocks :: "'bdb rocks"
  ne_codec :: codec
  ne_pick :: "(block_hash \<times> block) list \<Rightarrow> nat"
  ne_pdb :: "'p pdb"
  ne_pcodec :: prune_codec

record ('rdb, 'sdb, 'p, 'bdb) node_runtime =
  nr_blockdag :: block_dag
  nr_ghostdag :: ghostdag
  nr_state :: state_manager
  nr_mempool :: mempool
  nr_producer :: block_producer
  nr_finality :: finality_engine
  nr_executor :: "('rdb, 'sdb) contract_executor"
  nr_pruner :: "('p, 'bdb) pruner option"
  node_id :: address
  block_interval :: u64
  mining_enabled :: bool

datatype node_error =
    NodePanic | NodeGhost ghost_error | NodeDag dag_error | InvalidReward u64 u64
  | NodeState state_error | NodeFinality finality_error | NodeMempool mempool_error
  | PruningNotConfigured

section \<open>Operations\<close>

text \<open>
  \<open>new_with_config_and_db\<close>, given the databases it opens: \<open>v\<close> is the content of the block store
  on disk, \<open>rdb\<close> and \<open>sdb\<close> belong to the executor, \<open>pd\<close> and \<open>bs\<close> to the pruner.
\<close>

definition node_new ::
  "('sk, 'pk, 'rs, 'rdb, 'sdb, 'p, 'bdb) node_env \<Rightarrow> u64 \<Rightarrow> address \<Rightarrow> u64 \<Rightarrow> nat \<Rightarrow> nat
    \<Rightarrow> block_view \<Rightarrow> 'rdb \<Rightarrow> 'sdb \<Rightarrow> 'p \<Rightarrow> 'bdb store \<Rightarrow> ('rdb, 'sdb, 'p, 'bdb) node_runtime" where
  "node_new N now nid interval depth pool_size v rdb sdb pd bs =
     (let st = state_manager_new (sha256 (ne_env N)) (ne_leaves N) in
      \<lparr>nr_blockdag = block_dag_new v, nr_ghostdag = ghostdag_new 2, nr_state = st,
       nr_mempool = mempool_new pool_size 1,
       nr_producer = block_producer_new now nid 0 100 default_daa_config,
       nr_finality = finality_new depth,
       nr_executor = \<lparr>ce_state = st, ce_registry = rdb, ce_storage = sdb\<rparr>,
       nr_pruner = Some (pruner_new pd bs 100000 1000 1000),
       node_id = nid, block_interval = interval, mining_enabled = False\<rparr>)"

definition node_initialize ::
  "('sk, 'pk, 'rs, 'rdb, 'sdb, 'p, 'bdb) node_env \<Rightarrow> u64 \<Rightarrow> store_error option
    \<Rightarrow> ('rdb, 'sdb, 'p, 'bdb) node_runtime \<Rightarrow> ('rdb, 'sdb, 'p, 'bdb) node_runtime" where
  "node_initialize N now w nr =
     nr\<lparr>nr_blockdag := create_genesis_if_empty (ne_env N) now w (nr_blockdag nr),
        nr_state := initialize_tokenomics (sha256 (ne_env N)) (ne_leaves N) (nr_state nr)\<rparr>"

text \<open>\<open>snapshot_and_prune\<close>, whose result the node ignores.\<close>

definition snapshot_and_prune ::
  "('sk, 'pk, 'rs, 'rdb, 'sdb, 'p, 'bdb) node_env \<Rightarrow> u64 \<Rightarrow> u64 \<Rightarrow> state_manager \<Rightarrow> ('p, 'bdb) pruner
    \<Rightarrow> ('p, 'bdb) pruner" where
  "snapshot_and_prune N now height st pr =
     snd (maybe_prune (ne_rocks N) (ne_codec N) (ne_env N) (ne_pick N) (ne_pdb N) (ne_pcodec N)
       (ne_leaves N) height now st pr)"

definition node_execute_block ::
  "('sk, 'pk, 'rs, 'rdb, 'sdb, 'p, 'bdb) node_env \<Rightarrow> u64 \<Rightarrow> block \<Rightarrow> ('rdb, 'sdb, 'p, 'bdb) node_runtime
    \<Rightarrow> (node_error + unit) \<times> ('rdb, 'sdb, 'p, 'bdb) node_runtime" where
  "node_execute_block N now b nr =
     (let expected_reward = due_reward (ne_env N) (ne_enum N) (nr_blockdag nr) (nr_state nr)
            (length (transactions b)) in
      if expected_reward \<noteq> blk_reward b then (Inl (InvalidReward expected_reward (blk_reward b)), nr)
      else let (result, ex) = execute_block (sha256 (ne_env N)) (ne_leaves N) (ne_cdb N) (ne_info N)
                 (ne_wasm N) b (nr_executor nr);
               nr = nr\<lparr>nr_executor := ex\<rparr>
           in if \<not> exec_success result then (Inr (), nr)
              else let total_miner_credit = sat_add (sat_add 0 (blk_reward b)) (total_fees result) in
                case credit_account (sha256 (ne_env N)) (ne_leaves N) (producer b) total_miner_credit
                    (nr_state nr) of
                  Inl e \<Rightarrow> (Inl (NodeState e), nr)
                | Inr st \<Rightarrow>
                    let st = add_emitted_supply (sha256 (ne_env N)) (ne_leaves N)
                          (sat_add (blk_reward b) (total_fees result)) st;
                        height = of_nat (dag_block_count (nr_blockdag nr))
                    in (Inr (), nr\<lparr>nr_state := st,
                          nr_pruner := map_option (snapshot_and_prune N now height st) (nr_pruner nr)\<rparr>))"

text \<open>
  \<open>produce_block\<close> up to the annotated block: \<open>None\<close> when there is nothing to do or the producer
  refuses. \<open>t\<close> and \<open>now\<close> are the clock readings of \<open>create_block\<close>.
\<close>

definition prepare_block ::
  "('sk, 'pk, 'rs, 'rdb, 'sdb, 'p, 'bdb) node_env \<Rightarrow> u64 \<Rightarrow> u64 \<Rightarrow> ('rdb, 'sdb, 'p, 'bdb) node_runtime
    \<Rightarrow> (node_error + block option) \<times> ('rdb, 'sdb, 'p, 'bdb) node_runtime" where
  "prepare_block N t now nr =
     (if \<not> mining_enabled nr then (Inr None, nr)
      else if tx_count (nr_mempool nr) = 0 then (Inr None, nr)
      else case (next_difficulty (nr_blockdag nr), next_base_fee (nr_blockdag nr)) of
        (Some difficulty, Some base_fee) \<Rightarrow>
          (let nr = nr\<lparr>nr_mempool := set_base_fee base_fee (nr_mempool nr)\<rparr>;
               (r, bp) = create_block (ne_env N) (ne_enum N) (ne_txs N) t now difficulty base_fee
                 (nr_mempool nr) (nr_blockdag nr) (nr_state nr) (nr_producer nr);
               nr = nr\<lparr>nr_producer := bp\<rparr>
           in case r of
                Inl _ \<Rightarrow> (Inr None, nr)
              | Inr b \<Rightarrow>
                  (case annotate_block (ne_env N) (nr_blockdag nr) b
                      (attach_dag (nr_blockdag nr) (nr_ghostdag nr)) of
                     (Inl e, gd) \<Rightarrow> (Inl (NodeGhost e), nr\<lparr>nr_ghostdag := gd\<rparr>)
                   | (Inr b', gd) \<Rightarrow> (Inr (Some b'), nr\<lparr>nr_ghostdag := gd\<rparr>)))
      | _ \<Rightarrow> (Inl NodePanic, nr))"

text \<open>The rest of \<open>produce_block\<close>: insertion, cleaning of the pool, execution.\<close>

definition remove_all :: "(bytes \<Rightarrow> bytes) \<Rightarrow> transaction list \<Rightarrow> mempool \<Rightarrow> mempool" where
  "remove_all sha txs mp = fold (\<lambda>tx mp. snd (remove_transaction (tx_hash sha tx) mp)) txs mp"

definition commit_block ::
  "('sk, 'pk, 'rs, 'rdb, 'sdb, 'p, 'bdb) node_env \<Rightarrow> u64 \<Rightarrow> store_error option \<Rightarrow> u64 \<Rightarrow> block
    \<Rightarrow> ('rdb, 'sdb, 'p, 'bdb) node_runtime \<Rightarrow> (node_error + unit) \<times> ('rdb, 'sdb, 'p, 'bdb) node_runtime" where
  "commit_block N now w pnow b nr =
     (case insert_block (ne_env N) now w b (nr_blockdag nr) of
        Inl e \<Rightarrow> (Inl (NodeDag e), nr)
      | Inr d \<Rightarrow>
          node_execute_block N pnow b
            (nr\<lparr>nr_blockdag := d, nr_ghostdag := attach_dag d (nr_ghostdag nr),
                nr_mempool := remove_all (sha256 (ne_env N)) (transactions b) (nr_mempool nr)\<rparr>))"

definition produce_block ::
  "('sk, 'pk, 'rs, 'rdb, 'sdb, 'p, 'bdb) node_env \<Rightarrow> u64 \<Rightarrow> u64 \<Rightarrow> u64 \<Rightarrow> store_error option \<Rightarrow> u64
    \<Rightarrow> ('rdb, 'sdb, 'p, 'bdb) node_runtime \<Rightarrow> (node_error + unit) \<times> ('rdb, 'sdb, 'p, 'bdb) node_runtime" where
  "produce_block N t now now2 w pnow nr =
     (case prepare_block N t now nr of
        (Inl e, nr1) \<Rightarrow> (Inl e, nr1)
      | (Inr None, nr1) \<Rightarrow> (Inr (), nr1)
      | (Inr (Some b), nr1) \<Rightarrow> commit_block N now2 w pnow b nr1)"

definition check_finality ::
  "('rdb, 'sdb, 'p, 'bdb) node_runtime \<Rightarrow> (node_error + unit) \<times> ('rdb, 'sdb, 'p, 'bdb) node_runtime" where
  "check_finality nr =
     (if dag_store (nr_blockdag nr) = [] then (Inr (), nr)
      else let nr = nr\<lparr>nr_ghostdag := attach_dag (nr_blockdag nr) (nr_ghostdag nr)\<rparr> in
        case generate_ordering (nr_ghostdag nr) of
          Inl CountUnderflow \<Rightarrow> (Inl NodePanic, nr)
        | Inl _ \<Rightarrow> (Inr (), nr)
        | Inr _ \<Rightarrow>
            (case compute_finality (nr_blockdag nr) (nr_finality nr) of
               (Inl e, fe) \<Rightarrow> (Inl (NodeFinality e), nr\<lparr>nr_finality := fe\<rparr>)
             | (Inr _, fe) \<Rightarrow> (Inr (), nr\<lparr>nr_finality := fe\<rparr>)))"

definition node_add_transaction ::
  "('sk, 'pk, 'rs, 'rdb, 'sdb, 'p, 'bdb) node_env \<Rightarrow> u64 \<Rightarrow> u64 \<Rightarrow> transaction
    \<Rightarrow> ('rdb, 'sdb, 'p, 'bdb) node_runtime \<Rightarrow> (node_error + unit) \<times> ('rdb, 'sdb, 'p, 'bdb) node_runtime" where
  "node_add_transaction N now now' tx nr =
     (case validate_transaction (sha256 (ne_env N)) (ne_secp N) tx of
        Inl e \<Rightarrow> (Inl (NodeMempool e), nr)
      | Inr _ \<Rightarrow>
          (let (r, mp) = add_transaction (sha256 (ne_env N)) (ne_txs N) (nr_state nr) now now' tx [] None
                 (nr_mempool nr)
           in (map_sum NodeMempool id r, nr\<lparr>nr_mempool := mp\<rparr>)))"

definition start_mining :: "('rdb, 'sdb, 'p, 'bdb) node_runtime \<Rightarrow> ('rdb, 'sdb, 'p, 'bdb) node_runtime" where
  "start_mining nr = nr\<lparr>mining_enabled := True\<rparr>"

definition stop_mining :: "('rdb, 'sdb, 'p, 'bdb) node_runtime \<Rightarrow> ('rdb, 'sdb, 'p, 'bdb) node_runtime" where
  "stop_mining nr = nr\<lparr>mining_enabled := False\<rparr>"

text \<open>\<open>prune_storage\<close> ignores the outcome of pruning and returns its argument.\<close>

definition prune_storage ::
  "('sk, 'pk, 'rs, 'rdb, 'sdb, 'p, 'bdb) node_env \<Rightarrow> u64 \<Rightarrow> nat \<Rightarrow> ('rdb, 'sdb, 'p, 'bdb) node_runtime
    \<Rightarrow> (node_error + nat) \<times> ('rdb, 'sdb, 'p, 'bdb) node_runtime" where
  "prune_storage N now window nr =
     (case nr_pruner nr of
        None \<Rightarrow> (Inl PruningNotConfigured, nr)
      | Some pr \<Rightarrow>
          (Inr window, nr\<lparr>nr_pruner := Some (snapshot_and_prune N now (200000 + of_nat window) (nr_state nr) pr)\<rparr>))"

definition node_get_balance :: "('rdb, 'sdb, 'p, 'bdb) node_runtime \<Rightarrow> address \<Rightarrow> u64" where
  "node_get_balance nr a = get_balance (nr_state nr) a"

definition node_get_nonce :: "('rdb, 'sdb, 'p, 'bdb) node_runtime \<Rightarrow> address \<Rightarrow> u64" where
  "node_get_nonce nr a =
     (case tree_get (state_tree (nr_state nr)) a of None \<Rightarrow> 0 | Some acc \<Rightarrow> acc_nonce acc)"

definition get_finality_height :: "('rdb, 'sdb, 'p, 'bdb) node_runtime \<Rightarrow> u64 option" where
  "get_finality_height nr = get_finalization_height (nr_finality nr)"

definition node_validate_transaction ::
  "('sk, 'pk, 'rs, 'rdb, 'sdb, 'p, 'bdb) node_env \<Rightarrow> tx_id \<Rightarrow> ('rdb, 'sdb, 'p, 'bdb) node_runtime \<Rightarrow> bool" where
  "node_validate_transaction N h nr =
     (if map_of (mp_transactions (nr_mempool nr)) h \<noteq> None then True
      else \<exists>b \<in> set (map snd (dag_store (nr_blockdag nr))).
        \<exists>tx \<in> set (transactions b). tx_hash (sha256 (ne_env N)) tx = h)"

section \<open>Runs\<close>

text \<open>
  What happens to a node: initialisation, the two timers of \<open>run\<close> and the calls that the RPC and
  command line make, in any order. A produced block is inserted under a hash that no stored
  block has; \<open>produce_fresh\<close> says so of the block that the call is going to insert.
\<close>

definition produce_fresh ::
  "('sk, 'pk, 'rs, 'rdb, 'sdb, 'p, 'bdb) node_env \<Rightarrow> u64 \<Rightarrow> u64 \<Rightarrow> ('rdb, 'sdb, 'p, 'bdb) node_runtime \<Rightarrow> bool" where
  "produce_fresh N t now nr \<longleftrightarrow>
     (case fst (prepare_block N t now nr) of
        Inr (Some b) \<Rightarrow> hash_fresh (ne_env N) (nr_blockdag nr) b \<and>
          Suc (length (dag_store (nr_blockdag nr))) < 2 ^ 64
      | _ \<Rightarrow> True)"

inductive node_step ::
  "('sk, 'pk, 'rs, 'rdb, 'sdb, 'p, 'bdb) node_env \<Rightarrow> ('rdb, 'sdb, 'p, 'bdb) node_runtime
    \<Rightarrow> ('rdb, 'sdb, 'p, 'bdb) node_runtime \<Rightarrow> bool" for N where
  initialize: "node_step N nr (node_initialize N now w nr)"
| produce: "produce_fresh N t now nr \<Longrightarrow> node_step N nr (snd (produce_block N t now now2 w pnow nr))"
| finality: "node_step N nr (snd (check_finality nr))"
| submit: "node_step N nr (snd (node_add_transaction N now now' tx nr))"
| start: "node_step N nr (start_mining nr)"
| stop: "node_step N nr (stop_mining nr)"
| prune: "node_step N nr (snd (prune_storage N now window nr))"


section \<open>Blocks the node produces are never executed\<close>

text \<open>An account that cannot pay makes the coinbase, the first transaction of a block, fail.\<close>

lemma unfunded_coinbase:
  assumes "acc_balance (account_or_zero (state_tree (ce_state ce)) (replicate 20 0)) = 0"
  shows "exec_success (fst (execute_txs sha iter K C W (coinbase pid r # txs) n fees ce)) = False
    \<and> snd (execute_txs sha iter K C W (coinbase pid r # txs) n fees ce) = ce"
proof -
  have "\<exists>e. apply_transaction sha iter (coinbase pid r) (ce_state ce) = Inl e"
    using assms by (auto simp: coinbase_def new_transfer_def apply_transaction_def apply_transfer_def
        Let_def tx_fee_def word_gt_0)
  then show ?thesis
    by (auto simp: execute_transaction_def coinbase_def new_transfer_def)
qed

abbreviation unfunded :: "('rdb, 'sdb, 'p, 'bdb) node_runtime \<Rightarrow> bool" where
  "unfunded nr \<equiv> acc_balance (account_or_zero (state_tree (ce_state (nr_executor nr))) (replicate 20 0)) = 0"

lemma node_execute_block_unfunded:
  assumes "unfunded nr" and "transactions b = coinbase pid r # txs"
  shows "snd (node_execute_block N now b nr) = nr"
  using unfunded_coinbase [OF assms(1)] assms(2)
  by (auto simp: node_execute_block_def execute_block_def Let_def case_prod_unfold)

text \<open>What preparing a block touches, and what the prepared block is.\<close>

lemma prepare_block_frame:
  assumes "prepare_block N t now nr = (r, nr1)"
  shows "nr_blockdag nr1 = nr_blockdag nr \<and> nr_state nr1 = nr_state nr \<and> nr_executor nr1 = nr_executor nr
    \<and> nr_pruner nr1 = nr_pruner nr \<and> nr_finality nr1 = nr_finality nr \<and> node_id nr1 = node_id nr
    \<and> (\<exists>fee. nr_mempool nr1 = set_base_fee fee (nr_mempool nr))
    \<and> producer_id (nr_producer nr1) = producer_id (nr_producer nr)"
proof -
  have same: "\<exists>fee. nr_mempool nr = set_base_fee fee (nr_mempool nr)"
    by (intro exI [of _ "current_base_fee (nr_mempool nr)"]) (simp add: set_base_fee_def)
  have "producer_id (snd (create_block E enum iter t now df fee mp d st bp)) = producer_id bp"
    for E enum iter df fee mp d st and bp :: block_producer
    by (auto simp: create_block_def Let_def split: sum.split)
  then show ?thesis
    using assms same
    by (auto simp: prepare_block_def Let_def case_prod_unfold split: if_splits option.splits sum.splits)
qed

lemma prepare_blockE:
  assumes "prepare_block N t now nr = (Inr (Some b), nr1)"
  obtains b0 difficulty fee gd gd' where
    "create_block (ne_env N) (ne_enum N) (ne_txs N) t now difficulty fee (set_base_fee fee (nr_mempool nr))
       (nr_blockdag nr) (nr_state nr) (nr_producer nr) = (Inr b0, nr_producer nr1)"
    "annotate_block (ne_env N) (nr_blockdag nr) b0 (attach_dag (nr_blockdag nr) gd) = (Inr b, gd')"
    "nr_mempool nr1 = set_base_fee fee (nr_mempool nr)"
  using assms
  by (auto simp: prepare_block_def Let_def split: if_splits option.splits sum.splits prod.splits)

lemma annotate_block_same:
  assumes "annotate_block E d b gd = (Inr b', gd')"
  shows "transactions b' = transactions b \<and> parents b' = parents b"
  using assms by (auto simp: annotate_block_def Let_def split: prod.splits sum.splits if_splits)

lemma prepared_transactions:
  assumes "prepare_block N t now nr = (Inr (Some b), nr1)"
  shows "\<exists>r txs. transactions b = coinbase (producer_id (nr_producer nr)) r # txs
    \<and> mset txs = mset (get_pending_transactions (ne_txs N) (nr_mempool nr) (nr_producer nr))"
proof -
  obtain b0 difficulty fee gd gd' where
    c: "create_block (ne_env N) (ne_enum N) (ne_txs N) t now difficulty fee (set_base_fee fee (nr_mempool nr))
       (nr_blockdag nr) (nr_state nr) (nr_producer nr) = (Inr b0, nr_producer nr1)"
    and a: "annotate_block (ne_env N) (nr_blockdag nr) b0 (attach_dag (nr_blockdag nr) gd) = (Inr b, gd')"
    using prepare_blockE [OF assms] .
  obtain txs where txs: "candidate_transactions (ne_txs N) fee (set_base_fee fee (nr_mempool nr)) (nr_producer nr) = Inr txs"
    and b0: "transactions b0 = coinbase (producer_id (nr_producer nr))
      (due_reward (ne_env N) (ne_enum N) (nr_blockdag nr) (nr_state nr) (length txs)) # txs"
    by (rule create_blockE [OF c]) simp
  have "get_pending_transactions (ne_txs N) (set_base_fee fee (nr_mempool nr)) (nr_producer nr) =
      get_pending_transactions (ne_txs N) (nr_mempool nr) (nr_producer nr)"
    by (simp add: get_pending_transactions_def get_ready_transactions_def set_base_fee_def)
  with candidate_transactions_spec(1) [OF txs] annotate_block_same [OF a] b0 show ?thesis
    by auto
qed

lemma commit_block_unfunded:
  assumes "unfunded nr" and "transactions b = coinbase pid r # txs"
  shows "snd (commit_block N now w pnow b nr) =
    (case insert_block (ne_env N) now w b (nr_blockdag nr) of
       Inl _ \<Rightarrow> nr
     | Inr d \<Rightarrow> nr\<lparr>nr_blockdag := d, nr_ghostdag := attach_dag d (nr_ghostdag nr),
                   nr_mempool := remove_all (sha256 (ne_env N)) (transactions b) (nr_mempool nr)\<rparr>)"
  using assms by (auto simp: commit_block_def node_execute_block_unfunded split: sum.split)

lemma produce_block_cases:
  assumes "unfunded nr"
  obtains (idle) nr1 r where "snd (produce_block N t now now2 w pnow nr) = nr1"
      "prepare_block N t now nr = (r, nr1)"
    | (inserted) b d nr1 where "prepare_block N t now nr = (Inr (Some b), nr1)"
      "insert_block (ne_env N) now2 w b (nr_blockdag nr) = Inr d"
      "snd (produce_block N t now now2 w pnow nr) = nr1\<lparr>nr_blockdag := d,
         nr_ghostdag := attach_dag d (nr_ghostdag nr1),
         nr_mempool := remove_all (sha256 (ne_env N)) (transactions b) (nr_mempool nr1)\<rparr>"
proof -
  obtain r nr1 where p: "prepare_block N t now nr = (r, nr1)"
    by force
  note f = prepare_block_frame [OF p]
  show ?thesis
  proof (cases "\<exists>b. r = Inr (Some b)")
    case True
    then obtain b where b: "r = Inr (Some b)"
      by blast
    obtain r' txs where t: "transactions b = coinbase (producer_id (nr_producer nr)) r' # txs"
      using prepared_transactions [OF p [unfolded b]] by blast
    have u: "unfunded nr1"
      using f assms by simp
    have c: "snd (commit_block N now2 w pnow b nr1) =
        (case insert_block (ne_env N) now2 w b (nr_blockdag nr) of
           Inl _ \<Rightarrow> nr1
         | Inr d \<Rightarrow> nr1\<lparr>nr_blockdag := d, nr_ghostdag := attach_dag d (nr_ghostdag nr1),
             nr_mempool := remove_all (sha256 (ne_env N)) (transactions b) (nr_mempool nr1)\<rparr>)"
      using commit_block_unfunded [OF u t, of N now2 w pnow] f by simp
    show ?thesis
      using c p b by (cases "insert_block (ne_env N) now2 w b (nr_blockdag nr)")
        (auto simp: produce_block_def intro: idle inserted)
  next
    case False
    then have "snd (produce_block N t now now2 w pnow nr) = nr1"
      using p by (auto simp: produce_block_def split: sum.split option.split)
    then show ?thesis
      using p by (rule idle)
  qed
qed

lemma produce_block_frozen:
  assumes "unfunded nr"
  shows "nr_state (snd (produce_block N t now now2 w pnow nr)) = nr_state nr
    \<and> nr_executor (snd (produce_block N t now now2 w pnow nr)) = nr_executor nr"
  by (rule produce_block_cases [OF assms, of N t now now2 w pnow])
    (auto dest!: prepare_block_frame)

lemma initialize_tokenomics_twice:
  "initialize_tokenomics sha iter (initialize_tokenomics sha iter (state_manager_new sha iter)) =
     initialize_tokenomics sha iter (state_manager_new sha iter)"
proof -
  let ?s = "initialize_tokenomics sha iter (state_manager_new sha iter)"
  have "tree_get (state_tree ?s) GENESIS_WALLET = Some (account_new 100000000 0)"
    "tree_get (state_tree ?s) EMISSION_STATE_ACCOUNT = Some (account_new 0 0)"
    using emission_not_genesis by (auto simp: tree_get_def initialized_state)
  moreover have "current_state_root ?s = calculate_root (state_tree ?s)"
    using initialized_state_inv [of sha iter] by (simp add: state_inv_def)
  ultimately show ?thesis
    by (subst initialize_tokenomics_def) (simp add: Let_def account_or_zero_def account_new_def)
qed

section \<open>Invariant\<close>

text \<open>The ledger is as created or as initialised, the executor's ledger as created.\<close>

definition ledger_frozen ::
  "('sk, 'pk, 'rs, 'rdb, 'sdb, 'p, 'bdb) node_env \<Rightarrow> ('rdb, 'sdb, 'p, 'bdb) node_runtime \<Rightarrow> bool" where
  "ledger_frozen N nr \<longleftrightarrow>
     (let st = state_manager_new (sha256 (ne_env N)) (ne_leaves N) in
      nr_state nr \<in> {st, initialize_tokenomics (sha256 (ne_env N)) (ne_leaves N) st}
      \<and> ce_state (nr_executor nr) = st)"

definition node_inv ::
  "('sk, 'pk, 'rs, 'rdb, 'sdb, 'p, 'bdb) node_env \<Rightarrow> ('rdb, 'sdb, 'p, 'bdb) node_runtime \<Rightarrow> bool" where
  "node_inv N nr \<longleftrightarrow>
     dag_inv (ne_env N) (nr_blockdag nr) \<and> mp_inv (sha256 (ne_env N)) (nr_mempool nr)
     \<and> ledger_frozen N nr \<and> length (producer_id (nr_producer nr)) = 20 \<and> fe_k (nr_finality nr) = 8"

definition node_env_ok :: "('sk, 'pk, 'rs, 'rdb, 'sdb, 'p, 'bdb) node_env \<Rightarrow> bool" where
  "node_env_ok N \<longleftrightarrow> sha_len (sha256 (ne_env N)) \<and> enumerates (ne_enum N) \<and> tx_iterates (ne_txs N)"

lemma new_state_unfunded:
  "acc_balance (account_or_zero (state_tree (state_manager_new sha iter)) (replicate 20 0)) = 0"
  by (simp add: account_or_zero_def tree_get_def initial_state account_new_def)

lemma frozen_unfunded: "ledger_frozen N nr \<Longrightarrow> unfunded nr"
  by (simp add: ledger_frozen_def Let_def new_state_unfunded)

lemma node_inv_unfunded: "node_inv N nr \<Longrightarrow> unfunded nr"
  using frozen_unfunded [of N nr] by (simp add: node_inv_def)

lemma select_loop_mem: "fst (select_loop ps best s e) \<in> insert best (set ps)"
proof (induction ps arbitrary: best s e)
  case (Cons p ps)
  obtain x e' where "score_or_0 p e = (x, e')"
    by force
  with Cons.IH [of p x e'] Cons.IH [of best s e'] show ?case
    by auto
qed simp

lemma selected_parent_mem:
  assumes "select_parent_from_parents ps e = (Inr p, e')"
  shows "p \<in> set ps"
proof (cases ps)
  case Nil
  with assms show ?thesis
    by (simp add: select_parent_from_parents_def)
next
  case (Cons q rest)
  obtain s e1 where s: "score_or_0 q e = (s, e1)"
    by force
  have "p = fst (select_loop rest q s e1)"
    using assms by (auto simp: select_parent_from_parents_def Cons s split: prod.splits)
  with select_loop_mem [of rest q s e1] show ?thesis
    by (simp add: Cons)
qed

lemma annotate_block_wf:
  assumes "block_wf b" and "annotate_block E d b gd = (Inr b', gd')"
  shows "block_wf b'"
proof -
  obtain sel score height topo where b': "b' = set_consensus_metadata E sel score height topo b"
    and sel: "\<And>p. sel = Some p \<Longrightarrow> p \<in> set (parents b)"
    using assms(2) by (fastforce simp: annotate_block_def Let_def
        split: prod.splits sum.splits if_splits dest: selected_parent_mem)
  show ?thesis
    unfolding b' using assms(1) sel by (intro block_wf_metadata) (auto simp: block_wf_def)
qed

lemma tips_wf:
  assumes "dag_inv E d" and "sha_len (sha256 E)" and "enumerates enum" and "p \<in> set (get_tips enum (dag_idx d))"
  shows "length p = 32"
proof -
  have "finite (tips (dag_idx d))"
    using dag_invD(3) [OF assms(1)] by (simp add: index_ok_def)
  then have "p \<in> fst ` set (dag_store d)"
    using assms(3,4) dag_invD(3) [OF assms(1)] by (auto simp: get_tips_def enumerates_set index_ok_def)
  then obtain b where "(p, b) \<in> set (dag_store d)"
    by auto
  then have "p = calculate_hash E b"
    using dag_invD(5) [OF assms(1), of b] view_okD(1) [OF dag_invD(1) [OF assms(1)]] by force
  then show ?thesis
    by (simp add: calculate_hash_length assms(2))
qed

lemma prepared_block_wf:
  assumes "node_inv N nr" and "node_env_ok N" and "prepare_block N t now nr = (Inr (Some b), nr1)"
  shows "block_wf b"
proof -
  obtain b0 difficulty fee gd gd' where
    c: "create_block (ne_env N) (ne_enum N) (ne_txs N) t now difficulty fee (set_base_fee fee (nr_mempool nr))
       (nr_blockdag nr) (nr_state nr) (nr_producer nr) = (Inr b0, nr_producer nr1)"
    and a: "annotate_block (ne_env N) (nr_blockdag nr) b0 (attach_dag (nr_blockdag nr) gd) = (Inr b, gd')"
    using prepare_blockE [OF assms(3)] .
  obtain txs where b0: "b0 = block_new (ne_env N) (get_tips (ne_enum N) (dag_idx (nr_blockdag nr))) t txs
      (bp_nonce (nr_producer nr)) difficulty fee (producer_id (nr_producer nr)) (replicate 32 0)"
    by (rule create_blockE [OF c]) simp
  have "block_wf b0"
    using assms(1,2) tips_wf [of "ne_env N" "nr_blockdag nr" "ne_enum N"]
    by (auto simp: node_inv_def node_env_ok_def block_wf_def b0)
  from annotate_block_wf [OF this a] show ?thesis .
qed

lemma remove_all_inv:
  assumes "tx_iterates iter" and "mp_inv sha mp"
  shows "mp_inv sha (remove_all sha txs mp)"
  using assms(2) unfolding remove_all_def
  by (induction txs arbitrary: mp) (auto intro: mp_step_inv [OF mp_step.remove assms(1)])

lemma map_of_remove_all:
  "map_of (mp_transactions (remove_all sha txs mp)) h =
     (if h \<in> tx_hash sha ` set txs then None else map_of (mp_transactions mp) h)"
  unfolding remove_all_def
  by (induction txs arbitrary: mp) (auto simp: removed_children_never_refreshed map_of_hm_delete)

lemma produce_block_inv:
  assumes "node_inv N nr" and N: "node_env_ok N" and "produce_fresh N t now nr"
  shows "node_inv N (snd (produce_block N t now now2 w pnow nr))"
proof (rule produce_block_cases [OF node_inv_unfunded [OF assms(1)], of N t now now2 w pnow])
  have iter: "tx_iterates (ne_txs N)"
    using N by (simp add: node_env_ok_def)
  have pool: "mp_inv (sha256 (ne_env N)) (set_base_fee fee (nr_mempool nr))" for fee
    using assms(1) by (auto simp: node_inv_def intro: mp_step_inv [OF mp_step.base_fee iter])
  {
    fix nr1 r
    assume "snd (produce_block N t now now2 w pnow nr) = nr1" and "prepare_block N t now nr = (r, nr1)"
    with prepare_block_frame [of N t now nr r nr1] assms(1) pool show ?thesis
      by (auto simp: node_inv_def ledger_frozen_def Let_def)
  }
  fix b d nr1
  assume p: "prepare_block N t now nr = (Inr (Some b), nr1)"
    and i: "insert_block (ne_env N) now2 w b (nr_blockdag nr) = Inr d"
    and r: "snd (produce_block N t now now2 w pnow nr) = nr1\<lparr>nr_blockdag := d,
         nr_ghostdag := attach_dag d (nr_ghostdag nr1),
         nr_mempool := remove_all (sha256 (ne_env N)) (transactions b) (nr_mempool nr1)\<rparr>"
  have fr: "hash_fresh (ne_env N) (nr_blockdag nr) b" "Suc (length (dag_store (nr_blockdag nr))) < 2 ^ 64"
    using assms(3) by (simp_all add: produce_fresh_def p)
  have "dag_inv (ne_env N) (nr_blockdag nr)"
    using assms(1) by (simp add: node_inv_def)
  from insert_block_inv [OF this prepared_block_wf [OF assms(1) N p] fr i]
  have "dag_inv (ne_env N) d" .
  moreover obtain fee where "nr_mempool nr1 = set_base_fee fee (nr_mempool nr)"
    using prepare_block_frame [OF p] by blast
  then have "mp_inv (sha256 (ne_env N)) (remove_all (sha256 (ne_env N)) (transactions b) (nr_mempool nr1))"
    using remove_all_inv [OF iter pool] by simp
  ultimately show ?thesis
    using prepare_block_frame [OF p] assms(1) by (simp add: r node_inv_def ledger_frozen_def)
qed

lemma check_finality_frame:
  "nr_blockdag (snd (check_finality nr)) = nr_blockdag nr \<and> nr_mempool (snd (check_finality nr)) = nr_mempool nr
   \<and> nr_state (snd (check_finality nr)) = nr_state nr \<and> nr_executor (snd (check_finality nr)) = nr_executor nr
   \<and> nr_producer (snd (check_finality nr)) = nr_producer nr"
  by (auto simp: check_finality_def Let_def split: sum.split ghost_error.split prod.split)

lemma check_finality_k:
  assumes "dag_inv E (nr_blockdag nr)"
  shows "fe_k (nr_finality (snd (check_finality nr))) = fe_k (nr_finality nr)"
proof (cases "dag_store (nr_blockdag nr) = []")
  case False
  from compute_finality_ok [OF assms False, of "nr_finality nr"] obtain fe1 where
    "compute_finality (nr_blockdag nr) (nr_finality nr) = (Inr (), calculate_score_based_finality fe1)"
    "fe_k fe1 = fe_k (nr_finality nr)"
    by blast
  then show ?thesis
    by (auto simp: check_finality_def Let_def calculate_score_based_finality_def
        split: sum.split ghost_error.split)
qed (simp add: check_finality_def)

lemma node_add_transaction_frame:
  "\<exists>mp. snd (node_add_transaction N now now' tx nr) = nr\<lparr>nr_mempool := mp\<rparr>
    \<and> (mp = nr_mempool nr \<or> mp_step (sha256 (ne_env N)) (ne_txs N) (nr_mempool nr) mp)"
  by (auto simp: node_add_transaction_def Let_def case_prod_unfold split: sum.split
      intro: exI [of _ "nr_mempool nr"] mp_step.add)

lemma prune_storage_frame:
  "\<exists>pr. snd (prune_storage N now window nr) = nr\<lparr>nr_pruner := pr\<rparr>"
  by (auto simp: prune_storage_def intro: exI [of _ None] split: option.split)

lemma initialize_frozen:
  assumes "ledger_frozen N nr"
  shows "ledger_frozen N (node_initialize N now w nr)"
  using assms by (auto simp: ledger_frozen_def node_initialize_def Let_def initialize_tokenomics_twice)

lemma node_step_frozen:
  assumes "node_step N nr nr'" and "ledger_frozen N nr"
  shows "ledger_frozen N nr'"
  using assms(1)
proof (cases rule: node_step.cases)
  case (initialize now w)
  with initialize_frozen [OF assms(2)] show ?thesis
    by simp
next
  case (produce t now now2 w pnow)
  with produce_block_frozen [OF frozen_unfunded [OF assms(2)], of N t now now2 w pnow] assms(2) show ?thesis
    by (simp add: ledger_frozen_def)
next
  case finality
  with check_finality_frame [of nr] assms(2) show ?thesis
    by (simp add: ledger_frozen_def)
next
  case (submit now now' tx)
  with node_add_transaction_frame [of N now now' tx nr] assms(2) show ?thesis
    by (auto simp: ledger_frozen_def Let_def)
next
  case (prune now window)
  with prune_storage_frame [of N now window nr] assms(2) show ?thesis
    by (auto simp: ledger_frozen_def Let_def)
qed (use assms(2) in \<open>simp_all add: start_mining_def stop_mining_def ledger_frozen_def\<close>)

lemma node_run_frozen:
  "(node_step N)\<^sup>*\<^sup>* nr nr' \<Longrightarrow> ledger_frozen N nr \<Longrightarrow> ledger_frozen N nr'"
  by (induction rule: rtranclp_induct) (auto intro: node_step_frozen)

lemma node_new_frozen: "ledger_frozen N (node_new N now nid interval depth pool v rdb sdb pd bs)"
  by (simp add: ledger_frozen_def node_new_def Let_def)

lemma genesis_inv:
  assumes "dag_inv E d"
  shows "dag_inv E (create_genesis_if_empty E now w d)"
proof (cases "dag_block_count d = 0")
  case True
  then have "dag_store d = []"
    by (simp add: dag_block_count_def)
  then have "hash_fresh E d (genesis_block E now)" "block_wf (genesis_block E now)"
    by (simp_all add: hash_fresh_def sha_collision_free_def block_wf_def genesis_block_def)
  with \<open>dag_store d = []\<close> assms True show ?thesis
    using insert_block_inv [of E d "genesis_block E now" now w]
    by (auto simp: create_genesis_if_empty_def create_genesis_block_def Let_def split: sum.split)
next
  case False
  with assms show ?thesis
    by (simp add: create_genesis_if_empty_def)
qed

lemma node_step_inv:
  assumes "node_step N nr nr'" and N: "node_env_ok N" and "node_inv N nr"
  shows "node_inv N nr'"
proof -
  have fr: "ledger_frozen N nr'"
    using node_step_frozen [OF assms(1)] assms(3) by (simp add: node_inv_def)
  have iter: "tx_iterates (ne_txs N)"
    using N by (simp add: node_env_ok_def)
  from assms(1) show ?thesis
  proof (cases rule: node_step.cases)
    case (initialize now w)
    with assms(3) fr genesis_inv show ?thesis
      by (auto simp: node_inv_def node_initialize_def)
  next
    case (produce t now now2 w pnow)
    with produce_block_inv [OF assms(3) N] show ?thesis
      by simp
  next
    case finality
    with check_finality_frame [of nr] check_finality_k [of "ne_env N" nr] assms(3) fr show ?thesis
      by (simp add: node_inv_def)
  next
    case (submit now now' tx)
    with node_add_transaction_frame [of N now now' tx nr] assms(3) fr show ?thesis
      by (auto simp: node_inv_def intro: mp_step_inv [OF _ iter])
  next
    case (prune now window)
    with prune_storage_frame [of N now window nr] assms(3) fr show ?thesis
      by (auto simp: node_inv_def)
  qed (use assms(3) fr in \<open>simp_all add: start_mining_def stop_mining_def node_inv_def\<close>)
qed

lemma node_run_inv:
  "(node_step N)\<^sup>*\<^sup>* nr nr' \<Longrightarrow> node_env_ok N \<Longrightarrow> node_inv N nr \<Longrightarrow> node_inv N nr'"
  by (induction rule: rtranclp_induct) (auto intro: node_step_inv)

lemma node_new_inv:
  "length nid = 20 \<Longrightarrow> node_inv N (node_new N now nid interval depth pool [] rdb sdb pd bs)"
  using node_new_frozen [of N now nid interval depth pool "[]" rdb sdb pd bs]
  by (simp add: node_inv_def) (simp add: node_new_def Let_def dag_inv_new mempool_new_inv
      block_producer_new_def finality_new_def finality_new_with_k_def)

lemma frozen_balance:
  assumes "ledger_frozen N nr"
  shows "a \<noteq> GENESIS_WALLET \<Longrightarrow> node_get_balance nr a = 0"
    and "node_get_balance nr GENESIS_WALLET \<in> {0, 100000000}" and "node_get_nonce nr a = 0"
  using assms emission_not_genesis
  by (auto simp: ledger_frozen_def Let_def node_get_balance_def node_get_nonce_def get_balance_def
      tree_get_def initial_state initialized_state account_new_def)

section \<open>Sample instances\<close>

text \<open>A signature scheme whose one key belongs to the genesis wallet, and a call signed with it.\<close>

definition wallet_secp :: "(unit, unit, unit) secp" where
  "wallet_secp = sample_secp\<lparr>pk_serialize := (\<lambda>_. [2, 1])\<rparr>"

definition wallet_call :: transaction where
  "wallet_call =
     \<lparr>tx_from = GENESIS_WALLET, payload = ContractCall (replicate 20 5) [1] [], tx_nonce = 0,
      gas_limit = 5, gas_price = 1, tx_signature = \<lparr>algorithm = Secp256k1, sig_data = replicate 65 1\<rparr>\<rparr>"

definition sample_node_env ::
  "(unit, unit, unit, (bytes \<times> bytes option) list, (bytes \<times> bytes option) list,
    (pcf \<times> bytes \<times> bytes) list, kv_op list) node_env" where
  "sample_node_env =
     \<lparr>ne_env = sample_env, ne_enum = sorted_list_of_set, ne_txs = id, ne_leaves = id, ne_secp = wallet_secp,
      ne_cdb = log_cdb, ne_info = sample_info_codec, ne_wasm = idle_wasm, ne_rocks = log_rocks,
      ne_codec = sample_codec high_block, ne_pick = (\<lambda>_. 0), ne_pdb = log_pdb,
      ne_pcodec = one_codec (make_snapshot id 0 0 blank_state) pruned_once\<rparr>"

abbreviation sample_node ::
  "((bytes \<times> bytes option) list, (bytes \<times> bytes option) list, (pcf \<times> bytes \<times> bytes) list, kv_op list) node_runtime" where
  "sample_node \<equiv> node_new sample_node_env 1000 (replicate 20 9) 5000 10 2 [] [] [] [] empty_store"

lemma sample_node_env_ok: "node_env_ok sample_node_env"
  by (simp add: node_env_ok_def sample_node_env_def sample_env_def tx_iterates_id enumerates_def)

abbreviation started_node ::
  "((bytes \<times> bytes option) list, (bytes \<times> bytes option) list, (pcf \<times> bytes \<times> bytes) list, kv_op list) node_runtime" where
  "started_node \<equiv> start_mining (node_initialize sample_node_env 1000 None sample_node)"

lemma started_node_reachable: "(node_step sample_node_env)\<^sup>*\<^sup>* sample_node started_node"
  by (rule rtranclp.intros(2) [OF rtranclp.intros(2) [OF rtranclp.intros(1)]])
    (rule node_step.initialize, rule node_step.start)

lemma sample_node_env_fields:
  "ne_env sample_node_env = sample_env" "ne_enum sample_node_env = sorted_list_of_set"
  "ne_txs sample_node_env = id" "ne_leaves sample_node_env = id" "ne_secp sample_node_env = wallet_secp"
  "sha256 sample_env = sample_sha"
  by (simp_all add: sample_node_env_def sample_env_def)

text \<open>The node after initialisation has the genesis block; a signed call is then submitted.\<close>

definition node_genesis :: block where
  "node_genesis = annotate sample_env (block_dag_new []) (genesis_block sample_env 1000)"

lemma wallet_call_valid: "validate_transaction sample_sha wallet_secp wallet_call = Inr ()"
  by (simp add: validate_transaction_def tx_validate_basic_def verify_signature_def wallet_secp_def
      wallet_call_def sample_secp_def address_of_def sample_sha_def GENESIS_WALLET_def Let_def)

lemma started_node_dag:
  "dag_store (nr_blockdag started_node) = [(blk_hash node_genesis, node_genesis)]"
proof -
  have "validate_basic sample_env 1000 (genesis_block sample_env 1000) = Inr ()"
    by (simp add: genesis_block_def block_new_checks)
  moreover have "parents (genesis_block sample_env 1000) = []"
    by (simp add: genesis_block_def)
  ultimately show ?thesis
    by (simp add: start_mining_def node_initialize_def node_new_def Let_def sample_node_env_def
        create_genesis_if_empty_def create_genesis_block_def insert_block_def block_dag_new_def
        dag_block_count_def block_exists_def view_put_def node_genesis_def)
qed

definition busy_node ::
  "((bytes \<times> bytes option) list, (bytes \<times> bytes option) list, (pcf \<times> bytes \<times> bytes) list, kv_op list) node_runtime" where
  "busy_node = snd (node_add_transaction sample_node_env 7 7 wallet_call started_node)"

lemma busy_node_reachable: "(node_step sample_node_env)\<^sup>*\<^sup>* sample_node busy_node"
  unfolding busy_node_def
  by (rule rtranclp.intros(2) [OF started_node_reachable]) (rule node_step.submit)

lemma busy_node_eq:
  "busy_node = started_node\<lparr>nr_mempool := nr_mempool busy_node\<rparr>"
  using node_add_transaction_frame [of sample_node_env 7 7 wallet_call started_node]
  by (auto simp: busy_node_def)

lemma busy_node_pool:
  "mp_transactions (nr_mempool busy_node) =
     [(tx_hash sample_sha wallet_call, \<lparr>mt_transaction = wallet_call, parent_tx_hashes = [],
        mt_timestamp = 7, is_ready = True\<rparr>)]"
proof -
  have "nr_state started_node = sample_state"
    by (simp add: start_mining_def node_initialize_def node_new_def Let_def sample_node_env_def
        sample_env_def sample_state_def)
  moreover have "nr_mempool started_node = mempool_new 2 1"
    by (simp add: start_mining_def node_initialize_def node_new_def Let_def)
  ultimately show ?thesis
    using wallet_call_valid
    by (simp add: busy_node_def node_add_transaction_def sample_node_env_fields add_transaction_def Let_def
        make_room_def mempool_new_def sample_state_balance insert_tx_def mempool_tx_new_def)
      (simp add: wallet_call_def sample_state_balance)
qed

lemma busy_node_fields:
  "nr_blockdag busy_node = nr_blockdag started_node" "mining_enabled busy_node"
  "nr_producer busy_node = block_producer_new 1000 (replicate 20 9) 0 100 default_daa_config"
  by (subst busy_node_eq; simp add: start_mining_def node_initialize_def node_new_def Let_def)+

lemma busy_node_dag_inv: "dag_inv sample_env (nr_blockdag started_node)"
  using node_run_inv [OF started_node_reachable sample_node_env_ok node_new_inv]
  by (simp add: node_inv_def sample_node_env_fields)

lemma node_genesis_simps:
  "hd_difficulty (header node_genesis) = 0" "hd_base_fee (header node_genesis) = 0"
  "parents node_genesis = []" "length (transactions node_genesis) = 1"
  by (simp_all add: node_genesis_def genesis_block_def annotate_def Let_def split: prod.split)

lemma started_node_order:
  "get_topological_order (dag_idx (nr_blockdag started_node)) (dag_store (nr_blockdag started_node)) =
     Some [blk_hash node_genesis]"
proof -
  obtain r where r: "get_topological_order (dag_idx (nr_blockdag started_node))
      (dag_store (nr_blockdag started_node)) = Some r" "distinct r" "set r = {blk_hash node_genesis}"
    using topological_order_ex [OF busy_node_dag_inv] unfolding started_node_dag by auto
  then have "length r = 1"
    using distinct_card by fastforce
  with r show ?thesis
    by (cases r) auto
qed

lemma started_node_difficulty: "next_difficulty (nr_blockdag started_node) = Some 0"
proof -
  have g: "dag_get_block (nr_blockdag started_node) (blk_hash node_genesis) = Some node_genesis"
    by (simp add: dag_get_block_def started_node_dag)
  show ?thesis
    unfolding next_difficulty_def started_node_order
    by (simp add: DAA_WINDOW_def calculate_next_difficulty_def map_filter_simps g node_genesis_simps)
qed

lemma started_node_base_fee: "next_base_fee (nr_blockdag started_node) = Some 1"
proof -
  have g: "dag_get_block (nr_blockdag started_node) (blk_hash node_genesis) = Some node_genesis"
    by (simp add: dag_get_block_def started_node_dag)
  have "adjust_base_fee 0 1 = 1"
    by code_simp
  then show ?thesis
    unfolding next_base_fee_def started_node_order by (simp add: g node_genesis_simps)
qed

lemma annotate_block_total:
  "\<exists>b' gd' sel score height topo. annotate_block E d b gd = (Inr b', gd')
     \<and> b' = set_consensus_metadata E sel score height topo b \<and> (\<forall>p. sel = Some p \<longrightarrow> p \<in> set (parents b))"
proof (cases "parents b")
  case Nil
  then show ?thesis
    by (auto simp: annotate_block_def Let_def split: prod.split)
next
  case (Cons p ps)
  obtain q gd1 where s: "select_parent_from_parents (parents b) gd = (Inr q, gd1)"
    by (cases "score_or_0 p gd"; cases "select_loop ps p (fst (score_or_0 p gd)) (snd (score_or_0 p gd))")
      (auto simp: select_parent_from_parents_def Cons)
  obtain score gd2 where c: "calculate_blue_score_for_new_block b gd1 = (score, gd2)"
    by force
  show ?thesis
    using Cons selected_parent_mem [OF s] s by (auto simp: annotate_block_def c Let_def)
qed

lemma sample_sha_eq: "length x \<noteq> length y \<Longrightarrow> length x < 256 \<Longrightarrow> length y < 256 \<Longrightarrow> sample_sha x \<noteq> sample_sha y"
  by (simp add: sample_sha_def) (simp add: word_unat_eq_iff unat_of_nat)

lemma coinbase_hash_differs:
  "length pid = 20 \<Longrightarrow> tx_hash sample_sha (coinbase pid r) \<noteq> tx_hash sample_sha wallet_call"
  unfolding tx_hash_def
  by (rule sample_sha_eq) (simp_all add: tx_preimage_def coinbase_def new_transfer_def wallet_call_def
      GENESIS_WALLET_def sample_sha_def)

lemma busy_node_candidates:
  "candidate_transactions id fee (set_base_fee fee (nr_mempool busy_node)) (nr_producer busy_node) = Inr [wallet_call]"
  by (simp add: candidate_transactions_def get_ready_transactions_def set_base_fee_def busy_node_pool
      busy_node_fields block_producer_new_def tx_count_def)

lemma preimage_length:
  assumes "block_wf b"
  shows "length (block_preimage sample_env b) = 32 * length (parents b) + 32 * length (transactions b) + 140"
proof -
  have c: "\<forall>x \<in> set xs. length x = 32 \<Longrightarrow> length (concat xs) = 32 * length xs" for xs :: "bytes list"
    by (induction xs) auto
  have "length (concat (parents b)) = 32 * length (parents b)"
    using assms by (intro c) (simp add: block_wf_def)
  moreover have "length (concat (map (tx_hash sample_sha) (transactions b))) = 32 * length (transactions b)"
    by (subst c) (auto simp: tx_hash_length)
  ultimately show ?thesis
    using assms by (auto simp: block_preimage_def header_tail_def block_wf_def sample_node_env_fields
        split: option.split)
qed

lemma node_genesis_wf:
  "block_wf node_genesis" "blk_hash node_genesis = calculate_hash sample_env node_genesis"
  "length (blk_hash node_genesis) = 32"
proof -
  show "block_wf node_genesis" "blk_hash node_genesis = calculate_hash sample_env node_genesis"
    using dag_invD(5,6) [OF busy_node_dag_inv, of node_genesis] by (simp_all add: started_node_dag)
  then show "length (blk_hash node_genesis) = 32"
    by (simp add: calculate_hash_length sample_node_env_fields)
qed

lemma started_node_tips: "get_tips sorted_list_of_set (dag_idx (nr_blockdag started_node)) = [blk_hash node_genesis]"
proof -
  have "tips (dag_idx (nr_blockdag started_node)) = {blk_hash node_genesis}"
    using dag_invD(3) [OF busy_node_dag_inv] node_genesis_simps(3)
    by (auto simp: index_ok_def started_node_dag parents_of_def parent_graph_def hm_list_def split: option.splits if_splits)
  then show ?thesis
    by (simp add: get_tips_def)
qed

lemma two_tx_hash_differs:
  assumes "block_wf x" and "length (parents x) = 1" and "length (transactions x) = 2"
    and "blk_hash x = calculate_hash sample_env x"
  shows "blk_hash x \<noteq> blk_hash node_genesis"
  unfolding assms(4) node_genesis_wf(2) calculate_hash_def sample_node_env_fields
  by (rule sample_sha_eq) (simp_all add: preimage_length assms node_genesis_wf node_genesis_simps)

lemma busy_node_produces:
  "nr_blockdag (snd (produce_block sample_node_env 1000 1000 1000 None 0 busy_node)) \<noteq> nr_blockdag busy_node"
proof -
  let ?D = "nr_blockdag started_node" and ?N = sample_node_env
  let ?tips = "get_tips sorted_list_of_set (dag_idx ?D)"
  let ?r = "due_reward sample_env sorted_list_of_set ?D (nr_state busy_node) 1"
  let ?b = "block_new sample_env ?tips 1000 [coinbase (replicate 20 9) ?r, wallet_call] 0 0 1
      (replicate 20 9) (replicate 32 0)"
  have v: "validate_basic sample_env 1000 ?b = Inr ()"
    by (simp add: block_new_checks coinbase_hash_differs sample_node_env_fields)
  obtain b gd' sel score height topo where
    a: "annotate_block sample_env ?D ?b (attach_dag ?D (nr_ghostdag busy_node)) = (Inr b, gd')"
    and b: "b = set_consensus_metadata sample_env sel score height topo ?b"
    and sel: "\<forall>p. sel = Some p \<longrightarrow> p \<in> set (parents ?b)"
    using annotate_block_total [of sample_env ?D ?b] by metis
  obtain nr1 where p: "prepare_block ?N 1000 1000 busy_node = (Inr (Some b), nr1)"
    using v a busy_node_candidates [of 1]
    by (simp add: prepare_block_def busy_node_fields tx_count_def busy_node_pool started_node_difficulty
        started_node_base_fee create_block_def sample_node_env_fields block_producer_new_def Let_def)
  have u: "unfunded nr1"
    using prepare_block_frame [OF p] frozen_unfunded [OF node_run_frozen [OF busy_node_reachable node_new_frozen]]
    by simp
  have t: "transactions b = coinbase (replicate 20 9) ?r # [wallet_call]"
    by (simp add: b)
  have tips: "?tips = [blk_hash node_genesis]"
    by (rule started_node_tips)
  have wf: "block_wf b"
    unfolding b by (rule block_wf_metadata) (use sel node_genesis_wf in \<open>auto simp: block_wf_def tips\<close>)
  let ?a = "annotate sample_env ?D b"
  have h: "blk_hash b \<noteq> blk_hash node_genesis"
    by (rule two_tx_hash_differs [OF wf]) (simp_all add: b tips)
  have "block_wf ?a"
    by (rule annotate_wf [OF wf]) (simp_all add: b tips node_genesis_wf(3) started_node_dag)
  then have ha: "blk_hash ?a \<noteq> blk_hash node_genesis"
    by (rule two_tx_hash_differs) (simp_all add: b tips)
  have "validate_basic sample_env 1000 b = Inr ()"
    using v by (simp add: b validate_basic_def Let_def split: if_splits)
  moreover have "parents b = [blk_hash node_genesis]"
    by (simp add: b tips)
  ultimately obtain d where i: "insert_block sample_env 1000 None b ?D = Inr d"
    and "dag_store d = view_put ?a (dag_store ?D)"
    using h by (simp add: insert_block_def block_exists_def first_missing_def started_node_dag Let_def)
  moreover from this have "map_of (dag_store d) (blk_hash ?a) \<noteq> map_of (dag_store ?D) (blk_hash ?a)"
    using ha by (simp add: view_put_def map_of_omap_insert started_node_dag)
  then have "d \<noteq> ?D"
    by auto
  moreover have "snd (produce_block ?N 1000 1000 1000 None 0 busy_node) = snd (commit_block ?N 1000 None 0 b nr1)"
    by (simp add: produce_block_def p)
  ultimately show ?thesis
    using commit_block_unfunded [OF u t, of ?N 1000 None 0] prepare_block_frame [OF p]
    by (auto simp: busy_node_fields sample_node_env_fields)
qed

section \<open>Properties\<close>

text \<open>
  C6. No run of a node ever moves a coin. The first transaction of every block the node builds is
  the coinbase, a transfer out of the zero address; the executor keeps a ledger of its own in
  which no account has any balance, so the coinbase fails, execution stops there, and the
  node's ledger is left alone. Whatever is submitted and produced, the ledger is the one of
  initialisation: the genesis wallet has its allocation, every other account has nothing and no
  nonce ever advances.
\<close>

theorem node_ledger_never_moves:
  assumes "(node_step N)\<^sup>*\<^sup>* (node_new N now nid interval depth pool v rdb sdb pd bs) nr"
  shows "(a \<noteq> GENESIS_WALLET \<longrightarrow> node_get_balance nr a = 0)
    \<and> node_get_balance nr GENESIS_WALLET \<in> {0, 100000000} \<and> node_get_nonce nr a = 0
    \<and> ce_state (nr_executor nr) = state_manager_new (sha256 (ne_env N)) (ne_leaves N)"
proof -
  have f: "ledger_frozen N nr"
    by (rule node_run_frozen [OF assms node_new_frozen])
  then show ?thesis
    using frozen_balance [OF f] by (simp add: ledger_frozen_def Let_def)
qed

theorem node_ledger_never_moves_witness:
  "node_get_balance started_node (replicate 20 9) = 0"
  using node_ledger_never_moves [OF started_node_reachable, where a = "replicate 20 9"]
  by (simp add: GENESIS_WALLET_def)

text \<open>
  Production consumes the pool all the same: when a call of \<open>produce_block\<close> changes the DAG, the
  new block holds exactly the pending transactions behind its coinbase, they are all gone
  from the pool, every other entry of the pool stays, and the ledger is as before.
\<close>

theorem production_drops_transactions:
  assumes "(node_step N)\<^sup>*\<^sup>* (node_new N now0 nid interval depth pool v rdb sdb pd bs) nr"
    and "nr' = snd (produce_block N t now now2 w pnow nr)" and "nr_blockdag nr' \<noteq> nr_blockdag nr"
  shows "\<exists>b r txs. insert_block (ne_env N) now2 w b (nr_blockdag nr) = Inr (nr_blockdag nr')
    \<and> transactions b = coinbase (producer_id (nr_producer nr)) r # txs
    \<and> mset txs = mset (get_pending_transactions (ne_txs N) (nr_mempool nr) (nr_producer nr))
    \<and> (\<forall>h. map_of (mp_transactions (nr_mempool nr')) h =
        (if h \<in> tx_hash (sha256 (ne_env N)) ` set (transactions b) then None
         else map_of (mp_transactions (nr_mempool nr)) h))
    \<and> nr_state nr' = nr_state nr"
proof -
  have u: "unfunded nr"
    by (rule frozen_unfunded [OF node_run_frozen [OF assms(1) node_new_frozen]])
  show ?thesis
  proof (rule produce_block_cases [OF u, of N t now now2 w pnow])
    fix nr1 r
    assume "snd (produce_block N t now now2 w pnow nr) = nr1" and "prepare_block N t now nr = (r, nr1)"
    with assms(2,3) prepare_block_frame [of N t now nr r nr1] show ?thesis
      by simp
  next
    fix b d nr1
    assume p: "prepare_block N t now nr = (Inr (Some b), nr1)"
      and i: "insert_block (ne_env N) now2 w b (nr_blockdag nr) = Inr d"
      and r: "snd (produce_block N t now now2 w pnow nr) = nr1\<lparr>nr_blockdag := d,
        nr_ghostdag := attach_dag d (nr_ghostdag nr1),
        nr_mempool := remove_all (sha256 (ne_env N)) (transactions b) (nr_mempool nr1)\<rparr>"
    obtain fee where "nr_mempool nr1 = set_base_fee fee (nr_mempool nr)" "nr_state nr1 = nr_state nr"
      using prepare_block_frame [OF p] by blast
    then have "map_of (mp_transactions (nr_mempool nr')) h =
        (if h \<in> tx_hash (sha256 (ne_env N)) ` set (transactions b) then None
         else map_of (mp_transactions (nr_mempool nr)) h)" "nr_state nr' = nr_state nr" for h
      by (simp_all add: assms(2) r map_of_remove_all set_base_fee_def)
    moreover have "nr_blockdag nr' = d"
      by (simp add: assms(2) r)
    ultimately show ?thesis
      using prepared_transactions [OF p] i by blast
  qed
qed

theorem production_drops_transactions_witness:
  "let nr' = snd (produce_block sample_node_env 1000 1000 1000 None 0 busy_node)
   in mp_transactions (nr_mempool busy_node) \<noteq> [] \<and> nr_state nr' = nr_state busy_node
      \<and> map_of (mp_transactions (nr_mempool nr')) (tx_hash sample_sha wallet_call) = None"
proof -
  have "get_pending_transactions id (nr_mempool busy_node) (nr_producer busy_node) = [wallet_call]"
    by (simp add: get_pending_transactions_def get_ready_transactions_def busy_node_pool busy_node_fields
        block_producer_new_def)
  then show ?thesis
    using production_drops_transactions [OF busy_node_reachable refl busy_node_produces]
    by (auto simp: sample_node_env_fields busy_node_pool Let_def)
qed

text \<open>
  C4. Every node that starts on an empty store keeps its invariants through any sequence of calls:
  the DAG invariant, the mempool invariant with the pool within its size, and the supply cap.
\<close>

theorem node_invariant:
  assumes "node_env_ok N" and "length nid = 20"
    and "(node_step N)\<^sup>*\<^sup>* (node_new N now nid interval depth pool [] rdb sdb pd bs) nr"
  shows "dag_inv (ne_env N) (nr_blockdag nr) \<and> mp_inv (sha256 (ne_env N)) (nr_mempool nr)
    \<and> tx_count (nr_mempool nr) \<le> max_size (nr_mempool nr)
    \<and> circulating (leaves (state_tree (nr_state nr))) \<le> 600000000"
proof -
  have i: "node_inv N nr"
    by (rule node_run_inv [OF assms(3,1) node_new_inv [OF assms(2)]])
  then have "circulating (leaves (state_tree (nr_state nr))) \<le> 600000000"
    using emission_not_genesis by (auto simp: node_inv_def ledger_frozen_def Let_def initial_state
        initialized_state circulating_def account_new_def)
  with i show ?thesis
    by (simp add: node_inv_def mp_inv_def tx_count_def)
qed

theorem node_invariant_witness:
  "dag_inv sample_env (nr_blockdag started_node) \<and> tx_count (nr_mempool started_node) \<le> 2"
  using node_invariant [OF sample_node_env_ok _ started_node_reachable]
  by (simp add: sample_node_env_def)
    (simp add: node_new_def Let_def start_mining_def node_initialize_def mempool_new_def)

text \<open>
  C5. On every reachable node that was started on an empty block store the finality timer succeeds: the ordering is generated, finality is
  computed without error, and the DAG and the ledger stay as they are. When the DAG has a block, what is
  final afterwards is exactly the part of its topological order that ends k positions and the
  safety margin before the last block; the first block is always final, and whatever is final has only
  final ancestors.
\<close>

theorem node_finality_succeeds:
  assumes "node_env_ok N" and "length nid = 20"
    and "(node_step N)\<^sup>*\<^sup>* (node_new N now nid interval depth pool [] rdb sdb pd bs) nr"
  shows "\<exists>nr'. check_finality nr = (Inr (), nr') \<and> nr_blockdag nr' = nr_blockdag nr \<and> nr_state nr' = nr_state nr
    \<and> (dag_store (nr_blockdag nr) \<noteq> [] \<longrightarrow>
        (\<exists>r. get_topological_order (dag_idx (nr_blockdag nr)) (dag_store (nr_blockdag nr)) = Some r
          \<and> (\<forall>h. is_finalized (nr_finality nr') h \<longleftrightarrow> (\<exists>i < length r. h = r ! i
               \<and> i \<le> length r - 1 - fe_k (nr_finality nr) - unat (safety_margin (of_nat (length r - 1)))))
          \<and> is_finalized (nr_finality nr') (hd r))
        \<and> (\<forall>x y. is_ancestor (dag_store (nr_blockdag nr)) x y \<and> is_finalized (nr_finality nr') y
              \<longrightarrow> is_finalized (nr_finality nr') x))"
proof (cases "dag_store (nr_blockdag nr) = []")
  case True
  then show ?thesis
    by (simp add: check_finality_def)
next
  case False
  let ?d = "nr_blockdag nr" and ?gd = "attach_dag (nr_blockdag nr) (nr_ghostdag nr)"
  have d: "dag_inv (ne_env N) ?d" and k: "fe_k (nr_finality nr) < 2 ^ 64"
    using node_run_inv [OF assms(3,1) node_new_inv [OF assms(2)]] by (simp_all add: node_inv_def)
  have "gd_dag ?gd = Some ?d"
    by (simp add: attach_dag_def clear_cache_def)
  then obtain xs where xs: "generate_ordering ?gd = Inr xs"
    using generate_ordering_attached d by blast
  obtain r fe' where f: "get_topological_order (dag_idx ?d) (dag_store ?d) = Some r"
    "compute_finality ?d (nr_finality nr) = (Inr (), fe')"
    "\<forall>h. is_finalized fe' h \<longleftrightarrow> (\<exists>i < length r. h = r ! i
       \<and> i \<le> length r - 1 - fe_k (nr_finality nr) - unat (safety_margin (of_nat (length r - 1))))"
    "\<forall>x y. is_ancestor (dag_store ?d) x y \<and> is_finalized fe' y \<longrightarrow> is_finalized fe' x" "is_finalized fe' (hd r)"
    using finality_prefix [OF d False k] by blast
  have "check_finality nr = (Inr (), nr\<lparr>nr_ghostdag := ?gd, nr_finality := fe'\<rparr>)"
    using False xs f(2) by (simp add: check_finality_def Let_def)
  with f show ?thesis
    by auto
qed

theorem node_finality_succeeds_witness:
  "\<exists>nr' r. check_finality started_node = (Inr (), nr') \<and> nr_blockdag nr' = nr_blockdag started_node
    \<and> get_topological_order (dag_idx (nr_blockdag started_node)) (dag_store (nr_blockdag started_node)) = Some r
    \<and> is_finalized (nr_finality nr') (hd r)"
  using node_finality_succeeds [OF sample_node_env_ok _ started_node_reachable]
  by (auto simp: started_node_dag)

end
