(* ===== verification/Scheduler.thy ===== *)
theory Scheduler
  imports Transaction
begin

text \<open>
  The scheduler of the parallel executor (first half of
  \<^verbatim>\<open>src/src/execution/parallel_executor.rs\<close>): the state keys a transaction may touch, the
  conflict graph, and the greedy colouring that groups transactions into batches.

  A \<open>HashSet\<close> of keys or of transaction ids is a list read through \<open>set\<close>. The batches leave
  their \<open>HashMap\<close> in the order \<open>iter\<close>, of which the code relies on \<open>batch_iterates\<close>; \<open>sort_by_key\<close>
  is a stable sort.
\<close>

section \<open>Access sets\<close>

datatype state_key =
    AccountKey address | StorageKey address bytes | RegistryKey address

record tx_access_set =
  access_reads :: "state_key list"
  access_writes :: "state_key list"

definition contract_address_of :: "(bytes \<Rightarrow> bytes) \<Rightarrow> bytes \<Rightarrow> address" where
  "contract_address_of sha wasm_code = take 20 (sha wasm_code)"

definition analyze_access :: "(bytes \<Rightarrow> bytes) \<Rightarrow> transaction \<Rightarrow> tx_access_set" where
  "analyze_access sha tx =
     (let reads = [AccountKey (tx_from tx)]; writes = [AccountKey (tx_from tx)] in
      case payload tx of
        Transfer to _ \<Rightarrow>
          \<lparr>access_reads = List.insert (AccountKey to) reads, access_writes = List.insert (AccountKey to) writes\<rparr>
      | ContractDeploy wasm_code _ \<Rightarrow>
          let a = contract_address_of sha wasm_code
          in \<lparr>access_reads = reads,
              access_writes = List.insert (RegistryKey a) (List.insert (StorageKey a [])
                (List.insert (AccountKey a) writes))\<rparr>
      | ContractCall a _ _ \<Rightarrow>
          \<lparr>access_reads = List.insert (RegistryKey a) (List.insert (StorageKey a [])
             (List.insert (AccountKey a) reads)),
           access_writes = List.insert (StorageKey a []) (List.insert (AccountKey a) writes)\<rparr>)"

definition is_disjoint :: "'a list \<Rightarrow> 'a list \<Rightarrow> bool" where
  "is_disjoint xs ys \<longleftrightarrow> list_all (\<lambda>x. x \<notin> set ys) xs"

definition transactions_conflict :: "tx_access_set \<Rightarrow> tx_access_set \<Rightarrow> bool" where
  "transactions_conflict a b \<longleftrightarrow>
     \<not> is_disjoint (access_writes a) (access_writes b) \<or>
     \<not> is_disjoint (access_writes a) (access_reads b) \<or>
     \<not> is_disjoint (access_reads a) (access_writes b)"

section \<open>Conflict graph\<close>

type_synonym conflict_graph = "(tx_id \<times> tx_id list) list"

text \<open>\<open>edges.entry(a).or_default().insert(b)\<close>\<close>

definition add_edge :: "tx_id \<Rightarrow> tx_id \<Rightarrow> conflict_graph \<Rightarrow> conflict_graph" where
  "add_edge a b edges = AList.update a (List.insert b (hm_list edges a)) edges"

definition index_pairs :: "nat \<Rightarrow> (nat \<times> nat) list" where
  "index_pairs n = concat (map (\<lambda>i. map (Pair i) [i + 1..<n]) [0..<n])"

definition build_conflict_graph :: "(bytes \<Rightarrow> bytes) \<Rightarrow> transaction list \<Rightarrow> conflict_graph" where
  "build_conflict_graph sha txs =
     (let access_sets = map (analyze_access sha) txs; ids = map (tx_hash sha) txs
      in fold (\<lambda>(i, j) edges.
           if transactions_conflict (access_sets ! i) (access_sets ! j)
           then add_edge (ids ! j) (ids ! i) (add_edge (ids ! i) (ids ! j) edges)
           else edges) (index_pairs (length txs)) [])"

section \<open>Greedy colouring\<close>

function first_free :: "nat list \<Rightarrow> nat \<Rightarrow> nat" where
  "first_free forbidden color =
     (if color \<in> set forbidden then first_free forbidden (color + 1) else color)"
  by pat_completeness auto

termination
proof (relation "measure (\<lambda>(forbidden, color). card {x \<in> set forbidden. color \<le> x})")
  fix forbidden :: "nat list" and color
  assume c: "color \<in> set forbidden"
  let ?A = "{x \<in> set forbidden. color \<le> x}" and ?B = "{x \<in> set forbidden. color + 1 \<le> x}"
  have "color \<in> ?A" "color \<notin> ?B" "?B \<subseteq> ?A"
    using c by auto
  then have "?B \<subset> ?A"
    by blast
  then have "card {x \<in> set forbidden. color + 1 \<le> x} < card {x \<in> set forbidden. color \<le> x}"
    by (intro psubset_card_mono) auto
  then show "((forbidden, color + 1), forbidden, color)
      \<in> measure (\<lambda>(forbidden, color). card {x \<in> set forbidden. color \<le> x})"
    by simp
qed simp

declare first_free.simps [simp del]

definition index_map :: "(bytes \<Rightarrow> bytes) \<Rightarrow> transaction list \<Rightarrow> (tx_id \<times> nat) list" where
  "index_map sha txs = fold (\<lambda>(i, tx). AList.update (tx_hash sha tx) i) (enumerate 0 txs) []"

definition forbidden_colors ::
  "conflict_graph \<Rightarrow> (tx_id \<times> nat) list \<Rightarrow> tx_id \<Rightarrow> nat list \<Rightarrow> nat list" where
  "forbidden_colors graph idx id_i colors =
     (case map_of graph id_i of
        None \<Rightarrow> []
      | Some neighbors \<Rightarrow> List.map_filter (\<lambda>nid. map_option ((!) colors) (map_of idx nid)) neighbors)"

definition color_tx ::
  "(bytes \<Rightarrow> bytes) \<Rightarrow> transaction list \<Rightarrow> nat \<Rightarrow> nat list \<Rightarrow> nat list" where
  "color_tx sha txs i colors =
     colors[i := first_free
       (forbidden_colors (build_conflict_graph sha txs) (index_map sha txs) (tx_hash sha (txs ! i)) colors) 0]"

definition color_all :: "(bytes \<Rightarrow> bytes) \<Rightarrow> transaction list \<Rightarrow> nat list" where
  "color_all sha txs = fold (color_tx sha txs) [0..<length txs] (replicate (length txs) 0)"

section \<open>Batches\<close>

type_synonym batch = "transaction list"

definition batches_map :: "nat list \<Rightarrow> transaction list \<Rightarrow> (nat \<times> batch) list" where
  "batches_map colors txs = fold (\<lambda>(i, color). hm_push color (txs ! i)) (enumerate 0 colors) []"

text \<open>The smallest original index of a batch; \<open>usize::MAX\<close> where there is none.\<close>

definition batch_key :: "(tx_id \<times> nat) list \<Rightarrow> (bytes \<Rightarrow> bytes) \<Rightarrow> batch \<Rightarrow> nat" where
  "batch_key idx sha b =
     foldr min (map (\<lambda>tx. case map_of idx (tx_hash sha tx) of None \<Rightarrow> 2 ^ 64 - 1 | Some i \<Rightarrow> i) b) (2 ^ 64 - 1)"

definition schedule_parallel_batches ::
  "(bytes \<Rightarrow> bytes) \<Rightarrow> ((nat \<times> batch) list \<Rightarrow> (nat \<times> batch) list) \<Rightarrow> transaction list \<Rightarrow> batch list" where
  "schedule_parallel_batches sha iter txs =
     sort_key (batch_key (index_map sha txs) sha) (map snd (iter (batches_map (color_all sha txs) txs)))"

definition batch_iterates :: "((nat \<times> batch) list \<Rightarrow> (nat \<times> batch) list) \<Rightarrow> bool" where
  "batch_iterates iter \<longleftrightarrow> (\<forall>m. mset (iter m) = mset m)"

section \<open>Conflicts\<close>

abbreviation conflict :: "(bytes \<Rightarrow> bytes) \<Rightarrow> transaction \<Rightarrow> transaction \<Rightarrow> bool" where
  "conflict sha s t \<equiv> transactions_conflict (analyze_access sha s) (analyze_access sha t)"

lemma is_disjoint_iff: "is_disjoint xs ys \<longleftrightarrow> set xs \<inter> set ys = {}"
  by (auto simp: is_disjoint_def list_all_iff)

lemma transactions_conflict_iff:
  "transactions_conflict a b \<longleftrightarrow>
     set (access_writes a) \<inter> (set (access_writes b) \<union> set (access_reads b)) \<noteq> {}
     \<or> set (access_reads a) \<inter> set (access_writes b) \<noteq> {}"
  by (auto simp: transactions_conflict_def is_disjoint_iff)

lemma conflict_sym: "transactions_conflict a b \<longleftrightarrow> transactions_conflict b a"
  by (auto simp: transactions_conflict_iff)

lemma hm_list_add_edge:
  "set (hm_list (add_edge a b es) c) = (if c = a then insert b (set (hm_list es a)) else set (hm_list es c))"
proof -
  have "hm_list (add_edge a b es) c = (if c = a then List.insert b (hm_list es a) else hm_list es c)"
    by (simp add: add_edge_def hm_list_def [of "AList.update _ _ _"] map_of_hm_update hm_list_def [of es c])
  then show ?thesis
    by simp
qed

lemma set_index_pairs: "set (index_pairs n) = {(i, j). i < j \<and> j < n}"
  by (auto simp: index_pairs_def image_iff)

lemma graph_edges:
  "set (hm_list (fold (\<lambda>(i, j) es. if P i j then add_edge (f j) (f i) (add_edge (f i) (f j) es) else es) ps es) a) =
     set (hm_list es a) \<union> {b. \<exists>(i, j) \<in> set ps. P i j \<and> (a = f i \<and> b = f j \<or> a = f j \<and> b = f i)}"
  by (induction ps arbitrary: es) (auto simp: hm_list_add_edge split: if_splits)

lemma conflict_graph_edge:
  assumes "i < j" and "j < length txs" and "conflict sha (txs ! i) (txs ! j)"
  shows "tx_hash sha (txs ! i) \<in> set (hm_list (build_conflict_graph sha txs) (tx_hash sha (txs ! j)))"
proof -
  let ?P = "\<lambda>i j. transactions_conflict (map (analyze_access sha) txs ! i) (map (analyze_access sha) txs ! j)"
  have "?P i j" "(i, j) \<in> set (index_pairs (length txs))"
    using assms by (auto simp: set_index_pairs)
  moreover have "map (tx_hash sha) txs ! i = tx_hash sha (txs ! i)" "map (tx_hash sha) txs ! j = tx_hash sha (txs ! j)"
    using assms by auto
  ultimately show ?thesis
    unfolding build_conflict_graph_def Let_def graph_edges [where P = ?P] by force
qed

section \<open>Colouring\<close>

lemma first_free_not_in: "first_free fs c \<notin> set fs"
  by (induction fs c rule: first_free.induct) (subst first_free.simps, auto)

lemma map_of_enumerate_fold:
  "map_of (fold (\<lambda>(i, x). AList.update (f x) i) (enumerate k xs) m) =
     map_of m ++ map_of (rev (map (\<lambda>(i, x). (f x, i)) (enumerate k xs)))"
  by (induction xs arbitrary: k m)
    (auto simp: map_of_hm_update map_add_upd fun_eq_iff map_add_def split: option.split)

lemma index_map_lookup:
  assumes "distinct (map (tx_hash sha) txs)" and "i < length txs"
  shows "map_of (index_map sha txs) (tx_hash sha (txs ! i)) = Some i"
proof -
  let ?ps = "map (\<lambda>(i, x). (tx_hash sha x, i)) (enumerate 0 txs)"
  have "map fst ?ps = map (tx_hash sha) txs"
    by (rule nth_equalityI) (simp_all add: nth_enumerate_eq)
  then have d: "distinct (map fst (rev ?ps))"
    using assms(1) by (simp flip: rev_map)
  have "?ps ! i = (tx_hash sha (txs ! i), i)" "i < length ?ps"
    using assms(2) by (simp_all add: nth_enumerate_eq)
  then have "(tx_hash sha (txs ! i), i) \<in> set (rev ?ps)"
    by (metis nth_mem set_rev)
  with d show ?thesis
    unfolding index_map_def map_of_enumerate_fold by (simp add: map_add_def map_of_eq_Some_iff del: set_rev)
qed

lemma forbidden_neighbour:
  assumes "b \<in> set (hm_list graph a)" and "map_of idx b = Some i"
  shows "colors ! i \<in> set (forbidden_colors graph idx a colors)"
  using assms by (auto simp: forbidden_colors_def hm_list_def List.map_filter_def split: option.splits)
    (force simp: image_iff)

lemma length_color_fold [simp]: "length (fold (color_tx sha txs) is cs) = length cs"
  by (induction "is" arbitrary: cs) (simp_all add: color_tx_def)

definition proper_upto :: "(bytes \<Rightarrow> bytes) \<Rightarrow> transaction list \<Rightarrow> nat list \<Rightarrow> nat \<Rightarrow> bool" where
  "proper_upto sha txs cs k \<longleftrightarrow>
     (\<forall>j < k. \<forall>i < j. conflict sha (txs ! i) (txs ! j) \<longrightarrow> cs ! i \<noteq> cs ! j)"

lemma color_tx_proper:
  assumes "distinct (map (tx_hash sha) txs)" and "k < length txs" and "length cs = length txs"
    and "proper_upto sha txs cs k"
  shows "proper_upto sha txs (color_tx sha txs k cs) (Suc k)"
  unfolding proper_upto_def
proof (intro allI impI)
  fix j i
  assume j: "j < Suc k" and i: "i < j" and c: "conflict sha (txs ! i) (txs ! j)"
  show "color_tx sha txs k cs ! i \<noteq> color_tx sha txs k cs ! j"
  proof (cases "j = k")
    case False
    with j i c assms(4) show ?thesis
      by (simp add: color_tx_def proper_upto_def)
  next
    case True
    have "cs ! i \<in> set (forbidden_colors (build_conflict_graph sha txs) (index_map sha txs)
        (tx_hash sha (txs ! k)) cs)"
      by (rule forbidden_neighbour [OF conflict_graph_edge index_map_lookup])
        (use i c assms True in auto)
    with first_free_not_in have "cs ! i \<noteq> first_free (forbidden_colors (build_conflict_graph sha txs)
        (index_map sha txs) (tx_hash sha (txs ! k)) cs) 0"
      by metis
    with i True assms(2,3) show ?thesis
      by (simp add: color_tx_def)
  qed
qed

lemma color_all_proper:
  assumes "distinct (map (tx_hash sha) txs)"
  shows "proper_upto sha txs (color_all sha txs) (length txs)"
proof -
  have "k \<le> length txs \<Longrightarrow>
      proper_upto sha txs (fold (color_tx sha txs) [0..<k] (replicate (length txs) 0)) k" for k
  proof (induction k)
    case 0
    show ?case by (simp add: proper_upto_def)
  next
    case (Suc k)
    then show ?case
      using color_tx_proper [OF assms, of k "fold (color_tx sha txs) [0..<k] (replicate (length txs) 0)"]
      by simp
  qed
  then show ?thesis
    by (simp add: color_all_def)
qed

lemma length_color_all [simp]: "length (color_all sha txs) = length txs"
  by (simp add: color_all_def)

section \<open>Grouping\<close>

lemma mset_hm_push: "mset (concat (map snd (hm_push k v m))) = add_mset v (mset (concat (map snd m)))"
  unfolding hm_push_def by (induction m) (auto split: option.split)

lemma mset_push_all:
  "mset (concat (map snd (fold (\<lambda>(i, c). hm_push c (f i)) ps m))) =
     mset (concat (map snd m)) + mset (map (f \<circ> fst) ps)"
  by (induction ps arbitrary: m) (auto simp: mset_hm_push simp del: mset_concat)

lemma hm_list_push_all:
  "hm_list (fold (\<lambda>(i, c). hm_push c (f i)) ps m) k =
     hm_list m k @ map (f \<circ> fst) (filter (\<lambda>p. snd p = k) ps)"
  by (induction ps arbitrary: m) (auto simp: hm_list_push)

lemma push_all_entries:
  assumes "hm_inv m \<and> (\<forall>(k, vs) \<in> set m. vs \<noteq> [])"
  shows "hm_inv (fold (\<lambda>(i, c). hm_push c (f i)) ps m)
    \<and> (\<forall>(k, vs) \<in> set (fold (\<lambda>(i, c). hm_push c (f i)) ps m). vs \<noteq> [])"
  using assms
proof (induction ps arbitrary: m)
  case (Cons p ps)
  have "set (AList.update k v m) \<subseteq> insert (k, v) (set m)" for k v
    by (induction m) auto
  then have "hm_inv (hm_push (snd p) (f (fst p)) m)
      \<and> (\<forall>(k, vs) \<in> set (hm_push (snd p) (f (fst p)) m). vs \<noteq> [])"
    using Cons.prems by (fastforce simp: hm_push_def hm_inv_update)
  then show ?case
    using Cons.IH by (simp add: case_prod_beta)
qed simp

lemma enumerate_filter_color:
  "map fst (filter (\<lambda>p. snd p = c) (enumerate 0 cs)) = filter (\<lambda>i. cs ! i = c) [0..<length cs]"
proof -
  have "enumerate 0 cs = map (\<lambda>i. (i, cs ! i)) [0..<length cs]"
    by (rule nth_equalityI) (simp_all add: nth_enumerate_eq)
  then show ?thesis
    by (simp add: filter_map o_def)
qed

lemma batch_contents:
  assumes "(c, b) \<in> set (batches_map cs txs)"
  shows "b = map ((!) txs) (filter (\<lambda>i. cs ! i = c) [0..<length cs])" and "b \<noteq> []"
proof -
  note e = push_all_entries [of "[]" "(!) txs" "enumerate 0 cs", folded batches_map_def]
  have "map_of (batches_map cs txs) c = Some b"
    using e assms by (simp add: hm_inv_def)
  then have "b = hm_list (batches_map cs txs) c"
    by (simp add: hm_list_def)
  then show "b = map ((!) txs) (filter (\<lambda>i. cs ! i = c) [0..<length cs])"
    by (simp add: batches_map_def hm_list_push_all flip: enumerate_filter_color)
  show "b \<noteq> []"
    using e assms by fastforce
qed

lemma batches_mset:
  assumes "length cs = length txs"
  shows "mset (concat (map snd (batches_map cs txs))) = mset txs"
proof -
  have "map ((!) txs \<circ> fst) (enumerate 0 cs) = txs"
    using assms by (intro nth_equalityI) (simp_all add: nth_enumerate_eq)
  then show ?thesis
    unfolding batches_map_def mset_push_all by simp
qed

lemma color_class_no_conflict:
  assumes "proper_upto sha txs cs (length txs)" and "length cs = length txs"
  shows "sorted_wrt (\<lambda>s t. \<not> conflict sha s t) (map ((!) txs) (filter (\<lambda>i. cs ! i = c) [0..<length cs]))"
proof -
  have "sorted_wrt (<) (filter (\<lambda>i. cs ! i = c) [0..<length cs])"
    by (intro sorted_wrt_filter) simp
  then have "sorted_wrt (\<lambda>i j. \<not> conflict sha (txs ! i) (txs ! j)) (filter (\<lambda>i. cs ! i = c) [0..<length cs])"
  proof (rule sorted_wrt_mono_rel [rotated])
    fix i j
    assume "i \<in> set (filter (\<lambda>i. cs ! i = c) [0..<length cs])"
      "j \<in> set (filter (\<lambda>i. cs ! i = c) [0..<length cs])" "i < j"
    then have "j < length txs" "cs ! i = cs ! j" "i < j"
      using assms(2) by auto
    with assms(1) show "\<not> conflict sha (txs ! i) (txs ! j)"
      unfolding proper_upto_def by blast
  qed
  then show ?thesis
    by (simp add: sorted_wrt_map)
qed

lemma color_class_subseq:
  assumes "length cs = length txs"
  shows "subseq (map ((!) txs) (filter P [0..<length cs])) txs"
proof -
  have "map ((!) txs) [0..<length cs] = txs"
    using assms by (simp add: map_nth)
  then show ?thesis
    using subseq_map [OF subseq_filter_left [of P "[0..<length cs]"], of "(!) txs"] by simp
qed

section \<open>Properties\<close>

text \<open>
  C11. Scheduling transactions of different hashes loses, adds and duplicates none, and every batch is a
  non-empty selection of the transactions in their original order in which no two conflict,
  whatever the order in which the hash map gives the batches up.
\<close>

theorem batches_conflict_free:
  assumes "distinct (map (tx_hash sha) txs)" and "batch_iterates iter"
  shows "mset (concat (schedule_parallel_batches sha iter txs)) = mset txs
    \<and> (\<forall>b \<in> set (schedule_parallel_batches sha iter txs).
         b \<noteq> [] \<and> subseq b txs \<and> sorted_wrt (\<lambda>s t. \<not> conflict sha s t) b)"
proof -
  let ?m = "batches_map (color_all sha txs) txs"
  have i: "mset (iter ?m) = mset ?m"
    using assms(2) by (simp add: batch_iterates_def)
  then have "mset (schedule_parallel_batches sha iter txs) = mset (map snd ?m)"
    by (simp add: schedule_parallel_batches_def)
  then have "mset (concat (schedule_parallel_batches sha iter txs)) = mset (concat (map snd ?m))"
    by (simp only: mset_concat mset_map sum_mset_sum_list [symmetric])
  moreover have "b \<noteq> [] \<and> subseq b txs \<and> sorted_wrt (\<lambda>s t. \<not> conflict sha s t) b"
    if "b \<in> set (schedule_parallel_batches sha iter txs)" for b
  proof -
    have "b \<in> snd ` set ?m"
      using that mset_eq_setD [OF i] by (simp add: schedule_parallel_batches_def)
    then obtain c where "(c, b) \<in> set ?m"
      by auto
    note b = batch_contents [OF this]
    with color_class_no_conflict [OF color_all_proper [OF assms(1)], of c]
      color_class_subseq [of "color_all sha txs" txs] show ?thesis
      by simp
  qed
  ultimately show ?thesis
    by (simp add: batches_mset)
qed

lemma mset_pair: "mset xs = mset [a, b] \<Longrightarrow> xs = [a, b] \<or> xs = [b, a]"
  by (cases xs; cases "tl xs"; cases "tl (tl xs)")
    (auto simp: add_eq_conv_ex dest: mset_eq_length)

lemma reordered_colors:
  assumes "distinct (map (tx_hash sha) [t0, t1, t2])"
    and "\<not> conflict sha t0 t1" and "\<not> conflict sha t0 t2" and "conflict sha t1 t2"
  shows "index_map sha [t0, t1, t2] = [(tx_hash sha t0, 0), (tx_hash sha t1, 1), (tx_hash sha t2, 2)]"
    and "color_all sha [t0, t1, t2] = [0, 1, 0]"
proof -
  have ne: "tx_hash sha t1 \<noteq> tx_hash sha t0" "tx_hash sha t2 \<noteq> tx_hash sha t0" "tx_hash sha t2 \<noteq> tx_hash sha t1"
    using assms(1) by auto
  have p: "index_pairs (Suc (Suc (Suc 0))) = [(0, Suc 0), (0, Suc (Suc 0)), (Suc 0, Suc (Suc 0))]"
    by (simp add: index_pairs_def)
  have g: "build_conflict_graph sha [t0, t1, t2] =
      [(tx_hash sha t1, [tx_hash sha t2]), (tx_hash sha t2, [tx_hash sha t1])]"
    using assms by (simp add: build_conflict_graph_def Let_def p add_edge_def hm_list_def)
  show i: "index_map sha [t0, t1, t2] = [(tx_hash sha t0, 0), (tx_hash sha t1, 1), (tx_hash sha t2, 2)]"
    using assms(1) by (simp add: index_map_def)
  have f: "first_free [] 0 = 0" "first_free [0] 0 = 1" "first_free [Suc 0] 0 = 0"
    by code_simp+
  show "color_all sha [t0, t1, t2] = [0, 1, 0]"
    using assms(1) ne
    by (simp add: color_all_def color_tx_def g i forbidden_colors_def List.map_filter_def f numeral_2_eq_2)
qed

theorem batches_conflict_free_witness:
  "mset (concat (schedule_parallel_batches (\<lambda>x. x) rev
     [new_transfer [1] [2] 5 0 21 1, new_transfer [3] [2] 5 0 21 1])) =
   {#new_transfer [1] [2] 5 0 21 1, new_transfer [3] [2] 5 0 21 1#}"
  using batches_conflict_free [of "\<lambda>x. x" "[new_transfer [1] [2] 5 0 21 1, new_transfer [3] [2] 5 0 21 1]" rev]
  by (simp add: batch_iterates_def new_transfer_def tx_hash_def tx_preimage_def)

text \<open>
  The hashes have to differ: the same transaction twice conflicts with itself, but both copies are one
  node of the graph, get the same colour and end up in one batch.
\<close>

theorem duplicates_share_batch:
  assumes "batch_iterates iter"
  shows "schedule_parallel_batches sha iter [tx, tx] = [[tx, tx]] \<and> conflict sha tx tx"
proof -
  have c: "conflict sha tx tx"
    by (cases "payload tx") (auto simp: transactions_conflict_iff analyze_access_def Let_def)
  have p: "index_pairs (Suc (Suc 0)) = [(0, Suc 0)]"
    by (simp add: index_pairs_def)
  have g: "build_conflict_graph sha [tx, tx] = [(tx_hash sha tx, [tx_hash sha tx])]"
    using c by (simp add: build_conflict_graph_def Let_def p add_edge_def hm_list_def)
  have i: "index_map sha [tx, tx] = [(tx_hash sha tx, 1)]"
    by (simp add: index_map_def)
  have f: "first_free [0] 0 = 1"
    by code_simp
  have cs: "color_all sha [tx, tx] = [1, 1]"
    by (simp add: color_all_def color_tx_def g i forbidden_colors_def List.map_filter_def f)
  have m: "batches_map [1, 1] [tx, tx] = [(1, [tx, tx])]"
    by (simp add: batches_map_def hm_push_def)
  have "iter [(1, [tx, tx])] = [(1, [tx, tx])]"
    using assms mset_single_iff [of "iter [(1, [tx, tx])]" "(1, [tx, tx])"] by (simp add: batch_iterates_def)
  then show ?thesis
    using c by (simp add: schedule_parallel_batches_def cs m [unfolded One_nat_def])
qed

theorem duplicates_share_batch_witness:
  "schedule_parallel_batches (\<lambda>x. x) rev [new_transfer [1] [2] 5 0 21 1, new_transfer [1] [2] 5 0 21 1] =
     [[new_transfer [1] [2] 5 0 21 1, new_transfer [1] [2] 5 0 21 1]]"
  using duplicates_share_batch [of rev] by (simp add: batch_iterates_def)

text \<open>
  The order of conflicting transactions is not kept. The colouring counts a neighbour that
  has no colour yet as colour 0, so of two conflicting transactions the later one can join the
  batch of an unrelated first transaction and run before the earlier one.
\<close>

theorem conflicting_transactions_reordered:
  assumes "distinct (map (tx_hash sha) [t0, t1, t2])" and "batch_iterates iter"
    and "\<not> conflict sha t0 t1" and "\<not> conflict sha t0 t2" and "conflict sha t1 t2"
  shows "schedule_parallel_batches sha iter [t0, t1, t2] = [[t0, t2], [t1]]"
proof -
  note r = reordered_colors [OF assms(1,3-5)]
  let ?key = "batch_key (index_map sha [t0, t1, t2]) sha"
  let ?a = "(0 :: nat, [t0, t2])" and ?b = "(Suc 0, [t1])"
  have m: "batches_map [0, Suc 0, 0] [t0, t1, t2] = [?a, ?b]"
    by (simp add: batches_map_def hm_push_def)
  have "mset (iter [?a, ?b]) = mset [?a, ?b]"
    using assms(2) by (simp add: batch_iterates_def)
  then have i: "iter [?a, ?b] = [?a, ?b] \<or> iter [?a, ?b] = [?b, ?a]"
    by (rule mset_pair)
  have "?key [t0, t2] = 0" "?key [t1] = 1"
    using assms(1) by (auto simp: batch_key_def r)
  then show ?thesis
    using i by (auto simp: schedule_parallel_batches_def r(2) m simp del: One_nat_def) (simp_all add: m)
qed

definition transfer_from :: "u8 \<Rightarrow> u8 \<Rightarrow> u64 \<Rightarrow> transaction" where
  "transfer_from a b nonce = new_transfer (replicate 20 a) (replicate 20 b) 5 nonce 21 1"

text \<open>The scheduler meets a digest that is the identity, which has no collisions.\<close>

theorem conflicting_transactions_reordered_witness:
  "schedule_parallel_batches (\<lambda>x. x) rev [transfer_from 1 2 0, transfer_from 3 4 0, transfer_from 3 4 1] =
     [[transfer_from 1 2 0, transfer_from 3 4 1], [transfer_from 3 4 0]]"
  by (rule conflicting_transactions_reordered)
    (simp_all add: batch_iterates_def transfer_from_def new_transfer_def tx_hash_def tx_preimage_def
      analyze_access_def transactions_conflict_iff)

end
