(* ===== verification/Parallel_Exec.thy ===== *)
theory Parallel_Exec
  imports Contracts Scheduler
begin

text \<open>
  The parallel executor (second half of \<^verbatim>\<open>src/src/execution/parallel_executor.rs\<close>): overlays over
  state, contract storage and registry, the execution of one transaction against an overlay, the
  merge of an overlay, and the execution of the batches of \<open>Scheduler\<close>.

  The threads of a batch only read the shared state and write their own overlay, and their
  results are collected in the order of the batch, so running a batch is a \<open>map\<close>. State, registry
  and contract storage together are the record \<open>contract_executor\<close>; a write that fails in the
  contract database panics, which is the result \<open>None\<close>. The transaction hash orders the merge;
  the signature scheme and the WebAssembly engine are parameters as before, the engine now over
  the overlay of the storage.
\<close>

section \<open>Overlays\<close>

record state_overlay =
  modified_accounts :: leaf_map

definition read_account :: "state_overlay \<Rightarrow> address \<Rightarrow> state_manager \<Rightarrow> account" where
  "read_account ov a base =
     (case map_of (modified_accounts ov) a of
        Some acc \<Rightarrow> acc
      | None \<Rightarrow> account_or_zero (state_tree base) a)"

definition write_account :: "address \<Rightarrow> account \<Rightarrow> state_overlay \<Rightarrow> state_overlay" where
  "write_account a acc ov = ov\<lparr>modified_accounts := AList.update a acc (modified_accounts ov)\<rparr>"

record 'db storage_overlay =
  so_base :: 'db
  so_modified :: "(bytes \<times> bytes) list"

definition overlay_storage_read :: "'db cdb \<Rightarrow> bytes \<Rightarrow> 'db storage_overlay \<Rightarrow> bytes option" where
  "overlay_storage_read K key so =
     (case map_of (so_modified so) key of Some v \<Rightarrow> Some v | None \<Rightarrow> storage_get K (so_base so) key)"

definition overlay_storage_write :: "bytes \<Rightarrow> bytes \<Rightarrow> 'db storage_overlay \<Rightarrow> 'db storage_overlay" where
  "overlay_storage_write key value so = so\<lparr>so_modified := AList.update key value (so_modified so)\<rparr>"

record 'db overlay =
  ov_state :: state_overlay
  ov_storage :: "'db storage_overlay"
  registry_updates :: "(address \<times> bytes) list"

definition overlay_new :: "'db \<Rightarrow> 'db overlay" where
  "overlay_new storage_base =
     \<lparr>ov_state = \<lparr>modified_accounts = []\<rparr>, ov_storage = \<lparr>so_base = storage_base, so_modified = []\<rparr>,
      registry_updates = []\<rparr>"

section \<open>One transaction\<close>

datatype par_error =
    ParInvalid tx_error | ParNonce u64 u64 | ParFee | ParFunds | ParInstantiate | ParInitFailed
  | ParNoContract | ParCallFailed

record transaction_receipt =
  rc_tx_hash :: tx_id
  rc_success :: bool
  rc_gas_used :: u64
  rc_error :: "par_error option"

definition failed :: "tx_id \<Rightarrow> par_error \<Rightarrow> transaction_receipt" where
  "failed h e = \<lparr>rc_tx_hash = h, rc_success = False, rc_gas_used = 0, rc_error = Some e\<rparr>"

definition succeeded :: "tx_id \<Rightarrow> u64 \<Rightarrow> transaction_receipt" where
  "succeeded h used = \<lparr>rc_tx_hash = h, rc_success = True, rc_gas_used = used, rc_error = None\<rparr>"

definition charge_fee :: "transaction \<Rightarrow> account \<Rightarrow> u64 \<Rightarrow> account option" where
  "charge_fee tx acc used =
     (let fee = sat_mul used (gas_price tx)
      in if acc_balance acc < fee then None
         else Some (acc\<lparr>acc_balance := sat_sub (acc_balance acc) fee\<rparr>))"

definition par_transfer ::
  "tx_id \<Rightarrow> transaction \<Rightarrow> address \<Rightarrow> u64 \<Rightarrow> account \<Rightarrow> state_manager \<Rightarrow> 'db overlay
    \<Rightarrow> transaction_receipt \<times> 'db overlay" where
  "par_transfer h tx to amount sender base ov =
     (let total = sat_add amount (sat_mul (gas_limit tx) (gas_price tx)) in
      if acc_balance sender < total then (failed h ParFunds, ov)
      else
        let sender = sender\<lparr>acc_balance := sat_sub (acc_balance sender) amount,
                            acc_nonce := acc_nonce sender + 1\<rparr>;
            st = write_account (tx_from tx) sender (ov_state ov);
            recv = read_account st to base;
            st = write_account to (recv\<lparr>acc_balance := sat_add (acc_balance recv) amount\<rparr>) st
        in case charge_fee tx sender (gas_limit tx) of
             None \<Rightarrow> (failed h ParFee, ov\<lparr>ov_state := st\<rparr>)
           | Some sender \<Rightarrow>
               (succeeded h (gas_limit tx), ov\<lparr>ov_state := write_account (tx_from tx) sender st\<rparr>))"

definition par_deploy ::
  "(bytes \<Rightarrow> bytes) \<Rightarrow> 'db storage_overlay wasm \<Rightarrow> tx_id \<Rightarrow> transaction \<Rightarrow> bytes \<Rightarrow> account
    \<Rightarrow> state_manager \<Rightarrow> 'db overlay \<Rightarrow> transaction_receipt \<times> 'db overlay" where
  "par_deploy sha W h tx wasm_code sender base ov =
     (let address = contract_address_of sha wasm_code in
      case wasm_deploy W wasm_code (runtime_for address tx (ov_storage ov)) of
        Inl d \<Rightarrow> (failed h ParInstantiate, ov\<lparr>ov_storage := d\<rparr>)
      | Inr (success, rt) \<Rightarrow>
          let ov = ov\<lparr>ov_storage := rt_storage rt\<rparr>; used = gas_used (rt_gas rt) in
          case charge_fee tx sender used of
            None \<Rightarrow> (failed h ParFee, ov)
          | Some sender \<Rightarrow>
              let sender = sender\<lparr>acc_nonce := acc_nonce sender + 1\<rparr>;
                  st = write_account (tx_from tx) sender (ov_state ov)
              in if success then
                   let new_acc = (read_account st address base)\<lparr>acc_balance := 0, acc_nonce := 0\<rparr>
                   in (succeeded h used,
                       ov\<lparr>ov_state := write_account address new_acc st,
                          registry_updates := registry_updates ov @ [(address, wasm_code)]\<rparr>)
                 else (failed h ParInitFailed, ov\<lparr>ov_state := st\<rparr>))"

definition par_call ::
  "'rdb cdb \<Rightarrow> info_codec \<Rightarrow> 'db storage_overlay wasm \<Rightarrow> tx_id \<Rightarrow> transaction \<Rightarrow> address \<Rightarrow> bytes
    \<Rightarrow> account \<Rightarrow> 'rdb \<Rightarrow> 'db overlay \<Rightarrow> transaction_receipt \<times> 'db overlay" where
  "par_call KR C W h tx contract_address call_method sender registry ov =
     (case get_contract KR C registry contract_address of
        None \<Rightarrow> (failed h ParNoContract, ov)
      | Some contract \<Rightarrow>
     (case wasm_call W (ci_bytecode contract) call_method (runtime_for contract_address tx (ov_storage ov)) of
        Inl d \<Rightarrow> (failed h ParInstantiate, ov\<lparr>ov_storage := d\<rparr>)
      | Inr (success, rt) \<Rightarrow>
          let ov = ov\<lparr>ov_storage := rt_storage rt\<rparr>; used = gas_used (rt_gas rt) in
          case charge_fee tx sender used of
            None \<Rightarrow> (failed h ParFee, ov)
          | Some sender \<Rightarrow>
              (if success then succeeded h used else failed h ParCallFailed,
               ov\<lparr>ov_state := write_account (tx_from tx)
                  (sender\<lparr>acc_nonce := acc_nonce sender + 1\<rparr>) (ov_state ov)\<rparr>)))"

definition par_execute_transaction ::
  "(bytes \<Rightarrow> bytes) \<Rightarrow> ('sk, 'pk, 'rs) secp \<Rightarrow> 'rdb cdb \<Rightarrow> info_codec \<Rightarrow> 'db storage_overlay wasm
    \<Rightarrow> transaction \<Rightarrow> 'db overlay \<Rightarrow> state_manager \<Rightarrow> 'rdb \<Rightarrow> transaction_receipt \<times> 'db overlay" where
  "par_execute_transaction sha k KR C W tx ov base registry =
     (let h = tx_hash sha tx in
      case tx_validate_basic sha k tx of
        Inl e \<Rightarrow> (failed h (ParInvalid e), ov)
      | Inr _ \<Rightarrow>
          let sender = read_account (ov_state ov) (tx_from tx) base in
          if acc_nonce sender \<noteq> tx_nonce tx
          then (failed h (ParNonce (acc_nonce sender) (tx_nonce tx)), ov)
          else case payload tx of
            Transfer to amount \<Rightarrow> par_transfer h tx to amount sender base ov
          | ContractDeploy wasm_code _ \<Rightarrow> par_deploy sha W h tx wasm_code sender base ov
          | ContractCall a m _ \<Rightarrow> par_call KR C W h tx a m sender registry ov)"

section \<open>Merging and batches\<close>

fun storage_put_all :: "'db cdb \<Rightarrow> (bytes \<times> bytes) list \<Rightarrow> 'db \<Rightarrow> 'db option" where
  "storage_put_all K [] d = Some d"
| "storage_put_all K ((key, value) # kvs) d =
     (case storage_put K d key value of None \<Rightarrow> None | Some d' \<Rightarrow> storage_put_all K kvs d')"

definition register_ignoring ::
  "'rdb cdb \<Rightarrow> info_codec \<Rightarrow> address \<times> bytes \<Rightarrow> 'rdb \<Rightarrow> 'rdb" where
  "register_ignoring KR C ab r =
     (case register_contract KR C (fst ab) (snd ab) r of Inl _ \<Rightarrow> r | Inr r' \<Rightarrow> r')"

definition merge_overlay ::
  "(bytes \<Rightarrow> bytes) \<Rightarrow> leaf_iter \<Rightarrow> 'rdb cdb \<Rightarrow> info_codec \<Rightarrow> 'db cdb \<Rightarrow> 'db overlay
    \<Rightarrow> ('rdb, 'db) contract_executor \<Rightarrow> ('rdb, 'db) contract_executor option" where
  "merge_overlay sha iter KR C KS ov ce =
     (let t = fold (\<lambda>(a, acc). update_account sha iter a acc)
            (sort_key fst (modified_accounts (ov_state ov))) (state_tree (ce_state ce))
      in case storage_put_all KS (sort_key fst (so_modified (ov_storage ov))) (ce_storage ce) of
           None \<Rightarrow> None
         | Some d \<Rightarrow>
             Some \<lparr>ce_state = \<lparr>state_tree = t, current_state_root = calculate_root t\<rparr>,
                   ce_registry = fold (register_ignoring KR C) (sort_key fst (registry_updates ov)) (ce_registry ce),
                   ce_storage = d\<rparr>)"

fun merge_results ::
  "(bytes \<Rightarrow> bytes) \<Rightarrow> leaf_iter \<Rightarrow> 'rdb cdb \<Rightarrow> info_codec \<Rightarrow> 'db cdb
    \<Rightarrow> (tx_id \<times> transaction_receipt \<times> 'db overlay) list \<Rightarrow> ('rdb, 'db) contract_executor
    \<Rightarrow> (transaction_receipt list \<times> ('rdb, 'db) contract_executor) option" where
  "merge_results sha iter KR C KS [] ce = Some ([], ce)"
| "merge_results sha iter KR C KS ((h, r, ov) # rs) ce =
     (case if rc_success r then merge_overlay sha iter KR C KS ov ce else Some ce of
        None \<Rightarrow> None
      | Some ce' \<Rightarrow> map_option (apfst (Cons r)) (merge_results sha iter KR C KS rs ce'))"

definition execute_batch ::
  "(bytes \<Rightarrow> bytes) \<Rightarrow> ('sk, 'pk, 'rs) secp \<Rightarrow> leaf_iter \<Rightarrow> 'rdb cdb \<Rightarrow> info_codec \<Rightarrow> 'db cdb
    \<Rightarrow> 'db storage_overlay wasm \<Rightarrow> batch \<Rightarrow> ('rdb, 'db) contract_executor
    \<Rightarrow> (transaction_receipt list \<times> ('rdb, 'db) contract_executor) option" where
  "execute_batch sha k iter KR C KS W b ce =
     merge_results sha iter KR C KS
       (sort_key fst (map (\<lambda>tx. (tx_hash sha tx,
          par_execute_transaction sha k KR C W tx (overlay_new (ce_storage ce)) (ce_state ce) (ce_registry ce))) b)) ce"

fun execute_batches ::
  "(bytes \<Rightarrow> bytes) \<Rightarrow> ('sk, 'pk, 'rs) secp \<Rightarrow> leaf_iter \<Rightarrow> 'rdb cdb \<Rightarrow> info_codec \<Rightarrow> 'db cdb
    \<Rightarrow> 'db storage_overlay wasm \<Rightarrow> batch list \<Rightarrow> ('rdb, 'db) contract_executor
    \<Rightarrow> (transaction_receipt list \<times> ('rdb, 'db) contract_executor) option" where
  "execute_batches sha k iter KR C KS W [] ce = Some ([], ce)"
| "execute_batches sha k iter KR C KS W (b # bs) ce =
     (case execute_batch sha k iter KR C KS W b ce of
        None \<Rightarrow> None
      | Some (rs, ce') \<Rightarrow> map_option (apfst ((@) rs)) (execute_batches sha k iter KR C KS W bs ce'))"

definition execute_block_transactions_parallel ::
  "(bytes \<Rightarrow> bytes) \<Rightarrow> ('sk, 'pk, 'rs) secp \<Rightarrow> leaf_iter \<Rightarrow> ((nat \<times> batch) list \<Rightarrow> (nat \<times> batch) list)
    \<Rightarrow> 'rdb cdb \<Rightarrow> info_codec \<Rightarrow> 'db cdb \<Rightarrow> 'db storage_overlay wasm \<Rightarrow> transaction list
    \<Rightarrow> ('rdb, 'db) contract_executor
    \<Rightarrow> (transaction_receipt list \<times> ('rdb, 'db) contract_executor) option" where
  "execute_block_transactions_parallel sha k iter biter KR C KS W txs ce =
     execute_batches sha k iter KR C KS W (schedule_parallel_batches sha biter txs) ce"

section \<open>Sorting\<close>

lemma insort_key_map: "insort_key f (g x) (map g xs) = map g (insort_key (f \<circ> g) x xs)"
  by (induction xs) auto

lemma sort_key_map: "sort_key f (map g xs) = map g (sort_key (f \<circ> g) xs)"
  by (induction xs) (simp_all add: insort_key_map o_def insort_key_map [unfolded o_def])

lemma sorted_wrt_insort_sym:
  assumes "\<And>x y. R x y \<longleftrightarrow> R y x"
  shows "sorted_wrt R (insort_key f x xs) \<longleftrightarrow> (\<forall>y \<in> set xs. R x y) \<and> sorted_wrt R xs"
  by (induction xs) (use assms in \<open>auto simp: set_insort_key\<close>)

lemma sorted_wrt_sort_sym:
  assumes "\<And>x y. R x y \<longleftrightarrow> R y x"
  shows "sorted_wrt R (sort_key f xs) \<longleftrightarrow> sorted_wrt R xs"
  by (induction xs) (auto simp: sorted_wrt_insort_sym [OF assms])

section \<open>Transfers\<close>

fun transfer_of :: "transaction \<Rightarrow> (address \<times> u64) option" where
  "transfer_of tx = (case payload tx of Transfer to amount \<Rightarrow> Some (to, amount) | _ \<Rightarrow> None)"

definition touched :: "transaction \<Rightarrow> address set" where
  "touched tx = insert (tx_from tx) (case payload tx of Transfer to _ \<Rightarrow> {to} | _ \<Rightarrow> {})"

lemma transfer_conflict:
  assumes "payload s = Transfer a m" and "payload t = Transfer b n"
  shows "conflict sha s t \<longleftrightarrow> touched s \<inter> touched t \<noteq> {}"
  using assms by (auto simp: transactions_conflict_iff analyze_access_def touched_def)

abbreviation exec_fresh where
  "exec_fresh sha k KR C W ce tx \<equiv>
     par_execute_transaction sha k KR C W tx (overlay_new (ce_storage ce)) (ce_state ce) (ce_registry ce)"

abbreviation ce_account :: "('rdb, 'db) contract_executor \<Rightarrow> address \<Rightarrow> account" where
  "ce_account ce a \<equiv> account_or_zero (state_tree (ce_state ce)) a"

lemma read_write_account:
  "read_account (write_account a acc ov) b base = (if b = a then acc else read_account ov b base)"
  by (simp add: read_account_def write_account_def map_of_hm_update)

lemma read_account_empty [simp]: "read_account \<lparr>modified_accounts = []\<rparr> a base = account_or_zero (state_tree base) a"
  by (simp add: read_account_def)

lemma exec_fresh_local:
  assumes "payload tx = Transfer to n"
    and "\<And>a. a \<in> touched tx \<Longrightarrow> ce_account ce a = ce_account ce' a" and "ce_storage ce = ce_storage ce'"
  shows "exec_fresh sha k KR C W ce tx = exec_fresh sha k KR C W ce' tx"
proof -
  have "ce_account ce (tx_from tx) = ce_account ce' (tx_from tx)" "ce_account ce to = ce_account ce' to"
    using assms(1,2) by (simp_all add: touched_def)
  then show ?thesis
    by (simp add: par_execute_transaction_def overlay_new_def assms(1,3) par_transfer_def Let_def read_write_account
        cong: if_cong sum.case_cong option.case_cong)
qed

definition writes_within :: "address set \<Rightarrow> state_overlay \<Rightarrow> bool" where
  "writes_within S ov \<longleftrightarrow> fst ` set (modified_accounts ov) \<subseteq> S \<and> hm_inv (modified_accounts ov)"

lemma writes_within_write: "writes_within S ov \<Longrightarrow> a \<in> S \<Longrightarrow> writes_within S (write_account a acc ov)"
  by (auto simp: writes_within_def write_account_def hm_inv_update dom_update)

lemma writes_within_empty [simp]: "writes_within S \<lparr>modified_accounts = []\<rparr>"
  by (simp add: writes_within_def)

lemma read_outside_writes:
  "writes_within S ov \<Longrightarrow> a \<notin> S \<Longrightarrow> read_account ov a base = account_or_zero (state_tree base) a"
  by (force simp: writes_within_def read_account_def dest: map_of_SomeD split: option.split)

lemma exec_fresh_overlay:
  assumes "payload tx = Transfer to n" and "exec_fresh sha k KR C W ce tx = (r, ov)"
  shows "writes_within (touched tx) (ov_state ov) \<and> so_modified (ov_storage ov) = [] \<and> registry_updates ov = []"
proof -
  have m: "tx_from tx \<in> touched tx" "to \<in> touched tx"
    using assms(1) by (simp_all add: touched_def)
  show ?thesis
    using assms(2)
    by (auto simp: par_execute_transaction_def overlay_new_def assms(1) par_transfer_def Let_def m
        intro!: writes_within_write split: sum.splits if_splits option.splits)
qed

lemma account_after_updates:
  assumes "distinct (map fst l)"
  shows "account_or_zero (fold (\<lambda>(a, acc). update_account sha iter a acc) l t) b =
     (case map_of l b of Some acc \<Rightarrow> acc | None \<Rightarrow> account_or_zero t b)"
  using assms
proof (induction l arbitrary: t)
  case (Cons p l)
  have n: "map_of l b = None" if "b = fst p"
    using Cons.prems that by (simp add: map_of_eq_None_iff)
  have "distinct (map fst l)"
    using Cons.prems by simp
  note IH = Cons.IH [OF this]
  show ?case
    by (cases p) (auto simp: IH account_or_zero_update n split: option.split)
qed simp

lemma map_of_sort_key_fst: "distinct (map fst l) \<Longrightarrow> map_of (sort_key fst l) = map_of l"
  by (intro map_of_inject_set [THEN iffD2]) (simp_all add: distinct_map inj_on_def)

lemma merge_transfer:
  assumes "payload tx = Transfer to n" and "exec_fresh sha k KR C W ce tx = (r, ov)"
  shows "\<exists>ce'. merge_overlay sha iter KR C KS ov g = Some ce'
    \<and> ce_storage ce' = ce_storage g \<and> ce_registry ce' = ce_registry g
    \<and> (\<forall>a. ce_account ce' a = read_account (ov_state ov) a (ce_state g))
    \<and> current_state_root (ce_state ce') = calculate_root (state_tree (ce_state ce'))"
proof -
  note o = exec_fresh_overlay [OF assms]
  then have d: "distinct (map fst (modified_accounts (ov_state ov)))"
    by (simp add: writes_within_def hm_inv_def)
  moreover from d have "distinct (map fst (sort_key fst (modified_accounts (ov_state ov))))"
    by (simp add: distinct_map inj_on_def)
  ultimately show ?thesis
    by (simp add: merge_overlay_def o Let_def read_account_def account_after_updates map_of_sort_key_fst)
qed

lemma merge_transfer_frame:
  assumes "payload tx = Transfer to n" and "exec_fresh sha k KR C W ce tx = (r, ov)"
  shows "\<exists>ce'. (if rc_success r then merge_overlay sha iter KR C KS ov g else Some g) = Some ce'
    \<and> ce_storage ce' = ce_storage g \<and> ce_registry ce' = ce_registry g
    \<and> (\<forall>a. a \<notin> touched tx \<longrightarrow> ce_account ce' a = ce_account g a)"
proof -
  obtain ce' where c: "merge_overlay sha iter KR C KS ov g = Some ce'"
      "ce_storage ce' = ce_storage g" "ce_registry ce' = ce_registry g"
      "\<And>a. ce_account ce' a = read_account (ov_state ov) a (ce_state g)"
    using merge_transfer [OF assms, of iter KS g] by blast
  have w: "writes_within (touched tx) (ov_state ov)"
    using exec_fresh_overlay [OF assms] by simp
  have "\<forall>a. a \<notin> touched tx \<longrightarrow> ce_account ce' a = ce_account g a"
    using read_outside_writes [OF w] c(4) by simp
  with c(1-3) show ?thesis
    by (cases "rc_success r") simp_all
qed

lemma execute_batch_single:
  "execute_batch sha k iter KR C KS W [tx] ce =
     (case exec_fresh sha k KR C W ce tx of (r, ov) \<Rightarrow>
        map_option (Pair [r]) (if rc_success r then merge_overlay sha iter KR C KS ov ce else Some ce))"
  by (simp add: execute_batch_def split: prod.split option.split)

lemma merge_results_sequential:
  assumes "\<forall>tx \<in> set txs. \<exists>to n. payload tx = Transfer to n"
    and "sorted_wrt (\<lambda>s t. \<not> conflict sha s t) txs"
    and "\<And>tx a. tx \<in> set txs \<Longrightarrow> a \<in> touched tx \<Longrightarrow> ce_account ce a = ce_account g a"
    and "ce_storage ce = ce_storage g"
  shows "merge_results sha iter KR C KS
      (map (\<lambda>tx. (tx_hash sha tx, exec_fresh sha k KR C W ce tx)) txs) g =
    execute_batches sha k iter KR C KS W (map (\<lambda>tx. [tx]) txs) g"
  using assms
proof (induction txs arbitrary: g)
  case (Cons tx txs)
  obtain to n where t: "payload tx = Transfer to n"
    using Cons.prems(1) by auto
  have eq: "exec_fresh sha k KR C W ce tx = exec_fresh sha k KR C W g tx"
    by (rule exec_fresh_local [OF t]) (use Cons.prems(3,4) in auto)
  obtain r ov where e: "exec_fresh sha k KR C W g tx = (r, ov)"
    by fastforce
  obtain g' where g: "(if rc_success r then merge_overlay sha iter KR C KS ov g else Some g) = Some g'"
      "ce_storage g' = ce_storage g" "ce_registry g' = ce_registry g"
      "\<And>a. a \<notin> touched tx \<Longrightarrow> ce_account g' a = ce_account g a"
    using merge_transfer_frame [OF t e, of iter KS g] by blast
  have "ce_account ce a = ce_account g' a" if s: "s \<in> set txs" and a: "a \<in> touched s" for s a
  proof -
    obtain to' n' where "payload s = Transfer to' n'"
      using Cons.prems(1) s by auto
    then have "touched tx \<inter> touched s = {}"
      using Cons.prems(2) s transfer_conflict [OF t, of s] by auto
    with a have "a \<notin> touched tx"
      by blast
    from g(4) [OF this] Cons.prems(3) [of s a] s a show ?thesis
      by simp
  qed
  then have "merge_results sha iter KR C KS
      (map (\<lambda>tx. (tx_hash sha tx, exec_fresh sha k KR C W ce tx)) txs) g' =
      execute_batches sha k iter KR C KS W (map (\<lambda>tx. [tx]) txs) g'"
    by (intro Cons.IH) (use Cons.prems g(2) in auto)
  then show ?case
    by (simp add: eq e g(1) execute_batch_single)
      (simp add: apfst_def map_prod_def case_prod_beta' fun_eq_iff option.map_comp o_def)
qed simp

lemma words_within_supply:
  fixes bal n fee :: u64
  assumes "\<not> bal < sat_add n fee" and "unat bal < 2 ^ 64 - 1"
  shows "sat_sub (sat_sub bal n) fee = bal - sat_add n fee" and "\<not> sat_sub bal n < fee"
proof -
  have le: "unat n + unat fee \<le> unat bal" and s: "unat (sat_add n fee) = unat n + unat fee"
    using assms by (auto simp: word_less_nat_alt unat_sat_add min_def split: if_splits)
  show "sat_sub (sat_sub bal n) fee = bal - sat_add n fee"
    using le assms(1) by (simp add: word_unat_eq_iff unat_sat_sub unat_sub word_le_nat_alt not_less s)
  show "\<not> sat_sub bal n < fee"
    using le by (simp add: word_less_nat_alt unat_sat_sub)
qed

lemma sat_add_no_overflow: "unat a + unat b < 2 ^ 64 \<Longrightarrow> sat_add a b = (a + b :: u64)"
  by (simp add: sat_add_def)

lemma par_transfer_validated:
  assumes "payload tx = Transfer to n" and "tx_validate_basic sha k tx = Inr ()"
  shows "exec_fresh sha k KR C W ce tx =
    (let h = tx_hash sha tx; sender = ce_account ce (tx_from tx) in
     if acc_nonce sender \<noteq> tx_nonce tx
     then (failed h (ParNonce (acc_nonce sender) (tx_nonce tx)), overlay_new (ce_storage ce))
     else par_transfer h tx to n sender (ce_state ce) (overlay_new (ce_storage ce)))"
  by (simp add: par_execute_transaction_def assms Let_def overlay_new_def)

lemma validated_amount:
  "payload tx = Transfer to n \<Longrightarrow> tx_validate_basic sha k tx = Inr () \<Longrightarrow> n \<noteq> 0"
  by (auto simp: tx_validate_basic_def split: if_splits)

text \<open>The accounts after a funded transfer, for any sender and receiver.\<close>

lemma par_transfer_funded:
  assumes "\<not> acc_balance sender < sat_add n (tx_fee tx)" and "unat (acc_balance sender) < 2 ^ 64 - 1"
  defines "debited \<equiv> sender\<lparr>acc_balance := sat_sub (acc_balance sender) n, acc_nonce := acc_nonce sender + 1\<rparr>"
  shows "\<exists>ov'. par_transfer h tx to n sender base (overlay_new d) = (succeeded h (gas_limit tx), ov')
    \<and> (\<forall>a. read_account (ov_state ov') a g =
         (if a = tx_from tx
          then sender\<lparr>acc_balance := acc_balance sender - sat_add n (tx_fee tx), acc_nonce := acc_nonce sender + 1\<rparr>
          else if a = to then (account_or_zero (state_tree base) to)
            \<lparr>acc_balance := sat_add (acc_balance (account_or_zero (state_tree base) to)) n\<rparr>
          else account_or_zero (state_tree g) a))"
proof -
  note w = words_within_supply [OF assms(1,2)]
  have "charge_fee tx debited (gas_limit tx) =
      Some (sender\<lparr>acc_balance := acc_balance sender - sat_add n (tx_fee tx), acc_nonce := acc_nonce sender + 1\<rparr>)"
    using w by (simp add: charge_fee_def debited_def tx_fee_def)
  with assms(1) show ?thesis
    by (auto simp: par_transfer_def Let_def overlay_new_def read_write_account debited_def tx_fee_def)
qed

lemma transfer_agreement:
  assumes "payload tx = Transfer to n" and "tx_validate_basic sha k tx = Inr ()"
    and "state_inv (ce_state ce)" and "tx_from tx \<noteq> to"
    and "tx_from tx \<noteq> EMISSION_STATE_ACCOUNT" and "to \<noteq> EMISSION_STATE_ACCOUNT"
  shows "case apply_transaction sha iter tx (ce_state ce) of
      Inl e \<Rightarrow> \<exists>e'. execute_batch sha k iter KR C KS W [tx] ce = Some ([failed (tx_hash sha tx) e'], ce)
    | Inr s \<Rightarrow> \<exists>ce'. execute_batch sha k iter KR C KS W [tx] ce =
          Some ([succeeded (tx_hash sha tx) (gas_limit tx)], ce')
        \<and> (\<forall>a. ce_account ce' a = account_or_zero (state_tree s) a)
        \<and> ce_storage ce' = ce_storage ce \<and> ce_registry ce' = ce_registry ce"
proof -
  let ?h = "tx_hash sha tx" and ?S = "ce_account ce (tx_from tx)" and ?R = "ce_account ce to"
  have "circulating (leaves (state_tree (ce_state ce))) \<le> 600000000"
    using assms(3) by (simp add: state_inv_def)
  then have small: "unat (acc_balance ?S) \<le> 600000000" "unat (acc_balance ?R) \<le> 600000000"
    using balance_le_supply [OF assms(5), of "state_tree (ce_state ce)"]
      balance_le_supply [OF assms(6), of "state_tree (ce_state ce)"] by simp_all
  note e = par_transfer_validated [OF assms(1,2), where KR = KR and C = C and W = W and ce = ce]
  have n: "n \<noteq> 0"
    using validated_amount [OF assms(1,2)] .
  consider "acc_nonce ?S \<noteq> tx_nonce tx" | "acc_nonce ?S = tx_nonce tx" "acc_balance ?S < sat_add n (tx_fee tx)"
    | "acc_nonce ?S = tx_nonce tx" "\<not> acc_balance ?S < sat_add n (tx_fee tx)"
    by blast
  then show ?thesis
  proof cases
    case 1
    then show ?thesis
      using n by (auto simp: apply_transaction_def assms(1) apply_transfer_def Let_def execute_batch_single e failed_def)
  next
    case 2
    then show ?thesis
      using n by (auto simp: apply_transaction_def assms(1) apply_transfer_def Let_def execute_batch_single e
          par_transfer_def failed_def tx_fee_def)
  next
    case 3
    have "unat (acc_balance ?S) < 2 ^ 64 - 1"
      using small by simp
    note f = par_transfer_funded [OF 3(2) this, of ?h to "ce_state ce" "ce_storage ce" "ce_state ce"]
    then obtain ov where ov: "exec_fresh sha k KR C W ce tx = (succeeded ?h (gas_limit tx), ov)"
      and acc: "\<And>a. read_account (ov_state ov) a (ce_state ce) =
         (if a = tx_from tx
          then ?S\<lparr>acc_balance := acc_balance ?S - sat_add n (tx_fee tx), acc_nonce := acc_nonce ?S + 1\<rparr>
          else if a = to then ?R\<lparr>acc_balance := sat_add (acc_balance ?R) n\<rparr> else ce_account ce a)"
      using e 3(1) by (auto simp: Let_def)
    obtain ce' where m: "merge_overlay sha iter KR C KS ov ce = Some ce'" "ce_storage ce' = ce_storage ce"
        "ce_registry ce' = ce_registry ce" "\<And>a. ce_account ce' a = read_account (ov_state ov) a (ce_state ce)"
      using merge_transfer [OF assms(1) ov, of iter KS ce] by blast
    have "unat n \<le> unat (acc_balance ?S)"
      using 3(2) sat_add_ge1 [of n "tx_fee tx"] by (simp add: word_le_nat_alt word_less_nat_alt)
    then have "sat_add (acc_balance ?R) n = acc_balance ?R + n"
      using small by (intro sat_add_no_overflow) simp
    then have "apply_transaction sha iter tx (ce_state ce) = Inr s \<Longrightarrow>
        ce_account ce' a = account_or_zero (state_tree s) a" for s a
      using 3 n assms(4) by (auto simp: apply_transaction_def assms(1) apply_transfer_def Let_def m(4) acc
          account_or_zero_update account_new_def)
    moreover have "\<exists>s. apply_transaction sha iter tx (ce_state ce) = Inr s"
      using 3 n by (simp add: apply_transaction_def assms(1) apply_transfer_def Let_def)
    moreover have "execute_batch sha k iter KR C KS W [tx] ce = Some ([succeeded ?h (gas_limit tx)], ce')"
      by (simp add: execute_batch_single ov m(1)) (simp add: succeeded_def)
    ultimately show ?thesis
      using m(2,3) by auto
  qed
qed

section \<open>Properties\<close>

text \<open>
  C12. A batch of transfers without conflicts runs in parallel as it would run one transaction
  after the other in the order of the transaction hashes: the same receipts and the same state.
\<close>

theorem batch_runs_sequentially:
  assumes "\<forall>tx \<in> set b. \<exists>to n. payload tx = Transfer to n"
    and "sorted_wrt (\<lambda>s t. \<not> conflict sha s t) b"
  shows "execute_batch sha k iter KR C KS W b ce =
    execute_batches sha k iter KR C KS W (map (\<lambda>tx. [tx]) (sort_key (tx_hash sha) b)) ce"
proof -
  have "sorted_wrt (\<lambda>s t. \<not> conflict sha s t) (sort_key (tx_hash sha) b)"
    using assms(2) by (subst sorted_wrt_sort_sym) (auto simp: conflict_sym)
  then show ?thesis
    unfolding execute_batch_def sort_key_map
    by (subst merge_results_sequential [symmetric]) (use assms(1) in \<open>auto simp: o_def\<close>)
qed

theorem batch_runs_sequentially_witness:
  "execute_batch sample_sha sample_secp id log_cdb sample_info_codec log_cdb idle_wasm
     [transfer_from 1 2 0, transfer_from 3 4 0] sample_executor =
   execute_batches sample_sha sample_secp id log_cdb sample_info_codec log_cdb idle_wasm
     (map (\<lambda>tx. [tx]) (sort_key (tx_hash sample_sha) [transfer_from 1 2 0, transfer_from 3 4 0])) sample_executor"
  by (rule batch_runs_sequentially)
    (simp_all add: transfer_from_def new_transfer_def transactions_conflict_iff analyze_access_def Let_def)

text \<open>
  On a valid transfer between two different accounts the parallel executor agrees with the
  sequential state manager: it fails exactly when \<open>apply_transaction\<close> fails, leaving everything
  unchanged, and otherwise leaves the same balances and nonces in every account.
\<close>

theorem parallel_transfer_agrees:
  assumes "payload tx = Transfer to n" and "tx_validate_basic sha k tx = Inr ()"
    and "state_inv (ce_state ce)" and "tx_from tx \<noteq> to"
    and "tx_from tx \<noteq> EMISSION_STATE_ACCOUNT" and "to \<noteq> EMISSION_STATE_ACCOUNT"
  shows "case apply_transaction sha iter tx (ce_state ce) of
      Inl e \<Rightarrow> \<exists>e'. execute_batch sha k iter KR C KS W [tx] ce = Some ([failed (tx_hash sha tx) e'], ce)
    | Inr s \<Rightarrow> \<exists>ce'. execute_batch sha k iter KR C KS W [tx] ce =
          Some ([succeeded (tx_hash sha tx) (gas_limit tx)], ce')
        \<and> (\<forall>a. ce_account ce' a = account_or_zero (state_tree s) a)
        \<and> ce_storage ce' = ce_storage ce \<and> ce_registry ce' = ce_registry ce"
  using assms by (rule transfer_agreement)

theorem parallel_transfer_agrees_witness:
  "case apply_transaction ones_sha id (genesis_transfer (replicate 20 3)) (ce_state sample_executor) of
     Inl e \<Rightarrow> False
   | Inr s \<Rightarrow> \<exists>ce'. execute_batch ones_sha sample_secp id log_cdb sample_info_codec log_cdb idle_wasm
         [genesis_transfer (replicate 20 3)] sample_executor =
         Some ([succeeded (tx_hash ones_sha (genesis_transfer (replicate 20 3))) 21], ce')
       \<and> ce_account ce' GENESIS_WALLET = account_or_zero (state_tree s) GENESIS_WALLET"
proof -
  let ?tx = "genesis_transfer (replicate 20 3)"
  have "account_or_zero (state_tree (ce_state sample_executor)) GENESIS_WALLET = account_new 100000000 0"
    by (simp add: sample_executor_def account_or_zero_def tree_get_def initialized_state)
  moreover have "unat (sat_add (5 :: u64) 21) = 26"
    by (simp add: unat_sat_add)
  ultimately have "apply_transaction ones_sha id ?tx (ce_state sample_executor) \<noteq> Inl e" for e
    by (simp add: apply_transaction_def genesis_transfer_payload apply_transfer_def account_new_def Let_def
        word_less_nat_alt) (simp add: genesis_transfer_def new_transfer_def)
  then obtain s where s: "apply_transaction ones_sha id ?tx (ce_state sample_executor) = Inr s"
    by (cases "apply_transaction ones_sha id ?tx (ce_state sample_executor)") auto
  have "GENESIS_WALLET \<noteq> replicate 20 3" "replicate 20 3 \<noteq> EMISSION_STATE_ACCOUNT"
    by (simp_all add: GENESIS_WALLET_def EMISSION_STATE_ACCOUNT_def)
  moreover have "state_inv (ce_state sample_executor)"
    by (simp add: sample_executor_def initialized_state_inv)
  moreover have "gas_limit ?tx = 21"
    by (simp add: genesis_transfer_def new_transfer_def)
  ultimately show ?thesis
    using parallel_transfer_agrees [OF genesis_transfer_payload(1) genesis_transfer_valid,
        of sample_executor "replicate 20 3" id log_cdb sample_info_codec log_cdb idle_wasm]
      emission_not_genesis [symmetric]
    by (auto simp: s genesis_transfer_payload(2))
qed

text \<open>
  A transfer to oneself burns the amount in the parallel executor: the sender is written a
  second time from the copy taken before the amount was credited.
\<close>

theorem parallel_self_transfer_burns:
  assumes "payload tx = Transfer (tx_from tx) n" and "tx_validate_basic sha k tx = Inr ()"
    and "acc_nonce (ce_account ce (tx_from tx)) = tx_nonce tx"
    and "unat n + unat (tx_fee tx) \<le> unat (acc_balance (ce_account ce (tx_from tx)))"
    and "unat (acc_balance (ce_account ce (tx_from tx))) < 2 ^ 64 - 1"
  shows "\<exists>ce'. execute_batch sha k iter KR C KS W [tx] ce =
        Some ([succeeded (tx_hash sha tx) (gas_limit tx)], ce')
    \<and> unat (acc_balance (ce_account ce' (tx_from tx))) + unat n + unat (tx_fee tx) =
        unat (acc_balance (ce_account ce (tx_from tx)))"
proof -
  let ?h = "tx_hash sha tx" and ?S = "ce_account ce (tx_from tx)"
  have s: "unat (sat_add n (tx_fee tx)) = unat n + unat (tx_fee tx)"
    using assms(4,5) by (simp add: unat_sat_add)
  then have f: "\<not> acc_balance ?S < sat_add n (tx_fee tx)"
    using assms(4) by (simp add: word_less_nat_alt)
  from par_transfer_funded [OF f assms(5), of ?h "tx_from tx" "ce_state ce" "ce_storage ce" "ce_state ce"]
  obtain ov where ov: "exec_fresh sha k KR C W ce tx = (succeeded ?h (gas_limit tx), ov)"
    and acc: "read_account (ov_state ov) (tx_from tx) (ce_state ce) =
      ?S\<lparr>acc_balance := acc_balance ?S - sat_add n (tx_fee tx), acc_nonce := acc_nonce ?S + 1\<rparr>"
    using par_transfer_validated [OF assms(1,2), where KR = KR and C = C and W = W and ce = ce] assms(3)
    by (auto simp: Let_def)
  obtain ce' where m: "merge_overlay sha iter KR C KS ov ce = Some ce'"
      "\<And>a. ce_account ce' a = read_account (ov_state ov) a (ce_state ce)"
    using merge_transfer [OF assms(1) ov, of iter KS ce] by blast
  have "execute_batch sha k iter KR C KS W [tx] ce = Some ([succeeded ?h (gas_limit tx)], ce')"
    by (simp add: execute_batch_single ov m(1)) (simp add: succeeded_def)
  moreover have "unat (acc_balance ?S - sat_add n (tx_fee tx)) + unat n + unat (tx_fee tx) = unat (acc_balance ?S)"
    using f assms(4) by (simp add: unat_sub word_le_nat_alt not_less s)
  ultimately show ?thesis
    by (simp add: m(2) acc)
qed

theorem parallel_self_transfer_burns_witness:
  "\<exists>ce'. execute_batch ones_sha sample_secp id log_cdb sample_info_codec log_cdb idle_wasm
        [genesis_transfer GENESIS_WALLET] sample_executor =
        Some ([succeeded (tx_hash ones_sha (genesis_transfer GENESIS_WALLET)) 21], ce')
    \<and> unat (acc_balance (ce_account ce' GENESIS_WALLET)) + 26 = 100000000"
proof -
  let ?tx = "genesis_transfer GENESIS_WALLET"
  have a: "ce_account sample_executor GENESIS_WALLET = account_new 100000000 0"
    by (simp add: sample_executor_def account_or_zero_def tree_get_def initialized_state)
  have t: "tx_nonce ?tx = 0" "gas_limit ?tx = 21"
    by (simp_all add: genesis_transfer_def new_transfer_def)
  show ?thesis
    using parallel_self_transfer_burns [of ?tx 5 ones_sha sample_secp sample_executor id log_cdb
        sample_info_codec log_cdb idle_wasm]
    by (simp add: genesis_transfer_payload genesis_transfer_valid a t account_new_def)
qed

end
