(* ===== verification/Pre_Validation.thy ===== *)
theory Pre_Validation
  imports Block
begin

text \<open>
  The stateless pre-validation of transactions and blocks:
  \<^verbatim>\<open>src/src/security/pre_validation.rs\<close>.

  The two hash sets are sets. \<open>tx_size\<close> is \<open>size_of_val(tx)\<close>, the size of the struct itself
  without the vectors it owns: a number the compiler fixes, the same for every transaction.
  The formatted messages are the constructors of \<open>format_reason\<close>.
\<close>

section \<open>Data\<close>

datatype format_reason =
    SizeExceeds nat nat | TransferAmountZero | GasLimitIsZero | FromAddressZero | ToAddressZero
  | SelfTransfer | DeployWithoutCode | ContractAddressZero | MethodEmpty
  | InTransaction nat validation_error | DuplicateInBlock nat
and validation_error =
    VInvalidFormat format_reason | VInvalidSignature | VInsufficientBalance | VInvalidNonce
  | VGasLimitExceeded | VInvalidGasPrice | VDuplicateTransaction | VBlacklistedAddress

record pre_validation_result =
  is_valid :: bool
  pv_errors :: "validation_error list"

record pre_validator =
  max_gas_limit :: u64
  pv_min_gas_price :: u64
  max_tx_size :: nat
  blacklisted_addresses :: "address set"
  known_tx_hashes :: "tx_id set"

section \<open>Operations\<close>

definition pre_validator_new :: "u64 \<Rightarrow> u64 \<Rightarrow> nat \<Rightarrow> pre_validator" where
  "pre_validator_new limit price sz =
     \<lparr>max_gas_limit = limit, pv_min_gas_price = price, max_tx_size = sz,
      blacklisted_addresses = {}, known_tx_hashes = {}\<rparr>"

definition default_pre_validator :: pre_validator where
  "default_pre_validator = pre_validator_new 8000000 1000000000 (128 * 1024)"

abbreviation zero_address :: address where
  "zero_address \<equiv> replicate 20 0"

definition validate_format :: "nat \<Rightarrow> transaction \<Rightarrow> pre_validator \<Rightarrow> validation_error + unit" where
  "validate_format tx_size tx v =
     (if tx_size > max_tx_size v then Inl (VInvalidFormat (SizeExceeds tx_size (max_tx_size v)))
      else let amount = (case payload tx of Transfer _ amount \<Rightarrow> amount | _ \<Rightarrow> 0);
               transfer = (case payload tx of Transfer _ _ \<Rightarrow> True | _ \<Rightarrow> False)
      in if amount = 0 \<and> transfer then Inl (VInvalidFormat TransferAmountZero)
      else if gas_limit tx = 0 then Inl (VInvalidFormat GasLimitIsZero)
      else if tx_from tx = zero_address then Inl (VInvalidFormat FromAddressZero)
      else case payload tx of
        Transfer to amount \<Rightarrow>
          if to = zero_address then Inl (VInvalidFormat ToAddressZero)
          else if tx_from tx = to then Inl (VInvalidFormat SelfTransfer)
          else Inr ()
      | ContractDeploy code init_args \<Rightarrow>
          if code = [] then Inl (VInvalidFormat DeployWithoutCode) else Inr ()
      | ContractCall contract method args \<Rightarrow>
          if contract = zero_address then Inl (VInvalidFormat ContractAddressZero)
          else if method = [] then Inl (VInvalidFormat MethodEmpty)
          else Inr ())"

definition pv_validate_signature :: "transaction \<Rightarrow> validation_error + unit" where
  "pv_validate_signature tx =
     (if length (sig_data (tx_signature tx)) \<noteq> 65 then Inl VInvalidSignature else Inr ())"

definition validate_gas :: "transaction \<Rightarrow> pre_validator \<Rightarrow> validation_error + unit" where
  "validate_gas tx v =
     (if gas_limit tx > max_gas_limit v then Inl VGasLimitExceeded
      else if gas_price tx < pv_min_gas_price v then Inl VInvalidGasPrice
      else if gas_price tx > pv_min_gas_price v * 1000 then Inl VInvalidGasPrice
      else Inr ())"

definition validate_addresses :: "transaction \<Rightarrow> pre_validator \<Rightarrow> validation_error + unit" where
  "validate_addresses tx v =
     (if tx_from tx \<in> blacklisted_addresses v then Inl VBlacklistedAddress
      else case payload tx of
        Transfer to _ \<Rightarrow> if to \<in> blacklisted_addresses v then Inl VBlacklistedAddress else Inr ()
      | ContractCall to _ _ \<Rightarrow> if to \<in> blacklisted_addresses v then Inl VBlacklistedAddress else Inr ()
      | ContractDeploy _ _ \<Rightarrow> Inr ())"

definition check_duplicate ::
  "(bytes \<Rightarrow> bytes) \<Rightarrow> transaction \<Rightarrow> pre_validator \<Rightarrow> validation_error + unit" where
  "check_duplicate sha tx v =
     (if tx_hash sha tx \<in> known_tx_hashes v then Inl VDuplicateTransaction else Inr ())"

text \<open>\<open>if let Err(e) = r { errors.push(e) }\<close>\<close>

definition push_error :: "'e + unit \<Rightarrow> 'e list \<Rightarrow> 'e list" where
  "push_error r errors = (case r of Inl e \<Rightarrow> errors @ [e] | Inr _ \<Rightarrow> errors)"

definition pre_validate_transaction ::
  "(bytes \<Rightarrow> bytes) \<Rightarrow> nat \<Rightarrow> transaction \<Rightarrow> pre_validator \<Rightarrow> pre_validation_result" where
  "pre_validate_transaction sha tx_size tx v =
     (let errors = push_error (validate_format tx_size tx v) [];
          errors = push_error (pv_validate_signature tx) errors;
          errors = push_error (validate_gas tx v) errors;
          errors = push_error (validate_addresses tx v) errors;
          errors = push_error (check_duplicate sha tx v) errors
      in \<lparr>is_valid = (errors = []), pv_errors = errors\<rparr>)"

definition pre_validate_transactions ::
  "(bytes \<Rightarrow> bytes) \<Rightarrow> nat \<Rightarrow> transaction list \<Rightarrow> pre_validator \<Rightarrow> pre_validation_result list" where
  "pre_validate_transactions sha tx_size txs v =
     map (\<lambda>tx. pre_validate_transaction sha tx_size tx v) txs"

definition add_known_transaction :: "tx_id \<Rightarrow> pre_validator \<Rightarrow> pre_validator" where
  "add_known_transaction h v = v\<lparr>known_tx_hashes := insert h (known_tx_hashes v)\<rparr>"

definition remove_known_transaction :: "tx_id \<Rightarrow> pre_validator \<Rightarrow> pre_validator" where
  "remove_known_transaction h v = v\<lparr>known_tx_hashes := known_tx_hashes v - {h}\<rparr>"

definition clear_known_transactions :: "pre_validator \<Rightarrow> pre_validator" where
  "clear_known_transactions v = v\<lparr>known_tx_hashes := {}\<rparr>"

definition blacklist_address :: "address \<Rightarrow> pre_validator \<Rightarrow> pre_validator" where
  "blacklist_address a v = v\<lparr>blacklisted_addresses := insert a (blacklisted_addresses v)\<rparr>"

definition unblacklist_address :: "address \<Rightarrow> pre_validator \<Rightarrow> pre_validator" where
  "unblacklist_address a v = v\<lparr>blacklisted_addresses := blacklisted_addresses v - {a}\<rparr>"

definition blacklist_size :: "pre_validator \<Rightarrow> nat" where
  "blacklist_size v = card (blacklisted_addresses v)"

definition known_transactions_count :: "pre_validator \<Rightarrow> nat" where
  "known_transactions_count v = card (known_tx_hashes v)"

fun block_errors ::
  "(bytes \<Rightarrow> bytes) \<Rightarrow> nat \<Rightarrow> pre_validator \<Rightarrow> nat \<Rightarrow> tx_id set \<Rightarrow> transaction list
    \<Rightarrow> validation_error list" where
  "block_errors sha tx_size v idx seen [] = []"
| "block_errors sha tx_size v idx seen (tx # txs) =
     (let result = pre_validate_transaction sha tx_size tx v;
          own = (if \<not> is_valid result
                 then map (\<lambda>e. VInvalidFormat (InTransaction idx e)) (pv_errors result) else []);
          dup = (if tx_hash sha tx \<in> seen then [VInvalidFormat (DuplicateInBlock idx)] else [])
      in own @ dup @ block_errors sha tx_size v (idx + 1) (insert (tx_hash sha tx) seen) txs)"

definition validate_block_transactions ::
  "(bytes \<Rightarrow> bytes) \<Rightarrow> nat \<Rightarrow> block \<Rightarrow> pre_validator \<Rightarrow> pre_validation_result" where
  "validate_block_transactions sha tx_size b v =
     (let errors = block_errors sha tx_size v 0 {} (transactions b)
      in \<lparr>is_valid = (errors = []), pv_errors = errors\<rparr>)"

definition estimate_gas_usage :: "transaction \<Rightarrow> u64" where
  "estimate_gas_usage tx =
     (let gas = (case payload tx of
          Transfer _ _ \<Rightarrow> 21000
        | ContractDeploy code init_args \<Rightarrow> 21000 + of_nat (length code) * 16 + of_nat (length init_args) * 4
        | ContractCall _ _ args \<Rightarrow> 21000 + of_nat (length args) * 4)
      in min gas (gas_limit tx))"

section \<open>What is accepted\<close>

text \<open>The addresses a transaction names.\<close>

fun named_addresses :: "transaction \<Rightarrow> address set" where
  "named_addresses tx = insert (tx_from tx)
     (case payload tx of Transfer to _ \<Rightarrow> {to} | ContractCall to _ _ \<Rightarrow> {to} | ContractDeploy _ _ \<Rightarrow> {})"

definition well_formed_payload :: "transaction \<Rightarrow> bool" where
  "well_formed_payload tx \<longleftrightarrow> zero_address \<notin> named_addresses tx \<and>
     (case payload tx of
        Transfer to amount \<Rightarrow> amount \<noteq> 0 \<and> to \<noteq> tx_from tx
      | ContractDeploy code _ \<Rightarrow> code \<noteq> []
      | ContractCall _ method _ \<Rightarrow> method \<noteq> [])"

lemma push_error_Nil [simp]: "push_error r es = [] \<longleftrightarrow> es = [] \<and> r = Inr ()"
  by (cases r) (auto simp: push_error_def)

lemma validate_format_ok:
  "validate_format n tx v = Inr () \<longleftrightarrow>
     n \<le> max_tx_size v \<and> gas_limit tx \<noteq> 0 \<and> well_formed_payload tx"
  by (cases "payload tx") (auto simp: validate_format_def well_formed_payload_def Let_def)

lemma validate_gas_ok:
  "validate_gas tx v = Inr () \<longleftrightarrow> gas_limit tx \<le> max_gas_limit v \<and>
     gas_price tx \<in> {pv_min_gas_price v .. pv_min_gas_price v * 1000}"
  by (auto simp: validate_gas_def not_less)

lemma validate_addresses_ok:
  "validate_addresses tx v = Inr () \<longleftrightarrow> named_addresses tx \<inter> blacklisted_addresses v = {}"
  by (cases "payload tx") (auto simp: validate_addresses_def)

lemma is_valid_iff: "is_valid (pre_validate_transaction sha n tx v) \<longleftrightarrow>
    pv_errors (pre_validate_transaction sha n tx v) = []"
  by (simp add: pre_validate_transaction_def Let_def)

lemma pre_validate_checks:
  "is_valid (pre_validate_transaction sha n tx v) \<longleftrightarrow>
     validate_format n tx v = Inr () \<and> pv_validate_signature tx = Inr () \<and> validate_gas tx v = Inr () \<and>
     validate_addresses tx v = Inr () \<and> check_duplicate sha tx v = Inr ()"
  by (simp add: pre_validate_transaction_def Let_def)

lemma block_errors_Nil:
  "block_errors sha n v i seen txs = [] \<longleftrightarrow>
     list_all (\<lambda>tx. is_valid (pre_validate_transaction sha n tx v)) txs \<and>
     distinct (map (tx_hash sha) txs) \<and> set (map (tx_hash sha) txs) \<inter> seen = {}"
  by (induction sha n v i seen txs rule: block_errors.induct) (auto simp: Let_def is_valid_iff)

section \<open>Properties\<close>

text \<open>
  Pre-validation accepts a transaction exactly when the struct fits the size limit, the
  gas limit is between 1 and the maximum, the price between the minimum and a thousand times the
  minimum (a product of 64-bit numbers), the payload is well formed (no zero address, a
  transfer moves a positive amount to another account, a deployment has code, a call has a
  method), the signature has 65 bytes, no named address is blacklisted and the hash is not
  known. At most five errors are reported, and none exactly when it is accepted.
\<close>

theorem pre_validation_decides:
  "(is_valid (pre_validate_transaction sha tx_size tx v) \<longleftrightarrow>
     tx_size \<le> max_tx_size v \<and> gas_limit tx \<in> {1 .. max_gas_limit v} \<and>
     gas_price tx \<in> {pv_min_gas_price v .. pv_min_gas_price v * 1000} \<and>
     well_formed_payload tx \<and> length (sig_data (tx_signature tx)) = 65 \<and>
     named_addresses tx \<inter> blacklisted_addresses v = {} \<and> tx_hash sha tx \<notin> known_tx_hashes v) \<and>
   (length (pv_errors (pre_validate_transaction sha tx_size tx v)) \<le> 5) \<and>
   (is_valid (pre_validate_transaction sha tx_size tx v) \<longleftrightarrow>
     pv_errors (pre_validate_transaction sha tx_size tx v) = [])"
proof (intro conjI)
  have "gas_limit tx \<noteq> 0 \<longleftrightarrow> 1 \<le> gas_limit tx"
    using unat_eq_0 [of "gas_limit tx"] by (auto simp: word_le_nat_alt)
  then show "is_valid (pre_validate_transaction sha tx_size tx v) \<longleftrightarrow>
     tx_size \<le> max_tx_size v \<and> gas_limit tx \<in> {1 .. max_gas_limit v} \<and>
     gas_price tx \<in> {pv_min_gas_price v .. pv_min_gas_price v * 1000} \<and>
     well_formed_payload tx \<and> length (sig_data (tx_signature tx)) = 65 \<and>
     named_addresses tx \<inter> blacklisted_addresses v = {} \<and> tx_hash sha tx \<notin> known_tx_hashes v"
    unfolding pre_validate_checks validate_format_ok validate_gas_ok validate_addresses_ok
    by (auto simp: pv_validate_signature_def check_duplicate_def)
  show "length (pv_errors (pre_validate_transaction sha tx_size tx v)) \<le> 5"
    by (simp add: pre_validate_transaction_def Let_def push_error_def split: sum.split)
qed (rule is_valid_iff)

text \<open>
  A block passes exactly when each of its transactions passes and no two of them have the
  same hash. Once a hash is made known, the transactions with this hash are refused as
  duplicates and every other verdict stays as it was; forgetting the hash undoes this.
\<close>

theorem block_pre_validation:
  "(is_valid (validate_block_transactions sha tx_size b v) \<longleftrightarrow>
     list_all (\<lambda>tx. is_valid (pre_validate_transaction sha tx_size tx v)) (transactions b) \<and>
     distinct (map (tx_hash sha) (transactions b))) \<and>
   (is_valid (pre_validate_transaction sha tx_size tx (add_known_transaction h v)) \<longleftrightarrow>
     tx_hash sha tx \<noteq> h \<and> is_valid (pre_validate_transaction sha tx_size tx v)) \<and>
   (is_valid (pre_validate_transaction sha tx_size tx (remove_known_transaction h (add_known_transaction h v))) \<longleftrightarrow>
     is_valid (pre_validate_transaction sha tx_size tx (remove_known_transaction h v)))"
proof (intro conjI)
  show "is_valid (validate_block_transactions sha tx_size b v) \<longleftrightarrow>
     list_all (\<lambda>tx. is_valid (pre_validate_transaction sha tx_size tx v)) (transactions b) \<and>
     distinct (map (tx_hash sha) (transactions b))"
    by (simp add: validate_block_transactions_def Let_def block_errors_Nil)
  show "is_valid (pre_validate_transaction sha tx_size tx (add_known_transaction h v)) \<longleftrightarrow>
     tx_hash sha tx \<noteq> h \<and> is_valid (pre_validate_transaction sha tx_size tx v)"
    by (auto simp: pre_validate_checks validate_format_ok validate_gas_ok validate_addresses_ok
        check_duplicate_def add_known_transaction_def)
  show "is_valid (pre_validate_transaction sha tx_size tx (remove_known_transaction h (add_known_transaction h v))) \<longleftrightarrow>
     is_valid (pre_validate_transaction sha tx_size tx (remove_known_transaction h v))"
    by (simp add: add_known_transaction_def remove_known_transaction_def)
qed

text \<open>The estimate never exceeds the gas limit and is the base cost for a transfer with enough gas.\<close>

lemma estimate_gas_usage_bounds:
  "estimate_gas_usage tx \<le> gas_limit tx"
  "payload tx = Transfer to amount \<Longrightarrow> 21000 \<le> gas_limit tx \<Longrightarrow> estimate_gas_usage tx = 21000"
  by (simp_all add: estimate_gas_usage_def Let_def)

end
