(* ===== verification/Sliding_Window.thy ===== *)
theory Sliding_Window
  imports Prelude
begin

text \<open>
  Rate limits over a sliding window, which two components of \<^verbatim>\<open>src/src/security/\<close> implement alike:
  the requests of \<open>Dos\<close> and the transactions of \<open>Spam\<close>. Each keeps the times of what it let through,
  drops the old ones, and refuses when as many are left as the limit allows. The locale states what
  such a component does to its list of times; that no window then has more entries than the limit,
  wherever it begins, is proved here once.
\<close>

text \<open>The times at which operations were let through in a sequence of operations.\<close>

fun accepted_times ::
  "(nat \<Rightarrow> 'op \<Rightarrow> 's \<Rightarrow> bool) \<Rightarrow> (nat \<Rightarrow> 'op \<Rightarrow> 's \<Rightarrow> 's) \<Rightarrow> (nat \<times> 'op) list \<Rightarrow> 's \<Rightarrow> nat list" where
  "accepted_times accepts step [] s = []"
| "accepted_times accepts step ((now, op) # ops) s =
     (if accepts now op s then [now] else []) @ accepted_times accepts step ops (step now op s)"

text \<open>That every operation of a sequence meets a state in which it is legal.\<close>

fun legal_run ::
  "(nat \<Rightarrow> 'op \<Rightarrow> 's \<Rightarrow> bool) \<Rightarrow> (nat \<Rightarrow> 'op \<Rightarrow> 's \<Rightarrow> 's) \<Rightarrow> (nat \<times> 'op) list \<Rightarrow> 's \<Rightarrow> bool" where
  "legal_run legal step [] s = True"
| "legal_run legal step ((now, op) # ops) s = (legal now op s \<and> legal_run legal step ops (step now op s))"

lemma legal_run_always [simp]: "legal_run (\<lambda>_ _ _. True) step ops s"
  by (induction ops arbitrary: s) auto

lemma length_filter_mono:
  "(\<And>x. x \<in> set xs \<Longrightarrow> P x \<Longrightarrow> Q x) \<Longrightarrow> length (filter P xs) \<le> length (filter Q xs)"
  by (induction xs) auto

text \<open>
  \<open>times\<close> are the recorded times and \<open>limit\<close> the number allowed in a window of length \<open>W\<close>. \<open>inv t\<close> is an
  invariant of the states that are met from time \<open>t\<close> on. Of the recorded times only those still
  inside the window count: an operation that is let through finds fewer than the limit and adds
  its own, any other leaves them as they are, as long as it is \<open>legal\<close> in the state it meets.
\<close>

locale sliding_window =
  fixes W :: nat
    and times :: "'s \<Rightarrow> nat list"
    and accepts :: "nat \<Rightarrow> 'op \<Rightarrow> 's \<Rightarrow> bool"
    and step :: "nat \<Rightarrow> 'op \<Rightarrow> 's \<Rightarrow> 's"
    and limit :: "'s \<Rightarrow> nat"
    and inv :: "nat \<Rightarrow> 's \<Rightarrow> bool"
    and legal :: "nat \<Rightarrow> 'op \<Rightarrow> 's \<Rightarrow> bool"
  assumes later_inv: "inv t s \<Longrightarrow> t \<le> now \<Longrightarrow> inv now s"
    and step_inv: "inv now s \<Longrightarrow> legal now op s \<Longrightarrow> inv now (step now op s)"
    and step_limit: "limit (step now op s) = limit s"
    and accepted_few: "inv now s \<Longrightarrow> accepts now op s \<Longrightarrow> length (filter (\<lambda>a. now - a < W) (times s)) < limit s"
    and accepted_recorded: "inv now s \<Longrightarrow> accepts now op s \<Longrightarrow>
      filter (\<lambda>a. now - a < W) (times (step now op s)) = filter (\<lambda>a. now - a < W) (times s) @ [now]"
    and refused_kept: "inv now s \<Longrightarrow> legal now op s \<Longrightarrow> \<not> accepts now op s \<Longrightarrow>
      filter (\<lambda>a. now - a < W) (times (step now op s)) = filter (\<lambda>a. now - a < W) (times s)"
begin

text \<open>What the accepted times so far have to do with the recorded ones.\<close>

definition follows :: "nat list \<Rightarrow> nat \<Rightarrow> 's \<Rightarrow> bool" where
  "follows hist now s \<longleftrightarrow> (\<forall>a \<in> set hist. a \<le> now)
     \<and> filter (\<lambda>a. now - a < W) hist = filter (\<lambda>a. now - a < W) (times s)
     \<and> (\<forall>t. length (filter (\<lambda>a. t \<le> a \<and> a < t + W) hist) \<le> limit s)"

lemma follows_later:
  assumes "follows hist now s" and "now \<le> later"
  shows "follows hist later s"
proof -
  have f: "filter (\<lambda>a. later - a < W) xs = filter (\<lambda>a. later - a < W) (filter (\<lambda>a. now - a < W) xs)" for xs
    unfolding filter_filter by (rule filter_cong) (use assms(2) in auto)
  show ?thesis
    using assms f [of hist] f [of "times s"] by (auto simp: follows_def)
qed

lemma follows_step:
  assumes "follows hist now s" and "inv now s" and "legal now op s"
  shows "follows (hist @ (if accepts now op s then [now] else [])) now (step now op s)"
proof (cases "accepts now op s")
  case False
  then show ?thesis
    using assms refused_kept by (simp add: follows_def step_limit)
next
  case True
  note rec = accepted_recorded [OF assms(2) True]
  have "now \<in> set (filter (\<lambda>a. now - a < W) (times (step now op s)))"
    unfolding rec by simp
  then have W: "0 < W"
    by simp
  have few: "length (filter (\<lambda>a. now - a < W) hist) < limit s"
    using assms accepted_few True by (simp add: follows_def)
  have "length (filter (\<lambda>a. t \<le> a \<and> a < t + W) (hist @ [now])) \<le> limit s" for t
  proof (cases "t \<le> now \<and> now < t + W")
    case in_window: True
    then have "length (filter (\<lambda>a. t \<le> a \<and> a < t + W) hist) \<le> length (filter (\<lambda>a. now - a < W) hist)"
      by (intro length_filter_mono) linarith
    with few in_window show ?thesis
      by simp
  qed (use assms(1) in \<open>auto simp: follows_def\<close>)
  with True assms(1) W rec show ?thesis
    by (simp add: follows_def step_limit)
qed

lemma window_bound:
  assumes "follows hist t0 s" and "inv t0 s" and "sorted (t0 # map fst ops)" and "legal_run legal step ops s"
  shows "length (filter (\<lambda>a. t \<le> a \<and> a < t + W) (hist @ accepted_times accepts step ops s)) \<le> limit s"
  using assms
proof (induction ops arbitrary: hist t0 s)
  case (Cons x ops)
  obtain now op where x: "x = (now, op)"
    by fastforce
  have i: "inv now s" "legal now op s" and f: "follows hist now s"
    using Cons.prems by (auto simp: x intro: later_inv follows_later)
  from Cons.IH [OF follows_step [OF f i] step_inv [OF i]] Cons.prems(3,4) show ?case
    by (simp add: x step_limit)
qed (simp add: follows_def)

lemma rate_limited:
  assumes "inv 0 s" and "times s = []" and "sorted (map fst ops)" and "legal_run legal step ops s"
  shows "length (filter (\<lambda>a. t \<le> a \<and> a < t + W) (accepted_times accepts step ops s)) \<le> limit s"
  using window_bound [of "[]" 0 s ops t] assms by (simp add: follows_def)

end

end
