(* ===== verification/Dos.thy ===== *)
theory Dos
  imports Sliding_Window
begin

text \<open>
  DoS protection: \<^verbatim>\<open>src/src/security/dos_protection.rs\<close>.

  Addresses are an arbitrary type of the model. An \<open>Instant\<close> is a number of nanoseconds on the
  monotonic clock; every operation takes the reading it meets, and \<open>handle_violation\<close>, which
  reads the clock again, a second one. The lock on the peer states is held throughout an
  operation, so each is one step on \<open>dos_protection\<close>. The body of the cleanup task's loop is
  the operation \<open>cleanup\<close>, with the order in which the hash map is listed as the argument \<open>iter\<close>.
\<close>

section \<open>State\<close>

record dos_config =
  max_connections_per_ip :: u32
  max_requests_per_second :: u32
  max_bandwidth_per_second :: u64
  ban_duration_seconds :: u64
  cleanup_interval_seconds :: u64
  max_tracked_ips :: nat

definition default_dos_config :: dos_config where
  "default_dos_config =
     \<lparr>max_connections_per_ip = 10, max_requests_per_second = 100, max_bandwidth_per_second = 10 * 1024 * 1024,
      ban_duration_seconds = 3600, cleanup_interval_seconds = 300, max_tracked_ips = 10000\<rparr>"

record peer_state =
  connections :: u32
  request_times :: "nat list"
  bytes_sent :: u64
  bytes_received :: u64
  last_activity :: nat
  banned_until :: "nat option"
  violations :: u32

record dos_stats =
  tracked_ips :: nat
  total_violations :: u64
  bans_issued :: u64
  blocked_connections :: u64
  blocked_requests :: u64

record 'ip dos_protection =
  dos_config_of :: dos_config
  peer_states :: "('ip \<times> peer_state) list"
  dos_stats_of :: dos_stats

datatype dos_error = Banned nat | ConnectionLimitExceeded | RateLimitExceeded | BandwidthLimitExceeded

definition second :: nat where "second = 10 ^ 9"

section \<open>Operations\<close>

definition dos_new :: "dos_config \<Rightarrow> 'ip dos_protection" where
  "dos_new config =
     \<lparr>dos_config_of = config, peer_states = [],
      dos_stats_of = \<lparr>tracked_ips = 0, total_violations = 0, bans_issued = 0, blocked_connections = 0,
        blocked_requests = 0\<rparr>\<rparr>"

definition fresh_peer :: "nat \<Rightarrow> peer_state" where
  "fresh_peer now =
     \<lparr>connections = 0, request_times = [], bytes_sent = 0, bytes_received = 0, last_activity = now,
      banned_until = None, violations = 0\<rparr>"

text \<open>\<open>states.entry(ip).or_insert_with(..)\<close> and the write through the reference it returns\<close>

definition peer_entry :: "'ip dos_protection \<Rightarrow> 'ip \<Rightarrow> nat \<Rightarrow> peer_state" where
  "peer_entry P ip now = (case map_of (peer_states P) ip of None \<Rightarrow> fresh_peer now | Some st \<Rightarrow> st)"

definition put_peer :: "'ip \<Rightarrow> peer_state \<Rightarrow> 'ip dos_protection \<Rightarrow> 'ip dos_protection" where
  "put_peer ip st P = P\<lparr>peer_states := AList.update ip st (peer_states P)\<rparr>"

definition handle_violation ::
  "nat \<Rightarrow> dos_config \<Rightarrow> peer_state \<times> dos_stats \<Rightarrow> peer_state \<times> dos_stats" where
  "handle_violation now config = (\<lambda>(st, stats).
     let st = st\<lparr>violations := violations st + 1\<rparr>;
         stats = stats\<lparr>total_violations := total_violations stats + 1\<rparr>
     in if violations st \<ge> 3
        then (st\<lparr>banned_until := Some (now + unat (ban_duration_seconds config) * second)\<rparr>,
              stats\<lparr>bans_issued := bans_issued stats + 1\<rparr>)
        else (st, stats))"

definition violate :: "nat \<Rightarrow> 'ip \<Rightarrow> peer_state \<Rightarrow> 'ip dos_protection \<Rightarrow> 'ip dos_protection" where
  "violate now ip st P =
     (let (st', stats') = handle_violation now (dos_config_of P) (st, dos_stats_of P)
      in put_peer ip st' (P\<lparr>dos_stats_of := stats'\<rparr>))"

definition check_connection_allowed ::
  "nat \<Rightarrow> nat \<Rightarrow> 'ip \<Rightarrow> 'ip dos_protection \<Rightarrow> (dos_error + unit) \<times> 'ip dos_protection" where
  "check_connection_allowed now now' ip P =
     (let st = peer_entry P ip now in
      case (case banned_until st of Some ban_until \<Rightarrow> if now < ban_until then Some ban_until else None
            | None \<Rightarrow> None) of
        Some ban_until \<Rightarrow>
          (Inl (Banned ((ban_until - now) div second)),
           put_peer ip st (P\<lparr>dos_stats_of := (dos_stats_of P)
             \<lparr>blocked_connections := blocked_connections (dos_stats_of P) + 1\<rparr>\<rparr>))
      | None \<Rightarrow>
          let st = (if banned_until st \<noteq> None then st\<lparr>banned_until := None, violations := 0\<rparr> else st) in
          if connections st \<ge> max_connections_per_ip (dos_config_of P)
          then (Inl ConnectionLimitExceeded, violate now' ip st P)
          else (Inr (), put_peer ip (st\<lparr>connections := connections st + 1, last_activity := now\<rparr>) P))"

definition check_request_allowed ::
  "nat \<Rightarrow> nat \<Rightarrow> 'ip \<Rightarrow> 'ip dos_protection \<Rightarrow> (dos_error + unit) \<times> 'ip dos_protection" where
  "check_request_allowed now now' ip P =
     (let st = peer_entry P ip now in
      case (case banned_until st of Some ban_until \<Rightarrow> if now < ban_until then Some ban_until else None
            | None \<Rightarrow> None) of
        Some ban_until \<Rightarrow>
          (Inl (Banned ((ban_until - now) div second)),
           put_peer ip st (P\<lparr>dos_stats_of := (dos_stats_of P)
             \<lparr>blocked_requests := blocked_requests (dos_stats_of P) + 1\<rparr>\<rparr>))
      | None \<Rightarrow>
          let st = st\<lparr>request_times := filter (\<lambda>time. now - time < second) (request_times st)\<rparr> in
          if length (request_times st) \<ge> unat (max_requests_per_second (dos_config_of P))
          then (Inl RateLimitExceeded, violate now' ip st P)
          else (Inr (), put_peer ip (st\<lparr>request_times := request_times st @ [now], last_activity := now\<rparr>) P))"

definition record_bandwidth ::
  "nat \<Rightarrow> nat \<Rightarrow> 'ip \<Rightarrow> u64 \<Rightarrow> u64 \<Rightarrow> 'ip dos_protection \<Rightarrow> 'ip dos_protection" where
  "record_bandwidth now now' ip sent received P =
     (let st = peer_entry P ip now;
          st = st\<lparr>bytes_sent := bytes_sent st + sent, bytes_received := bytes_received st + received,
                  last_activity := now\<rparr>
      in if bytes_sent st + bytes_received st > max_bandwidth_per_second (dos_config_of P)
         then violate now' ip st P else put_peer ip st P)"

definition remove_connection :: "'ip \<Rightarrow> 'ip dos_protection \<Rightarrow> 'ip dos_protection" where
  "remove_connection ip P =
     (case map_of (peer_states P) ip of
        None \<Rightarrow> P
      | Some st \<Rightarrow>
          if connections st > 0 then put_peer ip (st\<lparr>connections := connections st - 1\<rparr>) P else P)"

definition unban_ip :: "'ip \<Rightarrow> 'ip dos_protection \<Rightarrow> 'ip dos_protection" where
  "unban_ip ip P =
     (case map_of (peer_states P) ip of
        None \<Rightarrow> P
      | Some st \<Rightarrow> put_peer ip (st\<lparr>banned_until := None, violations := 0\<rparr>) P)"

definition is_banned :: "nat \<Rightarrow> 'ip \<Rightarrow> 'ip dos_protection \<Rightarrow> bool" where
  "is_banned now ip P \<longleftrightarrow>
     (case map_of (peer_states P) ip of
        None \<Rightarrow> False
      | Some st \<Rightarrow> (case banned_until st of None \<Rightarrow> False | Some ban_until \<Rightarrow> now < ban_until))"

text \<open>The seconds of the age limit are multiplied as a \<open>u64\<close>.\<close>

definition cleanup_retain ::
  "dos_config \<Rightarrow> nat \<Rightarrow> ('ip \<times> peer_state) list \<Rightarrow> ('ip \<times> peer_state) list" where
  "cleanup_retain config now states =
     List.map_filter (\<lambda>(ip, st).
       let age = now - last_activity st in
       if age > unat (cleanup_interval_seconds config * 2) * second then None
       else Some (ip, if age > second then st\<lparr>bytes_sent := 0, bytes_received := 0\<rparr> else st)) states"

definition cleanup ::
  "(('ip \<times> peer_state) list \<Rightarrow> ('ip \<times> peer_state) list) \<Rightarrow> nat \<Rightarrow> 'ip dos_protection \<Rightarrow> 'ip dos_protection" where
  "cleanup iter now P =
     (let config = dos_config_of P;
          states = cleanup_retain config now (peer_states P);
          states = (if length states > max_tracked_ips config
            then let entries = sort_key snd (map (\<lambda>(ip, st). (ip, last_activity st)) (iter states))
                 in fold (\<lambda>(ip, _). AList.delete ip) (take (length states - max_tracked_ips config) entries) states
            else states)
      in P\<lparr>peer_states := states, dos_stats_of := (dos_stats_of P)\<lparr>tracked_ips := length states\<rparr>\<rparr>)"

section \<open>Sequences of operations\<close>

datatype 'ip dos_op =
    Connect 'ip | Request 'ip | Bandwidth 'ip u64 u64 | Disconnect 'ip | Unban 'ip
  | is_Cleanup: Cleanup "('ip \<times> peer_state) list \<Rightarrow> ('ip \<times> peer_state) list"

text \<open>
  One operation at a clock reading, a turn of the cleanup task included, with the order in which it lists
  the map; whether it was a request that was let through.
\<close>

fun dos_step :: "nat \<Rightarrow> 'ip dos_op \<Rightarrow> 'ip dos_protection \<Rightarrow> 'ip dos_protection" where
  "dos_step now (Connect ip) P = snd (check_connection_allowed now now ip P)"
| "dos_step now (Request ip) P = snd (check_request_allowed now now ip P)"
| "dos_step now (Bandwidth ip s r) P = record_bandwidth now now ip s r P"
| "dos_step now (Disconnect ip) P = remove_connection ip P"
| "dos_step now (Unban ip) P = unban_ip ip P"
| "dos_step now (Cleanup iter) P = cleanup iter now P"

fun accepted_requests :: "'ip \<Rightarrow> (nat \<times> 'ip dos_op) list \<Rightarrow> 'ip dos_protection \<Rightarrow> nat list" where
  "accepted_requests ip [] P = []"
| "accepted_requests ip ((now, op) # ops) P =
     (if op = Request ip \<and> fst (check_request_allowed now now ip P) = Inr () then [now] else [])
     @ accepted_requests ip ops (dos_step now op P)"

section \<open>Frame facts\<close>

lemma config_put [simp]: "dos_config_of (put_peer ip st P) = dos_config_of P"
  by (simp add: put_peer_def)

lemma config_violate [simp]: "dos_config_of (violate now ip st P) = dos_config_of P"
  by (simp add: violate_def case_prod_beta)

lemma lookup_put: "map_of (peer_states (put_peer ip st P)) x = (if x = ip then Some st else map_of (peer_states P) x)"
  by (simp add: put_peer_def map_of_hm_update)

lemma peer_states_stats [simp]: "peer_states (P\<lparr>dos_stats_of := s\<rparr>) = peer_states P"
  by simp

lemma handle_violation_frame:
  "handle_violation now config (st, stats) = (st', stats') \<Longrightarrow>
     connections st' = connections st \<and> request_times st' = request_times st
     \<and> last_activity st' = last_activity st
     \<and> (banned_until st' = banned_until st
        \<or> banned_until st' = Some (now + unat (ban_duration_seconds config) * second))"
  by (auto simp: handle_violation_def Let_def split: if_splits)

lemma lookup_violate:
  "\<exists>st'. map_of (peer_states (violate now ip st P)) = (map_of (peer_states P))(ip \<mapsto> st')
     \<and> connections st' = connections st \<and> request_times st' = request_times st
     \<and> last_activity st' = last_activity st
     \<and> (banned_until st' = banned_until st
        \<or> banned_until st' = Some (now + unat (ban_duration_seconds (dos_config_of P)) * second))"
proof -
  obtain st' stats' where h: "handle_violation now (dos_config_of P) (st, dos_stats_of P) = (st', stats')"
    by fastforce
  have "map_of (peer_states (violate now ip st P)) = (map_of (peer_states P))(ip \<mapsto> st')"
    by (simp add: violate_def h put_peer_def map_of_hm_update)
  with handle_violation_frame [OF h] show ?thesis
    by blast
qed

lemma config_step [simp]: "dos_config_of (dos_step now op P) = dos_config_of P"
  by (cases op) (auto simp: check_connection_allowed_def check_request_allowed_def record_bandwidth_def
      remove_connection_def unban_ip_def cleanup_def Let_def split: option.split)

fun op_ip :: "'ip dos_op \<Rightarrow> 'ip option" where
  "op_ip (Connect ip) = Some ip"
| "op_ip (Request ip) = Some ip"
| "op_ip (Bandwidth ip _ _) = Some ip"
| "op_ip (Disconnect ip) = Some ip"
| "op_ip (Unban ip) = Some ip"
| "op_ip (Cleanup _) = None"

lemma lookup_violate_other: "x \<noteq> ip \<Longrightarrow> map_of (peer_states (violate now ip st P)) x = map_of (peer_states P) x"
  using lookup_violate [of now ip st P] by auto

lemma step_other:
  "op_ip op \<noteq> Some x \<Longrightarrow> \<not> is_Cleanup op \<Longrightarrow> map_of (peer_states (dos_step now op P)) x = map_of (peer_states P) x"
  by (cases op) (auto simp: check_connection_allowed_def check_request_allowed_def record_bandwidth_def
      remove_connection_def unban_ip_def Let_def lookup_put lookup_violate_other split: option.split)

section \<open>Request rate\<close>

definition times_of :: "'ip \<Rightarrow> 'ip dos_protection \<Rightarrow> nat list" where
  "times_of ip P = (case map_of (peer_states P) ip of None \<Rightarrow> [] | Some st \<Rightarrow> request_times st)"

lemma times_entry: "request_times (peer_entry P ip now) = times_of ip P"
  by (simp add: peer_entry_def times_of_def fresh_peer_def split: option.split)

lemma times_Some: "map_of (peer_states P) ip = Some st \<Longrightarrow> times_of ip P = request_times st"
  by (simp add: times_of_def)

lemma times_put: "times_of x (put_peer ip st P) = (if x = ip then request_times st else times_of x P)"
  by (simp add: times_of_def lookup_put)

lemma times_violate: "times_of x (violate now ip st P) = (if x = ip then request_times st else times_of x P)"
  using lookup_violate [of now ip st P] by (auto simp: times_of_def)

lemma times_stats [simp]: "times_of x (P\<lparr>dos_stats_of := s\<rparr>) = times_of x P"
  by (simp add: times_of_def)

lemma times_step_other:
  assumes "op \<noteq> Request ip" and "\<not> is_Cleanup op"
  shows "times_of ip (dos_step now op P) = times_of ip P"
proof (cases "op_ip op = Some ip")
  case False
  then show ?thesis
    using step_other [of op ip now P] assms(2) by (simp add: times_of_def)
next
  case True
  then show ?thesis
    using assms times_entry [of P ip now]
    by (cases op) (auto simp: check_connection_allowed_def record_bandwidth_def remove_connection_def
        unban_ip_def Let_def times_put times_violate times_Some split: option.split)
qed

text \<open>A request keeps or prunes the recorded times, and records itself when it is accepted.\<close>

lemma times_request:
  "times_of ip (dos_step now (Request ip) P) =
     (if fst (check_request_allowed now now ip P) = Inr ()
      then filter (\<lambda>a. now - a < second) (times_of ip P) @ [now]
      else if \<exists>n. fst (check_request_allowed now now ip P) = Inl (Banned n) then times_of ip P
      else filter (\<lambda>a. now - a < second) (times_of ip P))"
  by (auto simp: check_request_allowed_def Let_def times_put times_violate times_entry split: option.split)

lemma accepted_below_limit:
  "fst (check_request_allowed now now' ip P) = Inr () \<Longrightarrow>
     length (filter (\<lambda>a. now - a < second) (times_of ip P)) < unat (max_requests_per_second (dos_config_of P))"
  by (auto simp: check_request_allowed_def Let_def times_entry not_le split: option.splits if_splits)

section \<open>The cleanup task\<close>

lemma length_delete_all:
  assumes "hm_inv m" and "distinct ks" and "set ks \<subseteq> fst ` set m"
  shows "length (fold AList.delete ks m) + length ks = length m"
  using assms
proof (induction ks arbitrary: m)
  case (Cons k ks)
  obtain v where "map_of m k = Some v"
    using Cons.prems(3) hm_key_iff [of m k] by auto
  note l = length_delete_old [OF Cons.prems(1) this]
  have "set ks \<subseteq> fst ` set (AList.delete k m)"
    using Cons.prems(2,3) by (auto simp: delete_keys [symmetric] AList.delete_eq image_iff) force
  with Cons.IH [of "AList.delete k m"] Cons.prems l show ?case
    by (simp add: hm_inv_delete)
qed simp

lemma delete_all_inv:
  "hm_inv m \<Longrightarrow> hm_inv (fold AList.delete ks m) \<and> fst ` set (fold AList.delete ks m) \<subseteq> fst ` set m"
proof (induction ks arbitrary: m)
  case (Cons k ks)
  have "fst ` set (AList.delete k m) \<subseteq> fst ` set m"
    by (auto simp: AList.delete_eq)
  with Cons.IH [OF hm_inv_delete [OF Cons.prems], of k] show ?case
    by (simp del: AList.delete_eq) (blast intro: order_trans)
qed simp

lemma retain_Cons:
  "cleanup_retain config now ((ip, st) # m) =
     (let age = now - last_activity st in
      if age > unat (cleanup_interval_seconds config * 2) * second then cleanup_retain config now m
      else (ip, if age > second then st\<lparr>bytes_sent := 0, bytes_received := 0\<rparr> else st)
        # cleanup_retain config now m)"
  by (simp add: cleanup_retain_def map_filter_simps Let_def)

lemma retain_inv:
  assumes "hm_inv m"
  shows "hm_inv (cleanup_retain config now m) \<and> fst ` set (cleanup_retain config now m) \<subseteq> fst ` set m"
  using assms
proof (induction m)
  case (Cons p m)
  then show ?case
    by (cases p) (auto simp: retain_Cons hm_inv_def Let_def split: if_splits)
qed (simp add: cleanup_retain_def map_filter_simps)

lemma retain_lookup:
  assumes "hm_inv m"
  shows "map_of (cleanup_retain config now m) ip =
    (case map_of m ip of
       None \<Rightarrow> None
     | Some st \<Rightarrow> if now - last_activity st > unat (cleanup_interval_seconds config * 2) * second then None
         else Some (if now - last_activity st > second then st\<lparr>bytes_sent := 0, bytes_received := 0\<rparr> else st))"
  using assms
proof (induction m)
  case (Cons p m)
  obtain x st where p: "p = (x, st)"
    by fastforce
  have "x \<notin> fst ` set m" and m: "hm_inv m"
    using Cons.prems by (auto simp: p hm_inv_def)
  then have "map_of (cleanup_retain config now m) x = None"
    using retain_inv [OF m, of config now] by (simp add: map_of_eq_None_iff) blast
  then show ?case
    using Cons.IH [OF m] by (auto simp: p retain_Cons Let_def)
qed (simp add: cleanup_retain_def map_filter_simps)

lemma delete_all_lookup: "map_of (fold AList.delete ks m) x = (if x \<in> set ks then None else map_of m x)"
  by (induction ks arbitrary: m) (auto simp: AList.delete_conv' simp del: AList.delete_eq)

text \<open>The addresses that a cleanup evicts because there are too many: those with the oldest activity.\<close>

definition evicted ::
  "(('ip \<times> peer_state) list \<Rightarrow> ('ip \<times> peer_state) list) \<Rightarrow> nat \<Rightarrow> 'ip dos_protection \<Rightarrow> 'ip list" where
  "evicted iter now P =
     (let states = cleanup_retain (dos_config_of P) now (peer_states P) in
      map fst (take (length states - max_tracked_ips (dos_config_of P))
        (sort_key snd (map (\<lambda>(ip, st). (ip, last_activity st)) (iter states)))))"

lemma cleanup_states:
  "peer_states (cleanup iter now P) =
     fold AList.delete (evicted iter now P) (cleanup_retain (dos_config_of P) now (peer_states P))"
  by (simp add: cleanup_def evicted_def Let_def fold_map o_def case_prod_beta')

lemma dos_cleanup_lookup:
  assumes "hm_inv (peer_states P)" and "map_of (peer_states (cleanup iter now P)) ip = Some st'"
  shows "\<exists>st. map_of (peer_states P) ip = Some st \<and> connections st' = connections st
    \<and> request_times st' = request_times st \<and> last_activity st' = last_activity st"
  using assms(2) by (auto simp: cleanup_states delete_all_lookup retain_lookup [OF assms(1)] split: if_splits option.splits)

lemma cleanup_hm_inv: "hm_inv (peer_states P) \<Longrightarrow> hm_inv (peer_states (cleanup iter now P))"
  using delete_all_inv retain_inv unfolding cleanup_states by blast

text \<open>The oldest come first, so nobody active within the last second is evicted where all of these have room.\<close>

definition busy :: "nat \<Rightarrow> 'ip dos_protection \<Rightarrow> nat" where
  "busy now P = length (filter (\<lambda>(ip, st). now - last_activity st < second) (peer_states P))"

lemma retain_busy:
  "length (filter (\<lambda>(ip, st). now - last_activity st < second) (cleanup_retain config now m))
     \<le> length (filter (\<lambda>(ip, st). now - last_activity st < second) m)"
  by (induction m) (auto simp: retain_Cons cleanup_retain_def [of _ _ "[]"] map_filter_simps Let_def)

lemma oldest_first:
  assumes "sorted (map snd es)" and "length (filter (\<lambda>(ip, t :: nat). now - t < w) es) \<le> n"
    and "(ip, t) \<in> set (take (length es - n) es)"
  shows "w \<le> now - t"
proof (rule ccontr)
  assume "\<not> w \<le> now - t"
  let ?k = "length es - n" and ?act = "\<lambda>(ip, t :: nat). now - t < w"
  have "sorted (map snd (take ?k es) @ map snd (drop ?k es))"
    using assms(1) by (metis append_take_drop_id map_append)
  then have "t \<le> t'" if "(ip', t') \<in> set (drop ?k es)" for ip' t'
    using assms(3) that by (force simp: sorted_append)
  with \<open>\<not> w \<le> now - t\<close> have "\<forall>e \<in> set (drop ?k es). ?act e"
    by (auto simp: case_prod_beta) (meson diff_le_mono2 le_less_trans not_le)
  then have "length (filter ?act (drop ?k es)) = length (drop ?k es)"
    by (simp only: filter_True)
  moreover have "0 < length (filter ?act (take ?k es))"
    using assms(3) \<open>\<not> w \<le> now - t\<close> by (auto simp: filter_empty_conv intro!: bexI [of _ "(ip, t)"])
  moreover have "length (filter ?act es) = length (filter ?act (take ?k es)) + length (filter ?act (drop ?k es))"
    by (metis append_take_drop_id filter_append length_append)
  moreover have "n \<le> length (drop ?k es)"
    using assms(3) by (cases "n \<le> length es") auto
  ultimately show False
    using assms(2) by linarith
qed

lemma evicted_idle:
  assumes "hm_inv (peer_states P)" and "mset (iter m) = mset m" and "m = cleanup_retain (dos_config_of P) now (peer_states P)"
    and "busy now P \<le> max_tracked_ips (dos_config_of P)" and "ip \<in> set (evicted iter now P)"
    and "map_of (peer_states P) ip = Some st"
  shows "second \<le> now - last_activity st"
proof -
  let ?f = "\<lambda>(ip, st). (ip, last_activity st)" and ?n = "max_tracked_ips (dos_config_of P)"
  let ?es = "sort_key snd (map ?f (iter m))" and ?act = "\<lambda>(ip, t). now - t < second"
  have es: "mset ?es = mset (map ?f m)"
    using assms(2) by (simp flip: mset_map) (simp add: mset_map)
  then have "length (filter ?act ?es) = length (filter ?act (map ?f m))"
    by (metis mset_filter size_mset)
  also have "\<dots> = length (filter (\<lambda>(ip, st). now - last_activity st < second) m)"
    by (simp add: filter_map o_def case_prod_beta')
  also have "\<dots> \<le> ?n"
    using retain_busy [of now "dos_config_of P" "peer_states P"] assms(4) unfolding busy_def assms(3) by linarith
  finally have few: "length (filter ?act ?es) \<le> ?n" .
  obtain t where t: "(ip, t) \<in> set (take (length ?es - ?n) ?es)"
    using assms(5) mset_eq_length [OF es] unfolding evicted_def Let_def assms(3) [symmetric] by auto
  then have "(ip, t) \<in> set (map ?f m)"
    using mset_eq_setD [OF es] in_set_takeD [OF t] by (simp only:)
  then obtain st' where "(ip, st') \<in> set m" "t = last_activity st'"
    by auto
  then have "map_of m ip = Some st'"
    using retain_inv [OF assms(1)] unfolding assms(3) hm_inv_def by simp
  then have "t = last_activity st"
    using assms(6) \<open>t = last_activity st'\<close> unfolding assms(3) retain_lookup [OF assms(1)] by (auto split: if_splits)
  with oldest_first [OF _ few t] show ?thesis
    by simp
qed

text \<open>
  The states of a run at a time: each address has recorded its requests no later than its last activity.
  A cleanup is harmless unless more addresses were active within the last second than are tracked.
\<close>

definition requests_inv :: "nat \<Rightarrow> 'ip dos_protection \<Rightarrow> bool" where
  "requests_inv now P \<longleftrightarrow> hm_inv (peer_states P) \<and> 0 < unat (cleanup_interval_seconds (dos_config_of P) * 2)
     \<and> (\<forall>ip st. map_of (peer_states P) ip = Some st \<longrightarrow>
          (\<forall>t \<in> set (request_times st). t \<le> last_activity st) \<and> last_activity st \<le> now)"

definition uncrowded :: "nat \<Rightarrow> 'ip dos_op \<Rightarrow> 'ip dos_protection \<Rightarrow> bool" where
  "uncrowded now op P \<longleftrightarrow>
     (case op of
        Cleanup iter \<Rightarrow> (\<forall>m. mset (iter m) = mset m) \<and> busy now P \<le> max_tracked_ips (dos_config_of P)
      | _ \<Rightarrow> True)"

lemma times_cleanup:
  assumes "requests_inv now P" and "uncrowded now (Cleanup iter) P"
  shows "filter (\<lambda>a. now - a < second) (times_of ip (cleanup iter now P)) = filter (\<lambda>a. now - a < second) (times_of ip P)"
proof (cases "map_of (peer_states P) ip")
  case None
  then show ?thesis
    using assms(1) dos_cleanup_lookup [of P iter now ip] by (auto simp: times_of_def requests_inv_def split: option.split)
next
  case (Some st)
  have i: "hm_inv (peer_states P)" "0 < unat (cleanup_interval_seconds (dos_config_of P) * 2)"
    "\<forall>t \<in> set (request_times st). t \<le> last_activity st"
    using assms(1) Some by (auto simp: requests_inv_def)
  show ?thesis
  proof (cases "map_of (peer_states (cleanup iter now P)) ip")
    case kept: (Some st')
    then show ?thesis
      using dos_cleanup_lookup [OF i(1) kept] Some by (auto simp: times_of_def)
  next
    case None
    have "second \<le> now - last_activity st"
    proof (cases "ip \<in> set (evicted iter now P)")
      case True
      then show ?thesis
        using evicted_idle [OF i(1) _ refl _ True Some] assms(2) by (simp add: uncrowded_def)
    next
      case False
      with None Some have "unat (cleanup_interval_seconds (dos_config_of P) * 2) * second < now - last_activity st"
        by (auto simp: cleanup_states delete_all_lookup retain_lookup [OF i(1)] split: if_splits)
      moreover have "1 * second \<le> unat (cleanup_interval_seconds (dos_config_of P) * 2) * second"
        using i(2) by (intro mult_le_mono1) simp
      ultimately show ?thesis
        by linarith
    qed
    then have "\<forall>t \<in> set (request_times st). \<not> now - t < second"
      using i(3) by fastforce
    then show ?thesis
      using None Some by (simp add: times_of_def filter_empty_conv)
  qed
qed

lemma requests_inv_put:
  assumes "requests_inv now P" and "\<forall>t \<in> set (request_times st). t \<le> last_activity st" and "last_activity st \<le> now"
  shows "requests_inv now (put_peer ip st P)"
  using assms by (auto simp: requests_inv_def lookup_put) (simp add: put_peer_def hm_inv_update)

lemma requests_inv_stats [simp]: "requests_inv now (P\<lparr>dos_stats_of := s\<rparr>) = requests_inv now P"
  by (simp add: requests_inv_def)

lemma requests_inv_violate:
  assumes "requests_inv now P" and "\<forall>t \<in> set (request_times st). t \<le> last_activity st" and "last_activity st \<le> now"
  shows "requests_inv now (violate now' ip st P)"
proof -
  obtain st' stats' where h: "handle_violation now' (dos_config_of P) (st, dos_stats_of P) = (st', stats')"
    by fastforce
  have "requests_inv now (put_peer ip st' (P\<lparr>dos_stats_of := stats'\<rparr>))"
    by (rule requests_inv_put) (use assms handle_violation_frame [OF h] in auto)
  then show ?thesis
    by (simp add: violate_def h)
qed

lemma requests_inv_step:
  assumes "requests_inv now P"
  shows "requests_inv now (dos_step now op P)"
proof -
  have e: "(\<forall>t \<in> set (request_times (peer_entry P ip now)). t \<le> last_activity (peer_entry P ip now))
      \<and> last_activity (peer_entry P ip now) \<le> now" for ip
    using assms by (auto simp: requests_inv_def peer_entry_def fresh_peer_def split: option.split)
  then have n: "\<forall>t \<in> set (request_times (peer_entry P ip now)). t \<le> now" for ip
    by (meson order.trans)
  have l: "(\<forall>t \<in> set (request_times st). t \<le> last_activity st) \<and> last_activity st \<le> now"
    if "map_of (peer_states P) ip = Some st" for ip st
    using assms that by (simp add: requests_inv_def)
  note puts = requests_inv_put requests_inv_violate
  show ?thesis
  proof (cases op)
    case (Connect ip)
    then show ?thesis
      using assms e [of ip] n [of ip] by (auto simp: check_connection_allowed_def Let_def intro!: puts split: option.split)
  next
    case (Request ip)
    then show ?thesis
      using assms e [of ip] n [of ip] by (auto simp: check_request_allowed_def Let_def intro!: puts split: option.split)
  next
    case (Bandwidth ip s r)
    then show ?thesis
      using assms e [of ip] n [of ip] by (auto simp: record_bandwidth_def Let_def intro!: puts)
  next
    case (Disconnect ip)
    then show ?thesis
      using assms l [of ip] by (auto simp: remove_connection_def intro!: puts split: option.split)
  next
    case (Unban ip)
    then show ?thesis
      using assms l [of ip] by (auto simp: unban_ip_def intro!: puts split: option.split)
  next
    case (Cleanup iter)
    then show ?thesis
      using assms dos_cleanup_lookup [of P iter now] cleanup_hm_inv [of P iter now] config_step [of now op P]
      by (auto simp: requests_inv_def) (metis order.trans)+
  qed
qed

text \<open>The requests of one address are limited over a window of a second.\<close>

interpretation requests: sliding_window second "times_of ip"
  "\<lambda>now op P. op = Request ip \<and> fst (check_request_allowed now now ip P) = Inr ()" dos_step
  "\<lambda>P. unat (max_requests_per_second (dos_config_of P))" requests_inv uncrowded
proof
  fix t now and P :: "'a dos_protection"
  show "requests_inv t P \<Longrightarrow> t \<le> now \<Longrightarrow> requests_inv now P"
    by (force simp: requests_inv_def)
next
  fix now op and P :: "'a dos_protection"
  show "requests_inv now P \<Longrightarrow> requests_inv now (dos_step now op P)"
    by (rule requests_inv_step)
next
  fix now op and P :: "'a dos_protection"
  assume "op = Request ip \<and> fst (check_request_allowed now now ip P) = Inr ()"
  then show "length (filter (\<lambda>a. now - a < second) (times_of ip P)) < unat (max_requests_per_second (dos_config_of P))"
    and "filter (\<lambda>a. now - a < second) (times_of ip (dos_step now op P)) =
      filter (\<lambda>a. now - a < second) (times_of ip P) @ [now]"
    using accepted_below_limit times_request [of ip now P] by (auto simp: second_def simp del: dos_step.simps)
next
  fix now op and P :: "'a dos_protection"
  assume "requests_inv now P" and "uncrowded now op P"
    and "\<not> (op = Request ip \<and> fst (check_request_allowed now now ip P) = Inr ())"
  then show "filter (\<lambda>a. now - a < second) (times_of ip (dos_step now op P)) = filter (\<lambda>a. now - a < second) (times_of ip P)"
    using times_request [of ip now P] times_step_other [of op ip now P] times_cleanup [of now P _ ip]
    by (cases "op = Request ip"; cases "is_Cleanup op") (auto simp: is_Cleanup_def simp del: dos_step.simps(1-5))
qed simp_all

lemma accepted_requests_eq:
  "accepted_requests ip ops P =
   accepted_times (\<lambda>now op P. op = Request ip \<and> fst (check_request_allowed now now ip P) = Inr ()) dos_step ops P"
  by (induction ip ops P rule: accepted_requests.induct) simp_all

section \<open>Connections, bans and cleanup\<close>

definition dos_inv :: "'ip dos_protection \<Rightarrow> bool" where
  "dos_inv P \<longleftrightarrow> hm_inv (peer_states P) \<and>
     (\<forall>ip st. map_of (peer_states P) ip = Some st \<longrightarrow>
        connections st \<le> max_connections_per_ip (dos_config_of P)
        \<and> length (request_times st) \<le> unat (max_requests_per_second (dos_config_of P)))"

lemma dos_inv_new: "dos_inv (dos_new config)"
  by (simp add: dos_inv_def dos_new_def)

abbreviation peer_fits :: "dos_config \<Rightarrow> peer_state \<Rightarrow> bool" where
  "peer_fits config st \<equiv> connections st \<le> max_connections_per_ip config
     \<and> length (request_times st) \<le> unat (max_requests_per_second config)"

lemma dos_inv_put: "dos_inv P \<Longrightarrow> peer_fits (dos_config_of P) st \<Longrightarrow> dos_inv (put_peer ip st P)"
  by (auto simp: dos_inv_def lookup_put) (simp add: put_peer_def hm_inv_update)

lemma dos_inv_stats [simp]: "dos_inv (P\<lparr>dos_stats_of := s\<rparr>) = dos_inv P"
  by (simp add: dos_inv_def)

lemma dos_inv_violate:
  assumes "dos_inv P" and "peer_fits (dos_config_of P) st"
  shows "dos_inv (violate now ip st P)"
proof -
  obtain st' stats' where h: "handle_violation now (dos_config_of P) (st, dos_stats_of P) = (st', stats')"
    by fastforce
  have "dos_inv (put_peer ip st' (P\<lparr>dos_stats_of := stats'\<rparr>))"
    by (rule dos_inv_put) (use assms handle_violation_frame [OF h] in auto)
  then show ?thesis
    by (simp add: violate_def h)
qed

lemma entry_fits: "dos_inv P \<Longrightarrow> peer_fits (dos_config_of P) (peer_entry P ip now)"
  by (auto simp: dos_inv_def peer_entry_def fresh_peer_def split: option.split)

lemma word_inc_le: "(a :: u32) < b \<Longrightarrow> a + 1 \<le> b"
  by (rule inc_le)

lemma step_inv:
  assumes "dos_inv P"
  shows "dos_inv (dos_step now op P)"
proof -
  have e: "peer_fits (dos_config_of P) (peer_entry P ip now)" for ip
    by (rule entry_fits [OF assms])
  have f: "length (filter Q (request_times (peer_entry P ip now))) \<le> unat (max_requests_per_second (dos_config_of P))" for Q ip
    using e [of ip] length_filter_le [of Q "request_times (peer_entry P ip now)"] by linarith
  have l: "peer_fits (dos_config_of P) st" if "map_of (peer_states P) ip = Some st" for ip st
    using assms that by (simp add: dos_inv_def)
  show ?thesis
  proof (cases op)
    case (Connect ip)
    then show ?thesis
      using assms e [of ip] by (auto simp: check_connection_allowed_def Let_def not_le word_inc_le
          intro!: dos_inv_put dos_inv_violate split: option.split)
  next
    case (Request ip)
    then show ?thesis
      using assms e [of ip] f by (auto simp: check_request_allowed_def Let_def not_le Suc_le_eq
          intro!: dos_inv_put dos_inv_violate split: option.split)
  next
    case (Bandwidth ip s r)
    then show ?thesis
      using assms e [of ip] by (auto simp: record_bandwidth_def Let_def intro!: dos_inv_put dos_inv_violate)
  next
    case (Disconnect ip)
    have "st - 1 \<le> b" if "0 < st" "st \<le> b" for st b :: u32
      using that by (simp add: word_le_nat_alt word_less_nat_alt unat_sub)
    with Disconnect show ?thesis
      using assms l [of ip] by (auto simp: remove_connection_def intro!: dos_inv_put split: option.split)
  next
    case (Unban ip)
    then show ?thesis
      using assms l [of ip] by (auto simp: unban_ip_def intro!: dos_inv_put split: option.split)
  next
    case (Cleanup iter)
    then show ?thesis
      using assms dos_cleanup_lookup [of P iter now] cleanup_hm_inv [of P iter now] config_step [of now op P]
      by (auto simp: dos_inv_def) metis+
  qed
qed

text \<open>A ban in force: every request and connection is refused and the ban is not shortened.\<close>

definition banned_to :: "'ip \<Rightarrow> nat \<Rightarrow> 'ip dos_protection \<Rightarrow> bool" where
  "banned_to ip u P \<longleftrightarrow>
     (\<exists>st v. map_of (peer_states P) ip = Some st \<and> banned_until st = Some v \<and> u \<le> v)"

lemma banned_step:
  assumes "banned_to ip u P" and "now < u" and "op \<noteq> Unban ip" and "\<not> is_Cleanup op"
    and "u \<le> now + unat (ban_duration_seconds (dos_config_of P)) * second"
  shows "banned_to ip u (dos_step now op P)"
proof (cases "op_ip op = Some ip")
  case False
  with assms(1,4) step_other [of op ip now P] show ?thesis
    by (simp add: banned_to_def)
next
  case True
  obtain st v where st: "map_of (peer_states P) ip = Some st" "banned_until st = Some v" "u \<le> v"
    using assms(1) by (auto simp: banned_to_def)
  have now: "now < v"
    using assms(2) st(3) by simp
  show ?thesis
  proof (cases op)
    case (Bandwidth x s r)
    let ?st = "st\<lparr>bytes_sent := bytes_sent st + s, bytes_received := bytes_received st + r, last_activity := now\<rparr>"
    show ?thesis
      using Bandwidth True st assms(5) lookup_violate [of now ip ?st P]
      by (auto simp: record_bandwidth_def peer_entry_def Let_def banned_to_def lookup_put)
  qed (use True st now assms(3,4) in \<open>auto simp: check_connection_allowed_def check_request_allowed_def
      remove_connection_def peer_entry_def Let_def banned_to_def lookup_put split: option.split\<close>)
qed

lemma banned_refused:
  assumes "banned_to ip u P" and "now < u"
  shows "\<exists>n. fst (check_request_allowed now now' ip P) = Inl (Banned n)"
    and "\<exists>n. fst (check_connection_allowed now now' ip P) = Inl (Banned n)"
  using assms by (auto simp: banned_to_def check_request_allowed_def check_connection_allowed_def
      peer_entry_def Let_def split: option.split)

section \<open>Properties\<close>

text \<open>
  C37. The request limit holds over every window of one second, not only over aligned ones:
  whatever connections, requests, transfers, unbans and cleanups happen at non-decreasing clock
  readings, no more requests of one address are let through within a second than configured. This
  supposes that no cleanup finds more addresses active within the last second than may be
  tracked, since it would evict some of these, and that twice the cleanup interval is not zero.
\<close>

theorem request_rate_limited:
  assumes "sorted (map fst ops)" and "cleanup_interval_seconds config * 2 \<noteq> 0"
    and "legal_run uncrowded dos_step ops (dos_new config)"
  shows "length (filter (\<lambda>a. t \<le> a \<and> a < t + second) (accepted_requests ip ops (dos_new config)))
    \<le> unat (max_requests_per_second config)"
proof -
  have "requests_inv 0 (dos_new config)" "times_of ip (dos_new config) = []"
    using assms(2) by (simp_all add: requests_inv_def dos_new_def times_of_def unat_gt_0)
  from requests.rate_limited [OF this assms(1,3), of t] show ?thesis
    by (simp add: accepted_requests_eq) (simp add: dos_new_def)
qed

theorem request_rate_limited_witness:
  "length (filter (\<lambda>a. 0 \<le> a \<and> a < 0 + second)
     (accepted_requests (1 :: nat) [(5, Request 1), (6, Cleanup rev), (7, Request 1), (8, Request 1)]
       (dos_new (default_dos_config\<lparr>max_requests_per_second := 2\<rparr>)))) \<le> 2"
proof -
  let ?c = "default_dos_config\<lparr>max_requests_per_second := 2\<rparr>"
  have "busy 6 (dos_step 5 (Request (1 :: nat)) (dos_new ?c)) \<le> 1"
    by (simp add: busy_def dos_new_def default_dos_config_def check_request_allowed_def peer_entry_def fresh_peer_def put_peer_def)
  then have "legal_run uncrowded dos_step [(5, Request 1), (6, Cleanup rev), (7, Request 1), (8, Request (1 :: nat))] (dos_new ?c)"
    by (simp add: uncrowded_def del: dos_step.simps) (simp add: dos_new_def default_dos_config_def)
  from request_rate_limited [OF _ _ this, of 0 1] show ?thesis
    by (simp add: default_dos_config_def)
qed

text \<open>
  Above that number the limit fails: with room for one address and a limit of one request, a request
  of another address and a cleanup make the detector forget the first, which passes again within
  three nanoseconds.
\<close>

theorem eviction_forgets_requests:
  "accepted_requests (1 :: nat) [(0, Request 1), (1, Request 2), (2, Cleanup id), (3, Request 1)]
     (dos_new (default_dos_config\<lparr>max_requests_per_second := 1, max_tracked_ips := 1\<rparr>)) = [0, 3]"
  by (simp add: dos_new_def default_dos_config_def check_request_allowed_def peer_entry_def fresh_peer_def put_peer_def
      cleanup_def cleanup_retain_def map_filter_simps second_def Let_def)

text \<open>
  Under every sequence of operations without a cleanup no address has more open connections or
  recorded requests than configured, and while a ban runs, every request and every connection of
  the address is refused.
\<close>

theorem dos_limits_and_bans:
  assumes "banned_to ip u P" and "dos_inv P"
    and "\<forall>(now, op) \<in> set ops. now < u \<and> op \<noteq> Unban ip \<and> \<not> is_Cleanup op
      \<and> u \<le> now + unat (ban_duration_seconds (dos_config_of P)) * second"
  shows "accepted_requests ip ops P = []
    \<and> dos_inv (fold (\<lambda>(now, op). dos_step now op) ops P)
    \<and> (\<forall>now < u. \<exists>n. fst (check_connection_allowed now now ip (fold (\<lambda>(now, op). dos_step now op) ops P)) = Inl (Banned n))"
  using assms
proof (induction ops arbitrary: P)
  case Nil
  then show ?case
    using banned_refused(2) by auto
next
  case (Cons x ops)
  obtain now op where x: "x = (now, op)"
    by fastforce
  have p: "now < u" "op \<noteq> Unban ip" "\<not> is_Cleanup op" "u \<le> now + unat (ban_duration_seconds (dos_config_of P)) * second"
    using Cons.prems(3) by (auto simp: x)
  have "fst (check_request_allowed now now ip P) \<noteq> Inr ()"
    using banned_refused(1) [OF Cons.prems(1) p(1), of now] by auto
  with Cons.IH [OF banned_step [OF Cons.prems(1) p] step_inv [OF Cons.prems(2)]]
    Cons.prems(3) show ?case
    by (simp add: x)
qed

theorem dos_limits_and_bans_witness:
  "accepted_requests (1 :: nat) [(5, Request 1), (6, Connect 1)]
     (put_peer 1 (fresh_peer 0\<lparr>banned_until := Some 9\<rparr>) (dos_new default_dos_config)) = []"
proof -
  let ?P = "put_peer (1 :: nat) (fresh_peer 0\<lparr>banned_until := Some 9\<rparr>) (dos_new default_dos_config)"
  have "banned_to 1 9 ?P"
    by (simp add: banned_to_def lookup_put)
  moreover have "dos_inv ?P"
    by (rule dos_inv_put [OF dos_inv_new]) (simp add: fresh_peer_def)
  moreover have "\<forall>(now, op) \<in> set [(5, Request 1), (6, Connect (1 :: nat))]. now < 9 \<and> op \<noteq> Unban 1 \<and> \<not> is_Cleanup op
      \<and> 9 \<le> now + unat (ban_duration_seconds (dos_config_of ?P)) * second"
    by (simp add: dos_new_def default_dos_config_def second_def)
  ultimately show ?thesis
    by (rule dos_limits_and_bans [THEN conjunct1])
qed

text \<open>
  After a cleanup at most the configured number of addresses is tracked, every one of them
  was tracked before, and the count reported is theirs.
\<close>

theorem cleanup_bounds_table:
  assumes "hm_inv (peer_states P)" and "\<And>m. mset (iter m) = mset m"
  shows "length (peer_states (cleanup iter now P)) \<le> max_tracked_ips (dos_config_of P)
    \<and> hm_inv (peer_states (cleanup iter now P))
    \<and> fst ` set (peer_states (cleanup iter now P)) \<subseteq> fst ` set (peer_states P)
    \<and> tracked_ips (dos_stats_of (cleanup iter now P)) = length (peer_states (cleanup iter now P))"
proof -
  let ?c = "dos_config_of P"
  let ?s = "cleanup_retain ?c now (peer_states P)"
  let ?e = "map fst (sort_key snd (map (\<lambda>(ip, st). (ip, last_activity st)) (iter ?s)))"
  have r: "hm_inv ?s \<and> fst ` set ?s \<subseteq> fst ` set (peer_states P)"
    by (rule retain_inv [OF assms(1)])
  have e: "mset ?e = mset (map fst ?s)"
    using arg_cong [OF assms(2) [of ?s], of "image_mset fst"]
    by (simp add: multiset.map_comp o_def case_prod_beta)
  have d: "distinct ?e"
    using r mset_eq_imp_distinct_iff [OF e] by (simp only: hm_inv_def)
  show ?thesis
  proof (cases "length ?s > max_tracked_ips ?c")
    case False
    then show ?thesis
      using r by (simp add: cleanup_def Let_def)
  next
    case True
    let ?ks = "take (length ?s - max_tracked_ips ?c) ?e"
    have ks: "set ?ks \<subseteq> fst ` set ?s"
      using mset_eq_setD [OF e] set_take_subset [of "length ?s - max_tracked_ips ?c" ?e] by (metis set_map)
    have len: "length ?ks = length ?s - max_tracked_ips ?c"
      using mset_eq_length [OF e] by simp
    have f: "peer_states (cleanup iter now P) = fold AList.delete ?ks ?s"
      using True by (simp add: cleanup_def Let_def take_map fold_map o_def case_prod_beta')
    have "length (fold AList.delete ?ks ?s) + length ?ks = length ?s"
      by (rule length_delete_all [OF _ _ ks]) (use r d in auto)
    then have "length (fold AList.delete ?ks ?s) \<le> max_tracked_ips ?c"
      using len True by linarith
    moreover have "hm_inv (fold AList.delete ?ks ?s)" "fst ` set (fold AList.delete ?ks ?s) \<subseteq> fst ` set (peer_states P)"
      using delete_all_inv [of ?s ?ks] r by auto
    moreover have "tracked_ips (dos_stats_of (cleanup iter now P)) = length (peer_states (cleanup iter now P))"
      by (simp add: cleanup_def Let_def)
    ultimately show ?thesis
      by (simp only: f)
  qed
qed

theorem cleanup_bounds_table_witness:
  "length (peer_states (cleanup rev 5 (put_peer (1 :: nat) (fresh_peer 0) (dos_new default_dos_config)))) \<le> 10000"
  using cleanup_bounds_table [of "put_peer (1 :: nat) (fresh_peer 0) (dos_new default_dos_config)" rev 5]
  by (simp add: put_peer_def dos_new_def default_dos_config_def hm_inv_def)

text \<open>
  The cleanup drops an address by its last activity alone. A refused attempt of a banned
  address does not count as activity, so the ban is forgotten after twice the cleanup interval.
\<close>

theorem cleanup_forgets_bans:
  assumes "hm_inv (peer_states P)" and "map_of (peer_states P) ip = Some st"
    and "now - last_activity st > unat (cleanup_interval_seconds (dos_config_of P) * 2) * second"
    and "length (cleanup_retain (dos_config_of P) now (peer_states P)) \<le> max_tracked_ips (dos_config_of P)"
  shows "\<not> is_banned now ip (cleanup iter now P)"
proof -
  have "(ip, x) \<notin> set (cleanup_retain (dos_config_of P) now (peer_states P))" for x
  proof
    assume "(ip, x) \<in> set (cleanup_retain (dos_config_of P) now (peer_states P))"
    then obtain st' where s: "(ip, st') \<in> set (peer_states P)"
      and "\<not> now - last_activity st' > unat (cleanup_interval_seconds (dos_config_of P) * 2) * second"
      by (auto simp: cleanup_retain_def List.map_filter_def Let_def split: if_splits)
    moreover from s assms(1,2) have "st' = st"
      by (simp add: hm_inv_def)
    ultimately show False
      using assms(3) by simp
  qed
  then have "map_of (cleanup_retain (dos_config_of P) now (peer_states P)) ip = None"
    by (metis map_of_SomeD not_Some_eq)
  with assms(4) show ?thesis
    by (simp add: is_banned_def cleanup_def Let_def)
qed

end
