(* ===== verification/Peers.thy ===== *)
theory Peers
  imports Prelude
begin

text \<open>
  The peer manager: \<^verbatim>\<open>src/src/network/peer_manager.rs\<close>.

  Peer ids are an arbitrary type of the model; the clock, in seconds, is an argument. Scores
  are 32-bit signed integers, written as words and read with \<open>sint\<close>. \<open>add_peer\<close> asks for the
  write lock on the ban list while the read guard of the surrounding \<open>if let\<close> is still alive,
  which never returns: the outcome \<open>Hangs\<close>. Listings of a hash map take its order as the argument
  \<open>iter\<close>, of which the code relies on \<open>peer_iterates\<close>. The body of the cleanup loop is the operation
  \<open>cleanup_stale_peers\<close>.
\<close>

section \<open>State\<close>

record 'p peer_info =
  pi_peer_id :: 'p
  pi_address :: string
  last_seen :: u64
  is_connected :: bool
  dag_height :: u64
  pi_score :: i32

record 'p peer_manager =
  pm_peers :: "('p \<times> 'p peer_info) list"
  pm_bans :: "('p \<times> u64) list"
  max_peers :: nat

datatype add_outcome = Added | MaxPeersReached | TemporarilyBanned | PeerExists | Hangs

section \<open>Operations\<close>

definition peer_manager_new :: "nat \<Rightarrow> 'p peer_manager" where
  "peer_manager_new n = \<lparr>pm_peers = [], pm_bans = [], max_peers = n\<rparr>"

definition add_peer :: "u64 \<Rightarrow> 'p \<Rightarrow> string \<Rightarrow> 'p peer_manager \<Rightarrow> add_outcome \<times> 'p peer_manager" where
  "add_peer now p addr pm =
     (if length (pm_peers pm) \<ge> max_peers pm then (MaxPeersReached, pm)
      else case map_of (pm_bans pm) p of
        Some expiry \<Rightarrow> (if expiry > now then (TemporarilyBanned, pm) else (Hangs, pm))
      | None \<Rightarrow>
     (case map_of (pm_peers pm) p of
        Some existing \<Rightarrow>
          if is_connected existing then (PeerExists, pm)
          else (Added, pm\<lparr>pm_peers := AList.update p (existing\<lparr>pi_address := addr, last_seen := now,
                 is_connected := True, dag_height := 0, pi_score := 100\<rparr>) (pm_peers pm)\<rparr>)
      | None \<Rightarrow>
          (Added, pm\<lparr>pm_peers := AList.update p \<lparr>pi_peer_id = p, pi_address = addr, last_seen = now,
             is_connected = False, dag_height = 0, pi_score = 100\<rparr> (pm_peers pm)\<rparr>)))"

definition remove_peer :: "'p \<Rightarrow> 'p peer_manager \<Rightarrow> 'p peer_manager" where
  "remove_peer p pm = pm\<lparr>pm_peers := AList.delete p (pm_peers pm)\<rparr>"

text \<open>\<open>if let Some(peer) = peers.get_mut(peer_id)\<close>\<close>

definition modify_peer ::
  "'p \<Rightarrow> ('p peer_info \<Rightarrow> 'p peer_info) \<Rightarrow> 'p peer_manager \<Rightarrow> 'p peer_manager" where
  "modify_peer p f pm =
     (case map_of (pm_peers pm) p of
        None \<Rightarrow> pm
      | Some peer \<Rightarrow> pm\<lparr>pm_peers := AList.update p (f peer) (pm_peers pm)\<rparr>)"

definition update_peer_status :: "u64 \<Rightarrow> 'p \<Rightarrow> bool \<Rightarrow> 'p peer_manager \<Rightarrow> 'p peer_manager" where
  "update_peer_status now p connected = modify_peer p (\<lambda>peer. peer\<lparr>is_connected := connected, last_seen := now\<rparr>)"

definition update_peer_height :: "'p \<Rightarrow> u64 \<Rightarrow> 'p peer_manager \<Rightarrow> 'p peer_manager" where
  "update_peer_height p height = modify_peer p (\<lambda>peer. peer\<lparr>dag_height := height\<rparr>)"

type_synonym 'p peer_iter = "('p \<times> 'p peer_info) list \<Rightarrow> ('p \<times> 'p peer_info) list"

definition get_connected_peers :: "'p peer_iter \<Rightarrow> 'p peer_manager \<Rightarrow> 'p list" where
  "get_connected_peers iter pm = map pi_peer_id (filter is_connected (map snd (iter (pm_peers pm))))"

definition get_all_peers :: "'p peer_iter \<Rightarrow> 'p peer_manager \<Rightarrow> 'p list" where
  "get_all_peers iter pm = map fst (iter (pm_peers pm))"

definition get_peer_info :: "'p \<Rightarrow> 'p peer_manager \<Rightarrow> 'p peer_info option" where
  "get_peer_info p pm = map_of (pm_peers pm) p"

text \<open>Descending by height: the stable sort by the distance to the greatest \<open>u64\<close>.\<close>

definition sync_list :: "'p peer_iter \<Rightarrow> nat \<Rightarrow> 'p peer_manager \<Rightarrow> 'p peer_info list" where
  "sync_list iter n pm =
     take n (sort_key (\<lambda>peer. - 1 - dag_height peer) (filter is_connected (map snd (iter (pm_peers pm)))))"

definition get_sync_peers :: "'p peer_iter \<Rightarrow> nat \<Rightarrow> 'p peer_manager \<Rightarrow> 'p list" where
  "get_sync_peers iter n pm = map pi_peer_id (sync_list iter n pm)"

definition cleanup_stale_peers :: "u64 \<Rightarrow> 'p peer_manager \<Rightarrow> 'p peer_manager" where
  "cleanup_stale_peers now pm =
     pm\<lparr>pm_peers := filter (\<lambda>(p, peer). \<not> now - last_seen peer > 600) (pm_peers pm)\<rparr>"

definition reconnect_peers :: "'p peer_iter \<Rightarrow> u64 \<Rightarrow> 'p peer_manager \<Rightarrow> 'p peer_manager" where
  "reconnect_peers iter now pm =
     fold (\<lambda>p. update_peer_status now p True)
       (map pi_peer_id (filter (\<lambda>peer. \<not> is_connected peer) (map snd (iter (pm_peers pm))))) pm"

definition penalize_peer :: "u64 \<Rightarrow> 'p \<Rightarrow> i32 \<Rightarrow> 'p peer_manager \<Rightarrow> 'p peer_manager" where
  "penalize_peer now p points pm =
     (case map_of (pm_peers pm) p of
        None \<Rightarrow> pm
      | Some peer \<Rightarrow>
          let peer = peer\<lparr>pi_score := pi_score peer - points\<rparr> in
          if sint (pi_score peer) \<le> 0
          then pm\<lparr>pm_peers := AList.update p (peer\<lparr>is_connected := False\<rparr>) (pm_peers pm),
                  pm_bans := AList.update p (now + 24 * 3600) (pm_bans pm)\<rparr>
          else pm\<lparr>pm_peers := AList.update p peer (pm_peers pm)\<rparr>)"

definition reward_peer :: "'p \<Rightarrow> i32 \<Rightarrow> 'p peer_manager \<Rightarrow> 'p peer_manager" where
  "reward_peer p points =
     modify_peer p (\<lambda>peer. peer\<lparr>pi_score :=
       (if sint (pi_score peer + points) \<le> 100 then pi_score peer + points else 100)\<rparr>)"

section \<open>Steps\<close>

definition peer_iterates :: "'p peer_iter \<Rightarrow> bool" where
  "peer_iterates iter \<longleftrightarrow> (\<forall>m. mset (iter m) = mset m)"

inductive pm_step :: "'p peer_iter \<Rightarrow> 'p peer_manager \<Rightarrow> 'p peer_manager \<Rightarrow> bool" for iter where
  add: "pm_step iter pm (snd (add_peer now p addr pm))"
| remove: "pm_step iter pm (remove_peer p pm)"
| status: "pm_step iter pm (update_peer_status now p c pm)"
| height: "pm_step iter pm (update_peer_height p h pm)"
| cleanup: "pm_step iter pm (cleanup_stale_peers now pm)"
| reconnect: "pm_step iter pm (reconnect_peers iter now pm)"
| penalize: "pm_step iter pm (penalize_peer now p points pm)"
| reward: "pm_step iter pm (reward_peer p points pm)"

inductive_cases pm_stepE: "pm_step iter pm pm'"

text \<open>The table is within its size and keyed by the peers' own ids.\<close>

definition pm_inv :: "'p peer_manager \<Rightarrow> bool" where
  "pm_inv pm \<longleftrightarrow> hm_inv (pm_peers pm) \<and> hm_inv (pm_bans pm) \<and> length (pm_peers pm) \<le> max_peers pm
     \<and> (\<forall>p peer. map_of (pm_peers pm) p = Some peer \<longrightarrow> pi_peer_id peer = p)"

lemma modify_peer_inv:
  assumes "pm_inv pm" and "\<And>peer. pi_peer_id (f peer) = pi_peer_id peer"
  shows "pm_inv (modify_peer p f pm)"
  using assms by (auto simp: pm_inv_def modify_peer_def hm_inv_update map_of_hm_update length_update_old
      split: option.split)

lemma modify_peer_frame [simp]:
  "max_peers (modify_peer p f pm) = max_peers pm" "pm_bans (modify_peer p f pm) = pm_bans pm"
  by (simp_all add: modify_peer_def split: option.split)

lemma modify_peer_lookup:
  "map_of (pm_peers (modify_peer p f pm)) x =
     (if x = p then map_option f (map_of (pm_peers pm) p) else map_of (pm_peers pm) x)"
  by (simp add: modify_peer_def map_of_hm_update split: option.split)

lemma add_peer_inv:
  assumes "pm_inv pm"
  shows "pm_inv (snd (add_peer now p addr pm))"
  using assms by (auto simp: pm_inv_def add_peer_def hm_inv_update map_of_hm_update length_update_old
      length_update_fresh not_le split: option.split)

lemma penalize_peer_inv:
  assumes "pm_inv pm"
  shows "pm_inv (penalize_peer now p points pm)"
  using assms by (auto simp: pm_inv_def penalize_peer_def Let_def hm_inv_update map_of_hm_update
      length_update_old split: option.split)

lemma filter_peers_inv:
  assumes "pm_inv pm"
  shows "pm_inv (pm\<lparr>pm_peers := filter P (pm_peers pm)\<rparr>)"
proof -
  have "distinct (map fst (filter P (pm_peers pm)))"
    using assms by (simp add: pm_inv_def hm_inv_def distinct_map_filter)
  moreover have "map_of (pm_peers pm) q = Some peer" if "map_of (filter P (pm_peers pm)) q = Some peer" for q peer
    using map_of_SomeD [OF that] assms by (simp add: pm_inv_def hm_inv_def)
  ultimately show ?thesis
    using assms order_trans [OF length_filter_le [of P "pm_peers pm"]] unfolding pm_inv_def hm_inv_def by simp
qed

lemma remove_peer_inv: "pm_inv pm \<Longrightarrow> pm_inv (remove_peer p pm)"
  using filter_peers_inv [of pm "\<lambda>(k, _). p \<noteq> k"] by (simp add: remove_peer_def AList.delete_eq)

lemma update_status_inv: "pm_inv pm \<Longrightarrow> pm_inv (update_peer_status now p c pm)"
  unfolding update_peer_status_def by (rule modify_peer_inv) simp_all

lemma reconnect_inv:
  assumes "pm_inv pm"
  shows "pm_inv (reconnect_peers iter now pm)"
proof -
  have "pm_inv (fold (\<lambda>p. update_peer_status now p True) ps pm)" if "pm_inv pm" for ps and pm :: "'a peer_manager"
    using that by (induction ps arbitrary: pm) (auto simp: update_status_inv)
  then show ?thesis
    unfolding reconnect_peers_def using assms .
qed

lemma pm_step_inv:
  assumes "pm_step iter pm pm'" and "pm_inv pm"
  shows "pm_inv pm'"
  using assms
proof cases
  case cleanup
  with assms(2) show ?thesis
    by (simp add: cleanup_stale_peers_def filter_peers_inv)
next
  case height
  with assms(2) show ?thesis
    by (auto simp: update_peer_height_def intro: modify_peer_inv)
next
  case reward
  with assms(2) show ?thesis
    by (auto simp: reward_peer_def intro: modify_peer_inv)
qed (auto intro: add_peer_inv remove_peer_inv update_status_inv reconnect_inv penalize_peer_inv)

lemma pm_steps_inv:
  assumes "(pm_step iter)\<^sup>*\<^sup>* pm pm'" and "pm_inv pm"
  shows "pm_inv pm'"
  using assms by induction (auto intro: pm_step_inv)

section \<open>Properties\<close>

text \<open>
  However peers are added, removed, updated, penalised, rewarded and cleaned up, the table
  never holds more peers than its maximum and every entry is keyed by its own id.
\<close>

theorem peer_table_bounded:
  assumes "(pm_step iter)\<^sup>*\<^sup>* (peer_manager_new n) pm"
  shows "pm_inv pm \<and> length (pm_peers pm) \<le> max_peers pm"
  using pm_steps_inv [OF assms] by (simp add: pm_inv_def peer_manager_new_def)

theorem peer_table_bounded_witness:
  "length (pm_peers (snd (add_peer 7 (1 :: nat) ''a'' (peer_manager_new 2)))) \<le> 2"
proof -
  have "(pm_step id)\<^sup>*\<^sup>* (peer_manager_new 2) (snd (add_peer 7 (1 :: nat) ''a'' (peer_manager_new 2)))"
    by (rule r_into_rtranclp) (rule pm_step.add)
  from peer_table_bounded [OF this] show ?thesis
    by (simp add: add_peer_def peer_manager_new_def)
qed

text \<open>
  The peers chosen for synchronisation are connected, at most as many as asked for, in
  descending order of height, and no connected peer that was left out is higher than one that
  was chosen.
\<close>

theorem sync_peers_are_highest:
  assumes "peer_iterates iter" and "pm_inv pm"
  shows "length (get_sync_peers iter n pm) = min n (length (filter (is_connected \<circ> snd) (pm_peers pm)))
    \<and> distinct (get_sync_peers iter n pm)
    \<and> sorted_wrt (\<lambda>a b. dag_height b \<le> dag_height a) (sync_list iter n pm)
    \<and> (\<forall>a \<in> set (sync_list iter n pm). \<forall>p b. map_of (pm_peers pm) p = Some b \<and> is_connected b
         \<and> p \<notin> set (get_sync_peers iter n pm) \<longrightarrow> dag_height b \<le> dag_height a)"
proof -
  let ?xs = "filter is_connected (map snd (iter (pm_peers pm)))"
  let ?s = "sort_key (\<lambda>peer. - 1 - dag_height peer) ?xs"
  have it: "mset (iter (pm_peers pm)) = mset (pm_peers pm)"
    using assms(1) by (simp add: peer_iterates_def)
  have srt: "sorted_wrt (\<lambda>a b. dag_height b \<le> dag_height a) ?s"
    using sorted_sort_key [of "\<lambda>peer. - 1 - dag_height peer" ?xs] by (simp add: sorted_wrt_map descending_key_le)
  then have st: "sorted_wrt (\<lambda>a b. dag_height b \<le> dag_height a) (take n ?s @ drop n ?s)"
    by simp
  have ids: "map (pi_peer_id \<circ> snd) (pm_peers pm) = map fst (pm_peers pm)"
    using assms(2) by (auto simp: pm_inv_def hm_inv_def)
  have "distinct (map (pi_peer_id \<circ> snd) (pm_peers pm))"
    unfolding ids using assms(2) by (simp add: pm_inv_def hm_inv_def)
  moreover have "mset (map (pi_peer_id \<circ> snd) (iter (pm_peers pm))) = mset (map (pi_peer_id \<circ> snd) (pm_peers pm))"
    by (simp add: it)
  ultimately have "distinct (map pi_peer_id (map snd (iter (pm_peers pm))))"
    using mset_eq_imp_distinct_iff by (metis map_map)
  then have "distinct (map pi_peer_id ?xs)"
    by (rule distinct_map_filter)
  then have "distinct (map pi_peer_id ?s)"
    by (simp add: distinct_map)
  then have d: "distinct (get_sync_peers iter n pm)"
    by (simp add: get_sync_peers_def sync_list_def flip: take_map)
  have "mset ?xs = mset (map snd (filter (is_connected \<circ> snd) (pm_peers pm)))"
    unfolding filter_map mset_map mset_filter it ..
  from mset_eq_length [OF this] have l: "length ?xs = length (filter (is_connected \<circ> snd) (pm_peers pm))"
    by simp
  have "dag_height b \<le> dag_height a"
    if a: "a \<in> set (sync_list iter n pm)" and b: "map_of (pm_peers pm) p = Some b" "is_connected b"
      and p: "p \<notin> set (get_sync_peers iter n pm)" for a b p
  proof -
    have id: "pi_peer_id b = p"
      using assms(2) b(1) by (simp add: pm_inv_def)
    have "(p, b) \<in> set (iter (pm_peers pm))"
      using map_of_SomeD [OF b(1)] mset_eq_setD [OF it] by simp
    then have "b \<in> set (take n ?s @ drop n ?s)"
      using b(2) by force
    moreover have "b \<notin> set (take n ?s)"
      using p id by (auto simp: get_sync_peers_def sync_list_def)
    ultimately have "b \<in> set (drop n ?s)"
      unfolding set_append by blast
    with a st show ?thesis
      unfolding sorted_wrt_append sync_list_def by blast
  qed
  then show ?thesis
    using d l st by (auto simp: get_sync_peers_def sync_list_def sorted_wrt_append min.commute)
qed

theorem sync_peers_are_highest_witness:
  "length (get_sync_peers id 1 (update_peer_status 7 (1 :: nat) True
     (snd (add_peer 7 1 ''a'' (peer_manager_new 2))))) = 1"
proof -
  let ?pm = "update_peer_status 7 (1 :: nat) True (snd (add_peer 7 1 ''a'' (peer_manager_new 2)))"
  have "pm_inv ?pm"
    by (intro update_status_inv add_peer_inv) (simp add: pm_inv_def peer_manager_new_def)
  moreover have "length (filter (is_connected \<circ> snd) (pm_peers ?pm)) = 1"
    by (simp add: update_peer_status_def modify_peer_def add_peer_def peer_manager_new_def)
  ultimately show ?thesis
    using sync_peers_are_highest [of id ?pm 1] by (simp add: peer_iterates_def)
qed

text \<open>
  A peer whose score is used up is disconnected and banned, \<open>add_peer\<close> refuses it for the
  24 hours of the ban, and the first attempt afterwards, on a table with room, never returns.
\<close>

theorem penalised_peer_is_banned:
  assumes "map_of (pm_peers pm) p = Some peer" and "sint (pi_score peer - points) \<le> 0"
    and "unat now + 86400 < 2 ^ 64" and "length (pm_peers pm) < max_peers pm"
  shows "(\<exists>peer'. map_of (pm_peers (penalize_peer now p points pm)) p = Some peer' \<and> \<not> is_connected peer')
    \<and> fst (add_peer later p addr (penalize_peer now p points pm)) =
        (if unat later < unat now + 86400 then TemporarilyBanned else Hangs)"
proof -
  let ?pm = "penalize_peer now p points pm"
  have e: "?pm = pm\<lparr>pm_peers := AList.update p (peer\<lparr>pi_score := pi_score peer - points, is_connected := False\<rparr>)
      (pm_peers pm), pm_bans := AList.update p (now + 86400) (pm_bans pm)\<rparr>"
    using assms(1,2) by (simp add: penalize_peer_def Let_def)
  have "unat (now + 86400) = unat now + 86400"
    using assms(3) by (subst unat_add_no_overflow) simp_all
  then have "now + 86400 > later \<longleftrightarrow> unat later < unat now + 86400"
    by (simp only: word_less_nat_alt)
  then show ?thesis
    using assms(1,4) by (auto simp: e map_of_hm_update add_peer_def length_update_old)
qed

theorem penalised_peer_is_banned_witness:
  "fst (add_peer 86407 (1 :: nat) ''a'' (penalize_peer 7 1 100 (snd (add_peer 7 1 ''a'' (peer_manager_new 2)))))
     = Hangs"
  using penalised_peer_is_banned [of "snd (add_peer 7 (1 :: nat) ''a'' (peer_manager_new 2))" 1
      "\<lparr>pi_peer_id = 1, pi_address = ''a'', last_seen = 7, is_connected = False, dag_height = 0, pi_score = 100\<rparr>"
      100 7 86407 "''a''"]
  by (simp add: add_peer_def peer_manager_new_def)

end
