(* ===== verification/Network.thy ===== *)
theory Network
  imports Block_Dag State Peers
begin

text \<open>
  Messages between nodes, gossip, synchronisation and the message handling of the peer-to-peer
  node: \<^verbatim>\<open>message.rs\<close>, \<^verbatim>\<open>gossip.rs\<close>, \<^verbatim>\<open>sync_manager.rs\<close> and \<^verbatim>\<open>p2p_node.rs\<close> under
  \<^verbatim>\<open>src/src/network/\<close>.

  The gossip protocol and the sync manager of a node share the peer manager, the DAG, the state
  and the sending end of one channel; the record of the sync manager extends the one of gossip,
  so that the shared parts are one field each. The channel is external: \<open>send c m\<close> is the
  channel after sending, or \<open>None\<close> when its receiver is gone, and \<open>channel_ok\<close> says that what was
  sent is received in this order. \<open>iter\<close> is the iteration order of the peer table. The
  serialisers of messages and of the state are arguments too.
\<close>

section \<open>State\<close>

datatype network_message =
    NewBlock block
  | NewTransaction transaction
  | RequestBlock block_hash
  | RequestDag
  | DagResponse "block list"
  | GetHeaders block_hash nat
  | Headers "(block_hash \<times> block_header) list"
  | GetBlocks "block_hash list"
  | Blocks "block list"
  | RequestState
  | StateSnapshot bytes

record ('p, 'c) gossip =
  gp_peers :: "'p peer_manager"
  gp_sender :: 'c
  seen_blocks :: "block_hash set"
  seen_transactions :: "tx_id set"

record ('p, 'c) sync_manager = "('p, 'c) gossip" +
  sm_dag :: block_dag
  pending_requests :: "block_hash set"
  sm_state :: state_manager

datatype net_error = SendFailed | SyncDag dag_error | SerializeStateFailed | CounterUnderflow

type_synonym ('p, 'c) sender = "'c \<Rightarrow> 'p \<times> network_message \<Rightarrow> 'c option"

definition channel_ok :: "('p, 'c) sender \<Rightarrow> ('c \<Rightarrow> ('p \<times> network_message) list) \<Rightarrow> bool" where
  "channel_ok send queue \<longleftrightarrow> (\<forall>c m c'. send c m = Some c' \<longrightarrow> queue c' = queue c @ [m])"

section \<open>Gossip\<close>

definition gossip_new :: "'p peer_manager \<Rightarrow> 'c \<Rightarrow> ('p, 'c) gossip" where
  "gossip_new pm c = \<lparr>gp_peers = pm, gp_sender = c, seen_blocks = {}, seen_transactions = {}\<rparr>"

text \<open>A failing send is logged and the loop goes on.\<close>

definition try_send :: "('p, 'c) sender \<Rightarrow> 'p \<times> network_message \<Rightarrow> 'c \<Rightarrow> 'c" where
  "try_send send m c = (case send c m of None \<Rightarrow> c | Some c' \<Rightarrow> c')"

definition broadcast_message ::
  "('p, 'c) sender \<Rightarrow> 'p peer_iter \<Rightarrow> network_message \<Rightarrow> ('p, 'c, 'z) gossip_scheme
    \<Rightarrow> ('p, 'c, 'z) gossip_scheme" where
  "broadcast_message send iter msg g =
     g\<lparr>gp_sender := fold (\<lambda>p. try_send send (p, msg)) (get_connected_peers iter (gp_peers g)) (gp_sender g)\<rparr>"

definition broadcast_block ::
  "('p, 'c) sender \<Rightarrow> 'p peer_iter \<Rightarrow> block \<Rightarrow> ('p, 'c, 'z) gossip_scheme \<Rightarrow> ('p, 'c, 'z) gossip_scheme" where
  "broadcast_block send iter b g =
     (if blk_hash b \<in> seen_blocks g then g
      else broadcast_message send iter (NewBlock b) (g\<lparr>seen_blocks := insert (blk_hash b) (seen_blocks g)\<rparr>))"

definition broadcast_transaction ::
  "(bytes \<Rightarrow> bytes) \<Rightarrow> ('p, 'c) sender \<Rightarrow> 'p peer_iter \<Rightarrow> transaction \<Rightarrow> ('p, 'c, 'z) gossip_scheme
    \<Rightarrow> ('p, 'c, 'z) gossip_scheme" where
  "broadcast_transaction sha send iter tx g =
     (if tx_hash sha tx \<in> seen_transactions g then g
      else broadcast_message send iter (NewTransaction tx)
        (g\<lparr>seen_transactions := insert (tx_hash sha tx) (seen_transactions g)\<rparr>))"

fun handle_gossip_message ::
  "(bytes \<Rightarrow> bytes) \<Rightarrow> ('p, 'c) sender \<Rightarrow> 'p peer_iter \<Rightarrow> network_message \<Rightarrow> ('p, 'c, 'z) gossip_scheme
    \<Rightarrow> ('p, 'c, 'z) gossip_scheme" where
  "handle_gossip_message sha send iter (NewBlock b) g =
     (if blk_hash b \<in> seen_blocks g then g
      else broadcast_message send iter (NewBlock b) (g\<lparr>seen_blocks := insert (blk_hash b) (seen_blocks g)\<rparr>))"
| "handle_gossip_message sha send iter (NewTransaction tx) g =
     (if tx_hash sha tx \<in> seen_transactions g then g
      else broadcast_message send iter (NewTransaction tx)
        (g\<lparr>seen_transactions := insert (tx_hash sha tx) (seen_transactions g)\<rparr>))"
| "handle_gossip_message sha send iter _ g = g"

text \<open>The body of the cleanup loop.\<close>

definition cleanup_seen_messages :: "('p, 'c, 'z) gossip_scheme \<Rightarrow> ('p, 'c, 'z) gossip_scheme" where
  "cleanup_seen_messages g = g\<lparr>seen_blocks := {}, seen_transactions := {}\<rparr>"

section \<open>Synchronisation\<close>

definition sync_manager_new ::
  "block_dag \<Rightarrow> state_manager \<Rightarrow> ('p, 'c) gossip \<Rightarrow> ('p, 'c) sync_manager" where
  "sync_manager_new d st g =
     gossip.extend g (sync_manager.fields d {} st)"

definition start_sync ::
  "('p, 'c) sender \<Rightarrow> 'p peer_iter \<Rightarrow> ('p, 'c) sync_manager \<Rightarrow> (net_error + unit) \<times> ('p, 'c) sync_manager" where
  "start_sync send iter s =
     (case get_sync_peers iter 1 (gp_peers s) of
        [] \<Rightarrow> (Inr (), s)
      | peer # _ \<Rightarrow>
          (case send (gp_sender s) (peer, RequestDag) of
             None \<Rightarrow> (Inl SendFailed, s)
           | Some c \<Rightarrow> (Inr (), s\<lparr>gp_sender := c\<rparr>)))"

text \<open>
  The loop of \<open>handle_dag_response\<close>. Every block comes with the clock reading of its check, and
  the clock reading and write outcome of its insertion.
\<close>

fun insert_received ::
  "env \<Rightarrow> (u64 \<times> u64 \<times> store_error option \<times> block) list \<Rightarrow> block_dag \<Rightarrow> (net_error + unit) \<times> block_dag" where
  "insert_received E [] d = (Inr (), d)"
| "insert_received E ((now, now', w, b) # bs) d =
     (case validate_basic E now b of
        Inl _ \<Rightarrow> insert_received E bs d
      | Inr _ \<Rightarrow>
          (case insert_block E now' w b d of
             Inl e \<Rightarrow> (Inl (SyncDag e), d)
           | Inr d' \<Rightarrow> insert_received E bs d'))"

definition handle_dag_response ::
  "env \<Rightarrow> (u64 \<times> u64 \<times> store_error option \<times> block) list \<Rightarrow> ('p, 'c) sync_manager
    \<Rightarrow> (net_error + unit) \<times> ('p, 'c) sync_manager" where
  "handle_dag_response E bs s =
     (let (r, d) = insert_received E bs (sm_dag s) in (r, s\<lparr>sm_dag := d\<rparr>))"

definition detect_missing_blocks ::
  "('p, 'c) sender \<Rightarrow> 'p peer_iter \<Rightarrow> ('p, 'c) sync_manager \<Rightarrow> block_hash list \<times> ('p, 'c) sync_manager" where
  "detect_missing_blocks send iter s =
     (let sync_peers = get_sync_peers iter 3 (gp_peers s) in
      if sync_peers = [] then ([], s)
      else ([], s\<lparr>gp_sender :=
        fold (\<lambda>peer. try_send send (peer, GetHeaders (replicate 32 0) 1000)) sync_peers (gp_sender s)\<rparr>))"

fun send_all :: "('p, 'c) sender \<Rightarrow> network_message \<Rightarrow> 'p list \<Rightarrow> 'c \<Rightarrow> bool \<times> 'c" where
  "send_all send msg [] c = (True, c)"
| "send_all send msg (p # ps) c =
     (case send c (p, msg) of None \<Rightarrow> (False, c) | Some c' \<Rightarrow> send_all send msg ps c')"

fun request_loop ::
  "('p, 'c) sender \<Rightarrow> 'p list \<Rightarrow> block_hash list \<Rightarrow> block_hash set \<Rightarrow> 'c
    \<Rightarrow> (net_error + unit) \<times> block_hash set \<times> 'c" where
  "request_loop send ps [] pending c = (Inr (), pending, c)"
| "request_loop send ps (h # hs) pending c =
     (if h \<in> pending then request_loop send ps hs pending c
      else case send_all send (RequestBlock h) ps c of
        (False, c') \<Rightarrow> (Inl SendFailed, insert h pending, c')
      | (True, c') \<Rightarrow> request_loop send ps hs (insert h pending) c')"

definition request_missing_blocks ::
  "('p, 'c) sender \<Rightarrow> 'p peer_iter \<Rightarrow> block_hash list \<Rightarrow> ('p, 'c) sync_manager
    \<Rightarrow> (net_error + unit) \<times> ('p, 'c) sync_manager" where
  "request_missing_blocks send iter hs s =
     (let (r, pending, c) = request_loop send (get_sync_peers iter 3 (gp_peers s)) hs (pending_requests s)
            (gp_sender s)
      in (r, s\<lparr>pending_requests := pending, gp_sender := c\<rparr>))"

definition handle_block_response ::
  "env \<Rightarrow> u64 \<Rightarrow> u64 \<Rightarrow> store_error option \<Rightarrow> block option \<Rightarrow> ('p, 'c) sync_manager
    \<Rightarrow> (net_error + unit) \<times> ('p, 'c) sync_manager" where
  "handle_block_response E now now' w ob s =
     (case ob of
        None \<Rightarrow> (Inr (), s)
      | Some b \<Rightarrow>
          let s = s\<lparr>pending_requests := pending_requests s - {blk_hash b}\<rparr> in
          case validate_basic E now b of
            Inl _ \<Rightarrow> (Inr (), s)
          | Inr _ \<Rightarrow>
              (case insert_block E now' w b (sm_dag s) of
                 Inl e \<Rightarrow> (Inl (SyncDag e), s)
               | Inr d \<Rightarrow> (Inr (), s\<lparr>sm_dag := d\<rparr>)))"

definition is_synced :: "('p, 'c) sync_manager \<Rightarrow> bool" where
  "is_synced s \<longleftrightarrow> pending_requests s = {}"

definition handle_headers ::
  "('p, 'c) sender \<Rightarrow> 'p peer_iter \<Rightarrow> (block_hash \<times> block_header) list \<Rightarrow> ('p, 'c) sync_manager
    \<Rightarrow> (net_error + unit) \<times> ('p, 'c) sync_manager" where
  "handle_headers send iter headers s =
     (let missing = filter (\<lambda>h. dag_get_block (sm_dag s) h = None) (map fst headers) in
      if missing \<noteq> [] then request_missing_blocks send iter missing s else (Inr (), s))"

text \<open>The loop of \<open>GetHeaders\<close>: skip up to and including \<open>from\<close>, then collect up to \<open>limit\<close> headers.\<close>

fun collect_headers ::
  "block_dag \<Rightarrow> block_hash \<Rightarrow> nat \<Rightarrow> bool \<Rightarrow> block_hash list \<Rightarrow> (block_hash \<times> block_header) list
    \<Rightarrow> (block_hash \<times> block_header) list" where
  "collect_headers d from limit include [] headers = headers"
| "collect_headers d from limit include (h # hs) headers =
     (if \<not> include then collect_headers d from limit (h = from) hs headers
      else case dag_get_block d h of
        Some b \<Rightarrow>
          (let headers = headers @ [(h, header b)] in
           if length headers \<ge> limit then headers else collect_headers d from limit include hs headers)
      | None \<Rightarrow> collect_headers d from limit include hs headers)"

text \<open>
  \<open>None\<close> of \<open>get_topological_order\<close> is the panic of its counter; the reply is sent without looking
  at the outcome.
\<close>

definition reply :: "('p, 'c) sender \<Rightarrow> 'p \<Rightarrow> network_message \<Rightarrow> ('p, 'c) sync_manager \<Rightarrow> ('p, 'c) sync_manager" where
  "reply send peer msg s = s\<lparr>gp_sender := try_send send (peer, msg) (gp_sender s)\<rparr>"

fun handle_message ::
  "('p, 'c) sender \<Rightarrow> 'p peer_iter \<Rightarrow> (state_manager \<Rightarrow> bytes option) \<Rightarrow> 'p \<Rightarrow> network_message
    \<Rightarrow> ('p, 'c) sync_manager \<Rightarrow> (net_error + unit) \<times> ('p, 'c) sync_manager" where
  "handle_message send iter ser peer (GetHeaders from limit) s =
     (case get_topological_order (dag_idx (sm_dag s)) (dag_store (sm_dag s)) of
        None \<Rightarrow> (Inl CounterUnderflow, s)
      | Some order \<Rightarrow>
          (Inr (), reply send peer
             (Headers (collect_headers (sm_dag s) from limit (from = replicate 32 0) order [])) s))"
| "handle_message send iter ser peer (Headers headers) s = handle_headers send iter headers s"
| "handle_message send iter ser peer (GetBlocks hashes) s =
     (Inr (), reply send peer (Blocks (List.map_filter (dag_get_block (sm_dag s)) hashes)) s)"
| "handle_message send iter ser peer RequestState s =
     (case ser (sm_state s) of
        None \<Rightarrow> (Inl SerializeStateFailed, s)
      | Some snapshot \<Rightarrow> (Inr (), reply send peer (StateSnapshot snapshot) s))"
| "handle_message send iter ser peer _ s = (Inr (), s)"

definition get_sync_status :: "('p, 'c) sync_manager \<Rightarrow> nat \<times> nat" where
  "get_sync_status s = (length (dag_store (sm_dag s)), card (pending_requests s))"

text \<open>The body of the periodic check.\<close>

definition periodic_sync_check ::
  "('p, 'c) sender \<Rightarrow> 'p peer_iter \<Rightarrow> ('p, 'c) sync_manager \<Rightarrow> ('p, 'c) sync_manager" where
  "periodic_sync_check send iter s =
     (if \<not> is_synced s then s
      else let (missing, s) = detect_missing_blocks send iter s in
        if missing \<noteq> [] then snd (request_missing_blocks send iter missing s) else s)"

section \<open>Relaying once\<close>

text \<open>
  What the two kinds of gossip have in common: an item is emitted when its key is new, and its
  key is remembered. The items that are emitted in a sequence are the first ones of their key.
\<close>

fun firsts :: "('x \<Rightarrow> 'h) \<Rightarrow> 'h set \<Rightarrow> 'x list \<Rightarrow> 'x list" where
  "firsts key S [] = []"
| "firsts key S (x # xs) =
     (if key x \<in> S then firsts key S xs else x # firsts key (insert (key x) S) xs)"

locale relay =
  fixes key :: "'x \<Rightarrow> 'h" and seen :: "'g \<Rightarrow> 'h set" and mark :: "'h \<Rightarrow> 'g \<Rightarrow> 'g"
    and emit :: "'x \<Rightarrow> 'g \<Rightarrow> 'g" and offer :: "'x \<Rightarrow> 'g \<Rightarrow> 'g"
  assumes offer_old: "key x \<in> seen g \<Longrightarrow> offer x g = g"
    and offer_new: "key x \<notin> seen g \<Longrightarrow> offer x g = emit x (mark (key x) g)"
    and seen_mark: "seen (mark h g) = insert h (seen g)"
    and seen_emit: "seen (emit x g) = seen g"
begin

lemma seen_offer: "seen (offer x g) = insert (key x) (seen g)"
  by (cases "key x \<in> seen g") (auto simp: offer_old offer_new seen_mark seen_emit)

lemma offer_again: "key y = key x \<Longrightarrow> offer y (offer x g) = offer x g"
  by (simp add: offer_old seen_offer)

lemma fold_offer: "fold offer xs g = fold (\<lambda>x g. emit x (mark (key x) g)) (firsts key (seen g) xs) g"
proof (induction xs arbitrary: g)
  case (Cons x xs)
  then show ?case
    using Cons.IH [of "offer x g"]
    by (cases "key x \<in> seen g") (auto simp: offer_old offer_new seen_mark seen_emit)
qed simp

end

lemma broadcast_message_frame [simp]:
  "seen_blocks (broadcast_message send iter m g) = seen_blocks g"
  "seen_transactions (broadcast_message send iter m g) = seen_transactions g"
  "gp_peers (broadcast_message send iter m g) = gp_peers g"
  by (simp_all add: broadcast_message_def)

lemma broadcast_message_sync_frame [simp]:
  "sm_dag (broadcast_message send iter m s) = sm_dag s"
  "pending_requests (broadcast_message send iter m s) = pending_requests s"
  "sm_state (broadcast_message send iter m s) = sm_state s"
  by (simp_all add: broadcast_message_def)

interpretation block_relay: relay blk_hash seen_blocks "\<lambda>h g. g\<lparr>seen_blocks := insert h (seen_blocks g)\<rparr>"
  "\<lambda>b. broadcast_message send iter (NewBlock b)" "broadcast_block send iter" for send iter
  by unfold_locales (simp_all add: broadcast_block_def)

interpretation tx_relay: relay "tx_hash sha" seen_transactions
  "\<lambda>h g. g\<lparr>seen_transactions := insert h (seen_transactions g)\<rparr>"
  "\<lambda>tx. broadcast_message send iter (NewTransaction tx)" "broadcast_transaction sha send iter" for sha send iter
  by unfold_locales (simp_all add: broadcast_transaction_def)

section \<open>What is sent\<close>

text \<open>The receiver of the channel lives as long as the node, so sending does not fail.\<close>

definition channel_open :: "('p, 'c) sender \<Rightarrow> bool" where
  "channel_open send \<longleftrightarrow> (\<forall>c m. send c m \<noteq> None)"

lemma queue_try_send:
  assumes "channel_ok send queue"
  shows "queue (try_send send m c) = queue c \<or> queue (try_send send m c) = queue c @ [m]"
  using assms by (cases m) (auto simp: channel_ok_def try_send_def split: option.split)

lemma queue_try_send_open:
  assumes "channel_ok send queue" and "channel_open send"
  shows "queue (try_send send m c) = queue c @ [m]"
proof -
  obtain c' where "send c m = Some c'"
    using assms(2) unfolding channel_open_def by blast
  with assms(1) show ?thesis
    by (cases m) (auto simp: channel_ok_def try_send_def)
qed

lemma queue_fold_try_send:
  assumes "channel_ok send queue" and "channel_open send"
  shows "queue (fold (\<lambda>p. try_send send (p, msg)) ps c) = queue c @ map (\<lambda>p. (p, msg)) ps"
  by (induction ps arbitrary: c) (simp_all add: queue_try_send_open [OF assms])

lemma queue_broadcast_message:
  assumes "channel_ok send queue" and "channel_open send"
  shows "queue (gp_sender (broadcast_message send iter msg g)) =
    queue (gp_sender g) @ map (\<lambda>p. (p, msg)) (get_connected_peers iter (gp_peers g))"
  by (simp add: broadcast_message_def queue_fold_try_send [OF assms])

lemma queue_emissions:
  assumes "channel_ok send queue" and "channel_open send"
    and "\<And>x g. gp_sender (mark x g) = gp_sender g \<and> gp_peers (mark x g) = gp_peers g"
  shows "queue (gp_sender (fold (\<lambda>x g. broadcast_message send iter (msg x) (mark x g)) xs g)) =
    queue (gp_sender g) @ concat (map (\<lambda>x. map (\<lambda>p. (p, msg x)) (get_connected_peers iter (gp_peers g))) xs)"
  by (induction xs arbitrary: g) (simp_all add: queue_broadcast_message [OF assms(1,2)] assms(3))

section \<open>Headers\<close>

lemma collect_headers_included:
  assumes "list_all (\<lambda>h. dag_get_block d h \<noteq> None) hs" and "length acc < max 1 limit"
  shows "collect_headers d from limit True hs acc =
    acc @ take (max 1 limit - length acc) (map (\<lambda>h. (h, header (the (dag_get_block d h)))) hs)"
  using assms
proof (induction hs arbitrary: acc)
  case (Cons h hs)
  then obtain b where b: "dag_get_block d h = Some b"
    by auto
  show ?case
  proof (cases "Suc (length acc) < max 1 limit")
    case True
    then have "max 1 limit - length acc = Suc (max 1 limit - Suc (length acc))"
      by arith
    with True Cons.IH [of "acc @ [(h, header b)]"] Cons.prems(1) show ?thesis
      by (simp add: b not_le [symmetric])
  next
    case False
    with Cons.prems(2) have "max 1 limit - length acc = 1" "limit \<le> Suc (length acc)"
      by (auto simp: max_def split: if_splits)
    then show ?thesis
      by (simp add: b)
  qed
qed simp

lemma collect_headers_skip:
  "collect_headers d from limit False hs acc = collect_headers d from limit True (drop 1 (dropWhile (\<lambda>h. h \<noteq> from) hs)) acc"
  by (induction hs) (auto split: option.split)

section \<open>Replication\<close>

text \<open>Annotating is idempotent, so a stored block that is sent to a peer with the same DAG stays as it is.\<close>

lemma set_consensus_metadata_idem:
  "set_consensus_metadata E p s h t (set_consensus_metadata E p' s' h' t' b) = set_consensus_metadata E p s h t b"
  by (simp add: set_consensus_metadata_def Let_def calculate_hash_def block_preimage_def header_tail_def)

lemma annotate_idem: "annotate E d (annotate E d b) = annotate E d b"
  by (simp add: annotate_def Let_def select_chain_def compute_blue_score_def case_prod_unfold
      set_consensus_metadata_idem)

lemma insert_annotated:
  assumes ins: "insert_block E now w b d = Inr d'" and fresh: "blk_hash (annotate E d b) \<notin> fst ` set (dag_store d)"
    and inv: "view_ok (dag_store d)" and valid: "validate_basic E now' (annotate E d b) = Inr ()"
  shows "insert_block E now' None (annotate E d b) d = Inr d'"
proof -
  let ?a = "annotate E d b"
  have "\<not> block_exists d (blk_hash ?a)"
    using fresh by (simp add: block_exists_def hm_key_iff)
  moreover have "\<not> (\<exists>existing \<in> set (map snd (dag_store d)). blk_hash existing = blk_hash ?a)"
    using fresh inv by (force simp: view_ok_def)
  moreover have "parents ?a = parents b"
    by (simp only: annotate_simps)
  ultimately show ?thesis
    using ins valid by (auto simp: insert_block_def Let_def annotate_idem split: sum.splits if_splits option.splits)
qed

lemma insert_received_append:
  "insert_received E (xs @ ys) d =
     (case insert_received E xs d of
        (Inl e, d') \<Rightarrow> (Inl e, d')
      | (Inr _, d') \<Rightarrow> insert_received E ys d')"
  by (induction E xs d rule: insert_received.induct) (simp_all split: sum.split)

text \<open>The blocks of a DAG in the order of their topological index, the order of insertion.\<close>

definition stored_blocks :: "block_dag \<Rightarrow> block list" where
  "stored_blocks d = sort_key (\<lambda>b. hd_topo_index (header b)) (map snd (dag_store d))"

abbreviation topo_distinct :: "block_dag \<Rightarrow> bool" where
  "topo_distinct d \<equiv> inj_on (\<lambda>b. hd_topo_index (header b)) (snd ` set (dag_store d))"

lemma insert_block_stored:
  assumes inv: "dag_inv E d" and wf: "block_wf b" and fr: "hash_fresh E d b"
    and len: "Suc (length (dag_store d)) < 2 ^ 64" and ins: "insert_block E now w b d = Inr d'"
    and inj: "topo_distinct d"
  shows "topo_distinct d'" "stored_blocks d' = stored_blocks d @ [annotate E d b]"
    "blk_hash (annotate E d b) \<notin> fst ` set (dag_store d)"
    "snd ` set (dag_store d') = insert (annotate E d b) (snd ` set (dag_store d))"
proof -
  let ?a = "annotate E d b" and ?v = "dag_store d" and ?f = "\<lambda>b. hd_topo_index (header b)"
  note A = insert_block_adds [OF inv wf fr len ins]
  note d' = A(1)
  show fresh: "blk_hash ?a \<notin> fst ` set ?v" and snds: "snd ` set (dag_store d') = insert ?a (snd ` set ?v)"
    by (fact A(3), fact A(4))
  have top: "unat (?f ?a) = length ?v"
    using A(6) unfolding topo_of_def .
  have less: "unat (?f c) < unat (?f ?a)" if "c \<in> snd ` set ?v" for c
    unfolding top by (rule dag_invD(8) [OF inv that])
  show inj': "topo_distinct d'"
    unfolding snds inj_on_insert
  proof (intro conjI inj)
    show "?f ?a \<notin> ?f ` (snd ` set ?v - {?a})"
      using less by force
  qed
  have "mset (map snd (dag_store d')) = mset (stored_blocks d @ [?a])"
    unfolding d' view_put_def stored_blocks_def mset_map mset_omap_insert_fresh [OF fresh] by simp
  moreover have "sorted (map ?f (stored_blocks d @ [?a]))"
    using less by (auto simp: stored_blocks_def sorted_append word_le_nat_alt intro: less_imp_le)
  ultimately show "stored_blocks d' = stored_blocks d @ [?a]"
    unfolding stored_blocks_def [of d'] using inj' by (intro sort_key_inj_key_eq) (simp_all add: image_image)
qed

lemma dag_reachable_topo_distinct: "dag_reachable E d \<Longrightarrow> topo_distinct d"
proof (induction rule: dag_reachable.induct)
  case (insert d b now w d')
  show ?case
    by (rule insert_block_stored(1) [OF dag_reachable_inv [OF insert.hyps(1)] insert.hyps(2-5) insert.IH])
qed (simp add: block_dag_new_def)

lemma replicate_dag:
  assumes "dag_reachable E d" and "\<forall>b \<in> snd ` set (dag_store d). validate_basic E now b = Inr ()"
  shows "insert_received E (map (\<lambda>b. (now, now, None, b)) (stored_blocks d)) (block_dag_new []) = (Inr (), d)"
  using assms
proof (induction rule: dag_reachable.induct)
  case start
  then show ?case
    by (simp add: stored_blocks_def block_dag_new_def)
next
  case (insert d b now' w d')
  note inv = dag_reachable_inv [OF insert.hyps(1)]
  note st = insert_block_stored [OF inv insert.hyps(2-5) dag_reachable_topo_distinct [OF insert.hyps(1)]]
  have valid: "validate_basic E now (annotate E d b) = Inr ()"
    using insert.prems unfolding st(4) by simp
  have "insert_block E now None (annotate E d b) d = Inr d'"
    by (rule insert_annotated [OF insert.hyps(5) st(3) dag_invD(1) [OF inv] valid])
  moreover have "insert_received E (map (\<lambda>b. (now, now, None, b)) (stored_blocks d)) (block_dag_new []) = (Inr (), d)"
    using insert.prems by (intro insert.IH) (simp add: st(4))
  ultimately show ?case
    by (simp add: st(2) insert_received_append valid)
qed

section \<open>Sample instances\<close>

definition list_send :: "('p \<times> network_message) list \<Rightarrow> 'p \<times> network_message \<Rightarrow> ('p \<times> network_message) list option" where
  "list_send c m = Some (c @ [m])"

lemma list_send_ok: "channel_ok list_send id" "channel_open list_send"
  by (simp_all add: channel_ok_def channel_open_def list_send_def)

definition one_peer :: "nat peer_manager" where
  "one_peer = \<lparr>pm_peers = [(1, \<lparr>pi_peer_id = 1, pi_address = '''', last_seen = 0, is_connected = True,
     dag_height = 0, pi_score = 100\<rparr>)], pm_bans = [], max_peers = 10\<rparr>"

lemma one_peer_lists:
  "get_connected_peers id one_peer = [1]" "get_sync_peers id (Suc n) one_peer = [1]"
  by (simp_all add: one_peer_def get_connected_peers_def get_sync_peers_def sync_list_def)

definition sample_sync :: "block_dag \<Rightarrow> (nat, (nat \<times> network_message) list) sync_manager" where
  "sample_sync d = sync_manager_new d \<lparr>state_tree = tree_new, current_state_root = []\<rparr> (gossip_new one_peer [])"

lemma sample_sync_fields:
  "sm_dag (sample_sync d) = d" "gp_sender (sample_sync d) = []" "gp_peers (sample_sync d) = one_peer"
  "seen_blocks (sample_sync d) = {}" "pending_requests (sample_sync d) = {}"
  by (simp_all add: sample_sync_def sync_manager_new_def gossip_new_def gossip.defs sync_manager.defs)

section \<open>Properties\<close>

text \<open>
  C18. A DAG can be copied, provided that every stored block, as it was annotated and hashed anew when
  it was inserted, passes \<open>validate_basic\<close> at the time it is received, and that all writes succeed.
  When these blocks are received in the order of their topological index by a node with an empty
  DAG, \<open>handle_dag_response\<close> succeeds and builds exactly the same DAG, store and index: in
  this order the metadata that every insertion computes are the ones the blocks arrive with, so
  their hashes do not change. The proviso is a strong one for blocks of positive difficulty, since
  the annotation changes the hash that was mined.
\<close>

theorem dag_replication:
  assumes "dag_reachable E d" and "\<forall>b \<in> snd ` set (dag_store d). validate_basic E now b = Inr ()"
    and "sm_dag s = block_dag_new []"
  shows "handle_dag_response E (map (\<lambda>b. (now, now, None, b)) (stored_blocks d)) s = (Inr (), s\<lparr>sm_dag := d\<rparr>)"
  by (simp add: handle_dag_response_def assms(3) replicate_dag [OF assms(1,2)])

theorem dag_replication_witness:
  "length (stored_blocks sample_dag2) = 2
   \<and> handle_dag_response sample_env (map (\<lambda>b. (1000, 1000, None, b)) (stored_blocks sample_dag2))
      (sample_sync (block_dag_new [])) = (Inr (), (sample_sync (block_dag_new []))\<lparr>sm_dag := sample_dag2\<rparr>)"
proof -
  have "validate_basic sample_env 1000 (annotate sample_env d (sample_block ps 0)) = Inr ()" for d ps
    using sample_block_valid [of ps 0]
    by (simp add: annotate_def Let_def case_prod_unfold validate_basic_def sample_block_def split: if_splits)
  then have "\<forall>b \<in> snd ` set (dag_store sample_dag2). validate_basic sample_env 1000 b = Inr ()"
    by (simp add: sample_dag2_store sample_genesis_def sample_child_def)
  from dag_replication [OF sample_dag2_reachable this, of "sample_sync (block_dag_new [])"] show ?thesis
    by (simp add: sample_sync_fields stored_blocks_def sample_dag2_store)
qed

text \<open>
  Gossip relays every block once: offering a sequence of blocks sends each connected peer
  the blocks whose hash is new, the first of every hash, in this order, and nothing else. The
  same holds of blocks that arrive from the network, and of transactions by their hash.
\<close>

theorem gossip_relays_once:
  assumes "channel_ok send queue" and "channel_open send"
  shows "queue (gp_sender (fold (broadcast_block send iter) bs g)) = queue (gp_sender g) @
      concat (map (\<lambda>b. map (\<lambda>p. (p, NewBlock b)) (get_connected_peers iter (gp_peers g)))
        (firsts blk_hash (seen_blocks g) bs))
    \<and> queue (gp_sender (fold (broadcast_transaction sha send iter) txs g)) = queue (gp_sender g) @
      concat (map (\<lambda>tx. map (\<lambda>p. (p, NewTransaction tx)) (get_connected_peers iter (gp_peers g)))
        (firsts (tx_hash sha) (seen_transactions g) txs))
    \<and> handle_gossip_message sha send iter (NewBlock b) g = broadcast_block send iter b g
    \<and> handle_gossip_message sha send iter (NewTransaction tx) g = broadcast_transaction sha send iter tx g"
  unfolding block_relay.fold_offer tx_relay.fold_offer
  by (simp add: queue_emissions [OF assms] broadcast_block_def broadcast_transaction_def)

theorem gossip_relays_once_witness:
  "gp_sender (fold (broadcast_block list_send id) [sample_block [] 0, sample_block [] 0] (sample_sync (block_dag_new [])))
     = [(1, NewBlock (sample_block [] 0))]"
  using gossip_relays_once [OF list_send_ok, where iter = id and g = "sample_sync (block_dag_new [])"
      and bs = "[sample_block [] 0, sample_block [] 0]"]
  by (simp add: sample_sync_fields one_peer_lists)

text \<open>
  A request for headers is answered with the headers of the blocks after the given hash (of
  all blocks for the zero hash) in topological order, at most as many as asked for, though
  always one if there is one, even when none is asked for; an unknown hash gets an empty answer.
\<close>

theorem headers_reply:
  assumes "channel_ok send queue" and "channel_open send" and "dag_inv E (sm_dag s)"
  shows "\<exists>order. get_topological_order (dag_idx (sm_dag s)) (dag_store (sm_dag s)) = Some order
    \<and> queue (gp_sender (snd (handle_message send iter ser peer (GetHeaders from limit) s))) = queue (gp_sender s) @
      [(peer, Headers (take (max 1 limit) (map (\<lambda>h. (h, header (the (dag_get_block (sm_dag s) h))))
         (if from = replicate 32 0 then order else drop 1 (dropWhile (\<lambda>h. h \<noteq> from) order)))))]"
proof -
  let ?d = "sm_dag s"
  obtain order where o: "get_topological_order (dag_idx ?d) (dag_store ?d) = Some order"
    and stored: "set order = fst ` set (dag_store ?d)"
    using topological_order_ex [OF assms(3)] by blast
  define hs where "hs = (if from = replicate 32 0 then order else drop 1 (dropWhile (\<lambda>h. h \<noteq> from) order))"
  have "set hs \<subseteq> set order"
    by (auto simp: hs_def simp del: drop0 drop_Suc dest!: in_set_dropD set_dropWhileD)
  then have "list_all (\<lambda>h. dag_get_block ?d h \<noteq> None) hs"
    unfolding list_all_iff dag_get_block_def hm_key_iff stored by blast
  moreover have "length ([] :: (block_hash \<times> block_header) list) < max 1 limit"
    by simp
  ultimately have "collect_headers ?d from limit True hs [] =
      take (max 1 limit) (map (\<lambda>h. (h, header (the (dag_get_block ?d h)))) hs)"
    using collect_headers_included [of ?d hs "[]" limit "from"] by simp
  then have
    "collect_headers ?d from limit (from = replicate 32 0) order [] =
      take (max 1 limit) (map (\<lambda>h. (h, header (the (dag_get_block ?d h)))) hs)"
    by (cases "from = replicate 32 0") (simp_all add: hs_def collect_headers_skip)
  then show ?thesis
    using o by (simp add: reply_def queue_try_send_open [OF assms(1,2)] hs_def)
qed

theorem headers_reply_witness:
  "\<exists>h x. gp_sender (snd (handle_message list_send id (\<lambda>_. None) 7 (GetHeaders (replicate 32 0) 0) (sample_sync sample_dag2)))
     = [(7, Headers [(h, x)])]"
proof -
  obtain order where o: "get_topological_order (dag_idx sample_dag2) (dag_store sample_dag2) = Some order"
    and q: "id (gp_sender (snd (handle_message list_send id (\<lambda>_. None) 7 (GetHeaders (replicate 32 0) 0) (sample_sync sample_dag2)))) =
      id (gp_sender (sample_sync sample_dag2)) @ [(7, Headers (take (max 1 0)
        (map (\<lambda>h. (h, header (the (dag_get_block sample_dag2 h)))) order)))]"
    using headers_reply [OF list_send_ok, of sample_env "sample_sync sample_dag2" id "\<lambda>_. None" 7
        "replicate 32 0" 0] dag_reachable_inv [OF sample_dag2_reachable]
    unfolding sample_sync_fields(1) if_P [OF refl] by blast
  have "set order = fst ` set (dag_store sample_dag2)"
    using topological_order_ex [OF dag_reachable_inv [OF sample_dag2_reachable]] o by simp
  then obtain h hs where "order = h # hs"
    by (cases order) (auto simp: sample_dag2_store)
  with q show ?thesis
    by (simp add: sample_sync_fields del: handle_message.simps)
qed

end
