(* ===== verification/P2p_Node.thy ===== *)
theory P2p_Node
  imports Network
begin

text \<open>
  The message handling of a node, \<^verbatim>\<open>src/src/network/p2p_node.rs\<close>, and networks of such nodes.

  The swarm of libp2p is external; what it reports is the datatype \<open>swarm_event\<close>, and what the
  node publishes is broadcast to every subscriber of the topic. \<open>obs\<close> gives, by position, the clock
  readings and write outcomes the blocks of a message meet. An operation that can wait for a
  lock for ever returns an option.
\<close>

section \<open>Handlers\<close>

datatype 'p swarm_event =
    NewListenAddr
  | FloodsubMessage 'p bytes
  | FloodsubOther
  | MdnsDiscovered "'p list"
  | MdnsExpired "'p list"
  | ConnectionEstablished 'p
  | ConnectionClosed 'p
  | OtherSwarmEvent

type_synonym observations = "nat \<Rightarrow> u64 \<times> u64 \<times> store_error option"

definition stamp :: "observations \<Rightarrow> block list \<Rightarrow> (u64 \<times> u64 \<times> store_error option \<times> block) list" where
  "stamp obs bs = map (\<lambda>(i, b). case obs i of (now, now', w) \<Rightarrow> (now, now', w, b)) (List.enumerate 0 bs)"

text \<open>The serialisers: JSON for messages, bincode for the state.\<close>

record msg_codec =
  ser_msg :: "network_message \<Rightarrow> bytes option"
  de_msg :: "bytes \<Rightarrow> network_message option"
  ser_state :: "state_manager \<Rightarrow> bytes option"

definition msg_codec_ok :: "msg_codec \<Rightarrow> bool" where
  "msg_codec_ok J \<longleftrightarrow> (\<forall>m d. ser_msg J m = Some d \<longrightarrow> de_msg J d = Some m) \<and> de_msg J [] = None"

text \<open>
  Errors are logged and dropped. A request for a block is only logged, a request for the DAG
  handles an empty response, and a received state snapshot is only compared.
\<close>

fun handle_network_message ::
  "env \<Rightarrow> ('p, 'c) sender \<Rightarrow> 'p peer_iter \<Rightarrow> msg_codec \<Rightarrow> observations \<Rightarrow> 'p \<Rightarrow> network_message
    \<Rightarrow> ('p, 'c) sync_manager \<Rightarrow> ('p, 'c) sync_manager" where
  "handle_network_message E send iter J obs peer (NewBlock b) s =
     handle_gossip_message (sha256 E) send iter (NewBlock b) s"
| "handle_network_message E send iter J obs peer (NewTransaction tx) s =
     handle_gossip_message (sha256 E) send iter (NewTransaction tx) s"
| "handle_network_message E send iter J obs peer (RequestBlock h) s = s"
| "handle_network_message E send iter J obs peer RequestDag s = snd (handle_dag_response E [] s)"
| "handle_network_message E send iter J obs peer (DagResponse bs) s =
     snd (handle_dag_response E (stamp obs bs) s)"
| "handle_network_message E send iter J obs peer (GetHeaders from limit) s =
     snd (handle_message send iter (ser_state J) peer (GetHeaders from limit) s)"
| "handle_network_message E send iter J obs peer (Headers headers) s =
     snd (handle_headers send iter headers s)"
| "handle_network_message E send iter J obs peer (GetBlocks hashes) s =
     snd (handle_message send iter (ser_state J) peer (GetBlocks hashes) s)"
| "handle_network_message E send iter J obs peer (Blocks bs) s =
     fold (\<lambda>(now, now', w, b) s. snd (handle_block_response E now now' w (Some b) s)) (stamp obs bs) s"
| "handle_network_message E send iter J obs peer RequestState s =
     snd (handle_message send iter (ser_state J) peer RequestState s)"
| "handle_network_message E send iter J obs peer (StateSnapshot snapshot) s = s"

text \<open>Adding a discovered peer can hang, see \<open>add_peer\<close>; a refused peer is logged.\<close>

fun discovered :: "u64 \<Rightarrow> 'p list \<Rightarrow> 'p peer_manager \<Rightarrow> 'p peer_manager option" where
  "discovered now [] pm = Some pm"
| "discovered now (p # ps) pm =
     (case add_peer now p '''' pm of
        (Hangs, _) \<Rightarrow> None
      | (_, pm') \<Rightarrow> discovered now ps pm')"

fun handle_behaviour_event ::
  "env \<Rightarrow> ('p, 'c) sender \<Rightarrow> 'p peer_iter \<Rightarrow> msg_codec \<Rightarrow> observations \<Rightarrow> u64 \<Rightarrow> 'p swarm_event
    \<Rightarrow> ('p, 'c) sync_manager \<Rightarrow> ('p, 'c) sync_manager option" where
  "handle_behaviour_event E send iter J obs now (FloodsubMessage peer data) s =
     (case de_msg J data of
        None \<Rightarrow> Some s
      | Some msg \<Rightarrow> Some (handle_network_message E send iter J obs peer msg s))"
| "handle_behaviour_event E send iter J obs now (MdnsDiscovered ps) s =
     map_option (\<lambda>pm. s\<lparr>gp_peers := pm\<rparr>) (discovered now ps (gp_peers s))"
| "handle_behaviour_event E send iter J obs now (MdnsExpired ps) s =
     Some (s\<lparr>gp_peers := fold remove_peer ps (gp_peers s)\<rparr>)"
| "handle_behaviour_event E send iter J obs now _ s = Some s"

fun handle_swarm_event ::
  "env \<Rightarrow> ('p, 'c) sender \<Rightarrow> 'p peer_iter \<Rightarrow> msg_codec \<Rightarrow> observations \<Rightarrow> u64 \<Rightarrow> 'p swarm_event
    \<Rightarrow> ('p, 'c) sync_manager \<Rightarrow> ('p, 'c) sync_manager option" where
  "handle_swarm_event E send iter J obs now (ConnectionEstablished p) s =
     Some (s\<lparr>gp_peers := update_peer_status now p True (gp_peers s)\<rparr>)"
| "handle_swarm_event E send iter J obs now (ConnectionClosed p) s =
     Some (s\<lparr>gp_peers := update_peer_status now p False (gp_peers s)\<rparr>)"
| "handle_swarm_event E send iter J obs now NewListenAddr s = Some s"
| "handle_swarm_event E send iter J obs now OtherSwarmEvent s = Some s"
| "handle_swarm_event E send iter J obs now e s = handle_behaviour_event E send iter J obs now e s"

text \<open>A message is published to the topic, whatever peer it is for; \<open>unwrap_or_default\<close> publishes nothing.\<close>

definition send_message_to_peer :: "msg_codec \<Rightarrow> 'p \<Rightarrow> network_message \<Rightarrow> bytes" where
  "send_message_to_peer J peer msg = (case ser_msg J msg of None \<Rightarrow> [] | Some data \<Rightarrow> data)"

section \<open>Networks\<close>

text \<open>
  A network: the state of every node and everything that was published, with its source. A
  published message may reach every node, any number of times and in any order. A step with
  the label \<open>Some q\<close> is an insertion into the DAG of \<open>q\<close> by the part of \<open>q\<close> that produces blocks.
\<close>

record ('p, 'c) network =
  nodes :: "'p \<Rightarrow> ('p, 'c) sync_manager"
  wire :: "('p \<times> bytes) set"

definition receiver_ok ::
  "('c \<Rightarrow> (('p \<times> network_message) \<times> 'c) option) \<Rightarrow> ('c \<Rightarrow> ('p \<times> network_message) list) \<Rightarrow> bool" where
  "receiver_ok recv queue \<longleftrightarrow> (\<forall>c m c'. recv c = Some (m, c') \<longrightarrow> queue c = m # queue c')"

definition set_node :: "'p \<Rightarrow> ('p, 'c) sync_manager \<Rightarrow> ('p, 'c) network \<Rightarrow> ('p, 'c) network" where
  "set_node p s N = N\<lparr>nodes := (nodes N)(p := s)\<rparr>"

inductive net_step ::
  "env \<Rightarrow> ('p, 'c) sender \<Rightarrow> ('c \<Rightarrow> (('p \<times> network_message) \<times> 'c) option) \<Rightarrow> 'p peer_iter \<Rightarrow> msg_codec
    \<Rightarrow> ('p, 'c) network \<Rightarrow> 'p option \<Rightarrow> ('p, 'c) network \<Rightarrow> bool" for E send recv iter J where
  publish: "recv (gp_sender (nodes N p)) = Some ((peer, msg), c) \<Longrightarrow>
    net_step E send recv iter J N None
      (set_node p ((nodes N p)\<lparr>gp_sender := c\<rparr>) N
        \<lparr>wire := insert (p, send_message_to_peer J peer msg) (wire N)\<rparr>)"
| deliver: "(src, data) \<in> wire N \<Longrightarrow>
    handle_swarm_event E send iter J obs now (FloodsubMessage src data) (nodes N p) = Some s \<Longrightarrow>
    net_step E send recv iter J N None (set_node p s N)"
| event: "\<nexists>src data. e = FloodsubMessage src data \<Longrightarrow>
    handle_swarm_event E send iter J obs now e (nodes N p) = Some s \<Longrightarrow>
    net_step E send recv iter J N None (set_node p s N)"
| start: "net_step E send recv iter J N None (set_node p (snd (start_sync send iter (nodes N p))) N)"
| periodic: "net_step E send recv iter J N None (set_node p (periodic_sync_check send iter (nodes N p)) N)"
| cleanup: "net_step E send recv iter J N None (set_node p (cleanup_seen_messages (nodes N p)) N)"
| stale: "net_step E send recv iter J N None
    (set_node p ((nodes N p)\<lparr>gp_peers := cleanup_stale_peers now (gp_peers (nodes N p))\<rparr>) N)"
| block: "net_step E send recv iter J N None (set_node p (broadcast_block send iter b (nodes N p)) N)"
| tx: "net_step E send recv iter J N None
    (set_node p (broadcast_transaction (sha256 E) send iter tx (nodes N p)) N)"
| local: "insert_block E now w b (sm_dag (nodes N p)) = Inr d \<Longrightarrow>
    net_step E send recv iter J N (Some p) (set_node p ((nodes N p)\<lparr>sm_dag := d\<rparr>) N)"

inductive net_run ::
  "env \<Rightarrow> ('p, 'c) sender \<Rightarrow> ('c \<Rightarrow> (('p \<times> network_message) \<times> 'c) option) \<Rightarrow> 'p peer_iter \<Rightarrow> msg_codec
    \<Rightarrow> ('p, 'c) network \<Rightarrow> 'p option list \<Rightarrow> ('p, 'c) network \<Rightarrow> bool" for E send recv iter J where
  none: "net_run E send recv iter J N [] N"
| step: "net_run E send recv iter J N ls N' \<Longrightarrow> net_step E send recv iter J N' l N'' \<Longrightarrow>
    net_run E send recv iter J N (ls @ [l]) N''"

inductive_cases net_stepE: "net_step E send recv iter J N l N'"

section \<open>No block crosses the network\<close>

text \<open>
  The messages that carry blocks into a DAG, and the request that is answered with them, are
  never sent by any node: \<open>harmless\<close> are all others.
\<close>

fun harmless :: "network_message \<Rightarrow> bool" where
  "harmless (DagResponse bs) \<longleftrightarrow> False"
| "harmless (GetBlocks hs) \<longleftrightarrow> False"
| "harmless (Blocks bs) \<longleftrightarrow> False"
| "harmless _ \<longleftrightarrow> True"

abbreviation quiet_queue :: "('p \<times> network_message) list \<Rightarrow> bool" where
  "quiet_queue q \<equiv> list_all (\<lambda>(p, m). harmless m) q"

definition quiet_step ::
  "('c \<Rightarrow> ('p \<times> network_message) list) \<Rightarrow> ('p, 'c) sync_manager \<Rightarrow> ('p, 'c) sync_manager \<Rightarrow> bool" where
  "quiet_step queue s s' \<longleftrightarrow> sm_dag s' = sm_dag s \<and> pending_requests s \<subseteq> pending_requests s' \<and>
     (quiet_queue (queue (gp_sender s)) \<longrightarrow> quiet_queue (queue (gp_sender s')))"

lemma quiet_step_refl [simp]: "quiet_step queue s s"
  by (simp add: quiet_step_def)

lemma quiet_try_send:
  assumes "channel_ok send queue" and "harmless msg" and "quiet_queue (queue c)"
  shows "quiet_queue (queue (try_send send (p, msg) c))"
  using queue_try_send [OF assms(1), of "(p, msg)" c] assms(2,3) by auto

lemma quiet_fold_try_send:
  assumes "channel_ok send queue" and "harmless msg"
  shows "quiet_queue (queue c) \<Longrightarrow> quiet_queue (queue (fold (\<lambda>p. try_send send (p, msg)) ps c))"
  by (induction ps arbitrary: c) (simp_all add: quiet_try_send [OF assms])

lemma quiet_send:
  assumes "channel_ok send queue" and "harmless msg" and "send c (p, msg) = Some c'" and "quiet_queue (queue c)"
  shows "quiet_queue (queue c')"
  using quiet_try_send [OF assms(1,2,4), of p] assms(3) by (simp add: try_send_def)

lemma quiet_broadcast:
  assumes "channel_ok send queue" and "harmless msg"
  shows "quiet_step queue s (broadcast_message send iter msg s)"
  by (simp add: quiet_step_def) (simp add: broadcast_message_def quiet_fold_try_send [OF assms])

lemma quiet_send_all:
  assumes "channel_ok send queue" and "harmless msg"
  shows "quiet_queue (queue c) \<Longrightarrow> quiet_queue (queue (snd (send_all send msg ps c)))"
  by (induction ps arbitrary: c) (auto dest: quiet_send [OF assms] split: option.split)

lemma quiet_request_loop:
  assumes "channel_ok send queue"
  shows "request_loop send ps hs pending c = (r, pending', c') \<Longrightarrow>
    pending \<subseteq> pending' \<and> (quiet_queue (queue c) \<longrightarrow> quiet_queue (queue c'))"
proof (induction hs arbitrary: pending c)
  case (Cons h hs)
  obtain ok c1 where s: "send_all send (RequestBlock h) ps c = (ok, c1)"
    by fastforce
  then have "quiet_queue (queue c) \<Longrightarrow> quiet_queue (queue c1)"
    using quiet_send_all [OF assms, of "RequestBlock h" c ps] by simp
  with Cons.prems Cons.IH [of pending c] Cons.IH [of "insert h pending" c1] show ?case
    by (auto simp: s split: if_splits bool.splits)
qed auto

lemma quiet_request_missing:
  assumes "channel_ok send queue"
  shows "quiet_step queue s (snd (request_missing_blocks send iter hs s))"
proof -
  obtain r pending c where "request_loop send (get_sync_peers iter 3 (gp_peers s)) hs (pending_requests s)
      (gp_sender s) = (r, pending, c)"
    by (metis prod_cases3)
  with quiet_request_loop [OF assms this] show ?thesis
    by (simp add: quiet_step_def request_missing_blocks_def)
qed

lemma quiet_headers:
  assumes "channel_ok send queue"
  shows "quiet_step queue s (snd (handle_headers send iter hs s))"
  by (simp add: handle_headers_def Let_def quiet_request_missing [OF assms])

lemma quiet_reply:
  assumes "channel_ok send queue" and "harmless msg"
  shows "quiet_step queue s (reply send peer msg s)"
  by (simp add: quiet_step_def reply_def quiet_try_send [OF assms])

lemma quiet_gossip:
  assumes "channel_ok send queue"
  shows "quiet_step queue s (handle_gossip_message sha send iter msg s)"
  using quiet_broadcast [OF assms, of "NewBlock b" "s\<lparr>seen_blocks := S\<rparr>" iter for b S]
    quiet_broadcast [OF assms, of "NewTransaction tx" "s\<lparr>seen_transactions := S\<rparr>" iter for tx S]
  by (cases msg) (simp_all add: quiet_step_def)

text \<open>The handler is quiet on everything that is harmless.\<close>

lemma quiet_handler:
  assumes "channel_ok send queue" and "harmless msg"
  shows "quiet_step queue s (handle_network_message E send iter J obs peer msg s)"
  using assms(2) by (cases msg) (simp_all add: quiet_gossip [OF assms(1)] quiet_headers [OF assms(1)]
      quiet_reply [OF assms(1)] handle_dag_response_def Let_def
      del: handle_gossip_message.simps split: option.split)

lemma quiet_event:
  assumes "channel_ok send queue" and "handle_swarm_event E send iter J obs now e s = Some s'"
    and "\<And>src data msg. e = FloodsubMessage src data \<Longrightarrow> de_msg J data = Some msg \<Longrightarrow> harmless msg"
  shows "quiet_step queue s s'"
  using assms(2,3) by (cases e) (auto simp: quiet_handler [OF assms(1)] quiet_step_def [of _ _ "gp_peers_update _ _"]
      split: option.splits)

lemma quiet_start:
  assumes "channel_ok send queue"
  shows "quiet_step queue s (snd (start_sync send iter s))"
proof -
  have "harmless RequestDag"
    by simp
  from quiet_send [OF assms this] show ?thesis
    by (auto simp: start_sync_def quiet_step_def split: list.split option.split)
qed

lemma quiet_periodic:
  assumes "channel_ok send queue"
  shows "quiet_step queue s (periodic_sync_check send iter s)"
  by (simp add: periodic_sync_check_def detect_missing_blocks_def Let_def quiet_step_def
      quiet_fold_try_send [OF assms])

text \<open>
  The invariant of a network: what waits in a channel is harmless, and so is what was published.
\<close>

definition net_quiet ::
  "('c \<Rightarrow> ('p \<times> network_message) list) \<Rightarrow> msg_codec \<Rightarrow> ('p, 'c) network \<Rightarrow> bool" where
  "net_quiet queue J N \<longleftrightarrow> (\<forall>p. quiet_queue (queue (gp_sender (nodes N p)))) \<and>
     (\<forall>src data msg. (src, data) \<in> wire N \<and> de_msg J data = Some msg \<longrightarrow> harmless msg)"

lemma net_quiet_set_node:
  assumes "net_quiet queue J N" and "quiet_step queue (nodes N p) s"
  shows "net_quiet queue J (set_node p s N)"
    "sm_dag (nodes (set_node p s N) q) = sm_dag (nodes N q)"
    "pending_requests (nodes N q) \<subseteq> pending_requests (nodes (set_node p s N) q)"
  using assms by (auto simp: net_quiet_def set_node_def quiet_step_def)

lemma net_step_quiet:
  assumes C: "channel_ok send queue" and R: "receiver_ok recv queue" and J: "msg_codec_ok J"
    and "net_step E send recv iter J N l N'" and "net_quiet queue J N"
  shows "net_quiet queue J N' \<and> (l \<noteq> Some q \<longrightarrow> sm_dag (nodes N' q) = sm_dag (nodes N q))
    \<and> pending_requests (nodes N q) \<subseteq> pending_requests (nodes N' q)"
  using assms(4)
proof (cases rule: net_step.cases)
  case (publish p peer msg c)
  have queue: "queue (gp_sender (nodes N p)) = (peer, msg) # queue c"
    using R publish(3) by (auto simp: receiver_ok_def)
  moreover have "quiet_queue (queue (gp_sender (nodes N p)))"
    using assms(5) by (simp add: net_quiet_def)
  ultimately have "harmless msg" and "quiet_queue (queue c)"
    by simp_all
  moreover have "m = msg" if "de_msg J (send_message_to_peer J peer msg) = Some m" for m
    using that J by (auto simp: send_message_to_peer_def msg_codec_ok_def split: option.splits)
  ultimately show ?thesis
    using assms(5) by (auto simp: publish net_quiet_def set_node_def)
next
  case (deliver src data obs now p s)
  have "quiet_step queue (nodes N p) s"
    using assms(5) deliver(3) by (intro quiet_event [OF C deliver(4)]) (auto simp: net_quiet_def)
  from net_quiet_set_node [OF assms(5) this] show ?thesis
    by (simp add: deliver)
next
  case (event e obs now p s)
  then have "quiet_step queue (nodes N p) s"
    by (intro quiet_event [OF C]) auto
  from net_quiet_set_node [OF assms(5) this] show ?thesis
    by (simp add: event)
next
  case (start p)
  from net_quiet_set_node [OF assms(5) quiet_start [OF C]] show ?thesis
    by (simp add: start)
next
  case (periodic p)
  from net_quiet_set_node [OF assms(5) quiet_periodic [OF C]] show ?thesis
    by (simp add: periodic)
next
  case (cleanup p)
  have "quiet_step queue (nodes N p) (cleanup_seen_messages (nodes N p))"
    by (simp add: quiet_step_def cleanup_seen_messages_def)
  from net_quiet_set_node [OF assms(5) this] show ?thesis
    by (simp add: cleanup)
next
  case (stale p now)
  have "quiet_step queue (nodes N p) ((nodes N p)\<lparr>gp_peers := cleanup_stale_peers now (gp_peers (nodes N p))\<rparr>)"
    by (simp add: quiet_step_def)
  from net_quiet_set_node [OF assms(5) this] show ?thesis
    by (simp add: stale)
next
  case (block p b)
  have "quiet_step queue (nodes N p) (broadcast_block send iter b (nodes N p))"
    using quiet_gossip [OF C, of "nodes N p" "sha256 E" iter "NewBlock b"]
    by (simp add: broadcast_block_def split: if_splits)
  from net_quiet_set_node [OF assms(5) this] show ?thesis
    by (simp add: block)
next
  case (tx p t)
  have "quiet_step queue (nodes N p) (broadcast_transaction (sha256 E) send iter t (nodes N p))"
    using quiet_gossip [OF C, of "nodes N p" "sha256 E" iter "NewTransaction t"]
    by (simp add: broadcast_transaction_def split: if_splits)
  from net_quiet_set_node [OF assms(5) this] show ?thesis
    by (simp add: tx)
next
  case (local now w b p d)
  with assms(5) show ?thesis
    by (auto simp: net_quiet_def set_node_def)
qed

lemma net_run_quiet:
  assumes "channel_ok send queue" and "receiver_ok recv queue" and "msg_codec_ok J"
    and "net_run E send recv iter J N ls N'" and "net_quiet queue J N"
  shows "net_quiet queue J N' \<and> (Some q \<notin> set ls \<longrightarrow> sm_dag (nodes N' q) = sm_dag (nodes N q))
    \<and> pending_requests (nodes N q) \<subseteq> pending_requests (nodes N' q)"
  using assms(4,5)
proof (induction rule: net_run.induct)
  case (step N ls N' l N'')
  with net_step_quiet [OF assms(1-3) step.hyps(2), of q] show ?case
    by auto
qed simp

section \<open>Properties\<close>

text \<open>
  C7. No block crosses the network. In every run of nodes that execute this code, from channels and a
  wire without a message that carries blocks, the DAG of a node that does not insert blocks
  of its own never changes: gossip only passes blocks on, a request for a block or for the DAG is
  not answered, and blocks are asked for with \<open>RequestBlock\<close> while only \<open>GetBlocks\<close> would be
  answered. A requested block is never taken off the list of pending requests, so a node that
  has learnt of a missing block is never in sync again and its periodic check does nothing.
\<close>

theorem no_block_crosses_network:
  assumes "channel_ok send queue" and "receiver_ok recv queue" and "msg_codec_ok J"
    and "\<And>p. queue (gp_sender (nodes N p)) = []" and "wire N = {}"
    and "net_run E send recv iter J N ls N'" and "Some q \<notin> set ls"
  shows "sm_dag (nodes N' q) = sm_dag (nodes N q)
    \<and> pending_requests (nodes N q) \<subseteq> pending_requests (nodes N' q)
    \<and> (\<not> is_synced (nodes N q) \<longrightarrow> periodic_sync_check send iter (nodes N' q) = nodes N' q)"
proof -
  have "net_quiet queue J N"
    using assms(4,5) by (simp add: net_quiet_def)
  with net_run_quiet [OF assms(1-3,6) this, of q] assms(7) show ?thesis
    by (auto simp: periodic_sync_check_def is_synced_def)
qed

text \<open>
  A run of two nodes: node 0 inserts a genesis block and asks its peer for the DAG; the request
  is published and node 1 handles it.
\<close>

definition tiny_codec :: msg_codec where
  "tiny_codec = \<lparr>ser_msg = (\<lambda>m. if m = RequestDag then Some [1] else None),
     de_msg = (\<lambda>d. if d = [1] then Some RequestDag else None), ser_state = (\<lambda>_. None)\<rparr>"

definition list_recv :: "('p \<times> network_message) list \<Rightarrow> (('p \<times> network_message) \<times> ('p \<times> network_message) list) option" where
  "list_recv c = (case c of [] \<Rightarrow> None | m # ms \<Rightarrow> Some (m, ms))"

definition two_nodes :: "(nat, (nat \<times> network_message) list) network" where
  "two_nodes = \<lparr>nodes = (\<lambda>_. sample_sync (block_dag_new [])), wire = {}\<rparr>"

definition asked :: "(nat, (nat \<times> network_message) list) network" where
  "asked = set_node 0 (snd (start_sync list_send id ((sample_sync (block_dag_new []))\<lparr>sm_dag := sample_dag1\<rparr>))) two_nodes"

lemma asked_run: "net_run sample_env list_send list_recv id tiny_codec two_nodes [Some 0, None] asked"
proof -
  let ?s = "(sample_sync (block_dag_new []))\<lparr>sm_dag := sample_dag1\<rparr>"
  have "net_step sample_env list_send list_recv id tiny_codec two_nodes (Some 0) (set_node 0 ?s two_nodes)"
    using net_step.local [of sample_env 1000 None "sample_block [] 0" two_nodes 0 sample_dag1 list_send list_recv id tiny_codec]
    by (simp add: two_nodes_def sample_sync_fields insert_sample_genesis)
  moreover have "net_step sample_env list_send list_recv id tiny_codec (set_node 0 ?s two_nodes) None asked"
    using net_step.start [of sample_env list_send list_recv id tiny_codec "set_node 0 ?s two_nodes" 0]
    by (simp add: asked_def set_node_def)
  ultimately show ?thesis
    using net_run.step [OF net_run.step [OF net_run.none]] by fastforce
qed

theorem no_block_crosses_network_witness:
  "dag_store (sm_dag (nodes asked 0)) \<noteq> [] \<and> gp_sender (nodes asked 0) = [(1, RequestDag)]
   \<and> sm_dag (nodes asked 1) = block_dag_new []"
proof -
  have "channel_ok list_send id" "receiver_ok list_recv id" "msg_codec_ok tiny_codec"
    by (simp_all add: list_send_ok receiver_ok_def list_recv_def msg_codec_ok_def tiny_codec_def split: list.split)
  from no_block_crosses_network [OF this _ _ asked_run, of 1] show ?thesis
    by (simp add: two_nodes_def asked_def sample_sync_fields set_node_def start_sync_def one_peer_lists
        list_send_def sample_genesis_facts(4))
qed

end
