(* ===== verification/State_Sync.thy ===== *)
theory State_Sync
  imports Network
begin

text \<open>
  Fast synchronisation of the state by snapshots: \<^verbatim>\<open>src/src/network/state_sync.rs\<close>.

  \<open>Q\<close> holds the serialiser of the state manager, which is external; what is relied on is
  \<open>state_codec_ok\<close>: what was serialised is read back. The channel is the one of \<open>Network\<close>.
\<close>

section \<open>State\<close>

record state_codec =
  state_ser :: "state_manager \<Rightarrow> bytes option"
  state_de :: "bytes \<Rightarrow> state_manager option"

definition state_codec_ok :: "state_codec \<Rightarrow> bool" where
  "state_codec_ok Q \<longleftrightarrow> (\<forall>s d. state_ser Q s = Some d \<longrightarrow> state_de Q d = Some s)"

record sync_snapshot =
  sn_state_root :: bytes
  sn_block_height :: u64
  sn_block_hash :: block_hash
  sn_state_data :: bytes

record 'c state_sync =
  ssm_state :: state_manager
  last_synced_root :: bytes
  ssm_sender :: 'c
  sync_in_progress :: bool

datatype sync_error = SnapshotSerialize | SnapshotDeserialize | RootMismatch | SyncInProgress | RequestNotSent

section \<open>Operations\<close>

definition from_state_manager ::
  "state_codec \<Rightarrow> state_manager \<Rightarrow> u64 \<Rightarrow> block_hash \<Rightarrow> sync_error + sync_snapshot" where
  "from_state_manager Q st height h =
     (case state_ser Q st of
        None \<Rightarrow> Inl SnapshotSerialize
      | Some data \<Rightarrow>
          Inr \<lparr>sn_state_root = current_state_root st, sn_block_height = height, sn_block_hash = h,
               sn_state_data = data\<rparr>)"

definition restore_to_state_manager :: "state_codec \<Rightarrow> sync_snapshot \<Rightarrow> sync_error + state_manager" where
  "restore_to_state_manager Q x =
     (case state_de Q (sn_state_data x) of None \<Rightarrow> Inl SnapshotDeserialize | Some st \<Rightarrow> Inr st)"

definition snapshot_validate :: "state_codec \<Rightarrow> sync_snapshot \<Rightarrow> sync_error + unit" where
  "snapshot_validate Q x =
     (case restore_to_state_manager Q x of
        Inl e \<Rightarrow> Inl e
      | Inr st \<Rightarrow> if current_state_root st \<noteq> sn_state_root x then Inl RootMismatch else Inr ())"

definition size_bytes :: "sync_snapshot \<Rightarrow> nat" where
  "size_bytes x = length (sn_state_data x)"

definition state_sync_new :: "state_manager \<Rightarrow> 'c \<Rightarrow> 'c state_sync" where
  "state_sync_new st c =
     \<lparr>ssm_state = st, last_synced_root = current_state_root st, ssm_sender = c, sync_in_progress = False\<rparr>"

definition request_state_sync ::
  "('p, 'c) sender \<Rightarrow> 'p \<Rightarrow> 'c state_sync \<Rightarrow> (sync_error + unit) \<times> 'c state_sync" where
  "request_state_sync send peer m =
     (if sync_in_progress m then (Inl SyncInProgress, m)
      else let m = m\<lparr>sync_in_progress := True\<rparr> in
        case send (ssm_sender m) (peer, RequestState) of
          None \<Rightarrow> (Inl RequestNotSent, m)
        | Some c \<Rightarrow> (Inr (), m\<lparr>ssm_sender := c\<rparr>))"

definition handle_state_snapshot ::
  "state_codec \<Rightarrow> sync_snapshot \<Rightarrow> 'c state_sync \<Rightarrow> (sync_error + unit) \<times> 'c state_sync" where
  "handle_state_snapshot Q x m =
     (case snapshot_validate Q x of
        Inl e \<Rightarrow> (Inl e, m)
      | Inr _ \<Rightarrow>
          if sn_state_root x = current_state_root (ssm_state m)
          then (Inr (), m\<lparr>sync_in_progress := False\<rparr>)
          else case restore_to_state_manager Q x of
            Inl e \<Rightarrow> (Inl e, m)
          | Inr st \<Rightarrow>
              (Inr (), m\<lparr>ssm_state := st, last_synced_root := sn_state_root x, sync_in_progress := False\<rparr>))"

definition create_snapshot ::
  "state_codec \<Rightarrow> u64 \<Rightarrow> block_hash \<Rightarrow> 'c state_sync \<Rightarrow> sync_error + sync_snapshot" where
  "create_snapshot Q height h m = from_state_manager Q (ssm_state m) height h"

definition is_syncing :: "'c state_sync \<Rightarrow> bool" where
  "is_syncing m \<longleftrightarrow> sync_in_progress m"

definition get_last_synced_root :: "'c state_sync \<Rightarrow> bytes" where
  "get_last_synced_root m = last_synced_root m"

definition get_current_state_root :: "'c state_sync \<Rightarrow> bytes" where
  "get_current_state_root m = current_state_root (ssm_state m)"

definition is_state_synced :: "'c state_sync \<Rightarrow> bool" where
  "is_state_synced m \<longleftrightarrow> get_current_state_root m = get_last_synced_root m"

section \<open>Lemmas\<close>

text \<open>Installing a snapshot is all or nothing, and what is installed is what was serialised.\<close>

lemma snapshot_of_state:
  assumes "state_codec_ok Q" and "from_state_manager Q st height h = Inr x"
  shows "restore_to_state_manager Q x = Inr st" "snapshot_validate Q x = Inr ()"
    "sn_state_root x = current_state_root st"
  using assms by (auto simp: from_state_manager_def restore_to_state_manager_def snapshot_validate_def
      state_codec_ok_def split: option.splits)

lemma refused_snapshot:
  assumes "handle_state_snapshot Q x m = (Inl e, m')"
  shows "m' = m" "snapshot_validate Q x = Inl e"
  using assms by (auto simp: handle_state_snapshot_def snapshot_validate_def split: sum.splits if_splits)

section \<open>Sample instances\<close>

definition state_a :: state_manager where
  "state_a = \<lparr>state_tree = tree_new, current_state_root = [1]\<rparr>"

definition state_b :: state_manager where
  "state_b = \<lparr>state_tree = tree_new, current_state_root = [2]\<rparr>"

definition pair_codec :: state_codec where
  "pair_codec = \<lparr>state_ser = (\<lambda>s. if s = state_a then Some [1] else if s = state_b then Some [2] else None),
     state_de = (\<lambda>d. if d = [1] then Some state_a else if d = [2] then Some state_b else None)\<rparr>"

lemma pair_codec_ok: "state_codec_ok pair_codec"
  by (simp add: state_codec_ok_def pair_codec_def state_a_def state_b_def)

section \<open>Properties\<close>

text \<open>
  C35. A snapshot that one node creates and another one handles carries the state over: the second
  node ends with the state of the first one, or keeps its own when the roots already agree;
  either way the roots agree afterwards, no synchronisation is in progress and, if the state was
  replaced, the node reports that it is synchronised. Nothing checks that the accounts of
  the snapshot hash to its root: both the root and the accounts are the sender's, so a state
  whose root does not belong to its accounts is installed all the same.
\<close>

theorem state_sync_transfers:
  assumes "state_codec_ok Q" and "create_snapshot Q height h m1 = Inr x"
  shows "\<exists>m. handle_state_snapshot Q x m2 = (Inr (), m)
    \<and> ssm_state m = (if get_current_state_root m1 = get_current_state_root m2 then ssm_state m2 else ssm_state m1)
    \<and> get_current_state_root m = get_current_state_root m1 \<and> \<not> is_syncing m
    \<and> (get_current_state_root m1 \<noteq> get_current_state_root m2 \<longrightarrow> is_state_synced m)"
  using snapshot_of_state [OF assms(1) assms(2) [unfolded create_snapshot_def]]
  by (auto simp: handle_state_snapshot_def get_current_state_root_def is_syncing_def is_state_synced_def
      get_last_synced_root_def)

theorem state_sync_transfers_witness:
  "case create_snapshot pair_codec 5 [] (state_sync_new state_a ()) of
     Inr x \<Rightarrow> ssm_state (snd (handle_state_snapshot pair_codec x (state_sync_new state_b ()))) = state_a
       \<and> \<not> state_inv state_a
   | Inl _ \<Rightarrow> False"
proof -
  let ?x = "\<lparr>sn_state_root = [1], sn_block_height = 5, sn_block_hash = [], sn_state_data = [1]\<rparr>"
  have c: "create_snapshot pair_codec 5 [] (state_sync_new state_a ()) = Inr ?x"
    by (simp add: create_snapshot_def state_sync_new_def from_state_manager_def pair_codec_def state_a_def)
  have "\<not> state_inv state_a"
    by (auto simp: state_inv_def state_a_def tree_new_def calculate_root_def dest: arg_cong [where f = length])
  with state_sync_transfers [OF pair_codec_ok c, of "state_sync_new state_b ()"] show ?thesis
    unfolding c by (auto simp: state_sync_new_def get_current_state_root_def state_a_def state_b_def)
qed

text \<open>
  An unusable snapshot ends synchronisation for good: it is refused without any change, the
  request that led to it stays in progress, and every later request is refused too.
\<close>

theorem state_sync_gets_stuck:
  assumes "\<not> is_syncing m" and "request_state_sync send peer m = (r, m1)"
    and "handle_state_snapshot Q x m1 = (Inl e, m2)"
  shows "m2 = m1 \<and> is_syncing m2 \<and> request_state_sync send peer' m2 = (Inl SyncInProgress, m2)"
  using assms(1,2) refused_snapshot [OF assms(3)]
  by (auto simp: request_state_sync_def is_syncing_def Let_def split: option.splits)

theorem state_sync_gets_stuck_witness:
  "let m1 = snd (request_state_sync list_send 1 (state_sync_new state_a []));
       m2 = snd (handle_state_snapshot pair_codec
              \<lparr>sn_state_root = [9], sn_block_height = 5, sn_block_hash = [], sn_state_data = [2]\<rparr> m1)
   in is_syncing m2 \<and> fst (request_state_sync list_send (1 :: nat) m2) = Inl SyncInProgress"
proof -
  let ?x = "\<lparr>sn_state_root = [9], sn_block_height = 5, sn_block_hash = [], sn_state_data = [2]\<rparr>"
  let ?m1 = "snd (request_state_sync list_send (1 :: nat) (state_sync_new state_a []))"
  have "handle_state_snapshot pair_codec ?x ?m1 = (Inl RootMismatch, ?m1)"
    by (simp add: handle_state_snapshot_def snapshot_validate_def restore_to_state_manager_def pair_codec_def
        state_a_def state_b_def)
  from state_sync_gets_stuck [OF _ prod.collapse [symmetric] this, of 1] show ?thesis
    using \<open>handle_state_snapshot pair_codec ?x ?m1 = (Inl RootMismatch, ?m1)\<close>
    by (simp add: state_sync_new_def is_syncing_def Let_def)
qed

end
