(* ===== verification/Discovery.thy ===== *)
theory Discovery
  imports F64
begin

text \<open>
  Peer discovery with reputation: \<^verbatim>\<open>src/src/network/discovery.rs\<close>.

  Scores are 32-bit signed integers, read with \<open>sint\<close>; additions wrap. Clock readings and ages
  (\<open>Instant\<close>) are natural numbers of seconds, arguments of the operations; subtracting a duration
  from an instant panics below the origin of the clock, so the cleanup takes a reading of at
  least seven days. The success rate is the rounded quotient of two \<open>u32\<close> as doubles. Peer ids
  and addresses are arbitrary types. Iteration orders are arguments.
\<close>

section \<open>Reputation\<close>

definition MAX_SCORE :: i32 where "MAX_SCORE = 1000"
definition MIN_SCORE :: i32 where "MIN_SCORE = - 1000"
definition DEFAULT_SCORE :: i32 where "DEFAULT_SCORE = 0"

definition smin :: "i32 \<Rightarrow> i32 \<Rightarrow> i32" where
  "smin a b = (if sint a \<le> sint b then a else b)"

definition smax :: "i32 \<Rightarrow> i32 \<Rightarrow> i32" where
  "smax a b = (if sint a \<ge> sint b then a else b)"

definition score_new :: "i32 \<Rightarrow> i32" where
  "score_new s = (if sint s < sint MIN_SCORE then MIN_SCORE else if sint s > sint MAX_SCORE then MAX_SCORE else s)"

definition increase :: "i32 \<Rightarrow> i32 \<Rightarrow> i32" where
  "increase amount s = smin (s + amount) MAX_SCORE"

definition decrease :: "i32 \<Rightarrow> i32 \<Rightarrow> i32" where
  "decrease amount s = smax (s - amount) MIN_SCORE"

definition score_is_banned :: "i32 \<Rightarrow> bool" where
  "score_is_banned s \<longleftrightarrow> sint s \<le> - 500"

definition score_is_trusted :: "i32 \<Rightarrow> bool" where
  "score_is_trusted s \<longleftrightarrow> sint s \<ge> 500"

section \<open>Peers\<close>

record ('p, 'a) peer_data =
  pd_peer_id :: 'p
  addresses :: "'a list"
  reputation :: i32
  pd_last_seen :: nat
  pd_connected :: bool
  connection_attempts :: u32
  successful_connections :: u32
  messages_sent :: u64
  messages_received :: u64
  bytes_sent :: u64
  bytes_received :: u64
  first_discovered :: nat

definition peer_data_new :: "nat \<Rightarrow> nat \<Rightarrow> 'p \<Rightarrow> 'a \<Rightarrow> ('p, 'a) peer_data" where
  "peer_data_new now now' p addr =
     \<lparr>pd_peer_id = p, addresses = [addr], reputation = DEFAULT_SCORE, pd_last_seen = now, pd_connected = False,
      connection_attempts = 0, successful_connections = 0, messages_sent = 0, messages_received = 0,
      bytes_sent = 0, bytes_received = 0, first_discovered = now'\<rparr>"

definition success_rate :: "('p, 'a) peer_data \<Rightarrow> rat" where
  "success_rate d =
     (if connection_attempts d = 0 then 0
      else fl (of_nat (unat (successful_connections d)) / of_nat (unat (connection_attempts d))))"

definition update_last_seen :: "nat \<Rightarrow> ('p, 'a) peer_data \<Rightarrow> ('p, 'a) peer_data" where
  "update_last_seen now d = d\<lparr>pd_last_seen := now\<rparr>"

definition record_connection_attempt :: "bool \<Rightarrow> ('p, 'a) peer_data \<Rightarrow> ('p, 'a) peer_data" where
  "record_connection_attempt success d =
     (let d = d\<lparr>connection_attempts := connection_attempts d + 1\<rparr> in
      if success
      then d\<lparr>successful_connections := successful_connections d + 1, reputation := increase 10 (reputation d)\<rparr>
      else d\<lparr>reputation := decrease 5 (reputation d)\<rparr>)"

definition record_message_sent :: "u64 \<Rightarrow> ('p, 'a) peer_data \<Rightarrow> ('p, 'a) peer_data" where
  "record_message_sent n d = d\<lparr>messages_sent := messages_sent d + 1, bytes_sent := bytes_sent d + n\<rparr>"

definition record_message_received :: "u64 \<Rightarrow> ('p, 'a) peer_data \<Rightarrow> ('p, 'a) peer_data" where
  "record_message_received n d =
     d\<lparr>messages_received := messages_received d + 1, bytes_received := bytes_received d + n,
       reputation := increase 1 (reputation d)\<rparr>"

definition should_connect :: "nat \<Rightarrow> ('p, 'a) peer_data \<Rightarrow> bool" where
  "should_connect now d \<longleftrightarrow> \<not> score_is_banned (reputation d) \<and> success_rate d > fl (1 / 10)
     \<and> now - pd_last_seen d < 3600"

section \<open>The manager\<close>

record dns_seed =
  hostname :: string
  dns_port :: "16 word"

record bootstrap_peer =
  bp_address :: string
  bp_peer_id :: "string option"

record ('p, 'a) discovery =
  dns_seeds :: "dns_seed list"
  bootstrap_peers :: "bootstrap_peer list"
  ds_peers :: "('p \<times> ('p, 'a) peer_data) list"
  trusted_peers :: "'p set"
  banned_peers :: "'p set"
  local_peer_id :: 'p
  enable_mdns :: bool
  enable_dht :: bool
  ds_max_peers :: nat
  ds_min_peers :: nat

definition discovery_new :: "'p \<Rightarrow> ('p, 'a) discovery" where
  "discovery_new p =
     \<lparr>dns_seeds = [\<lparr>hostname = ''seed.cytah-speed.net'', dns_port = 8333\<rparr>,
        \<lparr>hostname = ''seed2.cytah-speed.net'', dns_port = 8333\<rparr>],
      bootstrap_peers = [\<lparr>bp_address = ''/ip4/127.0.0.1/tcp/8333'', bp_peer_id = None\<rparr>],
      ds_peers = [], trusted_peers = {}, banned_peers = {}, local_peer_id = p, enable_mdns = True,
      enable_dht = True, ds_max_peers = 100, ds_min_peers = 8\<rparr>"

definition add_dns_seed :: "dns_seed \<Rightarrow> ('p, 'a) discovery \<Rightarrow> ('p, 'a) discovery" where
  "add_dns_seed seed m = m\<lparr>dns_seeds := dns_seeds m @ [seed]\<rparr>"

definition add_bootstrap_peer :: "bootstrap_peer \<Rightarrow> ('p, 'a) discovery \<Rightarrow> ('p, 'a) discovery" where
  "add_bootstrap_peer peer m = m\<lparr>bootstrap_peers := bootstrap_peers m @ [peer]\<rparr>"

text \<open>The query of a seed answers with three random peer ids, which are arguments.\<close>

definition query_dns_seed :: "'p \<times> 'p \<times> 'p \<Rightarrow> dns_seed \<Rightarrow> string + 'p list" where
  "query_dns_seed rnd seed = (case rnd of (a, b, c) \<Rightarrow> Inr [a, b, c])"

definition discover_from_dns :: "(nat \<Rightarrow> 'p \<times> 'p \<times> 'p) \<Rightarrow> ('p, 'a) discovery \<Rightarrow> 'p list" where
  "discover_from_dns rnd m =
     concat (map (\<lambda>(i, seed). case query_dns_seed (rnd i) seed of
         Inr ps \<Rightarrow> filter (\<lambda>p. p \<noteq> local_peer_id m) ps
       | Inl _ \<Rightarrow> []) (List.enumerate 0 (dns_seeds m)))"

definition get_bootstrap_addresses :: "('p, 'a) discovery \<Rightarrow> string list" where
  "get_bootstrap_addresses m = map bp_address (bootstrap_peers m)"

definition ds_add_peer :: "nat \<Rightarrow> nat \<Rightarrow> 'p \<Rightarrow> 'a \<Rightarrow> ('p, 'a) discovery \<Rightarrow> ('p, 'a) discovery" where
  "ds_add_peer now now' p addr m =
     (let d = (case map_of (ds_peers m) p of None \<Rightarrow> peer_data_new now now' p addr | Some d \<Rightarrow> d)
      in m\<lparr>ds_peers := AList.update p (d\<lparr>addresses := addresses d @ [addr]\<rparr>) (ds_peers m)\<rparr>)"

definition update_peer_reputation :: "'p \<Rightarrow> i32 \<Rightarrow> ('p, 'a) discovery \<Rightarrow> ('p, 'a) discovery" where
  "update_peer_reputation p delta m =
     (case map_of (ds_peers m) p of
        None \<Rightarrow> m
      | Some d \<Rightarrow>
          let r = (if sint delta > 0 then increase delta (reputation d) else decrease (- delta) (reputation d))
          in m\<lparr>ds_peers := AList.update p (d\<lparr>reputation := r\<rparr>) (ds_peers m),
               trusted_peers := (if score_is_trusted r then insert p (trusted_peers m) else trusted_peers m - {p}),
               banned_peers := (if score_is_banned r then insert p (banned_peers m) else banned_peers m - {p})\<rparr>)"

definition modify_data ::
  "'p \<Rightarrow> (('p, 'a) peer_data \<Rightarrow> ('p, 'a) peer_data) \<Rightarrow> ('p, 'a) discovery \<Rightarrow> ('p, 'a) discovery" where
  "modify_data p f m =
     (case map_of (ds_peers m) p of
        None \<Rightarrow> m
      | Some d \<Rightarrow> m\<lparr>ds_peers := AList.update p (f d) (ds_peers m)\<rparr>)"

definition record_connection_success :: "nat \<Rightarrow> 'p \<Rightarrow> ('p, 'a) discovery \<Rightarrow> ('p, 'a) discovery" where
  "record_connection_success now p =
     modify_data p (\<lambda>d. update_last_seen now ((record_connection_attempt True d)\<lparr>pd_connected := True\<rparr>))"

definition record_connection_failure :: "'p \<Rightarrow> ('p, 'a) discovery \<Rightarrow> ('p, 'a) discovery" where
  "record_connection_failure p = modify_data p (record_connection_attempt False)"

type_synonym ('p, 'a) data_iter = "('p \<times> ('p, 'a) peer_data) list \<Rightarrow> ('p \<times> ('p, 'a) peer_data) list"

definition get_peers_to_connect :: "('p, 'a) data_iter \<Rightarrow> nat \<Rightarrow> ('p, 'a) discovery \<Rightarrow> 'p list" where
  "get_peers_to_connect iter now m =
     map fst (take (ds_max_peers m) (filter (\<lambda>(p, d). p \<notin> banned_peers m \<and> \<not> pd_connected d \<and> should_connect now d)
       (iter (ds_peers m))))"

definition get_trusted_peers :: "('p set \<Rightarrow> 'p list) \<Rightarrow> ('p, 'a) discovery \<Rightarrow> 'p list" where
  "get_trusted_peers enum m = enum (trusted_peers m)"

definition get_peer_reputation :: "'p \<Rightarrow> ('p, 'a) discovery \<Rightarrow> i32" where
  "get_peer_reputation p m = (case map_of (ds_peers m) p of None \<Rightarrow> DEFAULT_SCORE | Some d \<Rightarrow> reputation d)"

definition is_peer_banned :: "'p \<Rightarrow> ('p, 'a) discovery \<Rightarrow> bool" where
  "is_peer_banned p m \<longleftrightarrow> p \<in> banned_peers m"

definition get_peer_stats :: "'p \<Rightarrow> ('p, 'a) discovery \<Rightarrow> ('p, 'a) peer_data option" where
  "get_peer_stats p m = map_of (ds_peers m) p"

definition keep_peer :: "nat \<Rightarrow> ('p, 'a) peer_data \<Rightarrow> bool" where
  "keep_peer now d \<longleftrightarrow> first_discovered d > now - 7 * 24 * 3600 \<or> successful_connections d > 0
     \<or> score_is_trusted (reputation d)"

definition ds_cleanup_stale_peers :: "nat \<Rightarrow> ('p, 'a) discovery \<Rightarrow> ('p, 'a) discovery" where
  "ds_cleanup_stale_peers now m =
     (let dropped = fst ` set (filter (\<lambda>(p, d). \<not> keep_peer now d) (ds_peers m))
      in m\<lparr>ds_peers := filter (\<lambda>(p, d). keep_peer now d) (ds_peers m),
           trusted_peers := trusted_peers m - dropped, banned_peers := banned_peers m - dropped\<rparr>)"

text \<open>One round of the maintenance loop; the peers that it discovers are dropped.\<close>

definition start_maintenance :: "(nat \<Rightarrow> 'p \<times> 'p \<times> 'p) \<Rightarrow> nat \<Rightarrow> ('p, 'a) discovery \<Rightarrow> 'p list \<times> ('p, 'a) discovery" where
  "start_maintenance rnd now m =
     (let m = ds_cleanup_stale_peers now m in (discover_from_dns rnd m, m))"

definition add_bootstrap_peer_legacy :: "string \<Rightarrow> ('p, 'a) discovery \<Rightarrow> ('p, 'a) discovery" where
  "add_bootstrap_peer_legacy addr m = add_bootstrap_peer \<lparr>bp_address = addr, bp_peer_id = None\<rparr> m"

definition get_bootstrap_peers_legacy :: "('p, 'a) discovery \<Rightarrow> string list" where
  "get_bootstrap_peers_legacy m = get_bootstrap_addresses m"

text \<open>
  \<open>parse_multiaddr\<close> on ASCII text: the position of \<open>/p2p/\<close>, then from six characters on to the
  next slash. A slice that starts behind the end panics: \<open>Inl ()\<close>.
\<close>

fun find_sub :: "string \<Rightarrow> string \<Rightarrow> nat option" where
  "find_sub pat s =
     (if take (length pat) s = pat then Some 0
      else case s of [] \<Rightarrow> None | _ # s' \<Rightarrow> map_option Suc (find_sub pat s'))"

definition parse_multiaddr :: "string \<Rightarrow> unit + string option" where
  "parse_multiaddr addr =
     (case find_sub ''/p2p/'' addr of
        None \<Rightarrow> Inr None
      | Some p2p_pos \<Rightarrow>
          if p2p_pos + 6 > length addr then Inl ()
          else Inr (Some (takeWhile (\<lambda>c. c \<noteq> CHR ''/'') (drop (p2p_pos + 6) addr))))"

definition set_mdns_enabled :: "bool \<Rightarrow> ('p, 'a) discovery \<Rightarrow> ('p, 'a) discovery" where
  "set_mdns_enabled b m = m\<lparr>enable_mdns := b\<rparr>"

section \<open>Scores\<close>

abbreviation score_ok :: "i32 \<Rightarrow> bool" where
  "score_ok s \<equiv> - 1000 \<le> sint s \<and> sint s \<le> 1000"

text \<open>The changes that do not overflow: up to the distance of the bounds to the ends of \<open>i32\<close>.\<close>

abbreviation delta_ok :: "i32 \<Rightarrow> bool" where
  "delta_ok x \<equiv> \<bar>sint x\<bar> < 2 ^ 31 - 1000"

lemma score_consts [simp]:
  "sint MAX_SCORE = 1000" "sint MIN_SCORE = - 1000" "sint DEFAULT_SCORE = 0"
  by (simp_all add: MAX_SCORE_def MIN_SCORE_def DEFAULT_SCORE_def signed_of_int)

lemma sint_add_small:
  fixes s x :: i32
  assumes "\<bar>sint s + sint x\<bar> < 2 ^ 31"
  shows "sint (s + x) = sint s + sint x"
  using assms by (simp add: sint_word_add signed_take_bit_int_eq_self_iff) arith

lemma increase_value:
  assumes "score_ok s" and "0 \<le> sint x" and "delta_ok x"
  shows "sint (increase x s) = min (sint s + sint x) 1000"
proof -
  have "sint (s + x) = sint s + sint x"
    by (rule sint_add_small) (use assms in arith)
  then show ?thesis
    by (simp add: increase_def smin_def)
qed

lemma decrease_value:
  assumes "score_ok s" and "sint x \<le> 0" and "delta_ok x"
  shows "sint (decrease (- x) s) = max (sint s + sint x) (- 1000)"
proof -
  have "sint (s + x) = sint s + sint x"
    by (rule sint_add_small) (use assms in arith)
  then show ?thesis
    by (simp add: decrease_def smax_def)
qed

definition score_change :: "i32 \<Rightarrow> i32 \<Rightarrow> i32" where
  "score_change delta s = (if sint delta > 0 then increase delta s else decrease (- delta) s)"

lemma score_change_value:
  assumes "score_ok s" and "delta_ok x"
  shows "sint (score_change x s) = max (- 1000) (min 1000 (sint s + sint x))"
  using assms increase_value [of s x] decrease_value [of s x] by (auto simp: score_change_def)

lemma attempt_score_ok:
  assumes "score_ok (reputation d)"
  shows "score_ok (reputation (record_connection_attempt b d))"
  using assms increase_value [of "reputation d" 10] decrease_value [of "reputation d" "- 5"]
  by (simp add: record_connection_attempt_def Let_def signed_of_int)

lemma attempt_frame [simp]:
  "pd_connected (record_connection_attempt b d) = pd_connected d"
  "successful_connections (record_connection_attempt False d) = successful_connections d"
  by (simp_all add: record_connection_attempt_def Let_def)

section \<open>Steps\<close>

inductive discovery_step :: "('p, 'a) discovery \<Rightarrow> ('p, 'a) discovery \<Rightarrow> bool" where
  seed: "discovery_step m (add_dns_seed x m)"
| bootstrap: "discovery_step m (add_bootstrap_peer b m)"
| add: "discovery_step m (ds_add_peer now now' p addr m)"
| rate: "delta_ok delta \<Longrightarrow> discovery_step m (update_peer_reputation p delta m)"
| success: "discovery_step m (record_connection_success now p m)"
| failure: "discovery_step m (record_connection_failure p m)"
| cleanup: "discovery_step m (ds_cleanup_stale_peers now m)"
| mdns: "discovery_step m (set_mdns_enabled b m)"

text \<open>Scores are in range, and a peer with a counted success is marked as connected.\<close>

definition data_ok :: "('p, 'a) peer_data \<Rightarrow> bool" where
  "data_ok d \<longleftrightarrow> score_ok (reputation d) \<and> (successful_connections d \<noteq> 0 \<longrightarrow> pd_connected d)"

definition discovery_inv :: "('p, 'a) discovery \<Rightarrow> bool" where
  "discovery_inv m \<longleftrightarrow> hm_inv (ds_peers m) \<and> (\<forall>p d. map_of (ds_peers m) p = Some d \<longrightarrow> data_ok d)"

lemma modify_data_inv:
  assumes "discovery_inv m" and "\<And>d. data_ok d \<Longrightarrow> data_ok (f d)"
  shows "discovery_inv (modify_data p f m)"
  using assms by (auto simp: discovery_inv_def modify_data_def hm_inv_update map_of_hm_update split: option.split)

lemma update_peer_reputation_lookup:
  "map_of (ds_peers (update_peer_reputation p delta m)) q =
     (if q = p then map_option (\<lambda>d. d\<lparr>reputation := score_change delta (reputation d)\<rparr>) (map_of (ds_peers m) p)
      else map_of (ds_peers m) q)"
  by (simp add: update_peer_reputation_def Let_def map_of_hm_update score_change_def split: option.split)

lemma update_peer_reputation_inv:
  assumes "discovery_inv m" and "delta_ok delta"
  shows "discovery_inv (update_peer_reputation p delta m)"
proof -
  have "hm_inv (ds_peers (update_peer_reputation p delta m))"
    using assms(1) by (simp add: discovery_inv_def update_peer_reputation_def Let_def hm_inv_update
        split: option.split)
  moreover have "data_ok (d\<lparr>reputation := score_change delta (reputation d)\<rparr>)" if "data_ok d" for d
    using that score_change_value [of "reputation d" delta] assms(2) by (simp add: data_ok_def)
  ultimately show ?thesis
    using assms(1) by (auto simp: discovery_inv_def update_peer_reputation_lookup)
qed

lemma ds_cleanup_inv:
  assumes "discovery_inv m"
  shows "discovery_inv (ds_cleanup_stale_peers now m)"
proof -
  let ?P = "\<lambda>(p, d). keep_peer now d"
  have "data_ok d" if "map_of (filter ?P (ds_peers m)) p = Some d" for p d
    using map_of_SomeD [OF that] assms by (auto simp: discovery_inv_def hm_inv_def)
  moreover have "hm_inv (filter ?P (ds_peers m))"
    using assms by (simp add: discovery_inv_def hm_inv_def distinct_map_filter)
  ultimately show ?thesis
    by (simp add: discovery_inv_def ds_cleanup_stale_peers_def Let_def)
qed

lemma discovery_step_inv:
  assumes "discovery_step m m'" and "discovery_inv m"
  shows "discovery_inv m'"
  using assms
proof (induction rule: discovery_step.induct)
  case (add m now now' p addr)
  have "data_ok (peer_data_new now now' p addr)"
    by (simp add: data_ok_def peer_data_new_def)
  with add show ?case
    by (auto simp: discovery_inv_def ds_add_peer_def Let_def hm_inv_update map_of_hm_update data_ok_def
        split: option.split)
next
  case (success m now p)
  then show ?case
    unfolding record_connection_success_def
    by (rule modify_data_inv) (use attempt_score_ok in \<open>auto simp: data_ok_def update_last_seen_def\<close>)
next
  case (failure m p)
  then show ?case
    unfolding record_connection_failure_def
    by (rule modify_data_inv)
      (use attempt_score_ok in \<open>auto simp: data_ok_def\<close>)
next
  case (rate delta m p)
  then show ?case
    by (intro update_peer_reputation_inv)
next
  case (cleanup m now)
  then show ?case
    by (rule ds_cleanup_inv)
qed (simp_all add: discovery_inv_def add_dns_seed_def add_bootstrap_peer_def set_mdns_enabled_def)

lemma discovery_run_inv:
  assumes "discovery_step\<^sup>*\<^sup>* m m'" and "discovery_inv m"
  shows "discovery_inv m'"
  using assms by (induction rule: rtranclp_induct) (auto intro: discovery_step_inv)

lemma discovery_new_inv: "discovery_inv (discovery_new p)"
  by (simp add: discovery_inv_def discovery_new_def)

section \<open>Properties\<close>

text \<open>
  The manager never proposes a peer to connect to. A proposal needs a success rate over one
  tenth, so a counted success, and no open connection; but the only operation that counts
  a success marks the peer as connected, and nothing ever takes the mark away. So in every
  reachable state the list is empty, whatever peers were added.
\<close>

theorem discovery_never_connects:
  assumes "discovery_step\<^sup>*\<^sup>* (discovery_new self) m" and "set (iter (ds_peers m)) = set (ds_peers m)"
  shows "get_peers_to_connect iter now m = []"
proof -
  have inv: "discovery_inv m"
    by (rule discovery_run_inv [OF assms(1) discovery_new_inv])
  have "\<not> (\<not> pd_connected d \<and> should_connect now d)" if "(p, d) \<in> set (iter (ds_peers m))" for p d
  proof -
    have "map_of (ds_peers m) p = Some d"
      using that inv unfolding assms(2) by (simp add: discovery_inv_def hm_inv_def)
    with inv have "successful_connections d \<noteq> 0 \<longrightarrow> pd_connected d"
      by (simp add: discovery_inv_def data_ok_def)
    moreover have "0 \<le> fl (1 / 10)"
      by (rule f64.rnd_nonneg) simp
    then have "successful_connections d \<noteq> 0" if "should_connect now d"
      using that f64.rnd_0 by (auto simp: should_connect_def success_rate_def split: if_splits)
    ultimately show ?thesis
      by blast
  qed
  then have "filter (\<lambda>(p, d). p \<notin> banned_peers m \<and> \<not> pd_connected d \<and> should_connect now d) (iter (ds_peers m)) = []"
    by (auto simp: filter_empty_conv)
  then show ?thesis
    by (simp add: get_peers_to_connect_def)
qed

theorem discovery_never_connects_witness:
  "let m = record_connection_failure (1 :: nat) (ds_add_peer 5 5 1 ''a'' (discovery_new 0))
   in ds_peers m \<noteq> [] \<and> get_peers_to_connect id 6 m = []"
proof -
  let ?m1 = "ds_add_peer 5 5 1 ''a'' (discovery_new (0 :: nat))"
  have "discovery_step (discovery_new 0) ?m1" "discovery_step ?m1 (record_connection_failure 1 ?m1)"
    by (rule discovery_step.intros)+
  then have "discovery_step\<^sup>*\<^sup>* (discovery_new 0) (record_connection_failure 1 ?m1)"
    by (meson converse_rtranclp_into_rtranclp r_into_rtranclp)
  from discovery_never_connects [OF this, of id 6] show ?thesis
    by (simp add: Let_def) (simp add: record_connection_failure_def modify_data_def ds_add_peer_def Let_def
        discovery_new_def)
qed

text \<open>
  A change of reputation that does not overflow moves the score by its amount, cut off at
  -1000 and 1000, files the peer as trusted from 500 on and as banned from -500 down, and
  touches no other peer; in every reachable state all scores are in range.
\<close>

theorem reputation_in_range:
  assumes "discovery_step\<^sup>*\<^sup>* (discovery_new self) m" and "map_of (ds_peers m) p = Some d" and "delta_ok delta"
  shows "score_ok (reputation d)
    \<and> (let m' = update_peer_reputation p delta m; r = sint (get_peer_reputation p m')
       in r = max (- 1000) (min 1000 (sint (reputation d) + sint delta))
          \<and> (p \<in> trusted_peers m' \<longleftrightarrow> r \<ge> 500) \<and> (is_peer_banned p m' \<longleftrightarrow> r \<le> - 500)
          \<and> (q \<noteq> p \<longrightarrow> get_peer_stats q m' = get_peer_stats q m
              \<and> (q \<in> trusted_peers m' \<longleftrightarrow> q \<in> trusted_peers m) \<and> (is_peer_banned q m' \<longleftrightarrow> is_peer_banned q m)))"
proof -
  have "discovery_inv m"
    by (rule discovery_run_inv [OF assms(1) discovery_new_inv])
  with assms(2) have ok: "score_ok (reputation d)"
    by (simp add: discovery_inv_def data_ok_def)
  let ?m' = "update_peer_reputation p delta m" and ?r = "score_change delta (reputation d)"
  have r: "get_peer_reputation p ?m' = ?r"
    by (simp add: get_peer_reputation_def update_peer_reputation_lookup assms(2))
  have sets: "trusted_peers ?m' = (if score_is_trusted ?r then insert p (trusted_peers m) else trusted_peers m - {p})"
    "banned_peers ?m' = (if score_is_banned ?r then insert p (banned_peers m) else banned_peers m - {p})"
    by (simp_all add: update_peer_reputation_def assms(2) Let_def score_change_def)
  show ?thesis
    using ok score_change_value [OF ok assms(3)]
    by (auto simp: Let_def r sets is_peer_banned_def score_is_trusted_def score_is_banned_def
        get_peer_stats_def update_peer_reputation_lookup)
qed

theorem reputation_in_range_witness:
  "let m = update_peer_reputation (1 :: nat) (- 600) (ds_add_peer 5 5 1 ''a'' (discovery_new 0))
   in sint (get_peer_reputation 1 m) = - 600 \<and> is_peer_banned 1 m"
proof -
  let ?m1 = "ds_add_peer 5 5 1 ''a'' (discovery_new (0 :: nat))"
  have "discovery_step\<^sup>*\<^sup>* (discovery_new 0) ?m1"
    by (rule r_into_rtranclp) (rule discovery_step.add)
  moreover have "map_of (ds_peers ?m1) 1 = Some ((peer_data_new 5 5 1 ''a'')\<lparr>addresses := [''a'', ''a'']\<rparr>)"
    by (simp add: ds_add_peer_def discovery_new_def peer_data_new_def Let_def)
  ultimately show ?thesis
    using reputation_in_range [of 0 ?m1 1 _ "- 600" 2]
    by (simp add: Let_def peer_data_new_def signed_of_int)
qed

text \<open>
  \<open>parse_multiaddr\<close> skips six characters for the five of \<open>/p2p/\<close>: the peer id it returns has
  lost its first character, and an address that ends with \<open>/p2p/\<close> makes it panic.
\<close>

theorem parse_multiaddr_loses_first:
  assumes "find_sub ''/p2p/'' (pre @ ''/p2p/'' @ c # peer @ rest) = Some (length pre)"
    and "CHR ''/'' \<notin> set peer" and "rest = [] \<or> hd rest = CHR ''/''"
    and "find_sub ''/p2p/'' (pre @ ''/p2p/'') = Some (length pre)"
  shows "parse_multiaddr (pre @ ''/p2p/'' @ c # peer @ rest) = Inr (Some peer)
    \<and> parse_multiaddr (pre @ ''/p2p/'') = Inl ()"
proof -
  have "takeWhile (\<lambda>c. c \<noteq> CHR ''/'') (peer @ rest) = peer"
    using assms(2,3) by (cases rest) (auto simp: takeWhile_append takeWhile_eq_all_conv)
  then show ?thesis
    using assms(1,4) by (simp add: parse_multiaddr_def)
qed

theorem parse_multiaddr_loses_first_witness:
  "parse_multiaddr ''/ip4/1/p2p/QmA/x'' = Inr (Some ''mA'') \<and> parse_multiaddr ''/ip4/1/p2p/'' = Inl ()"
  using parse_multiaddr_loses_first [of "''/ip4/1''" "CHR ''Q''" "''mA''" "''/x''"] by simp

end
