(* ===== verification/Batch_Verification.thy ===== *)
theory Batch_Verification
  imports Block
begin

text \<open>
  Verification of signatures in batches: \<^verbatim>\<open>src/src/security/batch_verification.rs\<close>.

  \<open>kec\<close> is Keccak-256 and \<open>compact_ok\<close> tells whether 64 bytes are a compact signature, both external
  like the curve. The parallel map over the chunks keeps their order. Times are arguments. An
  empty chunk size makes \<open>chunks\<close> panic.
\<close>

section \<open>State\<close>

record verification_stats =
  total_verifications :: nat
  failed_verifications :: nat
  vs_total_time_ms :: u64

record batch_verifier =
  bv_stats :: verification_stats
  max_batch_size :: nat

record verification_result =
  valid_count :: nat
  invalid_count :: nat
  failed_signatures :: "nat list"
  vr_total_time_ms :: u64

record chunk_result =
  chunk_valid :: nat
  chunk_invalid :: nat
  chunk_failed :: "nat list"

datatype verify_error =
    BadLength | BadRecoveryId | BadSignature | BadRecoverable | BadRecovery | WrongFrom | NoSignature

datatype batch_error = InTx nat verify_error | ChunksPanic

section \<open>Operations\<close>

definition default_verification_stats :: verification_stats where
  "default_verification_stats = \<lparr>total_verifications = 0, failed_verifications = 0, vs_total_time_ms = 0\<rparr>"

definition batch_verifier_new :: "nat \<Rightarrow> batch_verifier" where
  "batch_verifier_new n = \<lparr>bv_stats = default_verification_stats, max_batch_size = n\<rparr>"

definition recover_public_key_from_tx ::
  "('sk, 'pk, 'rs) secp \<Rightarrow> (bytes \<Rightarrow> bool) \<Rightarrow> transaction \<Rightarrow> bytes \<Rightarrow> verify_error + 'pk" where
  "recover_public_key_from_tx k compact_ok tx m =
     (let d = sig_data (tx_signature tx) in
      if length d \<noteq> 65 then Inl BadLength
      else case recovery_id_from k (uint (d ! 64)) of
        None \<Rightarrow> Inl BadRecoveryId
      | Some recid \<Rightarrow>
          if \<not> compact_ok (take 64 d) then Inl BadSignature
          else case sig_from_compact k (take 64 d) recid of
            None \<Rightarrow> Inl BadRecoverable
          | Some rs \<Rightarrow> (case recover k m rs of None \<Rightarrow> Inl BadRecovery | Some pk \<Rightarrow> Inr pk))"

definition batch_address :: "(bytes \<Rightarrow> bytes) \<Rightarrow> ('sk, 'pk, 'rs) secp \<Rightarrow> 'pk \<Rightarrow> address" where
  "batch_address kec k pk = take 20 (drop 12 (kec (drop 1 (pk_serialize k pk))))"

definition check_one ::
  "(bytes \<Rightarrow> bytes) \<Rightarrow> (bytes \<Rightarrow> bytes) \<Rightarrow> ('sk, 'pk, 'rs) secp \<Rightarrow> (bytes \<Rightarrow> bool) \<Rightarrow> transaction \<Rightarrow> verify_error + 'pk" where
  "check_one sha kec k compact_ok tx =
     (case recover_public_key_from_tx k compact_ok tx (tx_hash sha tx) of
        Inl e \<Rightarrow> Inl e
      | Inr pk \<Rightarrow> if batch_address kec k pk \<noteq> tx_from tx then Inl WrongFrom else Inr pk)"

text \<open>\<open>collect::<Result<Vec<_>, _>>\<close>: the first error, or all keys with their indices.\<close>

fun prepare ::
  "(bytes \<Rightarrow> bytes) \<Rightarrow> (bytes \<Rightarrow> bytes) \<Rightarrow> ('sk, 'pk, 'rs) secp \<Rightarrow> (bytes \<Rightarrow> bool) \<Rightarrow> nat \<Rightarrow> transaction list
    \<Rightarrow> batch_error + (nat \<times> 'pk) list" where
  "prepare sha kec k compact_ok i [] = Inr []"
| "prepare sha kec k compact_ok i (tx # txs) =
     (case check_one sha kec k compact_ok tx of
        Inl e \<Rightarrow> Inl (InTx i e)
      | Inr pk \<Rightarrow> map_sum id (Cons (i, pk)) (prepare sha kec k compact_ok (Suc i) txs))"

function chunks :: "nat \<Rightarrow> 'a list \<Rightarrow> 'a list list" where
  "chunks n xs = (if n = 0 \<or> xs = [] then [] else take n xs # chunks n (drop n xs))"
  by pat_completeness auto
termination
  by (relation "measure (\<lambda>(n, xs). length xs)") auto

declare chunks.simps [simp del]

definition verify_batch_chunk :: "(nat \<times> 'pk) list \<Rightarrow> chunk_result" where
  "verify_batch_chunk batch = \<lparr>chunk_valid = length batch, chunk_invalid = 0, chunk_failed = []\<rparr>"

definition verify_transaction_batch ::
  "(bytes \<Rightarrow> bytes) \<Rightarrow> (bytes \<Rightarrow> bytes) \<Rightarrow> ('sk, 'pk, 'rs) secp \<Rightarrow> (bytes \<Rightarrow> bool) \<Rightarrow> u64 \<Rightarrow> transaction list
    \<Rightarrow> batch_verifier \<Rightarrow> (batch_error + verification_result) \<times> batch_verifier" where
  "verify_transaction_batch sha kec k compact_ok elapsed txs v =
     (if txs = []
      then (Inr \<lparr>valid_count = 0, invalid_count = 0, failed_signatures = [], vr_total_time_ms = 0\<rparr>, v)
      else case prepare sha kec k compact_ok 0 txs of
        Inl e \<Rightarrow> (Inl e, v)
      | Inr verification_data \<Rightarrow>
          if max_batch_size v = 0 then (Inl ChunksPanic, v)
          else let results = map verify_batch_chunk (chunks (max_batch_size v) verification_data);
                   valid = sum_list (map chunk_valid results);
                   invalid = sum_list (map chunk_invalid results);
                   st = bv_stats v
               in (Inr \<lparr>valid_count = valid, invalid_count = invalid,
                        failed_signatures = concat (map chunk_failed results), vr_total_time_ms = elapsed\<rparr>,
                   v\<lparr>bv_stats := \<lparr>total_verifications = total_verifications st + length txs,
                      failed_verifications = failed_verifications st + invalid,
                      vs_total_time_ms = vs_total_time_ms st + elapsed\<rparr>\<rparr>))"

definition verify_block_signatures ::
  "(bytes \<Rightarrow> bytes) \<Rightarrow> (bytes \<Rightarrow> bytes) \<Rightarrow> ('sk, 'pk, 'rs) secp \<Rightarrow> (bytes \<Rightarrow> bool) \<Rightarrow> u64 \<Rightarrow> block
    \<Rightarrow> batch_verifier \<Rightarrow> (batch_error + verification_result) \<times> batch_verifier" where
  "verify_block_signatures sha kec k compact_ok elapsed b v =
     verify_transaction_batch sha kec k compact_ok elapsed (transactions b) v"

definition verify_transaction ::
  "(bytes \<Rightarrow> bytes) \<Rightarrow> (bytes \<Rightarrow> bytes) \<Rightarrow> ('sk, 'pk, 'rs) secp \<Rightarrow> (bytes \<Rightarrow> bool) \<Rightarrow> u64 \<Rightarrow> transaction
    \<Rightarrow> batch_verifier \<Rightarrow> (batch_error + bool) \<times> batch_verifier" where
  "verify_transaction sha kec k compact_ok elapsed tx v =
     apfst (map_sum id (\<lambda>r. invalid_count r = 0)) (verify_transaction_batch sha kec k compact_ok elapsed [tx] v)"

definition reset_stats :: "batch_verifier \<Rightarrow> batch_verifier" where
  "reset_stats v = v\<lparr>bv_stats := default_verification_stats\<rparr>"

definition bv_get_stats :: "batch_verifier \<Rightarrow> verification_stats" where
  "bv_get_stats v = bv_stats v"

definition avg_time_per_tx_ms :: "verification_stats \<Rightarrow> rat" where
  "avg_time_per_tx_ms st =
     (if total_verifications st = 0 then 0
      else fl (fl (of_nat (unat (vs_total_time_ms st))) / fl (of_nat (total_verifications st))))"

definition failure_rate :: "verification_stats \<Rightarrow> rat" where
  "failure_rate st =
     (if total_verifications st = 0 then 0
      else fl (fl (of_nat (failed_verifications st)) / fl (of_nat (total_verifications st))))"

definition pre_verify_transaction :: "transaction \<Rightarrow> verify_error + unit" where
  "pre_verify_transaction tx =
     (if sig_data (tx_signature tx) = [] then Inl NoSignature
      else if length (sig_data (tx_signature tx)) \<noteq> 65 then Inl BadLength
      else Inr ())"

section \<open>Lemmas\<close>

lemma concat_chunks: "n \<noteq> 0 \<Longrightarrow> concat (chunks n xs) = xs"
  by (induction n xs rule: chunks.induct) (subst chunks.simps, simp)

lemma chunk_totals:
  assumes "n \<noteq> 0"
  shows "sum_list (map chunk_valid (map verify_batch_chunk (chunks n xs))) = length xs"
proof -
  have "sum_list (map chunk_valid (map verify_batch_chunk cs)) = length (concat cs)" for cs :: "(nat \<times> 'a) list list"
    by (induction cs) (simp_all add: verify_batch_chunk_def)
  then show ?thesis
    by (simp only: concat_chunks [OF assms])
qed

lemma no_chunk_fails:
  "sum_list (map chunk_invalid (map verify_batch_chunk cs)) = 0"
  "concat (map chunk_failed (map verify_batch_chunk cs)) = []"
  by (induction cs) (simp_all add: verify_batch_chunk_def)

abbreviation checks :: "(bytes \<Rightarrow> bytes) \<Rightarrow> (bytes \<Rightarrow> bytes) \<Rightarrow> ('sk, 'pk, 'rs) secp \<Rightarrow> (bytes \<Rightarrow> bool) \<Rightarrow> transaction \<Rightarrow> bool" where
  "checks sha kec k compact_ok tx \<equiv> \<not> isl (check_one sha kec k compact_ok tx)"

lemma prepare_all:
  "list_all (checks sha kec k compact_ok) txs \<Longrightarrow>
     \<exists>l. prepare sha kec k compact_ok i txs = Inr l \<and> length l = length txs"
proof (induction txs arbitrary: i)
  case (Cons tx txs)
  then obtain l where "prepare sha kec k compact_ok (Suc i) txs = Inr l" "length l = length txs"
    by fastforce
  with Cons.prems show ?case
    by (auto split: sum.splits)
qed simp

lemma prepare_first_failure:
  "\<not> list_all (checks sha kec k compact_ok) txs \<Longrightarrow>
     \<exists>j e. prepare sha kec k compact_ok i txs = Inl (InTx (i + j) e) \<and> j < length txs
       \<and> check_one sha kec k compact_ok (txs ! j) = Inl e \<and> list_all (checks sha kec k compact_ok) (take j txs)"
proof (induction txs arbitrary: i)
  case (Cons tx txs)
  show ?case
  proof (cases "check_one sha kec k compact_ok tx")
    case (Inl e)
    then show ?thesis
      by (intro exI [of _ 0] exI [of _ e]) simp
  next
    case (Inr pk)
    with Cons.prems have "\<not> list_all (checks sha kec k compact_ok) txs"
      by simp
    from Cons.IH [OF this, of "Suc i"] obtain j e where
      "prepare sha kec k compact_ok (Suc i) txs = Inl (InTx (Suc i + j) e)" "j < length txs"
      "check_one sha kec k compact_ok (txs ! j) = Inl e" "list_all (checks sha kec k compact_ok) (take j txs)"
      by blast
    with Inr show ?thesis
      by (intro exI [of _ "Suc j"] exI [of _ e]) simp
  qed
qed simp

lemma recover_agrees:
  assumes "verify_signature sha k tx = Inr pk" and "compact_ok (take 64 (sig_data (tx_signature tx)))"
    and "message_from_digest k (tx_hash sha tx) = Some (tx_hash sha tx)"
  shows "recover_public_key_from_tx k compact_ok tx (tx_hash sha tx) = Inr pk"
  using assms by (auto simp: verify_signature_def recover_public_key_from_tx_def Let_def
      split: if_splits option.splits)

section \<open>Properties\<close>

text \<open>
  A batch verifies all or nothing, whatever the size of the chunks: if every transaction passes,
  the result counts them all as valid; otherwise the first one that fails is reported with
  its index and its error, and nothing is counted. So no result ever has an invalid
  transaction, and the count of failed verifications of the statistics never moves.
\<close>

theorem batch_all_or_nothing:
  assumes "max_batch_size v \<noteq> 0" and "verify_transaction_batch sha kec k compact_ok elapsed txs v = (r, v')"
  shows "(if list_all (checks sha kec k compact_ok) txs
     then \<exists>t. r = Inr \<lparr>valid_count = length txs, invalid_count = 0, failed_signatures = [], vr_total_time_ms = t\<rparr>
        \<and> total_verifications (bv_stats v') = total_verifications (bv_stats v) + length txs
     else v' = v \<and> (\<exists>j e. r = Inl (InTx j e) \<and> j < length txs \<and> check_one sha kec k compact_ok (txs ! j) = Inl e
        \<and> list_all (checks sha kec k compact_ok) (take j txs)))
    \<and> failed_verifications (bv_stats v') = failed_verifications (bv_stats v)"
proof (cases "list_all (checks sha kec k compact_ok) txs")
  case True
  from prepare_all [OF this, of 0] obtain l where
    l: "prepare sha kec k compact_ok 0 txs = Inr l" "length l = length txs"
    by blast
  show ?thesis
    using assms(2) True
    by (cases "txs = []")
      (auto simp: verify_transaction_batch_def l assms(1) Let_def chunk_totals [OF assms(1)] no_chunk_fails
        simp del: map_map)
next
  case False
  from prepare_first_failure [OF this, of 0] obtain j e where
    f: "prepare sha kec k compact_ok 0 txs = Inl (InTx j e)" "j < length txs"
      "check_one sha kec k compact_ok (txs ! j) = Inl e" "list_all (checks sha kec k compact_ok) (take j txs)"
    by auto
  have "txs \<noteq> []"
    using f(2) by auto
  with assms(2) f(1) have "r = Inl (InTx j e)" "v' = v"
    by (simp_all add: verify_transaction_batch_def)
  with f False show ?thesis
    by auto
qed

theorem batch_all_or_nothing_witness:
  "\<exists>j e. fst (verify_transaction_batch sample_sha sample_sha sample_secp (\<lambda>_. True) 3
     [default_transfer] (batch_verifier_new 10)) = Inl (InTx j e)"
proof -
  have "\<not> list_all (checks sample_sha sample_sha sample_secp (\<lambda>_. True)) [default_transfer]"
    by (simp add: check_one_def recover_public_key_from_tx_def default_transfer_def new_transfer_def
        empty_signature_def Let_def)
  with batch_all_or_nothing [OF _ prod.collapse [symmetric], of "batch_verifier_new 10" sample_sha sample_sha
      sample_secp "\<lambda>_. True" "[default_transfer]" 3] show ?thesis
    by (auto simp: batch_verifier_new_def)
qed

text \<open>
  The batch verifier and \<open>validate_basic\<close> disagree about addresses: a transaction that
  \<open>validate_basic\<close> accepts passes the batch verifier exactly when the Keccak digest of its key
  gives the same address as the SHA-256 digest.
\<close>

theorem batch_disagrees_with_validation:
  assumes "tx_validate_basic sha k tx = Inr ()" and "verify_signature sha k tx = Inr pk"
    and "message_from_digest k (tx_hash sha tx) = Some (tx_hash sha tx)"
    and "compact_ok (take 64 (sig_data (tx_signature tx)))"
  shows "checks sha kec k compact_ok tx \<longleftrightarrow> batch_address kec k pk = address_of sha k pk"
proof -
  have "address_of sha k pk = tx_from tx"
    using assms(1,2) by (auto simp: tx_validate_basic_def split: if_splits)
  then show ?thesis
    using recover_agrees [of sha k tx pk compact_ok, OF assms(2,4,3)] by (simp add: check_one_def)
qed

theorem batch_disagrees_with_validation_witness:
  "let tx = (new_transfer (replicate 20 32) (replicate 20 1) 5 0 21 1)
       \<lparr>tx_signature := \<lparr>algorithm = Secp256k1, sig_data = replicate 65 1\<rparr>\<rparr>
   in tx_validate_basic sample_sha sample_secp tx = Inr ()
      \<and> \<not> checks sample_sha (\<lambda>_. replicate 32 9) sample_secp (\<lambda>_. True) tx"
proof -
  let ?tx = "(new_transfer (replicate 20 32) (replicate 20 1) 5 0 21 1)
      \<lparr>tx_signature := \<lparr>algorithm = Secp256k1, sig_data = replicate 65 1\<rparr>\<rparr>"
  have v: "verify_signature sample_sha sample_secp ?tx = Inr ()"
    by (simp add: verify_signature_def sample_secp_def Let_def)
  then have "tx_validate_basic sample_sha sample_secp ?tx = Inr ()"
    by (simp add: tx_validate_basic_def new_transfer_def address_of_def sample_sha_def sample_secp_def)
  moreover from batch_disagrees_with_validation [OF this v, of "\<lambda>_. True" "\<lambda>_. replicate 32 9"]
  have "\<not> checks sample_sha (\<lambda>_. replicate 32 9) sample_secp (\<lambda>_. True) ?tx"
    by (simp add: batch_address_def address_of_def sample_sha_def sample_secp_def)
  ultimately show ?thesis
    by (simp add: Let_def)
qed

end
