(* ===== verification/Rpc.thy ===== *)
theory Rpc
  imports Block_Dag Mempool Peers
begin

text \<open>
  The handlers of the RPC server: \<^verbatim>\<open>src/src/rpc/server.rs\<close>.

  The web framework that routes and decodes requests is external; a handler is a function of the
  decoded request and the shared state of the node. \<open>H\<close> holds the hexadecimal codec, and \<open>json\<close>
  the serialiser of transactions. A response body that repeats the request is left out of the
  response. \<open>now\<close> and \<open>now'\<close> are the clock readings of the mempool.
\<close>

section \<open>State and messages\<close>

record 'p rpc_state =
  rs_dag :: block_dag
  rs_mempool :: mempool
  rs_state :: state_manager
  rs_p2p :: "'p peer_manager option"

datatype status_code = BAD_REQUEST | NOT_FOUND | INTERNAL_SERVER_ERROR

record hex_codec =
  hex_enc :: "bytes \<Rightarrow> string"
  hex_dec :: "string \<Rightarrow> bytes option"

definition hex_codec_ok :: "hex_codec \<Rightarrow> bool" where
  "hex_codec_ok H \<longleftrightarrow> (\<forall>b. hex_dec H (hex_enc H b) = Some b)"

record balance_response =
  br_address :: string
  br_balance :: u64
  br_nonce :: u64

record block_response =
  bk_hash :: string
  bk_block :: "block option"

record transaction_response =
  tr_hash :: string
  tr_transaction :: "transaction option"

record dag_response =
  dr_tips :: "string list"
  dr_total_blocks :: nat
  dr_tips_count :: nat

record 'p node_info_response =
  ni_peer_id :: string
  ni_connected_peers :: "'p list"
  ni_mempool_size :: nat
  ni_dag_height :: nat

record deploy_contract_request =
  dq_from :: string
  dq_nonce :: u64
  dq_wasm_code :: string
  dq_init_args :: "string option"

record deploy_contract_response =
  dp_contract_address :: string
  dp_tx_hash :: string

record call_contract_request =
  cq_from :: string
  cq_nonce :: u64
  cq_contract_address :: string
  cq_method :: bytes
  cq_args :: "string option"

section \<open>Handlers\<close>

definition send_transaction ::
  "(bytes \<Rightarrow> bytes) \<Rightarrow> ('sk, 'pk, 'rs) secp \<Rightarrow> (tx_map \<Rightarrow> tx_map) \<Rightarrow> u64 \<Rightarrow> u64 \<Rightarrow> transaction
    \<Rightarrow> 'p rpc_state \<Rightarrow> (status_code + unit) \<times> 'p rpc_state" where
  "send_transaction sha k iter now now' tx rs =
     (case tx_validate_basic sha k tx of
        Inl _ \<Rightarrow> (Inl BAD_REQUEST, rs)
      | Inr _ \<Rightarrow>
          (case add_transaction sha iter (rs_state rs) now now' tx [] None (rs_mempool rs) of
             (Inl _, mp) \<Rightarrow> (Inl INTERNAL_SERVER_ERROR, rs\<lparr>rs_mempool := mp\<rparr>)
           | (Inr _, mp) \<Rightarrow> (Inr (), rs\<lparr>rs_mempool := mp\<rparr>)))"

definition parse_address :: "hex_codec \<Rightarrow> string \<Rightarrow> status_code + address" where
  "parse_address H s =
     (if take 3 s \<noteq> ''cyt'' then Inl BAD_REQUEST
      else case hex_dec H (drop 3 s) of
        None \<Rightarrow> Inl BAD_REQUEST
      | Some b \<Rightarrow> if length b \<noteq> 20 then Inl BAD_REQUEST else Inr b)"

definition rpc_get_balance :: "hex_codec \<Rightarrow> string \<Rightarrow> 'p rpc_state \<Rightarrow> status_code + balance_response" where
  "rpc_get_balance H address_str rs =
     (if take 3 address_str \<noteq> ''cyt'' then Inl BAD_REQUEST
      else case hex_dec H (drop 3 address_str) of
        None \<Rightarrow> Inl BAD_REQUEST
      | Some b \<Rightarrow>
          if length b = 20 then
            (case tree_get (state_tree (rs_state rs)) b of
               None \<Rightarrow> Inl NOT_FOUND
             | Some acc \<Rightarrow> Inr \<lparr>br_address = address_str, br_balance = acc_balance acc, br_nonce = acc_nonce acc\<rparr>)
          else Inl BAD_REQUEST)"

definition rpc_get_block :: "hex_codec \<Rightarrow> string \<Rightarrow> 'p rpc_state \<Rightarrow> status_code + block_response" where
  "rpc_get_block H hash_str rs =
     (case hex_dec H hash_str of
        None \<Rightarrow> Inl BAD_REQUEST
      | Some b \<Rightarrow> if length b = 32 then Inr \<lparr>bk_hash = hash_str, bk_block = dag_get_block (rs_dag rs) b\<rparr> else Inl BAD_REQUEST)"

definition find_in_blocks :: "(bytes \<Rightarrow> bytes) \<Rightarrow> tx_id \<Rightarrow> block list \<Rightarrow> transaction option" where
  "find_in_blocks sha h bs = find (\<lambda>tx. tx_hash sha tx = h) (concat (map transactions bs))"

definition rpc_get_transaction ::
  "(bytes \<Rightarrow> bytes) \<Rightarrow> hex_codec \<Rightarrow> string \<Rightarrow> 'p rpc_state \<Rightarrow> status_code + transaction_response" where
  "rpc_get_transaction sha H hash_str rs =
     (case hex_dec H hash_str of
        None \<Rightarrow> Inl BAD_REQUEST
      | Some h \<Rightarrow>
          if length h = 32 then
            (case map_of (mp_transactions (rs_mempool rs)) h of
               Some mt \<Rightarrow> Inr \<lparr>tr_hash = hash_str, tr_transaction = Some (mt_transaction mt)\<rparr>
             | None \<Rightarrow> Inr \<lparr>tr_hash = hash_str,
                 tr_transaction = find_in_blocks sha h (map snd (dag_store (rs_dag rs)))\<rparr>)
          else Inl BAD_REQUEST)"

definition get_dag_info :: "(block_hash set \<Rightarrow> block_hash list) \<Rightarrow> hex_codec \<Rightarrow> 'p rpc_state \<Rightarrow> dag_response" where
  "get_dag_info enum H rs =
     (let ts = map (hex_enc H) (get_tips enum (dag_idx (rs_dag rs)))
      in \<lparr>dr_tips = ts, dr_total_blocks = length (dag_store (rs_dag rs)), dr_tips_count = length ts\<rparr>)"

definition get_node_info :: "'p peer_iter \<Rightarrow> 'p rpc_state \<Rightarrow> 'p node_info_response" where
  "get_node_info iter rs =
     \<lparr>ni_peer_id = ''unknown'',
      ni_connected_peers = (case rs_p2p rs of None \<Rightarrow> [] | Some pm \<Rightarrow> get_connected_peers iter pm),
      ni_mempool_size = tx_count (rs_mempool rs), ni_dag_height = dag_block_count (rs_dag rs)\<rparr>"

text \<open>Optional hexadecimal arguments; undecodable ones count as empty.\<close>

definition decode_args :: "hex_codec \<Rightarrow> string option \<Rightarrow> bytes" where
  "decode_args H a = (case a of None \<Rightarrow> [] | Some s \<Rightarrow> (case hex_dec H s of None \<Rightarrow> [] | Some b \<Rightarrow> b))"

definition rpc_deploy_contract ::
  "(bytes \<Rightarrow> bytes) \<Rightarrow> (tx_map \<Rightarrow> tx_map) \<Rightarrow> hex_codec \<Rightarrow> (transaction \<Rightarrow> bytes option) \<Rightarrow> u64 \<Rightarrow> u64
    \<Rightarrow> deploy_contract_request \<Rightarrow> 'p rpc_state
    \<Rightarrow> (status_code + deploy_contract_response) \<times> 'p rpc_state" where
  "rpc_deploy_contract sha iter H json now now' rq rs =
     (case hex_dec H (dq_wasm_code rq) of
        None \<Rightarrow> (Inl BAD_REQUEST, rs)
      | Some wasm_code \<Rightarrow>
          (case parse_address H (dq_from rq) of
             Inl e \<Rightarrow> (Inl e, rs)
           | Inr from \<Rightarrow>
               let tx = new_deploy from wasm_code (decode_args H (dq_init_args rq)) (dq_nonce rq) 1000000 1 in
               case add_transaction sha iter (rs_state rs) now now' tx [] None (rs_mempool rs) of
                 (Inl _, mp) \<Rightarrow> (Inl INTERNAL_SERVER_ERROR, rs\<lparr>rs_mempool := mp\<rparr>)
               | (Inr _, mp) \<Rightarrow>
                   let digest = sha (case json tx of None \<Rightarrow> [] | Some d \<Rightarrow> d)
                   in (Inr \<lparr>dp_contract_address = ''cyt'' @ hex_enc H (take 20 digest), dp_tx_hash = hex_enc H digest\<rparr>,
                       rs\<lparr>rs_mempool := mp\<rparr>)))"

definition rpc_call_contract ::
  "(bytes \<Rightarrow> bytes) \<Rightarrow> (tx_map \<Rightarrow> tx_map) \<Rightarrow> hex_codec \<Rightarrow> u64 \<Rightarrow> u64 \<Rightarrow> call_contract_request
    \<Rightarrow> 'p rpc_state \<Rightarrow> (status_code + unit) \<times> 'p rpc_state" where
  "rpc_call_contract sha iter H now now' rq rs =
     (case parse_address H (cq_contract_address rq) of
        Inl e \<Rightarrow> (Inl e, rs)
      | Inr contract \<Rightarrow>
          (case parse_address H (cq_from rq) of
             Inl e \<Rightarrow> (Inl e, rs)
           | Inr from \<Rightarrow>
               let tx = new_call from contract (cq_method rq) (decode_args H (cq_args rq)) (cq_nonce rq) 1000000 1 in
               case add_transaction sha iter (rs_state rs) now now' tx [] None (rs_mempool rs) of
                 (Inl _, mp) \<Rightarrow> (Inl INTERNAL_SERVER_ERROR, rs\<lparr>rs_mempool := mp\<rparr>)
               | (Inr _, mp) \<Rightarrow> (Inr (), rs\<lparr>rs_mempool := mp\<rparr>)))"

section \<open>Lemmas\<close>

text \<open>The mempool takes no transaction without a signature, and only eviction can have happened.\<close>

lemma unsigned_never_added:
  assumes "sig_data (tx_signature tx) = []"
  shows "\<exists>e mp'. add_transaction sha iter st now now' tx ps None mp = (Inl e, mp')
    \<and> (mp' = mp \<or> (\<exists>h. mp' = mp\<lparr>mp_transactions := AList.delete h (mp_transactions mp)\<rparr>
         \<and> max_size mp \<le> tx_count mp))"
proof (cases "make_room iter tx mp")
  case None
  then show ?thesis
    by (simp add: add_transaction_def)
next
  case (Some txs)
  then have "txs = mp_transactions mp \<or> (\<exists>h. txs = AList.delete h (mp_transactions mp) \<and> max_size mp \<le> tx_count mp)"
    by (auto simp: make_room_def Let_def tx_count_def split: if_splits option.splits)
  with Some assms show ?thesis
    by (auto simp: add_transaction_def Let_def)
qed

lemma add_transaction_stores:
  assumes "add_transaction sha iter st now now' tx [] None mp = (Inr (), mp')"
  shows "map_of (mp_transactions mp') (tx_hash sha tx) = Some (mempool_tx_new tx [] now')"
  using assms by (auto simp: add_transaction_def Let_def insert_tx_def map_of_hm_update mempool_tx_new_def
      split: option.splits if_splits)

lemma parse_address_roundtrip:
  assumes "hex_codec_ok H" and "length a = 20"
  shows "parse_address H (''cyt'' @ hex_enc H a) = Inr a"
  using assms by (simp add: parse_address_def hex_codec_ok_def)

abbreviation only_evicts :: "mempool \<Rightarrow> mempool \<Rightarrow> bool" where
  "only_evicts mp mp' \<equiv> mp' = mp \<or> max_size mp \<le> tx_count mp"

lemma unsigned_only_evicts:
  assumes "sig_data (tx_signature tx) = []"
  shows "\<exists>e mp'. add_transaction sha iter st now now' tx ps None mp = (Inl e, mp') \<and> only_evicts mp mp'"
  using unsigned_never_added [OF assms, of sha iter st now now' ps mp] by auto

lemma deploy_refused:
  "\<exists>e mp'. rpc_deploy_contract sha iter H json now now' rq rs = (Inl e, rs\<lparr>rs_mempool := mp'\<rparr>)
     \<and> only_evicts (rs_mempool rs) mp'"
proof (cases "\<exists>w from. hex_dec H (dq_wasm_code rq) = Some w \<and> parse_address H (dq_from rq) = Inr from")
  case True
  then obtain w a where p: "hex_dec H (dq_wasm_code rq) = Some w" "parse_address H (dq_from rq) = Inr a"
    by blast
  let ?tx = "new_deploy a w (decode_args H (dq_init_args rq)) (dq_nonce rq) 1000000 1"
  obtain e mp' where "add_transaction sha iter (rs_state rs) now now' ?tx [] None (rs_mempool rs) = (Inl e, mp')"
    and "only_evicts (rs_mempool rs) mp'"
    using unsigned_only_evicts [of ?tx sha iter "rs_state rs" now now' "[]" "rs_mempool rs"]
    by (auto simp: new_deploy_def empty_signature_def)
  then show ?thesis
    by (auto simp: rpc_deploy_contract_def p Let_def)
next
  case False
  then show ?thesis
    by (intro exI [of _ "BAD_REQUEST"] exI [of _ "rs_mempool rs"])
      (auto simp: rpc_deploy_contract_def parse_address_def split: option.splits sum.splits if_splits)
qed

lemma call_refused:
  "\<exists>e mp'. rpc_call_contract sha iter H now now' rq rs = (Inl e, rs\<lparr>rs_mempool := mp'\<rparr>)
     \<and> only_evicts (rs_mempool rs) mp'"
proof (cases "\<exists>c from. parse_address H (cq_contract_address rq) = Inr c \<and> parse_address H (cq_from rq) = Inr from")
  case True
  then obtain c a where p: "parse_address H (cq_contract_address rq) = Inr c" "parse_address H (cq_from rq) = Inr a"
    by blast
  let ?tx = "new_call a c (cq_method rq) (decode_args H (cq_args rq)) (cq_nonce rq) 1000000 1"
  obtain e mp' where "add_transaction sha iter (rs_state rs) now now' ?tx [] None (rs_mempool rs) = (Inl e, mp')"
    and "only_evicts (rs_mempool rs) mp'"
    using unsigned_only_evicts [of ?tx sha iter "rs_state rs" now now' "[]" "rs_mempool rs"]
    by (auto simp: new_call_def empty_signature_def)
  then show ?thesis
    by (auto simp: rpc_call_contract_def p Let_def)
next
  case False
  then show ?thesis
    by (intro exI [of _ "BAD_REQUEST"] exI [of _ "rs_mempool rs"])
      (auto simp: rpc_call_contract_def parse_address_def split: option.splits sum.splits if_splits)
qed

lemma submitted_lookup:
  assumes "hex_codec_ok H" and "sha_len sha"
    and "send_transaction sha k iter now now' tx rs = (Inr (), rs')"
  shows "tx_validate_basic sha k tx = Inr ()
    \<and> rpc_get_transaction sha H (hex_enc H (tx_hash sha tx)) rs'
        = Inr \<lparr>tr_hash = hex_enc H (tx_hash sha tx), tr_transaction = Some tx\<rparr>
    \<and> rs_dag rs' = rs_dag rs \<and> rs_state rs' = rs_state rs"
proof -
  obtain mp where a: "add_transaction sha iter (rs_state rs) now now' tx [] None (rs_mempool rs) = (Inr (), mp)"
    and v: "tx_validate_basic sha k tx = Inr ()" and rs': "rs' = rs\<lparr>rs_mempool := mp\<rparr>"
    using assms(3) by (auto simp: send_transaction_def split: sum.splits prod.splits)
  show ?thesis
    using add_transaction_stores [OF a] v assms(1,2)
    by (simp add: rs' rpc_get_transaction_def hex_codec_ok_def tx_hash_length mempool_tx_new_def)
qed

section \<open>Properties\<close>

text \<open>
  The contract endpoints never work: they build a transaction without a signature, which the
  mempool refuses, so every deployment and every call is answered with an error, whoever
  sends it. The request still costs something: at a full pool it can push one entry out.
\<close>

theorem rpc_contracts_always_refused:
  "(\<exists>e mp'. rpc_deploy_contract sha iter H json now now' rq rs = (Inl e, rs\<lparr>rs_mempool := mp'\<rparr>)
      \<and> (mp' = rs_mempool rs \<or> max_size (rs_mempool rs) \<le> tx_count (rs_mempool rs)))
   \<and> (\<exists>e mp'. rpc_call_contract sha iter H now now' crq rs = (Inl e, rs\<lparr>rs_mempool := mp'\<rparr>)
      \<and> (mp' = rs_mempool rs \<or> max_size (rs_mempool rs) \<le> tx_count (rs_mempool rs)))"
  using deploy_refused [of sha iter H json now now' rq rs] call_refused [of sha iter H now now' crq rs]
  by blast

text \<open>
  A transaction that \<open>send_tx\<close> accepts is valid and can be looked up: \<open>tx\<close> with its hash
  returns it, unchanged, from the mempool.
\<close>

theorem rpc_submit_then_lookup:
  assumes "hex_codec_ok H" and "sha_len sha"
    and "send_transaction sha k iter now now' tx rs = (Inr (), rs')"
  shows "tx_validate_basic sha k tx = Inr ()
    \<and> rpc_get_transaction sha H (hex_enc H (tx_hash sha tx)) rs'
        = Inr \<lparr>tr_hash = hex_enc H (tx_hash sha tx), tr_transaction = Some tx\<rparr>
    \<and> rs_dag rs' = rs_dag rs \<and> rs_state rs' = rs_state rs"
  using assms by (rule submitted_lookup)

definition char_hex :: hex_codec where
  "char_hex = \<lparr>hex_enc = map (\<lambda>x. char_of (unat x)), hex_dec = (\<lambda>s. Some (map (\<lambda>c. of_nat (of_char c)) s))\<rparr>"

lemma char_hex_ok: "hex_codec_ok char_hex"
proof -
  have "of_nat (of_char (char_of (unat x) :: char)) = x" for x :: u8
    using unat_bound [of x] by (simp add: of_char_of)
  then show ?thesis
    by (simp add: hex_codec_ok_def char_hex_def map_idI)
qed

theorem rpc_submit_then_lookup_witness:
  "let tx = genesis_transfer (replicate 20 3);
       rs = \<lparr>rs_dag = block_dag_new [], rs_mempool = mempool_new 2 1, rs_state = sample_state, rs_p2p = None\<rparr>
   in rpc_get_transaction ones_sha char_hex (hex_enc char_hex (tx_hash ones_sha tx))
        (snd (send_transaction ones_sha sample_secp id 7 7 tx rs))
      = Inr \<lparr>tr_hash = hex_enc char_hex (tx_hash ones_sha tx), tr_transaction = Some tx\<rparr>"
proof -
  let ?tx = "genesis_transfer (replicate 20 3)"
  let ?rs = "\<lparr>rs_dag = block_dag_new [], rs_mempool = mempool_new 2 1, rs_state = sample_state, rs_p2p = None\<rparr>"
  have "fst (send_transaction ones_sha sample_secp id 7 7 ?tx ?rs) = Inr ()"
    using genesis_transfer_valid [of "replicate 20 3"] sample_state_balance
    by (simp add: send_transaction_def add_transaction_def Let_def make_room_def mempool_new_def
        genesis_transfer_def new_transfer_def)
  then have "send_transaction ones_sha sample_secp id 7 7 ?tx ?rs =
      (Inr (), snd (send_transaction ones_sha sample_secp id 7 7 ?tx ?rs))"
    by (metis prod.collapse)
  moreover have "sha_len ones_sha"
    by (simp add: sha_len_def ones_sha_def)
  ultimately show ?thesis
    using rpc_submit_then_lookup [OF char_hex_ok] unfolding Let_def by blast
qed

end
