(* ===== verification/Wallet.thy ===== *)
theory Wallet
  imports Transaction
begin

text \<open>
  Wallets and the client side of transactions: \<^verbatim>\<open>src/src/wallet/wallet.rs\<close> and, of the SDK,
  \<^verbatim>\<open>crypto.rs\<close>, \<^verbatim>\<open>wallet.rs\<close> and \<^verbatim>\<open>transaction.rs\<close> under \<^verbatim>\<open>src/sdk/rust/src/\<close>.

  The curve and the digest are the parameters of \<open>Transaction\<close>; \<open>B\<close> converts secret keys to
  bytes and back, \<open>hex\<close> is the hexadecimal encoding. The random key that a new wallet draws is an
  argument. An index behind the end of a slice panics: \<open>WalletPanic\<close>.
\<close>

section \<open>Data\<close>

record ('sk, 'pk) wallet =
  wl_private_key :: 'sk
  wl_public_key :: 'pk
  wl_address :: string

datatype wallet_error =
    WalletPanic | WalletInvalidMessage | WalletInvalidRecoveryId | WalletInvalidSignature | WalletRecoveryFailed
  | SecretNot32 | InvalidSecret | SignatureNot65 | MissingFrom | MissingPayload | SignFailed tx_error

record 'sk key_bytes =
  key_of_bytes :: "bytes \<Rightarrow> 'sk option"
  bytes_of_key :: "'sk \<Rightarrow> bytes"

definition key_bytes_ok :: "'sk key_bytes \<Rightarrow> bool" where
  "key_bytes_ok B \<longleftrightarrow> (\<forall>sk. length (bytes_of_key B sk) = 32 \<and> key_of_bytes B (bytes_of_key B sk) = Some sk)"

section \<open>The wallet of the node\<close>

definition public_key_to_address ::
  "(bytes \<Rightarrow> bytes) \<Rightarrow> (bytes \<Rightarrow> string) \<Rightarrow> ('sk, 'pk, 'rs) secp \<Rightarrow> 'pk \<Rightarrow> string" where
  "public_key_to_address sha hex k pk = ''cyt'' @ hex (take 20 (sha (pk_serialize k pk)))"

definition from_private_key ::
  "(bytes \<Rightarrow> bytes) \<Rightarrow> (bytes \<Rightarrow> string) \<Rightarrow> ('sk, 'pk, 'rs) secp \<Rightarrow> 'sk \<Rightarrow> ('sk, 'pk) wallet" where
  "from_private_key sha hex k sk =
     \<lparr>wl_private_key = sk, wl_public_key = public_key k sk,
      wl_address = public_key_to_address sha hex k (public_key k sk)\<rparr>"

definition wallet_new ::
  "(bytes \<Rightarrow> bytes) \<Rightarrow> (bytes \<Rightarrow> string) \<Rightarrow> ('sk, 'pk, 'rs) secp \<Rightarrow> 'sk key_bytes \<Rightarrow> bytes
    \<Rightarrow> wallet_error + ('sk, 'pk) wallet" where
  "wallet_new sha hex k B secret_bytes =
     (case key_of_bytes B secret_bytes of
        None \<Rightarrow> Inl WalletPanic
      | Some sk \<Rightarrow> Inr (from_private_key sha hex k sk))"

text \<open>Signing and recovering on a digest, the part that the wallets share.\<close>

definition sign_digest ::
  "('sk, 'pk, 'rs) secp \<Rightarrow> 'sk \<Rightarrow> bytes \<Rightarrow> wallet_error + bytes" where
  "sign_digest k sk digest =
     (case message_from_digest k digest of
        None \<Rightarrow> Inl WalletInvalidMessage
      | Some m \<Rightarrow>
          (let (recid, sig_bytes) = sig_to_compact k (sign_recoverable k m sk)
           in Inr (sig_bytes @ [word_of_int recid])))"

definition recover_digest ::
  "('sk, 'pk, 'rs) secp \<Rightarrow> bytes \<Rightarrow> bytes \<Rightarrow> wallet_error + 'pk" where
  "recover_digest k digest sig =
     (case message_from_digest k digest of
        None \<Rightarrow> Inl WalletInvalidMessage
      | Some m \<Rightarrow>
          if length sig \<le> 64 then Inl WalletPanic
          else case recovery_id_from k (uint (sig ! 64)) of
            None \<Rightarrow> Inl WalletInvalidRecoveryId
          | Some recid \<Rightarrow>
              (case sig_from_compact k (take 64 sig) recid of
                 None \<Rightarrow> Inl WalletInvalidSignature
               | Some rs \<Rightarrow>
                   (case recover k m rs of None \<Rightarrow> Inl WalletRecoveryFailed | Some pk \<Rightarrow> Inr pk)))"

definition sign_message ::
  "(bytes \<Rightarrow> bytes) \<Rightarrow> ('sk, 'pk, 'rs) secp \<Rightarrow> ('sk, 'pk) wallet \<Rightarrow> bytes \<Rightarrow> wallet_error + bytes" where
  "sign_message sha k w message = sign_digest k (wl_private_key w) (sha message)"

definition wallet_verify_signature ::
  "(bytes \<Rightarrow> bytes) \<Rightarrow> ('sk, 'pk, 'rs) secp \<Rightarrow> ('sk, 'pk) wallet \<Rightarrow> bytes \<Rightarrow> bytes \<Rightarrow> wallet_error + bool" where
  "wallet_verify_signature sha k w message sig =
     map_sum id (\<lambda>pk. pk = wl_public_key w) (recover_digest k (sha message) sig)"

section \<open>The wallet of the SDK\<close>

record ('sk, 'pk) keypair =
  kp_secret :: 'sk
  kp_public :: 'pk

definition keypair_of :: "('sk, 'pk, 'rs) secp \<Rightarrow> 'sk \<Rightarrow> ('sk, 'pk) keypair" where
  "keypair_of k sk = \<lparr>kp_secret = sk, kp_public = public_key k sk\<rparr>"

definition from_secret_bytes ::
  "('sk, 'pk, 'rs) secp \<Rightarrow> 'sk key_bytes \<Rightarrow> bytes \<Rightarrow> wallet_error + ('sk, 'pk) keypair" where
  "from_secret_bytes k B bs =
     (if length bs \<noteq> 32 then Inl SecretNot32
      else case key_of_bytes B bs of
        None \<Rightarrow> Inl InvalidSecret
      | Some sk \<Rightarrow> Inr (keypair_of k sk))"

definition derive_address :: "(bytes \<Rightarrow> bytes) \<Rightarrow> ('sk, 'pk, 'rs) secp \<Rightarrow> ('sk, 'pk) keypair \<Rightarrow> address" where
  "derive_address sha k kp = take 20 (drop 12 (sha (drop 1 (pk_serialize k (kp_public kp)))))"

definition keypair_sign ::
  "(bytes \<Rightarrow> bytes) \<Rightarrow> ('sk, 'pk, 'rs) secp \<Rightarrow> ('sk, 'pk) keypair \<Rightarrow> bytes \<Rightarrow> wallet_error + bytes" where
  "keypair_sign sha k kp data = sign_digest k (kp_secret kp) (sha data)"

definition keypair_verify ::
  "(bytes \<Rightarrow> bytes) \<Rightarrow> ('sk, 'pk, 'rs) secp \<Rightarrow> ('sk, 'pk) keypair \<Rightarrow> bytes \<Rightarrow> bytes \<Rightarrow> wallet_error + bool" where
  "keypair_verify sha k kp data sig =
     (if length sig \<noteq> 65 then Inl SignatureNot65
      else map_sum id (\<lambda>pk. pk = kp_public kp) (recover_digest k (sha data) sig))"

record sdk_wallet =
  sw_secret_key :: bytes
  sw_public_key :: bytes
  sw_address :: address

definition sdk_wallet_of ::
  "(bytes \<Rightarrow> bytes) \<Rightarrow> ('sk, 'pk, 'rs) secp \<Rightarrow> 'sk key_bytes \<Rightarrow> ('sk, 'pk) keypair \<Rightarrow> sdk_wallet" where
  "sdk_wallet_of sha k B kp =
     \<lparr>sw_secret_key = bytes_of_key B (kp_secret kp), sw_public_key = pk_serialize k (kp_public kp),
      sw_address = derive_address sha k kp\<rparr>"

text \<open>\<open>create_wallet\<close>, given the key that is drawn, and \<open>import_private_key\<close>.\<close>

definition create_wallet ::
  "(bytes \<Rightarrow> bytes) \<Rightarrow> ('sk, 'pk, 'rs) secp \<Rightarrow> 'sk key_bytes \<Rightarrow> 'sk \<Rightarrow> sdk_wallet" where
  "create_wallet sha k B sk = sdk_wallet_of sha k B (keypair_of k sk)"

definition import_private_key ::
  "(bytes \<Rightarrow> bytes) \<Rightarrow> ('sk, 'pk, 'rs) secp \<Rightarrow> 'sk key_bytes \<Rightarrow> bytes \<Rightarrow> wallet_error + sdk_wallet" where
  "import_private_key sha k B bs = map_sum id (sdk_wallet_of sha k B) (from_secret_bytes k B bs)"

definition export_private_key_hex :: "(bytes \<Rightarrow> string) \<Rightarrow> sdk_wallet \<Rightarrow> string" where
  "export_private_key_hex hex w = hex (sw_secret_key w)"

definition sign_transaction ::
  "(bytes \<Rightarrow> bytes) \<Rightarrow> ('sk, 'pk, 'rs) secp \<Rightarrow> 'sk key_bytes \<Rightarrow> sdk_wallet \<Rightarrow> transaction
    \<Rightarrow> wallet_error + transaction" where
  "sign_transaction sha k B w tx =
     (case from_secret_bytes k B (sw_secret_key w) of
        Inl e \<Rightarrow> Inl e
      | Inr kp \<Rightarrow> map_sum SignFailed id (sign sha k (kp_secret kp) tx))"

section \<open>The transaction builder\<close>

record transaction_builder =
  tb_from :: "address option"
  tb_payload :: "tx_payload option"
  tb_nonce :: "u64 option"
  tb_gas_limit :: "u64 option"
  tb_gas_price :: "u64 option"

definition builder_new :: transaction_builder where
  "builder_new = \<lparr>tb_from = None, tb_payload = None, tb_nonce = None, tb_gas_limit = None, tb_gas_price = None\<rparr>"

definition with_from :: "address \<Rightarrow> transaction_builder \<Rightarrow> transaction_builder" where
  "with_from a tb = tb\<lparr>tb_from := Some a\<rparr>"

definition with_transfer :: "address \<Rightarrow> u64 \<Rightarrow> transaction_builder \<Rightarrow> transaction_builder" where
  "with_transfer to amount tb = tb\<lparr>tb_payload := Some (Transfer to amount)\<rparr>"

definition with_deploy :: "bytes \<Rightarrow> bytes \<Rightarrow> transaction_builder \<Rightarrow> transaction_builder" where
  "with_deploy code args tb = tb\<lparr>tb_payload := Some (ContractDeploy code args)\<rparr>"

definition with_call :: "address \<Rightarrow> bytes \<Rightarrow> bytes \<Rightarrow> transaction_builder \<Rightarrow> transaction_builder" where
  "with_call contract method args tb = tb\<lparr>tb_payload := Some (ContractCall contract method args)\<rparr>"

definition with_tx_nonce :: "u64 \<Rightarrow> transaction_builder \<Rightarrow> transaction_builder" where
  "with_tx_nonce n tb = tb\<lparr>tb_nonce := Some n\<rparr>"

definition with_gas_limit :: "u64 \<Rightarrow> transaction_builder \<Rightarrow> transaction_builder" where
  "with_gas_limit n tb = tb\<lparr>tb_gas_limit := Some n\<rparr>"

definition with_gas_price :: "u64 \<Rightarrow> transaction_builder \<Rightarrow> transaction_builder" where
  "with_gas_price n tb = tb\<lparr>tb_gas_price := Some n\<rparr>"

definition unwrap_or :: "'a \<Rightarrow> 'a option \<Rightarrow> 'a" where
  "unwrap_or d x = (case x of None \<Rightarrow> d | Some y \<Rightarrow> y)"

definition build :: "transaction_builder \<Rightarrow> wallet_error + transaction" where
  "build tb =
     (case tb_from tb of
        None \<Rightarrow> Inl MissingFrom
      | Some from \<Rightarrow>
          (case tb_payload tb of
             None \<Rightarrow> Inl MissingPayload
           | Some p \<Rightarrow>
               let nonce = unwrap_or 0 (tb_nonce tb);
                   limit = unwrap_or 21000 (tb_gas_limit tb);
                   price = unwrap_or 1 (tb_gas_price tb)
               in Inr (case p of
                    Transfer to amount \<Rightarrow> new_transfer from to amount nonce limit price
                  | ContractDeploy code args \<Rightarrow> new_deploy from code args nonce limit price
                  | ContractCall contract method args \<Rightarrow> new_call from contract method args nonce limit price)))"

definition build_and_sign ::
  "(bytes \<Rightarrow> bytes) \<Rightarrow> ('sk, 'pk, 'rs) secp \<Rightarrow> 'sk key_bytes \<Rightarrow> sdk_wallet \<Rightarrow> transaction_builder
    \<Rightarrow> wallet_error + transaction" where
  "build_and_sign sha k B w tb =
     (case build tb of
        Inl e \<Rightarrow> Inl e
      | Inr tx \<Rightarrow> sign_transaction sha k B w tx)"

section \<open>Lemmas\<close>

lemma recover_signed:
  assumes "secp_ok k" and "length digest = 32"
  shows "\<exists>sig. sign_digest k sk digest = Inr sig \<and> length sig = 65
    \<and> recover_digest k digest sig = Inr (public_key k sk)"
proof -
  let ?s = "sign_recoverable k digest sk"
  obtain recid sb where c: "sig_to_compact k ?s = (recid, sb)"
    by force
  from assms have m: "message_from_digest k digest = Some digest"
    by (simp add: secp_ok_def)
  from assms(1) [unfolded secp_ok_def] c have r: "0 \<le> recid" "recid \<le> 3" "length sb = 64"
      "sig_from_compact k sb recid = Some ?s" "recovery_id_from k recid = Some recid"
    by (metis fst_conv snd_conv)+
  have "recover k digest ?s = Some (public_key k sk)"
    using assms(1) by (simp add: secp_ok_def)
  then show ?thesis
    using r m by (simp add: sign_digest_def recover_digest_def c nth_append u8_roundtrip)
qed

lemma import_of_export:
  assumes "key_bytes_ok B"
  shows "import_private_key sha k B (sw_secret_key (create_wallet sha k B sk)) = Inr (create_wallet sha k B sk)"
  using assms by (simp add: import_private_key_def create_wallet_def sdk_wallet_of_def from_secret_bytes_def
      keypair_of_def key_bytes_ok_def)

lemma build_fields:
  assumes "build tb = Inr tx"
  shows "tb_from tb = Some (tx_from tx)" "tb_payload tb = Some (payload tx)"
    "tx_nonce tx = unwrap_or 0 (tb_nonce tb)" "gas_limit tx = unwrap_or 21000 (tb_gas_limit tb)"
    "gas_price tx = unwrap_or 1 (tb_gas_price tb)"
  using assms by (auto simp: build_def Let_def new_transfer_def new_deploy_def new_call_def
      split: option.splits tx_payload.splits)

section \<open>Properties\<close>

text \<open>
  Signatures of the wallets verify: both the wallet of the node and the keypair of the SDK
  accept what they signed, and the SDK verifies what the wallet signed with the same key. A
  signature of fewer than 65 bytes makes the wallet of the node panic.
\<close>

theorem wallet_sign_verify:
  assumes "sha_len sha" and "secp_ok k"
  shows "\<exists>sig. sign_message sha k (from_private_key sha hex k sk) msg = Inr sig
    \<and> keypair_sign sha k (keypair_of k sk) msg = Inr sig
    \<and> wallet_verify_signature sha k (from_private_key sha hex k sk) msg sig = Inr True
    \<and> keypair_verify sha k (keypair_of k sk) msg sig = Inr True
    \<and> wallet_verify_signature sha k (from_private_key sha hex k sk) msg (take 64 sig) = Inl WalletPanic"
proof -
  have "length (sha msg) = 32"
    using assms(1) by simp
  with recover_signed [OF assms(2) this, of sk] assms(2) show ?thesis
    by (auto simp: sign_message_def keypair_sign_def wallet_verify_signature_def keypair_verify_def
        from_private_key_def keypair_of_def)
      (auto simp: recover_digest_def secp_ok_def)
qed

theorem wallet_sign_verify_witness:
  "\<exists>sig. sign_message sample_sha sample_secp (from_private_key sample_sha (\<lambda>_. []) sample_secp ()) [1] = Inr sig
    \<and> wallet_verify_signature sample_sha sample_secp (from_private_key sample_sha (\<lambda>_. []) sample_secp ()) [1] sig = Inr True"
  using wallet_sign_verify [OF sample_sha_len sample_secp_ok, of "\<lambda>_. []" "()" "[1]"] by blast

text \<open>
  What the SDK builds and signs the node accepts: if the sender is the address of the wallet,
  the gas fields are left out or positive and a transfer moves something, then building and
  signing succeed, and the transaction passes \<open>validate_basic\<close> with the fields that were set.
\<close>

theorem sdk_transaction_validates:
  assumes "sha_len sha" and "secp_ok k" and "key_bytes_ok B"
    and "import_private_key sha k B bs = Inr w"
    and "tb_from tb = Some (sw_address w)" and "tb_payload tb = Some p"
    and "tb_gas_limit tb \<noteq> Some 0" and "tb_gas_price tb \<noteq> Some 0" and "\<forall>to. p \<noteq> Transfer to 0"
  shows "\<exists>tx. build_and_sign sha k B w tb = Inr tx \<and> tx_validate_basic sha k tx = Inr ()
    \<and> tx_from tx = sw_address w \<and> payload tx = p \<and> tx_nonce tx = unwrap_or 0 (tb_nonce tb)"
proof -
  obtain sk where sk: "key_of_bytes B bs = Some sk" "length bs = 32"
    and w: "w = sdk_wallet_of sha k B (keypair_of k sk)"
    using assms(4) by (auto simp: import_private_key_def from_secret_bytes_def split: if_splits option.splits)
  obtain tx where tx: "build tb = Inr tx"
    using assms(5,6) by (simp add: build_def Let_def)
  note f = build_fields [OF tx]
  have "tx_from tx = address_of sha k (public_key k sk)"
    using f(1) assms(5) by (simp add: w sdk_wallet_of_def derive_address_def address_of_def keypair_of_def)
  moreover have "gas_limit tx \<noteq> 0" "gas_price tx \<noteq> 0" "payload tx = p"
    using f assms(6-8) by (auto simp: unwrap_or_def split: option.splits)
  moreover have "\<forall>to amount. payload tx = Transfer to amount \<longrightarrow> amount \<noteq> 0"
    using assms(9) \<open>payload tx = p\<close> by auto
  ultimately obtain tx' where tx': "sign sha k sk tx = Inr tx'" "tx_validate_basic sha k tx' = Inr ()"
    using signed_tx_validates [OF assms(1,2)] by blast
  moreover have "tx_from tx' = tx_from tx" "payload tx' = payload tx" "tx_nonce tx' = tx_nonce tx"
    using tx'(1) by (auto simp: sign_def split: option.splits prod.splits)
  moreover have "sign_transaction sha k B w tx = Inr tx'"
    using assms(3) tx'(1) by (simp add: sign_transaction_def w sdk_wallet_of_def from_secret_bytes_def keypair_of_def
        key_bytes_ok_def)
  ultimately show ?thesis
    using tx f(1,3) assms(5) \<open>payload tx = p\<close> by (simp add: build_and_sign_def)
qed

theorem sdk_transaction_validates_witness:
  "let B = \<lparr>key_of_bytes = (\<lambda>_. Some ()), bytes_of_key = (\<lambda>_. replicate 32 1)\<rparr>;
       w = create_wallet sample_sha sample_secp B ();
       tb = with_transfer (replicate 20 9) 5 (with_from (sw_address w) builder_new)
   in \<exists>tx. build_and_sign sample_sha sample_secp B w tb = Inr tx
        \<and> tx_validate_basic sample_sha sample_secp tx = Inr () \<and> payload tx = Transfer (replicate 20 9) 5"
proof -
  let ?B = "\<lparr>key_of_bytes = (\<lambda>_. Some ()), bytes_of_key = (\<lambda>_. replicate 32 1)\<rparr>"
  let ?w = "create_wallet sample_sha sample_secp ?B ()"
  have B: "key_bytes_ok ?B"
    by (simp add: key_bytes_ok_def)
  show ?thesis
    unfolding Let_def
    using sdk_transaction_validates [OF sample_sha_len sample_secp_ok B import_of_export [OF B],
        of "with_transfer (replicate 20 9) 5 (with_from (sw_address ?w) builder_new)" "()"]
    by (auto simp: with_transfer_def with_from_def builder_new_def)
qed

end
