(* ===== verification/Sdk_Client.thy ===== *)
theory Sdk_Client
  imports Rpc Wallet
begin

text \<open>
  The client library against the RPC server: \<^verbatim>\<open>src/sdk/rust/src/client.rs\<close>, \<^verbatim>\<open>network.rs\<close>, \<^verbatim>\<open>contract.rs\<close> and the
  router of \<^verbatim>\<open>src/src/rpc/server.rs\<close>.

  A request is a method, an address and a body, a response a status number and a body. What the
  derived serialisers of the message structs produce and read is a \<open>json\<close> value: a struct is an
  object with its fields by name, a fixed array a list of exactly its length (\<open>JOpaque\<close> is a part
  that is not looked into). JSON text (the type \<open>'t\<close>) with its printing and parsing, the serialisers
  of blocks and transactions, the hexadecimal encoding, percent
  decoding of paths, the display of peer ids and the transport are parameters (\<open>wire_env\<close> and
  \<open>http\<close>). A client reaches a server when the transport delivers: the locale \<open>node_api\<close>. Error
  messages are left out; the status of an RPC error is kept.
\<close>

section \<open>JSON\<close>

datatype 'v json = JNull | JNum int | JStr string | JArr "'v json list" | JObj "(string \<times> 'v json) list" | JOpaque 'v

fun field :: "string \<Rightarrow> 'v json \<Rightarrow> 'v json option" where
  "field k (JObj fs) = map_of fs k"
| "field k _ = None"

fun of_str :: "'v json \<Rightarrow> string option" where
  "of_str (JStr s) = Some s"
| "of_str _ = None"

fun of_u64 :: "'v json \<Rightarrow> u64 option" where
  "of_u64 (JNum n) = (if 0 \<le> n \<and> n < 2 ^ 64 then Some (word_of_int n) else None)"
| "of_u64 _ = None"

fun of_usize :: "'v json \<Rightarrow> nat option" where
  "of_usize (JNum n) = (if 0 \<le> n \<and> n < 2 ^ 64 then Some (nat n) else None)"
| "of_usize _ = None"

fun of_list :: "('v json \<Rightarrow> 'a option) \<Rightarrow> 'v json \<Rightarrow> 'a list option" where
  "of_list f (JArr js) = those (map f js)"
| "of_list f _ = None"

fun of_u8 :: "'v json \<Rightarrow> u8 option" where
  "of_u8 (JNum n) = (if 0 \<le> n \<and> n < 256 then Some (word_of_int n) else None)"
| "of_u8 _ = None"

fun of_array :: "nat \<Rightarrow> 'v json \<Rightarrow> bytes option" where
  "of_array n (JArr js) = (if length js = n then those (map of_u8 js) else None)"
| "of_array n _ = None"

fun of_option :: "('v json \<Rightarrow> 'a option) \<Rightarrow> 'v json \<Rightarrow> 'a option option" where
  "of_option f JNull = Some None"
| "of_option f j = map_option Some (f j)"

definition get_field :: "string \<Rightarrow> ('v json \<Rightarrow> 'a option) \<Rightarrow> 'v json \<Rightarrow> 'a option" where
  "get_field k f j = Option.bind (field k j) f"

definition to_option :: "('a \<Rightarrow> 'v json) \<Rightarrow> 'a option \<Rightarrow> 'v json" where
  "to_option f x = (case x of None \<Rightarrow> JNull | Some y \<Rightarrow> f y)"

definition to_u64 :: "u64 \<Rightarrow> 'v json" where
  "to_u64 x = JNum (uint x)"

text \<open>A \<open>String\<close> whose bytes the model keeps, as text.\<close>

definition as_text :: "bytes \<Rightarrow> string" where
  "as_text bs = map (\<lambda>x. char_of (unat x)) bs"

definition as_bytes :: "string \<Rightarrow> bytes" where
  "as_bytes s = map (\<lambda>c. of_nat (of_char c)) s"

section \<open>The environment\<close>

record ('p, 'v, 't) wire_env =
  we_empty :: 't
  we_print :: "'v json \<Rightarrow> 't"
  we_parse :: "'t \<Rightarrow> 'v json option"
  we_tx_json :: "transaction \<Rightarrow> 'v json"
  we_json_tx :: "'v json \<Rightarrow> transaction option"
  we_block_json :: "block \<Rightarrow> 'v json"
  we_json_block :: "'v json \<Rightarrow> block option"
  we_hex :: hex_codec
  we_pct :: "string \<Rightarrow> string option"
  we_peer :: "'p \<Rightarrow> string"

text \<open>
  Printing and parsing, and serialising and deserialising, are inverse; a transaction or block
  is an object, a byte is two hexadecimal digits, which percent decoding leaves alone.
\<close>

definition plain :: "string \<Rightarrow> bool" where
  "plain s \<longleftrightarrow> set s \<subseteq> set ''0123456789abcdefcyt''"

definition wire_ok :: "('p, 'v, 't) wire_env \<Rightarrow> bool" where
  "wire_ok V \<longleftrightarrow> (\<forall>j. we_parse V (we_print V j) = Some j) \<and>
     (\<forall>tx. we_json_tx V (we_tx_json V tx) = Some tx \<and> we_tx_json V tx \<noteq> JNull) \<and>
     (\<forall>b. we_json_block V (we_block_json V b) = Some b \<and> we_block_json V b \<noteq> JNull) \<and>
     hex_codec_ok (we_hex V) \<and> (\<forall>b. plain (hex_enc (we_hex V) b) \<and> length (hex_enc (we_hex V) b) = 2 * length b) \<and> (\<forall>s. plain s \<longrightarrow> we_pct V s = Some s)"

section \<open>The server behind its router\<close>

datatype http_method = GET | POST

record 't http_response =
  hr_status :: nat
  hr_body :: 't

datatype route =
    SendTx | Balance string | BlockOf string | TxOf string | Dag | NodeInfo | DeployContract | CallContract

fun split_path :: "string \<Rightarrow> string list" where
  "split_path [] = [[]]"
| "split_path (c # cs) =
     (if c = CHR ''/'' then [] # split_path cs
      else (c # hd (split_path cs)) # tl (split_path cs))"

definition router :: "string \<Rightarrow> route option" where
  "router path =
     (let segs = split_path path in
      if segs = ['''', ''send_tx''] then Some SendTx
      else if segs = ['''', ''dag''] then Some Dag
      else if segs = ['''', ''node'', ''info''] then Some NodeInfo
      else if segs = ['''', ''contract'', ''deploy''] then Some DeployContract
      else if segs = ['''', ''contract'', ''call''] then Some CallContract
      else case segs of
        [e, r, x] \<Rightarrow>
          if e \<noteq> '''' \<or> x = '''' then None
          else if r = ''balance'' then Some (Balance x)
          else if r = ''block'' then Some (BlockOf x)
          else if r = ''tx'' then Some (TxOf x)
          else None
      | _ \<Rightarrow> None)"

fun route_method :: "route \<Rightarrow> http_method" where
  "route_method SendTx = POST"
| "route_method DeployContract = POST"
| "route_method CallContract = POST"
| "route_method _ = GET"

fun status_number :: "status_code \<Rightarrow> nat" where
  "status_number BAD_REQUEST = 400"
| "status_number NOT_FOUND = 404"
| "status_number INTERNAL_SERVER_ERROR = 500"

definition respond :: "('p, 'v, 't) wire_env \<Rightarrow> ('a \<Rightarrow> 'v json) \<Rightarrow> status_code + 'a \<Rightarrow> 't http_response" where
  "respond V f r = (case r of
     Inl e \<Rightarrow> \<lparr>hr_status = status_number e, hr_body = we_empty V\<rparr>
   | Inr x \<Rightarrow> \<lparr>hr_status = 200, hr_body = we_print V (f x)\<rparr>)"

text \<open>The JSON extractor: status 400 for a body that is no JSON, 422 for one of another shape.\<close>

definition with_body ::
  "('p, 'v, 't) wire_env \<Rightarrow> ('v json \<Rightarrow> 'a option) \<Rightarrow> 't \<Rightarrow> ('a \<Rightarrow> 't http_response \<times> 's) \<Rightarrow> 's \<Rightarrow> 't http_response \<times> 's" where
  "with_body V dec body handler s =
     (case we_parse V body of
        None \<Rightarrow> (\<lparr>hr_status = 400, hr_body = we_empty V\<rparr>, s)
      | Some j \<Rightarrow> (case dec j of None \<Rightarrow> (\<lparr>hr_status = 422, hr_body = we_empty V\<rparr>, s) | Some x \<Rightarrow> handler x))"

definition with_path ::
  "('p, 'v, 't) wire_env \<Rightarrow> string \<Rightarrow> (string \<Rightarrow> 't http_response) \<Rightarrow> 's \<Rightarrow> 't http_response \<times> 's" where
  "with_path V seg handler s =
     (case we_pct V seg of None \<Rightarrow> (\<lparr>hr_status = 400, hr_body = we_empty V\<rparr>, s) | Some x \<Rightarrow> (handler x, s))"

text \<open>The derived serialisers of the server's structs.\<close>

definition balance_json :: "balance_response \<Rightarrow> 'v json" where
  "balance_json r = JObj [(''address'', JStr (br_address r)), (''balance'', to_u64 (br_balance r)), (''nonce'', to_u64 (br_nonce r))]"

definition block_response_json :: "('p, 'v, 't) wire_env \<Rightarrow> block_response \<Rightarrow> 'v json" where
  "block_response_json V r = JObj [(''hash'', JStr (bk_hash r)), (''block'', to_option (we_block_json V) (bk_block r))]"

definition transaction_response_json :: "('p, 'v, 't) wire_env \<Rightarrow> transaction_response \<Rightarrow> 'v json" where
  "transaction_response_json V r =
     JObj [(''hash'', JStr (tr_hash r)), (''transaction'', to_option (we_tx_json V) (tr_transaction r))]"

definition dag_json :: "dag_response \<Rightarrow> 'v json" where
  "dag_json r = JObj [(''tips'', JArr (map JStr (dr_tips r))), (''total_blocks'', JNum (int (dr_total_blocks r))),
     (''stats'', JObj [(''tips_count'', JNum (int (dr_tips_count r))), (''total_blocks'', JNum (int (dr_total_blocks r)))])]"

definition node_info_json :: "('p, 'v, 't) wire_env \<Rightarrow> 'p node_info_response \<Rightarrow> 'v json" where
  "node_info_json V r = JObj [(''peer_id'', JStr (ni_peer_id r)),
     (''connected_peers'', JArr (map (\<lambda>p. JStr (we_peer V p)) (ni_connected_peers r))),
     (''mempool_size'', JNum (int (ni_mempool_size r))), (''dag_height'', JNum (int (ni_dag_height r)))]"

definition deploy_response_json :: "deploy_contract_response \<Rightarrow> 'v json" where
  "deploy_response_json r = JObj [(''contract_address'', JStr (dp_contract_address r)), (''tx_hash'', JStr (dp_tx_hash r))]"

definition sent_json :: "unit \<Rightarrow> 'v json" where
  "sent_json u = JObj [(''status'', JStr ''success''), (''message'', JStr ''Transaction submitted to mempool'')]"

definition called_json :: "unit \<Rightarrow> 'v json" where
  "called_json u = JObj [(''status'', JStr ''success''), (''result'', JNull)]"

definition json_deploy_request :: "'v json \<Rightarrow> deploy_contract_request option" where
  "json_deploy_request j =
     (case (get_field ''from'' of_str j, get_field ''nonce'' of_u64 j, get_field ''wasm_code'' of_str j) of
        (Some f, Some n, Some w) \<Rightarrow>
          map_option (\<lambda>a. \<lparr>dq_from = f, dq_nonce = n, dq_wasm_code = w, dq_init_args = a\<rparr>)
            (case field ''init_args'' j of None \<Rightarrow> Some None | Some x \<Rightarrow> of_option of_str x)
      | _ \<Rightarrow> None)"

definition json_call_request :: "'v json \<Rightarrow> call_contract_request option" where
  "json_call_request j =
     (case (get_field ''from'' of_str j, get_field ''nonce'' of_u64 j, get_field ''contract_address'' of_str j,
            get_field ''method'' of_str j) of
        (Some f, Some n, Some c, Some m) \<Rightarrow>
          map_option (\<lambda>a. \<lparr>cq_from = f, cq_nonce = n, cq_contract_address = c, cq_method = as_bytes m, cq_args = a\<rparr>)
            (case field ''args'' j of None \<Rightarrow> Some None | Some x \<Rightarrow> of_option of_str x)
      | _ \<Rightarrow> None)"

text \<open>What the handlers need besides the request: cryptography, iteration orders, clock readings.\<close>

record ('sk, 'pk, 'rs, 'p) serve_env =
  se_sha :: "bytes \<Rightarrow> bytes"
  se_secp :: "('sk, 'pk, 'rs) secp"
  se_txs :: "tx_map \<Rightarrow> tx_map"
  se_enum :: "block_hash set \<Rightarrow> block_hash list"
  se_peers :: "'p peer_iter"
  se_ser_tx :: "transaction \<Rightarrow> bytes option"
  se_now :: u64
  se_now2 :: u64

fun serve_route ::
  "('p, 'v, 't) wire_env \<Rightarrow> ('sk, 'pk, 'rs, 'p) serve_env \<Rightarrow> route \<Rightarrow> 't \<Rightarrow> 'p rpc_state \<Rightarrow> 't http_response \<times> 'p rpc_state" where
  "serve_route V S SendTx body rs =
     with_body V (get_field ''transaction'' (we_json_tx V)) body
       (\<lambda>tx. apfst (respond V sent_json)
          (send_transaction (se_sha S) (se_secp S) (se_txs S) (se_now S) (se_now2 S) tx rs)) rs"
| "serve_route V S (Balance a) body rs = with_path V a (\<lambda>a. respond V balance_json (rpc_get_balance (we_hex V) a rs)) rs"
| "serve_route V S (BlockOf h) body rs =
     with_path V h (\<lambda>h. respond V (block_response_json V) (rpc_get_block (we_hex V) h rs)) rs"
| "serve_route V S (TxOf h) body rs =
     with_path V h (\<lambda>h. respond V (transaction_response_json V) (rpc_get_transaction (se_sha S) (we_hex V) h rs)) rs"
| "serve_route V S Dag body rs = (respond V dag_json (Inr (get_dag_info (se_enum S) (we_hex V) rs)), rs)"
| "serve_route V S NodeInfo body rs = (respond V (node_info_json V) (Inr (get_node_info (se_peers S) rs)), rs)"
| "serve_route V S DeployContract body rs =
     with_body V json_deploy_request body
       (\<lambda>rq. apfst (respond V deploy_response_json)
          (rpc_deploy_contract (se_sha S) (se_txs S) (we_hex V) (se_ser_tx S) (se_now S) (se_now2 S) rq rs)) rs"
| "serve_route V S CallContract body rs =
     with_body V json_call_request body
       (\<lambda>rq. apfst (respond V called_json)
          (rpc_call_contract (se_sha S) (se_txs S) (we_hex V) (se_now S) (se_now2 S) rq rs)) rs"

definition serve ::
  "('p, 'v, 't) wire_env \<Rightarrow> ('sk, 'pk, 'rs, 'p) serve_env \<Rightarrow> http_method \<Rightarrow> string \<Rightarrow> 't \<Rightarrow> 'p rpc_state
    \<Rightarrow> 't http_response \<times> 'p rpc_state" where
  "serve V S m path body rs =
     (case router path of
        None \<Rightarrow> (\<lparr>hr_status = 404, hr_body = we_empty V\<rparr>, rs)
      | Some r \<Rightarrow> if m = route_method r then serve_route V S r body rs
                 else (\<lparr>hr_status = 405, hr_body = we_empty V\<rparr>, rs))"

section \<open>The client\<close>

type_synonym ('t, 'n) transport = "http_method \<Rightarrow> string \<Rightarrow> 't \<Rightarrow> 'n \<Rightarrow> 't http_response option \<times> 'n"

record client =
  base_url :: string

datatype 't sdk_error = NetworkError | RpcError nat "'t option" | HeightNotReached nat nat | SerializationError

definition client_new :: "string \<Rightarrow> client" where
  "client_new u = \<lparr>base_url = (if u \<noteq> [] \<and> last u = CHR ''/'' then butlast u else u)\<rparr>"

definition url :: "client \<Rightarrow> string \<Rightarrow> string" where
  "url c path = base_url c @ path"

definition format_address :: "hex_codec \<Rightarrow> address \<Rightarrow> string" where
  "format_address H a = ''cyt'' @ hex_enc H a"

definition is_success :: "nat \<Rightarrow> bool" where
  "is_success s \<longleftrightarrow> 200 \<le> s \<and> s < 300"

definition decode_body :: "('p, 'v, 't) wire_env \<Rightarrow> ('v json \<Rightarrow> 'a option) \<Rightarrow> 't http_response \<Rightarrow> 't sdk_error + 'a" where
  "decode_body V dec r =
     (case Option.bind (we_parse V (hr_body r)) dec of None \<Rightarrow> Inl SerializationError | Some x \<Rightarrow> Inr x)"

text \<open>The shape of every query: send, check the status, read the body.\<close>

definition get_json ::
  "('p, 'v, 't) wire_env \<Rightarrow> ('t, 'n) transport \<Rightarrow> client \<Rightarrow> string \<Rightarrow> ('v json \<Rightarrow> 'a option) \<Rightarrow> 'n \<Rightarrow> ('t sdk_error + 'a) \<times> 'n" where
  "get_json V http c path dec n =
     (case http GET (url c path) (we_empty V) n of
        (None, n') \<Rightarrow> (Inl NetworkError, n')
      | (Some r, n') \<Rightarrow>
          if \<not> is_success (hr_status r) then (Inl (RpcError (hr_status r) None), n')
          else (decode_body V dec r, n'))"

definition post_json ::
  "('p, 'v, 't) wire_env \<Rightarrow> ('t, 'n) transport \<Rightarrow> client \<Rightarrow> string \<Rightarrow> 'v json \<Rightarrow> ('t http_response \<Rightarrow> 't sdk_error + 'a) \<Rightarrow> 'n
    \<Rightarrow> ('t sdk_error + 'a) \<times> 'n" where
  "post_json V http c path request read n =
     (case http POST (url c path) (we_print V request) n of
        (None, n') \<Rightarrow> (Inl NetworkError, n')
      | (Some r, n') \<Rightarrow>
          if \<not> is_success (hr_status r) then (Inl (RpcError (hr_status r) (Some (hr_body r))), n')
          else (read r, n'))"

definition client_send_transaction ::
  "('p, 'v, 't) wire_env \<Rightarrow> ('t, 'n) transport \<Rightarrow> client \<Rightarrow> transaction \<Rightarrow> 'n \<Rightarrow> ('t sdk_error + unit) \<times> 'n" where
  "client_send_transaction V http c tx =
     post_json V http c ''/send_tx'' (JObj [(''transaction'', we_tx_json V tx)]) (\<lambda>_. Inr ())"

definition json_balance :: "'v json \<Rightarrow> balance_response option" where
  "json_balance j =
     (case (get_field ''address'' of_str j, get_field ''balance'' of_u64 j, get_field ''nonce'' of_u64 j) of
        (Some a, Some b, Some n) \<Rightarrow> Some \<lparr>br_address = a, br_balance = b, br_nonce = n\<rparr>
      | _ \<Rightarrow> None)"

definition client_get_balance ::
  "('p, 'v, 't) wire_env \<Rightarrow> ('t, 'n) transport \<Rightarrow> client \<Rightarrow> address \<Rightarrow> 'n \<Rightarrow> ('t sdk_error + balance_response) \<times> 'n" where
  "client_get_balance V http c a =
     get_json V http c (''/balance/'' @ format_address (we_hex V) a) json_balance"

text \<open>A response struct with a hash and an optional item.\<close>

definition json_item :: "string \<Rightarrow> ('v json \<Rightarrow> 'a option) \<Rightarrow> 'v json \<Rightarrow> 'a option option" where
  "json_item k dec j =
     (case get_field ''hash'' of_str j of
        None \<Rightarrow> None
      | Some _ \<Rightarrow> (case field k j of None \<Rightarrow> Some None | Some x \<Rightarrow> of_option dec x))"

definition client_get_block ::
  "('p, 'v, 't) wire_env \<Rightarrow> ('t, 'n) transport \<Rightarrow> client \<Rightarrow> block_hash \<Rightarrow> 'n \<Rightarrow> ('t sdk_error + block option) \<times> 'n" where
  "client_get_block V http c h =
     get_json V http c (''/block/'' @ hex_enc (we_hex V) h) (json_item ''block'' (we_json_block V))"

definition client_get_transaction ::
  "('p, 'v, 't) wire_env \<Rightarrow> ('t, 'n) transport \<Rightarrow> client \<Rightarrow> tx_id \<Rightarrow> 'n \<Rightarrow> ('t sdk_error + transaction option) \<times> 'n" where
  "client_get_transaction V http c h =
     get_json V http c (''/tx/'' @ hex_enc (we_hex V) h) (json_item ''transaction'' (we_json_tx V))"

record 'v dag_info =
  di_tips :: "string list"
  di_total_blocks :: nat
  di_stats :: "'v json"

definition json_dag_info :: "'v json \<Rightarrow> 'v dag_info option" where
  "json_dag_info j =
     (case (get_field ''tips'' (of_list of_str) j, get_field ''total_blocks'' of_usize j, field ''stats'' j) of
        (Some t, Some n, Some s) \<Rightarrow> Some \<lparr>di_tips = t, di_total_blocks = n, di_stats = s\<rparr>
      | _ \<Rightarrow> None)"

definition client_get_dag_info ::
  "('p, 'v, 't) wire_env \<Rightarrow> ('t, 'n) transport \<Rightarrow> client \<Rightarrow> 'n \<Rightarrow> ('t sdk_error + 'v dag_info) \<times> 'n" where
  "client_get_dag_info V http c = get_json V http c ''/dag'' json_dag_info"

record node_info =
  nf_peer_id :: bytes
  nf_connected_peers :: "bytes list"
  nf_mempool_size :: nat
  nf_dag_height :: nat

definition json_node_info :: "'v json \<Rightarrow> node_info option" where
  "json_node_info j =
     (case (get_field ''peer_id'' (of_array 32) j, get_field ''connected_peers'' (of_list (of_array 32)) j,
            get_field ''mempool_size'' of_usize j, get_field ''dag_height'' of_usize j) of
        (Some p, Some ps, Some m, Some h) \<Rightarrow>
          Some \<lparr>nf_peer_id = p, nf_connected_peers = ps, nf_mempool_size = m, nf_dag_height = h\<rparr>
      | _ \<Rightarrow> None)"

definition client_get_node_info ::
  "('p, 'v, 't) wire_env \<Rightarrow> ('t, 'n) transport \<Rightarrow> client \<Rightarrow> 'n \<Rightarrow> ('t sdk_error + node_info) \<times> 'n" where
  "client_get_node_info V http c = get_json V http c ''/node/info'' json_node_info"

definition deploy_request_json :: "deploy_contract_request \<Rightarrow> 'v json" where
  "deploy_request_json q = JObj [(''from'', JStr (dq_from q)), (''nonce'', to_u64 (dq_nonce q)),
     (''wasm_code'', JStr (dq_wasm_code q)), (''init_args'', to_option JStr (dq_init_args q))]"

definition json_deploy_response :: "'v json \<Rightarrow> deploy_contract_response option" where
  "json_deploy_response j =
     (case (get_field ''contract_address'' of_str j, get_field ''tx_hash'' of_str j) of
        (Some a, Some h) \<Rightarrow> Some \<lparr>dp_contract_address = a, dp_tx_hash = h\<rparr>
      | _ \<Rightarrow> None)"

definition client_deploy_contract ::
  "('p, 'v, 't) wire_env \<Rightarrow> ('t, 'n) transport \<Rightarrow> client \<Rightarrow> address \<Rightarrow> u64 \<Rightarrow> bytes \<Rightarrow> bytes option \<Rightarrow> 'n
    \<Rightarrow> ('t sdk_error + deploy_contract_response) \<times> 'n" where
  "client_deploy_contract V http c from nonce wasm args =
     post_json V http c ''/contract/deploy''
       (deploy_request_json \<lparr>dq_from = format_address (we_hex V) from, dq_nonce = nonce,
          dq_wasm_code = hex_enc (we_hex V) wasm, dq_init_args = map_option (hex_enc (we_hex V)) args\<rparr>)
       (decode_body V json_deploy_response)"

record call_result =
  cr_status :: string
  cr_result :: "string option"

definition call_request_json :: "call_contract_request \<Rightarrow> 'v json" where
  "call_request_json q = JObj [(''from'', JStr (cq_from q)), (''nonce'', to_u64 (cq_nonce q)),
     (''contract_address'', JStr (cq_contract_address q)), (''method'', JStr (as_text (cq_method q))),
     (''args'', to_option JStr (cq_args q))]"

definition json_call_response :: "'v json \<Rightarrow> call_result option" where
  "json_call_response j =
     (case get_field ''status'' of_str j of
        None \<Rightarrow> None
      | Some s \<Rightarrow> map_option (\<lambda>r. \<lparr>cr_status = s, cr_result = r\<rparr>)
          (case field ''result'' j of None \<Rightarrow> Some None | Some x \<Rightarrow> of_option of_str x))"

definition client_call_contract ::
  "('p, 'v, 't) wire_env \<Rightarrow> ('t, 'n) transport \<Rightarrow> client \<Rightarrow> address \<Rightarrow> u64 \<Rightarrow> string \<Rightarrow> bytes \<Rightarrow> bytes option \<Rightarrow> 'n
    \<Rightarrow> ('t sdk_error + call_result) \<times> 'n" where
  "client_call_contract V http c from nonce contract meth args =
     post_json V http c ''/contract/call''
       (call_request_json \<lparr>cq_from = format_address (we_hex V) from, cq_nonce = nonce,
          cq_contract_address = contract, cq_method = meth, cq_args = map_option (hex_enc (we_hex V)) args\<rparr>)
       (decode_body V json_call_response)"

text \<open>\<open>Network::wait_for_height\<close>; the pause between two attempts has no effect.\<close>

fun wait_loop ::
  "('p, 'v, 't) wire_env \<Rightarrow> ('t, 'n) transport \<Rightarrow> client \<Rightarrow> nat \<Rightarrow> nat \<Rightarrow> nat \<Rightarrow> 'n \<Rightarrow> ('t sdk_error + unit) \<times> 'n" where
  "wait_loop V http c target tries 0 n = (Inl (HeightNotReached target tries), n)"
| "wait_loop V http c target tries (Suc i) n =
     (case client_get_node_info V http c n of
        (Inl e, n') \<Rightarrow> (Inl e, n')
      | (Inr info, n') \<Rightarrow>
          if target \<le> nf_dag_height info then (Inr (), n') else wait_loop V http c target tries i n')"

definition wait_for_height ::
  "('p, 'v, 't) wire_env \<Rightarrow> ('t, 'n) transport \<Rightarrow> client \<Rightarrow> nat \<Rightarrow> nat \<Rightarrow> 'n \<Rightarrow> ('t sdk_error + unit) \<times> 'n" where
  "wait_for_height V http c target max_attempts n = wait_loop V http c target max_attempts max_attempts n"

text \<open>\<open>ContractClient\<close>.\<close>

definition contract_client_new :: "string \<Rightarrow> client" where
  "contract_client_new node_url = client_new node_url"

definition contract_deploy ::
  "('p, 'v, 't) wire_env \<Rightarrow> ('t, 'n) transport \<Rightarrow> client \<Rightarrow> address \<Rightarrow> u64 \<Rightarrow> bytes \<Rightarrow> bytes option \<Rightarrow> 'n
    \<Rightarrow> ('t sdk_error + deploy_contract_response) \<times> 'n" where
  "contract_deploy V http c from nonce wasm args = client_deploy_contract V http c from nonce wasm args"

definition contract_call ::
  "('p, 'v, 't) wire_env \<Rightarrow> ('t, 'n) transport \<Rightarrow> client \<Rightarrow> address \<Rightarrow> u64 \<Rightarrow> string \<Rightarrow> bytes \<Rightarrow> bytes option \<Rightarrow> 'n
    \<Rightarrow> ('t sdk_error + call_result) \<times> 'n" where
  "contract_call V http c from nonce contract meth args = client_call_contract V http c from nonce contract meth args"


section \<open>A client connected to a server\<close>

text \<open>The transport delivers every request under the base address to the server and brings its answer back.\<close>

locale node_api =
  fixes http :: "('t, 'n) transport" and base :: string
    and srv :: "http_method \<Rightarrow> string \<Rightarrow> 't \<Rightarrow> 'n \<Rightarrow> 't http_response \<times> 'n"
  assumes delivers: "http m (base @ CHR ''/'' # path) body n = apfst Some (srv m (CHR ''/'' # path) body n)"
begin

lemma get_json_answer:
  assumes "base_url c = base" and "srv GET (CHR ''/'' # path) (we_empty V) n = (r, n')"
  shows "get_json V http c (CHR ''/'' # path) dec n =
    (if is_success (hr_status r) then decode_body V dec r else Inl (RpcError (hr_status r) None), n')"
  using delivers [of GET path "we_empty V" n] by (simp add: get_json_def url_def assms)

lemma post_json_answer:
  assumes "base_url c = base" and "srv POST (CHR ''/'' # path) (we_print V request) n = (r, n')"
  shows "post_json V http c (CHR ''/'' # path) request read n =
    (if is_success (hr_status r) then read r else Inl (RpcError (hr_status r) (Some (hr_body r))), n')"
  using delivers [of POST path "we_print V request" n] by (simp add: post_json_def url_def assms)

end

text \<open>A direct connection.\<close>

definition direct ::
  "string \<Rightarrow> (http_method \<Rightarrow> string \<Rightarrow> 't \<Rightarrow> 'n \<Rightarrow> 't http_response \<times> 'n) \<Rightarrow> ('t, 'n) transport" where
  "direct base srv m u body n =
     (if take (length base) u = base then apfst Some (srv m (drop (length base) u) body n) else (None, n))"

interpretation direct_api: node_api "direct base srv" base srv for base srv
  by unfold_locales (simp add: direct_def)

section \<open>Lemmas\<close>

lemma is_success_statuses [simp]:
  "is_success 200" "\<not> is_success 400" "\<not> is_success 404" "\<not> is_success 500"
  by (simp_all add: is_success_def)

lemma status_not_success [simp]: "\<not> is_success (status_number e)"
  by (cases e) simp_all

lemma wire_okD:
  assumes "wire_ok V"
  shows "we_parse V (we_print V j) = Some j" "we_json_tx V (we_tx_json V tx) = Some tx" "we_tx_json V tx \<noteq> JNull"
    "we_json_block V (we_block_json V b) = Some b" "we_block_json V b \<noteq> JNull" "hex_codec_ok (we_hex V)"
    "plain (hex_enc (we_hex V) x)" "length (hex_enc (we_hex V) x) = 2 * length x" "plain s \<Longrightarrow> we_pct V s = Some s"
  using assms by (simp_all add: wire_ok_def)

lemma split_plain: "plain s \<Longrightarrow> split_path s = [s]"
  by (induction s) (auto simp: plain_def)

lemma plain_nonempty_route:
  assumes "plain s" and "s \<noteq> ''''"
  shows "router (''/balance/'' @ s) = Some (Balance s)" "router (''/block/'' @ s) = Some (BlockOf s)"
    "router (''/tx/'' @ s) = Some (TxOf s)"
  using assms split_plain [OF assms(1)] by (auto simp: router_def Let_def)

lemma fixed_routes:
  "router ''/send_tx'' = Some SendTx" "router ''/dag'' = Some Dag" "router ''/node/info'' = Some NodeInfo"
  "router ''/contract/deploy'' = Some DeployContract" "router ''/contract/call'' = Some CallContract"
  by (simp_all add: router_def Let_def)

lemma of_option_to_option: "f (g x) = Some x \<Longrightarrow> g x \<noteq> JNull \<Longrightarrow> of_option f (to_option g (Some x)) = Some (Some x)"
  by (cases "g x") (simp_all add: to_option_def)

lemma of_u64_to_u64 [simp]: "of_u64 (to_u64 x) = Some x"
  using uint_bounded [of x] by (simp add: to_u64_def)

lemma json_balance_json [simp]: "json_balance (balance_json r) = Some r"
  by (simp add: json_balance_def balance_json_def get_field_def)

lemma json_deploy_request_json [simp]: "json_deploy_request (deploy_request_json q) = Some q"
  by (cases "dq_init_args q") (simp_all add: json_deploy_request_def deploy_request_json_def get_field_def to_option_def)

lemma as_bytes_as_text [simp]: "as_bytes (as_text b) = b"
proof -
  have "of_nat (of_char (char_of (unat x) :: char)) = x" for x :: u8
    using unat_bound [of x] by (simp add: of_char_of)
  then show ?thesis
    by (simp add: as_bytes_def as_text_def map_idI)
qed

lemma json_call_request_json [simp]: "json_call_request (call_request_json q) = Some q"
  by (cases "cq_args q") (simp_all add: json_call_request_def call_request_json_def get_field_def to_option_def)

lemma json_item_responses:
  assumes "wire_ok V"
  shows "json_item ''transaction'' (we_json_tx V) (transaction_response_json V r) = Some (tr_transaction r)"
    and "json_item ''block'' (we_json_block V) (block_response_json V b) = Some (bk_block b)"
proof -
  have "of_option (we_json_tx V) (to_option (we_tx_json V) (Some x)) = Some (Some x)"
    "of_option (we_json_block V) (to_option (we_block_json V) (Some y)) = Some (Some y)" for x y
    by (rule of_option_to_option; simp add: wire_okD [OF assms])+
  then have "of_option (we_json_tx V) (to_option (we_tx_json V) ot) = Some ot"
    "of_option (we_json_block V) (to_option (we_block_json V) ob) = Some ob" for ot ob
    by (cases ot; cases ob; simp add: to_option_def)+
  then show "json_item ''transaction'' (we_json_tx V) (transaction_response_json V r) = Some (tr_transaction r)"
    and "json_item ''block'' (we_json_block V) (block_response_json V b) = Some (bk_block b)"
    by (simp_all add: json_item_def get_field_def transaction_response_json_def block_response_json_def)
qed

lemma decode_answer:
  "wire_ok V \<Longrightarrow> decode_body V dec \<lparr>hr_status = s, hr_body = we_print V j\<rparr> =
     (case dec j of None \<Rightarrow> Inl SerializationError | Some x \<Rightarrow> Inr x)"
  by (simp add: decode_body_def wire_okD)

lemma with_path_plain: "wire_ok V \<Longrightarrow> plain s \<Longrightarrow> with_path V s handler st = (handler s, st)"
  by (simp add: with_path_def wire_okD)

lemma with_body_printed:
  "wire_ok V \<Longrightarrow> with_body V dec (we_print V j) handler st =
     (case dec j of None \<Rightarrow> (\<lparr>hr_status = 422, hr_body = we_empty V\<rparr>, st) | Some x \<Rightarrow> handler x)"
  by (simp add: with_body_def wire_okD)


lemma hex_nonempty: "wire_ok V \<Longrightarrow> x \<noteq> [] \<Longrightarrow> hex_enc (we_hex V) x \<noteq> ''''"
  using wire_okD(8) [of V x] by auto

lemma plain_address: "wire_ok V \<Longrightarrow> plain (format_address (we_hex V) a)"
  using wire_okD(7) [of V a] by (simp add: format_address_def plain_def)

lemma serve_balance:
  assumes "wire_ok V"
  shows "serve V S GET (''/balance/'' @ format_address (we_hex V) a) body rs =
    (respond V balance_json (rpc_get_balance (we_hex V) (format_address (we_hex V) a) rs), rs)"
  using plain_nonempty_route(1) [OF plain_address [OF assms]] with_path_plain [OF assms plain_address [OF assms]]
  by (simp add: serve_def format_address_def)

lemma serve_transaction:
  assumes "wire_ok V" and "h \<noteq> []"
  shows "serve V S GET (''/tx/'' @ hex_enc (we_hex V) h) body rs =
    (respond V (transaction_response_json V) (rpc_get_transaction (se_sha S) (we_hex V) (hex_enc (we_hex V) h) rs), rs)"
  using plain_nonempty_route(3) [OF wire_okD(7) [OF assms(1)] hex_nonempty [OF assms]]
    with_path_plain [OF assms(1) wire_okD(7) [OF assms(1)]]
  by (simp add: serve_def)

lemma serve_block:
  assumes "wire_ok V" and "h \<noteq> []"
  shows "serve V S GET (''/block/'' @ hex_enc (we_hex V) h) body rs =
    (respond V (block_response_json V) (rpc_get_block (we_hex V) (hex_enc (we_hex V) h) rs), rs)"
  using plain_nonempty_route(2) [OF wire_okD(7) [OF assms(1)] hex_nonempty [OF assms]]
    with_path_plain [OF assms(1) wire_okD(7) [OF assms(1)]]
  by (simp add: serve_def)

lemma serve_send:
  assumes "wire_ok V"
  shows "serve V S POST ''/send_tx'' (we_print V (JObj [(''transaction'', we_tx_json V tx)])) rs =
    apfst (respond V sent_json) (send_transaction (se_sha S) (se_secp S) (se_txs S) (se_now S) (se_now2 S) tx rs)"
  using wire_okD(2) [OF assms, of tx]
  by (simp add: serve_def fixed_routes with_body_printed [OF assms] get_field_def)

lemma serve_contracts:
  assumes "wire_ok V"
  shows "serve V S POST ''/contract/deploy'' (we_print V (deploy_request_json dq)) rs =
      apfst (respond V deploy_response_json)
        (rpc_deploy_contract (se_sha S) (se_txs S) (we_hex V) (se_ser_tx S) (se_now S) (se_now2 S) dq rs)"
    and "serve V S POST ''/contract/call'' (we_print V (call_request_json cq)) rs =
      apfst (respond V called_json)
        (rpc_call_contract (se_sha S) (se_txs S) (we_hex V) (se_now S) (se_now2 S) cq rs)"
  by (simp_all add: serve_def fixed_routes with_body_printed [OF assms])

lemma serve_node_info:
  "serve V S GET ''/node/info'' body rs = (respond V (node_info_json V) (Inr (get_node_info (se_peers S) rs)), rs)"
  by (simp add: serve_def fixed_routes)

lemma node_info_undecodable: "json_node_info (node_info_json V r) = None"
  by (simp add: json_node_info_def node_info_json_def get_field_def)

lemma respond_status:
  "hr_status (respond V f r) = (case r of Inl e \<Rightarrow> status_number e | Inr _ \<Rightarrow> 200)"
  by (simp add: respond_def split: sum.split)

text \<open>The outcome of every client call on a connected server.\<close>

lemma client_outcomes:
  assumes "wire_ok V" and "node_api http base (serve V S)" and "base_url c = base"
  shows "client_send_transaction V http c tx rs =
      (case send_transaction (se_sha S) (se_secp S) (se_txs S) (se_now S) (se_now2 S) tx rs of
         (Inl e, rs') \<Rightarrow> (Inl (RpcError (status_number e) (Some (we_empty V))), rs')
       | (Inr _, rs') \<Rightarrow> (Inr (), rs'))"
    and "client_get_balance V http c a rs =
      (case rpc_get_balance (we_hex V) (format_address (we_hex V) a) rs of
         Inl e \<Rightarrow> Inl (RpcError (status_number e) None) | Inr r \<Rightarrow> Inr r, rs)"
    and "h \<noteq> [] \<Longrightarrow> client_get_transaction V http c h rs =
      (case rpc_get_transaction (se_sha S) (we_hex V) (hex_enc (we_hex V) h) rs of
         Inl e \<Rightarrow> Inl (RpcError (status_number e) None) | Inr r \<Rightarrow> Inr (tr_transaction r), rs)"
    and "h \<noteq> [] \<Longrightarrow> client_get_block V http c h rs =
      (case rpc_get_block (we_hex V) (hex_enc (we_hex V) h) rs of
         Inl e \<Rightarrow> Inl (RpcError (status_number e) None) | Inr r \<Rightarrow> Inr (bk_block r), rs)"
    and "client_get_node_info V http c rs = (Inl SerializationError, rs)"
proof -
  note get = node_api.get_json_answer [OF assms(2,3)] and post = node_api.post_json_answer [OF assms(2,3)]
  note dec = decode_answer [OF assms(1)]
  obtain r rs' where s: "send_transaction (se_sha S) (se_secp S) (se_txs S) (se_now S) (se_now2 S) tx rs = (r, rs')"
    by fastforce
  show "client_send_transaction V http c tx rs =
      (case send_transaction (se_sha S) (se_secp S) (se_txs S) (se_now S) (se_now2 S) tx rs of
         (Inl e, rs') \<Rightarrow> (Inl (RpcError (status_number e) (Some (we_empty V))), rs')
       | (Inr _, rs') \<Rightarrow> (Inr (), rs'))"
    using post [OF serve_send [OF assms(1), of S tx rs, unfolded s apfst_conv]]
    by (auto simp: client_send_transaction_def s respond_def split: sum.split)
  show "client_get_balance V http c a rs =
      (case rpc_get_balance (we_hex V) (format_address (we_hex V) a) rs of
         Inl e \<Rightarrow> Inl (RpcError (status_number e) None) | Inr r \<Rightarrow> Inr r, rs)"
    by (auto simp: client_get_balance_def get [OF serve_balance [OF assms(1), unfolded append.simps]] respond_def dec
        split: sum.split)
  show "client_get_node_info V http c rs = (Inl SerializationError, rs)"
    by (simp add: client_get_node_info_def get [OF serve_node_info] respond_def dec node_info_undecodable)
  assume h: "h \<noteq> []"
  show "client_get_transaction V http c h rs =
      (case rpc_get_transaction (se_sha S) (we_hex V) (hex_enc (we_hex V) h) rs of
         Inl e \<Rightarrow> Inl (RpcError (status_number e) None) | Inr r \<Rightarrow> Inr (tr_transaction r), rs)"
    by (auto simp: client_get_transaction_def get [OF serve_transaction [OF assms(1) h, unfolded append.simps]]
        respond_def dec json_item_responses [OF assms(1)] split: sum.split)
  show "client_get_block V http c h rs =
      (case rpc_get_block (we_hex V) (hex_enc (we_hex V) h) rs of
         Inl e \<Rightarrow> Inl (RpcError (status_number e) None) | Inr r \<Rightarrow> Inr (bk_block r), rs)"
    by (auto simp: client_get_block_def get [OF serve_block [OF assms(1) h, unfolded append.simps]]
        respond_def dec json_item_responses [OF assms(1)] split: sum.split)
qed


lemma client_contracts_refused:
  assumes "wire_ok V" and "node_api http base (serve V S)" and "base_url c = base" and "length from = 20"
  shows "\<exists>rs'. client_deploy_contract V http c from nonce wasm args rs = (Inl (RpcError 500 (Some (we_empty V))), rs')
      \<and> (\<exists>mp. rs' = rs\<lparr>rs_mempool := mp\<rparr>)"
    and "\<exists>s rs'. client_call_contract V http c from nonce contract meth args rs = (Inl (RpcError s (Some (we_empty V))), rs')
      \<and> (\<exists>mp. rs' = rs\<lparr>rs_mempool := mp\<rparr>) \<and> s \<in> {400, 500}"
proof -
  note post = node_api.post_json_answer [OF assms(2,3)]
  let ?H = "we_hex V"
  let ?dq = "\<lparr>dq_from = format_address ?H from, dq_nonce = nonce, dq_wasm_code = hex_enc ?H wasm,
    dq_init_args = map_option (hex_enc ?H) args\<rparr>"
  let ?cq = "\<lparr>cq_from = format_address ?H from, cq_nonce = nonce, cq_contract_address = contract,
    cq_method = meth, cq_args = map_option (hex_enc ?H) args\<rparr>"
  obtain e mp where d: "rpc_deploy_contract (se_sha S) (se_txs S) ?H (se_ser_tx S) (se_now S) (se_now2 S) ?dq rs =
      (Inl e, rs\<lparr>rs_mempool := mp\<rparr>)"
    using deploy_refused by blast
  have "e = INTERNAL_SERVER_ERROR"
    using d wire_okD(6) [OF assms(1)] parse_address_roundtrip [OF wire_okD(6) [OF assms(1)] assms(4)]
    by (auto simp: rpc_deploy_contract_def hex_codec_ok_def format_address_def Let_def split: prod.splits sum.splits)
  then have "client_deploy_contract V http c from nonce wasm args rs = (Inl (RpcError 500 (Some (we_empty V))), rs\<lparr>rs_mempool := mp\<rparr>)"
    using d by (simp add: client_deploy_contract_def
        post [OF serve_contracts(1) [OF assms(1), of S ?dq rs, unfolded d apfst_conv]] respond_def)
  then show "\<exists>rs'. client_deploy_contract V http c from nonce wasm args rs = (Inl (RpcError 500 (Some (we_empty V))), rs')
      \<and> (\<exists>mp. rs' = rs\<lparr>rs_mempool := mp\<rparr>)"
    by blast
  obtain e' mp' where k: "rpc_call_contract (se_sha S) (se_txs S) ?H (se_now S) (se_now2 S) ?cq rs =
      (Inl e', rs\<lparr>rs_mempool := mp'\<rparr>)"
    using call_refused by blast
  have "e' = INTERNAL_SERVER_ERROR \<or> e' = BAD_REQUEST"
    using k by (auto simp: rpc_call_contract_def parse_address_def Let_def
        split: prod.splits sum.splits if_splits option.splits)
  then have "status_number e' \<in> {400, 500}"
    by auto
  moreover have "client_call_contract V http c from nonce contract meth args rs =
      (Inl (RpcError (status_number e') (Some (we_empty V))), rs\<lparr>rs_mempool := mp'\<rparr>)"
    by (simp add: client_call_contract_def
        post [OF serve_contracts(2) [OF assms(1), of S ?cq rs, unfolded k apfst_conv]] respond_def)
  ultimately show "\<exists>s rs'. client_call_contract V http c from nonce contract meth args rs = (Inl (RpcError s (Some (we_empty V))), rs')
      \<and> (\<exists>mp. rs' = rs\<lparr>rs_mempool := mp\<rparr>) \<and> s \<in> {400, 500}"
    by blast
qed

lemma rpc_balance_of_address:
  assumes "wire_ok V" and "length a = 20"
  shows "rpc_get_balance (we_hex V) (format_address (we_hex V) a) rs =
    (case tree_get (state_tree (rs_state rs)) a of
       None \<Rightarrow> Inl NOT_FOUND
     | Some acc \<Rightarrow> Inr \<lparr>br_address = format_address (we_hex V) a, br_balance = acc_balance acc, br_nonce = acc_nonce acc\<rparr>)"
  using wire_okD(6) [OF assms(1)] assms(2)
  by (simp add: rpc_get_balance_def format_address_def hex_codec_ok_def split: option.split)

section \<open>Sample instances\<close>

definition hex_digit :: "nat \<Rightarrow> char" where
  "hex_digit n = ''0123456789abcdef'' ! n"

definition digit_value :: "char \<Rightarrow> nat" where
  "digit_value c = length (takeWhile (\<lambda>d. d \<noteq> c) ''0123456789abcdef'')"

definition hex_byte :: "u8 \<Rightarrow> string" where
  "hex_byte x = [hex_digit (unat x div 16), hex_digit (unat x mod 16)]"

fun unhex :: "string \<Rightarrow> bytes option" where
  "unhex [] = Some []"
| "unhex [c] = None"
| "unhex (c # d # s) =
     (if digit_value c < 16 \<and> digit_value d < 16
      then map_option (Cons (of_nat (16 * digit_value c + digit_value d))) (unhex s) else None)"

definition real_hex :: hex_codec where
  "real_hex = \<lparr>hex_enc = (\<lambda>bs. concat (map hex_byte bs)), hex_dec = unhex\<rparr>"

lemma hex_digits:
  assumes "n < 16"
  shows "digit_value (hex_digit n) = n" "hex_digit n \<in> set ''0123456789abcdef''"
proof -
  have "\<forall>n \<in> set [0..<16]. digit_value (hex_digit n) = n \<and> hex_digit n \<in> set ''0123456789abcdef''"
    by (simp add: upt_rec hex_digit_def digit_value_def)
  with assms show "digit_value (hex_digit n) = n" "hex_digit n \<in> set ''0123456789abcdef''"
    by auto
qed

lemma nibbles: "unat (x :: u8) div 16 < 16" "unat x mod 16 < 16"
  using unat_bound [of x] by simp_all

lemma unhex_bytes: "unhex (concat (map hex_byte bs)) = Some bs"
  by (induction bs) (simp_all add: hex_byte_def hex_digits nibbles)

lemma real_hex_ok:
  "hex_codec_ok real_hex" "plain (hex_enc real_hex b)" "length (hex_enc real_hex b) = 2 * length b"
proof -
  show "hex_codec_ok real_hex"
    by (simp add: hex_codec_ok_def real_hex_def unhex_bytes)
  show "plain (hex_enc real_hex b)"
    using hex_digits(2) [OF nibbles(1)] hex_digits(2) [OF nibbles(2)]
    by (induction b) (auto simp: plain_def real_hex_def hex_byte_def)
  show "length (hex_enc real_hex b) = 2 * length b"
    by (induction b) (simp_all add: real_hex_def hex_byte_def)
qed


text \<open>An environment in which JSON text is the JSON value itself.\<close>

definition sample_wire :: "(nat, transaction + block, (transaction + block) json) wire_env" where
  "sample_wire =
     \<lparr>we_empty = JNull, we_print = id, we_parse = Some, we_tx_json = (\<lambda>tx. JOpaque (Inl tx)),
      we_json_tx = (\<lambda>j. case j of JOpaque (Inl tx) \<Rightarrow> Some tx | _ \<Rightarrow> None),
      we_block_json = (\<lambda>b. JOpaque (Inr b)),
      we_json_block = (\<lambda>j. case j of JOpaque (Inr b) \<Rightarrow> Some b | _ \<Rightarrow> None),
      we_hex = real_hex, we_pct = Some, we_peer = (\<lambda>_. ''peer'')\<rparr>"

definition sample_serve :: "(unit, unit, unit, nat) serve_env" where
  "sample_serve = \<lparr>se_sha = ones_sha, se_secp = sample_secp, se_txs = id, se_enum = (\<lambda>_. []), se_peers = id,
     se_ser_tx = (\<lambda>_. None), se_now = 7, se_now2 = 7\<rparr>"

definition sample_rpc :: "nat rpc_state" where
  "sample_rpc = \<lparr>rs_dag = block_dag_new [], rs_mempool = mempool_new 2 1, rs_state = sample_state, rs_p2p = None\<rparr>"

lemma sample_wire_ok: "wire_ok sample_wire"
  by (simp add: wire_ok_def sample_wire_def real_hex_ok)

lemma ones_sha_len: "sha_len ones_sha"
  by (simp add: sha_len_def ones_sha_def)

lemma sample_send:
  "fst (send_transaction ones_sha sample_secp id 7 7 (genesis_transfer (replicate 20 3)) sample_rpc) = Inr ()"
  using genesis_transfer_valid [of "replicate 20 3"] sample_state_balance
  by (simp add: send_transaction_def add_transaction_def Let_def make_room_def mempool_new_def sample_rpc_def
      genesis_transfer_def new_transfer_def)

section \<open>Properties\<close>

text \<open>
  C14. A transaction that the client library submits successfully can be read back with its hash,
  unchanged, and it is a valid one: through the printed request, the router, the handlers of
  the server, the mempool and the printed answer.
\<close>

theorem sdk_submit_then_read:
  assumes "wire_ok V" and "sha_len (se_sha S)" and "node_api http base (serve V S)" and "base_url c = base"
    and "client_send_transaction V http c tx rs = (Inr (), rs')"
  shows "tx_validate_basic (se_sha S) (se_secp S) tx = Inr ()
    \<and> client_get_transaction V http c (tx_hash (se_sha S) tx) rs' = (Inr (Some tx), rs')"
proof -
  note out = client_outcomes [OF assms(1,3,4)]
  have s: "send_transaction (se_sha S) (se_secp S) (se_txs S) (se_now S) (se_now2 S) tx rs = (Inr (), rs')"
    using assms(5) by (auto simp: out(1) split: prod.splits sum.splits)
  have "tx_hash (se_sha S) tx \<noteq> []"
    using tx_hash_length [OF assms(2), of tx] by auto
  with submitted_lookup [OF wire_okD(6) [OF assms(1)] assms(2) s] show ?thesis
    by (simp add: out(3))
qed

theorem sdk_submit_then_read_witness:
  "let http = direct ''http://node'' (serve sample_wire sample_serve); c = client_new ''http://node/'';
       tx = genesis_transfer (replicate 20 3); rs' = snd (client_send_transaction sample_wire http c tx sample_rpc)
   in client_get_transaction sample_wire http c (tx_hash ones_sha tx) rs' = (Inr (Some tx), rs')"
proof -
  let ?tx = "genesis_transfer (replicate 20 3)" and ?c = "client_new ''http://node/''"
  let ?http = "direct ''http://node'' (serve sample_wire sample_serve)"
  have c: "base_url ?c = ''http://node''"
    by (simp add: client_new_def)
  note api = direct_api.node_api_axioms [of "''http://node''" "serve sample_wire sample_serve"]
  have S: "se_sha sample_serve = ones_sha" "se_secp sample_serve = sample_secp" "se_txs sample_serve = id"
    "se_now sample_serve = 7" "se_now2 sample_serve = 7"
    by (simp_all add: sample_serve_def)
  have "fst (client_send_transaction sample_wire ?http ?c ?tx sample_rpc) = Inr ()"
    using sample_send by (auto simp: client_outcomes(1) [OF sample_wire_ok api c] S split: prod.splits sum.splits)
  then have "client_send_transaction sample_wire ?http ?c ?tx sample_rpc =
      (Inr (), snd (client_send_transaction sample_wire ?http ?c ?tx sample_rpc))"
    by (metis prod.collapse)
  from sdk_submit_then_read [OF sample_wire_ok _ api c this] show ?thesis
    by (simp add: Let_def S ones_sha_len)
qed

text \<open>
  C32. The balance that the client library reports is the one of the ledger, for every address: the
  account with its nonce when there is one, and status 404 when there is none. Reading changes
  nothing.
\<close>

theorem sdk_balance_is_ledger_balance:
  assumes "wire_ok V" and "node_api http base (serve V S)" and "base_url c = base" and "length a = 20"
  shows "client_get_balance V http c a rs =
    (case tree_get (state_tree (rs_state rs)) a of
       None \<Rightarrow> Inl (RpcError 404 None)
     | Some acc \<Rightarrow> Inr \<lparr>br_address = format_address (we_hex V) a, br_balance = acc_balance acc, br_nonce = acc_nonce acc\<rparr>, rs)"
  by (simp add: client_outcomes(2) [OF assms(1-3)] rpc_balance_of_address [OF assms(1,4)] split: option.split)

theorem sdk_balance_is_ledger_balance_witness:
  "map_sum id br_balance (fst (client_get_balance sample_wire (direct ''http://node'' (serve sample_wire sample_serve))
     (client_new ''http://node'') GENESIS_WALLET sample_rpc)) = Inr 100000000"
proof -
  have "tree_get (state_tree (rs_state sample_rpc)) GENESIS_WALLET = Some (account_new 100000000 0)"
    by (simp add: sample_rpc_def sample_state_def tree_get_def initialized_state)
  then show ?thesis
    using sdk_balance_is_ledger_balance [OF sample_wire_ok direct_api.node_api_axioms, of "client_new ''http://node''"
        "''http://node''" GENESIS_WALLET sample_serve sample_rpc]
    by (simp add: client_new_def GENESIS_WALLET_def account_new_def)
qed

text \<open>
  The node information never arrives: the server names its peer id as a text, the client library
  reads an array of 32 numbers, so every query fails to decode, and waiting for a height fails
  at the first attempt, however high the node is.
\<close>

theorem sdk_node_info_never_decodes:
  assumes "wire_ok V" and "node_api http base (serve V S)" and "base_url c = base"
  shows "client_get_node_info V http c rs = (Inl SerializationError, rs)
    \<and> wait_for_height V http c target (Suc attempts) rs = (Inl SerializationError, rs)"
  by (simp add: client_outcomes(5) [OF assms] wait_for_height_def)

theorem sdk_node_info_never_decodes_witness:
  "wait_for_height sample_wire (direct ''http://node'' (serve sample_wire sample_serve)) (client_new ''http://node'')
     0 (Suc 4) sample_rpc = (Inl SerializationError, sample_rpc)"
  using sdk_node_info_never_decodes [OF sample_wire_ok direct_api.node_api_axioms, of "client_new ''http://node''"
      "''http://node''" sample_serve sample_rpc 0 4]
  by (simp add: client_new_def)

text \<open>
  Contracts cannot be deployed or called with the client library: the server answers every
  deployment with status 500 and every call with 400 or 500.
\<close>

theorem sdk_contracts_always_fail:
  assumes "wire_ok V" and "node_api http base (serve V S)" and "base_url c = base" and "length from = 20"
  shows "fst (contract_deploy V http c from nonce wasm args rs) = Inl (RpcError 500 (Some (we_empty V)))
    \<and> (\<exists>s \<in> {400, 500}. fst (contract_call V http c from nonce contract meth args rs) = Inl (RpcError s (Some (we_empty V))))"
proof -
  obtain rs1 where "client_deploy_contract V http c from nonce wasm args rs = (Inl (RpcError 500 (Some (we_empty V))), rs1)"
    using client_contracts_refused(1) [OF assms] by blast
  moreover obtain s rs2 where "client_call_contract V http c from nonce contract meth args rs =
      (Inl (RpcError s (Some (we_empty V))), rs2)" "s \<in> {400, 500}"
    using client_contracts_refused(2) [OF assms] by blast
  ultimately show ?thesis
    by (simp add: contract_deploy_def contract_call_def)
qed

theorem sdk_contracts_always_fail_witness:
  "fst (contract_deploy sample_wire (direct ''http://node'' (serve sample_wire sample_serve))
     (contract_client_new ''http://node'') GENESIS_WALLET 0 [0, 97] None sample_rpc) = Inl (RpcError 500 (Some JNull))"
proof -
  have "we_empty sample_wire = JNull"
    by (simp add: sample_wire_def)
  then show ?thesis
    using sdk_contracts_always_fail [OF sample_wire_ok direct_api.node_api_axioms, of "contract_client_new ''http://node''"
        "''http://node''" GENESIS_WALLET sample_serve 0 "[0, 97]" None sample_rpc "''''" "[]"]
    by (simp add: contract_client_new_def client_new_def GENESIS_WALLET_def)
qed

end
