(* ===== verification/Cli.thy ===== *)
theory Cli
  imports Sdk_Client
begin

text \<open>
  The commands of the command line: \<^verbatim>\<open>src/src/cli/cli.rs\<close>, whose handlers speak to the RPC server of a node.

  A handler returns what it prints, as a value of \<open>cli_output\<close>. \<open>load\<close> is what the wallet file at a
  path holds, \<open>read_file\<close> the content of a file; both are \<open>None\<close> on an error. An index or a copy
  of the wrong length panics: \<open>CliPanic\<close>. Starting a node is \<open>Node_Runtime\<close>.
\<close>

section \<open>Commands\<close>

datatype cli_error =
    WalletFileError | BadRecipientFormat | BadRecipientHex | BadRecipientLength | BadSenderHex | CliPanic
  | CliNetwork | CliBadJson | CliSign tx_error | WalletRequired | WasmFileError

datatype 'v cli_output =
    BalanceShown string "'v json" "'v json"
  | BalanceFailed
  | TxSent "'v json" "'v json"
  | TxFailed
  | ContractDeployed "'v json" "'v json"
  | DeployFailed
  | CallSubmitted "'v json" "'v json option"
  | CallFailed
  | WalletCreated string bytes

text \<open>Indexing a JSON value by a key gives \<open>null\<close> where there is none.\<close>

definition json_index :: "string \<Rightarrow> 'v json \<Rightarrow> 'v json" where
  "json_index key j = (case field key j of None \<Rightarrow> JNull | Some x \<Rightarrow> x)"

text \<open>A new wallet, shown with its address and public key; with a path it is saved there.\<close>

definition handle_wallet_create ::
  "(bytes \<Rightarrow> bytes) \<Rightarrow> hex_codec \<Rightarrow> ('sk, 'pk, 'rs) secp \<Rightarrow> 'sk key_bytes \<Rightarrow> (string \<Rightarrow> ('sk, 'pk) wallet \<Rightarrow> 'f \<Rightarrow> 'f option)
    \<Rightarrow> bytes \<Rightarrow> string option \<Rightarrow> 'f \<Rightarrow> (cli_error + 'v cli_output) \<times> 'f" where
  "handle_wallet_create sha H k B save secret_bytes output fs =
     (case wallet_new sha (hex_enc H) k B secret_bytes of
        Inl _ \<Rightarrow> (Inl CliPanic, fs)
      | Inr w \<Rightarrow>
          let shown = WalletCreated (wl_address w) (pk_serialize k (wl_public_key w)) in
          case output of
            None \<Rightarrow> (Inr shown, fs)
          | Some path \<Rightarrow> (case save path w fs of None \<Rightarrow> (Inl WalletFileError, fs) | Some fs' \<Rightarrow> (Inr shown, fs')))"

definition handle_wallet_balance ::
  "('p, 'v, 't) wire_env \<Rightarrow> ('t, 'n) transport \<Rightarrow> string \<Rightarrow> string \<Rightarrow> 'n \<Rightarrow> (cli_error + 'v cli_output) \<times> 'n" where
  "handle_wallet_balance V http address rpc_url n =
     (case http GET (rpc_url @ ''/balance/'' @ address) (we_empty V) n of
        (None, n') \<Rightarrow> (Inl CliNetwork, n')
      | (Some r, n') \<Rightarrow>
          if is_success (hr_status r) then
            (case we_parse V (hr_body r) of
               None \<Rightarrow> (Inl CliBadJson, n')
             | Some j \<Rightarrow> (Inr (BalanceShown address (json_index ''balance'' j) (json_index ''nonce'' j)), n'))
          else (Inr BalanceFailed, n'))"

text \<open>The nonce that the node reports for an address; 0 unless the answer has one.\<close>

definition query_nonce ::
  "('p, 'v, 't) wire_env \<Rightarrow> ('t, 'n) transport \<Rightarrow> string \<Rightarrow> string \<Rightarrow> 'n \<Rightarrow> (cli_error + u64) \<times> 'n" where
  "query_nonce V http rpc_url address n =
     (case http GET (rpc_url @ ''/balance/'' @ address) (we_empty V) n of
        (None, n') \<Rightarrow> (Inr 0, n')
      | (Some r, n') \<Rightarrow>
          if is_success (hr_status r) then
            (case we_parse V (hr_body r) of
               None \<Rightarrow> (Inl CliBadJson, n')
             | Some j \<Rightarrow> (Inr (case of_u64 (json_index ''nonce'' j) of None \<Rightarrow> 0 | Some x \<Rightarrow> x), n'))
          else (Inr 0, n'))"

text \<open>Posting a request and showing the answer.\<close>

definition post_and_show ::
  "('p, 'v, 't) wire_env \<Rightarrow> ('t, 'n) transport \<Rightarrow> string \<Rightarrow> 'v json \<Rightarrow> ('v json \<Rightarrow> 'v cli_output) \<Rightarrow> 'v cli_output \<Rightarrow> 'n
    \<Rightarrow> (cli_error + 'v cli_output) \<times> 'n" where
  "post_and_show V http u request shown failed n =
     (case http POST u (we_print V request) n of
        (None, n') \<Rightarrow> (Inl CliNetwork, n')
      | (Some r, n') \<Rightarrow>
          if is_success (hr_status r) then
            (case we_parse V (hr_body r) of None \<Rightarrow> (Inl CliBadJson, n') | Some j \<Rightarrow> (Inr (shown j), n'))
          else (Inr failed, n'))"

definition recipient_address :: "hex_codec \<Rightarrow> string \<Rightarrow> cli_error + address" where
  "recipient_address H to =
     (if take 3 to \<noteq> ''cyt'' then Inl BadRecipientFormat
      else case hex_dec H (drop 3 to) of
        None \<Rightarrow> Inl BadRecipientHex
      | Some b \<Rightarrow> if length b \<noteq> 20 then Inl BadRecipientLength else Inr b)"

definition sender_address :: "hex_codec \<Rightarrow> string \<Rightarrow> cli_error + address" where
  "sender_address H address =
     (if length address < 3 then Inl CliPanic
      else case hex_dec H (drop 3 address) of
        None \<Rightarrow> Inl BadSenderHex
      | Some b \<Rightarrow> if length b \<noteq> 20 then Inl CliPanic else Inr b)"

definition handle_tx_send ::
  "('p, 'v, 't) wire_env \<Rightarrow> (bytes \<Rightarrow> bytes) \<Rightarrow> ('sk, 'pk, 'rs) secp \<Rightarrow> ('t, 'n) transport \<Rightarrow> (string \<Rightarrow> ('sk, 'pk) wallet option)
    \<Rightarrow> string \<Rightarrow> string \<Rightarrow> u64 \<Rightarrow> string \<Rightarrow> 'n \<Rightarrow> (cli_error + 'v cli_output) \<times> 'n" where
  "handle_tx_send V sha k http load wallet_path to amount rpc_url n =
     (case load wallet_path of
        None \<Rightarrow> (Inl WalletFileError, n)
      | Some w \<Rightarrow>
     (case recipient_address (we_hex V) to of
        Inl e \<Rightarrow> (Inl e, n)
      | Inr to_addr \<Rightarrow>
     (case sender_address (we_hex V) (wl_address w) of
        Inl e \<Rightarrow> (Inl e, n)
      | Inr from_addr \<Rightarrow>
     (case query_nonce V http rpc_url (wl_address w) n of
        (Inl e, n1) \<Rightarrow> (Inl e, n1)
      | (Inr nonce, n1) \<Rightarrow>
     (case sign sha k (wl_private_key w) (new_transfer from_addr to_addr amount nonce 21000 1) of
        Inl e \<Rightarrow> (Inl (CliSign e), n1)
      | Inr tx \<Rightarrow>
          post_and_show V http (rpc_url @ ''/send_tx'') (JObj [(''transaction'', we_tx_json V tx)])
            (\<lambda>j. TxSent (json_index ''status'' j) (json_index ''message'' j)) TxFailed n1)))))"

definition handle_contract_deploy ::
  "('p, 'v, 't) wire_env \<Rightarrow> ('t, 'n) transport \<Rightarrow> (string \<Rightarrow> ('sk, 'pk) wallet option) \<Rightarrow> (string \<Rightarrow> bytes option)
    \<Rightarrow> string \<Rightarrow> string option \<Rightarrow> string \<Rightarrow> 'n \<Rightarrow> (cli_error + 'v cli_output) \<times> 'n" where
  "handle_contract_deploy V http load read_file wasm_path wallet_path rpc_url n =
     (case wallet_path of
        None \<Rightarrow> (Inl WalletRequired, n)
      | Some path \<Rightarrow>
     (case load path of
        None \<Rightarrow> (Inl WalletFileError, n)
      | Some w \<Rightarrow>
     (case read_file wasm_path of
        None \<Rightarrow> (Inl WasmFileError, n)
      | Some wasm_code \<Rightarrow>
     (case query_nonce V http rpc_url (wl_address w) n of
        (Inl e, n1) \<Rightarrow> (Inl e, n1)
      | (Inr nonce, n1) \<Rightarrow>
          post_and_show V http (rpc_url @ ''/contract/deploy'')
            (JObj [(''from'', JStr (wl_address w)), (''nonce'', to_u64 nonce),
              (''wasm_code'', JStr (hex_enc (we_hex V) wasm_code)), (''init_args'', JNull)])
            (\<lambda>j. ContractDeployed (json_index ''contract_address'' j) (json_index ''tx_hash'' j)) DeployFailed n1))))"

definition handle_contract_call ::
  "('p, 'v, 't) wire_env \<Rightarrow> ('t, 'n) transport \<Rightarrow> (string \<Rightarrow> ('sk, 'pk) wallet option) \<Rightarrow> string \<Rightarrow> string \<Rightarrow> string option
    \<Rightarrow> string option \<Rightarrow> string \<Rightarrow> 'n \<Rightarrow> (cli_error + 'v cli_output) \<times> 'n" where
  "handle_contract_call V http load contract meth args wallet_path rpc_url n =
     (case wallet_path of
        None \<Rightarrow> (Inl WalletRequired, n)
      | Some path \<Rightarrow>
     (case load path of
        None \<Rightarrow> (Inl WalletFileError, n)
      | Some w \<Rightarrow>
     (case query_nonce V http rpc_url (wl_address w) n of
        (Inl e, n1) \<Rightarrow> (Inl e, n1)
      | (Inr nonce, n1) \<Rightarrow>
          post_and_show V http (rpc_url @ ''/contract/call'')
            (JObj [(''from'', JStr (wl_address w)), (''nonce'', to_u64 nonce), (''contract_address'', JStr contract),
              (''method'', JStr meth), (''args'', to_option JStr args)])
            (\<lambda>j. CallSubmitted (json_index ''status'' j) (field ''result'' j)) CallFailed n1)))"

section \<open>Lemmas\<close>

lemma post_refused:
  assumes "node_api http base (serve V S)" and "serve V S POST (CHR ''/'' # path) (we_print V request) rs = (r, rs')"
    and "\<not> is_success (hr_status r)"
  shows "post_and_show V http (base @ CHR ''/'' # path) request shown failed rs = (Inr failed, rs')"
  using node_api.delivers [OF assms(1), of POST path "we_print V request" rs] assms(2,3)
  by (simp add: post_and_show_def)

lemma wallet_tx_address_mismatch:
  assumes "sha_len sha" and "secp_ok k" and "sign sha k sk tx = Inr tx'"
    and "address_of sha k (public_key k sk) \<noteq> tx_from tx"
  shows "tx_validate_basic sha k tx' \<noteq> Inr ()"
proof -
  have "tx_from tx' = tx_from tx"
    using assms(3) by (auto simp: sign_def split: option.splits prod.splits)
  then show ?thesis
    using verify_signature_sign [OF assms(1-3)] assms(4) by (auto simp: tx_validate_basic_def split: if_splits)
qed

lemma signing_succeeds: "sha_len sha \<Longrightarrow> secp_ok k \<Longrightarrow> \<exists>tx'. sign sha k sk tx = Inr tx'"
  by (cases "sig_to_compact k (sign_recoverable k (tx_hash sha tx) sk)")
    (auto simp: sign_def secp_ok_def tx_hash_length)

text \<open>The address that a wallet shows, and the one that the node computes for its key.\<close>

definition wallet_address_bytes :: "(bytes \<Rightarrow> bytes) \<Rightarrow> ('sk, 'pk, 'rs) secp \<Rightarrow> 'pk \<Rightarrow> address" where
  "wallet_address_bytes sha k pk = take 20 (sha (pk_serialize k pk))"

lemma sender_of_wallet:
  assumes "hex_codec_ok H" and "sha_len sha" and "w = from_private_key sha (hex_enc H) k sk"
  shows "sender_address H (wl_address w) = Inr (wallet_address_bytes sha k (public_key k sk))"
  using assms by (simp add: sender_address_def from_private_key_def public_key_to_address_def hex_codec_ok_def
      wallet_address_bytes_def)

lemma query_nonce_served:
  assumes "wire_ok V" and "node_api http base (serve V S)"
  shows "\<exists>nonce. query_nonce V http base (format_address (we_hex V) a) rs = (Inr nonce, rs)"
proof -
  have "http GET (base @ ''/balance/'' @ format_address (we_hex V) a) (we_empty V) rs =
      (Some (respond V balance_json (rpc_get_balance (we_hex V) (format_address (we_hex V) a) rs)), rs)"
    using node_api.delivers [OF assms(2), of GET "''balance/'' @ format_address (we_hex V) a" "we_empty V" rs]
      serve_balance [OF assms(1), of S a "we_empty V" rs]
    by simp
  then show ?thesis
    by (auto simp: query_nonce_def respond_def wire_okD [OF assms(1)] split: sum.split)
qed

section \<open>Properties\<close>

text \<open>
  No transfer that the command line sends is ever accepted: the address of a wallet is the head of
  the digest of its whole public key, a transaction must come from the tail of the digest of the key
  without its first byte. Unless these two digests agree there, the server answers every
  transfer of every wallet with an error, to any recipient, of any amount, whatever the ledger
  holds, and nothing changes.
\<close>

theorem cli_transfer_always_refused:
  assumes "wire_ok V" and "sha_len (se_sha S)" and "secp_ok (se_secp S)" and "node_api http base (serve V S)"
    and "load path = Some (from_private_key (se_sha S) (hex_enc (we_hex V)) (se_secp S) sk)"
    and "wallet_address_bytes (se_sha S) (se_secp S) (public_key (se_secp S) sk)
      \<noteq> address_of (se_sha S) (se_secp S) (public_key (se_secp S) sk)"
    and "length to = 20"
  shows "handle_tx_send V (se_sha S) (se_secp S) http load path (format_address (we_hex V) to) amount base rs =
    (Inr TxFailed, rs)"
proof -
  let ?sha = "se_sha S" and ?k = "se_secp S" and ?H = "we_hex V"
  let ?w = "from_private_key ?sha (hex_enc ?H) ?k sk" and ?a = "wallet_address_bytes ?sha ?k (public_key ?k sk)"
  note H = wire_okD(6) [OF assms(1)]
  have addr: "wl_address ?w = format_address ?H ?a"
    by (simp add: from_private_key_def public_key_to_address_def format_address_def wallet_address_bytes_def)
  obtain nonce where n: "query_nonce V http base (wl_address ?w) rs = (Inr nonce, rs)"
    using query_nonce_served [OF assms(1,4)] unfolding addr by blast
  let ?tx = "new_transfer ?a to amount nonce 21000 1"
  obtain tx where tx: "sign ?sha ?k sk ?tx = Inr tx"
    using signing_succeeds [OF assms(2,3)] by blast
  have "tx_validate_basic ?sha ?k tx \<noteq> Inr ()"
    using wallet_tx_address_mismatch [OF assms(2,3) tx] assms(6) by (simp add: new_transfer_def)
  then have "send_transaction ?sha ?k (se_txs S) (se_now S) (se_now2 S) tx rs = (Inl BAD_REQUEST, rs)"
    by (auto simp: send_transaction_def split: sum.split)
  from post_refused [OF assms(4), of "''send_tx''"] serve_send [OF assms(1), of S tx rs, unfolded this]
  have p: "post_and_show V http (base @ ''/send_tx'') (JObj [(''transaction'', we_tx_json V tx)]) shown TxFailed rs =
      (Inr TxFailed, rs)" for shown
    by (simp add: respond_def)
  have "recipient_address ?H (format_address ?H to) = Inr to"
    using H assms(7) by (simp add: recipient_address_def format_address_def hex_codec_ok_def)
  with n tx p sender_of_wallet [OF H assms(2), of ?w ?k sk] show ?thesis
    by (simp add: handle_tx_send_def assms(5) from_private_key_def)
qed

definition head_sha :: "bytes \<Rightarrow> bytes" where
  "head_sha x = replicate 20 1 @ replicate 12 0"

definition head_serve :: "(unit, unit, unit, nat) serve_env" where
  "head_serve = sample_serve\<lparr>se_sha := head_sha\<rparr>"

theorem cli_transfer_always_refused_witness:
  "handle_tx_send sample_wire head_sha sample_secp (direct ''http://node'' (serve sample_wire head_serve))
     (\<lambda>_. Some (from_private_key head_sha (hex_enc real_hex) sample_secp ())) ''wallet.json''
     (format_address real_hex (replicate 20 3)) 5 ''http://node'' sample_rpc = (Inr TxFailed, sample_rpc)"
proof -
  have S: "se_sha head_serve = head_sha" "se_secp head_serve = sample_secp" "we_hex sample_wire = real_hex"
    by (simp_all add: head_serve_def sample_serve_def sample_wire_def)
  have "sha_len head_sha"
    by (simp add: sha_len_def head_sha_def)
  moreover have "replicate 20 (1 :: u8) \<noteq> replicate 8 1 @ replicate 12 0"
    by (rule notI, drule arg_cong [of _ _ last]) simp
  then have "wallet_address_bytes head_sha sample_secp () \<noteq> address_of head_sha sample_secp ()"
    by (simp add: wallet_address_bytes_def address_of_def head_sha_def)
  ultimately show ?thesis
    using cli_transfer_always_refused [OF sample_wire_ok, where S = head_serve and base = "''http://node''"
        and http = "direct ''http://node'' (serve sample_wire head_serve)" and path = "''wallet.json''"
        and load = "\<lambda>_. Some (from_private_key head_sha (hex_enc real_hex) sample_secp ())" and sk = "()"
        and to = "replicate 20 3" and amount = 5 and rs = sample_rpc]
      direct_api.node_api_axioms [of "''http://node''" "serve sample_wire head_serve"]
    by (simp add: S del: replicate.simps)
qed

end
