(* ===== verification/Rollback.thy ===== *)
theory Rollback
  imports Block_Store Mempool
begin

text \<open>
  Rolling blocks back: \<open>rollback_blocks\<close> of \<^verbatim>\<open>src/src/storage/block_store.rs\<close>, which deletes blocks,
  gives their transactions back to the pool and rebuilds the ledger from the blocks that remain.

  The pool checks transactions against the ledger \<open>pst\<close> that it was built with. \<open>clock\<close> has the
  clock readings of the insertions into the pool, in their order.
\<close>

section \<open>Operations\<close>





section \<open>A store with deleted blocks in its cache\<close>









section \<open>The rebuilt ledger\<close>







section \<open>Properties\<close>



end
