(* ===== verification/Dag_Path.thy ===== *)
theory Dag_Path
  imports Ghostdag
begin

text \<open>
  Paths and deepest common ancestors: \<open>get_path\<close>, \<open>get_furthest_common_ancestor\<close> and the counts of
  \<^verbatim>\<open>src/src/consensus/dag_traversal.rs\<close>.

  The search remembers for every block from which one it was reached; a key enters this map once, so
  its newest entry stands first. Following the map back is a loop without a bound of its own:
  \<open>follow\<close> is \<open>None\<close> where it would not end, and the path is shown to exist.
\<close>

section \<open>Operations\<close>

partial_function (option) follow :: "('a \<times> 'a) list \<Rightarrow> 'a \<Rightarrow> 'a list option" where
  "follow pm c =
     (case map_of pm c of
        None \<Rightarrow> Some []
      | Some p \<Rightarrow> Option.bind (follow pm p) (\<lambda>l. Some (p # l)))"

fun push_path ::
  "'a list \<Rightarrow> 'a \<Rightarrow> 'a list \<Rightarrow> 'a set \<Rightarrow> ('a \<times> 'a) list \<Rightarrow> 'a list \<times> 'a set \<times> ('a \<times> 'a) list" where
  "push_path [] c q visited pm = (q, visited, pm)"
| "push_path (p # ps) c q visited pm =
     (if p \<in> visited then push_path ps c q visited pm
      else push_path ps c (q @ [p]) (insert p visited) ((p, c) # pm))"

lemma push_path_new:
  "fst (push_path ps c q visited pm) = fst (push_new ps q visited)"
  "fst (snd (push_path ps c q visited pm)) = snd (push_new ps q visited)"
  by (induction ps c q visited pm rule: push_path.induct) simp_all

function path_loop ::
  "'a graph \<Rightarrow> 'a \<Rightarrow> 'a list \<Rightarrow> 'a set \<Rightarrow> ('a \<times> 'a) list \<Rightarrow> 'a list option option" where
  "path_loop g target [] visited pm = Some None"
| "path_loop g target (c # q) visited pm =
     (if c = target then map_option (\<lambda>l. Some (rev (c # l))) (follow pm c)
      else let (q', visited', pm') = push_path (hm_list g c) c q visited pm
           in path_loop g target q' visited' pm')"
  by pat_completeness auto
termination
proof (relation "measure (\<lambda>(g, target, q, visited, pm). 2 * card (targets g - visited) + length q)", goal_cases)
  case (2 g target c q visited pm x q' y visited' pm')
  then have "q' = fst (push_new (hm_list g c) q visited)" "visited' = snd (push_new (hm_list g c) q visited)"
    by (metis fst_conv snd_conv push_path_new)+
  with push_new_measure [OF hm_list_targets finite_targets, of g c q visited] show ?case
    by (simp add: less_Suc_eq_le)
qed simp

declare path_loop.simps(2) [simp del]

definition get_path :: "block_dag \<Rightarrow> block_hash \<Rightarrow> block_hash \<Rightarrow> block_hash list option option" where
  "get_path d from to = path_loop (parent_graph (dag_store d)) from [to] {to} []"

text \<open>\<open>max_by_key\<close> keeps the last of equal elements.\<close>

definition max_by_key :: "('a \<Rightarrow> 'k::linorder) \<Rightarrow> 'a list \<Rightarrow> 'a option" where
  "max_by_key f xs =
     fold (\<lambda>x best. case best of None \<Rightarrow> Some x | Some y \<Rightarrow> if f y \<le> f x then Some x else best) xs None"

definition get_furthest_common_ancestor ::
  "(block_hash set \<Rightarrow> block_hash list) \<Rightarrow> block_dag \<Rightarrow> block_hash \<Rightarrow> block_hash \<Rightarrow> block_hash option" where
  "get_furthest_common_ancestor enum d h1 h2 =
     (let common = enum (trav_ancestors d h1 \<inter> trav_ancestors d h2) in
      if common = [] then find_lca (dag_store d) h1 h2
      else max_by_key (\<lambda>h. the (get_block_depth (dag_store d) h)) common)"

definition count_descendants :: "block_dag \<Rightarrow> block_hash \<Rightarrow> nat" where
  "count_descendants d h = card (trav_descendants d h)"

definition count_ancestors :: "block_dag \<Rightarrow> block_hash \<Rightarrow> nat" where
  "count_ancestors d h = card (trav_ancestors d h)"

section \<open>Following the map back\<close>

fun path_ok :: "'a graph \<Rightarrow> 'a \<Rightarrow> ('a \<times> 'a) list \<Rightarrow> bool" where
  "path_ok g start [] = True"
| "path_ok g start ((k, v) # pm) \<longleftrightarrow>
     (v = start \<or> v \<in> fst ` set pm) \<and> k \<noteq> start \<and> k \<notin> fst ` set pm \<and> k \<in> set (hm_list g v) \<and> path_ok g start pm"

lemma follow_path:
  assumes "path_ok g start pm" and "c = start \<or> c \<in> fst ` set pm"
    and "fst ` set newer \<inter> insert start (fst ` set pm) = {}"
  shows "\<exists>l. follow (newer @ pm) c = Some l \<and> last (c # l) = start
    \<and> successively (\<lambda>y x. y \<in> set (hm_list g x)) (c # l)"
  using assms
proof (induction pm arbitrary: c newer)
  case Nil
  then have "map_of newer c = None"
    by (auto simp: map_of_eq_None_iff)
  with Nil show ?case
    by (subst follow.simps) simp
next
  case (Cons kv pm)
  obtain k v where kv: "kv = (k, v)"
    by (cases kv)
  have n: "fst ` set (newer @ [(k, v)]) \<inter> insert start (fst ` set pm) = {}"
    using Cons.prems(1,3) by (auto simp: kv)
  have older: "\<exists>l. follow (newer @ (k, v) # pm) x = Some l \<and> last (x # l) = start
      \<and> successively (\<lambda>y x. y \<in> set (hm_list g x)) (x # l)" if "x = start \<or> x \<in> fst ` set pm" for x
    using Cons.IH [OF _ that n] Cons.prems(1) by (simp add: kv)
  show ?case
  proof (cases "c = k")
    case True
    have "map_of newer k = None"
      using Cons.prems(3) by (auto simp: kv map_of_eq_None_iff)
    then have "map_of (newer @ (k, v) # pm) k = Some v"
      by (simp add: map_add_def)
    moreover obtain l where "follow (newer @ (k, v) # pm) v = Some l" "last (v # l) = start"
      "successively (\<lambda>y x. y \<in> set (hm_list g x)) (v # l)"
      using older [of v] Cons.prems(1) by (auto simp: kv)
    moreover have "k \<in> set (hm_list g v)"
      using Cons.prems(1) by (simp add: kv)
    ultimately show ?thesis
      unfolding kv True by (subst follow.simps) (simp add: successively_Cons)
  next
    case False
    with Cons.prems(2) have "c = start \<or> c \<in> fst ` set pm"
      by (auto simp: kv)
    from older [OF this] show ?thesis
      by (simp add: kv)
  qed
qed

lemma push_path_ok:
  assumes "path_ok g start pm" and "visited = insert start (fst ` set pm)" and "set ps \<subseteq> set (hm_list g c)"
    and "c \<in> visited" and "push_path ps c q visited pm = (q', visited', pm')"
  shows "path_ok g start pm' \<and> visited' = insert start (fst ` set pm')"
  using assms
proof (induction ps c q visited pm rule: push_path.induct)
  case (2 p ps c q visited pm)
  show ?case
  proof (cases "p \<in> visited")
    case True
    with 2 show ?thesis
      by simp
  next
    case False
    have "path_ok g start ((p, c) # pm)" "insert p visited = insert start (fst ` set ((p, c) # pm))"
      using "2.prems"(1-4) False by auto
    from "2.IH"(2) [OF False this] "2.prems"(3-5) False show ?thesis
      by simp
  qed
qed simp

lemma path_loop_spec:
  assumes "path_ok g start pm" and "visited = insert start (fst ` set pm)" and "set q \<subseteq> visited"
    and "edges g `` (visited - set q) \<subseteq> visited" and "target \<notin> visited - set q"
  shows "case path_loop g target q visited pm of
      None \<Rightarrow> False
    | Some None \<Rightarrow> (start, target) \<notin> (edges g)\<^sup>*
    | Some (Some p) \<Rightarrow> p \<noteq> [] \<and> hd p = start \<and> last p = target \<and> successively (\<lambda>x y. y \<in> set (hm_list g x)) p"
  using assms
proof (induction g target q visited pm rule: path_loop.induct)
  case (1 g target visited pm)
  have "(start, y) \<in> (edges g)\<^sup>* \<Longrightarrow> y \<in> visited" for y
    by (induction rule: rtrancl_induct) (use 1 in auto)
  with 1 show ?case
    by auto
next
  case (2 g target c q visited pm)
  show ?case
  proof (cases "c = target")
    case True
    have "c = start \<or> c \<in> fst ` set pm"
      using "2.prems"(2,3) by auto
    from follow_path [OF "2.prems"(1) this, of "[]"] obtain l where l: "follow pm c = Some l" "last (c # l) = start"
      "successively (\<lambda>y x. y \<in> set (hm_list g x)) (c # l)"
      by auto
    then have "successively (\<lambda>x y. y \<in> set (hm_list g x)) (rev (c # l))"
      by (subst successively_rev)
    moreover have "hd (rev (c # l)) = start" "last (rev (c # l)) = target"
      using l(2) True by (simp_all only: hd_rev last_rev list.sel)
    ultimately show ?thesis
      by (simp add: path_loop.simps(2) True [symmetric] l(1))
  next
    case False
    obtain q' visited' pm' where p: "push_path (hm_list g c) c q visited pm = (q', visited', pm')"
      by (metis prod_cases3)
    have v': "visited' = visited \<union> set (hm_list g c)" and q': "q' = fst (push_new (hm_list g c) q visited)"
      using push_path_new [of "hm_list g c" c q visited pm] p by (simp_all add: push_new_seen)
    obtain new where new: "q' = q @ new" "set new = set (hm_list g c) - visited"
      using push_new_queue [of "hm_list g c" q visited] q' by auto
    have "c \<in> visited"
      using "2.prems"(3) by simp
    note ok = push_path_ok [OF "2.prems"(1,2) subset_refl this p]
    have "set q' \<subseteq> visited'"
      using "2.prems"(3) new v' by auto
    moreover have "edges g `` (visited' - set q') \<subseteq> visited'"
    proof -
      have "visited' - set q' \<subseteq> insert c (visited - set (c # q))"
        using new v' by auto
      then have "edges g `` (visited' - set q') \<subseteq> edges g `` {c} \<union> edges g `` (visited - set (c # q))"
        by blast
      also have "\<dots> \<subseteq> visited'"
        using "2.prems"(4) v' by (auto simp: edges_def)
      finally show ?thesis .
    qed
    moreover have "target \<notin> visited' - set q'"
      using "2.prems"(5) False new v' by auto
    ultimately show ?thesis
      using "2.IH" [OF False p [symmetric] refl refl] ok False by (simp add: path_loop.simps(2) p)
  qed
qed

section \<open>The greatest key\<close>

lemma max_by_key_spec:
  assumes "xs \<noteq> []"
  shows "\<exists>x. max_by_key f xs = Some x \<and> x \<in> set xs \<and> (\<forall>y \<in> set xs. f y \<le> f x)"
proof -
  have "\<exists>x. fold (\<lambda>x best. case best of None \<Rightarrow> Some x | Some y \<Rightarrow> if f y \<le> f x then Some x else best) xs (Some b) = Some x
      \<and> x \<in> insert b (set xs) \<and> (\<forall>y \<in> insert b (set xs). f y \<le> f x)" for b xs
  proof (induction xs arbitrary: b)
    case (Cons a xs)
    show ?case
      using Cons.IH [of a] Cons.IH [of b] by (cases "f b \<le> f a") (fastforce intro: order_trans)+
  qed simp
  from this [of "tl xs" "hd xs"] assms show ?thesis
    by (cases xs) (auto simp: max_by_key_def)
qed

lemma ancestor_height:
  assumes "dag_inv E d" and "is_ancestor (dag_store d) x y"
  shows "height_of (dag_store d) x < height_of (dag_store d) y"
proof -
  have "(y, x) \<in> (edges (parent_graph (dag_store d)))\<^sup>+"
    using assms(2) by (simp add: is_ancestor_def get_all_ancestors_reach)
  then show ?thesis
    by (induction rule: trancl_induct)
      (auto simp: edges_parent_graph_set dest!: parent_height [OF assms(1)])
qed

section \<open>Properties\<close>

text \<open>
  C25. \<open>get_path\<close> always ends: with a chain of parent links when the one block is the other or one of
  its ancestors, and with nothing otherwise. The chain starts at the descendant and ends at the
  ancestor.
\<close>

theorem get_path_finds_ancestors:
  "case get_path d from to of
      None \<Rightarrow> False
    | Some None \<Rightarrow> from \<noteq> to \<and> \<not> is_ancestor (dag_store d) from to
    | Some (Some p) \<Rightarrow> (from = to \<or> is_ancestor (dag_store d) from to)
        \<and> hd p = to \<and> last p = from \<and> successively (\<lambda>x y. y \<in> set (trav_parents d x)) p"
proof -
  let ?g = "parent_graph (dag_store d)"
  have par: "hm_list ?g x = trav_parents d x" for x
    by (simp add: trav_parents_def dag_get_block_def hm_list_def map_of_parent_graph split: option.split)
  have anc: "(from = to \<or> is_ancestor (dag_store d) from to) \<longleftrightarrow> (to, from) \<in> (edges ?g)\<^sup>*"
    by (auto simp: is_ancestor_def get_all_ancestors_reach rtrancl_eq_or_trancl)
  have chain: "(hd p, last p) \<in> (edges ?g)\<^sup>*" if "p \<noteq> []" "successively (\<lambda>x y. y \<in> set (hm_list ?g x)) p" for p
    using that
  proof (induction p rule: induct_list012)
    case (3 x y p)
    then show ?case
      by (auto intro: converse_rtrancl_into_rtrancl edgesI)
  qed simp_all
  have s: "case get_path d from to of
      None \<Rightarrow> False
    | Some None \<Rightarrow> (to, from) \<notin> (edges ?g)\<^sup>*
    | Some (Some p) \<Rightarrow> p \<noteq> [] \<and> hd p = to \<and> last p = from \<and> successively (\<lambda>x y. y \<in> set (hm_list ?g x)) p"
    unfolding get_path_def by (rule path_loop_spec) auto
  show ?thesis
  proof (cases "get_path d from to")
    case (Some r)
    show ?thesis
    proof (cases r)
      case None
      with s Some anc show ?thesis
        by simp
    next
      case (Some p)
      with s \<open>get_path d from to = Some r\<close> have p: "p \<noteq> []" "hd p = to" "last p = from"
        "successively (\<lambda>x y. y \<in> set (hm_list ?g x)) p"
        by simp_all
      have "(to, from) \<in> (edges ?g)\<^sup>*"
        using chain [OF p(1,4)] p(2,3) by simp
      with anc p Some \<open>get_path d from to = Some r\<close> show ?thesis
        by (simp add: par)
    qed
  qed (use s in simp)
qed


text \<open>
  Of two blocks with a common proper ancestor, \<open>get_furthest_common_ancestor\<close> returns one of greatest
  depth, which is then no ancestor of another common one.
\<close>

theorem furthest_common_ancestor_is_lowest:
  assumes "dag_inv E d" and "enumerates enum"
    and "is_ancestor (dag_store d) a h1" and "is_ancestor (dag_store d) a h2"
  shows "\<exists>x. get_furthest_common_ancestor enum d h1 h2 = Some x
    \<and> is_ancestor (dag_store d) x h1 \<and> is_ancestor (dag_store d) x h2
    \<and> (\<forall>y. is_ancestor (dag_store d) y h1 \<and> is_ancestor (dag_store d) y h2
          \<longrightarrow> the (get_block_depth (dag_store d) y) \<le> the (get_block_depth (dag_store d) x)
            \<and> \<not> is_ancestor (dag_store d) x y)"
proof -
  let ?v = "dag_store d"
  let ?S = "trav_ancestors d h1 \<inter> trav_ancestors d h2"
  have mem: "x \<in> ?S \<longleftrightarrow> is_ancestor ?v x h1 \<and> is_ancestor ?v x h2" for x
    by (simp add: trav_ancestors_all [OF assms(1)] is_ancestor_def)
  have "finite ?S"
    by (simp add: trav_ancestors_all [OF assms(1)] get_all_ancestors_reach finite_reach)
  then have e: "set (enum ?S) = ?S"
    by (rule enumerates_set [OF assms(2)])
  with assms(3,4) mem have "enum ?S \<noteq> []"
    by force
  with max_by_key_spec [OF this, of "\<lambda>h. the (get_block_depth ?v h)"] obtain x where
    x: "get_furthest_common_ancestor enum d h1 h2 = Some x" "x \<in> ?S"
    and m: "\<And>y. y \<in> ?S \<Longrightarrow> the (get_block_depth ?v y) \<le> the (get_block_depth ?v x)"
    unfolding get_furthest_common_ancestor_def Let_def e by auto
  have "\<not> is_ancestor ?v x y" if "y \<in> ?S" for y
    using m [OF that] ancestor_height [OF assms(1), of x y] by (auto simp: depth_is_height [OF assms(1)])
  with x m mem show ?thesis
    by blast
qed

theorem furthest_common_ancestor_is_lowest_witness:
  "\<exists>x. get_furthest_common_ancestor sorted_list_of_set sample_dag2 (replicate 32 172) (replicate 32 172) = Some x"
proof -
  have "is_ancestor (dag_store sample_dag2) (replicate 32 140) (replicate 32 172)"
    by (simp add: is_ancestor_def get_all_ancestors_reach edges_parent_graph_set parents_of_def hm_list_def
        map_of_parent_graph sample_dag2_store sample_child_facts sample_genesis_key r_into_trancl del: replicate.simps)
  moreover have "enumerates (sorted_list_of_set :: block_hash set \<Rightarrow> _)"
    by (simp add: enumerates_def)
  ultimately show ?thesis
    using furthest_common_ancestor_is_lowest [OF dag_reachable_inv [OF sample_dag2_reachable]] by blast
qed

end
