(* ===== verification/Interactive.thy ===== *)
theory Interactive
  imports Node_Runtime Cli
begin

text \<open>
  The interactive menus: \<^verbatim>\<open>src/src/cli/interactive.rs\<close>.

  A session reads lines and shows answers. \<open>menu_step\<close> is one turn of the loop of the menu it is in;
  a command that returns an error ends the session, since every menu hands errors on to its caller,
  and so does a panic. At the end of the input a line reads as the empty text. The node that a
  session starts runs its own task, the background steps of \<open>menu_run\<close>. What a turn meets outside
  of the program is the record \<open>outside\<close>: the clock, the databases that are opened, the key that
  is drawn. Text is ASCII.
\<close>

section \<open>Reading\<close>

definition is_space :: "char \<Rightarrow> bool" where
  "is_space c \<longleftrightarrow> of_char c \<in> {9, 10, 11, 12, 13, 32 :: nat}"

definition trim :: "string \<Rightarrow> string" where
  "trim s = rev (dropWhile is_space (rev (dropWhile is_space s)))"

definition read_line :: "string list \<Rightarrow> string \<times> string list" where
  "read_line input = (case input of [] \<Rightarrow> ('''', []) | l # ls \<Rightarrow> (trim l, ls))"

text \<open>\<open>parse\<close> of an unsigned integer below \<open>bound\<close>: digits, with an optional plus sign.\<close>

definition is_digit :: "char \<Rightarrow> bool" where
  "is_digit c \<longleftrightarrow> 48 \<le> (of_char c :: nat) \<and> of_char c \<le> (57 :: nat)"

definition decimal_value :: "string \<Rightarrow> nat" where
  "decimal_value s = fold (\<lambda>c n. 10 * n + (of_char c - 48)) s 0"

definition parse_uint :: "nat \<Rightarrow> string \<Rightarrow> nat option" where
  "parse_uint bound s =
     (let ds = (if s \<noteq> [] \<and> hd s = CHR ''+'' then tl s else s) in
      if ds \<noteq> [] \<and> list_all is_digit ds \<and> decimal_value ds < bound then Some (decimal_value ds) else None)"

definition read_choice :: "string list \<Rightarrow> nat \<times> string list" where
  "read_choice input = apfst (\<lambda>l. case parse_uint (2 ^ 32) l of None \<Rightarrow> 0 | Some n \<Rightarrow> n) (read_line input)"

section \<open>State\<close>

datatype menu_error =
    MenuPanic | OpenFailed | WalletFile | WalletFormat | WalletHex | WalletLength | AddressFormat | AddressHex
  | AddressLength | SignError tx_error | Refused node_error | FileError | RegistryError registry_error
  | VerifyError wallet_error | SignatureHex

datatype menu_output =
    InvalidOption | HelpShown | Goodbye | AlreadyRunning | NodeStarted | MiningEnabled | NotRunning
  | NodeStatus u64 nat nat nat bool | Submitted | BalanceOf u64 | AddressIs string
  | ContractFound nat nat | ContractMissing | ContractList "(string \<times> nat) list"
  | NewWallet string string "string option" | SignatureIs string | SignatureValid bool | PrivateKey string

datatype menu = MainMenu | NodeMenu | TransactionMenu | ContractMenu | SdkMenu | Ended "menu_error option"

datatype task = Starting | Looping

record ('sk, 'pk, 'rs, 'rdb, 'sdb, 'p, 'bdb, 'f) menu_env =
  me_node :: "('sk, 'pk, 'rs, 'rdb, 'sdb, 'p, 'bdb) node_env"
  me_hex :: hex_codec
  me_keys :: "'sk key_bytes"
  me_load :: "'f \<Rightarrow> string \<Rightarrow> ('sk, 'pk) wallet option"
  me_save :: "string \<Rightarrow> ('sk, 'pk) wallet \<Rightarrow> 'f \<Rightarrow> 'f option"
  me_read :: "'f \<Rightarrow> string \<Rightarrow> bytes option"

text \<open>
  The databases that a new node opens: the block store, those of the executor, of the pruner, and
  the one of its own contract registry; or how opening them fails.
\<close>

record ('rdb, 'sdb, 'p, 'bdb) databases =
  db_blocks :: block_view
  db_executor_registry :: 'rdb
  db_executor_storage :: 'sdb
  db_pruner :: 'p
  db_pruner_blocks :: "'bdb store"
  db_registry :: 'rdb

record ('rdb, 'sdb, 'p, 'bdb) outside =
  ou_now :: u64
  ou_now2 :: u64
  ou_opened :: "menu_error + ('rdb, 'sdb, 'p, 'bdb) databases"
  ou_secret :: bytes

record ('rdb, 'sdb, 'p, 'bdb, 'f) session =
  ss_node :: "(('rdb, 'sdb, 'p, 'bdb) node_runtime \<times> 'rdb) option"
  ss_task :: "task option"
  ss_menu :: menu
  ss_input :: "string list"
  ss_files :: 'f
  ss_shown :: "menu_output list"

definition session_new :: "string list \<Rightarrow> 'f \<Rightarrow> ('rdb, 'sdb, 'p, 'bdb, 'f) session" where
  "session_new input files =
     \<lparr>ss_node = None, ss_task = None, ss_menu = MainMenu, ss_input = input, ss_files = files, ss_shown = []\<rparr>"

definition prompt :: "('rdb, 'sdb, 'p, 'bdb, 'f) session \<Rightarrow> string \<times> ('rdb, 'sdb, 'p, 'bdb, 'f) session" where
  "prompt s = (fst (read_line (ss_input s)), s\<lparr>ss_input := snd (read_line (ss_input s))\<rparr>)"

definition address_from_wallet :: "hex_codec \<Rightarrow> ('sk, 'pk) wallet \<Rightarrow> menu_error + address" where
  "address_from_wallet H w =
     (if take 3 (wl_address w) \<noteq> ''cyt'' then Inl WalletFormat
      else case hex_dec H (drop 3 (wl_address w)) of
        None \<Rightarrow> Inl WalletHex
      | Some b \<Rightarrow> if length b \<noteq> 20 then Inl WalletLength else Inr b)"

definition menu_parse_address :: "hex_codec \<Rightarrow> string \<Rightarrow> menu_error + address" where
  "menu_parse_address H s =
     (if take 3 s \<noteq> ''cyt'' then Inl AddressFormat
      else case hex_dec H (drop 3 s) of
        None \<Rightarrow> Inl AddressHex
      | Some b \<Rightarrow> if length b \<noteq> 20 then Inl AddressLength else Inr b)"

section \<open>Node and mining\<close>

text \<open>\<open>NodeRuntime::new\<close>: node id 0, an interval of 5000, depth 10 and a pool of 1000.\<close>

definition runtime_new ::
  "('sk, 'pk, 'rs, 'rdb, 'sdb, 'p, 'bdb) node_env \<Rightarrow> u64 \<Rightarrow> ('rdb, 'sdb, 'p, 'bdb) databases
    \<Rightarrow> ('rdb, 'sdb, 'p, 'bdb) node_runtime" where
  "runtime_new N now dbs =
     node_new N now (replicate 20 0) 5000 10 1000 (db_blocks dbs) (db_executor_registry dbs)
       (db_executor_storage dbs) (db_pruner dbs) (db_pruner_blocks dbs)"

definition menu_start_node ::
  "('sk, 'pk, 'rs, 'rdb, 'sdb, 'p, 'bdb, 'f) menu_env \<Rightarrow> ('rdb, 'sdb, 'p, 'bdb) outside
    \<Rightarrow> ('rdb, 'sdb, 'p, 'bdb, 'f) session \<Rightarrow> (menu_error + menu_output) \<times> ('rdb, 'sdb, 'p, 'bdb, 'f) session" where
  "menu_start_node M ou s =
     (if ss_node s \<noteq> None then (Inr AlreadyRunning, s)
      else case ou_opened ou of
        Inl e \<Rightarrow> (Inl e, s)
      | Inr dbs \<Rightarrow> (Inr NodeStarted,
          s\<lparr>ss_node := Some (runtime_new (me_node M) (ou_now ou) dbs, db_registry dbs), ss_task := Some Starting\<rparr>))"

definition menu_start_mining ::
  "('rdb, 'sdb, 'p, 'bdb, 'f) session \<Rightarrow> (menu_error + menu_output) \<times> ('rdb, 'sdb, 'p, 'bdb, 'f) session" where
  "menu_start_mining s =
     (case ss_node s of
        None \<Rightarrow> (Inr NotRunning, s)
      | Some (nr, reg) \<Rightarrow> (Inr MiningEnabled, s\<lparr>ss_node := Some (start_mining nr, reg)\<rparr>))"

definition show_node_status ::
  "('sk, 'pk, 'rs, 'rdb, 'sdb, 'p, 'bdb, 'f) menu_env \<Rightarrow> ('rdb, 'sdb, 'p, 'bdb, 'f) session
    \<Rightarrow> (menu_error + menu_output) \<times> ('rdb, 'sdb, 'p, 'bdb, 'f) session" where
  "show_node_status M s =
     (case ss_node s of
        None \<Rightarrow> (Inr NotRunning, s)
      | Some (nr, _) \<Rightarrow>
          let tip_blocks = get_tip_blocks (ne_enum (me_node M)) (nr_blockdag nr) in
          (Inr (NodeStatus (foldr max (map (hd_chain_height \<circ> header) tip_blocks) 0) (length tip_blocks) 0
             (tx_count (nr_mempool nr)) (mining_enabled nr)), s))"

section \<open>Transactions\<close>

text \<open>The nonce of an account on the running node, 0 without one.\<close>

definition current_nonce :: "('rdb, 'sdb, 'p, 'bdb, 'f) session \<Rightarrow> address \<Rightarrow> u64" where
  "current_nonce s a = (case ss_node s of None \<Rightarrow> 0 | Some (nr, _) \<Rightarrow> node_get_nonce nr a)"

text \<open>Signing a transaction and handing it to the running node.\<close>

definition sign_and_submit ::
  "('sk, 'pk, 'rs, 'rdb, 'sdb, 'p, 'bdb, 'f) menu_env \<Rightarrow> ('rdb, 'sdb, 'p, 'bdb) outside \<Rightarrow> 'sk \<Rightarrow> transaction
    \<Rightarrow> ('rdb, 'sdb, 'p, 'bdb, 'f) session \<Rightarrow> (menu_error + menu_output) \<times> ('rdb, 'sdb, 'p, 'bdb, 'f) session" where
  "sign_and_submit M ou sk tx s =
     (case sign (sha256 (ne_env (me_node M))) (ne_secp (me_node M)) sk tx of
        Inl e \<Rightarrow> (Inl (SignError e), s)
      | Inr tx' \<Rightarrow>
     (case ss_node s of
        None \<Rightarrow> (Inr NotRunning, s)
      | Some (nr, reg) \<Rightarrow>
     (case node_add_transaction (me_node M) (ou_now ou) (ou_now2 ou) tx' nr of
        (Inl e, nr') \<Rightarrow> (Inl (Refused e), s\<lparr>ss_node := Some (nr', reg)\<rparr>)
      | (Inr _, nr') \<Rightarrow> (Inr Submitted, s\<lparr>ss_node := Some (nr', reg)\<rparr>))))"

definition transfer_cts ::
  "('sk, 'pk, 'rs, 'rdb, 'sdb, 'p, 'bdb, 'f) menu_env \<Rightarrow> ('rdb, 'sdb, 'p, 'bdb) outside
    \<Rightarrow> ('rdb, 'sdb, 'p, 'bdb, 'f) session \<Rightarrow> (menu_error + menu_output) \<times> ('rdb, 'sdb, 'p, 'bdb, 'f) session" where
  "transfer_cts M ou s =
     (let (wallet_path, s) = prompt s in
      case me_load M (ss_files s) wallet_path of
        None \<Rightarrow> (Inl WalletFile, s)
      | Some w \<Rightarrow>
     (let (to, s) = prompt s; (amount_str, s) = prompt s;
          amount = (case parse_uint (2 ^ 64) (trim amount_str) of None \<Rightarrow> 0 | Some n \<Rightarrow> of_nat n) in
      case address_from_wallet (me_hex M) w of
        Inl e \<Rightarrow> (Inl e, s)
      | Inr from_addr \<Rightarrow>
     (case menu_parse_address (me_hex M) to of
        Inl e \<Rightarrow> (Inl e, s)
      | Inr to_addr \<Rightarrow>
          sign_and_submit M ou (wl_private_key w)
            (new_transfer from_addr to_addr amount (current_nonce s from_addr) 21000 1) s)))"

definition check_balance ::
  "('sk, 'pk, 'rs, 'rdb, 'sdb, 'p, 'bdb, 'f) menu_env \<Rightarrow> ('rdb, 'sdb, 'p, 'bdb, 'f) session
    \<Rightarrow> (menu_error + menu_output) \<times> ('rdb, 'sdb, 'p, 'bdb, 'f) session" where
  "check_balance M s =
     (let (address_str, s) = prompt s in
      case menu_parse_address (me_hex M) address_str of
        Inl e \<Rightarrow> (Inl e, s)
      | Inr a \<Rightarrow>
          (case ss_node s of
             None \<Rightarrow> (Inr NotRunning, s)
           | Some (nr, _) \<Rightarrow> (Inr (BalanceOf (node_get_balance nr a)), s)))"

definition show_wallet_address ::
  "('sk, 'pk, 'rs, 'rdb, 'sdb, 'p, 'bdb, 'f) menu_env \<Rightarrow> ('rdb, 'sdb, 'p, 'bdb, 'f) session
    \<Rightarrow> (menu_error + menu_output) \<times> ('rdb, 'sdb, 'p, 'bdb, 'f) session" where
  "show_wallet_address M s =
     (let (wallet_path, s) = prompt s in
      case me_load M (ss_files s) wallet_path of
        None \<Rightarrow> (Inl WalletFile, s)
      | Some w \<Rightarrow> (Inr (AddressIs (wl_address w)), s))"

section \<open>Contracts\<close>

definition menu_deploy_contract ::
  "('sk, 'pk, 'rs, 'rdb, 'sdb, 'p, 'bdb, 'f) menu_env \<Rightarrow> ('rdb, 'sdb, 'p, 'bdb) outside
    \<Rightarrow> ('rdb, 'sdb, 'p, 'bdb, 'f) session \<Rightarrow> (menu_error + menu_output) \<times> ('rdb, 'sdb, 'p, 'bdb, 'f) session" where
  "menu_deploy_contract M ou s =
     (let (wallet_path, s) = prompt s; (wasm_path, s) = prompt s in
      case me_load M (ss_files s) wallet_path of
        None \<Rightarrow> (Inl WalletFile, s)
      | Some w \<Rightarrow>
     (case me_read M (ss_files s) wasm_path of
        None \<Rightarrow> (Inl FileError, s)
      | Some wasm_code \<Rightarrow>
     (case address_from_wallet (me_hex M) w of
        Inl e \<Rightarrow> (Inl e, s)
      | Inr from_addr \<Rightarrow>
          sign_and_submit M ou (wl_private_key w)
            (new_deploy from_addr wasm_code [] (current_nonce s from_addr) 1000000 1) s)))"

text \<open>Arguments: hexadecimal after \<^verbatim>\<open>0x\<close>, empty when that cannot be decoded, or plain text.\<close>

definition args_bytes :: "hex_codec \<Rightarrow> string \<Rightarrow> bytes" where
  "args_bytes H args =
     (if take 2 args = ''0x'' then (case hex_dec H (drop 2 args) of None \<Rightarrow> [] | Some b \<Rightarrow> b) else as_bytes args)"

definition menu_call_contract ::
  "('sk, 'pk, 'rs, 'rdb, 'sdb, 'p, 'bdb, 'f) menu_env \<Rightarrow> ('rdb, 'sdb, 'p, 'bdb) outside
    \<Rightarrow> ('rdb, 'sdb, 'p, 'bdb, 'f) session \<Rightarrow> (menu_error + menu_output) \<times> ('rdb, 'sdb, 'p, 'bdb, 'f) session" where
  "menu_call_contract M ou s =
     (let (wallet_path, s) = prompt s; (contract_addr, s) = prompt s; (meth, s) = prompt s; (args, s) = prompt s in
      case me_load M (ss_files s) wallet_path of
        None \<Rightarrow> (Inl WalletFile, s)
      | Some w \<Rightarrow>
     (case address_from_wallet (me_hex M) w of
        Inl e \<Rightarrow> (Inl e, s)
      | Inr from_addr \<Rightarrow>
     (case menu_parse_address (me_hex M) contract_addr of
        Inl e \<Rightarrow> (Inl e, s)
      | Inr contract_address \<Rightarrow>
          sign_and_submit M ou (wl_private_key w)
            (new_call from_addr contract_address (as_bytes meth) (args_bytes (me_hex M) args)
              (current_nonce s from_addr) 500000 1) s)))"

definition query_contract_state ::
  "('sk, 'pk, 'rs, 'rdb, 'sdb, 'p, 'bdb, 'f) menu_env \<Rightarrow> ('rdb, 'sdb, 'p, 'bdb, 'f) session
    \<Rightarrow> (menu_error + menu_output) \<times> ('rdb, 'sdb, 'p, 'bdb, 'f) session" where
  "query_contract_state M s =
     (let (contract_addr, s) = prompt s in
      case menu_parse_address (me_hex M) contract_addr of
        Inl e \<Rightarrow> (Inl e, s)
      | Inr a \<Rightarrow>
          (case ss_node s of
             None \<Rightarrow> (Inr NotRunning, s)
           | Some (_, reg) \<Rightarrow>
               (case get_contract (ne_cdb (me_node M)) (ne_info (me_node M)) reg a of
                  None \<Rightarrow> (Inr ContractMissing, s)
                | Some info \<Rightarrow> (Inr (ContractFound (length (ci_bytecode info)) (length (ci_metadata info))), s))))"

definition list_contracts ::
  "('sk, 'pk, 'rs, 'rdb, 'sdb, 'p, 'bdb, 'f) menu_env \<Rightarrow> ('rdb, 'sdb, 'p, 'bdb, 'f) session
    \<Rightarrow> (menu_error + menu_output) \<times> ('rdb, 'sdb, 'p, 'bdb, 'f) session" where
  "list_contracts M s =
     (case ss_node s of
        None \<Rightarrow> (Inr NotRunning, s)
      | Some (_, reg) \<Rightarrow>
          (case list_all_contracts (ne_cdb (me_node M)) (ne_info (me_node M)) reg of
             Inl e \<Rightarrow> (Inl (RegistryError e), s)
           | Inr cs \<Rightarrow>
               (Inr (ContractList (map (\<lambda>c. (hex_enc (me_hex M) (ci_address c), length (ci_bytecode c))) cs)), s)))"

section \<open>SDK tools\<close>

definition generate_wallet ::
  "('sk, 'pk, 'rs, 'rdb, 'sdb, 'p, 'bdb, 'f) menu_env \<Rightarrow> ('rdb, 'sdb, 'p, 'bdb) outside
    \<Rightarrow> ('rdb, 'sdb, 'p, 'bdb, 'f) session \<Rightarrow> (menu_error + menu_output) \<times> ('rdb, 'sdb, 'p, 'bdb, 'f) session" where
  "generate_wallet M ou s =
     (let k = ne_secp (me_node M) in
      case wallet_new (sha256 (ne_env (me_node M))) (hex_enc (me_hex M)) k (me_keys M) (ou_secret ou) of
        Inl _ \<Rightarrow> (Inl MenuPanic, s)
      | Inr w \<Rightarrow>
     (let (save, s) = prompt s; shown = NewWallet (wl_address w) (hex_enc (me_hex M) (pk_serialize k (wl_public_key w))) in
      if save \<noteq> [] \<and> hd save \<in> {CHR ''y'', CHR ''Y''} then
        (let (path, s) = prompt s in
         case me_save M path w (ss_files s) of
           None \<Rightarrow> (Inl FileError, s)
         | Some files \<Rightarrow> (Inr (shown (Some path)), s\<lparr>ss_files := files\<rparr>))
      else (Inr (shown None), s)))"

text \<open>The menu entry called sign transaction signs a message.\<close>

definition menu_sign_message ::
  "('sk, 'pk, 'rs, 'rdb, 'sdb, 'p, 'bdb, 'f) menu_env \<Rightarrow> ('rdb, 'sdb, 'p, 'bdb, 'f) session
    \<Rightarrow> (menu_error + menu_output) \<times> ('rdb, 'sdb, 'p, 'bdb, 'f) session" where
  "menu_sign_message M s =
     (let (wallet_path, s) = prompt s in
      case me_load M (ss_files s) wallet_path of
        None \<Rightarrow> (Inl WalletFile, s)
      | Some w \<Rightarrow>
     (let (message, s) = prompt s in
      case sign_message (sha256 (ne_env (me_node M))) (ne_secp (me_node M)) w (as_bytes message) of
        Inl e \<Rightarrow> (Inl (VerifyError e), s)
      | Inr sig \<Rightarrow> (Inr (SignatureIs (hex_enc (me_hex M) sig)), s)))"

definition menu_verify_signature ::
  "('sk, 'pk, 'rs, 'rdb, 'sdb, 'p, 'bdb, 'f) menu_env \<Rightarrow> ('rdb, 'sdb, 'p, 'bdb, 'f) session
    \<Rightarrow> (menu_error + menu_output) \<times> ('rdb, 'sdb, 'p, 'bdb, 'f) session" where
  "menu_verify_signature M s =
     (let (wallet_path, s) = prompt s in
      case me_load M (ss_files s) wallet_path of
        None \<Rightarrow> (Inl WalletFile, s)
      | Some w \<Rightarrow>
     (let (message, s) = prompt s; (signature_hex, s) = prompt s in
      case hex_dec (me_hex M) (trim signature_hex) of
        None \<Rightarrow> (Inl SignatureHex, s)
      | Some sig \<Rightarrow>
     (case wallet_verify_signature (sha256 (ne_env (me_node M))) (ne_secp (me_node M)) w (as_bytes message) sig of
        Inl WalletPanic \<Rightarrow> (Inl MenuPanic, s)
      | Inl e \<Rightarrow> (Inl (VerifyError e), s)
      | Inr ok \<Rightarrow> (Inr (SignatureValid ok), s))))"

definition export_private_key ::
  "('sk, 'pk, 'rs, 'rdb, 'sdb, 'p, 'bdb, 'f) menu_env \<Rightarrow> ('rdb, 'sdb, 'p, 'bdb, 'f) session
    \<Rightarrow> (menu_error + menu_output) \<times> ('rdb, 'sdb, 'p, 'bdb, 'f) session" where
  "export_private_key M s =
     (let (wallet_path, s) = prompt s in
      case me_load M (ss_files s) wallet_path of
        None \<Rightarrow> (Inl WalletFile, s)
      | Some w \<Rightarrow> (Inr (PrivateKey (hex_enc (me_hex M) (bytes_of_key (me_keys M) (wl_private_key w)))), s))"

section \<open>The menus\<close>

text \<open>
  Stopping clears the mining flag, ends the task and drops the node; the flag is lost with the
  node.
\<close>

definition shutdown_node :: "('rdb, 'sdb, 'p, 'bdb, 'f) session \<Rightarrow> ('rdb, 'sdb, 'p, 'bdb, 'f) session" where
  "shutdown_node s =
     (let s = s\<lparr>ss_node := map_option (apfst stop_mining) (ss_node s)\<rparr> in s\<lparr>ss_task := None, ss_node := None\<rparr>)"

definition show_output :: "menu_output \<Rightarrow> ('rdb, 'sdb, 'p, 'bdb, 'f) session \<Rightarrow> ('rdb, 'sdb, 'p, 'bdb, 'f) session" where
  "show_output out s = s\<lparr>ss_shown := ss_shown s @ [out]\<rparr>"

definition enter :: "menu \<Rightarrow> ('rdb, 'sdb, 'p, 'bdb, 'f) session \<Rightarrow> ('rdb, 'sdb, 'p, 'bdb, 'f) session" where
  "enter m s = s\<lparr>ss_menu := m\<rparr>"

text \<open>The \<open>?\<close> after a command: an error is handed up through the menus and ends \<open>run\<close>.\<close>

definition finish ::
  "(menu_error + menu_output) \<times> ('rdb, 'sdb, 'p, 'bdb, 'f) session \<Rightarrow> ('rdb, 'sdb, 'p, 'bdb, 'f) session" where
  "finish rs = (case rs of (Inl e, s) \<Rightarrow> enter (Ended (Some e)) s | (Inr out, s) \<Rightarrow> show_output out s)"

definition main_menu :: "nat \<Rightarrow> ('rdb, 'sdb, 'p, 'bdb, 'f) session \<Rightarrow> ('rdb, 'sdb, 'p, 'bdb, 'f) session" where
  "main_menu choice s =
     (if choice = 1 then enter NodeMenu s
      else if choice = 2 then enter TransactionMenu s
      else if choice = 3 then enter ContractMenu s
      else if choice = 4 then enter SdkMenu s
      else if choice = 5 then show_output HelpShown s
      else if choice = 6 then enter (Ended None) (show_output Goodbye (shutdown_node s))
      else show_output InvalidOption s)"

definition node_menu ::
  "('sk, 'pk, 'rs, 'rdb, 'sdb, 'p, 'bdb, 'f) menu_env \<Rightarrow> ('rdb, 'sdb, 'p, 'bdb) outside \<Rightarrow> nat
    \<Rightarrow> ('rdb, 'sdb, 'p, 'bdb, 'f) session \<Rightarrow> ('rdb, 'sdb, 'p, 'bdb, 'f) session" where
  "node_menu M ou choice s =
     (if choice = 1 then finish (menu_start_node M ou s)
      else if choice = 2 then finish (menu_start_mining s)
      else if choice = 3 then finish (show_node_status M s)
      else if choice = 4 then enter MainMenu s
      else show_output InvalidOption s)"

definition transaction_menu ::
  "('sk, 'pk, 'rs, 'rdb, 'sdb, 'p, 'bdb, 'f) menu_env \<Rightarrow> ('rdb, 'sdb, 'p, 'bdb) outside \<Rightarrow> nat
    \<Rightarrow> ('rdb, 'sdb, 'p, 'bdb, 'f) session \<Rightarrow> ('rdb, 'sdb, 'p, 'bdb, 'f) session" where
  "transaction_menu M ou choice s =
     (if choice = 1 then finish (transfer_cts M ou s)
      else if choice = 2 then finish (check_balance M s)
      else if choice = 3 then finish (show_wallet_address M s)
      else if choice = 4 then enter MainMenu s
      else show_output InvalidOption s)"

definition smart_contract_menu ::
  "('sk, 'pk, 'rs, 'rdb, 'sdb, 'p, 'bdb, 'f) menu_env \<Rightarrow> ('rdb, 'sdb, 'p, 'bdb) outside \<Rightarrow> nat
    \<Rightarrow> ('rdb, 'sdb, 'p, 'bdb, 'f) session \<Rightarrow> ('rdb, 'sdb, 'p, 'bdb, 'f) session" where
  "smart_contract_menu M ou choice s =
     (if choice = 1 then finish (menu_deploy_contract M ou s)
      else if choice = 2 then finish (menu_call_contract M ou s)
      else if choice = 3 then finish (query_contract_state M s)
      else if choice = 4 then finish (list_contracts M s)
      else if choice = 5 then enter MainMenu s
      else show_output InvalidOption s)"

definition sdk_menu ::
  "('sk, 'pk, 'rs, 'rdb, 'sdb, 'p, 'bdb, 'f) menu_env \<Rightarrow> ('rdb, 'sdb, 'p, 'bdb) outside \<Rightarrow> nat
    \<Rightarrow> ('rdb, 'sdb, 'p, 'bdb, 'f) session \<Rightarrow> ('rdb, 'sdb, 'p, 'bdb, 'f) session" where
  "sdk_menu M ou choice s =
     (if choice = 1 then finish (generate_wallet M ou s)
      else if choice = 2 then finish (menu_sign_message M s)
      else if choice = 3 then finish (menu_verify_signature M s)
      else if choice = 4 then finish (export_private_key M s)
      else if choice = 5 then enter MainMenu s
      else show_output InvalidOption s)"

definition menu_step ::
  "('sk, 'pk, 'rs, 'rdb, 'sdb, 'p, 'bdb, 'f) menu_env \<Rightarrow> ('rdb, 'sdb, 'p, 'bdb) outside
    \<Rightarrow> ('rdb, 'sdb, 'p, 'bdb, 'f) session \<Rightarrow> ('rdb, 'sdb, 'p, 'bdb, 'f) session" where
  "menu_step M ou s =
     (let (choice, rest) = read_choice (ss_input s); s' = s\<lparr>ss_input := rest\<rparr> in
      case ss_menu s of
        Ended _ \<Rightarrow> s
      | MainMenu \<Rightarrow> main_menu choice s'
      | NodeMenu \<Rightarrow> node_menu M ou choice s'
      | TransactionMenu \<Rightarrow> transaction_menu M ou choice s'
      | ContractMenu \<Rightarrow> smart_contract_menu M ou choice s'
      | SdkMenu \<Rightarrow> sdk_menu M ou choice s')"

text \<open>
  A run of a session: turns of the menus, and steps of the task of the node, which initialises the
  node and then produces blocks and checks finality as its timers tell; results are ignored, a
  panic ends the task. \<open>A\<close> is what may be met outside.
\<close>

definition task_goes_on :: "node_error + unit \<Rightarrow> task option" where
  "task_goes_on r = (if r = Inl NodePanic then None else Some Looping)"

definition after_task ::
  "(node_error + unit) \<times> ('rdb, 'sdb, 'p, 'bdb) node_runtime \<Rightarrow> 'rdb \<Rightarrow> ('rdb, 'sdb, 'p, 'bdb, 'f) session
    \<Rightarrow> ('rdb, 'sdb, 'p, 'bdb, 'f) session" where
  "after_task rn reg s = s\<lparr>ss_node := Some (snd rn, reg), ss_task := task_goes_on (fst rn)\<rparr>"

inductive menu_run ::
  "('sk, 'pk, 'rs, 'rdb, 'sdb, 'p, 'bdb, 'f) menu_env \<Rightarrow> ('rdb, 'sdb, 'p, 'bdb) outside set
    \<Rightarrow> ('rdb, 'sdb, 'p, 'bdb, 'f) session \<Rightarrow> ('rdb, 'sdb, 'p, 'bdb, 'f) session \<Rightarrow> bool" for M A s0 where
  begin_run: "menu_run M A s0 s0"
| turn: "menu_run M A s0 s \<Longrightarrow> ou \<in> A \<Longrightarrow> menu_run M A s0 (menu_step M ou s)"
| task_initialize: "menu_run M A s0 s \<Longrightarrow> ss_node s = Some (nr, reg) \<Longrightarrow> ss_task s = Some Starting
    \<Longrightarrow> menu_run M A s0 (after_task (Inr (), node_initialize (me_node M) now w nr) reg s)"
| task_produce: "menu_run M A s0 s \<Longrightarrow> ss_node s = Some (nr, reg) \<Longrightarrow> ss_task s = Some Looping
    \<Longrightarrow> menu_run M A s0 (after_task (produce_block (me_node M) t now now2 w pnow nr) reg s)"
| task_finality: "menu_run M A s0 s \<Longrightarrow> ss_node s = Some (nr, reg) \<Longrightarrow> ss_task s = Some Looping
    \<Longrightarrow> menu_run M A s0 (after_task (check_finality nr) reg s)"


section \<open>Sessions in which nothing is submitted\<close>

text \<open>
  What the menus rely on outside: a wallet that is loaded after a save was saved or there before.
\<close>

definition wallet_files_ok :: "('sk, 'pk, 'rs, 'rdb, 'sdb, 'p, 'bdb, 'f) menu_env \<Rightarrow> bool" where
  "wallet_files_ok M \<longleftrightarrow>
     (\<forall>path w f f' path' w'. me_save M path w f = Some f' \<and> me_load M f' path' = Some w'
        \<longrightarrow> w' = w \<or> me_load M f path' = Some w')"

abbreviation me_sha :: "('sk, 'pk, 'rs, 'rdb, 'sdb, 'p, 'bdb, 'f) menu_env \<Rightarrow> bytes \<Rightarrow> bytes" where
  "me_sha M \<equiv> sha256 (ne_env (me_node M))"

abbreviation wallet_of :: "('sk, 'pk, 'rs, 'rdb, 'sdb, 'p, 'bdb, 'f) menu_env \<Rightarrow> 'sk \<Rightarrow> ('sk, 'pk) wallet" where
  "wallet_of M sk \<equiv> from_private_key (me_sha M) (hex_enc (me_hex M)) (ne_secp (me_node M)) sk"

text \<open>The keys for which the two ways to compute an address differ.\<close>

definition addresses_differ :: "('sk, 'pk, 'rs, 'rdb, 'sdb, 'p, 'bdb, 'f) menu_env \<Rightarrow> 'sk set \<Rightarrow> bool" where
  "addresses_differ M K \<longleftrightarrow>
     (\<forall>sk \<in> K. let pk = public_key (ne_secp (me_node M)) sk in
        wallet_address_bytes (me_sha M) (ne_secp (me_node M)) pk \<noteq> address_of (me_sha M) (ne_secp (me_node M)) pk)"

definition menu_env_ok :: "('sk, 'pk, 'rs, 'rdb, 'sdb, 'p, 'bdb, 'f) menu_env \<Rightarrow> bool" where
  "menu_env_ok M \<longleftrightarrow>
     wallet_files_ok M \<and> hex_codec_ok (me_hex M) \<and> sha_len (me_sha M) \<and> secp_ok (ne_secp (me_node M))"

text \<open>\<open>K\<close> are the keys that are drawn, \<open>V\<close> the contents of the block stores that are opened.\<close>

definition outside_ok ::
  "('sk, 'pk, 'rs, 'rdb, 'sdb, 'p, 'bdb, 'f) menu_env \<Rightarrow> 'sk set \<Rightarrow> block_view set \<Rightarrow> ('rdb, 'sdb, 'p, 'bdb) outside \<Rightarrow> bool" where
  "outside_ok M K V ou \<longleftrightarrow>
     (\<forall>sk. key_of_bytes (me_keys M) (ou_secret ou) = Some sk \<longrightarrow> sk \<in> K)
     \<and> (\<forall>dbs. ou_opened ou = Inr dbs \<longrightarrow> db_blocks dbs \<in> V)"

definition wallets_from :: "('sk, 'pk, 'rs, 'rdb, 'sdb, 'p, 'bdb, 'f) menu_env \<Rightarrow> 'sk set \<Rightarrow> 'f \<Rightarrow> bool" where
  "wallets_from M K f \<longleftrightarrow> (\<forall>path w. me_load M f path = Some w \<longrightarrow> (\<exists>sk \<in> K. w = wallet_of M sk))"

text \<open>A node whose pool is empty and whose blocks are those it found in its store, or a genesis block at most.\<close>

definition idle_node :: "block_view set \<Rightarrow> ('rdb, 'sdb, 'p, 'bdb) node_runtime \<Rightarrow> bool" where
  "idle_node V nr \<longleftrightarrow> mp_transactions (nr_mempool nr) = []
     \<and> (dag_store (nr_blockdag nr) \<in> V \<or> length (dag_store (nr_blockdag nr)) \<le> 1)"

definition quiet ::
  "('sk, 'pk, 'rs, 'rdb, 'sdb, 'p, 'bdb, 'f) menu_env \<Rightarrow> 'sk set \<Rightarrow> block_view set \<Rightarrow> ('rdb, 'sdb, 'p, 'bdb, 'f) session \<Rightarrow> bool" where
  "quiet M K V s \<longleftrightarrow>
     wallets_from M K (ss_files s) \<and> (\<forall>nr reg. ss_node s = Some (nr, reg) \<longrightarrow> idle_node V nr) \<and> Submitted \<notin> set (ss_shown s)"

lemma quiet_updates [simp]:
  "quiet M K V (s\<lparr>ss_input := i\<rparr>) = quiet M K V s" "quiet M K V (s\<lparr>ss_menu := m\<rparr>) = quiet M K V s"
  "quiet M K V (s\<lparr>ss_task := t\<rparr>) = quiet M K V s"
  by (simp_all add: quiet_def)

lemma prompt_simps [simp]:
  "ss_files (snd (prompt s)) = ss_files s" "ss_node (snd (prompt s)) = ss_node s"
  "quiet M K V (snd (prompt s)) = quiet M K V s"
  by (simp_all add: prompt_def)

text \<open>A command that keeps a session quiet.\<close>

definition quiet_result ::
  "('sk, 'pk, 'rs, 'rdb, 'sdb, 'p, 'bdb, 'f) menu_env \<Rightarrow> 'sk set \<Rightarrow> block_view set
    \<Rightarrow> (menu_error + menu_output) \<times> ('rdb, 'sdb, 'p, 'bdb, 'f) session \<Rightarrow> bool" where
  "quiet_result M K V rs \<longleftrightarrow> quiet M K V (snd rs) \<and> fst rs \<noteq> Inr Submitted"

lemma finish_quiet: "quiet_result M K V rs \<Longrightarrow> quiet M K V (finish rs)"
  by (cases rs; cases "fst rs") (auto simp: quiet_result_def finish_def enter_def show_output_def quiet_def)

lemma address_of_loaded:
  assumes "menu_env_ok M" and "wallets_from M K f" and "me_load M f path = Some w"
  obtains sk where "sk \<in> K" "wl_private_key w = sk"
    "address_from_wallet (me_hex M) w = Inr (wallet_address_bytes (me_sha M) (ne_secp (me_node M)) (public_key (ne_secp (me_node M)) sk))"
proof -
  obtain sk where "sk \<in> K" "w = wallet_of M sk"
    using assms(2,3) by (auto simp: wallets_from_def)
  moreover have "length (take 20 (me_sha M x)) = 20" for x
    using assms(1) by (simp add: menu_env_ok_def sha_len_def)
  ultimately show ?thesis
    using assms(1) that
    by (simp add: address_from_wallet_def from_private_key_def public_key_to_address_def menu_env_ok_def
        hex_codec_ok_def wallet_address_bytes_def)
qed

lemma refused_submit:
  assumes "menu_env_ok M" and "addresses_differ M K" and "sk \<in> K"
    and "tx_from tx = wallet_address_bytes (me_sha M) (ne_secp (me_node M)) (public_key (ne_secp (me_node M)) sk)"
  shows "snd (sign_and_submit M ou sk tx s) = s"
    and "fst (sign_and_submit M ou sk tx s) \<in> Inl ` range Refused \<or> (ss_node s = None \<and> fst (sign_and_submit M ou sk tx s) = Inr NotRunning)"
proof -
  have M: "sha_len (me_sha M)" "secp_ok (ne_secp (me_node M))"
    using assms(1) by (simp_all add: menu_env_ok_def)
  obtain tx' where tx': "sign (me_sha M) (ne_secp (me_node M)) sk tx = Inr tx'"
    using signing_succeeds [OF M] by blast
  have "tx_validate_basic (me_sha M) (ne_secp (me_node M)) tx' \<noteq> Inr ()"
    using wallet_tx_address_mismatch [OF M tx'] assms(2-4) by (auto simp: addresses_differ_def Let_def)
  then have "\<exists>e. node_add_transaction (me_node M) now now' tx' nr = (Inl e, nr)" for now now' nr
    by (cases "tx_validate_basic (me_sha M) (ne_secp (me_node M)) tx'")
      (auto simp: node_add_transaction_def validate_transaction_def)
  then obtain e where e: "node_add_transaction (me_node M) (ou_now ou) (ou_now2 ou) tx' nr = (Inl (e nr), nr)" for nr
    by metis
  have eq: "sign_and_submit M ou sk tx s =
      (case ss_node s of None \<Rightarrow> Inr NotRunning | Some (nr, reg) \<Rightarrow> Inl (Refused (e nr)), s)"
    by (cases s) (simp add: sign_and_submit_def tx' e split: option.split)
  show "snd (sign_and_submit M ou sk tx s) = s"
    by (simp add: eq)
  show "fst (sign_and_submit M ou sk tx s) \<in> Inl ` range Refused \<or> (ss_node s = None \<and> fst (sign_and_submit M ou sk tx s) = Inr NotRunning)"
    by (cases "ss_node s") (auto simp: eq)
qed

lemma loaded_wallet:
  assumes "menu_env_ok M" and "addresses_differ M K" and "quiet M K V s" and "me_load M (ss_files s) path = Some w"
  obtains a where "address_from_wallet (me_hex M) w = Inr a"
    "\<And>tx ou s'. tx_from tx = a \<Longrightarrow> quiet M K V s' \<Longrightarrow> quiet_result M K V (sign_and_submit M ou (wl_private_key w) tx s')"
    "\<And>tx ou s'. tx_from tx = a \<Longrightarrow> ss_node s' \<noteq> None
      \<Longrightarrow> fst (sign_and_submit M ou (wl_private_key w) tx s') \<in> Inl ` range Refused"
proof -
  have f: "wallets_from M K (ss_files s)"
    using assms(3) by (simp add: quiet_def)
  obtain sk where sk: "sk \<in> K" "wl_private_key w = sk"
    and a: "address_from_wallet (me_hex M) w =
      Inr (wallet_address_bytes (me_sha M) (ne_secp (me_node M)) (public_key (ne_secp (me_node M)) sk))"
    using address_of_loaded [OF assms(1) f assms(4)] .
  have "quiet_result M K V (sign_and_submit M ou sk tx s')"
    if "tx_from tx = wallet_address_bytes (me_sha M) (ne_secp (me_node M)) (public_key (ne_secp (me_node M)) sk)"
      and "quiet M K V s'" for tx ou s'
    using refused_submit [OF assms(1,2) sk(1) that(1), of ou s'] that(2) by (auto simp: quiet_result_def)
  moreover have "fst (sign_and_submit M ou sk tx s') \<in> Inl ` range Refused"
    if "tx_from tx = wallet_address_bytes (me_sha M) (ne_secp (me_node M)) (public_key (ne_secp (me_node M)) sk)"
      and "ss_node s' \<noteq> None" for tx ou s'
    using refused_submit(2) [OF assms(1,2) sk(1) that(1), of ou s'] that(2) by blast
  ultimately show ?thesis
    using a sk(2) that by blast
qed

lemmas menu_unfolds = case_prod_unfold Let_def quiet_result_def [of _ _ _ "(_, _)"]
  new_transfer_def new_deploy_def new_call_def

lemma submitting_commands_quiet:
  assumes "menu_env_ok M" and "addresses_differ M K" and "quiet M K V s"
  shows "quiet_result M K V (transfer_cts M ou s)" and "quiet_result M K V (menu_deploy_contract M ou s)"
    and "quiet_result M K V (menu_call_contract M ou s)"
proof (atomize(full), cases "me_load M (ss_files s) (fst (prompt s))")
  case None
  then show "quiet_result M K V (transfer_cts M ou s) \<and> quiet_result M K V (menu_deploy_contract M ou s)
      \<and> quiet_result M K V (menu_call_contract M ou s)"
    using assms(3) by (simp add: transfer_cts_def menu_deploy_contract_def menu_call_contract_def menu_unfolds)
next
  case (Some w)
  then obtain a where a: "address_from_wallet (me_hex M) w = Inr a"
    and sub: "\<And>tx ou s'. tx_from tx = a \<Longrightarrow> quiet M K V s' \<Longrightarrow> quiet_result M K V (sign_and_submit M ou (wl_private_key w) tx s')"
    using loaded_wallet [OF assms] by metis
  have "quiet_result M K V (transfer_cts M ou s)"
    using assms(3) Some by (auto simp: transfer_cts_def menu_unfolds a intro!: sub split: sum.split)
  moreover have "quiet_result M K V (menu_deploy_contract M ou s)"
    using assms(3) Some by (auto simp: menu_deploy_contract_def menu_unfolds a intro!: sub split: option.split)
  moreover have "quiet_result M K V (menu_call_contract M ou s)"
    using assms(3) Some by (auto simp: menu_call_contract_def menu_unfolds a intro!: sub split: sum.split)
  ultimately show "quiet_result M K V (transfer_cts M ou s) \<and> quiet_result M K V (menu_deploy_contract M ou s)
      \<and> quiet_result M K V (menu_call_contract M ou s)"
    by blast
qed

text \<open>On a running node each of the three ends in an error.\<close>

lemma submitting_commands_fail:
  assumes "menu_env_ok M" and "addresses_differ M K" and "quiet M K V s" and "ss_node s \<noteq> None"
  shows "fst (transfer_cts M ou s) \<in> range Inl" and "fst (menu_deploy_contract M ou s) \<in> range Inl"
    and "fst (menu_call_contract M ou s) \<in> range Inl"
proof (atomize(full), cases "me_load M (ss_files s) (fst (prompt s))")
  case None
  then show "fst (transfer_cts M ou s) \<in> range Inl \<and> fst (menu_deploy_contract M ou s) \<in> range Inl
      \<and> fst (menu_call_contract M ou s) \<in> range Inl"
    by (simp add: transfer_cts_def menu_deploy_contract_def menu_call_contract_def menu_unfolds)
next
  case (Some w)
  then obtain a where a: "address_from_wallet (me_hex M) w = Inr a"
    and sub: "\<And>tx ou s'. tx_from tx = a \<Longrightarrow> ss_node s' \<noteq> None
      \<Longrightarrow> fst (sign_and_submit M ou (wl_private_key w) tx s') \<in> Inl ` range Refused"
    using loaded_wallet [OF assms(1-3)] by metis
  have fails: "fst (sign_and_submit M ou (wl_private_key w) tx s') \<in> range Inl" if "tx_from tx = a" "ss_node s' \<noteq> None" for tx s'
    using sub [OF that, of ou] by auto
  have "fst (transfer_cts M ou s) \<in> range Inl"
    using assms(4) Some by (auto simp: transfer_cts_def menu_unfolds a simp del: split_paired_Ex intro!: fails split: sum.split)
  moreover have "fst (menu_deploy_contract M ou s) \<in> range Inl"
    using assms(4) Some by (auto simp: menu_deploy_contract_def menu_unfolds a simp del: split_paired_Ex intro!: fails split: option.split)
  moreover have "fst (menu_call_contract M ou s) \<in> range Inl"
    using assms(4) Some by (auto simp: menu_call_contract_def menu_unfolds a simp del: split_paired_Ex intro!: fails split: sum.split)
  ultimately show "fst (transfer_cts M ou s) \<in> range Inl \<and> fst (menu_deploy_contract M ou s) \<in> range Inl
      \<and> fst (menu_call_contract M ou s) \<in> range Inl"
    by blast
qed

lemma finish_error: "fst rs \<in> range Inl \<Longrightarrow> \<exists>e. ss_menu (finish rs) = Ended (Some e)"
  by (cases rs) (auto simp: finish_def enter_def)

lemma reading_commands_quiet:
  assumes "quiet M K V s"
  shows "quiet_result M K V (show_node_status M s)" "quiet_result M K V (check_balance M s)"
    "quiet_result M K V (show_wallet_address M s)" "quiet_result M K V (query_contract_state M s)"
    "quiet_result M K V (list_contracts M s)" "quiet_result M K V (menu_sign_message M s)"
    "quiet_result M K V (menu_verify_signature M s)" "quiet_result M K V (export_private_key M s)"
  using assms
  by (auto simp: show_node_status_def check_balance_def show_wallet_address_def query_contract_state_def
      list_contracts_def menu_sign_message_def menu_verify_signature_def export_private_key_def menu_unfolds
      split: option.split sum.split wallet_error.split)

lemma fresh_node_idle: "db_blocks dbs \<in> V \<Longrightarrow> idle_node V (runtime_new N now dbs)"
  by (simp add: idle_node_def runtime_new_def node_new_def Let_def mempool_new_def block_dag_new_def)

lemma start_mining_idle [simp]: "idle_node V (start_mining nr) = idle_node V nr"
  by (simp add: idle_node_def start_mining_def)

lemma changing_commands_quiet:
  assumes "menu_env_ok M" and "outside_ok M K V ou" and "quiet M K V s"
  shows "quiet_result M K V (menu_start_node M ou s)" "quiet_result M K V (menu_start_mining s)"
    "quiet_result M K V (generate_wallet M ou s)"
proof -
  show "quiet_result M K V (menu_start_node M ou s)"
    using assms(2,3) by (auto simp: menu_start_node_def quiet_result_def quiet_def outside_ok_def
        intro: fresh_node_idle split: sum.split)
  show "quiet_result M K V (menu_start_mining s)"
    using assms(3) by (auto simp: menu_start_mining_def quiet_result_def quiet_def split: option.split)
  have saved: "wallets_from M K f'" if "wallets_from M K f" "me_save M path (wallet_of M sk) f = Some f'" "sk \<in> K"
    for f f' path sk
    using assms(1) that unfolding menu_env_ok_def wallet_files_ok_def wallets_from_def by metis
  show "quiet_result M K V (generate_wallet M ou s)"
    using assms(2,3) saved
    by (auto simp: generate_wallet_def wallet_new_def Let_def case_prod_unfold quiet_result_def outside_ok_def
        split: option.split) (auto simp: quiet_def prompt_def)
qed

lemma menu_step_quiet:
  assumes "menu_env_ok M" and "addresses_differ M K" and "outside_ok M K V ou" and "quiet M K V s"
  shows "quiet M K V (menu_step M ou s)"
proof -
  obtain choice rest where c: "read_choice (ss_input s) = (choice, rest)"
    by force
  let ?s = "s\<lparr>ss_input := rest\<rparr>"
  have q: "quiet M K V ?s"
    using assms(4) by simp
  have simple: "quiet M K V (enter m ?s)" "out \<noteq> Submitted \<Longrightarrow> quiet M K V (show_output out ?s)"
    "quiet M K V (shutdown_node ?s)" for m out
    using assms(4) by (auto simp: enter_def show_output_def shutdown_node_def Let_def quiet_def)
  have bye: "quiet M K V (enter (Ended None) (show_output Goodbye (shutdown_node ?s)))"
    using assms(4) by (auto simp: enter_def show_output_def shutdown_node_def Let_def quiet_def)
  note cmds = submitting_commands_quiet [OF assms(1,2) q, of ou] reading_commands_quiet [OF q]
    changing_commands_quiet [OF assms(1,3) q]
  have "quiet M K V (main_menu choice ?s)"
    using simple bye by (simp add: main_menu_def)
  moreover have "quiet M K V (node_menu M ou choice ?s)"
    using simple finish_quiet [OF cmds(12)] finish_quiet [OF cmds(13)] finish_quiet [OF cmds(4)]
    by (simp add: node_menu_def)
  moreover have "quiet M K V (transaction_menu M ou choice ?s)"
    using simple finish_quiet [OF cmds(1)] finish_quiet [OF cmds(5)] finish_quiet [OF cmds(6)]
    by (simp add: transaction_menu_def)
  moreover have "quiet M K V (smart_contract_menu M ou choice ?s)"
    using simple finish_quiet [OF cmds(2)] finish_quiet [OF cmds(3)] finish_quiet [OF cmds(7)] finish_quiet [OF cmds(8)]
    by (simp add: smart_contract_menu_def)
  moreover have "quiet M K V (sdk_menu M ou choice ?s)"
    using simple finish_quiet [OF cmds(14)] finish_quiet [OF cmds(9)] finish_quiet [OF cmds(10)] finish_quiet [OF cmds(11)]
    by (simp add: sdk_menu_def)
  ultimately show ?thesis
    using assms(4) by (simp add: menu_step_def c Let_def split: menu.split)
qed

text \<open>The task of an idle node leaves it idle: with an empty pool nothing is produced.\<close>

lemma idle_task:
  assumes "idle_node V nr"
  shows "idle_node V (node_initialize N now w nr)" "produce_block N t now now2 w pnow nr = (Inr (), nr)"
    "idle_node V (snd (check_finality nr))"
proof -
  have "length (dag_store (snd (create_genesis_block E now w d))) \<le> 1" if "dag_block_count d = 0" for E d
    using that by (auto simp: create_genesis_block_def insert_block_def Let_def dag_block_count_def view_put_def
        split: option.splits sum.splits if_splits)
  then show "idle_node V (node_initialize N now w nr)"
    using assms by (auto simp: idle_node_def node_initialize_def create_genesis_if_empty_def)
  show "produce_block N t now now2 w pnow nr = (Inr (), nr)"
    using assms by (simp add: produce_block_def prepare_block_def idle_node_def tx_count_def)
  show "idle_node V (snd (check_finality nr))"
    using assms check_finality_frame [of nr] by (simp add: idle_node_def)
qed

lemma after_task_quiet:
  assumes "quiet M K V s" and "ss_node s = Some (nr, reg)" and "idle_node V (snd rn)"
  shows "quiet M K V (after_task rn reg s)"
  using assms by (auto simp: quiet_def after_task_def)

lemma menu_run_quiet:
  assumes "menu_run M A s0 s" and "menu_env_ok M" and "addresses_differ M K" and "\<And>ou. ou \<in> A \<Longrightarrow> outside_ok M K V ou"
    and "quiet M K V s0"
  shows "quiet M K V s"
  using assms(1)
proof induction
  case begin_run
  then show ?case
    using assms(5) .
next
  case (turn s ou)
  then show ?case
    using menu_step_quiet [OF assms(2,3)] assms(4) by blast
next
  case (task_initialize s nr reg now w)
  then show ?case
    by (intro after_task_quiet) (auto simp: quiet_def intro: idle_task(1))
next
  case (task_produce s nr reg t now now2 w pnow)
  then have "idle_node V nr"
    by (auto simp: quiet_def)
  with task_produce show ?case
    by (intro after_task_quiet) (simp_all add: idle_task(2))
next
  case (task_finality s nr reg)
  then show ?case
    by (intro after_task_quiet) (auto simp: quiet_def intro: idle_task(3))
qed

section \<open>Properties\<close>

text \<open>
  C16. A session gets nowhere with the wallets that the program makes. Suppose that all wallet files were
  written by it, and that for the keys in use the two digests differ that give the address of a wallet
  and the address of a sender. Then whatever is typed, and however the task of the node runs in
  between, nothing is ever submitted: the pool of a node that the session started stays empty,
  and its DAG holds the blocks of the store that was opened, or the genesis block at most, mining or
  not. Any attempt to transfer, deploy or call on a running node ends the whole session with an error.
\<close>

theorem interactive_never_submits:
  assumes "menu_env_ok M" and "addresses_differ M K" and "wallets_from M K files"
    and "\<forall>ou \<in> A. \<forall>sk. key_of_bytes (me_keys M) (ou_secret ou) = Some sk \<longrightarrow> sk \<in> K"
    and "menu_run M A (session_new input files) s"
  shows "Submitted \<notin> set (ss_shown s)
    \<and> (\<forall>nr reg. ss_node s = Some (nr, reg) \<longrightarrow> mp_transactions (nr_mempool nr) = []
          \<and> ((\<exists>ou \<in> A. \<exists>dbs. ou_opened ou = Inr dbs \<and> dag_store (nr_blockdag nr) = db_blocks dbs)
             \<or> length (dag_store (nr_blockdag nr)) \<le> 1))
    \<and> (\<forall>ou. ss_node s \<noteq> None
          \<and> (ss_menu s = TransactionMenu \<and> fst (read_choice (ss_input s)) = 1
             \<or> ss_menu s = ContractMenu \<and> fst (read_choice (ss_input s)) \<in> {1, 2})
        \<longrightarrow> (\<exists>e. ss_menu (menu_step M ou s) = Ended (Some e)))"
proof (intro conjI allI impI)
  let ?V = "{db_blocks dbs | ou dbs. ou \<in> A \<and> ou_opened ou = Inr dbs}"
  have "outside_ok M K ?V ou" if "ou \<in> A" for ou
    using assms(4) that by (auto simp: outside_ok_def)
  then have q: "quiet M K ?V s"
    using menu_run_quiet [OF assms(5,1,2)] assms(3) by (auto simp: quiet_def session_new_def)
  then show "Submitted \<notin> set (ss_shown s)"
    by (simp add: quiet_def)
  show "mp_transactions (nr_mempool nr) = []"
    and "(\<exists>ou \<in> A. \<exists>dbs. ou_opened ou = Inr dbs \<and> dag_store (nr_blockdag nr) = db_blocks dbs) \<or> length (dag_store (nr_blockdag nr)) \<le> 1"
    if "ss_node s = Some (nr, reg)" for nr reg
    using q that by (auto simp: quiet_def idle_node_def)
  fix ou
  assume t: "ss_node s \<noteq> None \<and> (ss_menu s = TransactionMenu \<and> fst (read_choice (ss_input s)) = 1
    \<or> ss_menu s = ContractMenu \<and> fst (read_choice (ss_input s)) \<in> {1, 2})"
  let ?s = "s\<lparr>ss_input := snd (read_choice (ss_input s))\<rparr>"
  have "quiet M K ?V ?s" "ss_node ?s \<noteq> None"
    using q t by simp_all
  note fails = submitting_commands_fail [OF assms(1,2) this, of ou, THEN finish_error]
  show "\<exists>e. ss_menu (menu_step M ou s) = Ended (Some e)"
    using t fails by (auto simp: menu_step_def case_prod_unfold Let_def transaction_menu_def smart_contract_menu_def)
qed

text \<open>A session with one wallet: it starts a node, goes to the transactions and transfers.\<close>

definition sample_menu_env ::
  "(unit, unit, unit, (bytes \<times> bytes option) list, (bytes \<times> bytes option) list,
    (pcf \<times> bytes \<times> bytes) list, kv_op list, unit) menu_env" where
  "sample_menu_env =
     \<lparr>me_node = sample_node_env\<lparr>ne_env := sample_env\<lparr>sha256 := head_sha\<rparr>, ne_secp := sample_secp\<rparr>, me_hex = real_hex,
      me_keys = \<lparr>key_of_bytes = (\<lambda>_. Some ()), bytes_of_key = (\<lambda>_. replicate 32 1)\<rparr>,
      me_load = (\<lambda>_ path. if path = ''w.json'' then Some (from_private_key head_sha (hex_enc real_hex) sample_secp ()) else None),
      me_save = (\<lambda>_ _ _. None), me_read = (\<lambda>_ _. None)\<rparr>"

definition sample_outside ::
  "((bytes \<times> bytes option) list, (bytes \<times> bytes option) list, (pcf \<times> bytes \<times> bytes) list, kv_op list) outside" where
  "sample_outside = \<lparr>ou_now = 1000, ou_now2 = 1000,
     ou_opened = Inr \<lparr>db_blocks = [], db_executor_registry = [], db_executor_storage = [], db_pruner = [],
       db_pruner_blocks = empty_store, db_registry = []\<rparr>, ou_secret = []\<rparr>"

definition sample_session ::
  "((bytes \<times> bytes option) list, (bytes \<times> bytes option) list, (pcf \<times> bytes \<times> bytes) list, kv_op list, unit) session" where
  "sample_session = (menu_step sample_menu_env sample_outside ^^ 4)
     (session_new [''1'', ''1'', ''4'', ''2'', ''1'', ''w.json'', ''cyt00'', ''5''] ())"

lemma choice_simps:
  "read_choice (''1'' # ls) = (1, ls)" "read_choice (''2'' # ls) = (2, ls)" "read_choice (''4'' # ls) = (4, ls)"
  by (simp_all add: read_choice_def read_line_def trim_def is_space_def parse_uint_def is_digit_def decimal_value_def)

lemma sample_session_state:
  "ss_node sample_session \<noteq> None" "ss_menu sample_session = TransactionMenu" "ss_files sample_session = ()"
  "ss_input sample_session = [''1'', ''w.json'', ''cyt00'', ''5'']" "ss_shown sample_session = [NodeStarted]"
  by (simp_all add: sample_session_def numeral_eq_Suc session_new_def menu_step_def choice_simps main_menu_def enter_def
      node_menu_def menu_start_node_def sample_outside_def finish_def show_output_def)

lemma menu_run_funpow: "ou \<in> A \<Longrightarrow> menu_run M A s ((menu_step M ou ^^ n) s)"
  by (induction n) (auto intro: menu_run.intros)

lemma sample_menu_env_ok: "menu_env_ok sample_menu_env"
  by (simp add: menu_env_ok_def wallet_files_ok_def sample_menu_env_def real_hex_ok sha_len_def head_sha_def sample_secp_ok)

lemma head_addresses_differ: "wallet_address_bytes head_sha sample_secp () \<noteq> address_of head_sha sample_secp ()"
proof -
  have "replicate 20 (1 :: u8) \<noteq> replicate 8 1 @ replicate 12 0"
    by (rule notI, drule arg_cong [of _ _ last]) simp
  then show ?thesis
    by (simp add: wallet_address_bytes_def address_of_def head_sha_def)
qed

theorem interactive_never_submits_witness:
  "ss_shown sample_session = [NodeStarted]
   \<and> (\<exists>e. ss_menu (menu_step sample_menu_env sample_outside sample_session) = Ended (Some e))"
proof -
  have d: "addresses_differ sample_menu_env UNIV"
    using head_addresses_differ by (simp add: addresses_differ_def sample_menu_env_def)
  have w: "wallets_from sample_menu_env UNIV ()"
    by (simp add: wallets_from_def sample_menu_env_def)
  have r: "menu_run sample_menu_env {sample_outside}
      (session_new [''1'', ''1'', ''4'', ''2'', ''1'', ''w.json'', ''cyt00'', ''5''] ()) sample_session"
    unfolding sample_session_def by (rule menu_run_funpow) simp
  show ?thesis
    using interactive_never_submits [OF sample_menu_env_ok d w _ r] by (simp add: sample_session_state choice_simps)
qed

text \<open>
  The menus do not notice the end of their input: a line then reads as empty text, which every
  menu takes for an invalid choice, so the loops go on for ever and never change anything, in
  whatever menu the input ends.
\<close>

theorem menus_spin_at_end_of_input:
  assumes "ss_input s = []" and "\<forall>e. ss_menu s \<noteq> Ended e"
  shows "fold (menu_step M) ous s = s\<lparr>ss_shown := ss_shown s @ replicate (length ous) InvalidOption\<rparr>"
  using assms
proof (induction ous arbitrary: s)
  case (Cons ou ous)
  have "read_choice [] = (0, [])"
    by (simp add: read_choice_def read_line_def parse_uint_def)
  then have "menu_step M ou s = s\<lparr>ss_shown := ss_shown s @ [InvalidOption]\<rparr>"
    using Cons.prems
    by (cases s; cases "ss_menu s")
      (auto simp: menu_step_def main_menu_def node_menu_def transaction_menu_def smart_contract_menu_def sdk_menu_def
        show_output_def)
  then show ?case
    using Cons.IH [of "s\<lparr>ss_shown := ss_shown s @ [InvalidOption]\<rparr>"] Cons.prems by simp
qed simp

theorem menus_spin_at_end_of_input_witness:
  "ss_shown (fold (menu_step sample_menu_env) (replicate 3 sample_outside) (session_new [] ())) =
     [InvalidOption, InvalidOption, InvalidOption]"
  by (subst menus_spin_at_end_of_input) (simp_all add: session_new_def numeral_eq_Suc)

end
