(* ===== verification/Statistics.thy ===== *)
theory Statistics
  imports Node_Runtime
begin

text \<open>
  The figures that the consensus components report: of \<^verbatim>\<open>blue_set.rs\<close>, \<^verbatim>\<open>ghostdag.rs\<close> and \<^verbatim>\<open>mining.rs\<close> under
  \<^verbatim>\<open>src/src/consensus/\<close>, of \<^verbatim>\<open>src/src/finality/finality_engine.rs\<close>, and of the DAG and the node (\<^verbatim>\<open>blockdag.rs\<close>,
  \<^verbatim>\<open>node_runtime.rs\<close>).

  \<open>None\<close> is a panic: of the topological sort, or of the index of the first tip. A quotient by zero
  of doubles is not a number of the model; where the code can meet it the result is an option too.
\<close>

section \<open>Blue sets\<close>

definition get_anticone_size :: "block_dag \<Rightarrow> block_hash \<Rightarrow> block_hash \<Rightarrow> nat" where
  "get_anticone_size d h ref = card (get_anticone d h ref)"

definition count_blue_blocks :: "nat \<Rightarrow> block_dag \<Rightarrow> block_hash \<Rightarrow> nat option" where
  "count_blue_blocks k d ref = map_option card (build_blue_set k d ref)"

definition count_red_blocks :: "nat \<Rightarrow> block_dag \<Rightarrow> block_hash \<Rightarrow> nat option" where
  "count_red_blocks k d ref = map_option card (build_red_set k d ref)"

record blue_set_stats =
  bs_blue_count :: nat
  bs_red_count :: nat
  bs_total_blocks :: nat
  bs_k_parameter :: nat
  bs_blue_ratio :: rat

definition get_blue_set_stats :: "nat \<Rightarrow> block_dag \<Rightarrow> block_hash \<Rightarrow> blue_set_stats option" where
  "get_blue_set_stats k d ref =
     (case (build_blue_set k d ref, build_red_set k d ref) of
        (Some blue, Some red) \<Rightarrow>
          let total_blocks = dag_block_count d in
          Some \<lparr>bs_blue_count = card blue, bs_red_count = card red, bs_total_blocks = total_blocks, bs_k_parameter = k,
            bs_blue_ratio = (if total_blocks > 0
              then fl (u64_to_f64 (of_nat (card blue)) / u64_to_f64 (of_nat total_blocks)) else 0)\<rparr>
      | _ \<Rightarrow> None)"

section \<open>The GHOSTDAG engine\<close>

record ghostdag_stats =
  gs_k_parameter :: nat
  gs_total_blocks :: nat
  gs_blue_blocks :: nat
  gs_red_blocks :: nat
  gs_cache_size :: nat

definition ghostdag_get_stats :: "(block_hash set \<Rightarrow> block_hash list) \<Rightarrow> ghostdag \<Rightarrow> ghostdag_stats option" where
  "ghostdag_get_stats enum e =
     (case gd_dag e of
        None \<Rightarrow> Some \<lparr>gs_k_parameter = gd_k e, gs_total_blocks = 0, gs_blue_blocks = 0, gs_red_blocks = 0, gs_cache_size = 0\<rparr>
      | Some d \<Rightarrow>
          (case get_tips enum (dag_idx d) of
             [] \<Rightarrow> None
           | tip # _ \<Rightarrow>
               (case (build_blue_set (gd_k e) d tip, build_red_set (gd_k e) d tip) of
                  (Some blue, Some red) \<Rightarrow>
                    Some \<lparr>gs_k_parameter = gd_k e, gs_total_blocks = dag_block_count d, gs_blue_blocks = card blue,
                      gs_red_blocks = card red, gs_cache_size = length (blue_score_cache e)\<rparr>
                | _ \<Rightarrow> None)))"

text \<open>\<open>get_blue_blocks\<close> and \<open>get_red_blocks\<close> of the engine.\<close>

definition engine_blue_blocks :: "ghostdag \<Rightarrow> block_hash \<Rightarrow> ghost_error + block_hash list" where
  "engine_blue_blocks e ref =
     (case gd_dag e of
        None \<Rightarrow> Inl DagNotAttached
      | Some d \<Rightarrow> (case get_blue_blocks (gd_k e) d ref of None \<Rightarrow> Inl CountUnderflow | Some bs \<Rightarrow> Inr bs))"

definition engine_red_blocks :: "ghostdag \<Rightarrow> block_hash \<Rightarrow> ghost_error + block_hash list" where
  "engine_red_blocks e ref =
     (case gd_dag e of
        None \<Rightarrow> Inl DagNotAttached
      | Some d \<Rightarrow> (case get_red_blocks (gd_k e) d ref of None \<Rightarrow> Inl CountUnderflow | Some bs \<Rightarrow> Inr bs))"

section \<open>Finality\<close>

definition fin_get_block_height :: "finality_engine \<Rightarrow> block_hash \<Rightarrow> u64 option" where
  "fin_get_block_height fe h = map_of (block_heights fe) h"

definition fin_get_block_score :: "finality_engine \<Rightarrow> block_hash \<Rightarrow> u64 option" where
  "fin_get_block_score fe h = map_of (block_scores fe) h"

record finality_stats =
  fs_interval_tree_built :: bool
  fs_anticone_cache_size :: nat
  fs_vsp_cache_size :: nat
  fs_total_finalized :: nat
  fs_confirmation_depth :: nat
  fs_k :: nat

definition fin_get_stats :: "finality_engine \<Rightarrow> finality_stats" where
  "fin_get_stats fe =
     \<lparr>fs_interval_tree_built = (interval_tree fe \<noteq> None), fs_anticone_cache_size = length (anticone_cache fe),
      fs_vsp_cache_size = length (vsp_cache fe),
      fs_total_finalized = sum_list (map (card \<circ> snd) (finalized_blocks fe)),
      fs_confirmation_depth = confirmation_depth fe, fs_k = fe_k fe\<rparr>"

section \<open>Mining\<close>

definition get_difficulty :: "difficulty_state \<Rightarrow> u32" where
  "get_difficulty s = current_difficulty s"

definition estimate_network_hashrate :: "difficulty_state \<Rightarrow> rat option" where
  "estimate_network_hashrate s =
     (if target_block_interval (daa_cfg s) = 0 then None
      else Some (fl (of_nat (unat (current_difficulty s)) / u64_to_f64 (target_block_interval (daa_cfg s)))))"

definition get_current_difficulty :: "mining_manager \<Rightarrow> u32" where
  "get_current_difficulty mm = get_difficulty (mm_difficulty mm)"

definition get_network_hashrate :: "mining_manager \<Rightarrow> rat option" where
  "get_network_hashrate mm = estimate_network_hashrate (mm_difficulty mm)"

definition should_adjust_difficulty :: "mining_manager \<Rightarrow> bool" where
  "should_adjust_difficulty mm \<longleftrightarrow>
     adjustment_window (daa_cfg (mm_difficulty mm)) \<le> length (timestamps (mm_difficulty mm))"

datatype alert = Oscillation | TimeDeviation rat rat

text \<open>With a target of 0 the deviation is infinite.\<close>

definition detect_attacks :: "mining_manager \<Rightarrow> alert list" where
  "detect_attacks mm =
     (let avg = average_block_time (mm_stats mm);
          target = u64_to_f64 (target_block_interval (daa_cfg (mm_difficulty mm))) in
      (if detect_oscillation (mm_difficulty mm) then [Oscillation] else [])
      @ (if avg > 0 \<and> (target = 0 \<or> fl (\<bar>fl (avg - target)\<bar> / target) > 1 / 2) then [TimeDeviation avg target] else []))"


section \<open>The node and its DAG\<close>

record dag_export =
  ex_blocks :: "block list"
  ex_tips :: "block_hash list"
  ex_statistics :: dag_stats

definition export_dag :: "(block_hash set \<Rightarrow> block_hash list) \<Rightarrow> block_dag \<Rightarrow> dag_export" where
  "export_dag enum d =
     \<lparr>ex_blocks = map snd (dag_store d), ex_tips = get_tips enum (dag_idx d), ex_statistics = get_stats enum d\<rparr>"

record system_metrics =
  me_tps :: rat
  me_network_latency_ms :: rat
  me_memory_mb :: u64
  me_storage_mb :: u64
  me_mempool_size :: nat
  me_block_count :: nat
  me_finality_height :: u64

text \<open>The first four figures are constants of the code.\<close>

definition get_metrics :: "('rdb, 'sdb, 'p, 'bdb) node_runtime \<Rightarrow> system_metrics" where
  "get_metrics nr =
     \<lparr>me_tps = 0, me_network_latency_ms = 0, me_memory_mb = 0, me_storage_mb = 0,
      me_mempool_size = tx_count (nr_mempool nr), me_block_count = length (dag_store (nr_blockdag nr)),
      me_finality_height = (case get_finality_height nr of None \<Rightarrow> 0 | Some h \<Rightarrow> h)\<rparr>"

section \<open>Correctness\<close>

lemma blue_fold_set:
  "fold (\<lambda>h blue. if h = ref then blue else if P h then insert h blue else blue) all B =
   B \<union> {h \<in> set all. h \<noteq> ref \<and> P h}"
  by (induction all arbitrary: B) auto

lemma build_blue_set_spec:
  assumes "dag_inv E d"
  shows "build_blue_set k d ref =
      Some (insert ref {h \<in> fst ` set (dag_store d). h \<noteq> ref \<and> card (get_anticone d h ref) \<le> k})"
    and "build_red_set k d ref =
      Some {h \<in> fst ` set (dag_store d). h \<noteq> ref \<and> k < card (get_anticone d h ref)}"
proof -
  obtain all where all: "trav_all_blocks d = Some all" "set all = fst ` set (dag_store d)"
    using topological_order_ex [OF assms] unfolding trav_all_blocks_def by blast
  then show blue: "build_blue_set k d ref =
      Some (insert ref {h \<in> fst ` set (dag_store d). h \<noteq> ref \<and> card (get_anticone d h ref) \<le> k})"
    by (simp add: build_blue_set_def blue_fold_set)
  show "build_red_set k d ref =
      Some {h \<in> fst ` set (dag_store d). h \<noteq> ref \<and> k < card (get_anticone d h ref)}"
    using all by (auto simp: build_red_set_def blue)
qed

text \<open>
  Relative to a stored block the blue and the red blocks divide the blocks of the DAG: the
  statistics of the blue sets count every block once, and none of them is ever a panic. A larger
  parameter k colours no blue block red.
\<close>

theorem blue_set_stats_partition:
  assumes "dag_inv E d" and "ref \<in> fst ` set (dag_store d)"
  shows "\<exists>st. get_blue_set_stats k d ref = Some st
    \<and> bs_blue_count st + bs_red_count st = bs_total_blocks st \<and> bs_total_blocks st = dag_block_count d
    \<and> 1 \<le> bs_blue_count st
    \<and> count_blue_blocks k d ref = Some (bs_blue_count st) \<and> count_red_blocks k d ref = Some (bs_red_count st)
    \<and> (\<forall>k'. k \<le> k' \<longrightarrow> (\<exists>n. count_blue_blocks k' d ref = Some n \<and> bs_blue_count st \<le> n))"
proof -
  let ?V = "fst ` set (dag_store d)"
  let ?B = "\<lambda>k. insert ref {h \<in> ?V. h \<noteq> ref \<and> card (get_anticone d h ref) \<le> k}"
  let ?R = "{h \<in> ?V. h \<noteq> ref \<and> k < card (get_anticone d h ref)}"
  note spec = build_blue_set_spec [OF assms(1)]
  have "distinct (map fst (dag_store d))"
    using dag_invD(1) [OF assms(1)] omap_inv_distinct by (auto simp: view_ok_def)
  then have n: "card ?V = dag_block_count d"
    by (simp add: dag_block_count_def distinct_card [of "map fst (dag_store d)", simplified])
  have "?B k \<union> ?R = ?V" "?B k \<inter> ?R = {}"
    using assms(2) by auto
  then have sum: "card (?B k) + card ?R = dag_block_count d"
    using n card_Un_disjoint [of "?B k" ?R] by simp
  have mono: "card (?B k) \<le> card (?B k')" if "k \<le> k'" for k'
    by (rule card_mono) (use that in auto)
  have "1 \<le> card (?B k)"
    by (simp add: Suc_le_eq card_gt_0_iff)
  with sum mono show ?thesis
    by (auto simp: get_blue_set_stats_def count_blue_blocks_def count_red_blocks_def spec Let_def)
qed

theorem blue_set_stats_partition_witness:
  "\<exists>st. get_blue_set_stats 0 sample_dag3 (replicate 32 172) = Some st
    \<and> bs_blue_count st + bs_red_count st = dag_block_count sample_dag3"
proof -
  note inv = dag_reachable_inv [OF sample_dag3_reachable]
  have "replicate 32 172 \<in> fst ` set (dag_store sample_dag3)"
    using dag_invD(3) [OF inv] sample_dag3_tips by (auto simp: index_ok_def)
  from blue_set_stats_partition [OF inv this, of 0] show ?thesis
    by auto
qed

end
