(* ===== verification/Production_Cli.thy ===== *)
theory Production_Cli
  imports Interactive Statistics
begin

text \<open>
  The production command line: \<^verbatim>\<open>src/src/cli/cli_interface.rs\<close>.

  As in \<open>Interactive\<close> a session reads lines and shows answers, \<open>production_step\<close> is one turn of its
  loop, and an error ends it. Unlike there the node is only created and initialised: its loop
  is never run. \<open>mining_active\<close> is a flag of the session beside the one of the node. The metrics are
  created with the session and never written.
\<close>

section \<open>State\<close>

record cli_metrics =
  cm_start_time :: u64
  cm_transactions_processed :: u64
  cm_blocks_mined :: u64
  cm_avg_latency_ms :: rat

definition cli_metrics_new :: "u64 \<Rightarrow> cli_metrics" where
  "cli_metrics_new now = \<lparr>cm_start_time = now, cm_transactions_processed = 0, cm_blocks_mined = 0, cm_avg_latency_ms = 0\<rparr>"

text \<open>Seconds of a monotone clock.\<close>

definition uptime_seconds :: "u64 \<Rightarrow> cli_metrics \<Rightarrow> u64" where
  "uptime_seconds now m = now - cm_start_time m"

datatype production_error =
    NodeNotStarted | InvalidFromAddress | InvalidToAddress | NotANumber | NoTestKey | ProdSign tx_error
  | ProdNode node_error | InvalidHexHash | HashNot32Bytes | ProdOpen menu_error

datatype production_output =
    OptionInvalid | NodeReady | TransactionSent nat | DagStatus "string list" nat | StateStatus string
  | FinalityStatus "u64 option" nat | MempoolStatus nat "(u64 \<times> u64) list" | PeerNoted string | PeerCount nat
  | MiningAlready | MiningStarted | MiningInactive | MiningStopped | PeerList "(string \<times> string \<times> string) list"
  | Metrics u64 u64 u64 rat rat rat u64 u64 | Pruned nat | TxKnown bool string

record ('rdb, 'sdb, 'p, 'bdb) production =
  pc_node :: "('rdb, 'sdb, 'p, 'bdb) node_runtime option"
  mining_active :: bool
  pc_metrics :: cli_metrics
  pc_input :: "string list"
  pc_shown :: "production_output list"
  pc_ended :: "production_error option option"

definition production_new :: "u64 \<Rightarrow> string list \<Rightarrow> ('rdb, 'sdb, 'p, 'bdb) production" where
  "production_new now input =
     \<lparr>pc_node = None, mining_active = False, pc_metrics = cli_metrics_new now, pc_input = input, pc_shown = [],
      pc_ended = None\<rparr>"

definition ask :: "('rdb, 'sdb, 'p, 'bdb) production \<Rightarrow> string \<times> ('rdb, 'sdb, 'p, 'bdb) production" where
  "ask s = (fst (read_line (pc_input s)), s\<lparr>pc_input := snd (read_line (pc_input s))\<rparr>)"

text \<open>What a turn meets outside: two clock readings, the databases it opens, a write to the store.\<close>

record ('rdb, 'sdb, 'p, 'bdb) surroundings =
  su_now :: u64
  su_now2 :: u64
  su_opened :: "menu_error + ('rdb, 'sdb, 'p, 'bdb) databases"
  su_write :: "store_error option"

text \<open>Every command but the start needs a node: \<open>ok_or\<close>.\<close>

definition with_node ::
  "(('rdb, 'sdb, 'p, 'bdb) node_runtime \<Rightarrow> (production_error + production_output) \<times> ('rdb, 'sdb, 'p, 'bdb) production)
    \<Rightarrow> ('rdb, 'sdb, 'p, 'bdb) production \<Rightarrow> (production_error + production_output) \<times> ('rdb, 'sdb, 'p, 'bdb) production" where
  "with_node f s = (case pc_node s of None \<Rightarrow> (Inl NodeNotStarted, s) | Some nr \<Rightarrow> f nr)"

section \<open>Commands\<close>

definition cmd_start_node ::
  "('sk, 'pk, 'rs, 'rdb, 'sdb, 'p, 'bdb) node_env \<Rightarrow> ('rdb, 'sdb, 'p, 'bdb) surroundings
    \<Rightarrow> ('rdb, 'sdb, 'p, 'bdb) production \<Rightarrow> (production_error + production_output) \<times> ('rdb, 'sdb, 'p, 'bdb) production" where
  "cmd_start_node N su s =
     (case su_opened su of
        Inl e \<Rightarrow> (Inl (ProdOpen e), s)
      | Inr dbs \<Rightarrow> (Inr NodeReady,
          s\<lparr>pc_node := Some (node_initialize N (su_now2 su) (su_write su) (runtime_new N (su_now su) dbs))\<rparr>))"

definition hex_address :: "hex_codec \<Rightarrow> string \<Rightarrow> address option" where
  "hex_address H s = (case hex_dec H s of None \<Rightarrow> None | Some b \<Rightarrow> if length b = 20 then Some b else None)"

text \<open>Every transaction is signed with the same test key, whatever the sender.\<close>

definition cmd_send_transaction ::
  "('sk, 'pk, 'rs, 'rdb, 'sdb, 'p, 'bdb) node_env \<Rightarrow> hex_codec \<Rightarrow> 'sk key_bytes \<Rightarrow> ('rdb, 'sdb, 'p, 'bdb) surroundings
    \<Rightarrow> ('rdb, 'sdb, 'p, 'bdb) production \<Rightarrow> (production_error + production_output) \<times> ('rdb, 'sdb, 'p, 'bdb) production" where
  "cmd_send_transaction N H B su s = with_node (\<lambda>nr.
     (let (from_str, s) = ask s in
      case hex_address H from_str of
        None \<Rightarrow> (Inl InvalidFromAddress, s)
      | Some sender \<Rightarrow>
     (let (to_str, s) = ask s in
      case hex_address H to_str of
        None \<Rightarrow> (Inl InvalidToAddress, s)
      | Some to \<Rightarrow>
     (let (amount_str, s) = ask s in
      case parse_uint (2 ^ 64) amount_str of
        None \<Rightarrow> (Inl NotANumber, s)
      | Some amount \<Rightarrow>
     (let (nonce_str, s) = ask s in
      case parse_uint (2 ^ 64) nonce_str of
        None \<Rightarrow> (Inl NotANumber, s)
      | Some nonce \<Rightarrow>
     (case key_of_bytes B (replicate 32 1) of
        None \<Rightarrow> (Inl NoTestKey, s)
      | Some secret_key \<Rightarrow>
     (case sign (sha256 (ne_env N)) (ne_secp N) secret_key
         (new_transfer sender to (of_nat amount) (of_nat nonce) 21000 1) of
        Inl e \<Rightarrow> (Inl (ProdSign e), s)
      | Inr tx \<Rightarrow>
     (case node_add_transaction N (su_now su) (su_now2 su) tx nr of
        (Inl e, nr') \<Rightarrow> (Inl (ProdNode e), s\<lparr>pc_node := Some nr'\<rparr>)
      | (Inr _, nr') \<Rightarrow> (Inr (TransactionSent (tx_count (nr_mempool nr'))), s\<lparr>pc_node := Some nr'\<rparr>))))))))) s"

definition cmd_print_dag ::
  "('sk, 'pk, 'rs, 'rdb, 'sdb, 'p, 'bdb) node_env \<Rightarrow> hex_codec \<Rightarrow> ('rdb, 'sdb, 'p, 'bdb) production
    \<Rightarrow> (production_error + production_output) \<times> ('rdb, 'sdb, 'p, 'bdb) production" where
  "cmd_print_dag N H s = with_node (\<lambda>nr.
     (Inr (DagStatus (map (hex_enc H \<circ> take 8) (get_tips (ne_enum N) (dag_idx (nr_blockdag nr))))
        (length (dag_store (nr_blockdag nr)))), s)) s"

definition cmd_print_state ::
  "hex_codec \<Rightarrow> ('rdb, 'sdb, 'p, 'bdb) production
    \<Rightarrow> (production_error + production_output) \<times> ('rdb, 'sdb, 'p, 'bdb) production" where
  "cmd_print_state H s = with_node (\<lambda>nr. (Inr (StateStatus (hex_enc H (current_state_root (nr_state nr)))), s)) s"

definition cmd_print_finality ::
  "('rdb, 'sdb, 'p, 'bdb) production \<Rightarrow> (production_error + production_output) \<times> ('rdb, 'sdb, 'p, 'bdb) production" where
  "cmd_print_finality s = with_node (\<lambda>nr.
     (Inr (FinalityStatus (get_finality_height nr) (confirmation_depth (nr_finality nr))), s)) s"

definition shown_amount :: "transaction \<Rightarrow> u64" where
  "shown_amount tx = (case payload tx of Transfer _ amount \<Rightarrow> amount | _ \<Rightarrow> 0)"

definition cmd_print_mempool ::
  "('sk, 'pk, 'rs, 'rdb, 'sdb, 'p, 'bdb) node_env \<Rightarrow> ('rdb, 'sdb, 'p, 'bdb) production
    \<Rightarrow> (production_error + production_output) \<times> ('rdb, 'sdb, 'p, 'bdb) production" where
  "cmd_print_mempool N s = with_node (\<lambda>nr.
     (let txs = map (mt_transaction \<circ> snd) (ne_txs N (mp_transactions (nr_mempool nr))) in
      (Inr (MempoolStatus (tx_count (nr_mempool nr)) (map (\<lambda>tx. (shown_amount tx, tx_nonce tx)) (take 10 txs))), s))) s"

definition cmd_connect_peer ::
  "('rdb, 'sdb, 'p, 'bdb) production \<Rightarrow> (production_error + production_output) \<times> ('rdb, 'sdb, 'p, 'bdb) production" where
  "cmd_connect_peer s = with_node (\<lambda>_. let (peer_addr, s) = ask s in (Inr (PeerNoted peer_addr), s)) s"

definition cmd_print_peers ::
  "('rdb, 'sdb, 'p, 'bdb) production \<Rightarrow> (production_error + production_output) \<times> ('rdb, 'sdb, 'p, 'bdb) production" where
  "cmd_print_peers s = with_node (\<lambda>_. (Inr (PeerCount 0), s)) s"

definition cmd_start_mining ::
  "('rdb, 'sdb, 'p, 'bdb) production \<Rightarrow> (production_error + production_output) \<times> ('rdb, 'sdb, 'p, 'bdb) production" where
  "cmd_start_mining s = with_node (\<lambda>nr.
     (if mining_active s then (Inr MiningAlready, s)
      else (Inr MiningStarted, s\<lparr>pc_node := Some (start_mining nr), mining_active := True\<rparr>))) s"

definition cmd_stop_mining ::
  "('rdb, 'sdb, 'p, 'bdb) production \<Rightarrow> (production_error + production_output) \<times> ('rdb, 'sdb, 'p, 'bdb) production" where
  "cmd_stop_mining s = with_node (\<lambda>nr.
     (if \<not> mining_active s then (Inr MiningInactive, s)
      else (Inr MiningStopped, s\<lparr>pc_node := Some (stop_mining nr), mining_active := False\<rparr>))) s"

definition cmd_list_peers ::
  "('rdb, 'sdb, 'p, 'bdb) production \<Rightarrow> (production_error + production_output) \<times> ('rdb, 'sdb, 'p, 'bdb) production" where
  "cmd_list_peers s = with_node (\<lambda>_. (Inr (PeerList []), s)) s"

definition cmd_show_metrics ::
  "('rdb, 'sdb, 'p, 'bdb) surroundings \<Rightarrow> ('rdb, 'sdb, 'p, 'bdb) production
    \<Rightarrow> (production_error + production_output) \<times> ('rdb, 'sdb, 'p, 'bdb) production" where
  "cmd_show_metrics su s = with_node (\<lambda>nr.
     (let metrics = pc_metrics s; node_metrics = get_metrics nr in
      (Inr (Metrics (uptime_seconds (su_now su) metrics) (cm_transactions_processed metrics) (cm_blocks_mined metrics)
         (cm_avg_latency_ms metrics) (me_tps node_metrics) (me_network_latency_ms node_metrics) (me_memory_mb node_metrics)
         (me_storage_mb node_metrics)), s))) s"

definition cmd_prune_storage ::
  "('sk, 'pk, 'rs, 'rdb, 'sdb, 'p, 'bdb) node_env \<Rightarrow> ('rdb, 'sdb, 'p, 'bdb) surroundings
    \<Rightarrow> ('rdb, 'sdb, 'p, 'bdb) production \<Rightarrow> (production_error + production_output) \<times> ('rdb, 'sdb, 'p, 'bdb) production" where
  "cmd_prune_storage N su s = with_node (\<lambda>nr.
     (let (input, s) = ask s;
          window = (case parse_uint (2 ^ 64) input of None \<Rightarrow> 1000 | Some n \<Rightarrow> n) in
      case prune_storage N (su_now su) window nr of
        (Inl e, nr') \<Rightarrow> (Inl (ProdNode e), s\<lparr>pc_node := Some nr'\<rparr>)
      | (Inr pruned_blocks, nr') \<Rightarrow> (Inr (Pruned pruned_blocks), s\<lparr>pc_node := Some nr'\<rparr>))) s"

definition cmd_validate_transaction ::
  "('sk, 'pk, 'rs, 'rdb, 'sdb, 'p, 'bdb) node_env \<Rightarrow> hex_codec \<Rightarrow> ('rdb, 'sdb, 'p, 'bdb) production
    \<Rightarrow> (production_error + production_output) \<times> ('rdb, 'sdb, 'p, 'bdb) production" where
  "cmd_validate_transaction N H s = with_node (\<lambda>nr.
     (let (hash_str, s) = ask s in
      case hex_dec H hash_str of
        None \<Rightarrow> (Inl InvalidHexHash, s)
      | Some h \<Rightarrow>
          if length h \<noteq> 32 then (Inl HashNot32Bytes, s)
          else (Inr (TxKnown (node_validate_transaction N h nr) hash_str), s))) s"

section \<open>The loop\<close>

definition conclude ::
  "(production_error + production_output) \<times> ('rdb, 'sdb, 'p, 'bdb) production \<Rightarrow> ('rdb, 'sdb, 'p, 'bdb) production" where
  "conclude rs =
     (case rs of
        (Inl e, s) \<Rightarrow> s\<lparr>pc_ended := Some (Some e)\<rparr>
      | (Inr out, s) \<Rightarrow> s\<lparr>pc_shown := pc_shown s @ [out]\<rparr>)"

definition production_command ::
  "('sk, 'pk, 'rs, 'rdb, 'sdb, 'p, 'bdb) node_env \<Rightarrow> hex_codec \<Rightarrow> 'sk key_bytes \<Rightarrow> ('rdb, 'sdb, 'p, 'bdb) surroundings
    \<Rightarrow> string \<Rightarrow> ('rdb, 'sdb, 'p, 'bdb) production
    \<Rightarrow> ((production_error + production_output) \<times> ('rdb, 'sdb, 'p, 'bdb) production) option" where
  "production_command N H B su choice s =
     (if choice = ''1'' then Some (cmd_start_node N su s)
      else if choice = ''2'' then Some (cmd_send_transaction N H B su s)
      else if choice = ''3'' then Some (cmd_print_dag N H s)
      else if choice = ''4'' then Some (cmd_print_state H s)
      else if choice = ''5'' then Some (cmd_print_finality s)
      else if choice = ''6'' then Some (cmd_print_mempool N s)
      else if choice = ''7'' then Some (cmd_connect_peer s)
      else if choice = ''8'' then Some (cmd_print_peers s)
      else if choice = ''9'' then Some (cmd_start_mining s)
      else if choice = ''10'' then Some (cmd_stop_mining s)
      else if choice = ''11'' then Some (cmd_list_peers s)
      else if choice = ''12'' then Some (cmd_show_metrics su s)
      else if choice = ''13'' then Some (cmd_prune_storage N su s)
      else if choice = ''14'' then Some (cmd_validate_transaction N H s)
      else if choice \<in> {''q'', ''Q''} then None
      else Some (Inr OptionInvalid, s))"

definition production_step ::
  "('sk, 'pk, 'rs, 'rdb, 'sdb, 'p, 'bdb) node_env \<Rightarrow> hex_codec \<Rightarrow> 'sk key_bytes \<Rightarrow> ('rdb, 'sdb, 'p, 'bdb) surroundings
    \<Rightarrow> ('rdb, 'sdb, 'p, 'bdb) production \<Rightarrow> ('rdb, 'sdb, 'p, 'bdb) production" where
  "production_step N H B su s =
     (if pc_ended s \<noteq> None then s
      else let (choice, s) = ask s in
        case production_command N H B su choice s of
          None \<Rightarrow> s\<lparr>pc_ended := Some None\<rparr>
        | Some rs \<Rightarrow> conclude rs)"

section \<open>Sessions in which nothing happens\<close>

definition test_key_unfunded :: "('sk, 'pk, 'rs, 'rdb, 'sdb, 'p, 'bdb) node_env \<Rightarrow> 'sk key_bytes \<Rightarrow> bool" where
  "test_key_unfunded N B \<longleftrightarrow>
     (\<forall>sk. key_of_bytes B (replicate 32 1) = Some sk
        \<longrightarrow> address_of (sha256 (ne_env N)) (ne_secp N) (public_key (ne_secp N) sk) \<noteq> GENESIS_WALLET)"

text \<open>What every node has, over whatever store it was started.\<close>

definition calm ::
  "('sk, 'pk, 'rs, 'rdb, 'sdb, 'p, 'bdb) node_env \<Rightarrow> ('rdb, 'sdb, 'p, 'bdb) node_runtime \<Rightarrow> bool" where
  "calm N nr \<longleftrightarrow> mp_inv (sha256 (ne_env N)) (nr_mempool nr) \<and> ledger_frozen N nr"

text \<open>A node of a session over the stores \<open>V\<close>; the index of a node is in order if all of these are empty.\<close>

definition resting ::
  "('sk, 'pk, 'rs, 'rdb, 'sdb, 'p, 'bdb) node_env \<Rightarrow> block_view set \<Rightarrow> ('rdb, 'sdb, 'p, 'bdb) node_runtime \<Rightarrow> bool" where
  "resting N V nr \<longleftrightarrow> calm N nr \<and> idle_node V nr \<and> (V \<subseteq> {[]} \<longrightarrow> node_inv N nr)"

definition still ::
  "('sk, 'pk, 'rs, 'rdb, 'sdb, 'p, 'bdb) node_env \<Rightarrow> block_view set \<Rightarrow> cli_metrics \<Rightarrow> ('rdb, 'sdb, 'p, 'bdb) production
    \<Rightarrow> bool" where
  "still N V m s \<longleftrightarrow>
     (\<forall>nr. pc_node s = Some nr \<longrightarrow> resting N V nr \<and> (mining_enabled nr \<longrightarrow> mining_active s))
     \<and> pc_metrics s = m \<and> (\<forall>n. TransactionSent n \<notin> set (pc_shown s))"

definition still_result ::
  "('sk, 'pk, 'rs, 'rdb, 'sdb, 'p, 'bdb) node_env \<Rightarrow> block_view set \<Rightarrow> cli_metrics
    \<Rightarrow> (production_error + production_output) \<times> ('rdb, 'sdb, 'p, 'bdb) production \<Rightarrow> bool" where
  "still_result N V m rs \<longleftrightarrow> still N V m (snd rs) \<and> (\<forall>n. fst rs \<noteq> Inr (TransactionSent n))"

lemma still_updates [simp]:
  "still N V m (s\<lparr>pc_input := i\<rparr>) = still N V m s" "still N V m (s\<lparr>pc_ended := e\<rparr>) = still N V m s"
  by (simp_all add: still_def)

lemma ask_simps [simp]:
  "pc_node (snd (ask s)) = pc_node s" "still N V m (snd (ask s)) = still N V m s" "pc_ended (snd (ask s)) = pc_ended s"
  by (simp_all add: ask_def)

lemma conclude_still: "still_result N V m rs \<Longrightarrow> still N V m (conclude rs)"
  by (cases rs; cases "fst rs") (auto simp: still_result_def conclude_def still_def)

text \<open>The steps of the node that a session takes keep the pool and the frozen ledger, over any store.\<close>

lemma calm_steps:
  assumes "node_env_ok N" and "calm N nr"
  shows "calm N (node_initialize N now w nr)" "calm N (start_mining nr)" "calm N (stop_mining nr)"
    "calm N (snd (node_add_transaction N now now' tx nr))" "calm N (snd (prune_storage N now window nr))"
proof -
  have iter: "tx_iterates (ne_txs N)"
    using assms(1) by (simp add: node_env_ok_def)
  note frozen = node_step_frozen [OF node_step.initialize, of N nr now w] node_step_frozen [OF node_step.start, of N nr]
    node_step_frozen [OF node_step.stop, of N nr] node_step_frozen [OF node_step.submit, of N nr now now' tx]
    node_step_frozen [OF node_step.prune, of N nr now window]
  show "calm N (node_initialize N now w nr)" "calm N (start_mining nr)" "calm N (stop_mining nr)"
    using assms(2) frozen by (simp_all add: calm_def) (simp_all add: node_initialize_def start_mining_def stop_mining_def)
  show "calm N (snd (node_add_transaction N now now' tx nr))"
    using assms(2) frozen node_add_transaction_frame [of N now now' tx nr]
    by (auto simp: calm_def intro: mp_step_inv [OF _ iter])
  show "calm N (snd (prune_storage N now window nr))"
    using assms(2) frozen prune_storage_frame [of N now window nr] by (auto simp: calm_def)
qed

lemma resting_steps:
  assumes "node_env_ok N" and "resting N V nr"
  shows "resting N V (node_initialize N now w nr)" "resting N V (start_mining nr)" "resting N V (stop_mining nr)"
    "resting N V (snd (prune_storage N now window nr))"
  using assms calm_steps [OF assms(1), of nr] node_step_inv [OF node_step.initialize assms(1), of nr now w]
    node_step_inv [OF node_step.start assms(1), of nr] node_step_inv [OF node_step.stop assms(1), of nr]
    node_step_inv [OF node_step.prune assms(1), of nr now window] idle_task(1) [of V nr N now w]
    prune_storage_frame [of N now window nr]
  by (auto simp: resting_def) (auto simp: idle_node_def stop_mining_def)

lemma map_le_empty: "map_of xs \<subseteq>\<^sub>m Map.empty \<longleftrightarrow> xs = []"
  by (cases xs) (auto simp: map_le_def dom_def)

text \<open>Only the owner of the genesis wallet has coins, so the pool refuses everyone else.\<close>

lemma unfunded_refused:
  assumes N: "node_env_ok N" "secp_ok (ne_secp N)" and "resting N V nr"
    and "sign (sha256 (ne_env N)) (ne_secp N) sk tx = Inr tx'"
    and "address_of (sha256 (ne_env N)) (ne_secp N) (public_key (ne_secp N) sk) \<noteq> GENESIS_WALLET"
    and "node_add_transaction N now now' tx' nr = (r, nr')"
  shows "(\<exists>e. r = Inl e) \<and> resting N V nr' \<and> mining_enabled nr' = mining_enabled nr"
proof -
  let ?sha = "sha256 (ne_env N)"
  have calm: "calm N nr" "idle_node V nr"
    using assms(3) by (simp_all add: resting_def)
  have inv: "calm N nr'" "V \<subseteq> {[]} \<longrightarrow> node_inv N nr'"
    using calm_steps(4) [OF N(1) calm(1), of now now' tx'] node_step_inv [OF node_step.submit N(1), of nr now now' tx']
      assms(3,6) by (simp_all add: resting_def)
  show ?thesis
  proof (cases "validate_transaction ?sha (ne_secp N) tx'")
    case (Inl e)
    with assms(3,6) show ?thesis
      by (auto simp: node_add_transaction_def)
  next
    case (Inr u)
    have sha: "sha_len ?sha" and iter: "tx_iterates (ne_txs N)"
      using N(1) by (simp_all add: node_env_ok_def)
    have "tx_from tx' = address_of ?sha (ne_secp N) (public_key (ne_secp N) sk)"
      using Inr verify_signature_sign [OF sha N(2) assms(4)]
      by (auto simp: validate_transaction_def tx_validate_basic_def split: if_splits sum.splits)
    then have poor: "get_balance (nr_state nr) (tx_from tx') = 0"
      using frozen_balance(1) [of N nr "tx_from tx'"] calm assms(5) by (simp add: calm_def node_get_balance_def)
    obtain r0 mp where a: "add_transaction ?sha (ne_txs N) (nr_state nr) now now' tx' [] None (nr_mempool nr) = (r0, mp)"
      by force
    have pool: "mp_inv ?sha (nr_mempool nr)" "mp_transactions (nr_mempool nr) = []"
      using calm by (simp_all add: calm_def idle_node_def)
    have "r0 \<noteq> Inr () \<and> mp_transactions mp = []"
      by (rule add_transaction_cases [OF iter pool(1) a]) (use poor in \<open>auto simp: pool(2) map_le_empty\<close>)
    moreover have "r = map_sum NodeMempool id r0" "nr' = nr\<lparr>nr_mempool := mp\<rparr>"
      using assms(6) Inr a by (simp_all add: node_add_transaction_def)
    ultimately show ?thesis
      using inv calm(2) by (cases r0) (simp_all add: resting_def idle_node_def)
  qed
qed

lemma cmd_send_transaction_still:
  assumes "node_env_ok N" and "secp_ok (ne_secp N)" and "test_key_unfunded N B" and "still N V m s"
  shows "still_result N V m (cmd_send_transaction N H B su s)"
proof -
  have ok: "(\<exists>e. fst (node_add_transaction N now now' tx' nr) = Inl e)
      \<and> still N V m (s'\<lparr>pc_node := Some (snd (node_add_transaction N now now' tx' nr))\<rparr>)"
    if "pc_node s' = Some nr" "still N V m s'" "key_of_bytes B (replicate 32 1) = Some sk"
      "sign (sha256 (ne_env N)) (ne_secp N) sk tx = Inr tx'" for s' nr sk tx tx' now now'
  proof -
    have "resting N V nr"
      using that(1,2) by (simp add: still_def)
    from unfunded_refused [OF assms(1,2) this that(4) _ surjective_pairing, of now now'] assms(3) that(1-3) show ?thesis
      by (simp add: test_key_unfunded_def still_def)
  qed
  have never: "fst (node_add_transaction N now now' tx' nr) \<noteq> Inr ()"
    if "pc_node s = Some nr" "key_of_bytes B (replicate 32 1) = Some sk"
      "sign (sha256 (ne_env N)) (ne_secp N) sk tx = Inr tx'" for nr sk tx tx' now now'
    using ok [OF that(1) assms(4) that(2,3), of now now'] by auto
  show ?thesis
    using assms(4) unfolding cmd_send_transaction_def with_node_def case_prod_unfold Let_def
    by (auto simp: still_result_def split: option.split sum.split dest: never intro: ok [THEN conjunct2])
qed

lemma reading_commands_still:
  assumes "still N V m s"
  shows "still_result N V m (cmd_print_dag N H s)" "still_result N V m (cmd_print_state H s)"
    "still_result N V m (cmd_print_finality s)" "still_result N V m (cmd_print_mempool N s)"
    "still_result N V m (cmd_connect_peer s)" "still_result N V m (cmd_print_peers s)"
    "still_result N V m (cmd_list_peers s)" "still_result N V m (cmd_show_metrics su s)"
    "still_result N V m (cmd_validate_transaction N H s)"
  using assms
  by (auto simp: cmd_print_dag_def cmd_print_state_def cmd_print_finality_def cmd_print_mempool_def cmd_connect_peer_def
      cmd_print_peers_def cmd_list_peers_def cmd_show_metrics_def cmd_validate_transaction_def with_node_def
      still_result_def case_prod_unfold Let_def split: option.split)

lemma mining_commands_still:
  assumes "node_env_ok N" and "still N V m s"
  shows "still_result N V m (cmd_start_mining s)" "still_result N V m (cmd_stop_mining s)"
  using assms(2) resting_steps(2,3) [OF assms(1)]
  by (auto simp: cmd_start_mining_def cmd_stop_mining_def with_node_def still_result_def still_def split: option.split)
    (simp add: stop_mining_def)

lemma cmd_prune_storage_still:
  assumes "node_env_ok N" and "still N V m s"
  shows "still_result N V m (cmd_prune_storage N su s)"
proof -
  have "still N V m (s'\<lparr>pc_node := Some (snd (prune_storage N now window nr))\<rparr>)"
    if "pc_node s' = Some nr" "still N V m s'" for s' nr now window
    using resting_steps(4) [OF assms(1), of V nr now window] prune_storage_frame [of N now window nr] that
    by (auto simp: still_def)
  then show ?thesis
    using assms(2)
    by (auto simp: cmd_prune_storage_def with_node_def still_result_def case_prod_unfold Let_def split: option.split sum.split)
qed

lemma fresh_node_resting:
  assumes "db_blocks dbs \<in> V"
  shows "resting N V (runtime_new N now dbs)"
proof -
  have "calm N (runtime_new N now dbs)"
    by (simp add: calm_def runtime_new_def node_new_frozen) (simp add: node_new_def Let_def mempool_new_inv)
  moreover have "node_inv N (runtime_new N now dbs)" if "V \<subseteq> {[]}"
    using that assms by (auto simp: runtime_new_def node_new_inv)
  ultimately show ?thesis
    using fresh_node_idle [OF assms] by (simp add: resting_def)
qed

lemma cmd_start_node_still:
  assumes "node_env_ok N" and "\<And>dbs. su_opened su = Inr dbs \<Longrightarrow> db_blocks dbs \<in> V" and "still N V m s"
  shows "still_result N V m (cmd_start_node N su s)"
proof (cases "su_opened su")
  case (Inl e)
  then show ?thesis
    using assms(3) by (simp add: cmd_start_node_def still_result_def)
next
  case (Inr dbs)
  from resting_steps(1) [OF assms(1) fresh_node_resting [OF assms(2) [OF this]], of "su_now2 su" "su_write su" "su_now su"]
    Inr assms(3) show ?thesis
    by (simp add: cmd_start_node_def still_result_def still_def) (simp add: node_initialize_def runtime_new_def node_new_def Let_def)
qed

lemma production_step_still:
  assumes "node_env_ok N" and "secp_ok (ne_secp N)" and "test_key_unfunded N B"
    and "\<And>dbs. su_opened su = Inr dbs \<Longrightarrow> db_blocks dbs \<in> V" and "still N V m s"
  shows "still N V m (production_step N H B su s)"
proof -
  have s: "still N V m (snd (ask s))"
    using assms(5) by simp
  have "still_result N V m rs" if "production_command N H B su choice (snd (ask s)) = Some rs" for rs choice
    using that assms(5) cmd_start_node_still [OF assms(1,4) s] cmd_send_transaction_still [OF assms(1-3) s, of H su]
      reading_commands_still [OF s] mining_commands_still [OF assms(1) s] cmd_prune_storage_still [OF assms(1) s, of su]
    by (auto simp: production_command_def still_result_def [of _ _ _ "(_, _)"] s split: if_splits)
  then show ?thesis
    using assms(5) conclude_still [of N V m]
    by (auto simp: production_step_def case_prod_unfold Let_def split: option.split)
qed

section \<open>Properties\<close>

text \<open>
  C40. The production command line does nothing. Suppose that the test key which the program signs with is
  not the key of the genesis wallet. Then whatever is typed, and whatever block stores are opened, no
  transaction is ever sent, because all are signed with that key and the pool refuses an
  account without coins, of which the genesis wallet is the only one; and no block is ever
  mined, also after mining was started, because nothing runs the loop of the node: the DAG holds
  the blocks of a store that was opened, or the genesis block at most. The node mines only if the
  session says so. In a session whose stores were all empty the invariants of the node hold too,
  those of the DAG and its index included.
\<close>

theorem production_session_is_idle:
  assumes "node_env_ok N" and "secp_ok (ne_secp N)" and "test_key_unfunded N B"
    and "s = fold (production_step N H B) sus (production_new now input)"
  shows "(\<forall>n. TransactionSent n \<notin> set (pc_shown s)) \<and> cm_blocks_mined (pc_metrics s) = 0
    \<and> (\<forall>nr. pc_node s = Some nr \<longrightarrow> mp_transactions (nr_mempool nr) = [] \<and> ledger_frozen N nr
          \<and> ((\<exists>su \<in> set sus. \<exists>dbs. su_opened su = Inr dbs \<and> dag_store (nr_blockdag nr) = db_blocks dbs)
             \<or> length (dag_store (nr_blockdag nr)) \<le> 1)
          \<and> (mining_enabled nr \<longrightarrow> mining_active s)
          \<and> ((\<forall>su \<in> set sus. \<forall>dbs. su_opened su = Inr dbs \<longrightarrow> db_blocks dbs = []) \<longrightarrow> node_inv N nr))"
proof -
  let ?V = "{db_blocks dbs | su dbs. su \<in> set sus \<and> su_opened su = Inr dbs}"
  have "still N V (cli_metrics_new now) (fold (production_step N H B) sus s0)"
    if "still N V (cli_metrics_new now) s0" "\<forall>su \<in> set sus. \<forall>dbs. su_opened su = Inr dbs \<longrightarrow> db_blocks dbs \<in> V"
    for sus V and s0 :: "('d, 'e, 'f, 'g) production"
    using that by (induction sus arbitrary: s0) (auto intro: production_step_still [OF assms(1-3)])
  from this [of ?V "production_new now input" sus] assms(4) have st: "still N ?V (cli_metrics_new now) s"
    by (auto simp: still_def production_new_def)
  have "node_inv N nr"
    if "pc_node s = Some nr" "\<forall>su \<in> set sus. \<forall>dbs. su_opened su = Inr dbs \<longrightarrow> db_blocks dbs = []" for nr
  proof -
    have "?V \<subseteq> {[]}"
      using that(2) by auto
    then show ?thesis
      using st that(1) by (simp add: still_def resting_def)
  qed
  moreover have "dag_store (nr_blockdag nr) \<in> ?V \<or> length (dag_store (nr_blockdag nr)) \<le> 1" if "pc_node s = Some nr" for nr
    using st that by (simp add: still_def resting_def idle_node_def)
  then have "(\<exists>su \<in> set sus. \<exists>dbs. su_opened su = Inr dbs \<and> dag_store (nr_blockdag nr) = db_blocks dbs)
      \<or> length (dag_store (nr_blockdag nr)) \<le> 1" if "pc_node s = Some nr" for nr
    using that by fastforce
  ultimately show ?thesis
    using st by (simp add: still_def resting_def calm_def idle_node_def cli_metrics_new_def)
qed

text \<open>Starting a node, starting to mine, sending a transaction: the sample key has no coins.\<close>

definition sample_surroundings ::
  "((bytes \<times> bytes option) list, (bytes \<times> bytes option) list, (pcf \<times> bytes \<times> bytes) list, kv_op list) surroundings" where
  "sample_surroundings =
     \<lparr>su_now = 1000, su_now2 = 1000, su_opened = ou_opened sample_outside, su_write = None\<rparr>"

theorem production_session_is_idle_witness:
  "let s = fold (production_step (me_node sample_menu_env) real_hex (me_keys sample_menu_env)) (replicate 3 sample_surroundings)
       (production_new 0 [''1'', ''9'', ''2'', ''00'']);
       nr = the (pc_node s)
   in pc_shown s = [NodeReady, MiningStarted] \<and> pc_ended s = Some (Some InvalidFromAddress) \<and> mining_enabled nr
     \<and> node_inv (me_node sample_menu_env) nr \<and> mp_transactions (nr_mempool nr) = []"
proof -
  let ?N = "me_node sample_menu_env" and ?B = "me_keys sample_menu_env"
  let ?s = "fold (production_step ?N real_hex ?B) (replicate 3 sample_surroundings) (production_new 0 [''1'', ''9'', ''2'', ''00''])"
  have N: "node_env_ok ?N" "secp_ok (ne_secp ?N)"
    by (simp_all add: node_env_ok_def sample_menu_env_def sample_node_env_def sha_len_def head_sha_def tx_iterates_id
        enumerates_def sample_secp_ok)
  have "replicate 8 (1 :: u8) @ replicate 12 0 \<noteq> GENESIS_WALLET"
    unfolding GENESIS_WALLET_def by (rule notI, drule arg_cong [of _ _ last]) simp
  then have B: "test_key_unfunded ?N ?B"
    by (simp add: test_key_unfunded_def sample_menu_env_def address_of_def head_sha_def)
  have "hex_address real_hex ''00'' = None"
    by (simp add: hex_address_def real_hex_def)
  then have s: "pc_shown ?s = [NodeReady, MiningStarted]" "pc_ended ?s = Some (Some InvalidFromAddress)"
    "pc_node ?s = Some (start_mining (node_initialize ?N 1000 None (runtime_new ?N 1000 (projr (ou_opened sample_outside)))))"
    by (simp_all add: numeral_eq_Suc production_new_def production_step_def ask_def read_line_def trim_def is_space_def
        production_command_def cmd_start_node_def sample_surroundings_def sample_outside_def conclude_def
        cmd_start_mining_def cmd_send_transaction_def with_node_def)
  have e: "\<forall>su \<in> set (replicate 3 sample_surroundings). \<forall>dbs. su_opened su = Inr dbs \<longrightarrow> db_blocks dbs = []"
    by (simp add: sample_surroundings_def sample_outside_def)
  have "node_inv ?N (the (pc_node ?s)) \<and> mp_transactions (nr_mempool (the (pc_node ?s))) = []"
    using production_session_is_idle [OF N B refl, THEN conjunct2, THEN conjunct2, rule_format, OF s(3)] e
    unfolding s(3) option.sel by blast
  then show ?thesis
    unfolding Let_def s option.sel by (simp add: start_mining_def)
qed

end
