(* ===== verification/Wasm_Runtime.thy ===== *)
theory Wasm_Runtime
  imports Contracts
begin

text \<open>
  The runtime for contract code: \<^verbatim>\<open>src/src/vm/wasm_runtime.rs\<close>, and the two places of
  \<^verbatim>\<open>src/src/vm/contract_executor.rs\<close> that use it, which give the record \<open>wasm\<close> of \<open>Contracts\<close> a
  definition.

  The engine Wasmtime is the record \<open>engine\<close>: compiling, instantiating under a limit on the growth of
  memory, finding and calling exported functions. A store has fuel and the data of the host. What
  Wasmtime documents is \<open>engine_ok\<close>: with fuel consumption switched on, a function of the module
  traps at once in a store without fuel; a store is created without fuel, and only the host adds
  some; a memory is created only when the limiter allows its size, which it is told in bytes, and
  instantiation fails otherwise.
\<close>

section \<open>External code\<close>

record 'db wasm_store =
  ws_fuel :: u64
  ws_data :: "'db runtime_state"

record ('db, 'm, 'i, 'fn, 'v) engine =
  en_compile :: "bytes \<Rightarrow> 'm option"
  en_memories :: "'m \<Rightarrow> nat list"
  en_instantiate :: "(nat \<Rightarrow> bool) \<Rightarrow> 'm \<Rightarrow> 'db wasm_store \<Rightarrow> 'db + 'i \<times> 'db wasm_store"
  en_func :: "'i \<Rightarrow> bytes \<Rightarrow> 'fn option"
  en_in_module :: "'fn \<Rightarrow> bool"
  en_results :: "'fn \<Rightarrow> nat"
  en_call :: "'fn \<Rightarrow> 'v list \<Rightarrow> 'v list \<Rightarrow> 'db wasm_store \<Rightarrow> ('v list) option \<times> 'db wasm_store"
  en_i32_zero :: 'v

definition PAGE :: nat where
  "PAGE = 65536"

definition engine_ok :: "('db, 'm, 'i, 'fn, 'v) engine \<Rightarrow> bool" where
  "engine_ok E \<longleftrightarrow>
     (\<forall>fn args res s. en_in_module E fn \<and> ws_fuel s = 0 \<longrightarrow> en_call E fn args res s = (None, s))
     \<and> (\<forall>limit m s i s'. en_instantiate E limit m s = Inr (i, s') \<longrightarrow> ws_fuel s' \<le> ws_fuel s)
     \<and> (\<forall>limit m s. (\<exists>pages \<in> set (en_memories E m). \<not> limit (PAGE * pages))
          \<longrightarrow> en_instantiate E limit m s = Inl (rt_storage (ws_data s)))"

section \<open>The runtime\<close>

text \<open>The limiter, made with 16 as the number of pages.\<close>

definition memory_growing :: "u32 \<Rightarrow> nat \<Rightarrow> bool" where
  "memory_growing max_pages desired \<longleftrightarrow> desired \<le> unat max_pages"

definition instantiate_contract ::
  "('db, 'm, 'i, 'fn, 'v) engine \<Rightarrow> bytes \<Rightarrow> 'db runtime_state \<Rightarrow> u64 \<Rightarrow> 'db + 'i \<times> 'db wasm_store" where
  "instantiate_contract E bytecode state limit =
     (let state = state\<lparr>rt_gas := gas_meter_new limit\<rparr> in
      case en_compile E bytecode of
        None \<Rightarrow> Inl (rt_storage state)
      | Some m \<Rightarrow> en_instantiate E (memory_growing 16) m \<lparr>ws_fuel = 0, ws_data = state\<rparr>)"

text \<open>\<open>None\<close> is an error, a missing function or one that the call reports.\<close>

definition call_function ::
  "('db, 'm, 'i, 'fn, 'v) engine \<Rightarrow> 'i \<Rightarrow> bytes \<Rightarrow> 'v list \<Rightarrow> 'db wasm_store \<Rightarrow> ('v list) option \<times> 'db wasm_store" where
  "call_function E inst func_name args store =
     (case en_func E inst func_name of
        None \<Rightarrow> (None, store)
      | Some func \<Rightarrow> en_call E func args (replicate (en_results E func) (en_i32_zero E)) store)"

text \<open>Deployment instantiates and calls \<open>init\<close> if the contract has it, with room for no results.\<close>

definition init_name :: bytes where
  "init_name = map (of_nat \<circ> of_char) ''init''"

definition deploy_code ::
  "('db, 'm, 'i, 'fn, 'v) engine \<Rightarrow> bytes \<Rightarrow> 'db runtime_state \<Rightarrow> 'db + bool \<times> 'db runtime_state" where
  "deploy_code E wasm_code state =
     (case instantiate_contract E wasm_code state (gas_cap (rt_gas state)) of
        Inl d \<Rightarrow> Inl d
      | Inr (inst, store) \<Rightarrow>
          (case en_func E inst init_name of
             None \<Rightarrow> Inr (True, ws_data store)
           | Some init_func \<Rightarrow>
               (case en_call E init_func [] [] store of
                  (r, store') \<Rightarrow> Inr (r \<noteq> None, ws_data store'))))"

definition call_code ::
  "('db, 'm, 'i, 'fn, 'v) engine \<Rightarrow> bytes \<Rightarrow> bytes \<Rightarrow> 'db runtime_state \<Rightarrow> 'db + bool \<times> 'db runtime_state" where
  "call_code E bytecode meth state =
     (case instantiate_contract E bytecode state (gas_cap (rt_gas state)) of
        Inl d \<Rightarrow> Inl d
      | Inr (inst, store) \<Rightarrow>
          (case call_function E inst meth [] store of (r, store') \<Rightarrow> Inr (r \<noteq> None, ws_data store')))"

definition wasm_runtime :: "('db, 'm, 'i, 'fn, 'v) engine \<Rightarrow> 'db wasm" where
  "wasm_runtime E = \<lparr>wasm_deploy = deploy_code E, wasm_call = call_code E\<rparr>"

section \<open>Lemmas\<close>

lemma engine_okD:
  assumes "engine_ok E"
  shows "en_in_module E fn \<Longrightarrow> ws_fuel s = 0 \<Longrightarrow> en_call E fn args res s = (None, s)"
    and "en_instantiate E limit m s = Inr (i, s') \<Longrightarrow> ws_fuel s' \<le> ws_fuel s"
    and "pages \<in> set (en_memories E m) \<Longrightarrow> \<not> limit (PAGE * pages)
      \<Longrightarrow> en_instantiate E limit m s = Inl (rt_storage (ws_data s))"
  using assms unfolding engine_ok_def by blast+

lemma instantiated_without_fuel:
  assumes "engine_ok E" and "instantiate_contract E code state limit = Inr (i, store)"
  shows "ws_fuel store = 0"
proof -
  obtain m where "en_instantiate E (memory_growing 16) m
      \<lparr>ws_fuel = 0, ws_data = state\<lparr>rt_gas := gas_meter_new limit\<rparr>\<rparr> = Inr (i, store)"
    using assms(2) by (auto simp: instantiate_contract_def Let_def split: option.splits)
  from engine_okD(2) [OF assms(1) this] show ?thesis
    by simp
qed

lemma memory_refused:
  assumes "engine_ok E" and "en_compile E code = Some m" and "pages \<in> set (en_memories E m)" and "0 < pages"
  shows "instantiate_contract E code state limit = Inl (rt_storage state)"
proof -
  have "\<not> memory_growing 16 (PAGE * pages)"
    using assms(4) by (simp add: memory_growing_def PAGE_def)
  from engine_okD(3) [OF assms(1,3), of "memory_growing 16", OF this] show ?thesis
    by (simp add: instantiate_contract_def Let_def assms(2))
qed

text \<open>
  What the code of one contract exports under a name: whatever instance the engine makes of it, a
  function of that name is one of the module (not an import that is exported again), and the
  instance has a function of that name.
\<close>

definition exports_own :: "('db, 'm, 'i, 'fn, 'v) engine \<Rightarrow> bytes \<Rightarrow> bytes \<Rightarrow> bool" where
  "exports_own E code name \<longleftrightarrow>
     (\<forall>m limit s i s' f. en_compile E code = Some m \<and> en_instantiate E limit m s = Inr (i, s') \<and> en_func E i name = Some f
        \<longrightarrow> en_in_module E f)"

definition exports :: "('db, 'm, 'i, 'fn, 'v) engine \<Rightarrow> bytes \<Rightarrow> bytes \<Rightarrow> bool" where
  "exports E code name \<longleftrightarrow>
     (\<forall>m limit s i s'. en_compile E code = Some m \<and> en_instantiate E limit m s = Inr (i, s') \<longrightarrow> en_func E i name \<noteq> None)"

lemma own_function_traps:
  assumes "engine_ok E" and "instantiate_contract E code state limit = Inr (i, store)" and "exports_own E code name"
    and "en_func E i name = Some f"
  shows "en_call E f args res store = (None, store)"
proof -
  have "en_in_module E f"
    using assms(2-4) by (auto simp: instantiate_contract_def exports_own_def Let_def split: option.splits)
  from engine_okD(1) [OF assms(1) this instantiated_without_fuel [OF assms(1,2)]] show ?thesis .
qed

lemma instance_exports:
  assumes "instantiate_contract E code state limit = Inr (i, store)" and "exports E code name"
  obtains f where "en_func E i name = Some f"
  using assms by (auto simp: instantiate_contract_def exports_def Let_def split: option.splits)

lemma call_code_fails:
  assumes "engine_ok E" and "exports_own E code meth" and "call_code E code meth st = Inr (ok, st')"
  shows "\<not> ok"
  using assms(3) own_function_traps [OF assms(1) _ assms(2)]
  by (fastforce simp: call_code_def call_function_def split: sum.splits option.splits)

lemma deploy_code_fails:
  assumes "engine_ok E" and "exports_own E code init_name" and "exports E code init_name"
    and "deploy_code E code st = Inr (ok, st')"
  shows "\<not> ok"
proof -
  from assms(4) obtain i store where i: "instantiate_contract E code st (gas_cap (rt_gas st)) = Inr (i, store)"
    by (cases "instantiate_contract E code st (gas_cap (rt_gas st))") (auto simp: deploy_code_def)
  from instance_exports [OF i assms(3)] obtain f where f: "en_func E i init_name = Some f" .
  with assms(4) own_function_traps [OF assms(1) i assms(2) f] i show ?thesis
    by (simp add: deploy_code_def)
qed

section \<open>Properties\<close>

text \<open>
  C15. No contract runs. The engine consumes fuel and the store is never given any. So a call of a contract
  fails, whenever the code that the registry has for it does not export an import of the host
  under the name of the method, and a contract whose code exports an \<open>init\<close> of its own cannot be
  deployed, and the registry stays as it was. A contract with a memory, which the host functions
  need to exchange data, cannot even be instantiated: the limit of 16 pages is compared with
  the size in bytes, so a single page is refused, and nothing changes at all.
\<close>

theorem contracts_never_run:
  assumes "engine_ok E"
  shows "(payload tx = ContractCall contract meth args
        \<and> (\<forall>info. get_contract K C (ce_registry ce) contract = Some info \<longrightarrow> exports_own E (ci_bytecode info) meth)
      \<longrightarrow> (\<exists>e. fst (execute_transaction sha iter K C (wasm_runtime E) tx ce) = Inl e))
    \<and> (payload tx = ContractDeploy code args \<and> exports E code init_name \<and> exports_own E code init_name
      \<longrightarrow> (\<exists>e. fst (execute_transaction sha iter K C (wasm_runtime E) tx ce) = Inl e)
        \<and> ce_registry (snd (execute_transaction sha iter K C (wasm_runtime E) tx ce)) = ce_registry ce)
    \<and> (payload tx = ContractDeploy code args
        \<and> (\<exists>m pages. en_compile E code = Some m \<and> pages \<in> set (en_memories E m) \<and> 0 < pages)
      \<longrightarrow> execute_transaction sha iter K C (wasm_runtime E) tx ce = (Inl InstantiateError, ce))"
proof (intro conjI impI; elim conjE)
  assume p: "payload tx = ContractCall contract meth args"
    and own: "\<forall>info. get_contract K C (ce_registry ce) contract = Some info \<longrightarrow> exports_own E (ci_bytecode info) meth"
  show "\<exists>e. fst (execute_transaction sha iter K C (wasm_runtime E) tx ce) = Inl e"
    using own call_code_fails [OF assms]
    by (fastforce simp: p execute_transaction_def call_contract_def wasm_runtime_def Let_def split: option.split sum.split)
next
  assume p: "payload tx = ContractDeploy code args" and own: "exports E code init_name" "exports_own E code init_name"
  note no = deploy_code_fails [OF assms own(2,1)]
  show "\<exists>e. fst (execute_transaction sha iter K C (wasm_runtime E) tx ce) = Inl e"
    by (fastforce simp: p execute_transaction_def deploy_contract_def wasm_runtime_def Let_def dest: no split: sum.split)
  show "ce_registry (snd (execute_transaction sha iter K C (wasm_runtime E) tx ce)) = ce_registry ce"
    by (fastforce simp: p execute_transaction_def deploy_contract_def wasm_runtime_def Let_def dest: no split: sum.split)
next
  assume p: "payload tx = ContractDeploy code args"
    and "\<exists>m pages. en_compile E code = Some m \<and> pages \<in> set (en_memories E m) \<and> 0 < pages"
  then obtain m pages where "en_compile E code = Some m" "pages \<in> set (en_memories E m)" "0 < pages"
    by blast
  from memory_refused [OF assms this] show "execute_transaction sha iter K C (wasm_runtime E) tx ce = (Inl InstantiateError, ce)"
    by (cases ce) (simp add: p execute_transaction_def deploy_contract_def wasm_runtime_def deploy_code_def runtime_for_def Let_def)
qed

text \<open>
  An engine whose instances depend on the code, a list of flags: with 1 it exports the method \<open>[1]\<close>,
  with 2 the function \<open>init\<close>, with 3 the method \<open>[3]\<close>, which is an import, and with 4 it has a memory of
  one page. The contract that is called is in the registry, with the code \<open>[1]\<close>.
\<close>

definition tiny_engine :: "((bytes \<times> bytes option) list, bytes, bytes, bytes, unit) engine" where
  "tiny_engine =
     \<lparr>en_compile = (\<lambda>code. if code = [] then None else Some code), en_memories = (\<lambda>m. if 4 \<in> set m then [1] else []),
      en_instantiate = (\<lambda>limit m s. if 4 \<in> set m \<and> \<not> limit PAGE then Inl (rt_storage (ws_data s)) else Inr (m, s)),
      en_func = (\<lambda>i name. if (name = [1] \<and> 1 \<in> set i) \<or> (name = init_name \<and> 2 \<in> set i) \<or> (name = [3] \<and> 3 \<in> set i)
        then Some name else None),
      en_in_module = (\<lambda>f. f \<noteq> [3]), en_results = (\<lambda>_. 0),
      en_call = (\<lambda>f _ _ s. if f \<noteq> [3] \<and> ws_fuel s = 0 then (None, s) else (Some [], s)), en_i32_zero = ()\<rparr>"

definition tiny_executor :: "((bytes \<times> bytes option) list, (bytes \<times> bytes option) list) contract_executor" where
  "tiny_executor = sample_executor\<lparr>ce_registry := [(make_registry_key (replicate 20 7), Some [5])]\<rparr>"

theorem contracts_never_run_witness:
  "(\<exists>info. get_contract log_cdb sample_info_codec (ce_registry tiny_executor) (replicate 20 7) = Some info
       \<and> exports tiny_engine (ci_bytecode info) [1])
   \<and> \<not> exports tiny_engine [1] init_name \<and> \<not> exports_own tiny_engine [3] [3]
   \<and> (\<exists>e. fst (execute_transaction sample_sha id log_cdb sample_info_codec (wasm_runtime tiny_engine)
       (new_call GENESIS_WALLET (replicate 20 7) [1] [] 0 100 1) tiny_executor) = Inl e)
   \<and> (\<exists>e. fst (execute_transaction sample_sha id log_cdb sample_info_codec (wasm_runtime tiny_engine)
       (new_deploy GENESIS_WALLET [2] [] 0 100 1) tiny_executor) = Inl e)
   \<and> execute_transaction sample_sha id log_cdb sample_info_codec (wasm_runtime tiny_engine)
       (new_deploy GENESIS_WALLET [4] [] 0 100 1) tiny_executor = (Inl InstantiateError, tiny_executor)"
proof -
  have ok: "engine_ok tiny_engine"
    by (simp add: engine_ok_def tiny_engine_def)
  have info: "get_contract log_cdb sample_info_codec (ce_registry tiny_executor) (replicate 20 7) =
      Some \<lparr>ci_address = replicate 20 7, ci_bytecode = [1], ci_metadata = []\<rparr>"
    by (simp add: get_contract_def tiny_executor_def log_cdb_def log_cdb_view_def sample_info_codec_def omap_insert.simps)
  have x: "exports tiny_engine [1] [1]" "exports_own tiny_engine [1] [1]" "exports tiny_engine [2] init_name"
    "exports_own tiny_engine [2] init_name" "\<not> exports tiny_engine [1] init_name" "\<not> exports_own tiny_engine [3] [3]"
    by (auto simp: exports_def exports_own_def tiny_engine_def init_name_def split: if_splits)
  have m: "\<exists>m pages. en_compile tiny_engine [4] = Some m \<and> pages \<in> set (en_memories tiny_engine m) \<and> 0 < pages"
    by (simp add: tiny_engine_def)
  note t = contracts_never_run [OF ok, where sha = sample_sha and iter = id and K = log_cdb and C = sample_info_codec
      and ce = tiny_executor]
  show ?thesis
    using t [where tx = "new_call GENESIS_WALLET (replicate 20 7) [1] [] 0 100 1" and contract = "replicate 20 7" and meth = "[1]"
        and args = "[]"]
      t [where tx = "new_deploy GENESIS_WALLET [2] [] 0 100 1" and args = "[]" and code = "[2]"]
      t [where tx = "new_deploy GENESIS_WALLET [4] [] 0 100 1" and args = "[]" and code = "[4]"] m
    by (simp add: new_call_def new_deploy_def info x)
qed

end
