(* ===== verification/Events.thy ===== *)
theory Events
  imports Block
begin

text \<open>
  Events: \<^verbatim>\<open>event_types.rs\<close>, \<^verbatim>\<open>event_bus.rs\<close> and \<^verbatim>\<open>event_listener.rs\<close> under \<^verbatim>\<open>src/src/events/\<close>.

  The broadcast channel of tokio is the record \<open>broadcast\<close>. Its documented behaviour is \<open>broadcast_ok\<close>,
  relative to a view of a channel: what was sent to it while it had receivers, and for every live
  receiver how many of these it has passed. A receiver that is at most the capacity behind gets
  the next message; one that is further behind may be told that it lagged. The sender of a
  channel lives as long as the bus, so a channel is never closed. The task that a subscription
  spawns is the record \<open>listener\<close>, and one turn of its loop is \<open>poll\<close>.
\<close>

section \<open>Event types\<close>

datatype transaction_status = Pending | Confirmed | Failed

datatype node_status = StatusStarting | StatusRunning | StatusSyncing | StatusError | StatusShuttingDown

datatype event_type =
    NewBlockEvent block u64
  | NewTransactionEvent transaction transaction_status
  | ContractEvent address string bytes block_hash string
  | PeerConnected string string
  | PeerDisconnected string "string option"
  | NodeStatusChanged node_status

record event =
  ev_id :: string
  ev_type :: event_type
  ev_timestamp :: u64
  ev_source :: string

text \<open>The clock and the identifier that is drawn are arguments; \<open>show\<close> prints a number.\<close>

definition event_new :: "(u64 \<Rightarrow> string) \<Rightarrow> u64 \<Rightarrow> string \<Rightarrow> event_type \<Rightarrow> string \<Rightarrow> event" where
  "event_new show now uuid ty source_node =
     \<lparr>ev_id = show now @ ''_'' @ uuid, ev_type = ty, ev_timestamp = now, ev_source = source_node\<rparr>"

text \<open>The constructors for each type; \<open>mk\<close> is \<open>event_new\<close> at the clock and identifier they meet.\<close>

definition new_block_event :: "(event_type \<Rightarrow> string \<Rightarrow> event) \<Rightarrow> block \<Rightarrow> u64 \<Rightarrow> string \<Rightarrow> event" where
  "new_block_event mk b block_height source_node = mk (NewBlockEvent b block_height) source_node"

definition new_transaction_event ::
  "(event_type \<Rightarrow> string \<Rightarrow> event) \<Rightarrow> transaction \<Rightarrow> transaction_status \<Rightarrow> string \<Rightarrow> event" where
  "new_transaction_event mk tx status source_node = mk (NewTransactionEvent tx status) source_node"

definition contract_event ::
  "(event_type \<Rightarrow> string \<Rightarrow> event) \<Rightarrow> address \<Rightarrow> string \<Rightarrow> bytes \<Rightarrow> block_hash \<Rightarrow> string \<Rightarrow> string \<Rightarrow> event" where
  "contract_event mk contract event_name event_data bh txh source_node =
     mk (ContractEvent contract event_name event_data bh txh) source_node"

definition peer_connected :: "(event_type \<Rightarrow> string \<Rightarrow> event) \<Rightarrow> string \<Rightarrow> string \<Rightarrow> string \<Rightarrow> event" where
  "peer_connected mk pid addr source_node = mk (PeerConnected pid addr) source_node"

definition peer_disconnected :: "(event_type \<Rightarrow> string \<Rightarrow> event) \<Rightarrow> string \<Rightarrow> string option \<Rightarrow> string \<Rightarrow> event" where
  "peer_disconnected mk pid reason source_node = mk (PeerDisconnected pid reason) source_node"

definition node_status_changed :: "(event_type \<Rightarrow> string \<Rightarrow> event) \<Rightarrow> node_status \<Rightarrow> string \<Rightarrow> event" where
  "node_status_changed mk status source_node = mk (NodeStatusChanged status) source_node"

definition channel_name :: "event_type \<Rightarrow> string" where
  "channel_name ty =
     (case ty of
        NewBlockEvent _ _ \<Rightarrow> ''new_block''
      | NewTransactionEvent _ _ \<Rightarrow> ''new_transaction''
      | ContractEvent _ _ _ _ _ \<Rightarrow> ''contract_event''
      | PeerConnected _ _ \<Rightarrow> ''peer_connected''
      | PeerDisconnected _ _ \<Rightarrow> ''peer_disconnected''
      | NodeStatusChanged _ \<Rightarrow> ''node_status'')"

section \<open>External code\<close>

datatype received = Got event | Waiting | Lagged

record ('ch, 'rx) broadcast =
  bc_channel :: "nat \<Rightarrow> 'ch"
  bc_send :: "event \<Rightarrow> 'ch \<Rightarrow> bool \<times> 'ch"
  bc_subscribe :: "'ch \<Rightarrow> 'rx \<times> 'ch"
  bc_recv :: "'rx \<Rightarrow> 'ch \<Rightarrow> received \<times> 'ch"
  bc_drop :: "'rx \<Rightarrow> 'ch \<Rightarrow> 'ch"
  bc_receivers :: "'ch \<Rightarrow> nat"

record 'rx channel_view =
  cv_capacity :: nat
  cv_sent :: "event list"
  cv_passed :: "'rx \<rightharpoonup> nat"

definition broadcast_ok :: "('ch, 'rx) broadcast \<Rightarrow> ('ch \<Rightarrow> 'rx channel_view) \<Rightarrow> bool" where
  "broadcast_ok B view \<longleftrightarrow>
     (\<forall>n. 0 < n \<longrightarrow> n \<le> cv_capacity (view (bc_channel B n)) \<and> cv_sent (view (bc_channel B n)) = []
        \<and> cv_passed (view (bc_channel B n)) = Map.empty)
     \<and> (\<forall>e ch. fst (bc_send B e ch) = (cv_passed (view ch) \<noteq> Map.empty)
        \<and> view (snd (bc_send B e ch)) =
            (if cv_passed (view ch) \<noteq> Map.empty then (view ch)\<lparr>cv_sent := cv_sent (view ch) @ [e]\<rparr> else view ch))
     \<and> (\<forall>ch. cv_passed (view ch) (fst (bc_subscribe B ch)) = None
        \<and> view (snd (bc_subscribe B ch)) =
            (view ch)\<lparr>cv_passed := (cv_passed (view ch))(fst (bc_subscribe B ch) \<mapsto> length (cv_sent (view ch)))\<rparr>)
     \<and> (\<forall>rx ch n. cv_passed (view ch) rx = Some n \<longrightarrow>
          (n = length (cv_sent (view ch)) \<longrightarrow> fst (bc_recv B rx ch) = Waiting \<and> view (snd (bc_recv B rx ch)) = view ch)
          \<and> (n < length (cv_sent (view ch)) \<and> length (cv_sent (view ch)) - n \<le> cv_capacity (view ch) \<longrightarrow>
               fst (bc_recv B rx ch) = Got (cv_sent (view ch) ! n)
               \<and> view (snd (bc_recv B rx ch)) = (view ch)\<lparr>cv_passed := (cv_passed (view ch))(rx \<mapsto> n + 1)\<rparr>))
     \<and> (\<forall>rx ch. view (bc_drop B rx ch) = (view ch)\<lparr>cv_passed := (cv_passed (view ch))(rx := None)\<rparr>)
     \<and> (\<forall>ch. bc_receivers B ch = card (dom (cv_passed (view ch))))"

section \<open>The bus\<close>

record 'ch event_bus =
  eb_channels :: "(string \<times> 'ch) list"
  eb_capacity :: nat

definition event_bus_new :: "'ch event_bus" where
  "event_bus_new = \<lparr>eb_channels = [], eb_capacity = 1000\<rparr>"

definition with_capacity :: "nat \<Rightarrow> 'ch event_bus" where
  "with_capacity capacity = \<lparr>eb_channels = [], eb_capacity = capacity\<rparr>"

text \<open>The handle that is returned shares the channel in the map.\<close>

definition set_channel :: "string \<Rightarrow> 'ch \<Rightarrow> 'ch event_bus \<Rightarrow> 'ch event_bus" where
  "set_channel ty ch bus = bus\<lparr>eb_channels := AList.update ty ch (eb_channels bus)\<rparr>"

definition get_or_create_channel ::
  "('ch, 'rx) broadcast \<Rightarrow> string \<Rightarrow> 'ch event_bus \<Rightarrow> 'ch \<times> 'ch event_bus" where
  "get_or_create_channel B ty bus =
     (case map_of (eb_channels bus) ty of
        Some ch \<Rightarrow> (ch, bus)
      | None \<Rightarrow> (let ch = bc_channel B (eb_capacity bus) in (ch, set_channel ty ch bus)))"

text \<open>Whether anyone received the event is only logged.\<close>

definition publish :: "('ch, 'rx) broadcast \<Rightarrow> event \<Rightarrow> 'ch event_bus \<Rightarrow> 'ch event_bus" where
  "publish B e bus =
     (let ty = channel_name (ev_type e); (ch, bus) = get_or_create_channel B ty bus
      in set_channel ty (snd (bc_send B e ch)) bus)"

definition subscribe :: "('ch, 'rx) broadcast \<Rightarrow> string \<Rightarrow> 'ch event_bus \<Rightarrow> 'rx \<times> 'ch event_bus" where
  "subscribe B ty bus =
     (let (ch, bus) = get_or_create_channel B ty bus; (rx, ch) = bc_subscribe B ch in (rx, set_channel ty ch bus))"

definition subscriber_count :: "('ch, 'rx) broadcast \<Rightarrow> string \<Rightarrow> 'ch event_bus \<Rightarrow> nat" where
  "subscriber_count B ty bus = (case map_of (eb_channels bus) ty of None \<Rightarrow> 0 | Some ch \<Rightarrow> bc_receivers B ch)"

definition active_event_types :: "((string \<times> 'ch) list \<Rightarrow> (string \<times> 'ch) list) \<Rightarrow> 'ch event_bus \<Rightarrow> string list" where
  "active_event_types iter bus = map fst (iter (eb_channels bus))"

text \<open>
  \<open>subscribe_all\<close> spawns a task that forwards events to a channel of its own. In every round it
  subscribes anew to the channels that exist then, waits for one event of any of them and forwards
  it; \<open>select_all\<close> panics on an empty list. \<open>pick\<close> is the receiver that is ready first, if any.
\<close>

datatype 'rx forwarder = Collecting | Selecting "(string \<times> 'rx) list" | Gone

fun collect_receivers ::
  "('ch, 'rx) broadcast \<Rightarrow> string list \<Rightarrow> 'ch event_bus \<Rightarrow> (string \<times> 'rx) list \<times> 'ch event_bus" where
  "collect_receivers B [] bus = ([], bus)"
| "collect_receivers B (ty # tys) bus =
     (let (rx, bus) = subscribe B ty bus; (rxs, bus) = collect_receivers B tys bus in ((ty, rx) # rxs, bus))"

definition drop_receiver :: "('ch, 'rx) broadcast \<Rightarrow> string \<times> 'rx \<Rightarrow> 'ch event_bus \<Rightarrow> 'ch event_bus" where
  "drop_receiver B tr bus =
     (case map_of (eb_channels bus) (fst tr) of
        None \<Rightarrow> bus
      | Some ch \<Rightarrow> set_channel (fst tr) (bc_drop B (snd tr) ch) bus)"

definition receive :: "('ch, 'rx) broadcast \<Rightarrow> string \<times> 'rx \<Rightarrow> 'ch event_bus \<Rightarrow> received \<times> 'ch event_bus" where
  "receive B tr bus =
     (case map_of (eb_channels bus) (fst tr) of
        None \<Rightarrow> (Waiting, bus)
      | Some ch \<Rightarrow> (case bc_recv B (snd tr) ch of (r, ch') \<Rightarrow> (r, set_channel (fst tr) ch' bus)))"

definition forward_round ::
  "('ch, 'rx) broadcast \<Rightarrow> ((string \<times> 'ch) list \<Rightarrow> (string \<times> 'ch) list) \<Rightarrow> ((string \<times> 'rx) list \<Rightarrow> (string \<times> 'rx) option)
    \<Rightarrow> 'rx forwarder \<times> 'ch event_bus \<times> 'ch \<Rightarrow> 'rx forwarder \<times> 'ch event_bus \<times> 'ch" where
  "forward_round B iter pick s =
     (case s of (f, bus, all) \<Rightarrow>
        (case f of
           Gone \<Rightarrow> s
         | Collecting \<Rightarrow>
             (let (rxs, bus) = collect_receivers B (active_event_types iter bus) bus
              in (if rxs = [] then Gone else Selecting rxs, bus, all))
         | Selecting rxs \<Rightarrow>
             (case pick rxs of
                None \<Rightarrow> s
              | Some tr \<Rightarrow>
                  (case receive B tr bus of
                     (Waiting, bus) \<Rightarrow> (f, bus, all)
                   | (Got e, bus) \<Rightarrow> (Collecting, fold (drop_receiver B) rxs bus, snd (bc_send B e all))
                   | (Lagged, bus) \<Rightarrow> (Gone, fold (drop_receiver B) rxs bus, all)))))"

definition subscribe_all :: "('ch, 'rx) broadcast \<Rightarrow> 'ch event_bus \<Rightarrow> 'rx \<times> 'rx forwarder \<times> 'ch event_bus \<times> 'ch" where
  "subscribe_all B bus = (let (rx, all) = bc_subscribe B (bc_channel B (eb_capacity bus)) in (rx, Collecting, bus, all))"

section \<open>Listeners\<close>

text \<open>
  A subscription with its task: it calls the callback, here recorded, with one event after the
  other and ends at the first error.
\<close>

record 'rx listener =
  li_type :: string
  li_receiver :: 'rx
  li_running :: bool
  li_handled :: "event list"

definition listen :: "('ch, 'rx) broadcast \<Rightarrow> string \<Rightarrow> 'ch event_bus \<Rightarrow> 'rx listener \<times> 'ch event_bus" where
  "listen B ty bus =
     (let (rx, bus) = subscribe B ty bus
      in (\<lparr>li_type = ty, li_receiver = rx, li_running = True, li_handled = []\<rparr>, bus))"

definition poll ::
  "('ch, 'rx) broadcast \<Rightarrow> 'rx listener \<times> 'ch event_bus \<Rightarrow> 'rx listener \<times> 'ch event_bus" where
  "poll B lb =
     (case lb of (l, bus) \<Rightarrow>
        if \<not> li_running l then (l, bus)
        else case receive B (li_type l, li_receiver l) bus of
          (Got e, bus) \<Rightarrow> (l\<lparr>li_handled := li_handled l @ [e]\<rparr>, bus)
        | (Waiting, bus) \<Rightarrow> (l, bus)
        | (Lagged, bus) \<Rightarrow> (l\<lparr>li_running := False\<rparr>, drop_receiver B (li_type l, li_receiver l) bus))"

definition subscribe_new_blocks :: "('ch, 'rx) broadcast \<Rightarrow> 'ch event_bus \<Rightarrow> 'rx listener \<times> 'ch event_bus" where
  "subscribe_new_blocks B bus = listen B ''new_block'' bus"

definition subscribe_transactions :: "('ch, 'rx) broadcast \<Rightarrow> 'ch event_bus \<Rightarrow> 'rx listener \<times> 'ch event_bus" where
  "subscribe_transactions B bus = listen B ''new_transaction'' bus"

definition subscribe_contract_events :: "('ch, 'rx) broadcast \<Rightarrow> 'ch event_bus \<Rightarrow> 'rx listener \<times> 'ch event_bus" where
  "subscribe_contract_events B bus = listen B ''contract_event'' bus"

text \<open>The listener to peers has two receivers and goes on after an error; \<open>first\<close> is the branch that \<open>select\<close> takes.\<close>

record 'rx peer_listener =
  pl_connected :: 'rx
  pl_disconnected :: 'rx
  pl_handled :: "event list"

definition subscribe_peer_events ::
  "('ch, 'rx) broadcast \<Rightarrow> 'ch event_bus \<Rightarrow> 'rx peer_listener \<times> 'ch event_bus" where
  "subscribe_peer_events B bus =
     (let (rc, bus) = subscribe B ''peer_connected'' bus; (rd, bus) = subscribe B ''peer_disconnected'' bus
      in (\<lparr>pl_connected = rc, pl_disconnected = rd, pl_handled = []\<rparr>, bus))"

definition poll_peers ::
  "('ch, 'rx) broadcast \<Rightarrow> bool \<Rightarrow> 'rx peer_listener \<times> 'ch event_bus \<Rightarrow> 'rx peer_listener \<times> 'ch event_bus" where
  "poll_peers B first lb =
     (case lb of (l, bus) \<Rightarrow>
        (case receive B (if first then (''peer_connected'', pl_connected l) else (''peer_disconnected'', pl_disconnected l)) bus of
           (Got e, bus) \<Rightarrow> (l\<lparr>pl_handled := pl_handled l @ [e]\<rparr>, bus)
         | (_, bus) \<Rightarrow> (l, bus)))"

text \<open>\<open>create_listener_from_handler\<close>: the four subscriptions of a handler.\<close>

definition create_listener_from_handler ::
  "('ch, 'rx) broadcast \<Rightarrow> 'ch event_bus
    \<Rightarrow> ('rx listener \<times> 'rx listener \<times> 'rx listener \<times> 'rx peer_listener) \<times> 'ch event_bus" where
  "create_listener_from_handler B bus =
     (let (l1, bus) = subscribe_new_blocks B bus; (l2, bus) = subscribe_transactions B bus;
          (l3, bus) = subscribe_contract_events B bus; (l4, bus) = subscribe_peer_events B bus
      in ((l1, l2, l3, l4), bus))"

section \<open>A listener that keeps up\<close>

datatype bus_op = Publish event | Poll

fun bus_run ::
  "('ch, 'rx) broadcast \<Rightarrow> bus_op list \<Rightarrow> 'rx listener \<times> 'ch event_bus \<Rightarrow> 'rx listener \<times> 'ch event_bus" where
  "bus_run B [] lb = lb"
| "bus_run B (Publish e # ops) lb = bus_run B ops (fst lb, publish B e (snd lb))"
| "bus_run B (Poll # ops) lb = bus_run B ops (poll B lb)"

definition named :: "string \<Rightarrow> event \<Rightarrow> bool" where
  "named ty e \<longleftrightarrow> channel_name (ev_type e) = ty"

fun published :: "string \<Rightarrow> bus_op list \<Rightarrow> event list" where
  "published ty [] = []"
| "published ty (Publish e # ops) = (if named ty e then e # published ty ops else published ty ops)"
| "published ty (Poll # ops) = published ty ops"

text \<open>The backlog of a listener, starting with \<open>n\<close> events, stays within \<open>c\<close>.\<close>

fun keeps_up :: "nat \<Rightarrow> string \<Rightarrow> nat \<Rightarrow> bus_op list \<Rightarrow> bool" where
  "keeps_up c ty n [] \<longleftrightarrow> n \<le> c"
| "keeps_up c ty n (Publish e # ops) \<longleftrightarrow> n \<le> c \<and> keeps_up c ty (if named ty e then n + 1 else n) ops"
| "keeps_up c ty n (Poll # ops) \<longleftrightarrow> n \<le> c \<and> keeps_up c ty (n - 1) ops"

text \<open>
  A listener in step with its channel: \<open>evs\<close> was published since it subscribed, and it has handled
  the first \<open>k\<close> of it.
\<close>

definition in_step ::
  "('ch \<Rightarrow> 'rx channel_view) \<Rightarrow> string \<Rightarrow> nat \<Rightarrow> event list \<Rightarrow> nat \<Rightarrow> 'rx listener \<times> 'ch event_bus \<Rightarrow> bool" where
  "in_step view ty c evs k lb \<longleftrightarrow>
     (case lb of (l, bus) \<Rightarrow>
        \<exists>ch start. map_of (eb_channels bus) ty = Some ch \<and> c \<le> cv_capacity (view ch)
          \<and> start \<le> length (cv_sent (view ch)) \<and> drop start (cv_sent (view ch)) = evs
          \<and> cv_passed (view ch) (li_receiver l) = Some (start + k) \<and> k \<le> length evs
          \<and> li_type l = ty \<and> li_running l \<and> li_handled l = take k evs)"

lemma map_of_set_channel [simp]:
  "map_of (eb_channels (set_channel ty ch bus)) ty' = (if ty' = ty then Some ch else map_of (eb_channels bus) ty')"
  by (simp add: set_channel_def update_conv)

lemma broadcast_okD:
  assumes "broadcast_ok B view"
  shows "0 < n \<Longrightarrow> n \<le> cv_capacity (view (bc_channel B n))" "0 < n \<Longrightarrow> cv_sent (view (bc_channel B n)) = []"
    "cv_passed (view ch) rx = Some m \<Longrightarrow> view (snd (bc_send B e ch)) = (view ch)\<lparr>cv_sent := cv_sent (view ch) @ [e]\<rparr>"
    "view (snd (bc_subscribe B ch)) =
       (view ch)\<lparr>cv_passed := (cv_passed (view ch))(fst (bc_subscribe B ch) \<mapsto> length (cv_sent (view ch)))\<rparr>"
    "cv_passed (view ch) rx = Some (length (cv_sent (view ch))) \<Longrightarrow>
       fst (bc_recv B rx ch) = Waiting \<and> view (snd (bc_recv B rx ch)) = view ch"
    "cv_passed (view ch) rx = Some m \<Longrightarrow> m < length (cv_sent (view ch)) \<Longrightarrow>
       length (cv_sent (view ch)) - m \<le> cv_capacity (view ch) \<Longrightarrow>
       fst (bc_recv B rx ch) = Got (cv_sent (view ch) ! m)
       \<and> view (snd (bc_recv B rx ch)) = (view ch)\<lparr>cv_passed := (cv_passed (view ch))(rx \<mapsto> m + 1)\<rparr>"
proof -
  note ok = assms [unfolded broadcast_ok_def]
  show "0 < n \<Longrightarrow> n \<le> cv_capacity (view (bc_channel B n))" "0 < n \<Longrightarrow> cv_sent (view (bc_channel B n)) = []"
    using ok [THEN conjunct1] by blast+
  show "cv_passed (view ch) rx = Some m \<Longrightarrow> view (snd (bc_send B e ch)) = (view ch)\<lparr>cv_sent := cv_sent (view ch) @ [e]\<rparr>"
    using ok [THEN conjunct2, THEN conjunct1] by auto
  show "view (snd (bc_subscribe B ch)) =
       (view ch)\<lparr>cv_passed := (cv_passed (view ch))(fst (bc_subscribe B ch) \<mapsto> length (cv_sent (view ch)))\<rparr>"
    using ok [THEN conjunct2, THEN conjunct2, THEN conjunct1] by blast
  show "cv_passed (view ch) rx = Some (length (cv_sent (view ch))) \<Longrightarrow>
       fst (bc_recv B rx ch) = Waiting \<and> view (snd (bc_recv B rx ch)) = view ch"
    using ok [THEN conjunct2, THEN conjunct2, THEN conjunct2, THEN conjunct1] by blast
  show "cv_passed (view ch) rx = Some m \<Longrightarrow> m < length (cv_sent (view ch)) \<Longrightarrow>
       length (cv_sent (view ch)) - m \<le> cv_capacity (view ch) \<Longrightarrow>
       fst (bc_recv B rx ch) = Got (cv_sent (view ch) ! m)
       \<and> view (snd (bc_recv B rx ch)) = (view ch)\<lparr>cv_passed := (cv_passed (view ch))(rx \<mapsto> m + 1)\<rparr>"
    using ok [THEN conjunct2, THEN conjunct2, THEN conjunct2, THEN conjunct1] by blast
qed

lemma publish_in_step:
  assumes "broadcast_ok B view" and "in_step view ty c evs k lb"
  shows "in_step view ty c (if named ty e then evs @ [e] else evs) k (fst lb, publish B e (snd lb))"
proof -
  obtain l bus ch start where lb: "lb = (l, bus)" and ch: "map_of (eb_channels bus) ty = Some ch"
    and s: "c \<le> cv_capacity (view ch)" "start \<le> length (cv_sent (view ch))" "drop start (cv_sent (view ch)) = evs"
      "cv_passed (view ch) (li_receiver l) = Some (start + k)" "k \<le> length evs"
    and l: "li_type l = ty" "li_running l" "li_handled l = take k evs"
    using assms(2) by (auto simp: in_step_def split: prod.splits)
  show ?thesis
  proof (cases "named ty e")
    case True
    then have "map_of (eb_channels (publish B e bus)) ty = Some (snd (bc_send B e ch))"
      by (simp add: publish_def named_def get_or_create_channel_def ch)
    then show ?thesis
      using True s l by (auto simp: in_step_def lb broadcast_okD(3) [OF assms(1) s(4)])
  next
    case False
    then have "map_of (eb_channels (publish B e bus)) ty = Some ch"
      by (auto simp: publish_def named_def get_or_create_channel_def ch Let_def split: option.split)
    then show ?thesis
      using False s l by (auto simp: in_step_def lb)
  qed
qed

lemma poll_in_step:
  assumes "broadcast_ok B view" and "in_step view ty c evs k lb" and "length evs - k \<le> c"
  shows "in_step view ty c evs (min (k + 1) (length evs)) (poll B lb)"
proof -
  obtain l bus ch start where lb: "lb = (l, bus)" and ch: "map_of (eb_channels bus) ty = Some ch"
    and s: "c \<le> cv_capacity (view ch)" "start \<le> length (cv_sent (view ch))" "drop start (cv_sent (view ch)) = evs"
      "cv_passed (view ch) (li_receiver l) = Some (start + k)" "k \<le> length evs"
    and l: "li_type l = ty" "li_running l" "li_handled l = take k evs"
    using assms(2) by (auto simp: in_step_def split: prod.splits)
  have len: "length (cv_sent (view ch)) = start + length evs"
    using s(2,3) by auto
  obtain r ch' where r: "bc_recv B (li_receiver l) ch = (r, ch')"
    by force
  show ?thesis
  proof (cases "k = length evs")
    case True
    with broadcast_okD(5) [OF assms(1), of ch "li_receiver l"] s(4) len r have "r = Waiting" "view ch' = view ch"
      by auto
    moreover from this(1) have "poll B lb = (l, set_channel ty ch' bus)"
      by (simp add: poll_def lb receive_def r l ch)
    ultimately show ?thesis
      using True s l by (auto simp: in_step_def)
  next
    case False
    then have "start + k < length (cv_sent (view ch))" "length (cv_sent (view ch)) - (start + k) \<le> cv_capacity (view ch)"
      using len s(1,5) assms(3) by simp_all
    from broadcast_okD(6) [OF assms(1) s(4) this] r
    have g: "r = Got (evs ! k)" "view ch' = (view ch)\<lparr>cv_passed := (cv_passed (view ch))(li_receiver l \<mapsto> start + (k + 1))\<rparr>"
      using s(2) by (simp_all add: s(3) [symmetric])
    have "poll B lb = (l\<lparr>li_handled := take (k + 1) evs\<rparr>, set_channel ty ch' bus)"
      using False s(5) by (simp add: poll_def lb receive_def r l ch g(1) take_Suc_conv_app_nth)
    moreover have "min (k + 1) (length evs) = k + 1"
      using False s(5) by simp
    ultimately show ?thesis
      using False s l g(2) by (auto simp: in_step_def)
  qed
qed

lemma bus_run_in_step:
  assumes "broadcast_ok B view" and "in_step view ty c evs k lb" and "keeps_up c ty (length evs - k) ops"
  shows "\<exists>k'. in_step view ty c (evs @ published ty ops) k' (bus_run B ops lb)
    \<and> length (evs @ published ty ops) - k' \<le> c"
  using assms(2,3)
proof (induction ops arbitrary: evs k lb)
  case (Cons op ops)
  show ?case
  proof (cases op)
    case (Publish e)
    let ?evs = "if named ty e then evs @ [e] else evs"
    have "k \<le> length evs"
      using Cons.prems(1) by (auto simp: in_step_def split: prod.splits)
    then have "keeps_up c ty (length ?evs - k) ops"
      using Cons.prems(2) Publish by (auto simp: Suc_diff_le split: if_splits)
    from Cons.IH [OF publish_in_step [OF assms(1) Cons.prems(1)] this] show ?thesis
      by (simp add: Publish split: if_splits)
  next
    case Poll
    have k: "length evs - k \<le> c" "keeps_up c ty (length evs - k - 1) ops"
      using Cons.prems(2) Poll by simp_all
    moreover have "length evs - min (k + 1) (length evs) = length evs - k - 1"
      by (simp add: min_def)
    ultimately show ?thesis
      using Cons.IH [OF poll_in_step [OF assms(1) Cons.prems(1) k(1)]] by (simp add: Poll)
  qed
qed auto

lemma bus_run_append: "bus_run B (ops @ ops') lb = bus_run B ops' (bus_run B ops lb)"
  by (induction B ops lb rule: bus_run.induct) simp_all


lemma polls_in_step:
  assumes "broadcast_ok B view" and "in_step view ty c evs k lb" and "length evs - k \<le> c"
  shows "in_step view ty c evs (min (k + n) (length evs)) (bus_run B (replicate n Poll) lb)"
  using assms(2,3)
proof (induction n arbitrary: k lb)
  case 0
  then show ?case
    by (auto simp: in_step_def split: prod.splits)
next
  case (Suc n)
  have "in_step view ty c evs (min (min (k + 1) (length evs) + n) (length evs)) (bus_run B (replicate n Poll) (poll B lb))"
    using Suc.IH [OF poll_in_step [OF assms(1) Suc.prems]] Suc.prems(2) by simp
  moreover have "min (min (k + 1) (length evs) + n) (length evs) = min (k + Suc n) (length evs)"
    by linarith
  ultimately show ?case
    by simp
qed

text \<open>Channels have the capacity of the bus.\<close>

definition bus_ok :: "('ch \<Rightarrow> 'rx channel_view) \<Rightarrow> 'ch event_bus \<Rightarrow> bool" where
  "bus_ok view bus \<longleftrightarrow> 0 < eb_capacity bus
     \<and> (\<forall>ty ch. map_of (eb_channels bus) ty = Some ch \<longrightarrow> eb_capacity bus \<le> cv_capacity (view ch))"

lemma listen_in_step:
  assumes "broadcast_ok B view" and "bus_ok view bus"
  shows "in_step view ty (eb_capacity bus) [] 0 (listen B ty bus)"
proof -
  obtain ch bus' where g: "get_or_create_channel B ty bus = (ch, bus')"
    by force
  have cap: "eb_capacity bus \<le> cv_capacity (view ch)"
    using g assms(2) broadcast_okD(1) [OF assms(1)]
    by (auto simp: get_or_create_channel_def bus_ok_def Let_def split: option.splits)
  obtain rx ch' where s: "bc_subscribe B ch = (rx, ch')"
    by force
  have "view ch' = (view ch)\<lparr>cv_passed := (cv_passed (view ch))(rx \<mapsto> length (cv_sent (view ch)))\<rparr>"
    using broadcast_okD(4) [OF assms(1), of ch] s by simp
  with cap show ?thesis
    by (auto simp: listen_def subscribe_def g s in_step_def)
qed

lemma forwarder_gone: "(forward_round B iter pick ^^ n) (Gone, bus, all) = (Gone, bus, all)"
  by (induction n) (simp_all add: forward_round_def)

lemma keeping_up_delivers:
  assumes "broadcast_ok B view" and "bus_ok view bus" and "keeps_up (eb_capacity bus) ty 0 ops"
    and "length (published ty ops) \<le> n"
  shows "let l = fst (bus_run B ops (listen B ty bus)); l' = fst (bus_run B (ops @ replicate n Poll) (listen B ty bus))
    in li_running l \<and> prefix (li_handled l) (published ty ops) \<and> li_running l' \<and> li_handled l' = published ty ops"
proof -
  have "keeps_up (eb_capacity bus) ty (length ([] :: event list) - 0) ops"
    using assms(3) by simp
  from bus_run_in_step [OF assms(1) listen_in_step [OF assms(1,2)] this] obtain k where
    k: "in_step view ty (eb_capacity bus) (published ty ops) k (bus_run B ops (listen B ty bus))"
      "length (published ty ops) - k \<le> eb_capacity bus"
    by auto
  from polls_in_step [OF assms(1) k, of n] k(1) assms(4) show ?thesis
    by (auto simp: bus_run_append in_step_def Let_def take_is_prefix split: prod.splits)
qed

section \<open>Properties\<close>

text \<open>
  C17. A listener that keeps up gets every event of its type, in the order of publication and each
  once. However publications and turns of the listener alternate, as long as its backlog never
  exceeds the capacity of the bus, it goes on running and has handled a first part of what was published
  since it subscribed; once it has had enough turns, all of it.
\<close>

theorem listener_delivers:
  assumes "broadcast_ok B view" and "bus_ok view bus" and "keeps_up (eb_capacity bus) ty 0 ops"
    and "length (published ty ops) \<le> n"
  shows "let l = fst (bus_run B ops (listen B ty bus)); l' = fst (bus_run B (ops @ replicate n Poll) (listen B ty bus))
    in li_running l \<and> prefix (li_handled l) (published ty ops) \<and> li_running l' \<and> li_handled l' = published ty ops"
  by (rule keeping_up_delivers [OF assms])

text \<open>A channel as a list of what was sent, with the positions of its receivers.\<close>

definition list_broadcast :: "(nat \<times> event list \<times> (nat \<times> nat) list, nat) broadcast" where
  "list_broadcast =
     \<lparr>bc_channel = (\<lambda>n. (n, [], [])),
      bc_send = (\<lambda>e (c, sent, rxs). if rxs = [] then (False, c, sent, rxs) else (True, c, sent @ [e], rxs)),
      bc_subscribe = (\<lambda>(c, sent, rxs). let rx = Suc (foldr max (map fst rxs) 0) in (rx, c, sent, (rx, length sent) # rxs)),
      bc_recv = (\<lambda>rx (c, sent, rxs). case map_of rxs rx of
          None \<Rightarrow> (Waiting, c, sent, rxs)
        | Some n \<Rightarrow>
            if n \<ge> length sent then (Waiting, c, sent, rxs)
            else if length sent - n \<le> c then (Got (sent ! n), c, sent, AList.update rx (n + 1) rxs)
            else (Lagged, c, sent, AList.update rx (length sent - c) rxs)),
      bc_drop = (\<lambda>rx (c, sent, rxs). (c, sent, AList.delete rx rxs)),
      bc_receivers = (\<lambda>(c, sent, rxs). card (fst ` set rxs))\<rparr>"

definition list_view :: "nat \<times> event list \<times> (nat \<times> nat) list \<Rightarrow> nat channel_view" where
  "list_view ch = (case ch of (c, sent, rxs) \<Rightarrow> \<lparr>cv_capacity = c, cv_sent = sent, cv_passed = map_of rxs\<rparr>)"

lemma fresh_receiver: "map_of rxs (Suc (foldr max (map fst rxs) 0)) = None"
proof -
  have le: "x \<le> foldr max (map fst rxs) 0" if "x \<in> fst ` set rxs" for x :: nat
    using that by (induction rxs) (auto simp: le_max_iff_disj)
  show ?thesis
    using le [of "Suc (foldr max (map fst rxs) 0)"] by (auto simp: map_of_eq_None_iff)
qed

lemma list_broadcast_ok: "broadcast_ok list_broadcast list_view"
  unfolding broadcast_ok_def
  by (auto simp: list_broadcast_def list_view_def fresh_receiver Let_def update_conv delete_conv dom_map_of_conv_image_fst
      split: prod.splits option.splits)

definition peer_event :: "nat \<Rightarrow> event" where
  "peer_event n = event_new (\<lambda>_. ''t'') (of_nat n) ''u'' (PeerConnected ''p'' ''a'') ''node''"

theorem listener_delivers_witness:
  "li_handled (fst (bus_run list_broadcast
      ([Publish (peer_event 1), Poll, Publish (peer_event 2), Publish (peer_event 3)] @ replicate 3 Poll)
      (listen list_broadcast ''peer_connected'' (with_capacity 2)))) = [peer_event 1, peer_event 2, peer_event 3]"
proof -
  have n: "named ''peer_connected'' (peer_event i)" for i
    by (simp add: named_def peer_event_def event_new_def channel_name_def)
  have "bus_ok list_view (with_capacity 2)"
    by (simp add: bus_ok_def with_capacity_def)
  from listener_delivers [OF list_broadcast_ok this, of "''peer_connected''"
      "[Publish (peer_event 1), Poll, Publish (peer_event 2), Publish (peer_event 3)]" 3]
  show ?thesis
    by (simp add: n with_capacity_def Let_def)
qed

text \<open>
  Subscribing to all events of a bus on which nothing was published or subscribed yet gives nothing:
  the task finds no channels, \<open>select_all\<close> panics, and no event is ever forwarded.
\<close>

theorem subscribe_all_dies:
  assumes "subscribe_all B bus = (rx, s)" and "eb_channels bus = []" and "iter [] = []"
  shows "\<exists>all. (forward_round B iter pick ^^ Suc n) s = (Gone, bus, all) \<and> snd (snd s) = all"
proof -
  obtain all where s: "s = (Collecting, bus, all)"
    using assms(1) by (auto simp: subscribe_all_def split: prod.splits)
  have "forward_round B iter pick s = (Gone, bus, all)"
    by (simp add: s forward_round_def active_event_types_def assms(2,3))
  then show ?thesis
    by (simp add: funpow_swap1 forwarder_gone s)
qed

theorem subscribe_all_dies_witness:
  "fst ((forward_round list_broadcast id (\<lambda>_. None) ^^ Suc 5) (snd (subscribe_all list_broadcast event_bus_new))) = Gone"
  using subscribe_all_dies [OF surjective_pairing, where B = list_broadcast and bus = event_bus_new and iter = id
      and pick = "\<lambda>_. None" and n = 5]
  by (auto simp: event_bus_new_def)

end
