(* ===== verification/Ws_Server.thy ===== *)
theory Ws_Server
  imports Events
begin

text \<open>
  The web socket server: \<^verbatim>\<open>src/src/rpc/ws_server.rs\<close>.

  A connection is served by a task that takes turns between frames of the client and events of the
  bus. The socket and the JSON encoding are parameters: frames arrive as values of \<open>frame\<close>,
  \<open>None\<close> when the stream has ended, and whether a frame could be sent is an argument. The sockets
  for blocks and transactions share one definition, since their code differs in the name of the
  channel only.
\<close>

section \<open>Data\<close>

datatype ws_message =
    Subscribe "string list" | Unsubscribe "string list" | Ping | Pong | EventMessage event | ErrorMessage string

datatype 't frame = Text 't | Close | FrameError | OtherFrame

record 't ws_env =
  wv_parse :: "'t \<Rightarrow> ws_message option"
  wv_print :: "ws_message \<Rightarrow> 't option"

record 'rx connection =
  wc_type :: string
  wc_receiver :: 'rx
  wc_open :: bool
  wc_sent :: "ws_message list"

datatype endpoint = EventsEndpoint | ChannelEndpoint string

text \<open>The routes of the server.\<close>

definition ws_router :: "string \<Rightarrow> endpoint option" where
  "ws_router path =
     (if path = ''/events'' then Some EventsEndpoint
      else if path = ''/blocks'' then Some (ChannelEndpoint ''new_block'')
      else if path = ''/transactions'' then Some (ChannelEndpoint ''new_transaction'')
      else None)"

section \<open>A connection to one channel\<close>

definition ws_connect :: "('ch, 'rx) broadcast \<Rightarrow> string \<Rightarrow> 'ch event_bus \<Rightarrow> 'rx connection \<times> 'ch event_bus" where
  "ws_connect B ty bus =
     (let (rx, bus) = subscribe B ty bus in (\<lparr>wc_type = ty, wc_receiver = rx, wc_open = True, wc_sent = []\<rparr>, bus))"

definition ws_close ::
  "('ch, 'rx) broadcast \<Rightarrow> 'rx connection \<times> 'ch event_bus \<Rightarrow> 'rx connection \<times> 'ch event_bus" where
  "ws_close B cb = (case cb of (c, bus) \<Rightarrow> (c\<lparr>wc_open := False\<rparr>, drop_receiver B (wc_type c, wc_receiver c) bus))"

text \<open>A frame of the client: a ping is answered, whether or not the answer can be sent.\<close>

definition ws_answer :: "'t ws_env \<Rightarrow> bool \<Rightarrow> 't \<Rightarrow> ws_message list" where
  "ws_answer V sent_ok t =
     (case wv_parse V t of
        Some Ping \<Rightarrow> if wv_print V Pong \<noteq> None \<and> sent_ok then [Pong] else []
      | _ \<Rightarrow> [])"

definition ws_incoming ::
  "('ch, 'rx) broadcast \<Rightarrow> 't ws_env \<Rightarrow> bool \<Rightarrow> 't frame option \<Rightarrow> 'rx connection \<times> 'ch event_bus
    \<Rightarrow> 'rx connection \<times> 'ch event_bus" where
  "ws_incoming B V sent_ok fr cb =
     (case cb of (c, bus) \<Rightarrow>
        if \<not> wc_open c then cb
        else case fr of
          Some (Text t) \<Rightarrow> (c\<lparr>wc_sent := wc_sent c @ ws_answer V sent_ok t\<rparr>, bus)
        | Some Close \<Rightarrow> ws_close B cb
        | Some FrameError \<Rightarrow> ws_close B cb
        | _ \<Rightarrow> cb)"

definition ws_event ::
  "('ch, 'rx) broadcast \<Rightarrow> 't ws_env \<Rightarrow> bool \<Rightarrow> 'rx connection \<times> 'ch event_bus \<Rightarrow> 'rx connection \<times> 'ch event_bus" where
  "ws_event B V sent_ok cb =
     (case cb of (c, bus) \<Rightarrow>
        if \<not> wc_open c then cb
        else case receive B (wc_type c, wc_receiver c) bus of
          (Got e, bus) \<Rightarrow>
            (if wv_print V (EventMessage e) = None then (c, bus)
             else if sent_ok then (c\<lparr>wc_sent := wc_sent c @ [EventMessage e]\<rparr>, bus)
             else ws_close B (c, bus))
        | (Waiting, bus) \<Rightarrow> (c, bus)
        | (Lagged, bus) \<Rightarrow> ws_close B (c, bus))"

section \<open>A connection to all events\<close>

text \<open>
  The events socket receives from the channel of its forwarding task. When that task is gone, its
  sender is too, and the socket is closed once nothing is left to receive.
\<close>

definition ws_all_event ::
  "('ch, 'rx) broadcast \<Rightarrow> 't ws_env \<Rightarrow> bool \<Rightarrow> 'rx connection \<times> 'rx forwarder \<times> 'ch event_bus \<times> 'ch
    \<Rightarrow> 'rx connection \<times> 'rx forwarder \<times> 'ch event_bus \<times> 'ch" where
  "ws_all_event B V sent_ok s =
     (case s of (c, f, bus, all) \<Rightarrow>
        if \<not> wc_open c then s
        else case bc_recv B (wc_receiver c) all of
          (Got e, all) \<Rightarrow>
            (if wv_print V (EventMessage e) = None then (c, f, bus, all)
             else if sent_ok then (c\<lparr>wc_sent := wc_sent c @ [EventMessage e]\<rparr>, f, bus, all)
             else (c\<lparr>wc_open := False\<rparr>, f, bus, all))
        | (Waiting, all) \<Rightarrow> (if f = Gone then (c\<lparr>wc_open := False\<rparr>, f, bus, all) else (c, f, bus, all))
        | (Lagged, all) \<Rightarrow> (c\<lparr>wc_open := False\<rparr>, f, bus, all))"

definition ws_all_connect ::
  "('ch, 'rx) broadcast \<Rightarrow> 'ch event_bus \<Rightarrow> 'rx connection \<times> 'rx forwarder \<times> 'ch event_bus \<times> 'ch" where
  "ws_all_connect B bus =
     (case subscribe_all B bus of (rx, s) \<Rightarrow>
        (\<lparr>wc_type = ''all'', wc_receiver = rx, wc_open = True, wc_sent = []\<rparr>, s))"

section \<open>Runs\<close>

datatype 't ws_op = WsPublish event | WsFrame bool "'t frame option" | WsTurn bool

fun ws_run ::
  "('ch, 'rx) broadcast \<Rightarrow> 't ws_env \<Rightarrow> 't ws_op list \<Rightarrow> 'rx connection \<times> 'ch event_bus
    \<Rightarrow> 'rx connection \<times> 'ch event_bus" where
  "ws_run B V [] cb = cb"
| "ws_run B V (WsPublish e # ops) cb = ws_run B V ops (fst cb, publish B e (snd cb))"
| "ws_run B V (WsFrame ok fr # ops) cb = ws_run B V ops (ws_incoming B V ok fr cb)"
| "ws_run B V (WsTurn ok # ops) cb = ws_run B V ops (ws_event B V ok cb)"

fun bus_ops :: "'t ws_op list \<Rightarrow> bus_op list" where
  "bus_ops [] = []"
| "bus_ops (WsPublish e # ops) = Publish e # bus_ops ops"
| "bus_ops (WsFrame ok fr # ops) = bus_ops ops"
| "bus_ops (WsTurn ok # ops) = Poll # bus_ops ops"

text \<open>A client that reads everything and does not leave.\<close>

fun stays :: "'t ws_op \<Rightarrow> bool" where
  "stays (WsPublish e) \<longleftrightarrow> True"
| "stays (WsFrame ok fr) \<longleftrightarrow> ok \<and> fr \<noteq> Some Close \<and> fr \<noteq> Some FrameError"
| "stays (WsTurn ok) \<longleftrightarrow> ok"

fun events_of :: "ws_message list \<Rightarrow> event list" where
  "events_of [] = []"
| "events_of (EventMessage e # ms) = e # events_of ms"
| "events_of (_ # ms) = events_of ms"

lemma events_of_append [simp]: "events_of (ms @ ms') = events_of ms @ events_of ms'"
  by (induction ms rule: events_of.induct) simp_all

lemma events_of_answer [simp]: "events_of (ws_answer V ok t) = []"
  by (simp add: ws_answer_def split: option.split ws_message.split)

section \<open>A connection behaves like a listener\<close>

definition mirrors :: "'rx connection \<times> 'ch event_bus \<Rightarrow> 'rx listener \<times> 'ch event_bus \<Rightarrow> bool" where
  "mirrors cb lb \<longleftrightarrow>
     snd cb = snd lb \<and> wc_type (fst cb) = li_type (fst lb) \<and> wc_receiver (fst cb) = li_receiver (fst lb)
     \<and> wc_open (fst cb) = li_running (fst lb) \<and> events_of (wc_sent (fst cb)) = li_handled (fst lb)"

lemma mirrors_event:
  assumes "mirrors cb lb" and "\<And>m. wv_print V m \<noteq> None"
  shows "mirrors (ws_event B V True cb) (poll B lb)"
  using assms(1)
  by (auto simp: mirrors_def ws_event_def poll_def ws_close_def case_prod_unfold assms(2) split: received.split)

lemma mirrors_incoming:
  assumes "mirrors cb lb" and "fr \<noteq> Some Close" and "fr \<noteq> Some FrameError"
  shows "mirrors (ws_incoming B V ok fr cb) lb"
  using assms by (auto simp: mirrors_def ws_incoming_def case_prod_unfold split: option.split frame.split)

lemma mirrors_run:
  assumes "mirrors cb lb" and "\<And>m. wv_print V m \<noteq> None" and "list_all stays ops"
  shows "mirrors (ws_run B V ops cb) (bus_run B (bus_ops ops) lb)"
  using assms(1,3)
proof (induction ops arbitrary: cb lb)
  case (Cons op ops)
  show ?case
  proof (cases op)
    case (WsPublish e)
    have "mirrors (fst cb, publish B e (snd cb)) (fst lb, publish B e (snd lb))"
      using Cons.prems(1) by (simp add: mirrors_def)
    then show ?thesis
      using Cons by (simp add: WsPublish)
  next
    case (WsFrame ok fr)
    then have "mirrors (ws_incoming B V ok fr cb) lb" "list_all stays ops"
      using Cons.prems(2) by (auto intro!: mirrors_incoming [OF Cons.prems(1)])
    from Cons.IH [OF this] show ?thesis
      by (simp add: WsFrame)
  next
    case (WsTurn ok)
    then show ?thesis
      using Cons mirrors_event [OF Cons.prems(1) assms(2)] by simp
  qed
qed simp

lemma mirrors_connect: "mirrors (ws_connect B ty bus) (listen B ty bus)"
  by (simp add: mirrors_def ws_connect_def listen_def case_prod_unfold Let_def)

lemma ws_run_append: "ws_run B V (ops @ ops') cb = ws_run B V ops' (ws_run B V ops cb)"
  by (induction B V ops cb rule: ws_run.induct) simp_all

lemma bus_ops_turns [simp]: "bus_ops (ops @ replicate n (WsTurn True)) = bus_ops ops @ replicate n Poll"
proof -
  have "bus_ops (replicate n (WsTurn True :: 'a ws_op)) = replicate n Poll"
    by (induction n) simp_all
  moreover have "bus_ops (ops @ ops') = bus_ops ops @ bus_ops ops'" for ops' :: "'a ws_op list"
    by (induction ops rule: bus_ops.induct) simp_all
  ultimately show ?thesis
    by simp
qed

section \<open>Properties\<close>

text \<open>
  C31. A web socket of the block or transaction endpoint is a listener on the wire, as long as all messages
  can be serialised and the client stays: it neither closes the connection nor breaks it, and
  every send to it succeeds. Then the events sent so far are those that a listener to the same
  channel would have handled, and the socket is open exactly when the listener still runs. So a
  client that keeps up is sent every event of its channel, once and in order, whatever frames it
  sends itself in between; and one that falls behind is disconnected.
\<close>

theorem web_socket_refines_listener:
  assumes "broadcast_ok B view" and "bus_ok view bus" and "\<forall>m. wv_print V m \<noteq> None" and "list_all stays ops"
  shows "let c = fst (ws_run B V ops (ws_connect B ty bus)); l = fst (bus_run B (bus_ops ops) (listen B ty bus));
      c' = fst (ws_run B V (ops @ replicate n (WsTurn True)) (ws_connect B ty bus))
    in events_of (wc_sent c) = li_handled l \<and> wc_open c = li_running l
      \<and> (keeps_up (eb_capacity bus) ty 0 (bus_ops ops) \<and> length (published ty (bus_ops ops)) \<le> n
          \<longrightarrow> wc_open c' \<and> events_of (wc_sent c') = published ty (bus_ops ops))"
proof -
  have p: "\<And>m. wv_print V m \<noteq> None"
    using assms(3) by blast
  have "list_all stays (ops @ replicate n (WsTurn True))"
    using assms(4) by (auto simp: list_all_iff)
  from mirrors_run [OF mirrors_connect p this, of B B ty bus] mirrors_run [OF mirrors_connect p assms(4), of B B ty bus]
    keeping_up_delivers [OF assms(1,2), of ty "bus_ops ops" n]
  show ?thesis
    by (auto simp: mirrors_def Let_def)
qed

theorem web_socket_refines_listener_witness:
  "events_of (wc_sent (fst (ws_run list_broadcast \<lparr>wv_parse = (\<lambda>_ :: unit. Some Ping), wv_print = (\<lambda>_. Some ())\<rparr>
      ([WsPublish (peer_event 1), WsFrame True (Some (Text ())), WsPublish (peer_event 2)] @ replicate 2 (WsTurn True))
      (ws_connect list_broadcast ''peer_connected'' (with_capacity 2))))) = [peer_event 1, peer_event 2]"
proof -
  let ?V = "\<lparr>wv_parse = (\<lambda>_ :: unit. Some Ping), wv_print = (\<lambda>_. Some ())\<rparr>"
  let ?ops = "[WsPublish (peer_event 1), WsFrame True (Some (Text ())), WsPublish (peer_event 2)]"
  have "named ''peer_connected'' (peer_event i)" for i
    by (simp add: named_def peer_event_def event_new_def channel_name_def)
  moreover have "bus_ok list_view (with_capacity 2)"
    by (simp add: bus_ok_def with_capacity_def)
  moreover from web_socket_refines_listener [OF list_broadcast_ok this, of ?V ?ops "''peer_connected''" 2]
  have "keeps_up 2 ''peer_connected'' 0 (bus_ops ?ops) \<and> length (published ''peer_connected'' (bus_ops ?ops)) \<le> 2
      \<longrightarrow> events_of (wc_sent (fst (ws_run list_broadcast ?V (?ops @ replicate 2 (WsTurn True))
          (ws_connect list_broadcast ''peer_connected'' (with_capacity 2))))) = published ''peer_connected'' (bus_ops ?ops)"
    by (simp add: Let_def with_capacity_def)
  ultimately show ?thesis
    by simp
qed

text \<open>A stream that has ended does not end the task: the turn is ignored, and the loop takes it again.\<close>

lemma ended_stream_is_ignored: "ws_incoming B V ok None cb = cb"
  by (auto simp: ws_incoming_def split: prod.split)

end
