(* ===== verification/Startup.thy ===== *)
theory Startup
  imports Interactive
begin

text \<open>
  Start-up: \<^verbatim>\<open>src/src/main.rs\<close>, the command \<open>node start\<close> of \<^verbatim>\<open>src/src/cli/cli.rs\<close> and the configuration of
  \<^verbatim>\<open>src/src/config.rs\<close>.

  Reading a file and the TOML decoder are parameters. Nothing in the program reads the configuration;
  it is modelled as the library offers it. The node that \<open>node start\<close> runs has no other interface
  than its two timers: the code that would serve RPC requests is commented out.
\<close>

section \<open>Configuration\<close>

record network_config =
  nc_listen_addr :: string
  nc_rpc_addr :: string
  nc_enable_mdns :: bool
  nc_enable_dht :: bool
  nc_bootstrap_peers :: "string list"
  nc_max_peers :: nat

record state_sync_config =
  sc_enable_fast_sync :: bool
  sc_snapshot_interval :: u64
  sc_max_snapshot_size :: u64

record sync_config =
  periodic_check_interval :: u64
  max_pending_requests :: nat
  block_request_timeout :: u64
  sc_max_batch_size :: nat
  sc_state :: state_sync_config

record contract_config =
  cc_db_path :: string
  max_bytecode_size :: u64
  enable_caching :: bool
  cc_cache_size :: nat

record consensus_config =
  co_block_interval :: u64
  co_confirmation_depth :: nat
  blue_set_size :: nat

record mempool_config =
  mc_max_size :: nat
  mc_min_gas_price :: u64

record pruning_config =
  pc_enabled :: bool
  pc_prune_height :: u64
  pc_window_size :: u64
  pc_check_interval :: u64

record storage_config =
  st_db_path :: string
  st_pruning :: pruning_config

record logging_config =
  lo_level :: string
  lo_structured :: bool

record node_settings =
  no_node_id :: string
  no_data_dir :: string
  no_node_name :: string
  no_enable_rpc :: bool

record node_config =
  cf_network :: network_config
  cf_sync :: sync_config
  cf_contracts :: contract_config
  cf_consensus :: consensus_config
  cf_mempool :: mempool_config
  cf_storage :: storage_config
  cf_logging :: logging_config
  cf_node :: node_settings

definition default_config :: node_config where
  "default_config =
     \<lparr>cf_network = \<lparr>nc_listen_addr = ''/ip4/0.0.0.0/tcp/30333'', nc_rpc_addr = ''127.0.0.1:8080'', nc_enable_mdns = True,
        nc_enable_dht = False, nc_bootstrap_peers = [], nc_max_peers = 100\<rparr>,
      cf_sync = \<lparr>periodic_check_interval = 60, max_pending_requests = 1000, block_request_timeout = 30,
        sc_max_batch_size = 100,
        sc_state = \<lparr>sc_enable_fast_sync = True, sc_snapshot_interval = 300, sc_max_snapshot_size = 500 * 1024 * 1024\<rparr>\<rparr>,
      cf_contracts = \<lparr>cc_db_path = ''./data/contracts.db'', max_bytecode_size = 1024 * 1024, enable_caching = True,
        cc_cache_size = 1000\<rparr>,
      cf_consensus = \<lparr>co_block_interval = 5000, co_confirmation_depth = 10, blue_set_size = 2\<rparr>,
      cf_mempool = \<lparr>mc_max_size = 10000, mc_min_gas_price = 1\<rparr>,
      cf_storage = \<lparr>st_db_path = ''./data/blocks.db'',
        st_pruning = \<lparr>pc_enabled = True, pc_prune_height = 200000, pc_window_size = 100000, pc_check_interval = 3600\<rparr>\<rparr>,
      cf_logging = \<lparr>lo_level = ''info'', lo_structured = False\<rparr>,
      cf_node = \<lparr>no_node_id = '''', no_data_dir = ''./data'', no_node_name = ''cytah-node'', no_enable_rpc = True\<rparr>\<rparr>"

datatype config_error = ReadFailed | ParseFailed

text \<open>\<open>exists\<close> and \<open>read\<close> look at the file system, \<open>toml\<close> decodes.\<close>

definition load_or_default ::
  "(string \<Rightarrow> bool) \<Rightarrow> (string \<Rightarrow> string option) \<Rightarrow> (string \<Rightarrow> node_config option) \<Rightarrow> string \<Rightarrow> config_error + node_config" where
  "load_or_default exists read toml config_path =
     (if \<not> exists config_path then Inr default_config
      else case read config_path of
        None \<Rightarrow> Inl ReadFailed
      | Some content \<Rightarrow> (case toml content of None \<Rightarrow> Inl ParseFailed | Some config \<Rightarrow> Inr config))"

definition load_with_priority ::
  "(string \<Rightarrow> bool) \<Rightarrow> (string \<Rightarrow> string option) \<Rightarrow> (string \<Rightarrow> node_config option) \<Rightarrow> string option
    \<Rightarrow> config_error + node_config" where
  "load_with_priority exists read toml cli_config =
     (case cli_config of
        Some path \<Rightarrow> load_or_default exists read toml path
      | None \<Rightarrow> load_or_default exists read toml ''config.toml'')"

datatype config_complaint = BlockIntervalZero | MempoolSizeZero | DepthZero | MaxPeersZero | PendingRequestsZero

definition config_validate :: "node_config \<Rightarrow> config_complaint list + unit" where
  "config_validate c =
     (let errors =
        (if co_block_interval (cf_consensus c) = 0 then [BlockIntervalZero] else [])
        @ (if mc_max_size (cf_mempool c) = 0 then [MempoolSizeZero] else [])
        @ (if co_confirmation_depth (cf_consensus c) = 0 then [DepthZero] else [])
        @ (if nc_max_peers (cf_network c) = 0 then [MaxPeersZero] else [])
        @ (if max_pending_requests (cf_sync c) = 0 then [PendingRequestsZero] else [])
      in if errors = [] then Inr () else Inl errors)"

section \<open>Commands\<close>

datatype command =
    NodeStart string string
  | WalletCreate "string option"
  | WalletBalance string string
  | TxSend string string u64 string
  | ContractDeployCmd string "string option" string
  | ContractCallCmd string string "string option" "string option" string

datatype start_mode = InteractiveMode | CommandMode command

text \<open>\<open>main\<close>: without arguments the menus, otherwise the command that \<open>parse\<close> reads, if it does.\<close>

definition main_mode :: "(string list \<Rightarrow> command option) \<Rightarrow> string list \<Rightarrow> start_mode option" where
  "main_mode parse args =
     (if length args \<le> 1 then Some InteractiveMode else map_option CommandMode (parse args))"

text \<open>
  The handlers that \<open>main\<close> calls for the other commands: on the server behind \<open>http\<close> and on the files.
  Starting a node is the relation below.
\<close>

definition main_command ::
  "('p, 'v, 't) wire_env \<Rightarrow> (bytes \<Rightarrow> bytes) \<Rightarrow> ('sk, 'pk, 'rs) secp \<Rightarrow> 'sk key_bytes \<Rightarrow> ('t, 'n) transport
    \<Rightarrow> ('f \<Rightarrow> string \<Rightarrow> ('sk, 'pk) wallet option) \<Rightarrow> (string \<Rightarrow> ('sk, 'pk) wallet \<Rightarrow> 'f \<Rightarrow> 'f option)
    \<Rightarrow> ('f \<Rightarrow> string \<Rightarrow> bytes option) \<Rightarrow> bytes \<Rightarrow> command \<Rightarrow> 'n \<times> 'f
    \<Rightarrow> ((cli_error + 'v cli_output) \<times> 'n \<times> 'f) option" where
  "main_command V sha k B http load save read_file secret cmd nf =
     (let n = fst nf; fs = snd nf in
      case cmd of
        NodeStart _ _ \<Rightarrow> None
      | WalletCreate output \<Rightarrow> Some (apsnd (Pair n) (handle_wallet_create sha (we_hex V) k B save secret output fs))
      | WalletBalance addr rpc_url \<Rightarrow> Some (apsnd (\<lambda>n. (n, fs)) (handle_wallet_balance V http addr rpc_url n))
      | TxSend wallet to amount rpc_url \<Rightarrow>
          Some (apsnd (\<lambda>n. (n, fs)) (handle_tx_send V sha k http (load fs) wallet to amount rpc_url n))
      | ContractDeployCmd code wallet rpc_url \<Rightarrow>
          Some (apsnd (\<lambda>n. (n, fs)) (handle_contract_deploy V http (load fs) (read_file fs) code wallet rpc_url n))
      | ContractCallCmd contract meth args wallet rpc_url \<Rightarrow>
          Some (apsnd (\<lambda>n. (n, fs)) (handle_contract_call V http (load fs) contract meth args wallet rpc_url n)))"

text \<open>
  \<open>handle_node_start\<close>: a new node, and \<open>run\<close> on it. The run initialises the node and then only the
  two timers act; \<open>None\<close> for the panic of a timer.
\<close>

inductive node_started ::
  "('sk, 'pk, 'rs, 'rdb, 'sdb, 'p, 'bdb) node_env \<Rightarrow> ('rdb, 'sdb, 'p, 'bdb) databases
    \<Rightarrow> ('rdb, 'sdb, 'p, 'bdb) node_runtime option \<Rightarrow> bool" for N dbs where
  initialised: "node_started N dbs (Some (node_initialize N now' w (runtime_new N now dbs)))"
| block_timer: "node_started N dbs (Some nr) \<Longrightarrow> produce_block N t now now2 w pnow nr = (r, nr')
    \<Longrightarrow> node_started N dbs (if r = Inl NodePanic then None else Some nr')"
| finality_timer: "node_started N dbs (Some nr) \<Longrightarrow> check_finality nr = (r, nr')
    \<Longrightarrow> node_started N dbs (if r = Inl NodePanic then None else Some nr')"

section \<open>Properties\<close>

text \<open>
  A configuration is accepted exactly when the five numbers that are checked are positive, and a
  refusal names every one that is zero; the default configuration is accepted, and it is what is
  loaded where there is no file.
\<close>

theorem config_validate_decides:
  "(config_validate c = Inr () \<longleftrightarrow>
      co_block_interval (cf_consensus c) \<noteq> 0 \<and> mc_max_size (cf_mempool c) \<noteq> 0 \<and> co_confirmation_depth (cf_consensus c) \<noteq> 0
      \<and> nc_max_peers (cf_network c) \<noteq> 0 \<and> max_pending_requests (cf_sync c) \<noteq> 0)
   \<and> config_validate default_config = Inr ()
   \<and> load_with_priority (\<lambda>_. False) read toml path = Inr default_config"
  by (simp add: config_validate_def default_config_def load_with_priority_def load_or_default_def Let_def split: option.split)

lemma node_check_finality:
  assumes "node_inv N nr"
  shows "fst (check_finality nr) = Inr ()"
proof (cases "dag_store (nr_blockdag nr) = []")
  case False
  let ?d = "nr_blockdag nr" and ?gd = "attach_dag (nr_blockdag nr) (nr_ghostdag nr)"
  have d: "dag_inv (ne_env N) ?d" and k: "fe_k (nr_finality nr) < 2 ^ 64"
    using assms by (simp_all add: node_inv_def)
  have "gd_dag ?gd = Some ?d"
    by (simp add: attach_dag_def clear_cache_def)
  then obtain xs where "generate_ordering ?gd = Inr xs"
    using generate_ordering_attached d by blast
  moreover obtain fe' where "compute_finality ?d (nr_finality nr) = (Inr (), fe')"
    using finality_prefix [OF d False k] by blast
  ultimately show ?thesis
    using False by (simp add: check_finality_def Let_def)
qed (simp add: check_finality_def)

lemma check_finality_mining: "mining_enabled (snd (check_finality nr)) = mining_enabled nr"
  by (auto simp: check_finality_def Let_def split: sum.split ghost_error.split prod.split)

lemma started_idle:
  assumes "node_started N dbs s" and "node_env_ok N" and "db_blocks dbs = []"
  shows "\<exists>nr. s = Some nr \<and> idle_node {[]} nr \<and> node_inv N nr \<and> \<not> mining_enabled nr"
  using assms(1)
proof induction
  case (initialised now' w now)
  have "node_inv N (runtime_new N now dbs)"
    by (simp add: runtime_new_def assms(3) node_new_inv)
  then have "node_inv N (node_initialize N now' w (runtime_new N now dbs))"
    by (rule node_step_inv [OF node_step.initialize assms(2)])
  with idle_task(1) [OF fresh_node_idle, of dbs \<open>{[]}\<close>] assms(3) show ?case
    by (simp add: node_initialize_def runtime_new_def node_new_def Let_def)
next
  case (block_timer nr t now now2 w pnow r nr')
  then show ?case
    by (auto simp: idle_task(2))
next
  case (finality_timer nr r nr')
  then have i: "idle_node {[]} nr" "node_inv N nr" "\<not> mining_enabled nr"
    by auto
  have "\<not> mining_enabled nr'"
    using finality_timer(2) i(3) check_finality_mining [of nr] by simp
  moreover have "r \<noteq> Inl NodePanic"
    using node_check_finality [OF i(2)] finality_timer(2) by auto
  ultimately show ?case
    using idle_task(3) [OF i(1)] node_step_inv [OF node_step.finality assms(2) i(2)] finality_timer(2) by simp
qed

text \<open>
  The command \<open>node start\<close> gives a node that never does anything: it does not panic and keeps its
  invariants, but mining is off and nothing can switch it on, the pool stays empty since
  nobody can submit, and the DAG has the genesis block at most, for ever.
\<close>

theorem node_start_never_mines:
  assumes "node_env_ok N" and "db_blocks dbs = []" and "node_started N dbs s"
  shows "\<exists>nr. s = Some nr \<and> node_inv N nr \<and> \<not> mining_enabled nr \<and> mp_transactions (nr_mempool nr) = []
    \<and> length (dag_store (nr_blockdag nr)) \<le> 1"
  using started_idle [OF assms(3,1,2)] by (auto simp: idle_node_def)

theorem node_start_never_mines_witness:
  "\<exists>nr. node_started sample_node_env (projr (ou_opened sample_outside)) (Some nr) \<and> \<not> mining_enabled nr
    \<and> length (dag_store (nr_blockdag nr)) \<le> 1"
proof -
  let ?dbs = "projr (ou_opened sample_outside)"
  have "node_started sample_node_env ?dbs (Some (node_initialize sample_node_env 1000 None (runtime_new sample_node_env 1000 ?dbs)))"
    by (rule node_started.initialised)
  moreover have "db_blocks ?dbs = []"
    by (simp add: sample_outside_def)
  ultimately show ?thesis
    using node_start_never_mines [OF sample_node_env_ok] by blast
qed

end
