(* ===== verification/P2p_Legacy.thy ===== *)
theory P2p_Legacy
  imports Block
begin

text \<open>
  The simulated network: \<^verbatim>\<open>src/src/network/p2p_network.rs\<close>. Peers are a hash map by address; a broadcast is
  simulated by pushing the message onto the queue of received messages of the sender itself.
\<close>

section \<open>Operations\<close>

datatype legacy_message =
    LTransaction transaction
  | LInventory block_hash
  | LBlock block
  | LRequestBlock block_hash
  | LResponseBlock "block option"
  | LPing
  | LPong
  | LSyncRequest u64
  | LSyncResponse "block list"
  | LGetTips
  | LTipsResponse "block_hash list"

record legacy_peer =
  lp_address :: string
  lp_last_seen :: u64
  lp_connected :: bool

record p2p_network =
  lg_peers :: "(string \<times> legacy_peer) list"
  received_messages :: "legacy_message list"
  local_addr :: string
  lg_max_peers :: nat

datatype legacy_error = MaxPeersReached | AlreadyConnected | PeerNotFound

definition legacy_peer_new :: "u64 \<Rightarrow> string \<Rightarrow> legacy_peer" where
  "legacy_peer_new now address = \<lparr>lp_address = address, lp_last_seen = now, lp_connected = False\<rparr>"

definition p2p_network_new :: "string \<Rightarrow> nat \<Rightarrow> p2p_network" where
  "p2p_network_new addr max_peers =
     \<lparr>lg_peers = [], received_messages = [], local_addr = addr, lg_max_peers = max_peers\<rparr>"

definition connect_peer :: "u64 \<Rightarrow> string \<Rightarrow> p2p_network \<Rightarrow> legacy_error + p2p_network" where
  "connect_peer now peer_addr n =
     (if length (lg_peers n) \<ge> lg_max_peers n then Inl MaxPeersReached
      else if map_of (lg_peers n) peer_addr \<noteq> None then Inl AlreadyConnected
      else Inr (n\<lparr>lg_peers := AList.update peer_addr ((legacy_peer_new now peer_addr)\<lparr>lp_connected := True\<rparr>) (lg_peers n)\<rparr>))"

definition disconnect_peer :: "string \<Rightarrow> p2p_network \<Rightarrow> legacy_error + p2p_network" where
  "disconnect_peer peer_addr n =
     (case map_of (lg_peers n) peer_addr of
        None \<Rightarrow> Inl PeerNotFound
      | Some p \<Rightarrow> Inr (n\<lparr>lg_peers := AList.update peer_addr (p\<lparr>lp_connected := False\<rparr>) (lg_peers n)\<rparr>))"

definition legacy_broadcast :: "legacy_message \<Rightarrow> p2p_network \<Rightarrow> p2p_network" where
  "legacy_broadcast m n =
     (if filter (\<lambda>(_, p). lp_connected p) (lg_peers n) = [] then n
      else n\<lparr>received_messages := received_messages n @ [m]\<rparr>)"

definition legacy_broadcast_transaction :: "transaction \<Rightarrow> p2p_network \<Rightarrow> p2p_network" where
  "legacy_broadcast_transaction tx n = legacy_broadcast (LTransaction tx) n"

definition legacy_broadcast_block :: "block \<Rightarrow> p2p_network \<Rightarrow> p2p_network" where
  "legacy_broadcast_block b n = legacy_broadcast (LInventory (blk_hash b)) n"

text \<open>\<open>pop\<close> takes the last element.\<close>

definition receive_message :: "p2p_network \<Rightarrow> legacy_message option \<times> p2p_network" where
  "receive_message n =
     (case received_messages n of
        [] \<Rightarrow> (None, n)
      | ms \<Rightarrow> (Some (last ms), n\<lparr>received_messages := butlast ms\<rparr>))"

definition get_all_messages :: "p2p_network \<Rightarrow> legacy_message list \<times> p2p_network" where
  "get_all_messages n = (received_messages n, n\<lparr>received_messages := []\<rparr>)"

definition legacy_connected_peers ::
  "((string \<times> legacy_peer) list \<Rightarrow> (string \<times> legacy_peer) list) \<Rightarrow> p2p_network \<Rightarrow> string list" where
  "legacy_connected_peers iter n = map (lp_address \<circ> snd) (filter (\<lambda>(_, p). lp_connected p) (iter (lg_peers n)))"

definition legacy_all_peers ::
  "((string \<times> legacy_peer) list \<Rightarrow> (string \<times> legacy_peer) list) \<Rightarrow> p2p_network \<Rightarrow> string list" where
  "legacy_all_peers iter n = map fst (iter (lg_peers n))"

definition is_connected_to :: "string \<Rightarrow> p2p_network \<Rightarrow> bool" where
  "is_connected_to peer_addr n = (case map_of (lg_peers n) peer_addr of None \<Rightarrow> False | Some p \<Rightarrow> lp_connected p)"

definition legacy_update_activity :: "u64 \<Rightarrow> string \<Rightarrow> p2p_network \<Rightarrow> p2p_network" where
  "legacy_update_activity now peer_addr n =
     (case map_of (lg_peers n) peer_addr of
        None \<Rightarrow> n
      | Some p \<Rightarrow> n\<lparr>lg_peers := AList.update peer_addr (p\<lparr>lp_last_seen := now\<rparr>) (lg_peers n)\<rparr>)"

text \<open>The age wraps when the clock has gone back.\<close>

definition prune_inactive_peers :: "u64 \<Rightarrow> u64 \<Rightarrow> p2p_network \<Rightarrow> p2p_network" where
  "prune_inactive_peers now timeout_secs n =
     n\<lparr>lg_peers := filter (\<lambda>(_, p). \<not> (\<not> lp_connected p \<and> now - lp_last_seen p > timeout_secs)) (lg_peers n)\<rparr>"

section \<open>Runs\<close>

inductive legacy_step :: "p2p_network \<Rightarrow> p2p_network \<Rightarrow> bool" where
  connect: "connect_peer now a n = Inr n' \<Longrightarrow> legacy_step n n'"
| disconnect: "disconnect_peer a n = Inr n' \<Longrightarrow> legacy_step n n'"
| broadcast: "legacy_step n (legacy_broadcast m n)"
| receive: "legacy_step n (snd (receive_message n))"
| drain: "legacy_step n (snd (get_all_messages n))"
| activity: "legacy_step n (legacy_update_activity now a n)"
| prune: "legacy_step n (prune_inactive_peers now t n)"

definition legacy_inv :: "p2p_network \<Rightarrow> bool" where
  "legacy_inv n \<longleftrightarrow> distinct (map fst (lg_peers n)) \<and> length (lg_peers n) \<le> lg_max_peers n
     \<and> (\<forall>(a, p) \<in> set (lg_peers n). lp_address p = a)"

lemma update_existing:
  assumes "map_of xs a = Some p"
  shows "length (AList.update a q xs) = length xs" and "map fst (AList.update a q xs) = map fst xs"
  using assms by (induction xs) (auto split: if_splits)

lemma set_update: "set (AList.update a q xs) \<subseteq> insert (a, q) (set xs)"
  by (induction xs) auto

lemma update_new: "a \<notin> fst ` set xs \<Longrightarrow> AList.update a q xs = xs @ [(a, q)]"
  by (induction xs) auto

lemma update_inv:
  assumes "legacy_inv n" and "map_of (lg_peers n) a = Some p" and "lp_address q = lp_address p"
  shows "legacy_inv (n\<lparr>lg_peers := AList.update a q (lg_peers n)\<rparr>)"
proof -
  have "lp_address p = a"
    using assms(1,2) by (auto simp: legacy_inv_def dest: map_of_SomeD)
  then show ?thesis
    using assms set_update [of a q "lg_peers n"] by (auto simp: legacy_inv_def update_existing [OF assms(2)])
qed

lemma connect_inv:
  assumes "legacy_inv n" and "connect_peer now a n = Inr n'"
  shows "legacy_inv n'"
proof -
  have a: "a \<notin> fst ` set (lg_peers n)" "length (lg_peers n) < lg_max_peers n"
    and n': "n' = n\<lparr>lg_peers := AList.update a ((legacy_peer_new now a)\<lparr>lp_connected := True\<rparr>) (lg_peers n)\<rparr>"
    using assms(2) by (auto simp: connect_peer_def map_of_eq_None_iff split: if_splits)
  have "AList.update a q (lg_peers n) = lg_peers n @ [(a, q)]" for q
    by (rule update_new [OF a(1)])
  then show ?thesis
    using assms(1) a by (auto simp: legacy_inv_def n' legacy_peer_new_def)
qed

lemma legacy_step_inv: "legacy_step n n' \<Longrightarrow> legacy_inv n \<Longrightarrow> legacy_inv n'"
proof (induction rule: legacy_step.induct)
  case (connect now a n n')
  then show ?case
    using connect_inv by blast
next
  case (disconnect a n n')
  then show ?case
    by (auto simp: disconnect_peer_def split: option.splits intro: update_inv)
next
  case (activity now a n)
  then show ?case
    by (auto simp: legacy_update_activity_def split: option.split intro: update_inv)
next
  case (prune now t n)
  then show ?case
    by (auto simp: legacy_inv_def prune_inactive_peers_def distinct_map_filter intro: le_trans [OF length_filter_le])
qed (auto simp: legacy_inv_def legacy_broadcast_def receive_message_def get_all_messages_def split: list.split)

lemma legacy_steps_inv: "legacy_step\<^sup>*\<^sup>* n n' \<Longrightarrow> legacy_inv n \<Longrightarrow> legacy_inv n'"
  by (induction rule: rtranclp_induct) (auto dest: legacy_step_inv)

fun receive_many :: "nat \<Rightarrow> p2p_network \<Rightarrow> legacy_message option list" where
  "receive_many 0 n = []"
| "receive_many (Suc k) n = (let (m, n') = receive_message n in m # receive_many k n')"

lemma receive_message_if:
  "receive_message n =
     (if received_messages n = [] then (None, n)
      else (Some (last (received_messages n)), n\<lparr>received_messages := butlast (received_messages n)\<rparr>))"
  by (simp add: receive_message_def split: list.split)

lemma receive_many_rev: "receive_many (length (received_messages n)) n = map Some (rev (received_messages n))"
proof (induction "received_messages n" arbitrary: n rule: rev_induct)
  case (snoc m ms)
  have "receive_message n = (Some m, n\<lparr>received_messages := ms\<rparr>)"
    by (simp add: receive_message_if snoc(2) [symmetric])
  then show ?case
    using snoc(1) [of "n\<lparr>received_messages := ms\<rparr>"] by (simp add: snoc(2) [symmetric])
qed simp

lemma broadcasts_queue:
  assumes "is_connected_to a n"
  shows "fold legacy_broadcast ms n = n\<lparr>received_messages := received_messages n @ ms\<rparr>"
  using assms
proof (induction ms arbitrary: n)
  case (Cons m ms)
  have "filter (\<lambda>(_, p). lp_connected p) (lg_peers n) \<noteq> []"
    using Cons.prems by (auto simp: is_connected_to_def filter_empty_conv split: option.splits dest: map_of_SomeD)
  then have "legacy_broadcast m n = n\<lparr>received_messages := received_messages n @ [m]\<rparr>"
    by (auto simp: legacy_broadcast_def)
  then show ?case
    using Cons.IH [of "n\<lparr>received_messages := received_messages n @ [m]\<rparr>"] Cons.prems
    by (simp add: is_connected_to_def)
qed simp

section \<open>Properties\<close>

text \<open>
  In every reachable state the peer table is within its maximum, with distinct addresses that agree with
  its entries. What a node broadcasts it receives itself, and in reverse order; a block is only
  announced with its hash.
\<close>

theorem legacy_broadcast_loops_back:
  assumes "legacy_step\<^sup>*\<^sup>* (p2p_network_new addr limit) n" and "received_messages n = []" and "is_connected_to a n"
  shows "length (lg_peers n) \<le> lg_max_peers n \<and> distinct (map fst (lg_peers n))
    \<and> receive_many (length ms) (fold legacy_broadcast ms n) = map Some (rev ms)
    \<and> fst (receive_message (legacy_broadcast_block b n)) = Some (LInventory (blk_hash b))"
proof -
  have "legacy_inv n"
    using legacy_steps_inv [OF assms(1)] by (simp add: legacy_inv_def p2p_network_new_def)
  moreover have "receive_many (length ms) (fold legacy_broadcast ms n) = map Some (rev ms)"
    using receive_many_rev [of "n\<lparr>received_messages := ms\<rparr>"] by (simp add: broadcasts_queue [OF assms(3)] assms(2))
  moreover have "legacy_broadcast_block b n = n\<lparr>received_messages := [LInventory (blk_hash b)]\<rparr>"
    using broadcasts_queue [OF assms(3), of "[LInventory (blk_hash b)]"] by (simp add: legacy_broadcast_block_def assms(2))
  ultimately show ?thesis
    by (simp add: legacy_inv_def receive_message_def)
qed

theorem legacy_broadcast_loops_back_witness:
  "receive_many 2 (fold legacy_broadcast [LPing, LPong] (projr (connect_peer 0 ''a'' (p2p_network_new ''l'' 3)))) =
     [Some LPong, Some LPing]"
proof -
  let ?n = "projr (connect_peer 0 ''a'' (p2p_network_new ''l'' 3))"
  have n: "connect_peer 0 ''a'' (p2p_network_new ''l'' 3) = Inr ?n" "received_messages ?n = []" "is_connected_to ''a'' ?n"
    by (simp_all add: connect_peer_def p2p_network_new_def legacy_peer_new_def is_connected_to_def)
  have "legacy_step\<^sup>*\<^sup>* (p2p_network_new ''l'' 3) ?n"
    by (rule r_into_rtranclp) (rule legacy_step.connect [OF n(1)])
  from legacy_broadcast_loops_back [OF this n(2,3), of "[LPing, LPong]"] show ?thesis
    by (simp add: numeral_eq_Suc)
qed

end
