(* ===== verification/Spam.thy ===== *)
theory Spam
  imports Sliding_Window Pre_Validation Pruning "HOL-Library.State_Monad"
begin

text \<open>
  Spam detection and the fuzzing harness: \<^verbatim>\<open>src/src/security/fuzz_testing.rs\<close>.

  An \<open>Instant\<close> is a number of nanoseconds, as in \<open>Dos\<close>; the difference of two instants saturates at
  zero. \<open>psize\<close> is \<open>size_of_val\<close> of a payload, the size of the enum without the vectors it owns: a
  number the compiler fixes. The body of the cleanup task's loop is the operation \<open>spam_cleanup\<close>.
  Doubles are rounded after every operation. The generator of random numbers is the record \<open>rng\<close>, and
  the functions that draw from it are in the state monad.
\<close>

section \<open>The detector\<close>

record spam_config =
  max_tps_per_ip :: u32
  burst_window_seconds :: u64
  burst_threshold :: u32
  similarity_threshold :: rat
  spam_cleanup_seconds :: u64

record transaction_pattern =
  pt_hash :: tx_id
  pt_amount :: u64
  pt_gas_price :: u64
  pt_payload_size :: nat
  pt_timestamp :: nat

record ip_activity =
  ac_transactions :: "nat list"
  ac_patterns :: "transaction_pattern list"
  burst_score :: rat
  ac_last_activity :: nat

record spam_stats =
  rate_limit_blocks :: u64
  burst_detections :: u64
  similarity_blocks :: u64
  total_checked :: u64

record 'ip spam_detector =
  spam_config_of :: spam_config
  ip_activities :: "('ip \<times> ip_activity) list"
  global_patterns :: "transaction_pattern list"
  spam_stats_of :: spam_stats

datatype spam_reason = RateLimitExceeded | BurstDetected | SimilarTransaction

datatype spam_result = Allowed | Blocked spam_reason

definition nanos :: "nat \<Rightarrow> nat" where
  "nanos s = s * 10 ^ 9"

definition no_spam_stats :: spam_stats where
  "no_spam_stats = \<lparr>rate_limit_blocks = 0, burst_detections = 0, similarity_blocks = 0, total_checked = 0\<rparr>"

definition spam_detector_new :: "spam_config \<Rightarrow> 'ip spam_detector" where
  "spam_detector_new config =
     \<lparr>spam_config_of = config, ip_activities = [], global_patterns = [], spam_stats_of = no_spam_stats\<rparr>"

text \<open>
  The part of the score for the gas price: a quotient by zero is infinite or not a number, and
  neither is below the bound.
\<close>

definition gas_similarity :: "u64 \<Rightarrow> u64 \<Rightarrow> rat option" where
  "gas_similarity a b =
     (if a = 0 then None
      else let gas_diff = fl (\<bar>fl (u64_to_f64 a - u64_to_f64 b)\<bar> / u64_to_f64 a) in
        if gas_diff < fl (1 / 10) then Some (max (fl (1 - fl (gas_diff * 10))) 0) else None)"

definition size_similarity :: "nat \<Rightarrow> nat \<Rightarrow> rat option" where
  "size_similarity a b =
     (if a = b then Some 1
      else if a > 0 \<and> b > 0 then
        (let len_diff = fl (\<bar>fl (fl (of_nat a) - fl (of_nat b))\<bar> / fl (of_nat (max a b))) in
         Some (max (fl (1 - len_diff)) 0))
      else None)"

definition add_score :: "rat option \<Rightarrow> rat \<Rightarrow> rat" where
  "add_score r score = (case r of None \<Rightarrow> score | Some x \<Rightarrow> fl (score + x))"

definition calculate_similarity :: "transaction_pattern \<Rightarrow> transaction_pattern \<Rightarrow> rat" where
  "calculate_similarity a b =
     (let score = add_score (if pt_amount a = pt_amount b then Some 1 else None) 0;
          score = add_score (gas_similarity (pt_gas_price a) (pt_gas_price b)) score;
          score = add_score (size_similarity (pt_payload_size a) (pt_payload_size b)) score
      in fl (score / 3))"

definition fresh_activity :: "nat \<Rightarrow> ip_activity" where
  "fresh_activity now = \<lparr>ac_transactions = [], ac_patterns = [], burst_score = 0, ac_last_activity = now\<rparr>"

definition pattern_of :: "(bytes \<Rightarrow> bytes) \<Rightarrow> nat \<Rightarrow> nat \<Rightarrow> transaction \<Rightarrow> transaction_pattern" where
  "pattern_of sha psize now tx =
     \<lparr>pt_hash = tx_hash sha tx, pt_amount = (case payload tx of Transfer _ amount \<Rightarrow> amount | _ \<Rightarrow> 0),
      pt_gas_price = gas_price tx, pt_payload_size = psize, pt_timestamp = now\<rparr>"

definition put_activity :: "'ip \<Rightarrow> ip_activity \<Rightarrow> 'ip spam_detector \<Rightarrow> 'ip spam_detector" where
  "put_activity ip a D = D\<lparr>ip_activities := AList.update ip a (ip_activities D)\<rparr>"

definition check_spam ::
  "(bytes \<Rightarrow> bytes) \<Rightarrow> nat \<Rightarrow> nat \<Rightarrow> transaction \<Rightarrow> 'ip \<Rightarrow> 'ip spam_detector \<Rightarrow> spam_result \<times> 'ip spam_detector" where
  "check_spam sha psize now tx ip D =
     (let config = spam_config_of D;
          a = (case map_of (ip_activities D) ip of None \<Rightarrow> fresh_activity now | Some a \<Rightarrow> a);
          a = a\<lparr>ac_transactions := filter (\<lambda>time. now - time < nanos 60) (ac_transactions a)\<rparr>;
          stats = spam_stats_of D in
      if length (ac_transactions a) \<ge> unat (max_tps_per_ip config)
      then (Blocked RateLimitExceeded,
        put_activity ip a (D\<lparr>spam_stats_of := stats\<lparr>rate_limit_blocks := rate_limit_blocks stats + 1\<rparr>\<rparr>))
      else
        let recent_count =
              length (filter (\<lambda>time. now - time < nanos (unat (burst_window_seconds config))) (ac_transactions a));
            burst = recent_count \<ge> unat (burst_threshold config);
            a = (if burst then a\<lparr>burst_score := fl (burst_score a + 1)\<rparr> else a);
            stats = (if burst then stats\<lparr>burst_detections := burst_detections stats + 1\<rparr> else stats) in
        if burst \<and> burst_score a > 3 then (Blocked BurstDetected, put_activity ip a (D\<lparr>spam_stats_of := stats\<rparr>))
        else
          let tx_pattern = pattern_of sha psize now tx in
          if \<exists>p \<in> set (ac_patterns a). calculate_similarity tx_pattern p > similarity_threshold config
          then (Blocked SimilarTransaction,
            put_activity ip a (D\<lparr>spam_stats_of := stats\<lparr>similarity_blocks := similarity_blocks stats + 1\<rparr>\<rparr>))
          else
            let patterns = ac_patterns a @ [tx_pattern];
                patterns = (if length patterns > 100 then tl patterns else patterns) in
            (Allowed,
             put_activity ip (a\<lparr>ac_transactions := ac_transactions a @ [now], ac_patterns := patterns, ac_last_activity := now\<rparr>)
               (D\<lparr>spam_stats_of := stats\<rparr>)))"

definition spam_get_stats :: "'ip spam_detector \<Rightarrow> spam_stats" where
  "spam_get_stats D = spam_stats_of D"

definition spam_reset_stats :: "'ip spam_detector \<Rightarrow> 'ip spam_detector" where
  "spam_reset_stats D = D\<lparr>spam_stats_of := no_spam_stats\<rparr>"

definition spam_cleanup :: "nat \<Rightarrow> 'ip spam_detector \<Rightarrow> 'ip spam_detector" where
  "spam_cleanup now D =
     D\<lparr>ip_activities := filter (\<lambda>(_, a). now - ac_last_activity a < nanos 600) (ip_activities D),
       global_patterns := filter (\<lambda>p. now - pt_timestamp p < nanos 3600) (global_patterns D)\<rparr>"

section \<open>The fuzzing harness\<close>

record 'g rng =
  gen_byte :: "('g, u8) state"
  gen_u64 :: "('g, u64) state"
  gen_range :: "nat \<Rightarrow> nat \<Rightarrow> ('g, nat) state"
  gen_bool :: "rat \<Rightarrow> ('g, bool) state"

text \<open>What the documentation promises: a number drawn from a range is in the range.\<close>

definition rng_ok :: "'g rng \<Rightarrow> bool" where
  "rng_ok R \<longleftrightarrow> (\<forall>lo hi. lo < hi \<longrightarrow> pred_state (\<lambda>n. lo \<le> n \<and> n < hi) (gen_range R lo hi))"

record fuzz_config =
  fz_iterations :: u32
  fz_max_tx_size :: nat
  fz_seed :: u64

record 'g fuzz_tester =
  ft_config :: fuzz_config
  ft_validator :: pre_validator
  ft_rng :: 'g

datatype edge_case = ZeroAmount | MaxAmount | ZeroGas | MaxGas | ToSelf | LargeCode

record fuzz_results =
  pre_validation_tests :: u32
  pre_validation_failures :: u32
  gas_estimation_tests :: u32
  edge_cases_found :: "edge_case list"
  last_failure :: "(nat \<times> validation_error list) option"

datatype dos_attack_type = SpamBurst | LargeTransactions | InvalidSignatures

record dos_simulation_result =
  ds_attack_type :: dos_attack_type
  transactions_generated :: u32
  detection_rate :: rat
  avg_processing_time :: nat

definition fuzz_tester_new :: "(u64 \<Rightarrow> 'g) \<Rightarrow> fuzz_config \<Rightarrow> pre_validator \<Rightarrow> 'g fuzz_tester" where
  "fuzz_tester_new seed_from config v = \<lparr>ft_config = config, ft_validator = v, ft_rng = seed_from (fz_seed config)\<rparr>"

text \<open>An array and a vector: one draw for every byte.\<close>

fun gen_bytes :: "'g rng \<Rightarrow> nat \<Rightarrow> ('g, bytes) state" where
  "gen_bytes R 0 = State_Monad.return []"
| "gen_bytes R (Suc n) = do { b \<leftarrow> gen_byte R; bs \<leftarrow> gen_bytes R n; State_Monad.return (b # bs) }"

text \<open>The choice of a number: 0, the maximum, or one of a range.\<close>

definition gen_extreme :: "'g rng \<Rightarrow> nat \<Rightarrow> nat \<Rightarrow> ('g, u64) state" where
  "gen_extreme R lo hi = do {
     c \<leftarrow> gen_range R 0 10;
     if c = 0 then State_Monad.return 0
     else if c = 1 then State_Monad.return (- 1)
     else do { n \<leftarrow> gen_range R lo hi; State_Monad.return (of_nat n) }
   }"

definition gen_payload :: "'g rng \<Rightarrow> address \<Rightarrow> u64 \<Rightarrow> ('g, tx_payload) state" where
  "gen_payload R to amount = do {
     c \<leftarrow> gen_range R 0 3;
     if c = 0 then State_Monad.return (Transfer to amount)
     else if c = 1 then do {
       n \<leftarrow> gen_range R 100 1000; code \<leftarrow> gen_bytes R n;
       m \<leftarrow> gen_range R 0 100; init_args \<leftarrow> gen_bytes R m;
       State_Monad.return (ContractDeploy code init_args)
     }
     else do {
       k \<leftarrow> gen_range R 0 100;
       n \<leftarrow> gen_range R 0 200; args \<leftarrow> gen_bytes R n;
       State_Monad.return (ContractCall to (map (of_nat \<circ> of_char) ''method_'' @ decimal k) args)
     }
   }"

definition generate_fuzzed_transaction :: "'g rng \<Rightarrow> ('g, transaction) state" where
  "generate_fuzzed_transaction R = do {
     sender \<leftarrow> gen_bytes R 20;
     to \<leftarrow> gen_bytes R 20;
     amount \<leftarrow> gen_extreme R 1 1000000;
     limit \<leftarrow> gen_extreme R 21000 8000000;
     price \<leftarrow> gen_extreme R 1000000000 100000000000;
     pl \<leftarrow> gen_payload R to amount;
     nonce \<leftarrow> gen_u64 R;
     let tx = \<lparr>tx_from = sender, payload = pl, tx_nonce = nonce, gas_limit = limit, gas_price = price,
       tx_signature = empty_signature\<rparr>;
     c \<leftarrow> gen_bool R (fl (1 / 10));
     State_Monad.return (if c then tx\<lparr>tx_signature := empty_signature\<rparr> else tx)
   }"

definition detect_edge_case :: "transaction \<Rightarrow> edge_case option" where
  "detect_edge_case tx =
     (let (amount, to) = (case payload tx of
            Transfer to amount \<Rightarrow> (amount, to)
          | ContractDeploy _ _ \<Rightarrow> (0, replicate 20 0)
          | ContractCall contract _ _ \<Rightarrow> (0, contract));
          transfer = (case payload tx of Transfer _ _ \<Rightarrow> True | _ \<Rightarrow> False) in
      if amount = 0 \<and> transfer then Some ZeroAmount
      else if amount = - 1 then Some MaxAmount
      else if gas_limit tx = 0 then Some ZeroGas
      else if gas_limit tx = - 1 then Some MaxGas
      else if tx_from tx = to \<and> transfer then Some ToSelf
      else case payload tx of
        ContractDeploy code _ \<Rightarrow> if length code > 100 * 1024 then Some LargeCode else None
      | _ \<Rightarrow> None)"

definition no_fuzz_results :: fuzz_results where
  "no_fuzz_results = \<lparr>pre_validation_tests = 0, pre_validation_failures = 0, gas_estimation_tests = 0,
     edge_cases_found = [], last_failure = None\<rparr>"

text \<open>The body of the loop for the \<open>i\<close>-th transaction. The gas estimate is computed and dropped.\<close>

definition fuzz_one ::
  "(bytes \<Rightarrow> bytes) \<Rightarrow> nat \<Rightarrow> pre_validator \<Rightarrow> nat \<Rightarrow> transaction \<Rightarrow> fuzz_results \<Rightarrow> fuzz_results" where
  "fuzz_one sha tx_size v i tx r =
     (let pre_result = pre_validate_transaction sha tx_size tx v;
          r = r\<lparr>pre_validation_tests := pre_validation_tests r + 1\<rparr>;
          r = (if \<not> is_valid pre_result
            then r\<lparr>pre_validation_failures := pre_validation_failures r + 1, last_failure := Some (i, pv_errors pre_result)\<rparr>
            else r);
          _ = estimate_gas_usage tx;
          r = r\<lparr>gas_estimation_tests := gas_estimation_tests r + 1\<rparr> in
      case detect_edge_case tx of
        None \<Rightarrow> r
      | Some e \<Rightarrow> r\<lparr>edge_cases_found := edge_cases_found r @ [e]\<rparr>)"

fun fuzz_loop ::
  "(bytes \<Rightarrow> bytes) \<Rightarrow> nat \<Rightarrow> 'g rng \<Rightarrow> pre_validator \<Rightarrow> nat list \<Rightarrow> fuzz_results \<Rightarrow> ('g, fuzz_results) state" where
  "fuzz_loop sha tx_size R v [] r = State_Monad.return r"
| "fuzz_loop sha tx_size R v (i # is) r = do {
     tx \<leftarrow> generate_fuzzed_transaction R;
     fuzz_loop sha tx_size R v is (fuzz_one sha tx_size v i tx r)
   }"

definition fuzz_transaction_validation ::
  "(bytes \<Rightarrow> bytes) \<Rightarrow> nat \<Rightarrow> 'g rng \<Rightarrow> 'g fuzz_tester \<Rightarrow> fuzz_results \<times> 'g fuzz_tester" where
  "fuzz_transaction_validation sha tx_size R ft =
     apsnd (\<lambda>g. ft\<lparr>ft_rng := g\<rparr>)
       (run_state (fuzz_loop sha tx_size R (ft_validator ft) [0..<unat (fz_iterations (ft_config ft))] no_fuzz_results) (ft_rng ft))"

definition generate_burst_transaction :: "'g rng \<Rightarrow> ('g, transaction) state" where
  "generate_burst_transaction R = do {
     sender \<leftarrow> gen_bytes R 20; to \<leftarrow> gen_bytes R 20;
     State_Monad.return (new_transfer sender to 1000 0 21000 1000000000)
   }"

definition generate_large_transaction :: "'g rng \<Rightarrow> ('g, transaction) state" where
  "generate_large_transaction R = do {
     sender \<leftarrow> gen_bytes R 20; _ \<leftarrow> gen_bytes R 20; code \<leftarrow> gen_bytes R (50 * 1024);
     State_Monad.return (new_deploy sender code [] 0 50000 1000000000)
   }"

definition generate_invalid_signature_transaction :: "'g rng \<Rightarrow> ('g, transaction) state" where
  "generate_invalid_signature_transaction R = do {
     sender \<leftarrow> gen_bytes R 20; to \<leftarrow> gen_bytes R 20;
     State_Monad.return (new_transfer sender to 1000 0 21000 1000000000)
   }"

text \<open>The loops of a simulation: every result of the validation is dropped, the transactions are counted.\<close>

fun attack_loop ::
  "(bytes \<Rightarrow> bytes) \<Rightarrow> nat \<Rightarrow> pre_validator \<Rightarrow> ('g, transaction) state \<Rightarrow> nat \<Rightarrow> u32 \<Rightarrow> ('g, u32) state" where
  "attack_loop sha tx_size v gen 0 made = State_Monad.return made"
| "attack_loop sha tx_size v gen (Suc n) made = do {
     tx \<leftarrow> gen;
     let _ = pre_validate_transaction sha tx_size tx v;
     attack_loop sha tx_size v gen n (made + 1)
   }"

definition attack :: "'g rng \<Rightarrow> dos_attack_type \<Rightarrow> ('g, transaction) state \<times> nat" where
  "attack R kind =
     (case kind of
        SpamBurst \<Rightarrow> (generate_burst_transaction R, 1000)
      | LargeTransactions \<Rightarrow> (generate_large_transaction R, 100)
      | InvalidSignatures \<Rightarrow> (generate_invalid_signature_transaction R, 500))"

definition simulate_dos_attack ::
  "(bytes \<Rightarrow> bytes) \<Rightarrow> nat \<Rightarrow> 'g rng \<Rightarrow> nat \<Rightarrow> dos_attack_type \<Rightarrow> 'g fuzz_tester \<Rightarrow> dos_simulation_result \<times> 'g fuzz_tester" where
  "simulate_dos_attack sha tx_size R elapsed kind ft =
     (let (made, g) =
        run_state (attack_loop sha tx_size (ft_validator ft) (fst (attack R kind)) (snd (attack R kind)) 0) (ft_rng ft) in
      (\<lparr>ds_attack_type = kind, transactions_generated = made, detection_rate = fl (95 / 100),
        avg_processing_time = elapsed div unat (max made 1)\<rparr>, ft\<lparr>ft_rng := g\<rparr>))"

section \<open>Sequences of operations\<close>

datatype 'ip spam_op = Check transaction 'ip | Tidy | ResetStats

fun spam_step :: "(bytes \<Rightarrow> bytes) \<Rightarrow> nat \<Rightarrow> nat \<Rightarrow> 'ip spam_op \<Rightarrow> 'ip spam_detector \<Rightarrow> 'ip spam_detector" where
  "spam_step sha psize now (Check tx ip) D = snd (check_spam sha psize now tx ip D)"
| "spam_step sha psize now Tidy D = spam_cleanup now D"
| "spam_step sha psize now ResetStats D = spam_reset_stats D"

text \<open>Whether an operation is a transaction of the address that is let through.\<close>

definition passes :: "(bytes \<Rightarrow> bytes) \<Rightarrow> nat \<Rightarrow> 'ip \<Rightarrow> nat \<Rightarrow> 'ip spam_op \<Rightarrow> 'ip spam_detector \<Rightarrow> bool" where
  "passes sha psize ip now op D \<longleftrightarrow>
     (case op of Check tx x \<Rightarrow> x = ip \<and> fst (check_spam sha psize now tx ip D) = Allowed | _ \<Rightarrow> False)"

definition spam_times :: "'ip \<Rightarrow> 'ip spam_detector \<Rightarrow> nat list" where
  "spam_times ip D = (case map_of (ip_activities D) ip of None \<Rightarrow> [] | Some a \<Rightarrow> ac_transactions a)"

definition spam_patterns :: "'ip \<Rightarrow> 'ip spam_detector \<Rightarrow> transaction_pattern list" where
  "spam_patterns ip D = (case map_of (ip_activities D) ip of None \<Rightarrow> [] | Some a \<Rightarrow> ac_patterns a)"

definition spam_inv :: "nat \<Rightarrow> 'ip spam_detector \<Rightarrow> bool" where
  "spam_inv now D \<longleftrightarrow> hm_inv (ip_activities D) \<and>
     (\<forall>ip a. map_of (ip_activities D) ip = Some a \<longrightarrow>
        (\<forall>t \<in> set (ac_transactions a). t \<le> ac_last_activity a) \<and> ac_last_activity a \<le> now \<and> length (ac_patterns a) \<le> 100)"

text \<open>The queue of the last hundred patterns.\<close>

definition push_pattern :: "transaction_pattern list \<Rightarrow> transaction_pattern \<Rightarrow> transaction_pattern list" where
  "push_pattern ps p = (let ps = ps @ [p] in if length ps > 100 then tl ps else ps)"

text \<open>What a check does to the entry of its address, and to no other.\<close>

definition last_seen :: "nat \<Rightarrow> 'ip \<Rightarrow> 'ip spam_detector \<Rightarrow> nat" where
  "last_seen now ip D = (case map_of (ip_activities D) ip of None \<Rightarrow> now | Some a \<Rightarrow> ac_last_activity a)"

definition updated ::
  "spam_result \<Rightarrow> nat \<Rightarrow> transaction_pattern \<Rightarrow> 'ip \<Rightarrow> 'ip spam_detector \<Rightarrow> ip_activity \<Rightarrow> bool" where
  "updated r now p ip D a \<longleftrightarrow>
     ac_transactions a = filter (\<lambda>t. now - t < nanos 60) (spam_times ip D) @ (if r = Allowed then [now] else [])
     \<and> ac_patterns a = (if r = Allowed then push_pattern (spam_patterns ip D) p else spam_patterns ip D)
     \<and> ac_last_activity a = (if r = Allowed then now else last_seen now ip D)"

lemma check_spam_lookup:
  "\<exists>a. map_of (ip_activities (snd (check_spam sha psize now tx ip D))) = (map_of (ip_activities D))(ip \<mapsto> a)
     \<and> updated (fst (check_spam sha psize now tx ip D)) now (pattern_of sha psize now tx) ip D a"
  by (cases "map_of (ip_activities D) ip")
    (auto simp: check_spam_def Let_def put_activity_def map_of_hm_update spam_times_def spam_patterns_def
      push_pattern_def fresh_activity_def last_seen_def updated_def)

lemma check_spam_config [simp]: "spam_config_of (snd (check_spam sha psize now tx ip D)) = spam_config_of D"
  by (simp add: check_spam_def Let_def put_activity_def)

lemma check_spam_allowed:
  assumes "fst (check_spam sha psize now tx ip D) = Allowed"
  shows "length (filter (\<lambda>t. now - t < nanos 60) (spam_times ip D)) < unat (max_tps_per_ip (spam_config_of D))"
    and "p \<in> set (spam_patterns ip D) \<Longrightarrow>
      calculate_similarity (pattern_of sha psize now tx) p \<le> similarity_threshold (spam_config_of D)"
  using assms by (auto simp: check_spam_def Let_def spam_times_def spam_patterns_def fresh_activity_def not_le not_less
      split: option.splits if_splits)

lemma check_spam_keys: "hm_inv (ip_activities D) \<Longrightarrow> hm_inv (ip_activities (snd (check_spam sha psize now tx ip D)))"
  by (auto simp: check_spam_def Let_def put_activity_def hm_inv_update)

lemma length_push_pattern: "length ps \<le> 100 \<Longrightarrow> length (push_pattern ps p) \<le> 100"
  by (auto simp: push_pattern_def Let_def)

lemma check_spam_inv:
  assumes "spam_inv now D"
  shows "spam_inv now (snd (check_spam sha psize now tx ip D))"
proof -
  let ?r = "check_spam sha psize now tx ip D"
  obtain a where l: "map_of (ip_activities (snd ?r)) = (map_of (ip_activities D))(ip \<mapsto> a)"
    and a: "updated (fst ?r) now (pattern_of sha psize now tx) ip D a"
    using check_spam_lookup [of sha psize now tx ip D] by metis
  have old: "\<forall>t \<in> set (spam_times ip D). t \<le> last_seen now ip D" "last_seen now ip D \<le> now"
    "length (spam_patterns ip D) \<le> 100"
    using assms by (auto simp: spam_inv_def spam_times_def spam_patterns_def last_seen_def split: option.split)
  have "(\<forall>t \<in> set (ac_transactions a). t \<le> ac_last_activity a) \<and> ac_last_activity a \<le> now \<and> length (ac_patterns a) \<le> 100"
    using a old length_push_pattern [OF old(3)] by (fastforce simp: updated_def)
  then show ?thesis
    using assms check_spam_keys [of D] by (simp add: spam_inv_def l)
qed

lemma map_of_filter_entries:
  "distinct (map fst xs) \<Longrightarrow>
   map_of (filter (\<lambda>(_, a). P a) xs) k = (case map_of xs k of None \<Rightarrow> None | Some a \<Rightarrow> if P a then Some a else None)"
proof (induction xs)
  case (Cons x xs)
  then have "fst x \<notin> fst ` set (filter (\<lambda>(_, a). P a) xs)"
    by auto
  with Cons show ?case
    by (cases x) (auto simp: map_of_eq_None_iff split: option.splits)
qed simp

lemma cleanup_lookup:
  assumes "hm_inv (ip_activities D)"
  shows "map_of (ip_activities (spam_cleanup now D)) ip =
    (case map_of (ip_activities D) ip of
       None \<Rightarrow> None
     | Some a \<Rightarrow> if now - ac_last_activity a < nanos 600 then Some a else None)"
  using assms by (simp add: spam_cleanup_def hm_inv_def map_of_filter_entries)

lemma cleanup_inv:
  assumes "spam_inv now D"
  shows "spam_inv now (spam_cleanup now D)"
proof -
  have h: "hm_inv (ip_activities D)"
    using assms by (simp add: spam_inv_def)
  then have "hm_inv (ip_activities (spam_cleanup now D))"
    by (simp add: spam_cleanup_def hm_inv_def distinct_map_filter)
  then show ?thesis
    using assms by (auto simp: spam_inv_def cleanup_lookup [OF h] split: option.splits if_splits)
qed

text \<open>The times that the cleanup forgets are out of the window.\<close>

lemma cleanup_times:
  assumes "spam_inv now D"
  shows "filter (\<lambda>t. now - t < nanos 60) (spam_times ip (spam_cleanup now D)) = filter (\<lambda>t. now - t < nanos 60) (spam_times ip D)"
proof (cases "map_of (ip_activities D) ip")
  case (Some a)
  have h: "hm_inv (ip_activities D)" and t: "\<forall>t \<in> set (ac_transactions a). t \<le> ac_last_activity a"
    using assms Some by (auto simp: spam_inv_def)
  have "filter (\<lambda>t. now - t < nanos 60) (ac_transactions a) = []" if "\<not> now - ac_last_activity a < nanos 600"
    using that t by (auto simp: filter_empty_conv nanos_def)
  with Some show ?thesis
    by (simp add: spam_times_def cleanup_lookup [OF h])
qed (use assms in \<open>simp add: spam_times_def spam_inv_def cleanup_lookup\<close>)

lemma spam_step_inv: "spam_inv now D \<Longrightarrow> spam_inv now (spam_step sha psize now op D)"
  by (cases op) (simp_all add: check_spam_inv cleanup_inv, simp add: spam_reset_stats_def spam_inv_def)

lemma spam_step_config [simp]: "spam_config_of (spam_step sha psize now op D) = spam_config_of D"
  by (cases op) (simp_all add: spam_cleanup_def spam_reset_stats_def)


lemma spam_new_inv: "spam_inv now (spam_detector_new config)"
  by (simp add: spam_inv_def spam_detector_new_def)

section \<open>The rate of transactions\<close>

lemma spam_times_check:
  "filter (\<lambda>t. now - t < nanos 60) (spam_times x (snd (check_spam sha psize now tx ip D))) =
     filter (\<lambda>t. now - t < nanos 60) (spam_times x D)
     @ (if x = ip \<and> fst (check_spam sha psize now tx ip D) = Allowed then [now] else [])"
proof -
  have "0 < nanos 60"
    by (simp add: nanos_def)
  then show ?thesis
    using check_spam_lookup [of sha psize now tx ip D]
    by (cases "x = ip") (auto simp: spam_times_def updated_def)
qed

interpretation spam: sliding_window "nanos 60" "spam_times ip" "passes sha psize ip" "spam_step sha psize"
  "\<lambda>D. unat (max_tps_per_ip (spam_config_of D))" spam_inv "\<lambda>_ _ _. True"
proof
  fix t now and D :: "'a spam_detector"
  show "spam_inv t D \<Longrightarrow> t \<le> now \<Longrightarrow> spam_inv now D"
    by (force simp: spam_inv_def)
next
  fix now op and D :: "'a spam_detector"
  show "spam_inv now D \<Longrightarrow> spam_inv now (spam_step sha psize now op D)"
    by (rule spam_step_inv)
  show "unat (max_tps_per_ip (spam_config_of (spam_step sha psize now op D))) = unat (max_tps_per_ip (spam_config_of D))"
    by simp
  assume p: "passes sha psize ip now op D"
  then show "length (filter (\<lambda>t. now - t < nanos 60) (spam_times ip D)) < unat (max_tps_per_ip (spam_config_of D))"
    by (auto simp: passes_def check_spam_allowed(1) split: spam_op.splits)
  from p show "filter (\<lambda>t. now - t < nanos 60) (spam_times ip (spam_step sha psize now op D)) =
      filter (\<lambda>t. now - t < nanos 60) (spam_times ip D) @ [now]"
    by (auto simp: passes_def spam_times_check split: spam_op.splits)
next
  fix now op and D :: "'a spam_detector"
  assume "spam_inv now D" and "\<not> passes sha psize ip now op D"
  then show "filter (\<lambda>t. now - t < nanos 60) (spam_times ip (spam_step sha psize now op D)) =
      filter (\<lambda>t. now - t < nanos 60) (spam_times ip D)"
    by (cases op) (auto simp: passes_def spam_times_check cleanup_times, simp add: spam_reset_stats_def spam_times_def)
qed


section \<open>Repeated transactions\<close>




lemma add_score_le: "score \<le> of_int n \<Longrightarrow> \<bar>n\<bar> < 2 ^ 52 \<Longrightarrow> (\<And>x. r = Some x \<Longrightarrow> x \<le> 1) \<Longrightarrow> add_score r score \<le> of_int (n + 1)"
  by (cases r) (auto simp: add_score_def intro!: f64.rnd_le_int [of "n + 1", simplified] add_mono)

lemma fl_complement_le: "0 \<le> x \<Longrightarrow> max (fl (1 - x)) 0 \<le> 1"
  using f64.rnd_le_int [of 1 "1 - x"] by simp

lemma similarity_le_1: "calculate_similarity a b \<le> 1"
proof -
  have nonneg: "0 \<le> fl (\<bar>x\<bar> / y)" if "0 \<le> y" for x y
    using that by (intro f64.rnd_nonneg) simp
  have u: "0 \<le> u64_to_f64 x" for x
    unfolding u64_to_f64_def by (rule f64.rnd_nonneg [OF of_nat_0_le_iff])
  have g: "x \<le> 1" if "gas_similarity c d = Some x" for c d x
  proof -
    have "0 \<le> fl (fl (\<bar>fl (u64_to_f64 c - u64_to_f64 d)\<bar> / u64_to_f64 c) * 10)"
      by (intro f64.rnd_nonneg mult_nonneg_nonneg nonneg u) simp
    with that fl_complement_le show ?thesis
      by (auto simp: gas_similarity_def Let_def split: if_splits)
  qed
  have s: "x \<le> 1" if "size_similarity c d = Some x" for c d x
    using that fl_complement_le [OF nonneg [of "fl (of_nat (max c d))" "fl (fl (of_nat c) - fl (of_nat d))"]]
    by (auto simp: size_similarity_def Let_def f64.rnd_nonneg split: if_splits)
  let ?s0 = "add_score (if pt_amount a = pt_amount b then Some 1 else None) 0"
  let ?s1 = "add_score (gas_similarity (pt_gas_price a) (pt_gas_price b)) ?s0"
  let ?s2 = "add_score (size_similarity (pt_payload_size a) (pt_payload_size b)) ?s1"
  have "?s0 \<le> of_int (0 + 1)"
    by (rule add_score_le) (auto split: if_splits)
  then have "?s1 \<le> of_int (0 + 1 + 1)"
    by (rule add_score_le) (auto dest: g)
  then have "?s2 \<le> of_int (0 + 1 + 1 + 1)"
    by (rule add_score_le) (auto dest: s)
  then show ?thesis
    using f64.rnd_le_int [of 1 "?s2 / 3"] by (simp add: calculate_similarity_def Let_def)
qed








section \<open>Fuzzing\<close>

lemma length_gen_bytes: "length (fst (run_state (gen_bytes R n) g)) = n"
  by (induction n arbitrary: g) (simp_all add: case_prod_beta)

lemma generated_unsigned: "tx_signature (fst (run_state (generate_fuzzed_transaction R) g)) = empty_signature"
  by (simp add: generate_fuzzed_transaction_def case_prod_beta Let_def)

lemma gen_range_in: "rng_ok R \<Longrightarrow> lo < hi \<Longrightarrow> fst (run_state (gen_range R lo hi) g) < hi"
  unfolding rng_ok_def by (drule spec, drule spec, drule (1) mp, drule pred_state_run_state) (erule conjunct2)

lemma payload_code_short:
  assumes "rng_ok R" and "fst (run_state (gen_payload R to n) g) = ContractDeploy code args"
  shows "length code < 1000"
  using assms by (auto simp: gen_payload_def case_prod_beta length_gen_bytes gen_range_in split: if_splits)

lemma generated_code_short:
  assumes "rng_ok R" and "payload (fst (run_state (generate_fuzzed_transaction R) g)) = ContractDeploy code args"
  shows "length code < 1000"
  using assms(2) payload_code_short [OF assms(1)]
  by (simp add: generate_fuzzed_transaction_def case_prod_beta Let_def split: if_splits)

lemma large_code_edge: "detect_edge_case tx = Some LargeCode \<Longrightarrow> \<exists>code args. payload tx = ContractDeploy code args \<and> 1000 < length code"
  by (auto simp: detect_edge_case_def Let_def split: if_splits tx_payload.splits)

lemma unsigned_refused:
  assumes "tx_signature tx = empty_signature"
  shows "\<not> is_valid (pre_validate_transaction sha n tx v)"
    and "VInvalidSignature \<in> set (pv_errors (pre_validate_transaction sha n tx v))"
  using assms by (auto simp: pre_validate_transaction_def pv_validate_signature_def empty_signature_def push_error_def Let_def
      split: sum.splits)

text \<open>What the loop adds to the results when every transaction is unsigned.\<close>

lemma fuzz_one_refused:
  assumes "tx_signature tx = empty_signature"
  shows "pre_validation_tests (fuzz_one sha n v i tx r) = pre_validation_tests r + 1"
    and "pre_validation_failures (fuzz_one sha n v i tx r) = pre_validation_failures r + 1"
    and "gas_estimation_tests (fuzz_one sha n v i tx r) = gas_estimation_tests r + 1"
    and "edge_cases_found (fuzz_one sha n v i tx r) =
      edge_cases_found r @ (case detect_edge_case tx of None \<Rightarrow> [] | Some e \<Rightarrow> [e])"
    and "\<exists>es. last_failure (fuzz_one sha n v i tx r) = Some (i, es) \<and> VInvalidSignature \<in> set es"
  using unsigned_refused [OF assms] by (auto simp: fuzz_one_def Let_def split: option.split)

definition edges_ok :: "'g rng \<Rightarrow> edge_case list \<Rightarrow> bool" where
  "edges_ok R es \<longleftrightarrow> (rng_ok R \<longrightarrow> LargeCode \<notin> set es)"

lemma fuzz_loop_refused:
  fixes r :: fuzz_results and g :: 'g
  assumes "edges_ok R (edge_cases_found r)"
  shows "pre_validation_tests (fst (run_state (fuzz_loop sha n R v is r) g)) = pre_validation_tests r + of_nat (length is)
    \<and> pre_validation_failures (fst (run_state (fuzz_loop sha n R v is r) g)) = pre_validation_failures r + of_nat (length is)
    \<and> gas_estimation_tests (fst (run_state (fuzz_loop sha n R v is r) g)) = gas_estimation_tests r + of_nat (length is)
    \<and> length (edge_cases_found (fst (run_state (fuzz_loop sha n R v is r) g))) \<le> length (edge_cases_found r) + length is
    \<and> edges_ok R (edge_cases_found (fst (run_state (fuzz_loop sha n R v is r) g)))
    \<and> (is \<noteq> [] \<longrightarrow> (\<exists>es. last_failure (fst (run_state (fuzz_loop sha n R v is r) g)) = Some (last is, es) \<and> VInvalidSignature \<in> set es))"
  using assms
proof (induction "is" arbitrary: r g)
  case (Cons i "is")
  obtain tx g' where gen: "run_state (generate_fuzzed_transaction R) g = (tx, g')"
    by fastforce
  then have sig: "tx_signature tx = empty_signature"
    using generated_unsigned [of R g] by simp
  note one = fuzz_one_refused [OF sig, of sha n v i r]
  have "edges_ok R (edge_cases_found (fuzz_one sha n v i tx r))"
    using Cons.prems large_code_edge [of tx] generated_code_short [of R g] gen
    by (fastforce simp: one edges_ok_def split: option.splits)
  note IH = Cons.IH [OF this, of g', unfolded one(1-4)]
  have len: "length (edge_cases_found r @ (case detect_edge_case tx of None \<Rightarrow> [] | Some e \<Rightarrow> [e])) \<le> length (edge_cases_found r) + 1"
    by (simp split: option.split)
  show ?case
    using IH len one(5) by (cases "is") (auto simp: gen ac_simps)
qed simp

section \<open>Properties\<close>

text \<open>
  C38. No more transactions of one address pass within any sixty seconds than the limit, whatever the
  order of checks, cleanups and resets at non-decreasing times: what the cleanup forgets is out of
  the window. The limit is meant as a number per second.
\<close>

theorem spam_rate_limited:
  assumes "sorted (map fst ops)"
  shows "length (filter (\<lambda>a. t \<le> a \<and> a < t + nanos 60)
      (accepted_times (passes sha psize ip) (spam_step sha psize) ops (spam_detector_new config)))
    \<le> unat (max_tps_per_ip config)"
  using spam.rate_limited [OF spam_new_inv _ assms legal_run_always, of ip config t sha psize]
  by (simp add: spam_times_def spam_detector_new_def)

definition sample_spam_config :: spam_config where
  "sample_spam_config = \<lparr>max_tps_per_ip = 10, burst_window_seconds = 1, burst_threshold = 5, similarity_threshold = 4 / 5,
     spam_cleanup_seconds = 60\<rparr>"

theorem spam_rate_limited_witness:
  "length (filter (\<lambda>a. 2 \<le> a \<and> a < 2 + nanos 60)
     (accepted_times (passes ones_sha 56 (1 :: nat)) (spam_step ones_sha 56)
       [(5, Check default_transfer 1), (6, Tidy), (7, Check default_transfer 1)] (spam_detector_new sample_spam_config))) \<le> 10"
  using spam_rate_limited [of "[(5, Check default_transfer 1), (6, Tidy), (7, Check default_transfer (1 :: nat))]" 2
      ones_sha 56 1 sample_spam_config]
  by (simp add: sample_spam_config_def)



theorem threshold_one_disables_similarity:
  assumes "1 \<le> similarity_threshold (spam_config_of D)"
  shows "fst (check_spam sha psize now tx ip D) \<noteq> Blocked SimilarTransaction"
proof -
  have "\<not> similarity_threshold (spam_config_of D) < calculate_similarity p q" for p q
    using assms similarity_le_1 [of p q] by linarith
  then show ?thesis
    by (auto simp: check_spam_def Let_def)
qed

text \<open>
  Fuzzing exercises only refusals: the transactions it generates are never signed, so whatever the
  validator and the generator, every single one fails pre-validation, and the signature is among
  the errors of the last one. The edge case of large code is never met, since the generated code
  is below a thousand bytes.
\<close>

theorem fuzzing_only_meets_refusals:
  assumes "rng_ok R" and "fuzz_transaction_validation sha tx_size R ft = (r, ft')"
  shows "pre_validation_tests r = fz_iterations (ft_config ft) \<and> pre_validation_failures r = pre_validation_tests r
    \<and> gas_estimation_tests r = pre_validation_tests r
    \<and> length (edge_cases_found r) \<le> unat (fz_iterations (ft_config ft)) \<and> LargeCode \<notin> set (edge_cases_found r)
    \<and> (fz_iterations (ft_config ft) \<noteq> 0 \<longrightarrow>
        (\<exists>es. last_failure r = Some (unat (fz_iterations (ft_config ft)) - 1, es) \<and> VInvalidSignature \<in> set es))"
proof -
  let ?n = "fz_iterations (ft_config ft)"
  have r: "r = fst (run_state (fuzz_loop sha tx_size R (ft_validator ft) [0..<unat ?n] no_fuzz_results) (ft_rng ft))"
    using assms(2) by (simp add: fuzz_transaction_validation_def apsnd_def map_prod_def case_prod_beta prod_eq_iff)
  have "last [0..<unat ?n] = unat ?n - 1" if "?n \<noteq> 0"
  proof -
    have "0 < unat ?n"
      using that by (metis gr0I unsigned_0 word_unat_eq_iff)
    then have "unat ?n = Suc (unat ?n - 1)"
      by simp
    then show ?thesis
      by (metis diff_Suc_1 last_snoc upt_Suc_append zero_le)
  qed
  then show ?thesis
    using fuzz_loop_refused [of R no_fuzz_results sha tx_size "ft_validator ft" "[0..<unat ?n]" "ft_rng ft"] assms(1)
    unfolding r by (auto simp: no_fuzz_results_def edges_ok_def unat_eq_zero)
qed

definition counting_rng :: "nat rng" where
  "counting_rng = \<lparr>gen_byte = State (\<lambda>g. (of_nat g, Suc g)), gen_u64 = State (\<lambda>g. (of_nat g, Suc g)),
     gen_range = (\<lambda>lo hi. State (\<lambda>g. (lo + g mod (hi - lo), Suc g))), gen_bool = (\<lambda>_. State (\<lambda>g. (even g, Suc g)))\<rparr>"

lemma counting_rng_ok: "rng_ok counting_rng"
proof -
  have "lo + x mod (hi - lo) < hi" if "lo < hi" for lo hi x :: nat
    using mod_less_divisor [of "hi - lo" x] that by linarith
  then show ?thesis
    by (auto simp: rng_ok_def counting_rng_def)
qed

theorem fuzzing_only_meets_refusals_witness:
  "\<exists>r ft'. fuzz_transaction_validation ones_sha 200 counting_rng
      (fuzz_tester_new unat \<lparr>fz_iterations = 3, fz_max_tx_size = 1000, fz_seed = 1\<rparr> default_pre_validator) = (r, ft')
    \<and> pre_validation_tests r = 3 \<and> pre_validation_failures r = 3"
proof -
  let ?ft = "fuzz_tester_new unat \<lparr>fz_iterations = 3, fz_max_tx_size = 1000, fz_seed = 1\<rparr> default_pre_validator"
  obtain r ft' where e: "fuzz_transaction_validation ones_sha 200 counting_rng ?ft = (r, ft')"
    by fastforce
  from fuzzing_only_meets_refusals [OF counting_rng_ok e] e show ?thesis
    by (auto simp: fuzz_tester_new_def)
qed


end
