(* ===== verification/Spec2Isabelle.thy ===== *)
theory Spec2Isabelle
  imports Node_Runtime Parallel_Exec Pre_Validation Dos P2p_Node State_Sync Discovery Batch_Verification Cli Rollback
    Dag_Path Production_Cli Wasm_Runtime Ws_Server Startup P2p_Legacy Statistics Spam
begin

text \<open>
  A verification library for the Cytah-speed node, a block-DAG ledger written in Rust (the
  crate under \<^verbatim>\<open>src/src\<close>).

  \<^bold>\<open>The program.\<close> Blocks name any number of parents and form a DAG (\<^verbatim>\<open>dag/\<close>), kept in a database
  (\<^verbatim>\<open>storage/\<close>). The GHOSTDAG engine (\<^verbatim>\<open>consensus/ghostdag.rs\<close>) scores and orders the blocks, the
  finality engine (\<^verbatim>\<open>finality/\<close>) declares a part of the order final. Transactions wait in a pool
  (\<^verbatim>\<open>mempool/\<close>), a producer (\<^verbatim>\<open>block/\<close>) packs them into blocks with a difficulty, a base fee and a
  reward (\<^verbatim>\<open>consensus/\<close>), and two executors (\<^verbatim>\<open>execution/\<close>, \<^verbatim>\<open>vm/\<close>) apply them to the accounts
  (\<^verbatim>\<open>state/\<close>) and contracts (\<^verbatim>\<open>contracts/\<close>). The node (\<^verbatim>\<open>node/\<close>) drives these parts from two timers and
  from outside calls; \<^verbatim>\<open>security/\<close> and \<^verbatim>\<open>network/\<close> guard its edge. Around it are an RPC server (\<^verbatim>\<open>rpc/\<close>), an
  event bus (\<^verbatim>\<open>events/\<close>), a wallet (\<^verbatim>\<open>wallet/\<close>), three command lines (\<^verbatim>\<open>cli/\<close>) and a client library
  (\<^verbatim>\<open>src/sdk/rust\<close>).

  \<^bold>\<open>Conventions.\<close> A Rust struct is a record, an enum a datatype, \<open>u64\<close> and \<open>u32\<close> are words with
  wrap-around (the release build), \<open>Result\<close> is a sum with the error on the left. A field that a
  method changes in place is returned changed, with an error too when the change comes before
  it. A hash map is an association list with distinct keys (\<open>hm_inv\<close>), a B-tree map or a column
  family of the database a list in key order (\<open>omap_inv\<close>); the order in which a hash map is
  enumerated is an argument (\<open>iter\<close>, \<open>enum\<close>), of which only what the standard library documents is
  assumed. Clock readings are arguments, one for each place that reads the clock. A double is
  the rational it denotes, rounded after every operation (\<open>F64\<close>). SHA-256, secp256k1, RocksDB,
  bincode, the WebAssembly engine, tokio's channels, the transport of HTTP, the file system, random
  numbers and rayon are parameters; the predicates \<open>sha_len\<close>,
  \<open>sha_collision_free\<close> (always relative to a given set of inputs), \<open>secp_ok\<close>, \<open>rocks_ok\<close>, \<open>codec_ok\<close>,
  \<open>cdb_ok\<close>, \<open>pdb_ok\<close>, \<open>find_any_ok\<close>, \<open>exp_ok\<close>, \<open>wire_ok\<close>, \<open>engine_ok\<close>, \<open>broadcast_ok\<close>, \<open>rng_ok\<close> name what the code relies on, each with an instance
  at which the witnesses evaluate.

  \<^bold>\<open>Theories.\<close>
  \<^item> \<open>Prelude\<close>: words, saturating arithmetic, byte strings, ordered and unordered maps.
  \<^item> \<open>Transaction\<close> (\<^verbatim>\<open>core/transaction.rs\<close>, \<^verbatim>\<open>crypto/mod.rs\<close>): hashing, signing, validation; what is
    signed validates, and the hashed bytes determine the transaction.
  \<^item> \<open>F64\<close>, \<open>Mining\<close> (\<^verbatim>\<open>consensus/mining.rs\<close>): rounding as an interpreted locale; rewards within the
    supply, proof of work as leading zero bits, the producer's difficulty within its range.
  \<^item> \<open>Block\<close> (\<^verbatim>\<open>core/block.rs\<close>): hashing, validation, consensus metadata.
  \<^item> \<open>Block_Store\<close> (\<^verbatim>\<open>storage/block_store.rs\<close>): the database with its cache refines an ordered map of
    blocks (\<open>store_view\<close>), the interface \<open>block_storage\<close> of the DAG.
  \<^item> \<open>Worklist\<close>, \<open>Topological\<close>: the graph algorithms of the index, on any graph that satisfies the
    locales there: breadth-first searches, depth levels, Kahn's topological sort, with termination.
  \<^item> \<open>Dag_Index\<close>, \<open>Block_Dag\<close> (\<^verbatim>\<open>dag/\<close>): the index and the DAG; \<open>dag_inv\<close> holds in every DAG that
    insertions build, and reachability, heights, topological order and rebuilt indices follow; the
    topological indices of the blocks count the insertions (\<open>topo_ok\<close>).
  \<^item> \<open>Ghostdag\<close> (\<^verbatim>\<open>consensus/ghostdag.rs\<close>, \<^verbatim>\<open>blue_set.rs\<close>, \<^verbatim>\<open>dag_traversal.rs\<close>): scores, parent selection and
    the ordering, which is total, deterministic and accepted by its validator.
  \<^item> \<open>Finality\<close> (\<^verbatim>\<open>finality/finality_engine.rs\<close>): the final blocks are a prefix of the order; anticones
    are sound.
  \<^item> \<open>State\<close> (\<^verbatim>\<open>state/\<close>): accounts, Merkle tree, transfers, supply cap.
  \<^item> \<open>Fees\<close> (\<^verbatim>\<open>consensus/fee_market.rs\<close>, \<^verbatim>\<open>daa.rs\<close>), \<open>Mempool\<close> (\<^verbatim>\<open>mempool/tx_dag_mempool.rs\<close>).
  \<^item> \<open>Contracts\<close> (\<^verbatim>\<open>vm/\<close>, \<^verbatim>\<open>contracts/\<close>, \<^verbatim>\<open>execution/transaction_executor.rs\<close>): gas, host functions over the
    contract memory, registry, the sequential executor and its conservation of coins.
  \<^item> \<open>Scheduler\<close>, \<open>Parallel_Exec\<close> (\<^verbatim>\<open>execution/parallel_executor.rs\<close>): conflict-free batches, and batches
    that have the effect of running their transactions one after the other.
  \<^item> \<open>Block_Producer\<close> (\<^verbatim>\<open>block/block_producer.rs\<close>): the candidate block, mining.
  \<^item> \<open>Pruning\<close> (\<^verbatim>\<open>storage/pruning.rs\<close>): snapshots, which blocks a run of the pruner removes and what it records.
  \<^item> \<open>Node_Runtime\<close> (\<^verbatim>\<open>node/node_runtime.rs\<close>): the composition as a step relation \<open>node_step\<close>, its
    invariant \<open>node_inv\<close>, and what becomes of the blocks a node produces.
  \<^item> \<open>Wasm_Runtime\<close> (\<^verbatim>\<open>vm/wasm_runtime.rs\<close>): the wrapper of the engine that \<open>Contracts\<close> takes as an argument; with it
    no contract runs.
  \<^item> \<open>Rollback\<close> (\<^verbatim>\<open>storage/block_store.rs\<close>), \<open>Dag_Path\<close> (\<^verbatim>\<open>consensus/dag_traversal.rs\<close>): the rollback of blocks with the replay
    of the state; paths and deepest common ancestors.
  \<^item> \<open>Statistics\<close>: the figures that the consensus components and the node report; blue and red blocks
    divide the DAG.
  \<^item> \<open>Pre_Validation\<close>, \<open>Sliding_Window\<close>, \<open>Dos\<close>, \<open>Spam\<close>, \<open>Batch_Verification\<close> (\<^verbatim>\<open>security/\<close>): the checks at the edge of
    the node. The rate limits of \<open>Dos\<close> and \<open>Spam\<close>, under the turns of their cleanup tasks too, are two
    interpretations of one locale.
  \<^item> \<open>Peers\<close>, \<open>Network\<close>, \<open>P2p_Node\<close>, \<open>State_Sync\<close>, \<open>Discovery\<close>, \<open>P2p_Legacy\<close> (\<^verbatim>\<open>network/\<close>): the peer table, gossip and
    synchronisation, nodes over a wire as a step relation, the transfer of states, reputations, and
    the in-memory network that nothing uses.
  \<^item> \<open>Rpc\<close> (\<^verbatim>\<open>rpc/server.rs\<close>), \<open>Sdk_Client\<close> (\<^verbatim>\<open>src/sdk/rust\<close>), \<open>Wallet\<close> (\<^verbatim>\<open>wallet/\<close> and the wallet of the SDK): handlers,
    routes and encodings, the client on top of them, keys and addresses; what is submitted by the
    client can be read back by it.
  \<^item> \<open>Events\<close> (\<^verbatim>\<open>events/\<close>), \<open>Ws_Server\<close> (\<^verbatim>\<open>rpc/ws_server.rs\<close>): the bus and its listeners, delivery in order; a web
    socket refines a listener.
  \<^item> \<open>Cli\<close> (\<^verbatim>\<open>cli/cli.rs\<close>), \<open>Interactive\<close> (\<^verbatim>\<open>cli/interactive.rs\<close>), \<open>Production_Cli\<close> (\<^verbatim>\<open>cli/cli_interface.rs\<close>), \<open>Startup\<close>
    (\<^verbatim>\<open>main.rs\<close>, \<^verbatim>\<open>config.rs\<close>): commands, menus as turns of a session beside the task of the node, and
    the configuration; what sessions can and cannot do to a node, over whatever stores they open.
  This theory has the properties that span components not related by the code itself.

  \<^bold>\<open>Loops.\<close> Every loop is a total function with a termination proof: searches by the nodes not yet
  seen, rounds of the ordering by the blocks not yet placed, eviction by the length of the cache,
  the Merkle and interval trees by the number of nodes. Only \<open>levels\<close>, the loop over the depths of the
  index, takes a bound on its rounds, one more than the number of parent links, which is shown to
  suffice on every valid DAG. Elsewhere \<open>None\<close> marks a panic, such as the underflow of a counter in
  the topological sort, and the properties show that it is not met from states that satisfy the
  invariants. The nonce search ends because the code
  bounds it by \<open>u64::MAX\<close>.

  \<^bold>\<open>Not modelled.\<close> The indexers (\<^verbatim>\<open>src/indexer\<close>) and the mobile part of the SDK, which do not type-check
  against the crate, and the build script. Within modelled files: opening databases, building the
  libp2p swarm, binding sockets, logging and printed texts, the size figures of the database, and the web
  socket subscriptions of the client library. Operations behind several locks are one step
  each; interleavings inside one operation are not modelled, except that the parallel executor's
  transactions each start from the same state.
\<close>

section \<open>Pre-validation before parallel execution\<close>

text \<open>
  C13. The parallel executor loses the amount of a transfer to oneself, and the state manager does
  not. Pre-validation refuses such transfers, so behind it the two agree: on every signed
  transfer that pre-validation accepts and that is neither from nor to the emission tracker's address,
  on a ledger that satisfies the state invariant, the parallel executor fails exactly when the
  state manager does, with nothing changed, and otherwise leaves the same accounts.
\<close>

theorem prevalidated_transfers_agree:
  assumes "is_valid (pre_validate_transaction sha tx_size tx v)" and "tx_validate_basic sha k tx = Inr ()"
    and "payload tx = Transfer to n" and "state_inv (ce_state ce)"
    and "tx_from tx \<noteq> EMISSION_STATE_ACCOUNT" and "to \<noteq> EMISSION_STATE_ACCOUNT"
  shows "case apply_transaction sha iter tx (ce_state ce) of
      Inl e \<Rightarrow> \<exists>e'. execute_batch sha k iter KR C KS W [tx] ce = Some ([failed (tx_hash sha tx) e'], ce)
    | Inr s \<Rightarrow> \<exists>ce'. execute_batch sha k iter KR C KS W [tx] ce =
          Some ([succeeded (tx_hash sha tx) (gas_limit tx)], ce')
        \<and> (\<forall>a. ce_account ce' a = account_or_zero (state_tree s) a)
        \<and> ce_storage ce' = ce_storage ce \<and> ce_registry ce' = ce_registry ce"
proof -
  have "well_formed_payload tx"
    using assms(1) by (simp add: pre_validate_checks validate_format_ok)
  then have "tx_from tx \<noteq> to"
    using assms(3) by (auto simp: well_formed_payload_def)
  from transfer_agreement [OF assms(3,2,4) this assms(5,6)] show ?thesis .
qed

theorem prevalidated_transfers_agree_witness:
  "case apply_transaction ones_sha id (genesis_transfer (replicate 20 3)) (ce_state sample_executor) of
     Inl e \<Rightarrow> \<exists>e'. execute_batch ones_sha sample_secp id log_cdb sample_info_codec log_cdb idle_wasm
         [genesis_transfer (replicate 20 3)] sample_executor =
         Some ([failed (tx_hash ones_sha (genesis_transfer (replicate 20 3))) e'], sample_executor)
   | Inr s \<Rightarrow> \<exists>ce'. execute_batch ones_sha sample_secp id log_cdb sample_info_codec log_cdb idle_wasm
         [genesis_transfer (replicate 20 3)] sample_executor =
         Some ([succeeded (tx_hash ones_sha (genesis_transfer (replicate 20 3))) 21], ce')
       \<and> ce_account ce' GENESIS_WALLET = account_or_zero (state_tree s) GENESIS_WALLET"
proof -
  let ?tx = "genesis_transfer (replicate 20 3)"
  have tx: "gas_limit ?tx = 21" "gas_price ?tx = 1" "length (sig_data (tx_signature ?tx)) = 65"
    by (simp_all add: genesis_transfer_def new_transfer_def)
  have "is_valid (pre_validate_transaction ones_sha 200 ?tx (pre_validator_new 100 1 1000))"
    by (simp add: pre_validate_checks validate_format_ok validate_gas_ok validate_addresses_ok
        pre_validator_new_def pv_validate_signature_def check_duplicate_def well_formed_payload_def
        genesis_transfer_payload tx GENESIS_WALLET_def)
  moreover have "state_inv (ce_state sample_executor)"
    by (simp add: sample_executor_def initialized_state_inv)
  moreover have "replicate 20 3 \<noteq> EMISSION_STATE_ACCOUNT"
    by (simp add: EMISSION_STATE_ACCOUNT_def)
  ultimately show ?thesis
    using prevalidated_transfers_agree [OF _ genesis_transfer_valid genesis_transfer_payload(1),
        of 200 "replicate 20 3" "pre_validator_new 100 1 1000" sample_executor id log_cdb sample_info_codec
        log_cdb idle_wasm]
      emission_not_genesis [symmetric]
    by (auto simp: genesis_transfer_payload(2) tx(1) split: sum.splits)
qed

end
